(* ===== verification/Prelude.thy ===== *)
theory Prelude
  imports Main "HOL-Library.Monad_Syntax" "HOL-Library.Word"
begin

text \<open>
  The prelude of the development: machine integers, the constants of
  \<open>include/geekos/defs.h\<close>, the character and extremum macros of
  \<open>include/geekos/ktypes.h\<close>, the error codes of \<open>include/geekos/errno.h\<close>, the kernel
  assertion \<open>KASSERT\<close>, and the lemmas on the option monad that every component uses.

  Convention: an operation of the kernel that can stop the machine (a failed \<open>KASSERT\<close>
  spins forever in \<open>include/geekos/kassert.h\<close>), that reads or writes outside the object
  it was given, or that loops forever, returns \<open>None\<close>.  Error codes the code returns to
  its caller are ordinary integer values and never \<open>None\<close>.
\<close>

unbundle bit_operations_syntax

section \<open>Machine integers\<close>

type_synonym u8 = "8 word"
type_synonym u16 = "16 word"
type_synonym u32 = "32 word"

named_theorems kmonad \<open>characterisations of successful runs in the option monad\<close>
named_theorems kdefs \<open>definitions of small state updates that proofs always unfold\<close>

section \<open>Kernel assertions\<close>

definition kassert :: "bool \<Rightarrow> unit option" where
  "kassert b = (if b then Some () else None)"

lemma kassert_eq_Some [simp, kmonad]: "kassert b = Some u \<longleftrightarrow> b"
  by (simp add: kassert_def)

lemma kassert_True [simp]: "kassert True = Some ()"
  by (simp add: kassert_def)

lemma kassert_False [simp]: "kassert False = None"
  by (simp add: kassert_def)

lemma kassert_eq_None [simp]: "kassert b = None \<longleftrightarrow> \<not> b"
  by (simp add: kassert_def)

lemma bind_kassert: "Option.bind (kassert b) f = (if b then f () else None)"
  by (simp add: kassert_def)

lemma bind_eq_SomeE:
  assumes "Option.bind m f = Some y"
  obtains x where "m = Some x" and "f x = Some y"
  using assms by (auto simp: bind_eq_Some_conv)

lemmas [kmonad] = bind_eq_Some_conv bind_eq_None_conv

section \<open>Constants of defs.h\<close>

definition KERNEL_CS :: u32 where "KERNEL_CS = push_bit 3 1"
definition KERNEL_DS :: u32 where "KERNEL_DS = push_bit 3 2"
definition KERN_THREAD_OBJ :: u32 where "KERN_THREAD_OBJ = 1024 * 1024"
definition KERN_STACK :: u32 where "KERN_STACK = KERN_THREAD_OBJ + 4096"
definition KERNEL_START_ADDR :: u32 where "KERNEL_START_ADDR = 0x10000"
definition KERNEL_PRIVILEGE :: nat where "KERNEL_PRIVILEGE = 0"
definition USER_PRIVILEGE :: nat where "USER_PRIVILEGE = 3"
definition PAGE_POWER :: nat where "PAGE_POWER = 12"
definition PAGE_SIZE :: u32 where "PAGE_SIZE = push_bit PAGE_POWER 1"
definition PAGE_MASK :: u32 where "PAGE_MASK = NOT (push_bit PAGE_POWER 0xffffffff)"

lemma KERNEL_CS_val: "KERNEL_CS = 8"
  by (simp add: KERNEL_CS_def)

lemma KERNEL_DS_val: "KERNEL_DS = 16"
  by (simp add: KERNEL_DS_def)

lemma PAGE_SIZE_val: "PAGE_SIZE = 4096"
  by (simp add: PAGE_SIZE_def PAGE_POWER_def)

lemma PAGE_MASK_val: "PAGE_MASK = 0xfff"
  by (simp add: PAGE_MASK_def PAGE_POWER_def)

lemmas defs_h = KERNEL_CS_val KERNEL_DS_val PAGE_SIZE_val PAGE_MASK_val
  KERN_THREAD_OBJ_def KERN_STACK_def KERNEL_START_ADDR_def
  KERNEL_PRIVILEGE_def USER_PRIVILEGE_def PAGE_POWER_def

section \<open>Macros of ktypes.h\<close>

text \<open>Both macros expand to the same conditional, as in the source.\<close>

definition C_MIN :: "'a::ord \<Rightarrow> 'a \<Rightarrow> 'a" where
  "C_MIN a b = (if a < b then a else b)"

definition C_MAX :: "'a::ord \<Rightarrow> 'a \<Rightarrow> 'a" where
  "C_MAX a b = (if a < b then a else b)"

definition ISDIGIT :: "int \<Rightarrow> bool" where
  "ISDIGIT c \<longleftrightarrow> c \<ge> 48 \<and> c \<le> 57"

definition TOLOWER :: "int \<Rightarrow> int" where
  "TOLOWER c = (if c \<ge> 65 \<and> c \<le> 90 then c + (97 - 65) else c)"

definition TOUPPER :: "int \<Rightarrow> int" where
  "TOUPPER c = (if c \<ge> 97 \<and> c \<le> 122 then c - (97 - 65) else c)"

lemma C_MIN_min: "C_MIN a b = min a (b :: 'a::linorder)"
  by (auto simp: C_MIN_def min_def)

text \<open>The macro \<open>MAX\<close>, here \<open>C_MAX\<close>, computes the smaller of its arguments.\<close>

lemma C_MAX_min: "C_MAX a b = min a (b :: 'a::linorder)"
  by (auto simp: C_MAX_def min_def)

lemma TOUPPER_TOLOWER: "97 \<le> c \<and> c \<le> 122 \<Longrightarrow> TOLOWER (TOUPPER c) = c"
  by (simp add: TOUPPER_def TOLOWER_def)

section \<open>Error codes of errno.h\<close>

definition EUNSPECIFIED :: int where "EUNSPECIFIED = -1"
definition ENOTFOUND :: int where "ENOTFOUND = -2"
definition EUNSUPPORTED :: int where "EUNSUPPORTED = -3"
definition ENODEV :: int where "ENODEV = -4"
definition EIO :: int where "EIO = -5"
definition EBUSY :: int where "EBUSY = -6"
definition ENOMEM :: int where "ENOMEM = -7"
definition ENOFILESYS :: int where "ENOFILESYS = -8"
definition ENAMETOOLONG :: int where "ENAMETOOLONG = -9"
definition EINVALIDFS :: int where "EINVALIDFS = -10"
definition EACCESS :: int where "EACCESS = -11"
definition EINVALID :: int where "EINVALID = -12"

lemmas errno_h = EUNSPECIFIED_def ENOTFOUND_def EUNSUPPORTED_def ENODEV_def EIO_def
  EBUSY_def ENOMEM_def ENOFILESYS_def ENAMETOOLONG_def EINVALIDFS_def EACCESS_def EINVALID_def

section \<open>Lists\<close>

text \<open>The first element of a list followed by \<open>q\<close>, and the last of one preceded by \<open>p\<close>.\<close>

fun hd_opt :: "'a list \<Rightarrow> 'a option \<Rightarrow> 'a option" where
  "hd_opt [] q = q"
| "hd_opt (x # xs) q = Some x"

fun last_opt :: "'a option \<Rightarrow> 'a list \<Rightarrow> 'a option" where
  "last_opt p [] = p"
| "last_opt p (x # xs) = last_opt (Some x) xs"

lemma hd_opt_append [simp]: "hd_opt (xs @ ys) q = hd_opt xs (hd_opt ys q)"
  by (cases xs) auto

lemma last_opt_append [simp]: "last_opt p (xs @ ys) = last_opt (last_opt p xs) ys"
  by (induction xs arbitrary: p) auto

lemma hd_opt_None [simp]: "hd_opt xs None = None \<longleftrightarrow> xs = []"
  by (cases xs) auto

lemma last_opt_None: "last_opt p xs = None \<longleftrightarrow> p = None \<and> xs = []"
  by (induction xs arbitrary: p) auto

lemma last_opt_nonempty: "xs \<noteq> [] \<Longrightarrow> last_opt p xs = Some (last xs)"
  by (induction xs arbitrary: p) (auto split: if_splits)

lemma hd_opt_Some_iff: "hd_opt xs None = Some x \<longleftrightarrow> (\<exists>ys. xs = x # ys)"
  by (cases xs) auto

lemma last_opt_in_set: "last_opt p xs = Some x \<Longrightarrow> p = None \<Longrightarrow> x \<in> set xs"
  by (cases "xs = []") (auto simp: last_opt_nonempty)

lemma hd_opt_in_set: "hd_opt xs None = Some x \<Longrightarrow> x \<in> set xs"
  by (cases xs) auto

lemma remove1_middle: "x \<notin> set ys \<Longrightarrow> remove1 x (ys @ x # zs) = ys @ zs"
  by (induction ys) auto

lemma map_eqI: "(\<And>x y. f x = Some y \<longleftrightarrow> g x = Some y) \<Longrightarrow> f = g"
  by (rule ext) (metis option.exhaust)

lemma map_of_map_val:
  "map_of (map (\<lambda>e. (k e, g (v e))) es) x = map_option g (map_of (map (\<lambda>e. (k e, v e)) es) x)"
  by (induction es) auto

section \<open>Counting loops on 32-bit words\<close>

lemma unat_less_2_32: "unat (n :: u32) < 4294967296"
  using unsigned_less [of n, where ?'a = nat] by simp

lemma unat_Suc_less: "i < (n :: u32) \<Longrightarrow> unat (i + 1) = Suc (unat i)"
  using unat_less_2_32 [of n] by (auto simp: word_less_nat_alt unat_plus_if')

lemma unat_diff_Suc_less: "i < (n :: u32) \<Longrightarrow> unat (n - (i + 1)) < unat (n - i)"
proof -
  assume i: "i < n"
  then have "i + 1 \<le> n" using unat_Suc_less [OF i] by (simp add: word_less_nat_alt word_le_nat_alt)
  then show ?thesis
    using i unat_sub [of i n] unat_sub [of "i + 1" n]
    by (simp add: unat_Suc_less word_less_nat_alt word_le_nat_alt)
qed

text \<open>The value of an \<open>int\<close> after an operation on 32 bits.\<close>

definition s32 :: "int \<Rightarrow> int" where "s32 i = signed_take_bit 31 i"

lemma s32_id: "- 2147483648 \<le> i \<Longrightarrow> i < 2147483648 \<Longrightarrow> s32 i = i"
  unfolding s32_def by (rule signed_take_bit_int_eq_self) auto

end
