(* ===== verification/Linked_List.thy ===== *)
theory Linked_List
  imports Prelude
begin

text \<open>
  The intrusive doubly linked lists of \<open>include/geekos/list.h\<close> at the level of their
  pointers.  A node is identified by its address (type \<open>'n\<close>), the null pointer is
  \<open>None\<close>.  The two link fields a \<open>DEFINE_LINK\<close> adds to a node struct are the maps
  \<open>nxt\<close> and \<open>prv\<close>; a list header is a \<open>head\<close>/\<open>tail\<close> pair.  The operations of
  \<open>IMPLEMENT_LIST\<close> are refined to operations on the list of the nodes' addresses
  (\<open>dl_repr\<close>), which is what the other components use for their queues.
  The interface locale \<open>fifo\<close> states what a queue client may rely on.
\<close>

section \<open>Data\<close>

record 'n links =
  nxt :: "'n \<Rightarrow> 'n option"
  prv :: "'n \<Rightarrow> 'n option"

record 'n dlist =
  dl_head :: "'n option"
  dl_tail :: "'n option"

type_synonym 'n dl_state = "'n links \<times> 'n dlist"

section \<open>Operations\<close>

definition Clear_List :: "'n dlist" where
  "Clear_List = \<lparr>dl_head = None, dl_tail = None\<rparr>"

text \<open>The search loop follows \<open>nxt\<close>; on a cyclic list without the node it never ends.\<close>

partial_function (option) Is_Member_Loop ::
  "'n links \<Rightarrow> 'n \<Rightarrow> 'n option \<Rightarrow> bool option" where
  "Is_Member_Loop h n cur =
     (case cur of
        None \<Rightarrow> Some False
      | Some c \<Rightarrow> if c = n then Some True else Is_Member_Loop h n (nxt h c))"

definition Is_Member_Of :: "'n links \<Rightarrow> 'n dlist \<Rightarrow> 'n \<Rightarrow> bool option" where
  "Is_Member_Of h l n = Is_Member_Loop h n (dl_head l)"

definition Get_Front_Of :: "'n dlist \<Rightarrow> 'n option" where
  "Get_Front_Of l = dl_head l"

definition Get_Back_Of :: "'n dlist \<Rightarrow> 'n option" where
  "Get_Back_Of l = dl_tail l"

definition Get_Next_In :: "'n links \<Rightarrow> 'n \<Rightarrow> 'n option" where
  "Get_Next_In h n = nxt h n"

definition Set_Next_In :: "'n \<Rightarrow> 'n option \<Rightarrow> 'n links \<Rightarrow> 'n links" where
  "Set_Next_In n v h = h\<lparr>nxt := (nxt h)(n := v)\<rparr>"

definition Get_Prev_In :: "'n links \<Rightarrow> 'n \<Rightarrow> 'n option" where
  "Get_Prev_In h n = prv h n"

definition Set_Prev_In :: "'n \<Rightarrow> 'n option \<Rightarrow> 'n links \<Rightarrow> 'n links" where
  "Set_Prev_In n v h = h\<lparr>prv := (prv h)(n := v)\<rparr>"

definition Add_To_Front_Of :: "'n \<Rightarrow> 'n dl_state \<Rightarrow> 'n dl_state option" where
  "Add_To_Front_Of n s = (case s of (h, l) \<Rightarrow> do {
     m \<leftarrow> Is_Member_Of h l n;
     kassert (\<not> m);
     let h = Set_Prev_In n None h;
     (case dl_head l of
        None \<Rightarrow> Some (Set_Next_In n None h, l\<lparr>dl_head := Some n, dl_tail := Some n\<rparr>)
      | Some f \<Rightarrow> Some (Set_Next_In n (Some f) (Set_Prev_In f (Some n) h), l\<lparr>dl_head := Some n\<rparr>))
   })"

definition Add_To_Back_Of :: "'n \<Rightarrow> 'n dl_state \<Rightarrow> 'n dl_state option" where
  "Add_To_Back_Of n s = (case s of (h, l) \<Rightarrow> do {
     m \<leftarrow> Is_Member_Of h l n;
     kassert (\<not> m);
     let h = Set_Next_In n None h;
     (case dl_tail l of
        None \<Rightarrow> Some (Set_Prev_In n None h, l\<lparr>dl_head := Some n, dl_tail := Some n\<rparr>)
      | Some b \<Rightarrow> Some (Set_Prev_In n (Some b) (Set_Next_In b (Some n) h), l\<lparr>dl_tail := Some n\<rparr>))
   })"

text \<open>\<open>Append\<close> moves the nodes of \<open>app\<close> behind those of \<open>l\<close> and empties \<open>app\<close>.\<close>

definition Append_List :: "'n links \<Rightarrow> 'n dlist \<Rightarrow> 'n dlist \<Rightarrow> ('n links \<times> 'n dlist \<times> 'n dlist) option" where
  "Append_List h l app =
     (case dl_head app of
        None \<Rightarrow> Some (h, l, Clear_List)
      | Some a \<Rightarrow>
         (case dl_head l of
            None \<Rightarrow> Some (h, l\<lparr>dl_head := dl_head app, dl_tail := dl_tail app\<rparr>, Clear_List)
          | Some _ \<Rightarrow>
             (case dl_tail l of
                None \<Rightarrow> None
              | Some t \<Rightarrow>
                 Some (Set_Next_In t (Some a) (Set_Prev_In a (Some t) h),
                       l\<lparr>dl_tail := dl_tail app\<rparr>, Clear_List))))"

definition Remove_From_Front_Of :: "'n dl_state \<Rightarrow> ('n \<times> 'n dl_state) option" where
  "Remove_From_Front_Of s = (case s of (h, l) \<Rightarrow>
     (case dl_head l of
        None \<Rightarrow> None
      | Some n \<Rightarrow>
         (case nxt h n of
            None \<Rightarrow> Some (n, h, l\<lparr>dl_head := None, dl_tail := None\<rparr>)
          | Some f \<Rightarrow> Some (n, Set_Prev_In f None h, l\<lparr>dl_head := Some f\<rparr>))))"

definition Unlink_Prev :: "'n \<Rightarrow> 'n dl_state \<Rightarrow> 'n dl_state" where
  "Unlink_Prev n s = (case s of (h, l) \<Rightarrow>
     (case prv h n of
        Some p \<Rightarrow> (Set_Next_In p (nxt h n) h, l)
      | None \<Rightarrow> (h, l\<lparr>dl_head := nxt h n\<rparr>)))"

definition Unlink_Next :: "'n \<Rightarrow> 'n dl_state \<Rightarrow> 'n dl_state" where
  "Unlink_Next n s = (case s of (h, l) \<Rightarrow>
     (case nxt h n of
        Some q \<Rightarrow> (Set_Prev_In q (prv h n) h, l)
      | None \<Rightarrow> (h, l\<lparr>dl_tail := prv h n\<rparr>)))"

definition Remove_From :: "'n \<Rightarrow> 'n dl_state \<Rightarrow> 'n dl_state option" where
  "Remove_From n s = do {
     m \<leftarrow> Is_Member_Of (fst s) (snd s) n;
     kassert m;
     Some (Unlink_Next n (Unlink_Prev n s))
   }"

definition Is_List_Empty :: "'n dlist \<Rightarrow> bool" where
  "Is_List_Empty l \<longleftrightarrow> dl_head l = None"

lemmas link_defs [kdefs] = Set_Next_In_def Set_Prev_In_def Get_Next_In_def Get_Prev_In_def

section \<open>Representation of a list of nodes\<close>

text \<open>
  \<open>dseg h p ns q\<close>: the nodes \<open>ns\<close> are linked in this order in both directions, the
  first one pointing back to \<open>p\<close> and the last one forward to \<open>q\<close>.
\<close>

fun dseg :: "'n links \<Rightarrow> 'n option \<Rightarrow> 'n list \<Rightarrow> 'n option \<Rightarrow> bool" where
  "dseg h p [] q \<longleftrightarrow> True"
| "dseg h p (n # ns) q \<longleftrightarrow>
     prv h n = p \<and> nxt h n = hd_opt ns q \<and> dseg h (Some n) ns q"

definition dl_repr :: "'n dl_state \<Rightarrow> 'n list \<Rightarrow> bool" where
  "dl_repr s ns \<longleftrightarrow>
     distinct ns \<and> dl_head (snd s) = hd_opt ns None \<and> dl_tail (snd s) = last_opt None ns
     \<and> dseg (fst s) None ns None"

lemma dseg_append:
  "dseg h p (xs @ ys) q \<longleftrightarrow> dseg h p xs (hd_opt ys q) \<and> dseg h (last_opt p xs) ys q"
  by (induction xs arbitrary: p) auto

lemma dseg_cong:
  assumes "\<forall>n \<in> set ns. nxt h' n = nxt h n \<and> prv h' n = prv h n"
  shows "dseg h' p ns q = dseg h p ns q"
  using assms by (induction ns arbitrary: p) auto

lemma dseg_frame [simp]:
  assumes "n \<notin> set ns"
  shows "dseg (h\<lparr>nxt := f(n := v)\<rparr>) p ns q = dseg (h\<lparr>nxt := f\<rparr>) p ns q"
    and "dseg (h\<lparr>prv := g(n := v)\<rparr>) p ns q = dseg (h\<lparr>prv := g\<rparr>) p ns q"
    and "dseg (h\<lparr>nxt := f(n := v), prv := g\<rparr>) p ns q = dseg (h\<lparr>nxt := f, prv := g\<rparr>) p ns q"
    and "dseg (h\<lparr>prv := g(n := v), nxt := f\<rparr>) p ns q = dseg (h\<lparr>prv := g, nxt := f\<rparr>) p ns q"
  by (rule dseg_cong, use assms in force)+

lemma dl_reprE:
  assumes "dl_repr (h, l) ns"
  shows "distinct ns" and "dl_head l = hd_opt ns None" and "dl_tail l = last_opt None ns"
    and "dseg h None ns None"
  using assms by (auto simp: dl_repr_def)

lemma Clear_List_repr: "dl_repr (h, Clear_List) []"
  by (simp add: dl_repr_def Clear_List_def)

section \<open>Refinement of the operations\<close>

lemma Is_Member_Loop_seg:
  "dseg h p ns None \<Longrightarrow> Is_Member_Loop h n (hd_opt ns None) = Some (n \<in> set ns)"
proof (induction ns arbitrary: p)
  case Nil
  show ?case by (simp add: Is_Member_Loop.simps)
next
  case (Cons m ns)
  then show ?case by (subst Is_Member_Loop.simps) auto
qed

lemma Is_Member_Of_repr:
  "dl_repr (h, l) ns \<Longrightarrow> Is_Member_Of h l n = Some (n \<in> set ns)"
  by (auto simp: Is_Member_Of_def dl_repr_def intro: Is_Member_Loop_seg)

lemma Is_List_Empty_repr: "dl_repr (h, l) ns \<Longrightarrow> Is_List_Empty l \<longleftrightarrow> ns = []"
  by (simp add: Is_List_Empty_def dl_repr_def)

lemma Get_Front_Of_repr: "dl_repr (h, l) ns \<Longrightarrow> Get_Front_Of l = hd_opt ns None"
  by (simp add: Get_Front_Of_def dl_repr_def)

lemma Get_Back_Of_repr: "dl_repr (h, l) ns \<Longrightarrow> Get_Back_Of l = last_opt None ns"
  by (simp add: Get_Back_Of_def dl_repr_def)

lemma Add_To_Front_Of_repr:
  assumes r: "dl_repr (h, l) ns" and n: "n \<notin> set ns"
  shows "\<exists>s'. Add_To_Front_Of n (h, l) = Some s' \<and> dl_repr s' (n # ns)"
proof (cases ns)
  case Nil
  with r n show ?thesis
    by (auto simp: Add_To_Front_Of_def Is_Member_Of_repr [OF r] dl_repr_def link_defs)
next
  case (Cons f fs)
  with r n show ?thesis
    by (auto simp: Add_To_Front_Of_def Is_Member_Of_repr [OF r] dl_repr_def link_defs)
qed

lemma Add_To_Front_Of_member:
  "dl_repr (h, l) ns \<Longrightarrow> n \<in> set ns \<Longrightarrow> Add_To_Front_Of n (h, l) = None"
  by (simp add: Add_To_Front_Of_def Is_Member_Of_repr)

lemma Add_To_Back_Of_repr:
  assumes r: "dl_repr (h, l) ns" and n: "n \<notin> set ns"
  shows "\<exists>s'. Add_To_Back_Of n (h, l) = Some s' \<and> dl_repr s' (ns @ [n])"
proof (cases ns rule: rev_cases)
  case Nil
  with r n show ?thesis
    by (auto simp: Add_To_Back_Of_def Is_Member_Of_repr [OF r] dl_repr_def link_defs)
next
  case (snoc bs b)
  with r n show ?thesis
    by (auto simp: Add_To_Back_Of_def Is_Member_Of_repr [OF r] dl_repr_def link_defs dseg_append)
qed

lemma Add_To_Back_Of_member:
  "dl_repr (h, l) ns \<Longrightarrow> n \<in> set ns \<Longrightarrow> Add_To_Back_Of n (h, l) = None"
  by (simp add: Add_To_Back_Of_def Is_Member_Of_repr)

lemma Remove_From_Front_Of_repr:
  assumes r: "dl_repr (h, l) (n # ns)"
  shows "\<exists>s'. Remove_From_Front_Of (h, l) = Some (n, s') \<and> dl_repr s' ns"
  using r by (cases ns) (auto simp: Remove_From_Front_Of_def dl_repr_def link_defs)

lemma Remove_From_Front_Of_empty:
  "dl_repr (h, l) [] \<Longrightarrow> Remove_From_Front_Of (h, l) = None"
  by (simp add: Remove_From_Front_Of_def dl_repr_def)

lemma Append_List_repr:
  assumes l: "dl_repr (h, l) xs" and a: "dl_repr (h, a) ys" and d: "set xs \<inter> set ys = {}"
  shows "\<exists>h' l' a'. Append_List h l a = Some (h', l', a')
           \<and> dl_repr (h', l') (xs @ ys) \<and> dl_repr (h', a') []"
proof (cases "xs = [] \<or> ys = []")
  case True
  with l a show ?thesis
    by (cases ys) (auto simp: Append_List_def dl_repr_def Clear_List_def split: option.splits)
next
  case False
  then obtain bs b f fs where x: "xs = bs @ [b]" and y: "ys = f # fs"
    by (metis neq_Nil_conv rev_exhaust)
  from l a d show ?thesis unfolding x y
    by (cases bs) (auto simp: Append_List_def dl_repr_def Clear_List_def dseg_append link_defs)
qed

lemma Unlink_repr:
  assumes r: "dl_repr (h, l) (xs @ n # ys)"
  shows "dl_repr (Unlink_Next n (Unlink_Prev n (h, l))) (xs @ ys)"
  using r
  by (cases xs rule: rev_cases; cases ys)
     (auto simp: dl_repr_def Unlink_Next_def Unlink_Prev_def dseg_append link_defs)

lemma Remove_From_repr:
  assumes r: "dl_repr (h, l) ns" and n: "n \<in> set ns"
  shows "\<exists>s'. Remove_From n (h, l) = Some s' \<and> dl_repr s' (remove1 n ns)"
proof -
  from n obtain xs ys where ns: "ns = xs @ n # ys" and "n \<notin> set xs"
    by (meson split_list_first)
  then have "remove1 n ns = xs @ ys" by (simp add: remove1_middle)
  with r n ns Unlink_repr [of h l xs n ys] show ?thesis
    by (simp add: Remove_From_def Is_Member_Of_repr)
qed

lemma Remove_From_nonmember:
  "dl_repr (h, l) ns \<Longrightarrow> n \<notin> set ns \<Longrightarrow> Remove_From n (h, l) = None"
  by (simp add: Remove_From_def Is_Member_Of_repr)

section \<open>Frame: the other lists over the same links\<close>

text \<open>\<open>same_links ns h h'\<close>: the two link maps agree outside \<open>ns\<close>.\<close>

definition same_links :: "'n set \<Rightarrow> 'n links \<Rightarrow> 'n links \<Rightarrow> bool" where
  "same_links ns h h' \<longleftrightarrow> (\<forall>m. m \<notin> ns \<longrightarrow> nxt h' m = nxt h m \<and> prv h' m = prv h m)"

lemma same_links_repr:
  assumes "dl_repr (h, k) ms" and "same_links ns h h'" and "ns \<inter> set ms = {}"
  shows "dl_repr (h', k) ms"
proof -
  have "dseg h' None ms None = dseg h None ms None"
    by (rule dseg_cong) (use assms in \<open>auto simp: same_links_def\<close>)
  with assms(1) show ?thesis by (simp add: dl_repr_def)
qed

lemma Add_To_Back_Of_same_links:
  assumes "dl_repr (h, l) ns" and "Add_To_Back_Of n (h, l) = Some (h', l')"
  shows "same_links (insert n (set ns)) h h'"
  using assms(2) dl_reprE(2,3) [OF assms(1)] last_opt_in_set [of None ns]
  by (cases "last_opt None ns") (auto simp: Add_To_Back_Of_def Is_Member_Of_repr [OF assms(1)]
      link_defs same_links_def bind_kassert Let_def split: if_splits)

lemma Add_To_Front_Of_same_links:
  assumes "dl_repr (h, l) ns" and "Add_To_Front_Of n (h, l) = Some (h', l')"
  shows "same_links (insert n (set ns)) h h'"
  using assms(2) dl_reprE(2,3) [OF assms(1)]
  by (cases ns) (auto simp: Add_To_Front_Of_def Is_Member_Of_repr [OF assms(1)] link_defs
      same_links_def bind_kassert Let_def split: if_splits)

lemma dseg_neighbours:
  assumes "dseg h None (xs @ n # ys) None"
  shows "prv h n = last_opt None xs" and "nxt h n = hd_opt ys None"
  using assms by (simp_all add: dseg_append)

lemma Remove_From_same_links:
  assumes r: "dl_repr (h, l) ns" and n: "n \<in> set ns"
    and o: "Remove_From n (h, l) = Some (h', l')"
  shows "same_links (set ns) h h'"
proof -
  from n obtain xs ys where ns: "ns = xs @ n # ys" by (meson split_list)
  have neigh: "prv h n = last_opt None xs" "nxt h n = hd_opt ys None"
    using r ns by (auto simp: dl_repr_def dest: dseg_neighbours)
  from o have u: "Unlink_Next n (Unlink_Prev n (h, l)) = (h', l')"
    by (simp add: Remove_From_def Is_Member_Of_repr [OF r] n)
  show ?thesis
    using u neigh last_opt_in_set [of None xs] hd_opt_in_set [of ys] r ns
    by (auto simp: Unlink_Next_def Unlink_Prev_def link_defs same_links_def dl_repr_def
        split: option.splits if_splits)
qed

section \<open>The queue interface\<close>

text \<open>
  What a client of a queue relies on: \<open>rep s xs\<close> relates a concrete state to the elements it
  holds, front first; \<open>adm x xs\<close> says when \<open>x\<close> may be enqueued.  The interpretations are
  the linked lists of this theory and the keyboard's ring buffer.
\<close>

fun run_enq :: "('a \<Rightarrow> 's \<Rightarrow> 's option) \<Rightarrow> 'a list \<Rightarrow> 's \<Rightarrow> 's option" where
  "run_enq enq [] s = Some s"
| "run_enq enq (x # xs) s = Option.bind (enq x s) (run_enq enq xs)"

fun run_deq :: "('s \<Rightarrow> ('a \<times> 's) option) \<Rightarrow> nat \<Rightarrow> 's \<Rightarrow> ('a list \<times> 's) option" where
  "run_deq deq 0 s = Some ([], s)"
| "run_deq deq (Suc k) s = do {
     (x, s1) \<leftarrow> deq s;
     (xs, s2) \<leftarrow> run_deq deq k s1;
     Some (x # xs, s2)
   }"

locale fifo =
  fixes rep :: "'s \<Rightarrow> 'a list \<Rightarrow> bool"
    and adm :: "'a \<Rightarrow> 'a list \<Rightarrow> bool"
    and enq :: "'a \<Rightarrow> 's \<Rightarrow> 's option"
    and deq :: "'s \<Rightarrow> ('a \<times> 's) option"
  assumes enq_rep: "rep s xs \<Longrightarrow> adm x xs \<Longrightarrow> \<exists>s'. enq x s = Some s' \<and> rep s' (xs @ [x])"
    and deq_rep: "rep s (x # xs) \<Longrightarrow> \<exists>s'. deq s = Some (x, s') \<and> rep s' xs"
    and deq_empty: "rep s [] \<Longrightarrow> deq s = None"
begin

lemma run_enq_rep:
  assumes "rep s xs" and "\<And>us y vs. ys = us @ y # vs \<Longrightarrow> adm y (xs @ us)"
  shows "\<exists>s'. run_enq enq ys s = Some s' \<and> rep s' (xs @ ys)"
  using assms
proof (induction ys arbitrary: s xs)
  case Nil
  then show ?case by simp
next
  case (Cons y ys)
  from Cons.prems(2) [of "[]" y ys] have "adm y xs" by simp
  with enq_rep Cons.prems(1) obtain s1 where s1: "enq y s = Some s1" "rep s1 (xs @ [y])"
    by blast
  have "adm z ((xs @ [y]) @ us)" if "ys = us @ z # vs" for us z vs
    using Cons.prems(2) [of "y # us" z vs] that by simp
  then obtain s2 where "run_enq enq ys s1 = Some s2" "rep s2 ((xs @ [y]) @ ys)"
    using Cons.IH [OF s1(2)] by blast
  with s1 show ?case by simp
qed

lemma run_deq_rep:
  "rep s (xs @ ys) \<Longrightarrow> \<exists>s'. run_deq deq (length xs) s = Some (xs, s') \<and> rep s' ys"
proof (induction xs arbitrary: s)
  case Nil
  then show ?case by simp
next
  case (Cons x xs)
  then obtain s1 where s1: "deq s = Some (x, s1)" "rep s1 (xs @ ys)"
    using deq_rep by fastforce
  from Cons.IH [OF s1(2)] s1(1) show ?case by auto
qed

lemma first_in_first_out:
  assumes "rep s xs" and "\<And>us y vs. ys = us @ y # vs \<Longrightarrow> adm y (xs @ us)"
  shows "\<exists>s1 s2. run_enq enq ys s = Some s1
           \<and> run_deq deq (length xs + length ys) s1 = Some (xs @ ys, s2) \<and> rep s2 []"
  using run_enq_rep [OF assms] run_deq_rep [of _ "xs @ ys" "[]"] by fastforce

end

text \<open>The linked list is a queue of nodes that are not on it already.\<close>

interpretation list_queue: fifo "dl_repr" "\<lambda>n ns. n \<notin> set ns"
  Add_To_Back_Of Remove_From_Front_Of
proof
  fix s :: "'a dl_state" and xs x
  show "dl_repr s xs \<Longrightarrow> x \<notin> set xs \<Longrightarrow> \<exists>s'. Add_To_Back_Of x s = Some s' \<and> dl_repr s' (xs @ [x])"
    by (cases s) (auto dest: Add_To_Back_Of_repr)
  show "dl_repr s (x # xs) \<Longrightarrow> \<exists>s'. Remove_From_Front_Of s = Some (x, s') \<and> dl_repr s' xs"
    by (cases s) (auto dest: Remove_From_Front_Of_repr)
  show "dl_repr s [] \<Longrightarrow> Remove_From_Front_Of s = None"
    by (cases s) (auto dest: Remove_From_Front_Of_empty)
qed

section \<open>Properties\<close>

text \<open>
  Property C40 (refinement).  On a well-formed list with nodes \<open>ns\<close> every operation of
  \<open>IMPLEMENT_LIST\<close> behaves as the list operation it stands for, and stops in a failed
  \<open>KASSERT\<close> exactly when a node would be inserted twice, a node that is not on the list
  would be removed, or an empty list would be popped.
\<close>

theorem list_operations_refine:
  assumes "dl_repr (h, l) ns"
  shows "Is_Member_Of h l n = Some (n \<in> set ns)
    \<and> (Is_List_Empty l \<longleftrightarrow> ns = [])
    \<and> (if n \<in> set ns then Add_To_Front_Of n (h, l) = None \<and> Add_To_Back_Of n (h, l) = None
         \<and> (\<exists>s. Remove_From n (h, l) = Some s \<and> dl_repr s (remove1 n ns))
       else Remove_From n (h, l) = None
         \<and> (\<exists>s. Add_To_Front_Of n (h, l) = Some s \<and> dl_repr s (n # ns))
         \<and> (\<exists>s. Add_To_Back_Of n (h, l) = Some s \<and> dl_repr s (ns @ [n])))
    \<and> (case ns of [] \<Rightarrow> Remove_From_Front_Of (h, l) = None
       | m # ms \<Rightarrow> \<exists>s. Remove_From_Front_Of (h, l) = Some (m, s) \<and> dl_repr s ms)"
  using Remove_From_repr [OF assms, of n] Add_To_Front_Of_repr [OF assms, of n]
    Add_To_Back_Of_repr [OF assms, of n] assms
  by (cases ns)
     (simp_all add: Is_Member_Of_repr [OF assms] Is_List_Empty_repr [OF assms]
        Add_To_Front_Of_member [OF assms] Add_To_Back_Of_member [OF assms]
        Remove_From_nonmember [OF assms] Remove_From_Front_Of_empty
        Remove_From_Front_Of_repr del: split_paired_Ex)

definition two_nodes :: "nat dl_state" where
  "two_nodes = (\<lparr>nxt = (\<lambda>_. None)(1 := Some 2), prv = (\<lambda>_. None)(2 := Some 1)\<rparr>,
     \<lparr>dl_head = Some 1, dl_tail = Some 2\<rparr>)"

lemma two_nodes_repr: "dl_repr two_nodes [1, 2]"
  by (simp add: two_nodes_def dl_repr_def)

theorem list_operations_refine_witness:
  "Add_To_Back_Of 1 (fst two_nodes, snd two_nodes) = None
   \<and> (\<exists>s. Remove_From 1 (fst two_nodes, snd two_nodes) = Some s \<and> dl_repr s [2])
   \<and> (\<exists>s. Add_To_Back_Of 3 (fst two_nodes, snd two_nodes) = Some s \<and> dl_repr s [1, 2, 3])"
  using list_operations_refine [of "fst two_nodes" "snd two_nodes" "[1, 2]" 1]
    list_operations_refine [of "fst two_nodes" "snd two_nodes" "[1, 2]" 3] two_nodes_repr
  by simp

text \<open>
  Property C36 (first in, first out).  Nodes that are added to the back of a well-formed list
  and then removed from its front come out in the order in which they were added, after the
  nodes that were already there, and leave an empty list.
\<close>

theorem list_first_in_first_out:
  assumes "dl_repr s xs" and "distinct (xs @ ys)"
  shows "\<exists>s1 s2. run_enq Add_To_Back_Of ys s = Some s1
     \<and> run_deq Remove_From_Front_Of (length xs + length ys) s1 = Some (xs @ ys, s2)
     \<and> dl_repr s2 []"
  by (rule list_queue.first_in_first_out) (use assms in auto)

theorem list_first_in_first_out_witness:
  "\<exists>s1 s2. run_enq Add_To_Back_Of [5, 4] two_nodes = Some s1
     \<and> run_deq Remove_From_Front_Of (length [1, 2 :: nat] + length [5, 4 :: nat]) s1
         = Some ([1, 2] @ [5, 4], s2) \<and> dl_repr s2 []"
  by (rule list_first_in_first_out [OF two_nodes_repr]) simp

text \<open>
  Property C3 (isolation).  Two lists threaded through the same link fields do not disturb
  each other: adding a node to the one, or removing one from it, keeps the other one intact
  as long as they share no node.  A node that is on one list must therefore not be added to
  another one before it has been removed.
\<close>

theorem list_operations_frame:
  assumes "dl_repr (h, l) ns" and "dl_repr (h, k) ms" and "set ns \<inter> set ms = {}"
    and "n \<notin> set ms"
    and "Add_To_Back_Of n (h, l) = Some (h', l') \<or> Add_To_Front_Of n (h, l) = Some (h', l')
      \<or> (n \<in> set ns \<and> Remove_From n (h, l) = Some (h', l'))"
  shows "dl_repr (h', k) ms"
proof -
  have "same_links (insert n (set ns)) h h'"
    using assms(5)
  proof (elim disjE conjE)
    assume "n \<in> set ns" and "Remove_From n (h, l) = Some (h', l')"
    then show ?thesis
      using Remove_From_same_links [OF assms(1)] by (simp add: insert_absorb)
  qed (blast intro: Add_To_Back_Of_same_links Add_To_Front_Of_same_links assms(1))+
  then show ?thesis
    by (rule same_links_repr [OF assms(2)]) (use assms in auto)
qed

theorem list_operations_frame_witness:
  "\<exists>s. Add_To_Back_Of (3::nat) (fst two_nodes, Clear_List) = Some s
     \<and> dl_repr (fst s, snd two_nodes) [1, 2]"
proof -
  have e: "dl_repr (fst two_nodes, Clear_List) ([] :: nat list)" by (rule Clear_List_repr)
  then obtain s where s: "Add_To_Back_Of (3::nat) (fst two_nodes, Clear_List) = Some s"
    using Add_To_Back_Of_repr [OF e, of 3] by auto
  have "dl_repr (fst s, snd two_nodes) [1, 2]"
    by (rule list_operations_frame [OF e, of "snd two_nodes" "[1, 2]" 3 "fst s" "snd s"])
       (use two_nodes_repr s in auto)
  with s show ?thesis by blast
qed

end
