(* ===== verification/Phys_Mem.thy ===== *)
theory Phys_Mem
  imports Linked_List
begin

text \<open>
  Physical memory: the range checks of \<open>include/geekos/range.h\<close>, the page arithmetic of
  \<open>include/geekos/mem.h\<close> and the page allocator of \<open>src/geekos/mem.c\<close>.  A \<open>struct Page\<close> is
  identified by its index in \<open>g_pageList\<close>; its flags and its list links are components of
  the state, and the free list is the intrusive list of theory \<open>Linked_List\<close>.  An index
  past the end of \<open>g_pageList\<close> is an access outside the array (\<open>None\<close>).  The allocator's
  functions disable interrupts for their whole body, so each of them is one step.
\<close>

section \<open>Ranges\<close>

definition Check_Range_Proper :: "u32 \<Rightarrow> u32 \<Rightarrow> bool" where
  "Check_Range_Proper start sz = (let s = start + sz in start \<le> s \<or> s = 0)"

definition Check_Range_Under :: "u32 \<Rightarrow> u32 \<Rightarrow> u32 \<Rightarrow> bool" where
  "Check_Range_Under start sz lim =
     (if \<not> Check_Range_Proper start sz then False
      else start < lim \<and> start + sz \<le> lim)"

section \<open>Pages\<close>

definition PAGE_AVAIL :: u32 where "PAGE_AVAIL = 0x0000"
definition PAGE_KERN :: u32 where "PAGE_KERN = 0x0001"
definition PAGE_HW :: u32 where "PAGE_HW = 0x0002"
definition PAGE_ALLOCATED :: u32 where "PAGE_ALLOCATED = 0x0004"
definition PAGE_UNUSED :: u32 where "PAGE_UNUSED = 0x0008"
definition PAGE_HEAP :: u32 where "PAGE_HEAP = 0x0010"

definition ISA_HOLE_START :: u32 where "ISA_HOLE_START = 0x0A0000"
definition ISA_HOLE_END :: u32 where "ISA_HOLE_END = 0x100000"
definition HIGHMEM_START :: u32 where "HIGHMEM_START = ISA_HOLE_END + 8192"
definition KERNEL_HEAP_SIZE :: u32 where "KERNEL_HEAP_SIZE = 1024 * 1024"

lemmas page_flag_defs = PAGE_AVAIL_def PAGE_KERN_def PAGE_HW_def PAGE_ALLOCATED_def
  PAGE_UNUSED_def PAGE_HEAP_def
lemmas memory_map_defs = ISA_HOLE_START_def ISA_HOLE_END_def HIGHMEM_START_def
  KERNEL_HEAP_SIZE_def

definition Is_Page_Multiple :: "u32 \<Rightarrow> bool" where
  "Is_Page_Multiple addr \<longleftrightarrow> addr = addr AND NOT PAGE_MASK"

definition Round_Up_To_Page :: "u32 \<Rightarrow> u32" where
  "Round_Up_To_Page addr =
     (if addr AND PAGE_MASK \<noteq> 0 then (addr AND NOT PAGE_MASK) + PAGE_SIZE else addr)"

definition Round_Down_To_Page :: "u32 \<Rightarrow> u32" where
  "Round_Down_To_Page addr = addr AND NOT PAGE_MASK"

definition Page_Index :: "u32 \<Rightarrow> nat" where
  "Page_Index addr = unat (drop_bit PAGE_POWER addr)"

record phys_mem =
  page_flags :: "nat \<Rightarrow> u32"
  page_links :: "nat links"
  s_freeList :: "nat dlist"
  g_freePageCount :: u32
  s_numPages :: u32

definition Get_Page :: "phys_mem \<Rightarrow> u32 \<Rightarrow> nat option" where
  "Get_Page s addr = (let i = Page_Index addr in if i < unat (s_numPages s) then Some i else None)"

definition Get_Page_Address :: "nat \<Rightarrow> u32" where
  "Get_Page_Address page = push_bit PAGE_POWER (word_of_nat page)"

section \<open>The allocator\<close>

text \<open>One round of the loop of \<open>Add_Page_Range\<close>.\<close>

definition Add_One_Page :: "u32 \<Rightarrow> u32 \<Rightarrow> phys_mem \<Rightarrow> phys_mem option" where
  "Add_One_Page addr flags s = do {
     page \<leftarrow> Get_Page s addr;
     let s = s\<lparr>page_flags := (page_flags s)(page := flags)\<rparr>;
     (if flags = PAGE_AVAIL then do {
        (h, l) \<leftarrow> Add_To_Back_Of page (page_links s, s_freeList s);
        Some (s\<lparr>page_links := h, s_freeList := l, g_freePageCount := g_freePageCount s + 1\<rparr>)
      } else
        Some (s\<lparr>page_links := Set_Prev_In page None (Set_Next_In page None (page_links s))\<rparr>))
   }"

partial_function (option) Add_Page_Loop :: "u32 \<Rightarrow> u32 \<Rightarrow> u32 \<Rightarrow> phys_mem \<Rightarrow> phys_mem option" where
  "Add_Page_Loop addr ende flags s =
     (if addr < ende then do {
        s \<leftarrow> Add_One_Page addr flags s;
        Add_Page_Loop (addr + PAGE_SIZE) ende flags s
      } else Some s)"

definition Add_Page_Range :: "u32 \<Rightarrow> u32 \<Rightarrow> u32 \<Rightarrow> phys_mem \<Rightarrow> phys_mem option" where
  "Add_Page_Range start ende flags s = do {
     kassert (Is_Page_Multiple start);
     kassert (Is_Page_Multiple ende);
     kassert (start < ende);
     Add_Page_Loop start ende flags s
   }"

text \<open>
  \<open>Init_Mem\<close> is given the memory size the boot loader reports and the address of the
  linker's symbol \<open>end\<close>; \<open>sizeof(struct Page)\<close> is 12.  The set-up of the GDT and of the
  heap that it also starts touches other state.
\<close>

definition Init_Mem :: "u32 \<Rightarrow> u32 \<Rightarrow> phys_mem \<Rightarrow> phys_mem option" where
  "Init_Mem memSizeKB kern_end s = do {
     let numPages = drop_bit 2 memSizeKB;
     let endOfMem = numPages * PAGE_SIZE;
     let numPageListBytes = 12 * numPages;
     kassert (memSizeKB > 0);
     let pageListAddr = Round_Up_To_Page kern_end;
     let kernEnd = Round_Up_To_Page (pageListAddr + numPageListBytes);
     let s = s\<lparr>s_numPages := numPages\<rparr>;
     kassert (ISA_HOLE_END = KERN_THREAD_OBJ);
     kassert (KERN_STACK = KERN_THREAD_OBJ + PAGE_SIZE);
     s \<leftarrow> Add_Page_Range 0 PAGE_SIZE PAGE_UNUSED s;
     s \<leftarrow> Add_Page_Range PAGE_SIZE KERNEL_START_ADDR PAGE_AVAIL s;
     s \<leftarrow> Add_Page_Range KERNEL_START_ADDR kernEnd PAGE_KERN s;
     s \<leftarrow> Add_Page_Range kernEnd ISA_HOLE_START PAGE_AVAIL s;
     s \<leftarrow> Add_Page_Range ISA_HOLE_START ISA_HOLE_END PAGE_HW s;
     s \<leftarrow> Add_Page_Range ISA_HOLE_END HIGHMEM_START PAGE_ALLOCATED s;
     s \<leftarrow> Add_Page_Range HIGHMEM_START (HIGHMEM_START + KERNEL_HEAP_SIZE) PAGE_HEAP s;
     Add_Page_Range (HIGHMEM_START + KERNEL_HEAP_SIZE) endOfMem PAGE_AVAIL s
   }"

text \<open>The address 0 is the null pointer \<open>Alloc_Page\<close> returns when no page is free.\<close>

definition Alloc_Page :: "phys_mem \<Rightarrow> (u32 \<times> phys_mem) option" where
  "Alloc_Page s =
     (if \<not> Is_List_Empty (s_freeList s) then do {
        page \<leftarrow> Get_Front_Of (s_freeList s);
        kassert (page_flags s page AND PAGE_ALLOCATED = 0);
        (_, h, l) \<leftarrow> Remove_From_Front_Of (page_links s, s_freeList s);
        Some (Get_Page_Address page,
          s\<lparr>page_links := h, s_freeList := l,
            page_flags := (page_flags s)(page := page_flags s page OR PAGE_ALLOCATED),
            g_freePageCount := g_freePageCount s - 1\<rparr>)
      } else Some (0, s))"

definition Free_Page :: "u32 \<Rightarrow> phys_mem \<Rightarrow> phys_mem option" where
  "Free_Page addr s = do {
     kassert (Is_Page_Multiple addr);
     page \<leftarrow> Get_Page s addr;
     kassert (page_flags s page AND PAGE_ALLOCATED \<noteq> 0);
     (h, l) \<leftarrow> Add_To_Back_Of page (page_links s, s_freeList s);
     Some (s\<lparr>page_flags := (page_flags s)(page := page_flags s page AND NOT PAGE_ALLOCATED),
             page_links := h, s_freeList := l,
             g_freePageCount := g_freePageCount s + 1\<rparr>)
   }"

section \<open>Page arithmetic\<close>

lemma PAGE_MASK_mask: "PAGE_MASK = mask 12"
  by (simp add: PAGE_MASK_val mask_eq_exp_minus_1)

lemma and_PAGE_MASK: "unat (addr AND PAGE_MASK) = unat addr mod 4096"
  by (simp add: PAGE_MASK_mask take_bit_eq_mask [symmetric] unsigned_take_bit_eq)
    (simp add: take_bit_eq_mod)

lemma and_not_PAGE_MASK: "unat (addr AND NOT PAGE_MASK) = unat addr - unat addr mod 4096"
proof -
  have "addr - (addr AND PAGE_MASK) = addr AND NOT (addr AND PAGE_MASK)"
    by (rule disjunctive_diff) (simp add: bit_and_iff)
  also have "\<dots> = addr AND NOT PAGE_MASK"
    by (auto simp: bit_eq_iff bit_and_iff bit_not_iff bit_or_iff)
  finally have "addr AND NOT PAGE_MASK = addr - (addr AND PAGE_MASK)" by simp
  moreover have "addr AND PAGE_MASK \<le> addr"
    by (simp add: word_le_nat_alt and_PAGE_MASK)
  ultimately show ?thesis by (simp add: unat_sub and_PAGE_MASK)
qed

lemma Is_Page_Multiple_dvd: "Is_Page_Multiple addr \<longleftrightarrow> 4096 dvd unat addr"
proof -
  have "unat addr = unat addr - unat addr mod 4096 \<longleftrightarrow> unat addr mod 4096 = 0"
    using mod_less_eq_dividend [of "unat addr" 4096] by linarith
  then show ?thesis
    by (simp add: Is_Page_Multiple_def word_unat_eq_iff and_not_PAGE_MASK dvd_eq_mod_eq_0)
qed

lemma Page_Index_div: "Page_Index addr = unat addr div 4096"
  by (simp add: Page_Index_def PAGE_POWER_def unat_drop_bit_eq drop_bit_eq_div unat_div_distrib)

lemma unat_Get_Page_Address: "i < 1048576 \<Longrightarrow> unat (Get_Page_Address i) = i * 4096"
  by (simp add: Get_Page_Address_def PAGE_POWER_def push_bit_eq_mult unat_word_ariths
      unat_of_nat take_bit_eq_mod)

lemma unat_Round_Down: "unat (Round_Down_To_Page addr) = unat addr div 4096 * 4096"
  by (simp add: Round_Down_To_Page_def and_not_PAGE_MASK minus_mod_eq_div_mult)

lemma round_up_nat: "(n + 4095) div 4096 * 4096 =
    (if n mod 4096 = 0 then n else n - n mod 4096 + (4096 :: nat))"
proof -
  obtain q r where n: "n = 4096 * q + r" "r < 4096"
    using mod_mult_div_eq [of n 4096] mod_less_divisor [of 4096 n]
    by (metis add.commute zero_less_numeral)
  show ?thesis
  proof (cases r)
    case 0
    with n show ?thesis by simp
  next
    case (Suc k)
    then have e: "n + 4095 = 4096 * (q + 1) + k" using n by simp
    have "(n + 4095) div 4096 = q + 1" unfolding e using Suc n(2) by simp
    with n Suc show ?thesis by simp
  qed
qed

lemma unat_Round_Up:
  assumes "unat addr \<le> 4294963200"
  shows "unat (Round_Up_To_Page addr) = (unat addr + 4095) div 4096 * 4096"
  unfolding round_up_nat
proof (cases "unat addr mod 4096 = 0")
  case True
  then have "addr AND PAGE_MASK = 0" by (simp add: word_unat_eq_iff and_PAGE_MASK)
  then show "unat (Round_Up_To_Page addr) =
      (if unat addr mod 4096 = 0 then unat addr else unat addr - unat addr mod 4096 + 4096)"
    using True by (simp add: Round_Up_To_Page_def)
next
  case False
  then have "addr AND PAGE_MASK \<noteq> 0" by (auto simp: word_unat_eq_iff and_PAGE_MASK)
  moreover have "unat addr - unat addr mod 4096 < 4294963200"
    using False assms mod_less_eq_dividend [of "unat addr" 4096] by linarith
  ultimately show "unat (Round_Up_To_Page addr) =
      (if unat addr mod 4096 = 0 then unat addr else unat addr - unat addr mod 4096 + 4096)"
    using False by (simp add: Round_Up_To_Page_def unat_plus_if' and_not_PAGE_MASK PAGE_SIZE_val)
qed

section \<open>Range checks\<close>

lemma Check_Range_Proper_iff:
  "Check_Range_Proper start sz \<longleftrightarrow> unat start + unat sz \<le> 4294967296"
  using unat_less_2_32 [of start] unat_less_2_32 [of sz]
  by (auto simp: Check_Range_Proper_def Let_def word_le_nat_alt word_unat_eq_iff unat_plus_if')

text \<open>
  \<open>Check_Range_Under\<close> accepts a range exactly when it lies below \<open>max\<close>, or
  when it starts below \<open>max\<close> and ends with the last byte of the address space: in that
  case the sum wraps around to zero and passes the comparison with \<open>max\<close>.
\<close>

theorem Check_Range_Under_iff:
  "Check_Range_Under start sz lim \<longleftrightarrow>
     unat start < unat lim
     \<and> (unat start + unat sz \<le> unat lim \<or> unat start + unat sz = 4294967296)"
  using unat_less_2_32 [of lim] unat_less_2_32 [of start] unat_less_2_32 [of sz]
  by (auto simp: Check_Range_Under_def Check_Range_Proper_iff word_le_nat_alt
      word_less_nat_alt unat_plus_if')

section \<open>The invariant of the allocator\<close>

text \<open>
  \<open>free_pages s ns k\<close>: among the first \<open>k\<close> pages exactly those on the free list, which
  are \<open>ns\<close> in this order, have the flags \<open>PAGE_AVAIL\<close>, and the counter is their number.
\<close>

definition free_pages :: "phys_mem \<Rightarrow> nat list \<Rightarrow> nat \<Rightarrow> bool" where
  "free_pages s ns k \<longleftrightarrow>
     dl_repr (page_links s, s_freeList s) ns
     \<and> set ns = {i. i < k \<and> page_flags s i = PAGE_AVAIL}
     \<and> unat (g_freePageCount s) = length ns \<and> k \<le> unat (s_numPages s)
     \<and> unat (s_numPages s) \<le> 1048576"

definition known_flags :: "phys_mem \<Rightarrow> bool" where
  "known_flags s \<longleftrightarrow> page_flags s 0 = PAGE_UNUSED
     \<and> (\<forall>i < unat (s_numPages s). page_flags s i \<in>
          {PAGE_AVAIL, PAGE_KERN, PAGE_HW, PAGE_ALLOCATED, PAGE_UNUSED, PAGE_HEAP})"

definition pm_inv :: "phys_mem \<Rightarrow> nat list \<Rightarrow> bool" where
  "pm_inv s ns \<longleftrightarrow> free_pages s ns (unat (s_numPages s)) \<and> known_flags s"

lemma free_pages_distinct: "free_pages s ns k \<Longrightarrow> distinct ns"
  by (auto simp: free_pages_def dl_repr_def)

lemma free_pages_length: "free_pages s ns k \<Longrightarrow> length ns \<le> k"
proof -
  assume f: "free_pages s ns k"
  have "length ns = card (set ns)" using free_pages_distinct [OF f] by (simp add: distinct_card)
  also have "\<dots> \<le> card {..< k}" by (rule card_mono) (use f in \<open>auto simp: free_pages_def\<close>)
  finally show ?thesis by simp
qed

lemma Add_One_Page_free_pages:
  assumes f: "free_pages s ns k" and k: "k < unat (s_numPages s)"
    and a: "unat addr = k * 4096"
  shows "\<exists>s' ns'. Add_One_Page addr flags s = Some s' \<and> free_pages s' ns' (Suc k)
    \<and> page_flags s' = (page_flags s)(k := flags) \<and> s_numPages s' = s_numPages s"
proof -
  have idx: "Get_Page s addr = Some k" using k a by (simp add: Get_Page_def Page_Index_div)
  have nk: "k \<notin> set ns" using f by (simp add: free_pages_def)
  have r: "dl_repr (page_links s, s_freeList s) ns" using f by (simp add: free_pages_def)
  show ?thesis
  proof (cases "flags = PAGE_AVAIL")
    case True
    obtain h l where hl: "Add_To_Back_Of k (page_links s, s_freeList s) = Some (h, l)"
      "dl_repr (h, l) (ns @ [k])"
      using Add_To_Back_Of_repr [OF r nk] by (metis surj_pair)
    have "unat (g_freePageCount s + 1) = Suc (length ns)"
      using f free_pages_length [OF f] k
      by (simp add: free_pages_def unat_plus_if')
    then have "free_pages (s\<lparr>page_flags := (page_flags s)(k := flags), page_links := h,
        s_freeList := l, g_freePageCount := g_freePageCount s + 1\<rparr>) (ns @ [k]) (Suc k)"
      using f hl k True by (auto simp: free_pages_def less_Suc_eq)
    with idx hl True show ?thesis by (auto simp: Add_One_Page_def)
  next
    case False
    let ?h = "Set_Prev_In k None (Set_Next_In k None (page_links s))"
    have "same_links {k} (page_links s) ?h" by (simp add: same_links_def link_defs)
    then have "dl_repr (?h, s_freeList s) ns" by (rule same_links_repr [OF r]) (use nk in simp)
    then have "free_pages (s\<lparr>page_flags := (page_flags s)(k := flags), page_links := ?h\<rparr>) ns (Suc k)"
      using f k False by (auto simp: free_pages_def less_Suc_eq)
    with idx False show ?thesis by (auto simp: Add_One_Page_def)
  qed
qed

lemma Add_Page_Loop_free_pages:
  assumes "free_pages s ns k" and "k \<le> e" and "e \<le> unat (s_numPages s)" and "e < 1048576"
    and "unat addr = k * 4096" and "unat ende = e * 4096"
  shows "\<exists>s' ns'. Add_Page_Loop addr ende flags s = Some s' \<and> free_pages s' ns' e
    \<and> page_flags s' = (\<lambda>i. if k \<le> i \<and> i < e then flags else page_flags s i)
    \<and> s_numPages s' = s_numPages s"
  using assms
proof (induction "e - k" arbitrary: k addr s ns)
  case 0
  then have "k = e" by simp
  moreover from this have "addr = ende" using 0 by (simp add: word_unat_eq_iff)
  ultimately show ?case using 0 by (subst Add_Page_Loop.simps) (auto simp: fun_eq_iff)
next
  case (Suc d)
  then have lt: "k < e" by simp
  obtain s1 ns1 where s1: "Add_One_Page addr flags s = Some s1" "free_pages s1 ns1 (Suc k)"
    "page_flags s1 = (page_flags s)(k := flags)" "s_numPages s1 = s_numPages s"
    using Add_One_Page_free_pages [OF Suc.prems(1), of addr flags] Suc.prems lt by auto
  have "unat (addr + PAGE_SIZE) = Suc k * 4096"
    using Suc.prems lt by (simp add: unat_plus_if' PAGE_SIZE_val)
  moreover have "d = e - Suc k" using Suc.hyps(2) by simp
  ultimately have "\<exists>s' ns'. Add_Page_Loop (addr + PAGE_SIZE) ende flags s1 = Some s' \<and> free_pages s' ns' e
    \<and> page_flags s' = (\<lambda>i. if Suc k \<le> i \<and> i < e then flags else page_flags s1 i)
    \<and> s_numPages s' = s_numPages s1"
    by (intro Suc.hyps(1) [OF _ s1(2)]) (use Suc.prems lt s1(4) in auto)
  then obtain s' ns' where s': "Add_Page_Loop (addr + PAGE_SIZE) ende flags s1 = Some s'"
    "free_pages s' ns' e"
    "page_flags s' = (\<lambda>i. if Suc k \<le> i \<and> i < e then flags else page_flags s1 i)"
    "s_numPages s' = s_numPages s"
    using s1(4) by auto
  have "addr < ende" using Suc.prems lt by (simp add: word_less_nat_alt)
  then have "Add_Page_Loop addr ende flags s = Some s'"
    using s1(1) s'(1) by (subst Add_Page_Loop.simps) simp
  moreover have "page_flags s' = (\<lambda>i. if k \<le> i \<and> i < e then flags else page_flags s i)"
    using lt by (auto simp: s'(3) s1(3) fun_eq_iff)
  ultimately show ?case using s' by blast
qed

lemma Add_Page_Range_free_pages:
  assumes "free_pages s ns k" and "k < e" and "e \<le> unat (s_numPages s)" and "e < 1048576"
    and "unat start = k * 4096" and "unat ende = e * 4096"
  shows "\<exists>s' ns'. Add_Page_Range start ende flags s = Some s' \<and> free_pages s' ns' e
    \<and> page_flags s' = (\<lambda>i. if k \<le> i \<and> i < e then flags else page_flags s i)
    \<and> s_numPages s' = s_numPages s"
proof -
  have "start < ende" using assms by (simp add: word_less_nat_alt)
  then show ?thesis
    using Add_Page_Loop_free_pages [of s ns k e start ende flags] assms
    by (simp add: Add_Page_Range_def Is_Page_Multiple_dvd)
qed

section \<open>Allocating and freeing\<close>

lemma flags_allocated [simp]:
  "PAGE_AVAIL AND PAGE_ALLOCATED = 0" "PAGE_AVAIL OR PAGE_ALLOCATED = PAGE_ALLOCATED"
  "PAGE_ALLOCATED AND NOT PAGE_ALLOCATED = PAGE_AVAIL"
  "PAGE_ALLOCATED \<noteq> PAGE_AVAIL" "PAGE_UNUSED \<noteq> PAGE_AVAIL" "PAGE_UNUSED \<noteq> PAGE_ALLOCATED"
  "PAGE_AVAIL \<noteq> PAGE_ALLOCATED" "PAGE_AVAIL \<noteq> PAGE_UNUSED" "PAGE_ALLOCATED \<noteq> PAGE_UNUSED"
  by (simp_all add: page_flag_defs)

lemma known_flags_allocated:
  assumes "known_flags s" and "i < unat (s_numPages s)"
  shows "page_flags s i AND PAGE_ALLOCATED \<noteq> 0 \<longleftrightarrow> page_flags s i = PAGE_ALLOCATED"
proof -
  have "page_flags s i \<in> {PAGE_AVAIL, PAGE_KERN, PAGE_HW, PAGE_ALLOCATED, PAGE_UNUSED, PAGE_HEAP}"
    using assms by (simp add: known_flags_def)
  then show ?thesis by (elim insertE) (simp_all add: page_flag_defs)
qed

lemma Alloc_Page_empty: "pm_inv s [] \<Longrightarrow> Alloc_Page s = Some (0, s)"
  using Is_List_Empty_repr [of "page_links s" "s_freeList s" "[]"]
  by (simp add: Alloc_Page_def pm_inv_def free_pages_def)

lemma Alloc_Page_nonempty:
  assumes inv: "pm_inv s (n # ns)"
  shows "\<exists>s'. Alloc_Page s = Some (Get_Page_Address n, s') \<and> pm_inv s' ns
    \<and> page_flags s' = (page_flags s)(n := PAGE_ALLOCATED) \<and> s_numPages s' = s_numPages s"
proof -
  have f: "free_pages s (n # ns) (unat (s_numPages s))" using inv by (simp add: pm_inv_def)
  then have r: "dl_repr (page_links s, s_freeList s) (n # ns)"
    and st: "insert n (set ns) = {i. i < unat (s_numPages s) \<and> page_flags s i = PAGE_AVAIL}"
    and nz: "n \<notin> set ns"
    using free_pages_distinct [OF f] by (auto simp: free_pages_def)
  have n: "n < unat (s_numPages s)" "page_flags s n = PAGE_AVAIL" using st by auto
  obtain h l where hl: "Remove_From_Front_Of (page_links s, s_freeList s) = Some (n, h, l)"
    "dl_repr (h, l) ns"
    using Remove_From_Front_Of_repr [OF r] by auto
  let ?s = "s\<lparr>page_links := h, s_freeList := l,
    page_flags := (page_flags s)(n := PAGE_ALLOCATED), g_freePageCount := g_freePageCount s - 1\<rparr>"
  have "unat (g_freePageCount s) = Suc (length ns)" using f by (simp add: free_pages_def)
  then have "unat (g_freePageCount s - 1) = length ns"
    by (subst unat_sub) (simp_all add: word_le_nat_alt)
  moreover have "set ns = insert n (set ns) - {n}" using nz by simp
  then have "set ns = {i. i < unat (s_numPages s) \<and> ((page_flags s)(n := PAGE_ALLOCATED)) i = PAGE_AVAIL}"
    unfolding st by auto
  moreover have "n \<noteq> 0"
  proof
    assume "n = 0"
    with inv n show False by (simp add: pm_inv_def known_flags_def)
  qed
  then have "known_flags ?s"
    using inv n by (auto simp: pm_inv_def known_flags_def)
  ultimately have "pm_inv ?s ns"
    using f hl by (simp add: pm_inv_def free_pages_def)
  moreover have "Alloc_Page s = Some (Get_Page_Address n, ?s)"
    using hl n Is_List_Empty_repr [OF r] Get_Front_Of_repr [OF r] by (simp add: Alloc_Page_def)
  ultimately show ?thesis by (intro exI [of _ ?s]) simp
qed

lemma Free_Page_allocated:
  assumes inv: "pm_inv s ns" and i: "i < unat (s_numPages s)" "page_flags s i = PAGE_ALLOCATED"
    and a: "unat addr = i * 4096"
  shows "\<exists>s'. Free_Page addr s = Some s' \<and> pm_inv s' (ns @ [i])
    \<and> page_flags s' = (page_flags s)(i := PAGE_AVAIL) \<and> s_numPages s' = s_numPages s"
proof -
  have f: "free_pages s ns (unat (s_numPages s))" using inv by (simp add: pm_inv_def)
  have ni: "i \<notin> set ns" using f i by (auto simp: free_pages_def)
  have r: "dl_repr (page_links s, s_freeList s) ns" using f by (simp add: free_pages_def)
  obtain h l where hl: "Add_To_Back_Of i (page_links s, s_freeList s) = Some (h, l)"
    "dl_repr (h, l) (ns @ [i])"
    using Add_To_Back_Of_repr [OF r ni] by auto
  let ?s = "s\<lparr>page_flags := (page_flags s)(i := PAGE_AVAIL), page_links := h, s_freeList := l,
    g_freePageCount := g_freePageCount s + 1\<rparr>"
  have "length ns < unat (s_numPages s)"
  proof -
    have "length (i # ns) = card (insert i (set ns))"
      using free_pages_distinct [OF f] ni by (simp add: distinct_card)
    also have "\<dots> \<le> card {..< unat (s_numPages s)}"
      by (rule card_mono) (use f i in \<open>auto simp: free_pages_def\<close>)
    finally show ?thesis by simp
  qed
  then have "unat (g_freePageCount s + 1) = Suc (length ns)"
    using f by (simp add: free_pages_def unat_plus_if')
  moreover have "page_flags s 0 = PAGE_UNUSED" using inv by (simp add: pm_inv_def known_flags_def)
  ultimately have "pm_inv ?s (ns @ [i])"
    using inv hl i by (auto simp: pm_inv_def free_pages_def known_flags_def)
  moreover have "page_flags s i AND PAGE_ALLOCATED \<noteq> 0"
    using known_flags_allocated [of s i] inv i by (simp add: pm_inv_def)
  then have "Free_Page addr s = Some ?s"
    using a i hl by (simp add: Free_Page_def Is_Page_Multiple_dvd Get_Page_def Page_Index_div PAGE_AVAIL_def)
  ultimately show ?thesis by (intro exI [of _ ?s]) simp
qed

section \<open>Initialisation\<close>

text \<open>The flags \<open>Init_Mem\<close> gives a page, when the kernel and its page list end at page \<open>kern\<close>.\<close>

definition initial_flags :: "nat \<Rightarrow> nat \<Rightarrow> u32" where
  "initial_flags kern i =
     (if i < 1 then PAGE_UNUSED else if i < 16 then PAGE_AVAIL
      else if i < kern then PAGE_KERN else if i < 160 then PAGE_AVAIL
      else if i < 256 then PAGE_HW else if i < 258 then PAGE_ALLOCATED
      else if i < 514 then PAGE_HEAP else PAGE_AVAIL)"

text \<open>The end of the kernel's pages as a page number.\<close>

definition kern_pages :: "u32 \<Rightarrow> u32 \<Rightarrow> nat" where
  "kern_pages memSizeKB kern_end =
     (let list = (unat kern_end + 4095) div 4096 * 4096
      in (list + 12 * (unat memSizeKB div 4) + 4095) div 4096)"

definition boot_ok :: "u32 \<Rightarrow> u32 \<Rightarrow> bool" where
  "boot_ok memSizeKB kern_end \<longleftrightarrow>
     514 < unat memSizeKB div 4 \<and> unat memSizeKB div 4 < 1048576
     \<and> unat kern_end < 1048576 \<and> 16 < kern_pages memSizeKB kern_end
     \<and> kern_pages memSizeKB kern_end < 160"

definition stage :: "(nat \<Rightarrow> u32) \<Rightarrow> nat \<Rightarrow> phys_mem \<Rightarrow> nat \<Rightarrow> bool" where
  "stage F N s k \<longleftrightarrow> (\<exists>ns. free_pages s ns k) \<and> unat (s_numPages s) = N
     \<and> (\<forall>i < k. page_flags s i = F i)"

lemma Add_Page_Range_stage:
  assumes "stage F N s k" and "unat start = k * 4096" and "unat ende = e * 4096"
    and "k < e" and "e \<le> N" and "N < 1048576" and "\<forall>i. k \<le> i \<and> i < e \<longrightarrow> F i = flags"
  shows "\<exists>s'. Add_Page_Range start ende flags s = Some s' \<and> stage F N s' e"
proof -
  from assms(1) obtain ns where ns: "free_pages s ns k" by (auto simp: stage_def)
  have N: "unat (s_numPages s) = N" using assms(1) by (simp add: stage_def)
  obtain s' ns' where s': "Add_Page_Range start ende flags s = Some s'" "free_pages s' ns' e"
    "page_flags s' = (\<lambda>i. if k \<le> i \<and> i < e then flags else page_flags s i)"
    "s_numPages s' = s_numPages s"
    using Add_Page_Range_free_pages [OF ns assms(4) _ _ assms(2,3), of flags] assms(5,6) N by auto
  have "stage F N s' e" using s' assms(1,7) by (auto simp: stage_def)
  with s'(1) show ?thesis by blast
qed

lemma boot_sizes:
  assumes "boot_ok memSizeKB kern_end"
  shows "unat (drop_bit 2 memSizeKB) = unat memSizeKB div 4"
    and "unat (drop_bit 2 memSizeKB * PAGE_SIZE) = unat memSizeKB div 4 * 4096"
    and "unat (Round_Up_To_Page (Round_Up_To_Page kern_end + 12 * drop_bit 2 memSizeKB))
      = kern_pages memSizeKB kern_end * 4096"
proof -
  let ?N = "unat memSizeKB div 4" let ?n = "drop_bit 2 memSizeKB"
  let ?p = "Round_Up_To_Page kern_end"
  have N: "?N < 1048576" and e: "unat kern_end < 1048576"
    using assms by (auto simp: boot_ok_def)
  show n: "unat ?n = ?N" by (simp add: unat_drop_bit_eq drop_bit_eq_div unat_div_distrib)
  show "unat (?n * PAGE_SIZE) = ?N * 4096"
    using N n by (simp add: unat_mult_lem [THEN iffD1] PAGE_SIZE_val)
  have p: "unat ?p = (unat kern_end + 4095) div 4096 * 4096"
    using e by (intro unat_Round_Up) simp
  have pl: "unat ?p < 1048576 + 4096" unfolding p using e by (auto simp: round_up_nat)
  have "unat (12 * ?n) = 12 * ?N" using N n by (simp add: unat_mult_lem [THEN iffD1])
  then have q: "unat (?p + 12 * ?n) = unat ?p + 12 * ?N"
    using N pl by (simp add: unat_plus_if')
  have "unat (Round_Up_To_Page (?p + 12 * ?n)) = (unat (?p + 12 * ?n) + 4095) div 4096 * 4096"
    by (rule unat_Round_Up) (use q pl N in simp)
  then show "unat (Round_Up_To_Page (?p + 12 * ?n)) = kern_pages memSizeKB kern_end * 4096"
    by (simp add: kern_pages_def q p Let_def)
qed

lemma Init_Mem_spec:
  assumes ok: "boot_ok memSizeKB kern_end" and l: "dl_repr (page_links s, s_freeList s) []"
    and c: "g_freePageCount s = 0"
  shows "\<exists>s' ns. Init_Mem memSizeKB kern_end s = Some s' \<and> pm_inv s' ns
    \<and> unat (s_numPages s') = unat memSizeKB div 4
    \<and> (\<forall>i < unat memSizeKB div 4.
         page_flags s' i = initial_flags (kern_pages memSizeKB kern_end) i)"
proof -
  let ?N = "unat memSizeKB div 4" let ?K = "kern_pages memSizeKB kern_end"
  let ?n = "drop_bit 2 memSizeKB"
  let ?k = "Round_Up_To_Page (Round_Up_To_Page kern_end + 12 * ?n)"
  have N: "514 < ?N" "?N < 1048576" "unat ?n = ?N" and K: "16 < ?K" "?K < 160"
    and e: "unat kern_end < 1048576"
    using ok by (auto simp: boot_ok_def boot_sizes [OF ok])
  note end_ = boot_sizes(2) [OF ok] and k = boot_sizes(3) [OF ok]
  let ?F = "initial_flags ?K"
  let ?s0 = "s\<lparr>s_numPages := ?n\<rparr>"
  have "free_pages ?s0 [] 0" using l c N by (simp add: free_pages_def)
  then have "stage ?F ?N ?s0 0" using N by (auto simp: stage_def)
  then have "\<exists>t. Add_Page_Range 0 PAGE_SIZE PAGE_UNUSED ?s0 = Some t \<and> stage ?F ?N t 1"
    by (rule Add_Page_Range_stage) (use N K in \<open>auto simp: defs_h initial_flags_def\<close>)
  then obtain s1 where 1: "Add_Page_Range 0 PAGE_SIZE PAGE_UNUSED ?s0 = Some s1"
    "stage ?F ?N s1 1" by blast
  from 1(2) have "\<exists>t. Add_Page_Range PAGE_SIZE KERNEL_START_ADDR PAGE_AVAIL s1 = Some t \<and> stage ?F ?N t 16"
    by (rule Add_Page_Range_stage) (use N K in \<open>auto simp: defs_h initial_flags_def\<close>)
  then obtain s2 where 2: "Add_Page_Range PAGE_SIZE KERNEL_START_ADDR PAGE_AVAIL s1 = Some s2"
    "stage ?F ?N s2 16" by blast
  from 2(2) have "\<exists>t. Add_Page_Range KERNEL_START_ADDR ?k PAGE_KERN s2 = Some t \<and> stage ?F ?N t ?K"
    by (rule Add_Page_Range_stage) (use N K k in \<open>auto simp: defs_h initial_flags_def\<close>)
  then obtain s3 where 3: "Add_Page_Range KERNEL_START_ADDR ?k PAGE_KERN s2 = Some s3"
    "stage ?F ?N s3 ?K" by blast
  from 3(2) have "\<exists>t. Add_Page_Range ?k ISA_HOLE_START PAGE_AVAIL s3 = Some t \<and> stage ?F ?N t 160"
    by (rule Add_Page_Range_stage) (use N K k in \<open>auto simp: memory_map_defs initial_flags_def\<close>)
  then obtain s4 where 4: "Add_Page_Range ?k ISA_HOLE_START PAGE_AVAIL s3 = Some s4"
    "stage ?F ?N s4 160" by blast
  from 4(2) have "\<exists>t. Add_Page_Range ISA_HOLE_START ISA_HOLE_END PAGE_HW s4 = Some t \<and> stage ?F ?N t 256"
    by (rule Add_Page_Range_stage) (use N K in \<open>auto simp: memory_map_defs initial_flags_def\<close>)
  then obtain s5 where 5: "Add_Page_Range ISA_HOLE_START ISA_HOLE_END PAGE_HW s4 = Some s5"
    "stage ?F ?N s5 256" by blast
  from 5(2) have "\<exists>t. Add_Page_Range ISA_HOLE_END HIGHMEM_START PAGE_ALLOCATED s5 = Some t \<and> stage ?F ?N t 258"
    by (rule Add_Page_Range_stage) (use N K in \<open>auto simp: memory_map_defs initial_flags_def\<close>)
  then obtain s6 where 6: "Add_Page_Range ISA_HOLE_END HIGHMEM_START PAGE_ALLOCATED s5 = Some s6"
    "stage ?F ?N s6 258" by blast
  from 6(2) have "\<exists>t. Add_Page_Range HIGHMEM_START (HIGHMEM_START + KERNEL_HEAP_SIZE) PAGE_HEAP s6 = Some t \<and> stage ?F ?N t 514"
    by (rule Add_Page_Range_stage) (use N K in \<open>auto simp: memory_map_defs initial_flags_def\<close>)
  then obtain s7 where 7: "Add_Page_Range HIGHMEM_START (HIGHMEM_START + KERNEL_HEAP_SIZE) PAGE_HEAP s6 = Some s7"
    "stage ?F ?N s7 514" by blast
  from 7(2) have "\<exists>t. Add_Page_Range (HIGHMEM_START + KERNEL_HEAP_SIZE) (?n * PAGE_SIZE) PAGE_AVAIL s7 = Some t \<and> stage ?F ?N t ?N"
    by (rule Add_Page_Range_stage) (use N K end_ in \<open>auto simp: memory_map_defs initial_flags_def\<close>)
  then obtain s8 where 8: "Add_Page_Range (HIGHMEM_START + KERNEL_HEAP_SIZE) (?n * PAGE_SIZE) PAGE_AVAIL s7 = Some s8"
    "stage ?F ?N s8 ?N" by blast
  have "0 < memSizeKB" using N by (auto simp: word_less_nat_alt)
  then have "Init_Mem memSizeKB kern_end s = Some s8"
    using 1(1) 2(1) 3(1) 4(1) 5(1) 6(1) 7(1) 8(1)
    by (simp add: Init_Mem_def Let_def)
      (simp add: memory_map_defs defs_h)
  moreover obtain ns where "free_pages s8 ns ?N" using 8(2) by (auto simp: stage_def)
  then have "pm_inv s8 ns"
    using 8(2) N by (auto simp: pm_inv_def stage_def known_flags_def initial_flags_def)
  ultimately show ?thesis using 8(2) by (auto simp: stage_def)
qed

section \<open>Properties of the page allocator\<close>

text \<open>
  Property C35 (initialisation).  From an empty free list \<open>Init_Mem\<close> passes all its
  assertions and classifies every page of memory as the memory map says, the pages on the
  free list being exactly the available ones, when there are more than 514 pages (the end of
  the kernel heap) and the kernel with its page list ends below the ISA hole.
\<close>

theorem Init_Mem_establishes:
  assumes "boot_ok memSizeKB kern_end" and "dl_repr (page_links s, s_freeList s) []"
    and "g_freePageCount s = 0"
  shows "\<exists>s' ns. Init_Mem memSizeKB kern_end s = Some s' \<and> pm_inv s' ns
    \<and> unat (s_numPages s') = unat memSizeKB div 4
    \<and> (\<forall>i < unat memSizeKB div 4.
         page_flags s' i = initial_flags (kern_pages memSizeKB kern_end) i)"
  using assms by (rule Init_Mem_spec)

text \<open>The state at boot, with cleared \<open>.bss\<close>; 8 MB of memory and a kernel of 96 KB.\<close>

definition boot_mem :: phys_mem where
  "boot_mem = \<lparr>page_flags = (\<lambda>_. 0), page_links = \<lparr>nxt = (\<lambda>_. None), prv = (\<lambda>_. None)\<rparr>,
     s_freeList = Clear_List, g_freePageCount = 0, s_numPages = 0\<rparr>"

lemma boot_mem_empty: "dl_repr (page_links boot_mem, s_freeList boot_mem) []"
  by (simp add: boot_mem_def Clear_List_repr)

lemma boot_ok_8MB: "boot_ok 8192 163840"
  by (simp add: boot_ok_def kern_pages_def)

lemma Init_Mem_establishes_witness:
  "\<exists>s' ns. Init_Mem 8192 163840 boot_mem = Some s' \<and> pm_inv s' ns
    \<and> unat (s_numPages s') = unat (8192 :: u32) div 4
    \<and> (\<forall>i < unat (8192 :: u32) div 4. page_flags s' i = initial_flags (kern_pages 8192 163840) i)"
  by (rule Init_Mem_establishes [OF boot_ok_8MB boot_mem_empty]) (simp add: boot_mem_def)

text \<open>
  Property C16.  Under the allocator's invariant \<open>Alloc_Page\<close> never fails its assertion.  It
  returns the null pointer and changes nothing exactly when no page is free; otherwise it
  returns the page-aligned, non-null address of the first free page, marks that page and
  no other as allocated, and keeps the invariant.
\<close>

theorem Alloc_Page_correct:
  assumes "pm_inv s ns"
  shows "case ns of
      [] \<Rightarrow> Alloc_Page s = Some (0, s)
    | n # ms \<Rightarrow> \<exists>a s'. Alloc_Page s = Some (a, s') \<and> pm_inv s' ms \<and> unat a = n * 4096 \<and> a \<noteq> 0
        \<and> Is_Page_Multiple a \<and> page_flags s n = PAGE_AVAIL
        \<and> page_flags s' = (page_flags s)(n := PAGE_ALLOCATED) \<and> s_numPages s' = s_numPages s"
proof (cases ns)
  case Nil
  with assms show ?thesis by (simp add: Alloc_Page_empty)
next
  case (Cons n ms)
  with assms obtain s' where s': "Alloc_Page s = Some (Get_Page_Address n, s')" "pm_inv s' ms"
    "page_flags s' = (page_flags s)(n := PAGE_ALLOCATED)" "s_numPages s' = s_numPages s"
    using Alloc_Page_nonempty by blast
  have n: "n < unat (s_numPages s)" "page_flags s n = PAGE_AVAIL" "unat (s_numPages s) \<le> 1048576"
    using assms Cons by (auto simp: pm_inv_def free_pages_def)
  have "n \<noteq> 0"
  proof
    assume "n = 0"
    with assms n show False by (simp add: pm_inv_def known_flags_def)
  qed
  moreover have a: "unat (Get_Page_Address n) = n * 4096" using n by (intro unat_Get_Page_Address) simp
  ultimately have "Get_Page_Address n \<noteq> 0" by (auto simp: word_unat_eq_iff)
  with s' n a Cons show ?thesis by (simp add: Is_Page_Multiple_dvd)
qed

lemma Init_8MB: "\<exists>s ns. Init_Mem 8192 163840 boot_mem = Some s \<and> pm_inv s ns \<and> ns \<noteq> []
    \<and> page_flags s 256 = PAGE_ALLOCATED \<and> unat (s_numPages s) = 2048"
proof -
  obtain s ns where s: "Init_Mem 8192 163840 boot_mem = Some s" "pm_inv s ns"
    "unat (s_numPages s) = 2048" "\<forall>i < 2048. page_flags s i = initial_flags (kern_pages 8192 163840) i"
    using Init_Mem_spec [OF boot_ok_8MB boot_mem_empty] by (auto simp: boot_mem_def)
  have "page_flags s 1 = PAGE_AVAIL" using s(4) by (simp add: initial_flags_def)
  then have "1 \<in> set ns" using s(2,3) by (simp add: pm_inv_def free_pages_def)
  moreover have "page_flags s 256 = PAGE_ALLOCATED"
    using s(4) by (simp add: initial_flags_def kern_pages_def)
  ultimately show ?thesis using s by (intro exI [of _ s] exI [of _ ns]) auto
qed

lemma Alloc_Page_correct_witness:
  "\<exists>s a s'. Init_Mem 8192 163840 boot_mem = Some s \<and> Alloc_Page s = Some (a, s') \<and> a \<noteq> 0"
proof -
  obtain s ns where s: "Init_Mem 8192 163840 boot_mem = Some s" "pm_inv s ns" "ns \<noteq> []"
    using Init_8MB by blast
  from Alloc_Page_correct [OF s(2)] s show ?thesis by (cases ns) auto
qed

text \<open>
  \<open>Free_Page\<close> of a page of memory succeeds exactly on the address of an
  allocated page: then that page, and no other, becomes available and is appended to the
  free list, and the invariant is kept; freeing a page twice, an unaligned address or a page
  that was never handed out fails an assertion.
\<close>

theorem Free_Page_correct:
  assumes "pm_inv s ns" and "unat addr div 4096 < unat (s_numPages s)"
  shows "if Is_Page_Multiple addr \<and> page_flags s (Page_Index addr) = PAGE_ALLOCATED
    then \<exists>s'. Free_Page addr s = Some s' \<and> pm_inv s' (ns @ [Page_Index addr])
      \<and> page_flags s' = (page_flags s)(Page_Index addr := PAGE_AVAIL) \<and> Free_Page addr s' = None
    else Free_Page addr s = None"
proof -
  let ?i = "Page_Index addr"
  have i: "?i < unat (s_numPages s)" using assms(2) by (simp add: Page_Index_div)
  have known: "known_flags s" using assms(1) by (simp add: pm_inv_def)
  have no: "Free_Page addr t = None" if "known_flags t" "?i < unat (s_numPages t)"
    "\<not> (Is_Page_Multiple addr \<and> page_flags t ?i = PAGE_ALLOCATED)" for t
    using that known_flags_allocated [OF that(1,2)]
    by (auto simp: Free_Page_def bind_kassert Get_Page_def)
  show ?thesis
  proof (cases "Is_Page_Multiple addr \<and> page_flags s ?i = PAGE_ALLOCATED")
    case True
    then have "unat addr = ?i * 4096" by (simp add: Page_Index_div Is_Page_Multiple_dvd)
    then obtain s' where s': "Free_Page addr s = Some s'" "pm_inv s' (ns @ [?i])"
      "page_flags s' = (page_flags s)(?i := PAGE_AVAIL)" "s_numPages s' = s_numPages s"
      using Free_Page_allocated [OF assms(1) i] True by blast
    have "Free_Page addr s' = None" using s' i by (intro no) (simp_all add: pm_inv_def)
    with True s' show ?thesis by auto
  next
    case False
    with no [OF known i] show ?thesis by simp
  qed
qed

lemma Free_Page_correct_witness:
  "\<exists>s s'. Init_Mem 8192 163840 boot_mem = Some s \<and> Free_Page 0x100000 s = Some s'
    \<and> Free_Page 0x100000 s' = None"
proof -
  obtain s ns where s: "Init_Mem 8192 163840 boot_mem = Some s" "pm_inv s ns"
    "page_flags s 256 = PAGE_ALLOCATED" "unat (s_numPages s) = 2048"
    using Init_8MB by blast
  have "Is_Page_Multiple 0x100000" "Page_Index 0x100000 = 256"
    by (simp_all add: Is_Page_Multiple_dvd Page_Index_div)
  with Free_Page_correct [OF s(2), of "0x100000"] s show ?thesis by auto
qed

end
