(* ===== verification/Segment.thy ===== *)
theory Segment
  imports Prelude
begin

text \<open>
  Segment descriptors and selectors (\<open>include/geekos/segment.h\<close>, \<open>src/geekos/segment.c\<close>),
  the global descriptor table (\<open>src/geekos/gdt.c\<close>) and the task state segment
  (\<open>src/geekos/tss.c\<close>).  Every bit field has the width the struct gives it.  A pointer to a
  descriptor of the GDT is its index.  What the processor makes of a descriptor is stated by
  \<open>seg_base\<close> and \<open>seg_bytes\<close>.
\<close>

section \<open>Descriptors and selectors\<close>

record segment_descriptor =
  sizeLow :: u16
  baseLow :: "24 word"
  seg_type :: "4 word"
  seg_system :: "1 word"
  seg_dpl :: "2 word"
  seg_present :: "1 word"
  sizeHigh :: "4 word"
  seg_avail :: "1 word"
  seg_reserved :: "1 word"
  dbBit :: "1 word"
  granularity :: "1 word"
  baseHigh :: u8

definition Selector :: "int \<Rightarrow> bool \<Rightarrow> int \<Rightarrow> u16" where
  "Selector rpl segmentIsInGDT index =
     word_of_int ((rpl AND 0x3) OR push_bit 2 (if segmentIsInGDT then 0 else 1)
       OR push_bit 3 (index AND 0x1FFF))"

definition Set_Size_And_Base_Pages ::
  "u32 \<Rightarrow> u32 \<Rightarrow> segment_descriptor \<Rightarrow> segment_descriptor option" where
  "Set_Size_And_Base_Pages baseAddr numPages desc = do {
     kassert (numPages > 0);
     let numPages = numPages - 1;
     Some (desc\<lparr>sizeLow := ucast (numPages AND 0xFFFF),
       sizeHigh := ucast (drop_bit 16 numPages AND 0x0F),
       baseLow := ucast (baseAddr AND 0xFFFFFF),
       baseHigh := ucast (drop_bit 24 baseAddr AND 0xFF),
       granularity := 1\<rparr>)
   }"

definition Set_Size_And_Base_Bytes ::
  "u32 \<Rightarrow> u32 \<Rightarrow> segment_descriptor \<Rightarrow> segment_descriptor" where
  "Set_Size_And_Base_Bytes baseAddr numBytes desc =
     desc\<lparr>sizeLow := ucast (numBytes AND 0xFFFF),
       sizeHigh := ucast (drop_bit 16 numBytes AND 0x0F),
       baseLow := ucast (baseAddr AND 0xFFFFFF),
       baseHigh := ucast (drop_bit 24 baseAddr AND 0xFF),
       granularity := 0\<rparr>"

definition Init_Null_Segment_Descriptor :: segment_descriptor where
  "Init_Null_Segment_Descriptor =
     \<lparr>sizeLow = 0, baseLow = 0, seg_type = 0, seg_system = 0, seg_dpl = 0, seg_present = 0,
      sizeHigh = 0, seg_avail = 0, seg_reserved = 0, dbBit = 0, granularity = 0, baseHigh = 0\<rparr>"

definition Init_Code_Segment_Descriptor ::
  "u32 \<Rightarrow> u32 \<Rightarrow> int \<Rightarrow> segment_descriptor \<Rightarrow> segment_descriptor option" where
  "Init_Code_Segment_Descriptor baseAddr numPages privilegeLevel desc = do {
     kassert (privilegeLevel \<ge> 0 \<and> privilegeLevel \<le> 3);
     desc \<leftarrow> Set_Size_And_Base_Pages baseAddr numPages desc;
     Some (desc\<lparr>seg_type := 0x0A, seg_system := 1, seg_dpl := word_of_int privilegeLevel,
       seg_present := 1, seg_reserved := 0, dbBit := 1\<rparr>)
   }"

definition Init_Data_Segment_Descriptor ::
  "u32 \<Rightarrow> u32 \<Rightarrow> int \<Rightarrow> segment_descriptor \<Rightarrow> segment_descriptor option" where
  "Init_Data_Segment_Descriptor baseAddr numPages privilegeLevel desc = do {
     kassert (privilegeLevel \<ge> 0 \<and> privilegeLevel \<le> 3);
     desc \<leftarrow> Set_Size_And_Base_Pages baseAddr numPages desc;
     Some (desc\<lparr>seg_type := 0x02, seg_system := 1, seg_dpl := word_of_int privilegeLevel,
       seg_present := 1, seg_reserved := 0, dbBit := 1\<rparr>)
   }"

text \<open>\<open>theTSS\<close> is the address of the TSS, whose size is 104 bytes.\<close>

definition Init_TSS_Descriptor :: "u32 \<Rightarrow> segment_descriptor \<Rightarrow> segment_descriptor" where
  "Init_TSS_Descriptor theTSS desc =
     (Set_Size_And_Base_Bytes theTSS 104 desc)
       \<lparr>seg_type := 0x09, seg_system := 0, seg_dpl := 0, seg_present := 1, seg_reserved := 0,
        dbBit := 0\<rparr>"

definition Init_LDT_Descriptor :: "u32 \<Rightarrow> int \<Rightarrow> segment_descriptor \<Rightarrow> segment_descriptor" where
  "Init_LDT_Descriptor theLDT numEntries desc =
     (Set_Size_And_Base_Bytes theLDT (8 * word_of_int numEntries) desc)
       \<lparr>seg_type := 0x02, seg_system := 0, seg_dpl := 0, seg_present := 1, seg_reserved := 0,
        dbBit := 0\<rparr>"

section \<open>The global descriptor table\<close>

definition NUM_GDT_ENTRIES :: nat where "NUM_GDT_ENTRIES = 16"

record gdt_state =
  s_GDT :: "segment_descriptor list"
  s_numAllocated :: int

function find_avail :: "segment_descriptor list \<Rightarrow> nat \<Rightarrow> nat option" where
  "find_avail gdt i =
     (if i < NUM_GDT_ENTRIES then
        (if seg_avail (gdt ! i) \<noteq> 0 then Some i else find_avail gdt (Suc i))
      else None)"
  by pat_completeness auto
termination
  by (relation "measure (\<lambda>(gdt, i). NUM_GDT_ENTRIES - i)") auto

text \<open>The result \<open>None\<close> is the null pointer.\<close>

definition Allocate_Segment_Descriptor :: "gdt_state \<Rightarrow> nat option \<times> gdt_state" where
  "Allocate_Segment_Descriptor s =
     (case find_avail (s_GDT s) 1 of
        None \<Rightarrow> (None, s)
      | Some i \<Rightarrow> (Some i,
          s\<lparr>s_numAllocated := s_numAllocated s + 1,
            s_GDT := (s_GDT s)[i := (s_GDT s ! i)\<lparr>seg_avail := 0\<rparr>]\<rparr>))"

definition Free_Segment_Descriptor :: "nat \<Rightarrow> gdt_state \<Rightarrow> gdt_state option" where
  "Free_Segment_Descriptor desc s = do {
     kassert (desc < length (s_GDT s));
     kassert (\<not> seg_avail (s_GDT s ! desc) \<noteq> 0);
     Some (s\<lparr>s_GDT := (s_GDT s)[desc := Init_Null_Segment_Descriptor\<lparr>seg_avail := 1\<rparr>],
             s_numAllocated := s_numAllocated s - 1\<rparr>)
   }"

text \<open>\<open>desc - s_GDT\<close>: a descriptor is its index already.\<close>

definition Get_Descriptor_Index :: "nat \<Rightarrow> int" where
  "Get_Descriptor_Index desc = int desc"

text \<open>
  \<open>Init_GDT\<close> up to the \<open>lgdt\<close> instruction.  A null pointer from
  \<open>Allocate_Segment_Descriptor\<close> is dereferenced: \<open>None\<close>.
\<close>

definition Init_GDT :: "gdt_state \<Rightarrow> gdt_state option" where
  "Init_GDT s = do {
     let s = s\<lparr>s_GDT := replicate NUM_GDT_ENTRIES (Init_Null_Segment_Descriptor\<lparr>seg_avail := 1\<rparr>)\<rparr>;
     let (desc, s) = Allocate_Segment_Descriptor s;
     i \<leftarrow> desc;
     d \<leftarrow> Init_Code_Segment_Descriptor 0 0x100000 0 (s_GDT s ! i);
     let s = s\<lparr>s_GDT := (s_GDT s)[i := d]\<rparr>;
     kassert (Get_Descriptor_Index i = uint (drop_bit 3 KERNEL_CS));
     let (desc, s) = Allocate_Segment_Descriptor s;
     j \<leftarrow> desc;
     d \<leftarrow> Init_Data_Segment_Descriptor 0 0x100000 0 (s_GDT s ! j);
     let s = s\<lparr>s_GDT := (s_GDT s)[j := d]\<rparr>;
     kassert (Get_Descriptor_Index j = uint (drop_bit 3 KERNEL_DS));
     Some s
   }"

section \<open>The task state segment\<close>

record tss_state =
  tss_ss0 :: u16
  tss_esp0 :: u32
  s_tssDesc :: nat
  s_tssSelector :: u16

text \<open>\<open>Load_Task_Register\<close> marks the TSS as not busy before it loads the task register.\<close>

definition Load_Task_Register :: "tss_state \<Rightarrow> gdt_state \<Rightarrow> gdt_state" where
  "Load_Task_Register t g =
     g\<lparr>s_GDT := (s_GDT g)[s_tssDesc t := (s_GDT g ! s_tssDesc t)\<lparr>seg_type := 0x09\<rparr>]\<rparr>"

definition Init_TSS :: "u32 \<Rightarrow> gdt_state \<Rightarrow> (tss_state \<times> gdt_state) option" where
  "Init_TSS theTSS g = (case Allocate_Segment_Descriptor g of (desc, g) \<Rightarrow> do {
     kassert (desc \<noteq> None);
     i \<leftarrow> desc;
     let g = g\<lparr>s_GDT := (s_GDT g)[i := Init_TSS_Descriptor theTSS (s_GDT g ! i)]\<rparr>;
     let t = \<lparr>tss_ss0 = 0, tss_esp0 = 0, s_tssDesc = i,
              s_tssSelector = Selector 0 True (Get_Descriptor_Index i)\<rparr>;
     Some (t, Load_Task_Register t g)
   })"

definition Set_Kernel_Stack_Pointer ::
  "u32 \<Rightarrow> tss_state \<Rightarrow> gdt_state \<Rightarrow> tss_state \<times> gdt_state" where
  "Set_Kernel_Stack_Pointer esp0 t g =
     (let t = t\<lparr>tss_ss0 := ucast KERNEL_DS, tss_esp0 := esp0\<rparr> in (t, Load_Task_Register t g))"

declare find_avail.simps [simp del]

section \<open>What the processor reads in a descriptor\<close>

definition seg_base :: "segment_descriptor \<Rightarrow> u32" where
  "seg_base d = ucast (baseLow d) OR push_bit 24 (ucast (baseHigh d))"

definition seg_limit :: "segment_descriptor \<Rightarrow> nat" where
  "seg_limit d = unat (sizeLow d) + 65536 * unat (sizeHigh d)"

text \<open>The number of bytes of the segment; the limit is the last valid offset.\<close>

definition seg_bytes :: "segment_descriptor \<Rightarrow> nat" where
  "seg_bytes d = (if granularity d = 1 then (seg_limit d + 1) * 4096 else seg_limit d + 1)"

lemma base_parts:
  "ucast (ucast (b AND 0xFFFFFF) :: 24 word) OR
   push_bit 24 (ucast (ucast (drop_bit 24 b AND 0xFF) :: u8)) = (b :: u32)"
proof -
  have "(0xFFFFFF :: u32) = mask 24" and "(0xFF :: u32) = mask 8"
    by (simp_all add: mask_eq_exp_minus_1)
  then show ?thesis by (auto simp: bit_eq_iff bit_simps)
qed

lemma size_parts:
  assumes "unat n < 1048576"
  shows "unat (ucast (n AND 0xFFFF) :: u16) + 65536 * unat (ucast (drop_bit 16 n AND 0x0F) :: 4 word)
    = unat (n :: u32)"
proof -
  have m: "(0xFFFF :: u32) = mask 16" "(0x0F :: u32) = mask 4"
    by (simp_all add: mask_eq_exp_minus_1)
  have "unat n mod 65536 + 65536 * (unat n div 65536 mod 16) = unat n"
    using assms by (simp add: less_mult_imp_div_less mult.commute)
  then show ?thesis
    by (simp add: m take_bit_eq_mask [symmetric] unsigned_ucast_eq unsigned_take_bit_eq
        unat_drop_bit_eq drop_bit_eq_div) (simp add: take_bit_eq_mod unat_div_distrib)
qed

lemma Set_Size_And_Base_Pages_spec:
  assumes "0 < numPages" and "unat numPages \<le> 1048576"
  obtains d where "Set_Size_And_Base_Pages b numPages desc = Some d" and "seg_base d = b"
    and "seg_bytes d = unat numPages * 4096" and "granularity d = 1"
    and "seg_avail d = seg_avail desc"
proof -
  have p: "0 < unat numPages" using assms(1) by (simp add: word_less_nat_alt)
  have "unat (numPages - 1) = unat numPages - 1"
    using p unat_sub [of 1 numPages] by (simp add: word_le_nat_alt)
  moreover note p
  ultimately show thesis
    using assms size_parts [of "numPages - 1"] that [of "the (Set_Size_And_Base_Pages b numPages desc)"]
    by (simp add: Set_Size_And_Base_Pages_def seg_base_def base_parts seg_bytes_def
        seg_limit_def Let_def)
qed

lemma Set_Size_And_Base_Bytes_spec:
  "unat n < 1048576 \<Longrightarrow> seg_base (Set_Size_And_Base_Bytes b n d) = b
     \<and> seg_bytes (Set_Size_And_Base_Bytes b n d) = unat n + 1"
  using size_parts [of n]
  by (simp add: Set_Size_And_Base_Bytes_def seg_base_def base_parts seg_bytes_def seg_limit_def)

text \<open>The parts of a selector: privilege level, table, index.\<close>

definition sel_rpl :: "u16 \<Rightarrow> int" where "sel_rpl s = uint (s AND 3)"
definition sel_in_gdt :: "u16 \<Rightarrow> bool" where "sel_in_gdt s \<longleftrightarrow> \<not> bit s 2"
definition sel_index :: "u16 \<Rightarrow> int" where "sel_index s = uint (drop_bit 3 s)"

lemma Selector_parts:
  "sel_rpl (Selector rpl gdt i) = rpl mod 4" "sel_in_gdt (Selector rpl gdt i) = gdt"
  "sel_index (Selector rpl gdt i) = i mod 8192"
proof -
  have m: "(3 :: int) = mask 2" "(0x1FFF :: int) = mask 13" "(3 :: u16) = mask 2"
    by (simp_all add: mask_eq_exp_minus_1)
  have rpl: "uint ((Selector rpl gdt i) AND mask 2) = take_bit 2 rpl"
    unfolding Selector_def m
    by (rule bit_eqI) (auto simp: bit_simps)
  then show "sel_rpl (Selector rpl gdt i) = rpl mod 4"
    by (simp add: sel_rpl_def m take_bit_eq_mod)
  show "sel_in_gdt (Selector rpl gdt i) = gdt"
    by (auto simp: sel_in_gdt_def Selector_def m bit_simps)
  have "uint (drop_bit 3 (Selector rpl gdt i)) = take_bit 13 i"
    unfolding Selector_def m
    by (rule bit_eqI) (auto simp: bit_simps)
  then show "sel_index (Selector rpl gdt i) = i mod 8192"
    by (simp add: sel_index_def take_bit_eq_mod)
qed

definition describes :: "segment_descriptor \<Rightarrow> u32 \<Rightarrow> nat \<Rightarrow> int \<Rightarrow> bool" where
  "describes d base bytes dpl \<longleftrightarrow> seg_base d = base \<and> seg_bytes d = bytes
     \<and> uint (seg_dpl d) = dpl \<and> seg_present d = 1"

lemma Init_Segment_Descriptors:
  assumes "0 < numPages" and "unat numPages \<le> 1048576" and "0 \<le> dpl" and "dpl \<le> 3"
  shows "\<exists>c d. Init_Code_Segment_Descriptor base numPages dpl desc = Some c
      \<and> Init_Data_Segment_Descriptor base numPages dpl desc = Some d
      \<and> describes c base (unat numPages * 4096) dpl \<and> bit (seg_type c) 3
      \<and> describes d base (unat numPages * 4096) dpl \<and> \<not> bit (seg_type d) 3
      \<and> seg_avail c = seg_avail desc \<and> seg_avail d = seg_avail desc"
proof -
  obtain d where d: "Set_Size_And_Base_Pages base numPages desc = Some d" "seg_base d = base"
    "seg_bytes d = unat numPages * 4096" "granularity d = 1" "seg_avail d = seg_avail desc"
    using Set_Size_And_Base_Pages_spec assms(1,2) by blast
  have "uint (word_of_int dpl :: 2 word) = dpl"
    using assms by (simp add: uint_word_of_int)
  moreover have "bit (0x0A :: 4 word) 3" "\<not> bit (0x02 :: 4 word) 3" by simp_all
  ultimately show ?thesis
    using assms d by (simp add: Init_Code_Segment_Descriptor_def Init_Data_Segment_Descriptor_def
        describes_def seg_base_def seg_bytes_def seg_limit_def)
qed

section \<open>The GDT as a set of allocated entries\<close>

definition gdt_ok :: "gdt_state \<Rightarrow> bool" where
  "gdt_ok s \<longleftrightarrow> length (s_GDT s) = NUM_GDT_ENTRIES"

definition gdt_free :: "gdt_state \<Rightarrow> nat set" where
  "gdt_free s = {i. 1 \<le> i \<and> i < NUM_GDT_ENTRIES \<and> seg_avail (s_GDT s ! i) \<noteq> 0}"

lemma find_avail_spec:
  "find_avail gdt i =
     (if \<exists>j. i \<le> j \<and> j < NUM_GDT_ENTRIES \<and> seg_avail (gdt ! j) \<noteq> 0
      then Some (LEAST j. i \<le> j \<and> j < NUM_GDT_ENTRIES \<and> seg_avail (gdt ! j) \<noteq> 0) else None)"
proof (induction gdt i rule: find_avail.induct)
  case (1 gdt i)
  let ?P = "\<lambda>i j. i \<le> j \<and> j < NUM_GDT_ENTRIES \<and> seg_avail (gdt ! j) \<noteq> 0"
  consider "\<not> i < NUM_GDT_ENTRIES" | "i < NUM_GDT_ENTRIES" "seg_avail (gdt ! i) \<noteq> 0"
    | "i < NUM_GDT_ENTRIES" "seg_avail (gdt ! i) = 0" by blast
  then show ?case
  proof cases
    case 1
    then show ?thesis by (subst find_avail.simps) auto
  next
    case 2
    then have "(LEAST j. ?P i j) = i" by (intro Least_equality) auto
    with 2 show ?thesis by (subst find_avail.simps) auto
  next
    case 3
    then have "?P i = ?P (Suc i)" by (auto simp: fun_eq_iff le_eq_less_or_eq)
    moreover have "find_avail gdt i = find_avail gdt (Suc i)"
      using 3 by (subst find_avail.simps) simp
    ultimately show ?thesis using "1.IH" 3 by (simp only: simp_thms)
  qed
qed

lemma Allocate_Segment_Descriptor_spec:
  assumes "gdt_ok s"
  shows "case Allocate_Segment_Descriptor s of
      (None, s') \<Rightarrow> s' = s \<and> gdt_free s = {}
    | (Some i, s') \<Rightarrow> i \<in> gdt_free s \<and> gdt_free s' = gdt_free s - {i} \<and> gdt_ok s'
        \<and> (\<forall>j. j \<noteq> i \<longrightarrow> s_GDT s' ! j = s_GDT s ! j)"
proof (cases "find_avail (s_GDT s) 1")
  case None
  then show ?thesis
    by (auto simp: Allocate_Segment_Descriptor_def find_avail_spec gdt_free_def split: if_splits)
next
  case (Some i)
  let ?P = "\<lambda>j. 1 \<le> j \<and> j < NUM_GDT_ENTRIES \<and> seg_avail (s_GDT s ! j) \<noteq> 0"
  from Some have "\<exists>j. ?P j" and "i = (LEAST j. ?P j)"
    unfolding find_avail_spec by (auto simp del: One_nat_def split: if_splits)
  then have "?P i" by (metis (mono_tags, lifting) LeastI)
  with Some assms show ?thesis
    by (auto simp: Allocate_Segment_Descriptor_def gdt_free_def gdt_ok_def nth_list_update)
qed

section \<open>Properties of segmentation\<close>

text \<open>
  A descriptor initialised for code or data describes exactly the
  \<open>numPages\<close> pages from \<open>baseAddr\<close> on, with the given privilege, as a code or data
  segment that is present; an empty segment or an invalid privilege level is refused.
\<close>

theorem segment_descriptor_describes:
  assumes "unat numPages \<le> 1048576"
  shows "if 0 < numPages \<and> 0 \<le> dpl \<and> dpl \<le> 3
    then \<exists>c d. Init_Code_Segment_Descriptor base numPages dpl desc = Some c
      \<and> Init_Data_Segment_Descriptor base numPages dpl desc = Some d
      \<and> describes c base (unat numPages * 4096) dpl \<and> bit (seg_type c) 3
      \<and> describes d base (unat numPages * 4096) dpl \<and> \<not> bit (seg_type d) 3
    else Init_Code_Segment_Descriptor base numPages dpl desc = None
      \<and> Init_Data_Segment_Descriptor base numPages dpl desc = None"
proof (cases "0 < numPages \<and> 0 \<le> dpl \<and> dpl \<le> 3")
  case True
  then show ?thesis using Init_Segment_Descriptors [of numPages dpl base desc] assms by auto
next
  case False
  then show ?thesis
    by (auto simp: Init_Code_Segment_Descriptor_def Init_Data_Segment_Descriptor_def
        Set_Size_And_Base_Pages_def bind_kassert)
qed

lemma segment_descriptor_describes_witness:
  "\<exists>c. Init_Code_Segment_Descriptor 0x200000 12 3 Init_Null_Segment_Descriptor = Some c
    \<and> describes c 0x200000 49152 3"
  using segment_descriptor_describes [of 12 3 "0x200000" Init_Null_Segment_Descriptor] by auto

text \<open>
  \<open>Init_GDT\<close> passes its assertions: the kernel's code and data segments get
  the descriptors the selectors \<open>KERNEL_CS\<close> and \<open>KERNEL_DS\<close> refer to and cover the whole
  address space, and the 13 other entries stay available.
\<close>

theorem Init_GDT_kernel_segments:
  "\<exists>g. Init_GDT s = Some g \<and> gdt_ok g \<and> gdt_free g = {3 ..< 16}
     \<and> sel_index (ucast KERNEL_CS) = 1 \<and> sel_index (ucast KERNEL_DS) = 2
     \<and> describes (s_GDT g ! 1) 0 4294967296 0 \<and> bit (seg_type (s_GDT g ! 1)) 3
     \<and> describes (s_GDT g ! 2) 0 4294967296 0 \<and> \<not> bit (seg_type (s_GDT g ! 2)) 3"
proof -
  let ?e = "Init_Null_Segment_Descriptor\<lparr>seg_avail := 1\<rparr>"
  let ?z = "Init_Null_Segment_Descriptor\<lparr>seg_avail := 0\<rparr>"
  let ?all = "replicate 16 ?e"
  obtain c d where
    c: "Init_Code_Segment_Descriptor 0 0x100000 0 ?z = Some c" "describes c 0 4294967296 0"
      "bit (seg_type c) 3" "seg_avail c = 0" and
    d: "Init_Data_Segment_Descriptor 0 0x100000 0 ?z = Some d" "describes d 0 4294967296 0"
      "\<not> bit (seg_type d) 3" "seg_avail d = 0"
    using Init_Segment_Descriptors [of "0x100000" 0 0 ?z] by auto
  let ?g = "s\<lparr>s_GDT := ?all[1 := c, 2 := d], s_numAllocated := s_numAllocated s + 2\<rparr>"
  have f1: "find_avail ?all 1 = Some 1"
    by (subst find_avail.simps) (simp add: NUM_GDT_ENTRIES_def)
  have f2: "find_avail (?all[1 := c]) 1 = Some 2"
    using c(4) by (subst find_avail.simps, subst find_avail.simps)
      (simp add: NUM_GDT_ENTRIES_def numeral_2_eq_2)
  have "Init_GDT s = Some ?g"
    using f1 f2 c(1) d(1)
    by (simp add: Init_GDT_def Allocate_Segment_Descriptor_def NUM_GDT_ENTRIES_def Let_def
        Get_Descriptor_Index_def KERNEL_CS_val KERNEL_DS_val)
  moreover have "gdt_free ?g = {3 ..< 16}"
    using c(4) d(4) by (auto simp: gdt_free_def NUM_GDT_ENTRIES_def nth_list_update)
  moreover have "gdt_ok ?g" by (simp add: gdt_ok_def NUM_GDT_ENTRIES_def)
  ultimately show ?thesis
    using c d by (intro exI [of _ ?g]) (simp add: sel_index_def KERNEL_CS_val KERNEL_DS_val)
qed

text \<open>
  \<open>Allocate_Segment_Descriptor\<close> takes an available entry other than entry 0
  and fails only when there is none; \<open>Free_Segment_Descriptor\<close> makes an allocated entry
  available again and fails its assertion on one that is not allocated.
\<close>

theorem gdt_allocation:
  assumes "gdt_ok s"
  shows "(case Allocate_Segment_Descriptor s of
      (None, s') \<Rightarrow> s' = s \<and> gdt_free s = {}
    | (Some i, s') \<Rightarrow> i \<in> gdt_free s \<and> gdt_free s' = gdt_free s - {i} \<and> gdt_ok s'
        \<and> (\<exists>s''. Free_Segment_Descriptor i s' = Some s'' \<and> gdt_free s'' = gdt_free s
              \<and> s_numAllocated s'' = s_numAllocated s))
    \<and> (i \<in> gdt_free s \<longrightarrow> Free_Segment_Descriptor i s = None)"
proof -
  have "i \<in> gdt_free s \<longrightarrow> Free_Segment_Descriptor i s = None"
    by (auto simp: gdt_free_def Free_Segment_Descriptor_def bind_kassert)
  then show ?thesis
    using Allocate_Segment_Descriptor_spec [OF assms] assms
    by (auto simp: Allocate_Segment_Descriptor_def Free_Segment_Descriptor_def gdt_ok_def
        gdt_free_def NUM_GDT_ENTRIES_def nth_list_update split: option.splits)
qed

lemma gdt_allocation_witness:
  "\<exists>s. Allocate_Segment_Descriptor
     \<lparr>s_GDT = replicate 16 (Init_Null_Segment_Descriptor\<lparr>seg_avail := 1\<rparr>), s_numAllocated = 0\<rparr>
     = (Some 1, s)"
proof -
  let ?g = "\<lparr>s_GDT = replicate 16 (Init_Null_Segment_Descriptor\<lparr>seg_avail := 1\<rparr>), s_numAllocated = 0\<rparr>"
  have "find_avail (s_GDT ?g) 1 = Some 1"
    by (subst find_avail.simps) (simp add: NUM_GDT_ENTRIES_def)
  with gdt_allocation [of ?g 1] show ?thesis
    by (simp add: gdt_ok_def NUM_GDT_ENTRIES_def Allocate_Segment_Descriptor_def)
qed

end
