(* ===== verification/CString.thy ===== *)
theory CString
  imports Prelude
begin

text \<open>
  The string library \<open>src/common/string.c\<close> and \<open>src/common/memmove.c\<close>.  Memory is a map
  from addresses to bytes; a pointer is its address, so that overlapping arguments are
  modelled as they are.  A loop whose end depends on what it finds in memory is a
  \<open>partial_function\<close>: \<open>None\<close> means that it never ends.  \<open>cstr m p s\<close> says that the bytes
  \<open>s\<close>, none of them zero, followed by a zero byte, are stored at address \<open>p\<close>.
\<close>

type_synonym mem = "nat \<Rightarrow> u8"

section \<open>Blocks of bytes\<close>

fun memset :: "nat \<Rightarrow> u8 \<Rightarrow> nat \<Rightarrow> mem \<Rightarrow> mem" where
  "memset p c 0 m = m"
| "memset p c (Suc n) m = memset (Suc p) c n (m(p := c))"

fun memcpy :: "nat \<Rightarrow> nat \<Rightarrow> nat \<Rightarrow> mem \<Rightarrow> mem" where
  "memcpy d s 0 m = m"
| "memcpy d s (Suc n) m = memcpy (Suc d) (Suc s) n (m(d := m s))"

text \<open>The loop of \<open>memcmp\<close> tests \<open>n > 0\<close> but its body does not change \<open>n\<close>.\<close>

partial_function (option) memcmp :: "mem \<Rightarrow> nat \<Rightarrow> nat \<Rightarrow> nat \<Rightarrow> int option" where
  "memcmp m s1 s2 n =
     (if n > 0 then
        (let cmp = sint (m s1) - sint (m s2)
         in if cmp \<noteq> 0 then Some cmp else memcmp m (Suc s1) (Suc s2) n)
      else Some 0)"

text \<open>
  \<open>memmove\<close> counts a \<open>size_t\<close> down with \<open>while (--n >= 0)\<close>; the comparison is one of
  unsigned 32-bit numbers.
\<close>

partial_function (option) memmove_up :: "nat \<Rightarrow> nat \<Rightarrow> u32 \<Rightarrow> mem \<Rightarrow> mem option" where
  "memmove_up d s n m =
     (let n = n - 1 in if n \<ge> 0 then memmove_up (Suc d) (Suc s) n (m(d := m s)) else Some m)"

partial_function (option) memmove_down :: "nat \<Rightarrow> nat \<Rightarrow> u32 \<Rightarrow> mem \<Rightarrow> mem option" where
  "memmove_down d s n m =
     (let n = n - 1
      in if n \<ge> 0 then memmove_down (d - 1) (s - 1) n (m(d - 1 := m (s - 1))) else Some m)"

definition memmove :: "nat \<Rightarrow> nat \<Rightarrow> u32 \<Rightarrow> mem \<Rightarrow> mem option" where
  "memmove d s n m =
     (if n \<le> 0 then Some m
      else if s \<ge> d + unat n \<or> d \<ge> s + unat n then Some (memcpy d s (unat n) m)
      else if s > d then memmove_up d s n m
      else if s < d then memmove_down (d + unat n) (s + unat n) n m
      else Some m)"

section \<open>Strings\<close>

partial_function (option) strlen_loop :: "mem \<Rightarrow> nat \<Rightarrow> nat \<Rightarrow> nat option" where
  "strlen_loop m s len = (if m s \<noteq> 0 then strlen_loop m (Suc s) (Suc len) else Some len)"

definition strlen :: "mem \<Rightarrow> nat \<Rightarrow> nat option" where
  "strlen m s = strlen_loop m s 0"

function strnlen_loop :: "mem \<Rightarrow> nat \<Rightarrow> nat \<Rightarrow> nat \<Rightarrow> nat" where
  "strnlen_loop m s maxlen len =
     (if len < maxlen \<and> m s \<noteq> 0 then strnlen_loop m (Suc s) maxlen (Suc len) else len)"
  by pat_completeness auto
termination
  by (relation "measure (\<lambda>(m, s, maxlen, len). maxlen - len)") auto

definition strnlen :: "mem \<Rightarrow> nat \<Rightarrow> nat \<Rightarrow> nat" where
  "strnlen m s maxlen = strnlen_loop m s maxlen 0"

partial_function (option) strcmp :: "mem \<Rightarrow> nat \<Rightarrow> nat \<Rightarrow> int option" where
  "strcmp m s1 s2 =
     (let cmp = sint (m s1) - sint (m s2)
      in if cmp \<noteq> 0 \<or> m s1 = 0 \<or> m s2 = 0 then Some cmp else strcmp m (Suc s1) (Suc s2))"

fun strncmp :: "mem \<Rightarrow> nat \<Rightarrow> nat \<Rightarrow> nat \<Rightarrow> int" where
  "strncmp m s1 s2 0 = 0"
| "strncmp m s1 s2 (Suc limit) =
     (let cmp = sint (m s1) - sint (m s2)
      in if cmp \<noteq> 0 \<or> m s1 = 0 \<or> m s2 = 0 then cmp else strncmp m (Suc s1) (Suc s2) limit)"

partial_function (option) strcpy :: "nat \<Rightarrow> nat \<Rightarrow> mem \<Rightarrow> mem option" where
  "strcpy d s m =
     (if m s \<noteq> 0 then strcpy (Suc d) (Suc s) (m(d := m s)) else Some (m(d := 0)))"

partial_function (option) find_end :: "mem \<Rightarrow> nat \<Rightarrow> nat option" where
  "find_end m s = (if m s \<noteq> 0 then find_end m (Suc s) else Some s)"

definition strcat :: "nat \<Rightarrow> nat \<Rightarrow> mem \<Rightarrow> mem option" where
  "strcat s1 s2 m = do { e \<leftarrow> find_end m s1; strcpy e s2 m }"

fun strncpy :: "nat \<Rightarrow> nat \<Rightarrow> nat \<Rightarrow> mem \<Rightarrow> mem" where
  "strncpy d s 0 m = m"
| "strncpy d s (Suc limit) m =
     (if m s \<noteq> 0 then strncpy (Suc d) (Suc s) limit (m(d := m s)) else m(d := 0))"

text \<open>
  \<open>strdup\<close> does not test the result of \<open>Malloc\<close>: \<open>p\<close> is the block it was given, \<open>None\<close>
  when memory is exhausted, which makes the copy write through a null pointer.
\<close>

definition strdup :: "nat option \<Rightarrow> nat \<Rightarrow> mem \<Rightarrow> (nat \<times> mem) option" where
  "strdup p s1 m = do {
     n \<leftarrow> strlen m s1;
     ret \<leftarrow> p;
     m' \<leftarrow> strcpy ret s1 m;
     Some (ret, m')
   }"

partial_function (option) atoi_loop :: "mem \<Rightarrow> nat \<Rightarrow> u32 \<Rightarrow> u32 option" where
  "atoi_loop m buf ret =
     (if sint (m buf) \<ge> 48 \<and> sint (m buf) \<le> 57
      then atoi_loop m (Suc buf) (ret * 10 + (ucast (m buf) - 48)) else Some ret)"

definition atoi :: "mem \<Rightarrow> nat \<Rightarrow> u32 option" where
  "atoi m buf = atoi_loop m buf 0"

text \<open>The searches return \<open>Some None\<close> for the null pointer.\<close>

partial_function (option) strchr :: "mem \<Rightarrow> nat \<Rightarrow> int \<Rightarrow> nat option option" where
  "strchr m s c =
     (if m s \<noteq> 0 then (if sint (m s) = c then Some (Some s) else strchr m (Suc s) c)
      else Some None)"

fun strrchr_loop :: "mem \<Rightarrow> nat \<Rightarrow> nat \<Rightarrow> int \<Rightarrow> nat option" where
  "strrchr_loop m s 0 c = None"
| "strrchr_loop m s (Suc k) c = (if sint (m (s + k)) = c then Some (s + k) else strrchr_loop m s k c)"

definition strrchr :: "mem \<Rightarrow> nat \<Rightarrow> int \<Rightarrow> nat option option" where
  "strrchr m s c = do { len \<leftarrow> strlen m s; Some (strrchr_loop m s len c) }"

fun in_accept :: "mem \<Rightarrow> nat \<Rightarrow> nat \<Rightarrow> u8 \<Rightarrow> bool" where
  "in_accept m a 0 c = False"
| "in_accept m a (Suc k) c = (c = m a \<or> in_accept m (Suc a) k c)"

partial_function (option) strpbrk_loop :: "mem \<Rightarrow> nat \<Rightarrow> nat \<Rightarrow> nat \<Rightarrow> nat option option" where
  "strpbrk_loop m s accept setLen =
     (if m s \<noteq> 0 then
        (if in_accept m accept setLen (m s) then Some (Some s)
         else strpbrk_loop m (Suc s) accept setLen)
      else Some None)"

definition strpbrk :: "mem \<Rightarrow> nat \<Rightarrow> nat \<Rightarrow> nat option option" where
  "strpbrk m s accept = do { setLen \<leftarrow> strlen m accept; strpbrk_loop m s accept setLen }"

declare strnlen_loop.simps [simp del]

section \<open>What a string is\<close>

fun cstr :: "mem \<Rightarrow> nat \<Rightarrow> u8 list \<Rightarrow> bool" where
  "cstr m p [] \<longleftrightarrow> m p = 0"
| "cstr m p (c # cs) \<longleftrightarrow> c \<noteq> 0 \<and> m p = c \<and> cstr m (Suc p) cs"

text \<open>The order \<open>strcmp\<close> computes: bytes compare as signed characters.\<close>

fun cmp_bytes :: "u8 list \<Rightarrow> u8 list \<Rightarrow> int" where
  "cmp_bytes [] [] = 0"
| "cmp_bytes [] (b # bs) = - sint b"
| "cmp_bytes (a # as) [] = sint a"
| "cmp_bytes (a # as) (b # bs) = (if a = b then cmp_bytes as bs else sint a - sint b)"

lemma cstr_cong: "(\<forall>i \<le> length s. m' (p + i) = m (p + i)) \<Longrightarrow> cstr m' p s = cstr m p s"
proof (induction s arbitrary: p)
  case Nil
  then show ?case by simp
next
  case (Cons c cs)
  have "cstr m' (Suc p) cs = cstr m (Suc p) cs"
    by (rule Cons.IH) (use Cons.prems in \<open>force\<close>)
  then show ?case using Cons.prems by (auto dest: spec [of _ 0])
qed

lemma cstr_nonzero: "cstr m p s \<Longrightarrow> 0 \<notin> set s"
  by (induction s arbitrary: p) auto

lemma cstr_nth: "cstr m p s \<Longrightarrow> i < length s \<Longrightarrow> m (p + i) = s ! i"
proof (induction s arbitrary: p i)
  case (Cons c cs)
  then show ?case using Cons.IH [of "Suc p"] by (cases i) auto
qed simp

lemma cstr_end: "cstr m p s \<Longrightarrow> m (p + length s) = 0"
proof (induction s arbitrary: p)
  case (Cons c cs)
  then show ?case using Cons.IH [of "Suc p"] by simp
qed simp

lemma cstrI:
  "0 \<notin> set s \<Longrightarrow> (\<And>i. i < length s \<Longrightarrow> m (p + i) = s ! i) \<Longrightarrow> m (p + length s) = 0 \<Longrightarrow> cstr m p s"
proof (induction s arbitrary: p)
  case (Cons c cs)
  have "cstr m (Suc p) cs"
    using Cons.prems(1,3) Cons.prems(2) [of "Suc i" for i] by (intro Cons.IH) auto
  with Cons.prems(1) Cons.prems(2) [of 0] show ?case by simp
qed simp

lemma cstr_unique: "cstr m p s \<Longrightarrow> cstr m p t \<Longrightarrow> s = t"
proof (induction s arbitrary: p t)
  case Nil
  then show ?case by (cases t) auto
next
  case (Cons c cs)
  then show ?case by (cases t) auto
qed

lemma sint_eq_iff [simp]: "sint (a :: u8) = sint b \<longleftrightarrow> a = b"
  by (auto intro: signed_word_eqI)

section \<open>Blocks of bytes: what the operations do\<close>

lemma memset_at: "memset p c n m x = (if p \<le> x \<and> x < p + n then c else m x)"
proof (induction p c n m rule: memset.induct)
  case (2 p c n m)
  show ?case unfolding memset.simps "2.IH" by auto
qed auto

lemma memcpy_outside: "x < d \<or> d + n \<le> x \<Longrightarrow> memcpy d s n m x = m x"
  by (induction d s n m rule: memcpy.induct) auto

lemma memcpy_forward:
  "d \<le> s \<or> s + n \<le> d \<Longrightarrow> i < n \<Longrightarrow> memcpy d s n m (d + i) = m (s + i)"
proof (induction d s n m arbitrary: i rule: memcpy.induct)
  case (2 d s n m)
  show ?case
  proof (cases i)
    case 0
    then show ?thesis by (simp add: memcpy_outside)
  next
    case (Suc j)
    have "memcpy (Suc d) (Suc s) n (m(d := m s)) (Suc d + j) = (m(d := m s)) (Suc s + j)"
      by (rule "2.IH") (use "2.prems" Suc in auto)
    moreover have "Suc s + j \<noteq> d" using "2.prems" Suc by auto
    ultimately show ?thesis using Suc by simp
  qed
qed simp

text \<open>The result of a correct block move.\<close>

definition moved :: "nat \<Rightarrow> nat \<Rightarrow> nat \<Rightarrow> mem \<Rightarrow> mem" where
  "moved d s n m x = (if d \<le> x \<and> x < d + n then m (s + (x - d)) else m x)"

lemma moved_Suc:
  assumes "d < Suc s \<or> Suc s + n \<le> d"
  shows "moved (Suc d) (Suc s) n (m(d := m s)) = moved d s (Suc n) m"
proof
  fix x
  show "moved (Suc d) (Suc s) n (m(d := m s)) x = moved d s (Suc n) m x"
  proof (cases "d < x")
    case True
    then obtain k where "x = Suc (d + k)" using less_iff_Suc_add by auto
    with assms show ?thesis by (auto simp: moved_def)
  qed (auto simp: moved_def)
qed

lemma memcpy_moved:
  assumes "d \<le> s \<or> s + n \<le> d"
  shows "memcpy d s n m = moved d s n m"
proof
  fix x
  show "memcpy d s n m x = moved d s n m x"
    using memcpy_forward [OF assms, of "x - d"] memcpy_outside [of x d n]
    by (auto simp: moved_def)
qed

lemma memmove_up_diverges: "memmove_up d s n m = None"
proof (rule ccontr)
  assume "memmove_up d s n m \<noteq> None"
  then obtain r where r: "memmove_up d s n m = Some r" by blast
  show False
    by (rule memmove_up.raw_induct [where P = "\<lambda>_ _ _ _ _. False", OF _ r])
       (auto simp: Let_def)
qed

lemma memmove_down_diverges: "memmove_down d s n m = None"
proof (rule ccontr)
  assume "memmove_down d s n m \<noteq> None"
  then obtain r where r: "memmove_down d s n m = Some r" by blast
  show False
    by (rule memmove_down.raw_induct [where P = "\<lambda>_ _ _ _ _. False", OF _ r])
       (auto simp: Let_def)
qed

lemma memcmp_step:
  "0 < n \<Longrightarrow> memcmp m s1 s2 n =
     (if m s1 \<noteq> m s2 then Some (sint (m s1) - sint (m s2)) else memcmp m (Suc s1) (Suc s2) n)"
  by (subst memcmp.simps) (simp add: Let_def)

lemma memcmp_first_difference:
  assumes "0 < n" and "\<forall>i < k. m (s1 + i) = m (s2 + i)" and "m (s1 + k) \<noteq> m (s2 + k)"
  shows "memcmp m s1 s2 n = Some (sint (m (s1 + k)) - sint (m (s2 + k)))"
  using assms(2,3)
proof (induction k arbitrary: s1 s2)
  case 0
  with assms(1) show ?case by (simp add: memcmp_step)
next
  case (Suc k)
  have "memcmp m (Suc s1) (Suc s2) n = Some (sint (m (Suc s1 + k)) - sint (m (Suc s2 + k)))"
    by (rule Suc.IH) (use Suc.prems in \<open>auto dest: spec [of _ "Suc i" for i]\<close>)
  moreover have "m s1 = m s2" using Suc.prems(1) by (auto dest: spec [of _ 0])
  ultimately show ?case using assms(1) by (simp add: memcmp_step)
qed

lemma memcmp_nonzero:
  assumes "memcmp m s1 s2 n = Some r"
  shows "0 < n \<longrightarrow> r \<noteq> 0"
  by (rule memcmp.raw_induct [where P = "\<lambda>m s1 s2 n r. 0 < n \<longrightarrow> r \<noteq> 0", OF _ assms])
     (auto simp: Let_def split: if_splits)

section \<open>Strings: what the operations do\<close>

lemma strlen_loop_cstr: "cstr m p s \<Longrightarrow> strlen_loop m p k = Some (k + length s)"
proof (induction s arbitrary: p k)
  case Nil
  then show ?case by (simp add: strlen_loop.simps)
next
  case (Cons c cs)
  then show ?case by (subst strlen_loop.simps) simp
qed

lemma strlen_cstr: "cstr m p s \<Longrightarrow> strlen m p = Some (length s)"
  by (simp add: strlen_def strlen_loop_cstr)

lemma strnlen_loop_cstr:
  "cstr m p s \<Longrightarrow> k \<le> n \<Longrightarrow> strnlen_loop m p n k = min n (k + length s)"
proof (induction s arbitrary: p k)
  case Nil
  then show ?case by (subst strnlen_loop.simps) simp
next
  case (Cons c cs)
  show ?case
  proof (cases "k < n")
    case True
    with Cons show ?thesis by (subst strnlen_loop.simps) simp
  next
    case False
    with Cons.prems show ?thesis by (subst strnlen_loop.simps) simp
  qed
qed

lemma strcmp_cstr: "cstr m p s \<Longrightarrow> cstr m q t \<Longrightarrow> strcmp m p q = Some (cmp_bytes s t)"
proof (induction s t arbitrary: p q rule: cmp_bytes.induct)
  case (4 a as b bs)
  then show ?case by (subst strcmp.simps) (auto simp: Let_def)
qed (subst strcmp.simps, auto simp: Let_def)+

lemma strncmp_cstr:
  "cstr m p s \<Longrightarrow> cstr m q t \<Longrightarrow> strncmp m p q n = cmp_bytes (take n s) (take n t)"
proof (induction n arbitrary: p q s t)
  case (Suc n)
  then show ?case by (cases s; cases t) (auto simp: Let_def)
qed simp

lemma sint_0_iff: "sint (a :: u8) = 0 \<longleftrightarrow> a = 0"
  using sint_eq_iff [of a 0] by simp

lemma cmp_bytes_0: "0 \<notin> set s \<Longrightarrow> 0 \<notin> set t \<Longrightarrow> cmp_bytes s t = 0 \<longleftrightarrow> s = t"
  by (induction s t rule: cmp_bytes.induct) (auto simp: sint_0_iff)

lemma cmp_bytes_antisym: "cmp_bytes s t = - cmp_bytes t s"
  by (induction s t rule: cmp_bytes.induct) auto

lemma strcpy_cstr:
  assumes "cstr m s str" and "d + length str < s \<or> s + length str < d"
  shows "strcpy d s m = Some ((moved d s (length str) m)(d + length str := 0))"
  using assms
proof (induction str arbitrary: d s m)
  case Nil
  have "moved d s 0 m = m" by (rule ext) (auto simp: moved_def)
  with Nil show ?case by (subst strcpy.simps) simp
next
  case (Cons c cs)
  have "cstr (m(d := m s)) (Suc s) cs"
    using Cons.prems cstr_cong [of cs "m(d := m s)" "Suc s" m] by auto
  then have "strcpy (Suc d) (Suc s) (m(d := m s)) =
      Some ((moved (Suc d) (Suc s) (length cs) (m(d := m s)))(Suc d + length cs := 0))"
    by (rule Cons.IH) (use Cons.prems in auto)
  moreover have "moved (Suc d) (Suc s) (length cs) (m(d := m s)) = moved d s (length (c # cs)) m"
    using moved_Suc [of d s "length cs"] Cons.prems(2) by auto
  ultimately show ?case using Cons.prems(1) by (subst strcpy.simps) simp
qed

lemma moved_0 [simp]: "moved d s 0 m = m"
  by (rule ext) (auto simp: moved_def)

lemma strncpy_cstr:
  assumes "cstr m s str" and "d + n < s \<or> s + length str < d"
  shows "strncpy d s n m =
     (if length str < n then (moved d s (length str) m)(d + length str := 0) else moved d s n m)"
  using assms
proof (induction n arbitrary: d s m str)
  case 0
  then show ?case by simp
next
  case (Suc n)
  show ?case
  proof (cases str)
    case Nil
    with Suc.prems show ?thesis by simp
  next
    case (Cons c cs)
    have "cstr (m(d := m s)) (Suc s) cs"
      using Suc.prems Cons cstr_cong [of cs "m(d := m s)" "Suc s" m] by auto
    then have "strncpy (Suc d) (Suc s) n (m(d := m s)) =
        (if length cs < n then (moved (Suc d) (Suc s) (length cs) (m(d := m s)))(Suc d + length cs := 0)
         else moved (Suc d) (Suc s) n (m(d := m s)))"
      by (rule Suc.IH) (use Suc.prems Cons in auto)
    moreover have "length cs < n \<Longrightarrow>
        moved (Suc d) (Suc s) (length cs) (m(d := m s)) = moved d s (Suc (length cs)) m"
      using Suc.prems(2) Cons by (intro moved_Suc) auto
    moreover have "\<not> length cs < n \<Longrightarrow> moved (Suc d) (Suc s) n (m(d := m s)) = moved d s (Suc n) m"
      using Suc.prems(2) Cons by (intro moved_Suc) auto
    ultimately show ?thesis using Cons Suc.prems(1) by auto
  qed
qed

lemma cstr_moved:
  assumes "cstr m s str"
  shows "cstr ((moved d s (length str) m)(d + length str := 0)) d str"
  by (rule cstrI) (use assms in \<open>auto simp: moved_def cstr_nth cstr_nonzero\<close>)

lemma find_end_cstr: "cstr m p s \<Longrightarrow> find_end m p = Some (p + length s)"
proof (induction s arbitrary: p)
  case Nil
  then show ?case by (simp add: find_end.simps)
next
  case (Cons c cs)
  then show ?case by (subst find_end.simps) simp
qed

lemma strcat_cstr:
  assumes "cstr m p s" and "cstr m q t"
    and "p + length s + length t < q \<or> q + length t < p"
  shows "\<exists>m'. strcat p q m = Some m' \<and> cstr m' p (s @ t)
    \<and> (\<forall>x. x < p + length s \<or> p + length s + length t < x \<longrightarrow> m' x = m x)"
proof -
  let ?e = "p + length s"
  let ?m = "(moved ?e q (length t) m)(?e + length t := 0)"
  have "strcat p q m = Some ?m"
    using strcpy_cstr [OF assms(2), of ?e] assms(3)
    by (auto simp: strcat_def find_end_cstr [OF assms(1)])
  moreover have "cstr ?m p (s @ t)"
  proof (rule cstrI)
    fix i
    assume "i < length (s @ t)"
    then show "?m (p + i) = (s @ t) ! i"
      using cstr_nth [OF assms(1), of i] cstr_nth [OF assms(2), of "i - length s"]
      by (auto simp: moved_def nth_append)
  qed (use assms in \<open>auto simp: moved_def cstr_nonzero\<close>)
  moreover have "\<forall>x. x < ?e \<or> ?e + length t < x \<longrightarrow> ?m x = m x"
    by (auto simp: moved_def)
  ultimately show ?thesis by blast
qed

text \<open>Searches: position of the first (last) byte with a property.\<close>

fun first_index :: "('a \<Rightarrow> bool) \<Rightarrow> 'a list \<Rightarrow> nat option" where
  "first_index P [] = None"
| "first_index P (x # xs) = (if P x then Some 0 else map_option Suc (first_index P xs))"

lemma first_index_Some:
  "first_index P xs = Some i \<longleftrightarrow> i < length xs \<and> P (xs ! i) \<and> (\<forall>j < i. \<not> P (xs ! j))"
proof (induction xs arbitrary: i)
  case (Cons x xs)
  show ?case
    by (cases i) (auto simp: Cons.IH less_Suc_eq_0_disj)
qed simp

lemma first_index_None: "first_index P xs = None \<longleftrightarrow> (\<forall>x \<in> set xs. \<not> P x)"
  by (induction xs) auto

lemma strchr_cstr:
  "cstr m p s \<Longrightarrow> strchr m p c = Some (map_option (\<lambda>i. p + i) (first_index (\<lambda>b. sint b = c) s))"
proof (induction s arbitrary: p)
  case Nil
  then show ?case by (subst strchr.simps) simp
next
  case (Cons b bs)
  then show ?case by (subst strchr.simps) (auto simp: option.map_comp comp_def)
qed

lemma in_accept_cstr: "cstr m a s \<Longrightarrow> in_accept m a (length s) c \<longleftrightarrow> c \<in> set s"
  by (induction s arbitrary: a) auto

lemma strpbrk_loop_cstr:
  "cstr m p s \<Longrightarrow> cstr m a acc \<Longrightarrow> strpbrk_loop m p a (length acc)
     = Some (map_option (\<lambda>i. p + i) (first_index (\<lambda>b. b \<in> set acc) s))"
proof (induction s arbitrary: p)
  case Nil
  then show ?case by (subst strpbrk_loop.simps) simp
next
  case (Cons b bs)
  then show ?case
    by (subst strpbrk_loop.simps) (auto simp: option.map_comp comp_def in_accept_cstr intro!: option.map_cong)
qed

lemma strpbrk_cstr:
  "cstr m p s \<Longrightarrow> cstr m a acc
   \<Longrightarrow> strpbrk m p a = Some (map_option (\<lambda>i. p + i) (first_index (\<lambda>b. b \<in> set acc) s))"
  by (simp add: strpbrk_def strlen_cstr strpbrk_loop_cstr)

lemma strrchr_loop_spec:
  "strrchr_loop m s k c = Some r \<longleftrightarrow>
     (\<exists>i < k. r = s + i \<and> sint (m (s + i)) = c \<and> (\<forall>j. i < j \<and> j < k \<longrightarrow> sint (m (s + j)) \<noteq> c))"
proof (induction k)
  case (Suc k)
  show ?case
  proof (cases "sint (m (s + k)) = c")
    case True
    then show ?thesis by (auto simp: less_Suc_eq intro: exI [of _ k])
  next
    case False
    then show ?thesis by (auto simp: Suc.IH less_Suc_eq)
  qed
qed simp

text \<open>The value of a string of decimal digits.\<close>

fun dec_value :: "u8 list \<Rightarrow> nat \<Rightarrow> nat" where
  "dec_value [] acc = acc"
| "dec_value (d # ds) acc = dec_value ds (acc * 10 + (unat d - 48))"

definition is_digit :: "u8 \<Rightarrow> bool" where
  "is_digit c \<longleftrightarrow> 48 \<le> unat c \<and> unat c \<le> 57"

lemma signed_byte_arith:
  "0 \<le> x \<Longrightarrow> x < 256 \<Longrightarrow> (x + 128) mod 256 - 128 = (if x < 128 then x else x - (256::int))"
proof (cases "x < 128")
  case False
  assume "0 \<le> x" and "x < 256"
  have "(x + 128) mod 256 = (x - 128 + 256) mod 256" by (simp add: add.commute)
  also have "\<dots> = (x - 128) mod 256" by (rule mod_add_self2)
  also have "\<dots> = x - 128" using False \<open>x < 256\<close> by simp
  finally show ?thesis using False by simp
qed simp

lemma sint_u8: "sint (c :: u8) = (if uint c < 128 then uint c else uint c - 256)"
proof -
  have "sint c = (uint c + 128) mod 256 - 128"
    by (simp add: sint_uint signed_take_bit_eq_take_bit_shift take_bit_eq_mod)
  also have "\<dots> = (if uint c < 128 then uint c else uint c - 256)"
    by (rule signed_byte_arith) (use unsigned_less [of c, where ?'a = int] in auto)
  finally show ?thesis .
qed

lemma is_digit_sint: "is_digit c \<longleftrightarrow> sint c \<ge> 48 \<and> sint c \<le> 57"
proof -
  have *: "(48 \<le> n \<and> n \<le> 57) =
      (48 \<le> (if int n < 128 then int n else int n - 256) \<and> (if int n < 128 then int n else int n - 256) \<le> 57)"
    if "n < 256" for n :: nat
    using that by auto
  have u: "uint c = int (unat c)" by simp
  have "unat c < 256" using unsigned_less [of c, where ?'a = nat] by simp
  from * [OF this] show ?thesis unfolding is_digit_def sint_u8 u .
qed

section \<open>Numbers\<close>

lemma atoi_loop_cstr:
  assumes "cstr m p (ds @ rest)" and "\<forall>d \<in> set ds. is_digit d"
    and "case rest of [] \<Rightarrow> True | r # _ \<Rightarrow> \<not> is_digit r"
  shows "atoi_loop m p (word_of_nat acc) = Some (word_of_nat (dec_value ds acc))"
  using assms
proof (induction ds arbitrary: p acc)
  case Nil
  then show ?case
    by (subst atoi_loop.simps) (auto simp: is_digit_sint split: list.splits)
next
  case (Cons d ds)
  have "(word_of_nat acc * 10 + (ucast d - 48) :: u32) = word_of_nat (acc * 10 + (unat d - 48))"
    using Cons.prems(2) by (simp add: is_digit_def of_nat_diff)
  moreover have "atoi_loop m (Suc p) (word_of_nat (acc * 10 + (unat d - 48))) =
      Some (word_of_nat (dec_value ds (acc * 10 + (unat d - 48))))"
    by (rule Cons.IH) (use Cons.prems in auto)
  ultimately show ?case
    using Cons.prems by (subst atoi_loop.simps) (auto simp: is_digit_sint [symmetric])
qed


lemma moved_same [simp]: "moved d d n m = m"
  by (rule ext) (simp add: moved_def)

text \<open>A comparison of a non-empty block never answers that the blocks are equal.\<close>

lemma memcmp_zero_iff: "memcmp m s1 s2 n = Some 0 \<longleftrightarrow> n = 0"
proof
  assume "memcmp m s1 s2 n = Some 0"
  then show "n = 0" using memcmp_nonzero [of m s1 s2 n 0] by simp
next
  assume "n = 0"
  then show "memcmp m s1 s2 n = Some 0" by (subst memcmp.simps) simp
qed

section \<open>Words and lists of bytes in memory\<close>

text \<open>A little-endian 32-bit store and load, and the copy of a list of bytes.\<close>

definition store32 :: "nat \<Rightarrow> u32 \<Rightarrow> mem \<Rightarrow> mem" where
  "store32 a v m = m(a := ucast v, a + 1 := ucast (drop_bit 8 v), a + 2 := ucast (drop_bit 16 v),
     a + 3 := ucast (drop_bit 24 v))"

definition load32 :: "mem \<Rightarrow> nat \<Rightarrow> u32" where
  "load32 m a = ucast (m a) OR push_bit 8 (ucast (m (a + 1))) OR push_bit 16 (ucast (m (a + 2)))
     OR push_bit 24 (ucast (m (a + 3)))"

fun put_bytes :: "nat \<Rightarrow> u8 list \<Rightarrow> mem \<Rightarrow> mem" where
  "put_bytes p [] m = m"
| "put_bytes p (b # bs) m = put_bytes (Suc p) bs (m(p := b))"

lemma word_of_bytes:
  "ucast (ucast v :: u8) OR push_bit 8 (ucast (ucast (drop_bit 8 v) :: u8))
   OR push_bit 16 (ucast (ucast (drop_bit 16 v) :: u8))
   OR push_bit 24 (ucast (ucast (drop_bit 24 v) :: u8)) = (v :: u32)" (is "?w = v")
proof (rule bit_word_eqI)
  fix n
  assume "n < LENGTH(32)"
  then have "n < 8 \<or> (8 \<le> n \<and> n < 16) \<or> (16 \<le> n \<and> n < 24) \<or> (24 \<le> n \<and> n < 32)"
    by auto
  then show "bit ?w n = bit v n"
    by (elim disjE) (auto simp: bit_simps)
qed

lemma load32_store32 [simp]: "load32 (store32 a v m) a = v"
proof -
  have "store32 a v m a = ucast v" "store32 a v m (a + 1) = ucast (drop_bit 8 v)"
    "store32 a v m (a + 2) = ucast (drop_bit 16 v)" "store32 a v m (a + 3) = ucast (drop_bit 24 v)"
    by (simp_all add: store32_def)
  then show ?thesis unfolding load32_def by (simp only: word_of_bytes)
qed

lemma store32_other: "x < a \<or> a + 4 \<le> x \<Longrightarrow> store32 a v m x = m x"
  by (auto simp: store32_def)

lemma load32_cong: "(\<forall>x. a \<le> x \<and> x < a + 4 \<longrightarrow> m' x = m x) \<Longrightarrow> load32 m' a = load32 m a"
  by (simp add: load32_def)

lemma put_bytes_at:
  "put_bytes p bs m x = (if p \<le> x \<and> x < p + length bs then bs ! (x - p) else m x)"
proof (induction p bs m rule: put_bytes.induct)
  case (2 p b bs m)
  show ?case unfolding put_bytes.simps "2.IH" by (auto simp: nth_Cons' le_Suc_eq Suc_diff_le)
qed auto

lemma put_bytes_cstr:
  "0 \<notin> set bs \<Longrightarrow> cstr ((put_bytes p bs m)(p + length bs := 0)) p bs"
  by (rule cstrI) (auto simp: put_bytes_at)

section \<open>Properties of the string library\<close>

text \<open>
  \<open>memmove\<close> of \<open>n\<close> bytes from \<open>s\<close> to \<open>d\<close> returns, with exactly the \<open>n\<close>
  destination bytes replaced by the source bytes as they were before, when the regions are
  disjoint or equal or the move is empty; when two different regions overlap in either
  direction it does not return at all, because its loops wait for an unsigned counter to
  become negative.
\<close>

theorem memmove_spec:
  "memmove d s n m =
     (if n = 0 \<or> d = s \<or> d + unat n \<le> s \<or> s + unat n \<le> d
      then Some (moved d s (unat n) m) else None)"
proof (cases "n = 0 \<or> d + unat n \<le> s \<or> s + unat n \<le> d")
  case True
  then have "d \<le> s \<or> s + unat n \<le> d" by auto
  with True show ?thesis
    by (auto simp: memmove_def memcpy_moved)
next
  case False
  then show ?thesis
    by (auto simp: memmove_def memmove_up_diverges memmove_down_diverges)
qed

text \<open>
  On two strings \<open>strcmp\<close> returns, with a result that is zero exactly when
  the strings are equal and that changes sign when its arguments are swapped; \<open>strncmp\<close> is
  the same comparison of the prefixes of the given length.
\<close>

theorem strcmp_decides:
  assumes "cstr m p s" and "cstr m q t"
  shows "\<exists>r. strcmp m p q = Some r \<and> strcmp m q p = Some (- r) \<and> (r = 0 \<longleftrightarrow> s = t)
    \<and> (strncmp m p q n = 0 \<longleftrightarrow> take n s = take n t)"
proof (intro exI conjI)
  have nz: "0 \<notin> set s" "0 \<notin> set t" using assms cstr_nonzero by auto
  show "strcmp m p q = Some (cmp_bytes s t)" using assms by (rule strcmp_cstr)
  show "strcmp m q p = Some (- cmp_bytes s t)"
    using strcmp_cstr [OF assms(2,1)] cmp_bytes_antisym [of t s] by simp
  show "(cmp_bytes s t = 0) = (s = t)" using nz by (rule cmp_bytes_0)
  show "(strncmp m p q n = 0) = (take n s = take n t)"
    using cmp_bytes_0 [of "take n s" "take n t"] nz
    by (auto simp: strncmp_cstr [OF assms] dest: in_set_takeD)
qed

text \<open>The strings \<open>"ab"\<close> at address 10 and \<open>"ac"\<close> at address 20.\<close>

definition two_strings :: mem where
  "two_strings = (\<lambda>_. 0)(10 := 97, 11 := 98, 20 := 97, 21 := 99)"

lemma two_strings_cstr: "cstr two_strings 10 [97, 98]" "cstr two_strings 20 [97, 99]"
  by (simp_all add: two_strings_def)

lemma strcmp_decides_witness:
  "\<exists>r. strcmp two_strings 10 20 = Some r \<and> r \<noteq> 0 \<and> strncmp two_strings 10 20 1 = 0"
  using strcmp_decides [OF two_strings_cstr, of 1] by (auto simp del: strncmp.simps One_nat_def simp: take_Cons')

text \<open>
  \<open>strcpy\<close> then \<open>strcat\<close> build the concatenation of their two source strings
  at the destination and touch no byte outside the destination, when the destination does
  not overlap the sources.
\<close>

theorem strcpy_strcat:
  assumes "cstr m p s" and "cstr m q t"
    and "\<forall>a \<in> {(p, length s), (q, length t)}.
      d + length s + length t < fst a \<or> fst a + snd a < d"
  shows "\<exists>m1 m2. strcpy d p m = Some m1 \<and> strcat d q m1 = Some m2
    \<and> cstr m2 d (s @ t) \<and> strlen m2 d = Some (length s + length t)
    \<and> (\<forall>x. x < d \<or> d + length s + length t < x \<longrightarrow> m2 x = m x)"
proof -
  let ?m1 = "(moved d p (length s) m)(d + length s := 0)"
  have 1: "strcpy d p m = Some ?m1"
    by (rule strcpy_cstr [OF assms(1)]) (use assms(3) in auto)
  have "cstr ?m1 q t"
    using assms(2,3) cstr_cong [of t ?m1 q m] by (auto simp: moved_def)
  moreover have "d + length s + length t < q \<or> q + length t < d" using assms(3) by auto
  ultimately obtain m2 where m2: "strcat d q ?m1 = Some m2" "cstr m2 d (s @ t)"
    and fr: "\<forall>x. x < d + length s \<or> d + length s + length t < x \<longrightarrow> m2 x = ?m1 x"
    using strcat_cstr [OF cstr_moved [OF assms(1)]] by blast
  have "\<forall>x. x < d \<or> d + length s + length t < x \<longrightarrow> m2 x = m x"
    using fr by (auto simp: moved_def)
  with 1 m2 strlen_cstr [OF m2(2)] show ?thesis by auto
qed

lemma strcpy_strcat_witness:
  "\<exists>m1 m2. strcpy 50 10 two_strings = Some m1 \<and> strcat 50 20 m1 = Some m2
    \<and> cstr m2 50 [97, 98, 97, 99] \<and> m2 10 = 97"
  using strcpy_strcat [OF two_strings_cstr, of 50]
  by (auto simp: two_strings_def)

text \<open>
  \<open>atoi\<close> of a string that starts with the decimal digits \<open>ds\<close>, followed by
  its end or by another character, returns the number they denote, modulo \<open>2 ^ 32\<close>.
\<close>

theorem atoi_decimal:
  assumes "cstr m p (ds @ rest)" and "\<forall>d \<in> set ds. is_digit d"
    and "case rest of [] \<Rightarrow> True | r # _ \<Rightarrow> \<not> is_digit r"
  shows "atoi m p = Some (word_of_nat (dec_value ds 0))"
  using atoi_loop_cstr [OF assms, of 0] by (simp add: atoi_def)

lemma atoi_decimal_witness:
  "atoi ((\<lambda>_. 0)(5 := 52, 6 := 50, 7 := 120)) 5 = Some 42"
  using atoi_decimal [of "(\<lambda>_. 0)(5 := 52, 6 := 50, 7 := 120)" 5 "[52, 50]" "[120]"]
  by (simp add: is_digit_def)

end
