(* ===== verification/Argblock.thy ===== *)
theory Argblock
  imports CString
begin

text \<open>
  The command line argument block of a process, \<open>src/geekos/argblock.c\<close>.  The command is
  the list of its characters, none of them zero; the block under construction is memory at
  address \<open>argBlock\<close>, and \<open>userAddress\<close> is where the process will see it.
\<close>

section \<open>Operations\<close>

definition Is_Space :: "u8 \<Rightarrow> bool" where
  "Is_Space c \<longleftrightarrow> c = 32 \<or> c = 9 \<or> c = 10 \<or> c = 13"

fun Skip_Whitespace :: "u8 list \<Rightarrow> u8 list" where
  "Skip_Whitespace [] = []"
| "Skip_Whitespace (c # s) = (if Is_Space c then Skip_Whitespace s else c # s)"

fun Get_Argument_Len :: "u8 list \<Rightarrow> nat" where
  "Get_Argument_Len [] = 0"
| "Get_Argument_Len (c # s) = (if \<not> Is_Space c then Suc (Get_Argument_Len s) else 0)"

lemma Skip_Whitespace_length: "length (Skip_Whitespace s) \<le> length s"
  by (induction s) auto

lemma Skip_Whitespace_start:
  "Skip_Whitespace s = c # r \<Longrightarrow> \<not> Is_Space c"
  by (induction s) (auto split: if_splits)

lemma Get_Argument_Len_le: "Get_Argument_Len s \<le> length s"
  by (induction s) auto

lemma argument_progress:
  assumes "Skip_Whitespace s = c # r"
  shows "length (drop (Get_Argument_Len (c # r)) (c # r)) < length s"
proof -
  have "length (c # r) \<le> length s" using Skip_Whitespace_length [of s] assms by simp
  moreover have "0 < Get_Argument_Len (c # r)" using Skip_Whitespace_start [OF assms] by simp
  ultimately show ?thesis by (simp add: diff_less_Suc)
qed

text \<open>The tokenising loop of \<open>Get_Argument_Block_Size\<close>; sizes are counted on 32 bits.\<close>

function block_size_loop :: "u8 list \<Rightarrow> u32 \<Rightarrow> u32 \<Rightarrow> u32 \<times> u32" where
  "block_size_loop s argCount sz =
     (case Skip_Whitespace s of
        [] \<Rightarrow> (argCount, sz)
      | c # r \<Rightarrow>
          let len = Get_Argument_Len (c # r)
          in block_size_loop (drop len (c # r)) (argCount + 1) (sz + 4 + word_of_nat (len + 1)))"
  by pat_completeness auto
termination
  by (relation "measure (\<lambda>(s, a, z). length s)") (use argument_progress in fastforce)+

definition Get_Argument_Block_Size :: "u8 list \<Rightarrow> u32 \<times> u32" where
  "Get_Argument_Block_Size command =
     (let sz = 0 + 4 + 4;
          (argCount, sz) = block_size_loop command 0 sz
      in (argCount, sz + 4))"

function format_loop :: "u8 list \<Rightarrow> nat \<Rightarrow> nat \<Rightarrow> nat \<Rightarrow> u32 \<Rightarrow> mem \<Rightarrow> mem" where
  "format_loop s argv dst argBlock userAddress m =
     (case Skip_Whitespace s of
        [] \<Rightarrow> store32 argv 0 m
      | c # r \<Rightarrow>
          let m = store32 argv (userAddress + word_of_nat (dst - argBlock)) m;
              len = Get_Argument_Len (c # r);
              m = put_bytes dst (take len (c # r)) m;
              dst = dst + len;
              m = m(dst := 0)
          in format_loop (drop len (c # r)) (argv + 4) (dst + 1) argBlock userAddress m)"
  by pat_completeness auto
termination
  by (relation "measure (\<lambda>(s, a, d, b, u, m). length s)") (use argument_progress in fastforce)+

definition Format_Argument_Block :: "nat \<Rightarrow> u32 \<Rightarrow> u32 \<Rightarrow> u8 list \<Rightarrow> mem \<Rightarrow> mem" where
  "Format_Argument_Block argBlock numArgs userAddress command m =
     (let m = store32 argBlock numArgs m;
          dst = argBlock + 4;
          m = store32 dst (userAddress + 8) m;
          dst = dst + 4;
          argv = dst;
          dst = dst + (unat numArgs + 1) * 4
      in format_loop command argv dst argBlock userAddress m)"

declare block_size_loop.simps [simp del] format_loop.simps [simp del]

section \<open>The arguments of a command\<close>

function args :: "u8 list \<Rightarrow> u8 list list" where
  "args s =
     (case Skip_Whitespace s of
        [] \<Rightarrow> []
      | c # r \<Rightarrow> takeWhile (\<lambda>x. \<not> Is_Space x) (c # r)
                  # args (dropWhile (\<lambda>x. \<not> Is_Space x) (c # r)))"
  by pat_completeness auto
termination
proof (relation "measure length", goal_cases)
  case (2 s c r)
  then have "length (c # r) \<le> length s" "\<not> Is_Space c"
    using Skip_Whitespace_length [of s] Skip_Whitespace_start [of s c r] by simp_all
  then show ?case using length_dropWhile_le [of "\<lambda>x. \<not> Is_Space x" r] by simp
qed simp

declare args.simps [simp del]

lemma take_Get_Argument_Len: "take (Get_Argument_Len s) s = takeWhile (\<lambda>x. \<not> Is_Space x) s"
  by (induction s) auto

lemma drop_Get_Argument_Len: "drop (Get_Argument_Len s) s = dropWhile (\<lambda>x. \<not> Is_Space x) s"
  by (induction s) auto

lemma Get_Argument_Len_takeWhile: "Get_Argument_Len s = length (takeWhile (\<lambda>x. \<not> Is_Space x) s)"
  by (induction s) auto

lemma Skip_Whitespace_dropWhile: "Skip_Whitespace s = dropWhile Is_Space s"
  by (induction s) auto

text \<open>What the arguments are: the maximal blocks of characters that are not white space.\<close>

lemma args_join:
  assumes "\<forall>w \<in> set ws. w \<noteq> [] \<and> (\<forall>c \<in> set w. \<not> Is_Space c)" and "Is_Space b"
  shows "args (concat (map (\<lambda>w. w @ [b]) ws)) = ws"
  using assms
proof (induction ws)
  case Nil
  then show ?case by (subst args.simps) simp
next
  case (Cons w ws)
  obtain c r where w: "w = c # r" using Cons.prems by (cases w) auto
  let ?rest = "b # concat (map (\<lambda>w. w @ [b]) ws)"
  have "takeWhile (\<lambda>x. \<not> Is_Space x) (w @ ?rest) = w"
    "dropWhile (\<lambda>x. \<not> Is_Space x) (w @ ?rest) = ?rest"
    using Cons.prems by (simp_all add: takeWhile_append2 dropWhile_append2)
  moreover have "Skip_Whitespace (w @ ?rest) = w @ ?rest" using w Cons.prems by simp
  moreover have "args (b # xs) = args xs" for xs
    using Cons.prems(2) by (subst (1 2) args.simps) simp
  ultimately show ?case
    using Cons w by (subst args.simps) simp
qed

lemma args_Nil: "Skip_Whitespace s = [] \<Longrightarrow> args s = []"
  by (subst args.simps) simp

lemma args_Cons:
  assumes "Skip_Whitespace s = t" and "t \<noteq> []"
  shows "args s = take (Get_Argument_Len t) t # args (drop (Get_Argument_Len t) t)"
  using assms unfolding take_Get_Argument_Len drop_Get_Argument_Len
  by (subst args.simps) (cases t, simp_all)

lemma set_Skip_Whitespace: "set (Skip_Whitespace s) \<subseteq> set s"
  by (induction s) auto

lemma args_nonzero: "0 \<notin> set s \<Longrightarrow> w \<in> set (args s) \<Longrightarrow> 0 \<notin> set w"
proof (induction "args s" arbitrary: s)
  case (Cons v vs)
  let ?t = "Skip_Whitespace s"
  have t: "?t \<noteq> []" using Cons.hyps(2) args_Nil by fastforce
  have vs: "args s = take (Get_Argument_Len ?t) ?t # args (drop (Get_Argument_Len ?t) ?t)"
    by (rule args_Cons [OF refl t])
  have "0 \<notin> set ?t" using Cons.prems(1) set_Skip_Whitespace [of s] by auto
  then have "0 \<notin> set (take (Get_Argument_Len ?t) ?t)" "0 \<notin> set (drop (Get_Argument_Len ?t) ?t)"
    by (auto dest: in_set_takeD in_set_dropD)
  with Cons.hyps(1) [of "drop (Get_Argument_Len ?t) ?t"] Cons.hyps(2) Cons.prems(2) vs
  show ?case by auto
qed simp

section \<open>The size of the block\<close>

text \<open>The bytes an argument takes in the string area, and the offset of the \<open>i\<close>-th one.\<close>

definition arg_bytes :: "u8 list list \<Rightarrow> nat" where
  "arg_bytes ws = sum_list (map (\<lambda>w. length w + 1) ws)"

definition block_bytes :: "u8 list list \<Rightarrow> nat" where
  "block_bytes ws = 8 + 4 * (length ws + 1) + arg_bytes ws"

lemma arg_bytes_simps [simp]:
  "arg_bytes [] = 0" "arg_bytes (w # ws) = length w + 1 + arg_bytes ws"
  by (simp_all add: arg_bytes_def)

lemma block_size_loop_Cons:
  assumes "Skip_Whitespace s = t" and "t \<noteq> []"
  shows "block_size_loop s n z = block_size_loop (drop (Get_Argument_Len t) t) (n + 1)
    (z + 4 + word_of_nat (Get_Argument_Len t + 1))"
  using assms by (subst block_size_loop.simps) (cases t, simp_all add: Let_def)

lemma block_size_loop_args:
  "block_size_loop s n z =
     (n + word_of_nat (length (args s)), z + word_of_nat (4 * length (args s) + arg_bytes (args s)))"
proof (induction "args s" arbitrary: s n z)
  case Nil
  then have "Skip_Whitespace s = []" using args_Cons [of s] by fastforce
  then show ?case by (subst block_size_loop.simps) (simp add: args_Nil)
next
  case (Cons w ws)
  let ?t = "Skip_Whitespace s"
  have t: "?t \<noteq> []" using Cons.hyps(2) args_Nil by fastforce
  have as: "args s = take (Get_Argument_Len ?t) ?t # args (drop (Get_Argument_Len ?t) ?t)"
    by (rule args_Cons [OF refl t])
  then have "ws = args (drop (Get_Argument_Len ?t) ?t)" using Cons.hyps(2) by simp
  from Cons.hyps(1) [OF this] show ?case
    by (simp add: block_size_loop_Cons [OF refl t] as Get_Argument_Len_le algebra_simps)
qed

lemma Get_Argument_Block_Size_args:
  "Get_Argument_Block_Size s = (word_of_nat (length (args s)), word_of_nat (block_bytes (args s)))"
  by (simp add: Get_Argument_Block_Size_def block_size_loop_args block_bytes_def algebra_simps)

section \<open>The contents of the block\<close>

definition loop_result :: "u8 list list \<Rightarrow> nat \<Rightarrow> nat \<Rightarrow> nat \<Rightarrow> u32 \<Rightarrow> mem \<Rightarrow> mem \<Rightarrow> bool" where
  "loop_result ws argv dst argBlock user m m' \<longleftrightarrow>
     (\<forall>x. x < argv \<or> (argv + 4 * (length ws + 1) \<le> x \<and> x < dst) \<or> dst + arg_bytes ws \<le> x
        \<longrightarrow> m' x = m x)
     \<and> (\<forall>i < length ws.
          load32 m' (argv + 4 * i) = user + word_of_nat (dst + arg_bytes (take i ws) - argBlock)
          \<and> cstr m' (dst + arg_bytes (take i ws)) (ws ! i))
     \<and> load32 m' (argv + 4 * length ws) = 0"

text \<open>One more argument in front.\<close>

lemma loop_result_Cons:
  fixes m :: mem
  defines "m1 \<equiv> \<lambda>argv dst b u. store32 argv (u + word_of_nat (dst - b)) m"
  assumes IH: "loop_result ws (argv + 4) (dst + length w + 1) b u
      ((put_bytes dst w (m1 argv dst b u))(dst + length w := 0)) m'"
    and gap: "argv + 4 * (length ws + 2) \<le> dst" and nz: "0 \<notin> set w"
  shows "loop_result (w # ws) argv dst b u m m'"
proof -
  let ?m1 = "m1 argv dst b u" let ?m2 = "(put_bytes dst w ?m1)(dst + length w := 0)"
  have fr: "m' x = ?m2 x"
    if "x < argv + 4 \<or> (argv + 4 + 4 * (length ws + 1) \<le> x \<and> x < dst + length w + 1)
      \<or> dst + length w + 1 + arg_bytes ws \<le> x" for x
    using IH that unfolding loop_result_def by blast
  have out: "?m2 x = ?m1 x" if "x < dst \<or> dst + length w < x" for x
    using that by (auto simp: put_bytes_at)
  have "m' x = ?m1 x" if "x < argv + 4" for x
    using fr [of x] out [of x] gap that by (simp del: fun_upd_apply)
  then have "load32 m' argv = load32 ?m1 argv"
    by (intro load32_cong) blast
  then have v: "load32 m' argv = u + word_of_nat (dst - b)" by (simp add: m1_def)
  have "cstr m' dst w = cstr ?m2 dst w"
    by (rule cstr_cong) (use fr gap in auto)
  then have c: "cstr m' dst w" using put_bytes_cstr [OF nz] by simp
  have "load32 m' (argv + 4 * i) = u + word_of_nat (dst + arg_bytes (take i (w # ws)) - b)
      \<and> cstr m' (dst + arg_bytes (take i (w # ws))) ((w # ws) ! i)" if "i < length (w # ws)" for i
  proof (cases i)
    case 0
    with v c show ?thesis by simp
  next
    case (Suc j)
    with that IH show ?thesis
      by (auto simp: loop_result_def add.assoc dest!: spec [of _ j])
  qed
  moreover have "m' x = m x" if "x < argv \<or> (argv + 4 * (length (w # ws) + 1) \<le> x \<and> x < dst)
      \<or> dst + arg_bytes (w # ws) \<le> x" for x
    using that fr [of x] out [of x] gap by (auto simp: m1_def store32_other)
  moreover have "load32 m' (argv + 4 * length (w # ws)) = 0"
    using IH by (simp add: loop_result_def add.assoc)
  ultimately show ?thesis unfolding loop_result_def by blast
qed

lemma format_loop_Cons:
  assumes "Skip_Whitespace s = t" and "t \<noteq> []"
  shows "format_loop s argv dst b u m =
     format_loop (drop (Get_Argument_Len t) t) (argv + 4) (dst + Get_Argument_Len t + 1) b u
       ((put_bytes dst (take (Get_Argument_Len t) t) (store32 argv (u + word_of_nat (dst - b)) m))
          (dst + Get_Argument_Len t := 0))"
  using assms by (subst format_loop.simps) (cases t, simp_all add: Let_def)

lemma format_loop_args:
  assumes "0 \<notin> set s" and "argv + 4 * (length (args s) + 1) \<le> dst"
  shows "loop_result (args s) argv dst b u m (format_loop s argv dst b u m)"
  using assms
proof (induction "args s" arbitrary: s argv dst m)
  case Nil
  then have "Skip_Whitespace s = []" using args_Cons [of s] by fastforce
  then have "format_loop s argv dst b u m = store32 argv 0 m"
    by (subst format_loop.simps) simp
  with Nil.prems(2) show ?case
    by (auto simp: loop_result_def Nil.hyps [symmetric] store32_other)
next
  case (Cons w ws)
  let ?t = "Skip_Whitespace s" let ?n = "Get_Argument_Len ?t"
  have t: "?t \<noteq> []" using Cons.hyps(2) args_Nil by fastforce
  have as: "args s = take ?n ?t # args (drop ?n ?t)" by (rule args_Cons [OF refl t])
  then have w: "w = take ?n ?t" and ws: "ws = args (drop ?n ?t)" using Cons.hyps(2) by simp_all
  have len: "length w = ?n" using w Get_Argument_Len_le [of ?t] by simp
  have "0 \<notin> set ?t" using Cons.prems(1) set_Skip_Whitespace [of s] by auto
  then have nz: "0 \<notin> set w" "0 \<notin> set (drop ?n ?t)"
    unfolding w by (auto dest: in_set_takeD in_set_dropD)
  let ?m = "(put_bytes dst w (store32 argv (u + word_of_nat (dst - b)) m))(dst + length w := 0)"
  have "argv + 4 + 4 * (length (args (drop ?n ?t)) + 1) \<le> dst + length w + 1"
    using Cons.prems(2) by (simp add: Cons.hyps(2) [symmetric] ws [symmetric])
  then have "loop_result ws (argv + 4) (dst + length w + 1) b u ?m
      (format_loop (drop ?n ?t) (argv + 4) (dst + length w + 1) b u ?m)"
    using Cons.hyps(1) [OF ws nz(2)] by (simp only: ws)
  then have "loop_result (w # ws) argv dst b u m
      (format_loop (drop ?n ?t) (argv + 4) (dst + length w + 1) b u ?m)"
    by (rule loop_result_Cons)
      (use Cons.prems(2) nz(1) in \<open>simp_all add: Cons.hyps(2) [symmetric]\<close>)
  then show ?case
    by (simp only: format_loop_Cons [OF refl t] Cons.hyps(2) [symmetric] len w [symmetric])
qed

lemma args_size: "length (args s) \<le> length s \<and> arg_bytes (args s) \<le> 2 * length s"
proof (induction "args s" arbitrary: s)
  case (Cons w ws)
  let ?t = "Skip_Whitespace s" let ?n = "Get_Argument_Len ?t"
  have t: "?t \<noteq> []" using Cons.hyps(2) args_Nil by fastforce
  have as: "args s = take ?n ?t # args (drop ?n ?t)" by (rule args_Cons [OF refl t])
  then have ws: "ws = args (drop ?n ?t)" using Cons.hyps(2) by simp
  have "0 < ?n" using t Skip_Whitespace_start [of s] by (cases ?t) auto
  moreover have "?n \<le> length ?t" by (rule Get_Argument_Len_le)
  moreover have "length ?t \<le> length s" by (rule Skip_Whitespace_length)
  ultimately show ?case using Cons.hyps(1) [OF ws] by (auto simp: as)
qed simp

lemma args_sizes_fit:
  assumes "length s < 536870912"
  shows "unat (fst (Get_Argument_Block_Size s)) = length (args s)"
    and "unat (snd (Get_Argument_Block_Size s)) = block_bytes (args s)"
proof -
  have "length (args s) < 4294967296" "block_bytes (args s) < 4294967296"
    using args_size [of s] assms by (simp_all add: block_bytes_def)
  then show "unat (fst (Get_Argument_Block_Size s)) = length (args s)"
    and "unat (snd (Get_Argument_Block_Size s)) = block_bytes (args s)"
    by (simp_all only: Get_Argument_Block_Size_args fst_conv snd_conv)
      (simp_all add: unat_of_nat take_bit_eq_mod)
qed

lemma arg_bytes_take: "i < length ws \<Longrightarrow> arg_bytes (take i ws) + length (ws ! i) < arg_bytes ws"
proof (induction ws arbitrary: i)
  case (Cons w ws)
  then show ?case by (cases i) auto
qed simp

lemma Format_Argument_Block_loop:
  assumes "0 \<notin> set s" and "unat n = length (args s)"
  shows "loop_result (args s) (b + 8) (b + 8 + (length (args s) + 1) * 4) b u
     (store32 (b + 4) (u + 8) (store32 b n m)) (Format_Argument_Block b n u s m)"
proof -
  let ?dst = "b + 8 + (length (args s) + 1) * 4" let ?m = "store32 (b + 4) (u + 8) (store32 b n m)"
  have "Format_Argument_Block b n u s m = format_loop s (b + 8) ?dst b u ?m"
    using assms(2) by (simp add: Format_Argument_Block_def Let_def algebra_simps)
  then show ?thesis using format_loop_args [OF assms(1), of "b + 8" ?dst b u ?m] by simp
qed

lemma Format_Argument_Block_outside:
  assumes "0 \<notin> set s" and "unat n = length (args s)"
    and "x < b \<or> b + block_bytes (args s) \<le> x"
  shows "Format_Argument_Block b n u s m x = m x"
proof -
  have "Format_Argument_Block b n u s m x = store32 (b + 4) (u + 8) (store32 b n m) x"
    using Format_Argument_Block_loop [OF assms(1,2), of b u m] assms(3)
    unfolding loop_result_def block_bytes_def by auto
  with assms(3) show ?thesis by (auto simp: store32_other block_bytes_def)
qed

section \<open>Properties of the argument block\<close>

text \<open>
  Property C40 (round trip).  The block that \<open>Format_Argument_Block\<close> writes for a command,
  with the count and the size \<open>Get_Argument_Block_Size\<close> computes, is what a C program
  expects: the argument count, a pointer to an array of that many pointers that is closed
  by a null pointer, and each pointer leading to a string that holds the corresponding
  argument of the command.  No byte outside the computed size is written.
\<close>

theorem argument_block_round_trip:
  assumes "0 \<notin> set command" and "length command < 536870912"
    and "(n, sz) = Get_Argument_Block_Size command"
    and "m' = Format_Argument_Block b n user command m"
  shows "unat n = length (args command) \<and> load32 m' b = n \<and> load32 m' (b + 4) = user + 8
    \<and> (\<forall>i < unat n. \<exists>off. load32 m' (b + 8 + 4 * i) = user + word_of_nat off
         \<and> off + length (args command ! i) < unat sz \<and> cstr m' (b + off) (args command ! i))
    \<and> load32 m' (b + 8 + 4 * unat n) = 0
    \<and> (\<forall>x. x < b \<or> b + unat sz \<le> x \<longrightarrow> m' x = m x)"
proof -
  let ?ws = "args command" let ?dst = "b + 8 + (length ?ws + 1) * 4"
  let ?m = "store32 (b + 4) (user + 8) (store32 b n m)"
  have n: "unat n = length ?ws" and sz: "unat sz = block_bytes ?ws"
    using args_sizes_fit [OF assms(2)] assms(3) by (metis fst_conv snd_conv)+
  have r: "loop_result ?ws (b + 8) ?dst b user ?m m'"
    using Format_Argument_Block_loop [OF assms(1) n] assms(4) by simp
  have fr: "m' x = ?m x" if "x < b + 8 \<or> ?dst + arg_bytes ?ws \<le> x" for x
    using r that unfolding loop_result_def by blast
  have "load32 m' (b + 4) = load32 ?m (b + 4)" by (rule load32_cong) (use fr in auto)
  moreover have "load32 m' b = load32 (store32 b n m) b"
    by (rule load32_cong) (use fr in \<open>auto simp: store32_other\<close>)
  moreover have "\<exists>off. load32 m' (b + 8 + 4 * i) = user + word_of_nat off
      \<and> off + length (?ws ! i) < unat sz \<and> cstr m' (b + off) (?ws ! i)" if "i < unat n" for i
    using r that n sz arg_bytes_take [of i ?ws]
    by (intro exI [of _ "8 + (length ?ws + 1) * 4 + arg_bytes (take i ?ws)"])
      (auto simp: loop_result_def block_bytes_def add.assoc)
  moreover have "load32 m' (b + 8 + 4 * unat n) = 0" using r n by (simp add: loop_result_def)
  moreover have "m' x = m x" if "x < b \<or> b + unat sz \<le> x" for x
    using Format_Argument_Block_outside [OF assms(1) n] that sz assms(4) by simp
  ultimately show ?thesis using n by simp
qed

text \<open>The command \<open>"ls -l"\<close> (with two spaces) at kernel address 100.\<close>

lemma argument_block_round_trip_witness:
  "let m' = Format_Argument_Block 100 2 4096 [108, 115, 32, 32, 45, 108] (\<lambda>_. 0)
   in args [108, 115, 32, 32, 45, 108] = [[108, 115], [45, 108]] \<and> load32 m' 100 = 2
      \<and> load32 m' 104 = 4104
      \<and> (\<exists>off. load32 m' 112 = 4096 + word_of_nat off \<and> cstr m' (100 + off) [45, 108])
      \<and> load32 m' 116 = 0"
proof -
  have a: "args [108, 115, 32, 32, 45, 108] = [[108, 115], [45, 108]]"
    by (simp add: args.simps Is_Space_def)
  then have "(2, 26) = Get_Argument_Block_Size [108, 115, 32, 32, 45, 108]"
    by (simp add: Get_Argument_Block_Size_args block_bytes_def)
  from argument_block_round_trip [OF _ _ this refl, of 100 4096 "\<lambda>_. 0"] a show ?thesis
    by (auto simp: Let_def dest!: spec [of _ "Suc 0"])
qed

end
