(* ===== verification/Elf.thy ===== *)
theory Elf
  imports CString
begin

text \<open>
  The parser of executables, \<open>src/geekos/elf.c\<close> with the structures of
  \<open>include/geekos/elf.h\<close>.  The file is the list of its bytes; the fields of the packed
  headers are read at their offsets, and a read outside the buffer is \<open>None\<close>.
\<close>

section \<open>Data\<close>

record elf_header =
  eh_magic :: u32
  eh_entry :: u32
  eh_phoff :: u32
  eh_phentsize :: u16
  eh_phnum :: u16

record program_header =
  ph_offset :: u32
  ph_vaddr :: u32
  ph_fileSize :: u32
  ph_memSize :: u32
  ph_flags :: u32

record exe_segment =
  offsetInFile :: u32
  lengthInFile :: u32
  startAddress :: u32
  sizeInMemory :: u32
  protFlags :: u32

record exe_format =
  segmentList :: "exe_segment list"
  numSegments :: nat
  entryAddr :: u32

definition ELF_MAGIC_NUMBER :: u32 where "ELF_MAGIC_NUMBER = 0x7f454c46"
definition EXE_MAX_SEGMENTS :: nat where "EXE_MAX_SEGMENTS = 3"

section \<open>Reading the headers\<close>

definition byte_at :: "u8 list \<Rightarrow> mem" where
  "byte_at f i = (if i < length f then f ! i else 0)"

definition rd32 :: "u8 list \<Rightarrow> nat \<Rightarrow> u32 option" where
  "rd32 f o32 = (if o32 + 4 \<le> length f then Some (load32 (byte_at f) o32) else None)"

definition rd16 :: "u8 list \<Rightarrow> nat \<Rightarrow> u16 option" where
  "rd16 f o16 = (if o16 + 2 \<le> length f
     then Some (ucast (f ! o16) OR push_bit 8 (ucast (f ! (o16 + 1)))) else None)"

text \<open>The four bytes of \<open>ident\<close> the parser compares, put together most significant first.\<close>

definition rd_magic :: "u8 list \<Rightarrow> u32 option" where
  "rd_magic f = (if 4 \<le> length f
     then Some (push_bit 24 (ucast (f ! 0)) OR push_bit 16 (ucast (f ! 1))
       OR push_bit 8 (ucast (f ! 2)) OR ucast (f ! 3)) else None)"

definition read_elf_header :: "u8 list \<Rightarrow> elf_header option" where
  "read_elf_header f = do {
     g \<leftarrow> rd_magic f;
     e \<leftarrow> rd32 f 24;
     po \<leftarrow> rd32 f 28;
     pe \<leftarrow> rd16 f 42;
     pn \<leftarrow> rd16 f 44;
     Some \<lparr>eh_magic = g, eh_entry = e, eh_phoff = po, eh_phentsize = pe, eh_phnum = pn\<rparr>
   }"

definition read_program_header :: "u8 list \<Rightarrow> nat \<Rightarrow> program_header option" where
  "read_program_header f p = do {
     po \<leftarrow> rd32 f (p + 4);
     va \<leftarrow> rd32 f (p + 8);
     fs \<leftarrow> rd32 f (p + 16);
     ms \<leftarrow> rd32 f (p + 20);
     fl \<leftarrow> rd32 f (p + 24);
     Some \<lparr>ph_offset = po, ph_vaddr = va, ph_fileSize = fs, ph_memSize = ms, ph_flags = fl\<rparr>
   }"

text \<open>The assignments of the loop body to \<open>segmentList[i]\<close>.\<close>

definition segment_of :: "program_header \<Rightarrow> exe_segment" where
  "segment_of p = \<lparr>offsetInFile = ph_offset p, lengthInFile = ph_fileSize p,
     startAddress = ph_vaddr p, sizeInMemory = ph_memSize p, protFlags = ph_flags p\<rparr>"

function parse_loop ::
  "u8 list \<Rightarrow> elf_header \<Rightarrow> nat \<Rightarrow> exe_segment list \<Rightarrow> nat \<Rightarrow> (exe_segment list \<times> nat) option" where
  "parse_loop f h i segs count =
     (if i < unat (eh_phnum h) then do {
        p \<leftarrow> read_program_header f (unat (eh_phoff h) + unat (eh_phentsize h) * i);
        if ph_memSize p = 0 then parse_loop f h (Suc i) segs count
        else parse_loop f h (Suc i) (segs[i := segment_of p]) (Suc count)
      } else Some (segs, count))"
  by pat_completeness auto
termination
  by (relation "measure (\<lambda>(f, h, i, segs, count). unat (eh_phnum h) - i)") auto

text \<open>
  \<open>fmt\<close> is the caller's structure, whose segment list has \<open>EXE_MAX_SEGMENTS\<close> entries with
  whatever they contain.  On success the code returns 0.
\<close>

definition Parse_ELF_Executable :: "u8 list \<Rightarrow> exe_format \<Rightarrow> (int \<times> exe_format) option" where
  "Parse_ELF_Executable f fmt = do {
     h \<leftarrow> read_elf_header f;
     kassert (ELF_MAGIC_NUMBER = eh_magic h);
     kassert (EXE_MAX_SEGMENTS \<ge> unat (eh_phnum h));
     (segs, count) \<leftarrow> parse_loop f h 0 (segmentList fmt) 0;
     Some (0, fmt\<lparr>entryAddr := eh_entry h, segmentList := segs, numSegments := count\<rparr>)
   }"

declare parse_loop.simps [simp del]

section \<open>What the parser finds\<close>

definition header_at :: "u8 list \<Rightarrow> elf_header \<Rightarrow> nat \<Rightarrow> program_header option" where
  "header_at f h i = read_program_header f (unat (eh_phoff h) + unat (eh_phentsize h) * i)"

definition segs_result :: "program_header list \<Rightarrow> nat \<Rightarrow> exe_segment list \<Rightarrow> exe_segment list" where
  "segs_result ps i segs = map (\<lambda>j. if i \<le> j \<and> j < length ps \<and> ph_memSize (ps ! j) \<noteq> 0
     then segment_of (ps ! j) else segs ! j) [0 ..< length segs]"

lemma segs_result_same: "length ps \<le> i \<Longrightarrow> segs_result ps i segs = segs"
  by (rule nth_equalityI) (auto simp: segs_result_def)

lemma segs_result_step:
  "i < length ps \<Longrightarrow> segs_result ps i segs =
     segs_result ps (Suc i) (if ph_memSize (ps ! i) = 0 then segs else segs[i := segment_of (ps ! i)])"
  by (auto simp: segs_result_def nth_list_update Suc_le_eq le_eq_less_or_eq intro!: nth_equalityI)

lemma parse_loop_spec:
  assumes "length ps = unat (eh_phnum h)" and "\<forall>j < length ps. header_at f h j = Some (ps ! j)"
    and "i \<le> length ps"
  shows "parse_loop f h i segs c =
    Some (segs_result ps i segs, c + length (filter (\<lambda>p. ph_memSize p \<noteq> 0) (drop i ps)))"
  using assms(3)
proof (induction "length ps - i" arbitrary: i segs c)
  case 0
  then have "i = length ps" by simp
  with assms(1) show ?case by (subst parse_loop.simps) (simp add: segs_result_same)
next
  case (Suc d)
  then have i: "i < length ps" and d: "d = length ps - Suc i" by auto
  have h: "read_program_header f (unat (eh_phoff h) + unat (eh_phentsize h) * i) = Some (ps ! i)"
    using assms(2) i by (simp add: header_at_def)
  have dr: "drop i ps = ps ! i # drop (Suc i) ps" using i by (rule Cons_nth_drop_Suc [symmetric])
  show ?case
    using i assms(1) h Suc.hyps(1) [OF d] segs_result_step [OF i, of segs]
    by (subst parse_loop.simps) (simp add: dr)
qed

text \<open>The segments a loader reads from the format.\<close>

definition loaded_segments :: "exe_format \<Rightarrow> exe_segment list" where
  "loaded_segments fmt = take (numSegments fmt) (segmentList fmt)"

lemma filter_prefix:
  assumes "\<forall>j k. j < k \<and> k < length ps \<and> P (ps ! k) \<longrightarrow> P (ps ! j)"
  shows "filter P ps = take (length (filter P ps)) ps"
  using assms
proof (induction ps)
  case (Cons p ps)
  have IH: "filter P ps = take (length (filter P ps)) ps"
  proof (rule Cons.IH, intro allI impI)
    fix j k
    assume "j < k \<and> k < length ps \<and> P (ps ! k)"
    then show "P (ps ! j)" using Cons.prems [rule_format, of "Suc j" "Suc k"] by simp
  qed
  have "filter P ps = []" if "\<not> P p"
  proof (rule ccontr)
    assume "filter P ps \<noteq> []"
    then obtain k where "k < length ps" "P (ps ! k)" by (auto simp: filter_empty_conv in_set_conv_nth)
    with Cons.prems [rule_format, of 0 "Suc k"] that show False by simp
  qed
  with IH show ?case by simp
qed simp

section \<open>Properties of the parser\<close>

text \<open>
  Property C34.  On an image with the right magic number and at most three program headers,
  all of them inside the file, \<open>Parse_ELF_Executable\<close> succeeds, reports the entry point and
  counts the segments that are not empty.  When no empty segment precedes a non-empty one,
  the segments the loader then reads are exactly the non-empty ones, in order.  A wrong
  magic number or too many segments fail an assertion.
\<close>

theorem Parse_ELF_Executable_segments:
  assumes "read_elf_header f = Some h" and "length ps = unat (eh_phnum h)"
    and "\<forall>j < length ps. header_at f h j = Some (ps ! j)"
    and "length (segmentList fmt) = EXE_MAX_SEGMENTS"
  shows "if eh_magic h = ELF_MAGIC_NUMBER \<and> length ps \<le> EXE_MAX_SEGMENTS
    then \<exists>fmt'. Parse_ELF_Executable f fmt = Some (0, fmt') \<and> entryAddr fmt' = eh_entry h
      \<and> numSegments fmt' = length (filter (\<lambda>p. ph_memSize p \<noteq> 0) ps)
      \<and> ((\<forall>j k. j < k \<and> k < length ps \<and> ph_memSize (ps ! k) \<noteq> 0 \<longrightarrow> ph_memSize (ps ! j) \<noteq> 0)
         \<longrightarrow> loaded_segments fmt' = map segment_of (filter (\<lambda>p. ph_memSize p \<noteq> 0) ps))
    else Parse_ELF_Executable f fmt = None"
proof (cases "eh_magic h = ELF_MAGIC_NUMBER \<and> length ps \<le> EXE_MAX_SEGMENTS")
  case False
  then show ?thesis using assms by (auto simp: Parse_ELF_Executable_def bind_kassert)
next
  case True
  let ?P = "\<lambda>p. ph_memSize p \<noteq> 0" let ?segs = "segs_result ps 0 (segmentList fmt)"
  let ?fmt = "fmt\<lparr>entryAddr := eh_entry h, segmentList := ?segs, numSegments := length (filter ?P ps)\<rparr>"
  have run: "Parse_ELF_Executable f fmt = Some (0, ?fmt)"
    using True assms parse_loop_spec [OF assms(2,3), of 0 "segmentList fmt" 0]
    by (simp add: Parse_ELF_Executable_def)
  have "loaded_segments ?fmt = map segment_of (filter ?P ps)"
    if "\<forall>j k. j < k \<and> k < length ps \<and> ?P (ps ! k) \<longrightarrow> ?P (ps ! j)"
  proof (rule nth_equalityI)
    let ?n = "length (filter ?P ps)"
    have pre: "filter ?P ps = take ?n ps" using that by (rule filter_prefix)
    have n: "?n \<le> EXE_MAX_SEGMENTS" using True length_filter_le [of ?P ps] by linarith
    show "length (loaded_segments ?fmt) = length (map segment_of (filter ?P ps))"
      using n assms(4) by (simp add: loaded_segments_def segs_result_def)
    fix i assume "i < length (loaded_segments ?fmt)"
    then have i: "i < ?n" by (simp add: loaded_segments_def)
    then have "filter ?P ps ! i = ps ! i" using pre by (metis nth_take)
    moreover have "?P (filter ?P ps ! i)" using i nth_mem by fastforce
    moreover have "i < length ps" using i length_filter_le [of ?P ps] by linarith
    ultimately show "loaded_segments ?fmt ! i = map segment_of (filter ?P ps) ! i"
      using i n True assms(4) by (simp add: loaded_segments_def segs_result_def)
  qed
  with True run show ?thesis by auto
qed

text \<open>
  An executable with one page of code at 0x1000 and the entry point 0x1010; the header is
  52 bytes and the single program header 32 bytes long.
\<close>

definition small_exe :: "u8 list" where
  "small_exe = [0x7f, 0x45, 0x4c, 0x46] @ replicate 20 0 @ [0x10, 0x10, 0, 0] @ [52, 0, 0, 0]
     @ replicate 10 0 @ [32, 0] @ [1, 0] @ replicate 6 0
     @ [1, 0, 0, 0] @ [0, 16, 0, 0] @ [0, 16, 0, 0] @ [0, 0, 0, 0] @ [0, 4, 0, 0] @ [0, 16, 0, 0]
     @ [5, 0, 0, 0] @ [0, 16, 0, 0]"

definition empty_format :: exe_format where
  "empty_format = \<lparr>segmentList = replicate 3 \<lparr>offsetInFile = 0, lengthInFile = 0,
     startAddress = 0, sizeInMemory = 0, protFlags = 0\<rparr>, numSegments = 0, entryAddr = 0\<rparr>"

lemma small_exe_headers:
  "read_elf_header small_exe = Some \<lparr>eh_magic = ELF_MAGIC_NUMBER, eh_entry = 0x1010, eh_phoff = 52,
     eh_phentsize = 32, eh_phnum = 1\<rparr>"
  "read_program_header small_exe 52 = Some \<lparr>ph_offset = 0x1000, ph_vaddr = 0x1000,
     ph_fileSize = 0x400, ph_memSize = 0x1000, ph_flags = 5\<rparr>"
  by code_simp+

lemma Parse_ELF_Executable_segments_witness:
  "\<exists>fmt'. Parse_ELF_Executable small_exe empty_format = Some (0, fmt') \<and> entryAddr fmt' = 0x1010
     \<and> loaded_segments fmt' = [\<lparr>offsetInFile = 0x1000, lengthInFile = 0x400, startAddress = 0x1000,
          sizeInMemory = 0x1000, protFlags = 5\<rparr>]"
proof -
  let ?p = "\<lparr>ph_offset = 0x1000, ph_vaddr = 0x1000, ph_fileSize = 0x400, ph_memSize = 0x1000,
    ph_flags = 5\<rparr>"
  show ?thesis
    using Parse_ELF_Executable_segments [OF small_exe_headers(1), of "[?p]" empty_format]
    by (auto simp: header_at_def small_exe_headers(2) empty_format_def EXE_MAX_SEGMENTS_def
        segment_of_def)
qed

end
