(* ===== verification/User_Context.thy ===== *)
theory User_Context
  imports Phys_Mem Segment Argblock Elf
begin

text \<open>
  The memory of user processes, \<open>src/geekos/userseg.c\<close> with \<open>struct User_Context\<close> of
  \<open>include/geekos/user.h\<close>.  All memory, kernel and user, is one map of bytes; the process
  sees the block of \<open>uc_size\<close> bytes at the address \<open>uc_memory\<close> through the segments of its
  local descriptor table.  The results of \<open>Malloc\<close> are arguments, \<open>None\<close> being the null
  pointer.  Messages printed for debugging are not modelled.
\<close>

section \<open>The context of a process\<close>

record user_context =
  uc_ldt :: "segment_descriptor list"
  uc_ldtDescriptor :: nat
  uc_memory :: nat
  uc_size :: u32
  uc_ldtSelector :: u16
  uc_csSelector :: u16
  uc_dsSelector :: u16
  uc_entryAddr :: u32
  uc_argBlockAddr :: u32
  uc_stackPointerAddr :: u32
  uc_refCount :: int

definition NUM_USER_LDT_ENTRIES :: int where "NUM_USER_LDT_ENTRIES = 2"
definition DEFAULT_USER_STACK_SIZE :: u32 where "DEFAULT_USER_STACK_SIZE = 8192"

text \<open>
  \<open>junk\<close> is what the block returned by the first \<open>Malloc\<close> contains: the fields that
  are not assigned keep it.  When the second \<open>Malloc\<close> fails the code goes on with a null
  \<open>memory\<close>; a null segment descriptor is dereferenced.
\<close>

definition Create_User_Context ::
  "nat option \<Rightarrow> nat option \<Rightarrow> user_context \<Rightarrow> u32 \<Rightarrow> gdt_state
   \<Rightarrow> ((nat \<times> user_context) option \<times> gdt_state) option" where
  "Create_User_Context pctx pmem junk sz g =
     (case pctx of
        None \<Rightarrow> Some (None, g)
      | Some p \<Rightarrow> do {
          let mm = (case pmem of None \<Rightarrow> 0 | Some a \<Rightarrow> a);
          let (desc, g) = Allocate_Segment_Descriptor g;
          i \<leftarrow> desc;
          let g = g\<lparr>s_GDT := (s_GDT g)[i :=
                Init_LDT_Descriptor (word_of_nat p) NUM_USER_LDT_ENTRIES (s_GDT g ! i)]\<rparr>;
          let ldtSel = Selector (int KERNEL_PRIVILEGE) True (Get_Descriptor_Index i);
          c \<leftarrow> Init_Code_Segment_Descriptor (word_of_nat mm) (sz div PAGE_SIZE) (int USER_PRIVILEGE)
                 Init_Null_Segment_Descriptor;
          d \<leftarrow> Init_Data_Segment_Descriptor (word_of_nat mm) (sz div PAGE_SIZE) (int USER_PRIVILEGE)
                 Init_Null_Segment_Descriptor;
          Some (Some (p, junk\<lparr>uc_ldt := [c, d], uc_ldtDescriptor := i, uc_memory := mm, uc_size := sz,
              uc_ldtSelector := ldtSel,
              uc_csSelector := Selector (int USER_PRIVILEGE) False 0,
              uc_dsSelector := Selector (int USER_PRIVILEGE) False 1,
              uc_refCount := 0\<rparr>), g)
        })"

definition Validate_User_Memory :: "user_context \<Rightarrow> u32 \<Rightarrow> u32 \<Rightarrow> bool" where
  "Validate_User_Memory userContext userAddr bufSize =
     (if userAddr \<ge> uc_size userContext then False
      else let avail = uc_size userContext - userAddr
           in if bufSize > avail then False else True)"

text \<open>The descriptor is freed; the two \<open>Free\<close> calls return blocks to the heap.\<close>

definition Destroy_User_Context :: "user_context \<Rightarrow> gdt_state \<Rightarrow> gdt_state option" where
  "Destroy_User_Context userContext g = Free_Segment_Descriptor (uc_ldtDescriptor userContext) g"

definition Copy_From_User ::
  "user_context \<Rightarrow> nat \<Rightarrow> u32 \<Rightarrow> u32 \<Rightarrow> mem \<Rightarrow> bool \<times> mem" where
  "Copy_From_User ctx destInKernel srcInUser bufSize m =
     (if Validate_User_Memory ctx srcInUser bufSize
      then (True, memcpy destInKernel (uc_memory ctx + unat srcInUser) (unat bufSize) m)
      else (False, m))"

definition Copy_To_User ::
  "user_context \<Rightarrow> u32 \<Rightarrow> nat \<Rightarrow> u32 \<Rightarrow> mem \<Rightarrow> bool \<times> mem" where
  "Copy_To_User ctx destInUser srcInKernel bufSize m =
     (if Validate_User_Memory ctx destInUser bufSize
      then (True, memcpy (uc_memory ctx + unat destInUser) srcInKernel (unat bufSize) m)
      else (False, m))"

section \<open>Loading a program\<close>

fun max_virtual_address :: "exe_segment list \<Rightarrow> u32 \<Rightarrow> u32" where
  "max_virtual_address [] luMax = luMax"
| "max_virtual_address (s # ss) luMax =
     (let cur = Round_Up_To_Page (startAddress s + sizeInMemory s)
      in max_virtual_address ss (if luMax < cur then cur else luMax))"

fun copy_segments :: "exe_segment list \<Rightarrow> nat \<Rightarrow> nat \<Rightarrow> mem \<Rightarrow> mem" where
  "copy_segments [] memory exeFileData m = m"
| "copy_segments (s # ss) memory exeFileData m =
     copy_segments ss memory exeFileData
       (memcpy (memory + unat (startAddress s)) (exeFileData + unat (offsetInFile s))
          (unat (lengthInFile s)) m)"

text \<open>
  \<open>exeFileData\<close> is the address of the buffer with the file.  A null context or argument
  block buffer is written through: \<open>None\<close>.
\<close>

definition Load_User_Program ::
  "nat option \<Rightarrow> nat option \<Rightarrow> nat option \<Rightarrow> user_context \<Rightarrow> nat \<Rightarrow> exe_format \<Rightarrow> u8 list
   \<Rightarrow> gdt_state \<Rightarrow> mem \<Rightarrow> (int \<times> (nat \<times> user_context) \<times> gdt_state \<times> mem) option" where
  "Load_User_Program pctx pmem parg junk exeFileData exeFormat command g m = do {
     let segs = take (numSegments exeFormat) (segmentList exeFormat);
     let luMax = max_virtual_address segs 0;
     let (numArgs, argSize) = Get_Argument_Block_Size command;
     let stackSize = Round_Up_To_Page (DEFAULT_USER_STACK_SIZE + argSize);
     let total = luMax + stackSize;
     (ctx, g) \<leftarrow> Create_User_Context pctx pmem junk total g;
     (p, ctx) \<leftarrow> ctx;
     argBlock \<leftarrow> parg;
     let ctx = ctx\<lparr>uc_argBlockAddr := Round_Up_To_Page luMax\<rparr>;
     let m = Format_Argument_Block argBlock numArgs (uc_argBlockAddr ctx) command m;
     let m = copy_segments segs (uc_memory ctx) exeFileData m;
     let ctx = ctx\<lparr>uc_entryAddr := entryAddr exeFormat, uc_stackPointerAddr := total\<rparr>;
     Some (0, (p, ctx), g, m)
   }"

section \<open>Validation\<close>

lemma Validate_User_Memory_iff:
  "Validate_User_Memory ctx a n \<longleftrightarrow> unat a < unat (uc_size ctx) \<and> unat a + unat n \<le> unat (uc_size ctx)"
  by (auto simp: Validate_User_Memory_def Let_def word_le_nat_alt word_less_nat_alt unat_sub_if')

section \<open>Properties of user memory\<close>

text \<open>
  Property C15 (isolation).  \<open>Copy_From_User\<close> and \<open>Copy_To_User\<close> accept exactly the
  non-overflowing buffers that start and end inside the process's memory; a refused copy
  changes nothing.  A copy from the user reads only bytes of that memory and changes only
  the kernel buffer; a copy to the user changes only the given bytes of that memory.
\<close>

theorem user_copies_isolated:
  assumes "Copy_From_User ctx dst a n m = (ok, m1)" and "Copy_To_User ctx a src n m = (ok', m2)"
    and "dst + unat n \<le> uc_memory ctx \<or> uc_memory ctx + unat (uc_size ctx) \<le> dst"
    and "src + unat n \<le> uc_memory ctx \<or> uc_memory ctx + unat (uc_size ctx) \<le> src"
  shows "ok = ok' \<and> (ok \<longleftrightarrow> unat a < unat (uc_size ctx) \<and> unat a + unat n \<le> unat (uc_size ctx))
    \<and> (\<not> ok \<longrightarrow> m1 = m \<and> m2 = m)
    \<and> (ok \<longrightarrow> m1 = moved dst (uc_memory ctx + unat a) (unat n) m
         \<and> m2 = moved (uc_memory ctx + unat a) src (unat n) m
         \<and> (\<forall>x. \<not> (uc_memory ctx \<le> x \<and> x < uc_memory ctx + unat (uc_size ctx)) \<longrightarrow> m2 x = m x))"
proof (cases "Validate_User_Memory ctx a n")
  case True
  then have v: "unat a + unat n \<le> unat (uc_size ctx)" by (simp add: Validate_User_Memory_iff)
  let ?u = "uc_memory ctx + unat a"
  have "memcpy dst ?u (unat n) m = moved dst ?u (unat n) m"
    "memcpy ?u src (unat n) m = moved ?u src (unat n) m"
    using assms(3,4) v by (auto intro!: memcpy_moved)
  then have "m1 = moved dst ?u (unat n) m" "m2 = moved ?u src (unat n) m"
    using assms(1,2) True by (auto simp: Copy_From_User_def Copy_To_User_def)
  moreover have "\<forall>x. \<not> (uc_memory ctx \<le> x \<and> x < uc_memory ctx + unat (uc_size ctx))
      \<longrightarrow> moved ?u src (unat n) m x = m x"
    using v by (auto simp: moved_def)
  moreover have "ok" "ok'" using assms(1,2) True by (auto simp: Copy_From_User_def Copy_To_User_def)
  ultimately show ?thesis using True by (simp add: Validate_User_Memory_iff)
next
  case False
  with assms(1,2) show ?thesis
    by (auto simp: Copy_From_User_def Copy_To_User_def Validate_User_Memory_iff)
qed

definition empty_context :: user_context where
  "empty_context = \<lparr>uc_ldt = [], uc_ldtDescriptor = 0, uc_memory = 1000, uc_size = 4096,
     uc_ldtSelector = 0, uc_csSelector = 0, uc_dsSelector = 0, uc_entryAddr = 0,
     uc_argBlockAddr = 0, uc_stackPointerAddr = 0, uc_refCount = 0\<rparr>"

lemma user_copies_isolated_witness:
  "\<exists>m1 m2. Copy_From_User empty_context 0 4000 96 word_of_nat = (True, m1)
     \<and> m1 = moved 0 5000 96 word_of_nat
     \<and> Copy_To_User empty_context 4000 0 96 word_of_nat = (True, m2) \<and> m2 999 = word_of_nat 999"
proof -
  obtain ok m1 ok' m2 where
    r: "Copy_From_User empty_context 0 4000 96 word_of_nat = (ok, m1)"
      "Copy_To_User empty_context 4000 0 96 word_of_nat = (ok', m2)" by fastforce
  from user_copies_isolated [OF r] r show ?thesis by (auto simp: empty_context_def)
qed

section \<open>Loading\<close>

lemma Round_Up_ge: "unat x \<le> 4294963200 \<Longrightarrow> unat x \<le> unat (Round_Up_To_Page x)"
  using mod_less_divisor [of 4096 "unat x"] by (auto simp: unat_Round_Up round_up_nat)

definition segment_fits :: "nat \<Rightarrow> exe_segment \<Rightarrow> bool" where
  "segment_fits lim s \<longleftrightarrow> unat (startAddress s) + unat (sizeInMemory s) \<le> lim
     \<and> unat (lengthInFile s) \<le> unat (sizeInMemory s)"

lemma max_virtual_address_bound:
  assumes "\<forall>s \<in> set segs. segment_fits 2147483648 s" and "unat luMax \<le> 2147483648"
  shows "unat luMax \<le> unat (max_virtual_address segs luMax)
    \<and> unat (max_virtual_address segs luMax) \<le> 2147483648
    \<and> (\<forall>s \<in> set segs. segment_fits (unat (max_virtual_address segs luMax)) s)"
  using assms
proof (induction segs arbitrary: luMax)
  case (Cons s ss)
  let ?e = "startAddress s + sizeInMemory s" let ?cur = "Round_Up_To_Page ?e"
  have e: "unat ?e = unat (startAddress s) + unat (sizeInMemory s)" "unat ?e \<le> 2147483648"
    using Cons.prems(1) by (auto simp: segment_fits_def unat_plus_if')
  then have c: "unat ?e \<le> unat ?cur" "unat ?cur \<le> 2147483648"
    using Round_Up_ge [of ?e] by (auto simp: unat_Round_Up)
  let ?n = "if luMax < ?cur then ?cur else luMax"
  have n: "unat ?n \<le> 2147483648" "unat luMax \<le> unat ?n" "unat ?cur \<le> unat ?n"
    using c Cons.prems(2) by (auto simp: word_less_nat_alt)
  have IH: "unat ?n \<le> unat (max_virtual_address ss ?n)
    \<and> unat (max_virtual_address ss ?n) \<le> 2147483648
    \<and> (\<forall>s \<in> set ss. segment_fits (unat (max_virtual_address ss ?n)) s)"
    by (rule Cons.IH) (use Cons.prems n in auto)
  moreover have "segment_fits (unat (max_virtual_address ss ?n)) s"
    using Cons.prems(1) e c n IH by (auto simp: segment_fits_def)
  ultimately show ?case using n by (simp add: Let_def)
qed simp

text \<open>\<open>disjoint_segs\<close>: the address ranges of the segments do not overlap.\<close>

fun disjoint_segs :: "exe_segment list \<Rightarrow> bool" where
  "disjoint_segs [] \<longleftrightarrow> True"
| "disjoint_segs (s # ss) \<longleftrightarrow>
     (\<forall>t \<in> set ss. unat (startAddress s) + unat (sizeInMemory s) \<le> unat (startAddress t)
        \<or> unat (startAddress t) + unat (sizeInMemory t) \<le> unat (startAddress s)) \<and> disjoint_segs ss"

lemma copy_segments_spec:
  assumes "disjoint_segs segs" and "\<forall>s \<in> set segs. segment_fits lim s"
    and "\<forall>s \<in> set segs. unat (offsetInFile s) + unat (lengthInFile s) \<le> flen"
    and "memory + lim \<le> file \<or> file + flen \<le> memory"
  shows "(\<forall>s \<in> set segs. \<forall>k < unat (lengthInFile s).
            copy_segments segs memory file m (memory + unat (startAddress s) + k)
              = m (file + unat (offsetInFile s) + k))
    \<and> (\<forall>x. (\<forall>s \<in> set segs. \<not> (memory + unat (startAddress s) \<le> x
              \<and> x < memory + unat (startAddress s) + unat (lengthInFile s)))
            \<longrightarrow> copy_segments segs memory file m x = m x)"
  using assms
proof (induction segs arbitrary: m)
  case (Cons s ss)
  let ?d = "memory + unat (startAddress s)" let ?s = "file + unat (offsetInFile s)"
  let ?n = "unat (lengthInFile s)"
  let ?m = "memcpy ?d ?s ?n m" let ?m' = "copy_segments ss memory file ?m"
  have m1: "?m = moved ?d ?s ?n m"
    by (rule memcpy_moved) (use Cons.prems in \<open>auto simp: segment_fits_def\<close>)
  have IH: "\<forall>s \<in> set ss. \<forall>k < unat (lengthInFile s).
            ?m' (memory + unat (startAddress s) + k) = ?m (file + unat (offsetInFile s) + k)"
    "\<And>x. (\<forall>s \<in> set ss. \<not> (memory + unat (startAddress s) \<le> x
              \<and> x < memory + unat (startAddress s) + unat (lengthInFile s))) \<Longrightarrow> ?m' x = ?m x"
    using Cons.IH [of ?m] Cons.prems by auto
  have src: "?m (file + j) = m (file + j)" if "j < flen" for j
    using that Cons.prems(2,4) by (auto simp: m1 moved_def segment_fits_def)
  have "?m' (memory + unat (startAddress t) + k) = m (file + unat (offsetInFile t) + k)"
    if "t \<in> set ss" "k < unat (lengthInFile t)" for t k
    using IH(1) src [of "unat (offsetInFile t) + k"] that Cons.prems(3) by (auto simp: add.assoc)
  moreover have "?m' (?d + k) = m (?s + k)" if "k < ?n" for k
  proof -
    have "?m' (?d + k) = ?m (?d + k)"
      by (rule IH(2)) (use that Cons.prems(1,2) in \<open>fastforce simp: segment_fits_def\<close>)
    with that show ?thesis by (simp add: m1 moved_def)
  qed
  moreover have "?m' x = m x" if "\<forall>t \<in> set (s # ss). \<not> (memory + unat (startAddress t) \<le> x
      \<and> x < memory + unat (startAddress t) + unat (lengthInFile t))" for x
    using IH(2) [of x] that by (auto simp: m1 moved_def)
  ultimately show ?case by auto
qed simp

text \<open>The size of the memory \<open>Load_User_Program\<close> asks for.\<close>

definition program_size :: "exe_segment list \<Rightarrow> u8 list \<Rightarrow> u32" where
  "program_size segs command = max_virtual_address segs 0
     + Round_Up_To_Page (DEFAULT_USER_STACK_SIZE + snd (Get_Argument_Block_Size command))"

lemma Create_User_Context_spec:
  assumes "gdt_ok g" and "gdt_free g \<noteq> {}" and "0 < sz div PAGE_SIZE"
  shows "\<exists>ctx g'. Create_User_Context (Some p) (Some mm) junk sz g = Some (Some (p, ctx), g')
    \<and> uc_memory ctx = mm \<and> uc_size ctx = sz \<and> uc_refCount ctx = 0 \<and> gdt_ok g'
    \<and> uc_ldtDescriptor ctx \<in> gdt_free g \<and> gdt_free g' = gdt_free g - {uc_ldtDescriptor ctx}
    \<and> uc_ldtSelector ctx = Selector 0 True (int (uc_ldtDescriptor ctx))
    \<and> length (uc_ldt ctx) = 2
    \<and> (\<forall>d \<in> set (uc_ldt ctx). describes d (word_of_nat mm) (unat (sz div PAGE_SIZE) * 4096) 3)
    \<and> uc_csSelector ctx = Selector 3 False 0 \<and> uc_dsSelector ctx = Selector 3 False 1"
proof -
  obtain i g1 where a: "Allocate_Segment_Descriptor g = (Some i, g1)" "i \<in> gdt_free g"
    "gdt_free g1 = gdt_free g - {i}" "gdt_ok g1"
    using Allocate_Segment_Descriptor_spec [OF assms(1)] assms(2)
    by (auto split: prod.splits option.splits)
  let ?g = "g1\<lparr>s_GDT := (s_GDT g1)[i := Init_LDT_Descriptor (word_of_nat p) 2 (s_GDT g1 ! i)]\<rparr>"
  have av: "seg_avail (Init_LDT_Descriptor b n d) = seg_avail d" for b n d
    by (simp add: Init_LDT_Descriptor_def Set_Size_And_Base_Bytes_def)
  have g: "gdt_ok ?g" "gdt_free ?g = gdt_free g - {i}"
    using a av by (auto simp: gdt_ok_def gdt_free_def nth_list_update)
  have "unat (sz div PAGE_SIZE) \<le> 1048576"
    using unat_less_2_32 [of sz] by (simp add: PAGE_SIZE_val unat_div_distrib)
  then obtain c d where cd:
    "Init_Code_Segment_Descriptor (word_of_nat mm) (sz div PAGE_SIZE) 3 Init_Null_Segment_Descriptor = Some c"
    "Init_Data_Segment_Descriptor (word_of_nat mm) (sz div PAGE_SIZE) 3 Init_Null_Segment_Descriptor = Some d"
    "describes c (word_of_nat mm) (unat (sz div PAGE_SIZE) * 4096) 3"
    "describes d (word_of_nat mm) (unat (sz div PAGE_SIZE) * 4096) 3"
    using Init_Segment_Descriptors [OF assms(3)] by (metis order_refl zero_le_numeral)
  show ?thesis
    using a cd g
    by (auto simp: Create_User_Context_def NUM_USER_LDT_ENTRIES_def KERNEL_PRIVILEGE_def
        USER_PRIVILEGE_def Let_def Get_Descriptor_Index_def)
qed

lemma Round_Up_dvd: "unat x \<le> 4294963200 \<Longrightarrow> 4096 dvd unat (Round_Up_To_Page x)"
  by (simp add: unat_Round_Up)

lemma max_virtual_address_dvd:
  "\<forall>s \<in> set segs. segment_fits 2147483648 s \<Longrightarrow> 4096 dvd unat luMax
   \<Longrightarrow> 4096 dvd unat (max_virtual_address segs luMax)"
proof (induction segs arbitrary: luMax)
  case (Cons s ss)
  have "unat (startAddress s + sizeInMemory s) \<le> 2147483648"
    using Cons.prems(1) by (auto simp: segment_fits_def unat_plus_if')
  then have "4096 dvd unat (Round_Up_To_Page (startAddress s + sizeInMemory s))"
    by (intro Round_Up_dvd) simp
  with Cons show ?case by (simp add: Let_def)
qed simp

lemma program_size_pages:
  assumes "\<forall>s \<in> set segs. segment_fits 2147483648 s" and "length command < 1048576"
  shows "4096 dvd unat (program_size segs command)" and "8192 \<le> unat (program_size segs command)"
    and "unat (max_virtual_address segs 0) + 8192 \<le> unat (program_size segs command)"
proof -
  let ?a = "snd (Get_Argument_Block_Size command)"
  have "unat ?a = block_bytes (args command)" using args_sizes_fit(2) assms(2) by simp
  also have "\<dots> \<le> 12 + 6 * length command" using args_size [of command] by (simp add: block_bytes_def)
  finally have a: "unat ?a < 16777216" using assms(2) by simp
  then have st: "unat (DEFAULT_USER_STACK_SIZE + ?a) = 8192 + unat ?a"
    by (simp add: DEFAULT_USER_STACK_SIZE_def unat_plus_if')
  let ?r = "Round_Up_To_Page (DEFAULT_USER_STACK_SIZE + ?a)"
  have r: "8192 \<le> unat ?r" "unat ?r < 33554432" "4096 dvd unat ?r"
    using st a Round_Up_ge [of "DEFAULT_USER_STACK_SIZE + ?a"]
      Round_Up_dvd [of "DEFAULT_USER_STACK_SIZE + ?a"]
    by (auto simp: unat_Round_Up round_up_nat)
  let ?m = "max_virtual_address segs 0"
  have m: "unat ?m \<le> 2147483648" "4096 dvd unat ?m"
    using max_virtual_address_bound [OF assms(1), of 0] max_virtual_address_dvd [OF assms(1), of 0]
    by auto
  have "unat (program_size segs command) = unat ?m + unat ?r"
    using m r by (simp add: program_size_def unat_plus_if')
  with m r show "4096 dvd unat (program_size segs command)" "8192 \<le> unat (program_size segs command)"
    "unat ?m + 8192 \<le> unat (program_size segs command)" by auto
qed

text \<open>When two blocks of memory share no byte.\<close>

definition apart :: "nat \<Rightarrow> nat \<Rightarrow> nat \<Rightarrow> nat \<Rightarrow> bool" where
  "apart p n q k \<longleftrightarrow> p + n \<le> q \<or> q + k \<le> p"

lemma Load_User_Program_run:
  assumes "gdt_ok g" and "gdt_free g \<noteq> {}" and "0 \<notin> set command" and "length command < 1048576"
    and "segs = loaded_segments fmt" and "disjoint_segs segs"
    and "\<forall>s \<in> set segs. segment_fits 2147483648 s
        \<and> unat (offsetInFile s) + unat (lengthInFile s) \<le> flen"
    and "apart mm (unat (program_size segs command)) file flen"
    and "apart mm (unat (program_size segs command)) pa (block_bytes (args command))"
    and "apart file flen pa (block_bytes (args command))"
  shows "\<exists>ctx g' m'. Load_User_Program (Some p) (Some mm) (Some pa) junk file fmt command g m
        = Some (0, (p, ctx), g', m')
    \<and> uc_refCount ctx = 0 \<and> uc_csSelector ctx = Selector (int USER_PRIVILEGE) False 0
    \<and> uc_memory ctx = mm \<and> uc_size ctx = program_size segs command
    \<and> uc_entryAddr ctx = entryAddr fmt \<and> uc_stackPointerAddr ctx = uc_size ctx
    \<and> (\<forall>d \<in> set (uc_ldt ctx). describes d (word_of_nat mm) (unat (uc_size ctx)) 3)
    \<and> (\<forall>s \<in> set segs. \<forall>k < unat (lengthInFile s).
          m' (mm + unat (startAddress s) + k) = m (file + unat (offsetInFile s) + k))
    \<and> (\<forall>x. x < pa \<or> pa + block_bytes (args command) \<le> x \<longrightarrow>
          x < mm \<or> mm + unat (max_virtual_address segs 0) \<le> x \<longrightarrow> m' x = m x)"
proof -
  let ?sz = "program_size segs command" let ?mx = "max_virtual_address segs 0"
  let ?n = "fst (Get_Argument_Block_Size command)"
  have fits: "\<forall>s \<in> set segs. segment_fits 2147483648 s" using assms(7) by simp
  note ps = program_size_pages [OF fits assms(4)]
  have fit: "\<forall>s \<in> set segs. segment_fits (unat ?mx) s"
    using max_virtual_address_bound [OF fits, of 0] by simp
  have pages: "unat (?sz div PAGE_SIZE) * 4096 = unat ?sz"
    using ps(1) by (simp add: PAGE_SIZE_val unat_div_distrib)
  then have "0 < ?sz div PAGE_SIZE" using ps(2) by (auto simp: word_less_nat_alt)
  then obtain ctx g' where c: "Create_User_Context (Some p) (Some mm) junk ?sz g = Some (Some (p, ctx), g')"
    "uc_memory ctx = mm" "uc_size ctx = ?sz" "uc_refCount ctx = 0" "uc_csSelector ctx = Selector 3 False 0"
    "\<forall>d \<in> set (uc_ldt ctx). describes d (word_of_nat mm) (unat ?sz) 3"
    using Create_User_Context_spec [OF assms(1,2), of ?sz p mm junk] pages by metis
  let ?m1 = "Format_Argument_Block pa ?n (Round_Up_To_Page ?mx) command m"
  let ?m2 = "copy_segments segs mm file ?m1"
  let ?ctx = "ctx\<lparr>uc_argBlockAddr := Round_Up_To_Page ?mx, uc_entryAddr := entryAddr fmt,
    uc_stackPointerAddr := ?sz\<rparr>"
  have run: "Load_User_Program (Some p) (Some mm) (Some pa) junk file fmt command g m
      = Some (0, (p, ?ctx), g', ?m2)"
    using c assms(5)
    by (simp add: Load_User_Program_def program_size_def loaded_segments_def Let_def split_beta)
  have m1: "?m1 x = m x" if "x < pa \<or> pa + block_bytes (args command) \<le> x" for x
    by (rule Format_Argument_Block_outside) (use assms(3,4) that args_sizes_fit(1) in auto)
  have cs: "(\<forall>s \<in> set segs. \<forall>k < unat (lengthInFile s).
            ?m2 (mm + unat (startAddress s) + k) = ?m1 (file + unat (offsetInFile s) + k))"
    "\<And>x. (\<forall>s \<in> set segs. \<not> (mm + unat (startAddress s) \<le> x
              \<and> x < mm + unat (startAddress s) + unat (lengthInFile s))) \<Longrightarrow> ?m2 x = ?m1 x"
    using copy_segments_spec [OF assms(6) fit, of flen mm "file" ?m1] assms(7,8) ps(3)
    by (auto simp: apart_def)
  have "?m2 (mm + unat (startAddress s) + k) = m (file + unat (offsetInFile s) + k)"
    if "s \<in> set segs" "k < unat (lengthInFile s)" for s k
  proof -
    have "unat (offsetInFile s) + k < flen" using that assms(7) by fastforce
    then have "?m1 (file + unat (offsetInFile s) + k) = m (file + unat (offsetInFile s) + k)"
      using assms(10) by (intro m1) (auto simp: apart_def)
    with cs(1) that show ?thesis by simp
  qed
  moreover have "?m2 x = m x" if "x < pa \<or> pa + block_bytes (args command) \<le> x"
    "x < mm \<or> mm + unat ?mx \<le> x" for x
  proof -
    have "?m2 x = ?m1 x" by (rule cs(2)) (use that(2) fit in \<open>fastforce simp: segment_fits_def\<close>)
    with m1 [OF that(1)] show ?thesis by simp
  qed
  ultimately show ?thesis using run c by (auto simp: USER_PRIVILEGE_def)
qed

text \<open>
  Property C33.  For an executable whose segments do not overlap and lie in the file and
  below 2 GB, \<open>Load_User_Program\<close> returns 0 and a context whose two segments give user
  mode access to exactly the allocated memory, which holds the data of every segment at its
  start address; the entry point and the stack pointer are set; no other memory changes,
  except for the buffer of the argument block.  In particular the argument block is never
  copied to the address in the process's memory that is announced as its place.
\<close>

theorem Load_User_Program_loads:
  assumes "gdt_ok g" and "gdt_free g \<noteq> {}" and "0 \<notin> set command" and "length command < 1048576"
    and "segs = loaded_segments fmt" and "disjoint_segs segs"
    and "\<forall>s \<in> set segs. segment_fits 2147483648 s
        \<and> unat (offsetInFile s) + unat (lengthInFile s) \<le> flen"
    and "apart mm (unat (program_size segs command)) file flen"
    and "apart mm (unat (program_size segs command)) pa (block_bytes (args command))"
    and "apart file flen pa (block_bytes (args command))"
  shows "\<exists>ctx g' m'. Load_User_Program (Some p) (Some mm) (Some pa) junk file fmt command g m
        = Some (0, (p, ctx), g', m')
    \<and> uc_memory ctx = mm \<and> uc_size ctx = program_size segs command
    \<and> uc_entryAddr ctx = entryAddr fmt \<and> uc_stackPointerAddr ctx = uc_size ctx
    \<and> (\<forall>d \<in> set (uc_ldt ctx). describes d (word_of_nat mm) (unat (uc_size ctx)) 3)
    \<and> (\<forall>s \<in> set segs. \<forall>k < unat (lengthInFile s).
          m' (mm + unat (startAddress s) + k) = m (file + unat (offsetInFile s) + k))
    \<and> (\<forall>x. x < pa \<or> pa + block_bytes (args command) \<le> x \<longrightarrow>
          x < mm \<or> mm + unat (max_virtual_address segs 0) \<le> x \<longrightarrow> m' x = m x)"
  using Load_User_Program_run [OF assms, of p junk] by blast

definition fresh_gdt :: gdt_state where
  "fresh_gdt = \<lparr>s_GDT = replicate 16 (Init_Null_Segment_Descriptor\<lparr>seg_avail := 1\<rparr>), s_numAllocated = 0\<rparr>"

text \<open>A program of one segment at 0x1000, in a file at kernel address 0x10000.\<close>

definition one_segment :: exe_format where
  "one_segment = \<lparr>segmentList = [\<lparr>offsetInFile = 64, lengthInFile = 100, startAddress = 0x1000,
     sizeInMemory = 0x1000, protFlags = 5\<rparr>], numSegments = 1, entryAddr = 0x1000\<rparr>"

lemma fresh_gdt_ok: "gdt_ok fresh_gdt" "1 \<in> gdt_free fresh_gdt"
  by (simp_all add: fresh_gdt_def gdt_ok_def gdt_free_def NUM_GDT_ENTRIES_def)

lemma one_segment_size: "program_size (loaded_segments one_segment) [97] = 0x5000"
  by (simp add: program_size_def loaded_segments_def one_segment_def Round_Up_To_Page_def defs_h
      DEFAULT_USER_STACK_SIZE_def Get_Argument_Block_Size_args args.simps Is_Space_def
      block_bytes_def Let_def)

lemma Load_User_Program_loads_witness:
  "\<exists>ctx g' m'. Load_User_Program (Some 0x8000) (Some 0x20000) (Some 0x9000) empty_context 0x10000
       one_segment [97] fresh_gdt word_of_nat = Some (0, (0x8000, ctx), g', m')
     \<and> uc_entryAddr ctx = 0x1000 \<and> uc_size ctx = 0x5000
     \<and> m' (0x21000 + 3) = word_of_nat (0x10040 + 3)"
proof -
  have a: "args [97] = [[97]]" by (simp add: args.simps Is_Space_def)
  let ?s = "\<lparr>offsetInFile = 64, lengthInFile = 100, startAddress = 0x1000, sizeInMemory = 0x1000,
    protFlags = 5\<rparr> :: exe_segment"
  have seg: "loaded_segments one_segment = [?s]" by (simp add: loaded_segments_def one_segment_def)
  have ne: "gdt_free fresh_gdt \<noteq> {}" using fresh_gdt_ok(2) by blast
  obtain ctx g' m' where r:
    "Load_User_Program (Some 0x8000) (Some 0x20000) (Some 0x9000) empty_context 0x10000
       one_segment [97] fresh_gdt word_of_nat = Some (0, (0x8000, ctx), g', m')"
    "uc_size ctx = program_size (loaded_segments one_segment) [97]"
    "uc_entryAddr ctx = entryAddr one_segment"
    and m: "\<forall>s \<in> set (loaded_segments one_segment). \<forall>k < unat (lengthInFile s).
      m' (0x20000 + unat (startAddress s) + k) = word_of_nat (0x10000 + unat (offsetInFile s) + k)"
    using Load_User_Program_loads [OF fresh_gdt_ok(1) ne, of "[97]" "loaded_segments one_segment"
      one_segment 4096 "0x20000" "0x10000" "0x9000" "0x8000" empty_context word_of_nat]
    unfolding one_segment_size a seg
    by (simp add: apart_def block_bytes_def segment_fits_def) blast
  have "m' (0x21000 + 3) = word_of_nat (0x10040 + 3)"
    using m [rule_format, of ?s 3] unfolding seg by simp
  moreover have "uc_entryAddr ctx = 0x1000" using r(3) by (simp add: one_segment_def)
  moreover have "uc_size ctx = 0x5000" using r(2) one_segment_size by simp
  ultimately show ?thesis using r(1) by blast
qed

end
