(* ===== verification/Kthread.thy ===== *)
theory Kthread
  imports User_Context
begin

text \<open>
  Kernel threads: \<open>src/geekos/kthread.c\<close>, the interrupt flag operations of
  \<open>include/geekos/int.h\<close> and \<open>Attach_User_Context\<close> of \<open>src/geekos/user.c\<close>.

  A thread is identified by the address of the page that holds its \<open>Kernel_Thread\<close> object;
  \<open>threads\<close> says which pages hold one.  The queues are lists of threads: the pointer
  structure behind them is the subject of theory \<open>Linked_List\<close>, whose refinement lemmas
  justify the list operations used here, with their assertions.  \<open>None\<close> is a failed
  \<open>KASSERT\<close> or an access to a thread object that does not exist.

  \<open>Switch_To_Thread\<close> does not return before the thread is scheduled again.  A function
  that blocks is therefore modelled up to the switch, as a function whose result says
  whether the thread was \<open>Switched\<close> out or the function \<open>Returned\<close>; the code after the
  switch is a definition of its own, and theory \<open>System\<close> puts the parts together.
\<close>

section \<open>State\<close>

type_synonym tid = u32

datatype qid = RunQ | GraveyardQ | ReaperWaitQ | JoinQ tid | MutexQ nat | CondQ nat | DevQ nat

record kthread =
  esp :: u32
  priority :: int
  stackPage :: u32
  userContext :: "nat option"
  owner :: "tid option"
  refCount :: int
  alive :: bool
  exitCode :: int
  pid :: int
  tlocalData :: "nat \<Rightarrow> u32"
  kstack :: "u32 list"

text \<open>
  \<open>kstack\<close> is what has been pushed on the stack page, last value first.  The field
  \<open>numTicks\<close> of all thread objects together is the component \<open>thread_ticks\<close> below.
\<close>

text \<open>A mutex (\<open>struct Mutex\<close> of \<open>include/geekos/synch.h\<close>); its queue is \<open>MutexQ\<close> of its number.\<close>

record mutex =
  m_locked :: bool
  m_owner :: "tid option"

record kstate =
  kmem :: phys_mem
  threads :: "tid \<Rightarrow> kthread option"
  thread_ticks :: "tid \<Rightarrow> u32"
  queues :: "qid \<Rightarrow> tid list"
  s_allThreadList :: "tid list"
  ucontexts :: "nat \<Rightarrow> user_context option"
  g_currentThread :: tid
  g_needReschedule :: bool
  g_preemptionDisabled :: bool
  ints :: bool
  nextFreePid :: int
  mutexes :: "nat \<Rightarrow> mutex"
  g_numTicks :: u32
  g_Quantum :: u32
  s_tlocalKeyCounter :: nat
  s_tlocalDestructors :: "nat \<Rightarrow> u32"

datatype 'a run = Returned 'a kstate | Switched kstate

definition PRIORITY_IDLE :: int where "PRIORITY_IDLE = 0"
definition PRIORITY_USER :: int where "PRIORITY_USER = 1"
definition PRIORITY_LOW :: int where "PRIORITY_LOW = 2"
definition PRIORITY_NORMAL :: int where "PRIORITY_NORMAL = 5"
definition PRIORITY_HIGH :: int where "PRIORITY_HIGH = 10"
definition MAX_TLOCAL_KEYS :: nat where "MAX_TLOCAL_KEYS = 128"
definition MIN_DESTRUCTOR_ITERATIONS :: nat where "MIN_DESTRUCTOR_ITERATIONS = 4"
definition EFLAGS_IF :: u32 where "EFLAGS_IF = push_bit 9 1"

text \<open>Addresses of code that the thread set-up stores on stacks.\<close>

record code_addrs =
  addr_Launch_Thread :: u32
  addr_Shutdown_Thread :: u32
  addr_Idle :: u32
  addr_Reaper :: u32

section \<open>Small state updates\<close>

definition upd_thread :: "tid \<Rightarrow> (kthread \<Rightarrow> kthread) \<Rightarrow> kstate \<Rightarrow> kstate option" where
  "upd_thread t f s =
     (case threads s t of None \<Rightarrow> None | Some k \<Rightarrow> Some (s\<lparr>threads := (threads s)(t \<mapsto> f k)\<rparr>))"

definition set_queue :: "qid \<Rightarrow> tid list \<Rightarrow> kstate \<Rightarrow> kstate" where
  "set_queue q ts s = s\<lparr>queues := (queues s)(q := ts)\<rparr>"

definition alloc_page :: "kstate \<Rightarrow> (u32 \<times> kstate) option" where
  "alloc_page s = do { (a, m) \<leftarrow> Alloc_Page (kmem s); Some (a, s\<lparr>kmem := m\<rparr>) }"

definition free_page :: "u32 \<Rightarrow> kstate \<Rightarrow> kstate option" where
  "free_page a s = do { m \<leftarrow> Free_Page a (kmem s); Some (s\<lparr>kmem := m\<rparr>) }"

section \<open>Interrupts\<close>

definition Disable_Interrupts :: "kstate \<Rightarrow> kstate option" where
  "Disable_Interrupts s = do { kassert (ints s); Some (s\<lparr>ints := False\<rparr>) }"

definition Enable_Interrupts :: "kstate \<Rightarrow> kstate option" where
  "Enable_Interrupts s = do { kassert (\<not> ints s); Some (s\<lparr>ints := True\<rparr>) }"

definition Begin_Int_Atomic :: "kstate \<Rightarrow> (bool \<times> kstate) option" where
  "Begin_Int_Atomic s = do {
     let enabled = ints s;
     s \<leftarrow> (if enabled then Disable_Interrupts s else Some s);
     Some (enabled, s)
   }"

definition End_Int_Atomic :: "bool \<Rightarrow> kstate \<Rightarrow> kstate option" where
  "End_Int_Atomic iflag s = do {
     kassert (\<not> ints s);
     (if iflag then Enable_Interrupts s else Some s)
   }"

section \<open>Thread queues\<close>

definition Enqueue_Thread :: "qid \<Rightarrow> tid \<Rightarrow> kstate \<Rightarrow> kstate option" where
  "Enqueue_Thread q t s = do {
     kassert (t \<notin> set (queues s q));
     Some (set_queue q (queues s q @ [t]) s)
   }"

definition Remove_Thread :: "qid \<Rightarrow> tid \<Rightarrow> kstate \<Rightarrow> kstate option" where
  "Remove_Thread q t s = do {
     kassert (t \<in> set (queues s q));
     Some (set_queue q (remove1 t (queues s q)) s)
   }"

definition Make_Runnable :: "tid \<Rightarrow> kstate \<Rightarrow> kstate option" where
  "Make_Runnable t s = do { kassert (\<not> ints s); Enqueue_Thread RunQ t s }"

definition Make_Runnable_Atomic :: "tid \<Rightarrow> kstate \<Rightarrow> kstate option" where
  "Make_Runnable_Atomic t s = do {
     s \<leftarrow> Disable_Interrupts s;
     s \<leftarrow> Make_Runnable t s;
     Enable_Interrupts s
   }"

text \<open>\<open>Find_Best\<close> walks the queue; the outer option is an access to a dead thread object.\<close>

fun find_best_loop :: "(tid \<Rightarrow> kthread option) \<Rightarrow> tid list \<Rightarrow> tid option \<Rightarrow> tid option option" where
  "find_best_loop th [] best = Some best"
| "find_best_loop th (t # ts) best = do {
     k \<leftarrow> th t;
     best \<leftarrow> (case best of
               None \<Rightarrow> Some t
             | Some b \<Rightarrow> do { kb \<leftarrow> th b; Some (if priority k > priority kb then t else b) });
     find_best_loop th ts (Some best)
   }"

definition Find_Best :: "qid \<Rightarrow> kstate \<Rightarrow> tid option option" where
  "Find_Best q s = find_best_loop (threads s) (queues s q) None"

definition Get_Current :: "kstate \<Rightarrow> tid" where
  "Get_Current s = g_currentThread s"

definition Get_Next_Runnable :: "kstate \<Rightarrow> (tid \<times> kstate) option" where
  "Get_Next_Runnable s = do {
     best \<leftarrow> Find_Best RunQ s;
     kassert (best \<noteq> None);
     t \<leftarrow> best;
     s \<leftarrow> Remove_Thread RunQ t s;
     Some (t, s)
   }"

text \<open>The tick counter of the thread that is switched out is cleared (\<open>lowlevel.asm\<close>).\<close>

definition Switch_To_Thread :: "tid \<Rightarrow> kstate \<Rightarrow> kstate" where
  "Switch_To_Thread t s =
     s\<lparr>thread_ticks := (thread_ticks s)(g_currentThread s := 0), g_currentThread := t\<rparr>"

definition Schedule :: "kstate \<Rightarrow> kstate option" where
  "Schedule s = do {
     kassert (\<not> ints s);
     kassert (\<not> g_preemptionDisabled s);
     (runnable, s) \<leftarrow> Get_Next_Runnable s;
     Some (Switch_To_Thread runnable s)
   }"

text \<open>\<open>Yield\<close> up to the switch; afterwards it enables interrupts and returns.\<close>

definition Yield :: "kstate \<Rightarrow> kstate option" where
  "Yield s = do {
     s \<leftarrow> Disable_Interrupts s;
     s \<leftarrow> Make_Runnable (g_currentThread s) s;
     Schedule s
   }"

definition Wait :: "qid \<Rightarrow> kstate \<Rightarrow> kstate option" where
  "Wait q s = do {
     kassert (\<not> ints s);
     s \<leftarrow> Enqueue_Thread q (g_currentThread s) s;
     Schedule s
   }"

fun wake_loop :: "tid list \<Rightarrow> kstate \<Rightarrow> kstate option" where
  "wake_loop [] s = Some s"
| "wake_loop (t # ts) s = do { s \<leftarrow> Make_Runnable t s; wake_loop ts s }"

definition Wake_Up :: "qid \<Rightarrow> kstate \<Rightarrow> kstate option" where
  "Wake_Up q s = do {
     kassert (\<not> ints s);
     s \<leftarrow> wake_loop (queues s q) s;
     Some (set_queue q [] s)
   }"

definition Wake_Up_One :: "qid \<Rightarrow> kstate \<Rightarrow> kstate option" where
  "Wake_Up_One q s = do {
     kassert (\<not> ints s);
     best \<leftarrow> Find_Best q s;
     (case best of
        None \<Rightarrow> Some s
      | Some b \<Rightarrow> do { s \<leftarrow> Remove_Thread q b s; Make_Runnable b s })
   }"

section \<open>Creating threads\<close>

definition new_thread :: "u32 \<Rightarrow> int \<Rightarrow> bool \<Rightarrow> tid \<Rightarrow> int \<Rightarrow> kthread" where
  "new_thread page prio detached cur p =
     \<lparr>esp = page + PAGE_SIZE, priority = prio, stackPage = page, userContext = None,
      owner = (if detached then None else Some cur), refCount = (if detached then 1 else 2),
      alive = True, exitCode = 0, pid = p, tlocalData = (\<lambda>_. 0), kstack = []\<rparr>"

definition Init_Thread :: "tid \<Rightarrow> u32 \<Rightarrow> int \<Rightarrow> bool \<Rightarrow> kstate \<Rightarrow> kstate" where
  "Init_Thread t page prio detached s =
     set_queue (JoinQ t) []
       (s\<lparr>threads := (threads s)(t \<mapsto> new_thread page prio detached (g_currentThread s) (nextFreePid s)),
          thread_ticks := (thread_ticks s)(t := 0),
          nextFreePid := nextFreePid s + 1\<rparr>)"

definition Create_Thread :: "int \<Rightarrow> bool \<Rightarrow> kstate \<Rightarrow> (tid option \<times> kstate) option" where
  "Create_Thread prio detached s = do {
     (t, s) \<leftarrow> alloc_page s;
     (page, s) \<leftarrow> (if t \<noteq> 0 then alloc_page s else Some (0, s));
     (if t = 0 then Some (None, s)
      else if page = 0 then do { s \<leftarrow> free_page t s; Some (None, s) }
      else do {
        let s = Init_Thread t page prio detached s;
        kassert (t \<notin> set (s_allThreadList s));
        Some (Some t, s\<lparr>s_allThreadList := s_allThreadList s @ [t]\<rparr>)
      })
   }"

definition Push :: "tid \<Rightarrow> u32 \<Rightarrow> kstate \<Rightarrow> kstate option" where
  "Push t v = upd_thread t (\<lambda>k. k\<lparr>esp := esp k - 4, kstack := v # kstack k\<rparr>)"

fun push_all :: "tid \<Rightarrow> u32 list \<Rightarrow> kstate \<Rightarrow> kstate option" where
  "push_all t [] s = Some s"
| "push_all t (v # vs) s = do { s \<leftarrow> Push t v s; push_all t vs s }"

text \<open>The values of the seven general registers, eax to ebp.\<close>

definition Push_General_Registers :: "tid \<Rightarrow> kstate \<Rightarrow> kstate option" where
  "Push_General_Registers t = push_all t [0, 0, 0, 0, 0, 0, 0]"

definition Setup_Kernel_Thread :: "code_addrs \<Rightarrow> tid \<Rightarrow> u32 \<Rightarrow> u32 \<Rightarrow> kstate \<Rightarrow> kstate option" where
  "Setup_Kernel_Thread code t startFunc arg s = do {
     s \<leftarrow> push_all t [arg, addr_Shutdown_Thread code, startFunc,
            0, KERNEL_CS, addr_Launch_Thread code, 0, 0] s;
     s \<leftarrow> Push_General_Registers t s;
     push_all t [KERNEL_DS, KERNEL_DS, 0, 0] s
   }"

definition Attach_User_Context :: "tid \<Rightarrow> nat option \<Rightarrow> kstate \<Rightarrow> kstate option" where
  "Attach_User_Context t context s = do {
     kassert (context \<noteq> None);
     s \<leftarrow> upd_thread t (\<lambda>k. k\<lparr>userContext := context\<rparr>) s;
     s \<leftarrow> Disable_Interrupts s;
     c \<leftarrow> context;
     uc \<leftarrow> ucontexts s c;
     kassert (uc_refCount uc = 0);
     let s = s\<lparr>ucontexts := (ucontexts s)(c \<mapsto> uc\<lparr>uc_refCount := uc_refCount uc + 1\<rparr>)\<rparr>;
     Enable_Interrupts s
   }"

text \<open>\<open>eflags\<close> is the current value of the flags register.\<close>

definition Setup_User_Thread :: "u32 \<Rightarrow> tid \<Rightarrow> nat \<Rightarrow> kstate \<Rightarrow> kstate option" where
  "Setup_User_Thread eflags t context s = do {
     s \<leftarrow> Attach_User_Context t (Some context) s;
     uc \<leftarrow> ucontexts s context;
     let ds = ucast (uc_dsSelector uc);
     push_all t [ds, uc_stackPointerAddr uc, eflags OR EFLAGS_IF, ucast (uc_csSelector uc),
       uc_entryAddr uc, 0, 0, 0, 0, 0, 0, uc_argBlockAddr uc, 0, 0, ds, ds, ds, ds] s
   }"

definition Start_Kernel_Thread ::
  "code_addrs \<Rightarrow> u32 \<Rightarrow> u32 \<Rightarrow> int \<Rightarrow> bool \<Rightarrow> kstate \<Rightarrow> (tid option \<times> kstate) option" where
  "Start_Kernel_Thread code startFunc arg prio detached s = do {
     (kt, s) \<leftarrow> Create_Thread prio detached s;
     (case kt of
        None \<Rightarrow> Some (None, s)
      | Some t \<Rightarrow> do {
          s \<leftarrow> Setup_Kernel_Thread code t startFunc arg s;
          s \<leftarrow> Make_Runnable_Atomic t s;
          Some (Some t, s)
        })
   }"

definition Start_User_Thread ::
  "u32 \<Rightarrow> nat \<Rightarrow> bool \<Rightarrow> kstate \<Rightarrow> (tid option \<times> kstate) option" where
  "Start_User_Thread eflags context detached s = do {
     (kt, s) \<leftarrow> Create_Thread PRIORITY_NORMAL detached s;
     (case kt of
        None \<Rightarrow> Some (None, s)
      | Some t \<Rightarrow> do {
          s \<leftarrow> Setup_User_Thread eflags t context s;
          s \<leftarrow> Make_Runnable_Atomic t s;
          Some (Some t, s)
        })
   }"

section \<open>Ending threads\<close>

text \<open>The thread object's own page is freed before the object leaves the list of all threads.\<close>

definition Destroy_Thread :: "tid \<Rightarrow> kstate \<Rightarrow> kstate option" where
  "Destroy_Thread t s = do {
     s \<leftarrow> Disable_Interrupts s;
     k \<leftarrow> threads s t;
     s \<leftarrow> free_page (stackPage k) s;
     s \<leftarrow> free_page t s;
     kassert (t \<in> set (s_allThreadList s));
     let s = s\<lparr>s_allThreadList := remove1 t (s_allThreadList s), threads := (threads s)(t := None)\<rparr>;
     Enable_Interrupts s
   }"

definition Reap_Thread :: "tid \<Rightarrow> kstate \<Rightarrow> kstate option" where
  "Reap_Thread t s = do {
     kassert (\<not> ints s);
     s \<leftarrow> Enqueue_Thread GraveyardQ t s;
     Wake_Up ReaperWaitQ s
   }"

definition Detach_Thread :: "tid \<Rightarrow> kstate \<Rightarrow> kstate option" where
  "Detach_Thread t s = do {
     kassert (\<not> ints s);
     k \<leftarrow> threads s t;
     kassert (refCount k > 0);
     s \<leftarrow> upd_thread t (\<lambda>k. k\<lparr>refCount := refCount k - 1\<rparr>) s;
     (if refCount k - 1 = 0 then Reap_Thread t s else Some s)
   }"

definition Launch_Thread :: "kstate \<Rightarrow> kstate option" where
  "Launch_Thread s = Enable_Interrupts s"

text \<open>
  Thread-local data.  \<open>call d x\<close> runs the destructor at address \<open>d\<close> on the pointer \<open>x\<close>:
  code the kernel is given, hence a parameter.
\<close>

definition Get_Tlocal_Pointer :: "nat \<Rightarrow> kstate \<Rightarrow> tid option" where
  "Get_Tlocal_Pointer k s = do { kassert (k < MAX_TLOCAL_KEYS); Some (g_currentThread s) }"

fun tlocal_pass ::
  "(u32 \<Rightarrow> u32 \<Rightarrow> kstate \<Rightarrow> kstate option) \<Rightarrow> tid \<Rightarrow> nat list \<Rightarrow> bool \<Rightarrow> kstate
   \<Rightarrow> (bool \<times> kstate) option" where
  "tlocal_pass call t [] called s = Some (called, s)"
| "tlocal_pass call t (i # is) called s = do {
     k \<leftarrow> threads s t;
     let x = tlocalData k i;
     (if x \<noteq> 0 \<and> s_tlocalDestructors s i \<noteq> 0 then do {
        s \<leftarrow> upd_thread t (\<lambda>k. k\<lparr>tlocalData := (tlocalData k)(i := 0)\<rparr>) s;
        s \<leftarrow> Enable_Interrupts s;
        s \<leftarrow> call (s_tlocalDestructors s i) x s;
        s \<leftarrow> Disable_Interrupts s;
        tlocal_pass call t is True s
      } else tlocal_pass call t is called s)
   }"

fun tlocal_passes ::
  "(u32 \<Rightarrow> u32 \<Rightarrow> kstate \<Rightarrow> kstate option) \<Rightarrow> tid \<Rightarrow> nat \<Rightarrow> bool \<Rightarrow> kstate \<Rightarrow> kstate option" where
  "tlocal_passes call t 0 called s = Some s"
| "tlocal_passes call t (Suc j) called s = do {
     (called, s) \<leftarrow> tlocal_pass call t [0 ..< MAX_TLOCAL_KEYS] called s;
     (if \<not> called then Some s else tlocal_passes call t j called s)
   }"

definition Tlocal_Exit ::
  "(u32 \<Rightarrow> u32 \<Rightarrow> kstate \<Rightarrow> kstate option) \<Rightarrow> tid \<Rightarrow> kstate \<Rightarrow> kstate option" where
  "Tlocal_Exit call t s = do {
     kassert (\<not> ints s);
     tlocal_passes call t MIN_DESTRUCTOR_ITERATIONS False s
   }"

text \<open>\<open>Tlocal_Create\<close> returns -1 without ending its atomic region when all keys are in use.\<close>

definition Tlocal_Create :: "u32 \<Rightarrow> kstate \<Rightarrow> (int \<times> nat option \<times> kstate) option" where
  "Tlocal_Create destructor s = do {
     (iflag, s) \<leftarrow> Begin_Int_Atomic s;
     (if s_tlocalKeyCounter s = MAX_TLOCAL_KEYS then Some (-1, None, s)
      else do {
        let key = s_tlocalKeyCounter s;
        let s = s\<lparr>s_tlocalDestructors := (s_tlocalDestructors s)(key := destructor),
                  s_tlocalKeyCounter := key + 1\<rparr>;
        s \<leftarrow> End_Int_Atomic iflag s;
        Some (0, Some key, s)
      })
   }"

definition Tlocal_Put :: "nat \<Rightarrow> u32 \<Rightarrow> kstate \<Rightarrow> kstate option" where
  "Tlocal_Put k v s = do {
     kassert (k < s_tlocalKeyCounter s);
     t \<leftarrow> Get_Tlocal_Pointer k s;
     upd_thread t (\<lambda>x. x\<lparr>tlocalData := (tlocalData x)(k := v)\<rparr>) s
   }"

definition Tlocal_Get :: "nat \<Rightarrow> kstate \<Rightarrow> u32 option" where
  "Tlocal_Get k s = do {
     kassert (k < s_tlocalKeyCounter s);
     t \<leftarrow> Get_Tlocal_Pointer k s;
     x \<leftarrow> threads s t;
     Some (tlocalData x k)
   }"

text \<open>\<open>Exit\<close> up to the switch; the thread is on no queue that is scheduled from, so it never resumes.\<close>

definition Exit ::
  "(u32 \<Rightarrow> u32 \<Rightarrow> kstate \<Rightarrow> kstate option) \<Rightarrow> int \<Rightarrow> kstate \<Rightarrow> kstate option" where
  "Exit call code s = do {
     let current = g_currentThread s;
     s \<leftarrow> (if ints s then Disable_Interrupts s else Some s);
     s \<leftarrow> upd_thread current (\<lambda>k. k\<lparr>exitCode := code, alive := False\<rparr>) s;
     s \<leftarrow> Tlocal_Exit call current s;
     s \<leftarrow> Wake_Up (JoinQ current) s;
     s \<leftarrow> Detach_Thread current s;
     Schedule s
   }"

definition Shutdown_Thread ::
  "(u32 \<Rightarrow> u32 \<Rightarrow> kstate \<Rightarrow> kstate option) \<Rightarrow> kstate \<Rightarrow> kstate option" where
  "Shutdown_Thread call s = Exit call 0 s"

text \<open>The loop of \<open>Join\<close>, entered at the beginning and again after each wait.\<close>

definition Join_Loop :: "tid \<Rightarrow> kstate \<Rightarrow> int run option" where
  "Join_Loop t s = do {
     k \<leftarrow> threads s t;
     (if alive k then do { s \<leftarrow> Wait (JoinQ t) s; Some (Switched s) }
      else do {
        let code = exitCode k;
        s \<leftarrow> Detach_Thread t s;
        s \<leftarrow> Enable_Interrupts s;
        Some (Returned code s)
      })
   }"

definition Join :: "tid \<Rightarrow> kstate \<Rightarrow> int run option" where
  "Join t s = do {
     kassert (ints s);
     k \<leftarrow> threads s t;
     kassert (owner k = Some (g_currentThread s));
     s \<leftarrow> Disable_Interrupts s;
     Join_Loop t s
   }"

fun lookup_loop :: "(tid \<Rightarrow> kthread option) \<Rightarrow> tid \<Rightarrow> int \<Rightarrow> tid list \<Rightarrow> tid option option" where
  "lookup_loop th cur p [] = Some None"
| "lookup_loop th cur p (t # ts) = do {
     k \<leftarrow> th t;
     (if pid k = p then Some (if owner k \<noteq> Some cur then None else Some t)
      else lookup_loop th cur p ts)
   }"

definition Lookup_Thread :: "int \<Rightarrow> kstate \<Rightarrow> (tid option \<times> kstate) option" where
  "Lookup_Thread p s = do {
     (iflag, s) \<leftarrow> Begin_Int_Atomic s;
     r \<leftarrow> lookup_loop (threads s) (g_currentThread s) p (s_allThreadList s);
     s \<leftarrow> End_Int_Atomic iflag s;
     Some (r, s)
   }"

section \<open>System threads\<close>

text \<open>
  One round of the loop of \<open>Reaper\<close>, with interrupts disabled, up to the switch: it waits
  (\<open>None\<close>) or takes over the threads of the graveyard and yields.
\<close>

definition Reaper_Round :: "kstate \<Rightarrow> (tid list option \<times> kstate) option" where
  "Reaper_Round s =
     (case queues s GraveyardQ of
        [] \<Rightarrow> do { s \<leftarrow> Wait ReaperWaitQ s; Some (None, s) }
      | ts \<Rightarrow> do {
          let s = set_queue GraveyardQ [] s;
          s \<leftarrow> Enable_Interrupts s;
          s \<leftarrow> Yield s;
          Some (Some ts, s)
        })"

fun reap_all :: "tid list \<Rightarrow> kstate \<Rightarrow> kstate option" where
  "reap_all [] s = Some s"
| "reap_all (t # ts) s = do { s \<leftarrow> Destroy_Thread t s; reap_all ts s }"

definition Idle :: "kstate \<Rightarrow> kstate option" where
  "Idle s = Yield s"

definition Init_Scheduler :: "code_addrs \<Rightarrow> kstate \<Rightarrow> kstate option" where
  "Init_Scheduler code s = do {
     let mainThread = KERN_THREAD_OBJ;
     let s = Init_Thread mainThread KERN_STACK PRIORITY_NORMAL True s;
     let s = s\<lparr>g_currentThread := mainThread\<rparr>;
     kassert (mainThread \<notin> set (s_allThreadList s));
     let s = s\<lparr>s_allThreadList := s_allThreadList s @ [mainThread]\<rparr>;
     (_, s) \<leftarrow> Start_Kernel_Thread code (addr_Idle code) 0 PRIORITY_IDLE True s;
     (_, s) \<leftarrow> Start_Kernel_Thread code (addr_Reaper code) 0 PRIORITY_NORMAL True s;
     Some s
   }"

end
