(* ===== verification/Synch.thy ===== *)
theory Synch
  imports Kthread
begin

text \<open>
  Mutexes and condition variables, \<open>src/geekos/synch.c\<close>.  A mutex is a number; its state
  and owner are in \<open>mutexes\<close>, its wait queue is \<open>MutexQ\<close> of that number, and the only field
  of a condition, its wait queue, is \<open>CondQ\<close>.  Functions that block are split at the context
  switch: the definition whose name ends in \<open>_Resume\<close> is the code after the switch.
\<close>

definition IS_HELD :: "nat \<Rightarrow> kstate \<Rightarrow> bool" where
  "IS_HELD m s \<longleftrightarrow> m_locked (mutexes s m) \<and> m_owner (mutexes s m) = Some (g_currentThread s)"

definition set_mutex :: "nat \<Rightarrow> bool \<Rightarrow> tid option \<Rightarrow> kstate \<Rightarrow> kstate" where
  "set_mutex m locked ow s =
     s\<lparr>mutexes := (mutexes s)(m := \<lparr>m_locked = locked, m_owner = ow\<rparr>)\<rparr>"

definition set_preemption_disabled :: "bool \<Rightarrow> kstate \<Rightarrow> kstate" where
  "set_preemption_disabled b s = s\<lparr>g_preemptionDisabled := b\<rparr>"

definition Mutex_Wait :: "nat \<Rightarrow> kstate \<Rightarrow> kstate option" where
  "Mutex_Wait m s = do {
     kassert (m_locked (mutexes s m));
     kassert (g_preemptionDisabled s);
     s \<leftarrow> Disable_Interrupts s;
     let s = set_preemption_disabled False s;
     Wait (MutexQ m) s
   }"

definition Mutex_Wait_Resume :: "kstate \<Rightarrow> kstate option" where
  "Mutex_Wait_Resume s = Enable_Interrupts (set_preemption_disabled True s)"

text \<open>The loop of \<open>Mutex_Lock_Imp\<close>, entered at the beginning and after each wait.\<close>

definition Mutex_Lock_Loop :: "nat \<Rightarrow> kstate \<Rightarrow> unit run option" where
  "Mutex_Lock_Loop m s =
     (if m_locked (mutexes s m) then do { s \<leftarrow> Mutex_Wait m s; Some (Switched s) }
      else Some (Returned () (set_mutex m True (Some (g_currentThread s)) s)))"

definition Mutex_Lock_Imp :: "nat \<Rightarrow> kstate \<Rightarrow> unit run option" where
  "Mutex_Lock_Imp m s = do {
     kassert (g_preemptionDisabled s);
     kassert (\<not> IS_HELD m s);
     Mutex_Lock_Loop m s
   }"

definition Mutex_Unlock_Imp :: "nat \<Rightarrow> kstate \<Rightarrow> kstate option" where
  "Mutex_Unlock_Imp m s = do {
     kassert (g_preemptionDisabled s);
     kassert (IS_HELD m s);
     let s = set_mutex m False None s;
     (if queues s (MutexQ m) \<noteq> [] then do {
        s \<leftarrow> Disable_Interrupts s;
        s \<leftarrow> Wake_Up_One (MutexQ m) s;
        Enable_Interrupts s
      } else Some s)
   }"

definition Mutex_Init :: "nat \<Rightarrow> kstate \<Rightarrow> kstate" where
  "Mutex_Init m s = set_queue (MutexQ m) [] (set_mutex m False None s)"

text \<open>What follows \<open>Mutex_Lock_Imp\<close> in its callers: preemption is enabled again.\<close>

definition finish_lock :: "unit run \<Rightarrow> unit run" where
  "finish_lock r = (case r of
       Returned u s \<Rightarrow> Returned u (set_preemption_disabled False s)
     | Switched s \<Rightarrow> Switched s)"

definition Mutex_Lock :: "nat \<Rightarrow> kstate \<Rightarrow> unit run option" where
  "Mutex_Lock m s = do {
     kassert (ints s);
     r \<leftarrow> Mutex_Lock_Imp m (set_preemption_disabled True s);
     Some (finish_lock r)
   }"

definition Mutex_Lock_Resume :: "nat \<Rightarrow> kstate \<Rightarrow> unit run option" where
  "Mutex_Lock_Resume m s = do {
     s \<leftarrow> Mutex_Wait_Resume s;
     r \<leftarrow> Mutex_Lock_Loop m s;
     Some (finish_lock r)
   }"

definition Mutex_Unlock :: "nat \<Rightarrow> kstate \<Rightarrow> kstate option" where
  "Mutex_Unlock m s = do {
     kassert (ints s);
     s \<leftarrow> Mutex_Unlock_Imp m (set_preemption_disabled True s);
     Some (set_preemption_disabled False s)
   }"

definition Cond_Init :: "nat \<Rightarrow> kstate \<Rightarrow> kstate" where
  "Cond_Init c s = set_queue (CondQ c) [] s"

definition Cond_Wait :: "nat \<Rightarrow> nat \<Rightarrow> kstate \<Rightarrow> kstate option" where
  "Cond_Wait c m s = do {
     kassert (ints s);
     kassert (IS_HELD m s);
     s \<leftarrow> Mutex_Unlock_Imp m (set_preemption_disabled True s);
     s \<leftarrow> Disable_Interrupts s;
     Wait (CondQ c) (set_preemption_disabled False s)
   }"

definition Cond_Wait_Resume :: "nat \<Rightarrow> kstate \<Rightarrow> unit run option" where
  "Cond_Wait_Resume m s = do {
     s \<leftarrow> Enable_Interrupts (set_preemption_disabled True s);
     r \<leftarrow> Mutex_Lock_Imp m s;
     Some (finish_lock r)
   }"

definition Cond_Signal :: "nat \<Rightarrow> kstate \<Rightarrow> kstate option" where
  "Cond_Signal c s = do {
     kassert (ints s);
     s \<leftarrow> Disable_Interrupts s;
     s \<leftarrow> Wake_Up_One (CondQ c) s;
     Enable_Interrupts s
   }"

definition Cond_Broadcast :: "nat \<Rightarrow> kstate \<Rightarrow> kstate option" where
  "Cond_Broadcast c s = do {
     kassert (ints s);
     s \<leftarrow> Disable_Interrupts s;
     s \<leftarrow> Wake_Up (CondQ c) s;
     Enable_Interrupts s
   }"

end
