(* ===== verification/Sched.thy ===== *)
theory Sched
  imports Synch
begin

text \<open>
  The abstract view of the scheduler that theory \<open>System\<close> reasons with: every thread is in
  exactly one place, running, on one queue or nowhere.  The relation \<open>q_rep\<close> between the
  queues and the places is kept by every queue operation of \<open>kthread.c\<close>, and the lemmas of
  this theory give the effect of each of them on the places, together with the absence of
  failed assertions.
\<close>

section \<open>Places\<close>

datatype place = Cur | In qid | Nowhere

definition q_rep :: "(qid \<Rightarrow> tid list) \<Rightarrow> (tid \<Rightarrow> place) \<Rightarrow> bool" where
  "q_rep Q pl \<longleftrightarrow> (\<forall>q. distinct (Q q)) \<and> (\<forall>q t. t \<in> set (Q q) \<longleftrightarrow> pl t = In q)"

abbreviation queued :: "(tid \<Rightarrow> place) \<Rightarrow> tid \<Rightarrow> bool" where
  "queued pl t \<equiv> \<exists>q. pl t = In q"

definition wake_place :: "qid \<Rightarrow> (tid \<Rightarrow> place) \<Rightarrow> tid \<Rightarrow> place" where
  "wake_place q pl t = (if pl t = In q then In RunQ else pl t)"

lemma q_rep_mem: "q_rep Q pl \<Longrightarrow> t \<in> set (Q q) \<longleftrightarrow> pl t = In q"
  by (simp add: q_rep_def)

lemma q_rep_empty: "q_rep Q pl \<Longrightarrow> Q q = [] \<longleftrightarrow> (\<forall>t. pl t \<noteq> In q)"
  by (metis list.set_intros(1) list.exhaust list.set(1) empty_iff q_rep_mem)

lemma q_rep_enqueue:
  "q_rep Q pl \<Longrightarrow> \<not> queued pl t \<Longrightarrow> q_rep (Q(q := Q q @ [t])) (pl(t := In q))"
  by (auto simp: q_rep_def)

lemma q_rep_remove:
  "q_rep Q pl \<Longrightarrow> pl t = In q \<Longrightarrow> (\<forall>p. x \<noteq> In p) \<Longrightarrow> q_rep (Q(q := remove1 t (Q q))) (pl(t := x))"
  by (auto simp: q_rep_def)

lemma q_rep_move:
  "q_rep Q pl \<Longrightarrow> pl t = In q \<Longrightarrow> q \<noteq> r
   \<Longrightarrow> q_rep (Q(q := remove1 t (Q q), r := Q r @ [t])) (pl(t := In r))"
  by (auto simp: q_rep_def)

lemma q_rep_move_all:
  "q_rep Q pl \<Longrightarrow> q \<noteq> RunQ \<Longrightarrow> q_rep (Q(RunQ := Q RunQ @ Q q, q := [])) (wake_place q pl)"
  by (auto simp: q_rep_def wake_place_def)

lemma q_rep_unqueued:
  "q_rep Q pl \<Longrightarrow> \<not> queued pl t \<Longrightarrow> (\<forall>p. x \<noteq> In p) \<Longrightarrow> q_rep Q (pl(t := x))"
  by (auto simp: q_rep_def)

section \<open>The best thread\<close>

definition prio :: "(tid \<Rightarrow> kthread option) \<Rightarrow> tid \<Rightarrow> int" where
  "prio th t = (case th t of None \<Rightarrow> 0 | Some k \<Rightarrow> priority k)"

text \<open>\<open>b\<close> is the first thread of \<open>ts\<close> with the highest priority.\<close>

definition first_best :: "(tid \<Rightarrow> kthread option) \<Rightarrow> tid list \<Rightarrow> tid \<Rightarrow> bool" where
  "first_best th ts b \<longleftrightarrow> (\<exists>us vs. ts = us @ b # vs \<and> (\<forall>u \<in> set us. prio th u < prio th b)
     \<and> (\<forall>v \<in> set vs. prio th v \<le> prio th b))"

lemma first_best_mem: "first_best th ts b \<Longrightarrow> b \<in> set ts"
  by (auto simp: first_best_def)

lemma first_best_max: "first_best th ts b \<Longrightarrow> u \<in> set ts \<Longrightarrow> prio th u \<le> prio th b"
  by (fastforce simp: first_best_def)

lemma first_best_hd: "\<forall>u \<in> set us. prio th u \<le> prio th t \<Longrightarrow> first_best th (t # us) t"
  unfolding first_best_def by (rule exI [of _ "[]"], rule exI [of _ us]) simp

lemma first_best_Cons:
  assumes "first_best th ts c" and "prio th t < prio th c"
  shows "first_best th (t # ts) c"
proof -
  obtain us vs where "ts = us @ c # vs" "\<forall>u \<in> set us. prio th u < prio th c"
    "\<forall>v \<in> set vs. prio th v \<le> prio th c" using assms(1) by (auto simp: first_best_def)
  with assms(2) show ?thesis
    unfolding first_best_def by (intro exI [of _ "t # us"] exI [of _ vs]) auto
qed

lemma find_best_loop_Some:
  assumes "\<forall>t \<in> set ts. th t \<noteq> None" and "th b \<noteq> None"
  shows "\<exists>c. find_best_loop th ts (Some b) = Some (Some c) \<and>
     ((c = b \<and> (\<forall>t \<in> set ts. prio th t \<le> prio th b))
      \<or> (first_best th ts c \<and> prio th b < prio th c))"
  using assms
proof (induction ts arbitrary: b)
  case Nil
  then show ?case by simp
next
  case (Cons t ts)
  then obtain k kb where k: "th t = Some k" "th b = Some kb" by auto
  let ?n = "if priority k > priority kb then t else b"
  have "\<forall>t \<in> set ts. th t \<noteq> None" and "th ?n \<noteq> None" using Cons.prems(1) k by simp_all
  from Cons.IH [OF this] obtain c where c: "find_best_loop th ts (Some ?n) = Some (Some c)"
    "(c = ?n \<and> (\<forall>u \<in> set ts. prio th u \<le> prio th ?n)) \<or> (first_best th ts c \<and> prio th ?n < prio th c)"
    by blast
  have "find_best_loop th (t # ts) (Some b) = Some (Some c)" using c(1) k by simp
  moreover have "prio th t = priority k" "prio th b = priority kb" using k by (simp_all add: prio_def)
  ultimately show ?case
    using c(2) by (auto intro: first_best_hd first_best_Cons split: if_splits)
qed

lemma find_best_loop_None:
  assumes "\<forall>t \<in> set ts. th t \<noteq> None"
  shows "\<exists>b. find_best_loop th ts None = Some b
    \<and> (case b of None \<Rightarrow> ts = [] | Some c \<Rightarrow> first_best th ts c)"
proof (cases ts)
  case Nil
  then show ?thesis by simp
next
  case (Cons t us)
  then obtain c where c: "find_best_loop th us (Some t) = Some (Some c)"
    "(c = t \<and> (\<forall>u \<in> set us. prio th u \<le> prio th t)) \<or> (first_best th us c \<and> prio th t < prio th c)"
    using find_best_loop_Some [of us th t] assms by auto
  then have "first_best th (t # us) c" by (auto intro: first_best_hd first_best_Cons)
  with c(1) Cons assms show ?thesis by auto
qed

section \<open>Effect of the queue operations\<close>

lemma Enqueue_Thread_rep:
  assumes "q_rep (queues s) pl" and "\<not> queued pl t"
  shows "\<exists>Q. Enqueue_Thread q t s = Some (s\<lparr>queues := Q\<rparr>) \<and> q_rep Q (pl(t := In q))"
  using assms q_rep_enqueue [OF assms, of q]
  by (auto simp: Enqueue_Thread_def set_queue_def q_rep_mem)

lemma Remove_Thread_rep:
  assumes "q_rep (queues s) pl" and "pl t = In q" and "\<forall>p. x \<noteq> In p"
  shows "\<exists>Q. Remove_Thread q t s = Some (s\<lparr>queues := Q\<rparr>) \<and> q_rep Q (pl(t := x))"
  using q_rep_remove [OF assms] assms by (auto simp: Remove_Thread_def set_queue_def q_rep_mem)

lemma Find_Best_rep:
  assumes "q_rep (queues s) pl" and "\<forall>t. pl t = In q \<longrightarrow> threads s t \<noteq> None"
  shows "\<exists>b. Find_Best q s = Some b
    \<and> (case b of None \<Rightarrow> queues s q = [] \<and> (\<forall>t. pl t \<noteq> In q)
       | Some c \<Rightarrow> pl c = In q \<and> first_best (threads s) (queues s q) c)"
proof -
  have "\<forall>t \<in> set (queues s q). threads s t \<noteq> None" using assms by (simp add: q_rep_mem)
  then obtain b where b: "Find_Best q s = Some b"
    "case b of None \<Rightarrow> queues s q = [] | Some c \<Rightarrow> first_best (threads s) (queues s q) c"
    using find_best_loop_None unfolding Find_Best_def by blast
  show ?thesis
  proof (cases b)
    case None
    with b q_rep_empty [OF assms(1)] show ?thesis by simp
  next
    case (Some c)
    with b have "c \<in> set (queues s q)" by (auto dest: first_best_mem)
    with b Some show ?thesis by (simp add: q_rep_mem [OF assms(1)])
  qed
qed

lemma Schedule_rep:
  assumes "q_rep (queues s) pl" and "\<forall>t. pl t = In RunQ \<longrightarrow> threads s t \<noteq> None"
    and "pl r = In RunQ" and "\<not> ints s" and "\<not> g_preemptionDisabled s"
  shows "\<exists>Q N b. Schedule s = Some (s\<lparr>queues := Q, thread_ticks := N, g_currentThread := b\<rparr>) \<and> pl b = In RunQ
    \<and> q_rep Q (pl(b := Cur)) \<and> first_best (threads s) (queues s RunQ) b"
proof -
  obtain b where b: "Find_Best RunQ s = Some (Some b)" "pl b = In RunQ"
    "first_best (threads s) (queues s RunQ) b"
    using Find_Best_rep [OF assms(1,2)] assms(3) by (auto split: option.splits)
  obtain Q where Q: "Remove_Thread RunQ b s = Some (s\<lparr>queues := Q\<rparr>)" "q_rep Q (pl(b := Cur))"
    using Remove_Thread_rep [OF assms(1) b(2), of Cur] by auto
  show ?thesis
    using b Q assms(4,5)
    by (intro exI [of _ Q] exI [of _ "(thread_ticks s)(g_currentThread s := 0)"] exI [of _ b])
      (simp add: Schedule_def Get_Next_Runnable_def Switch_To_Thread_def)
qed

lemma wake_loop_run:
  "\<not> ints s \<Longrightarrow> distinct (queues s RunQ @ ts)
   \<Longrightarrow> wake_loop ts s = Some (s\<lparr>queues := (queues s)(RunQ := queues s RunQ @ ts)\<rparr>)"
proof (induction ts arbitrary: s)
  case (Cons t ts)
  let ?s = "s\<lparr>queues := (queues s)(RunQ := queues s RunQ @ [t])\<rparr>"
  have "Make_Runnable t s = Some ?s"
    using Cons.prems by (simp add: Make_Runnable_def Enqueue_Thread_def set_queue_def)
  moreover have "wake_loop ts ?s = Some (?s\<lparr>queues := (queues ?s)(RunQ := queues ?s RunQ @ ts)\<rparr>)"
    by (rule Cons.IH) (use Cons.prems in auto)
  moreover have "(queues ?s)(RunQ := queues ?s RunQ @ ts) = (queues s)(RunQ := queues s RunQ @ t # ts)"
    by (simp add: fun_eq_iff)
  ultimately show ?case by (simp del: fun_upd_apply)
qed simp

lemma Wake_Up_rep:
  assumes "q_rep (queues s) pl" and "q \<noteq> RunQ" and "\<not> ints s"
  shows "\<exists>Q. Wake_Up q s = Some (s\<lparr>queues := Q\<rparr>) \<and> q_rep Q (wake_place q pl)"
proof -
  have "distinct (queues s RunQ @ queues s q)"
    using assms(1,2) by (auto simp: q_rep_def)
  then have "Wake_Up q s
      = Some (s\<lparr>queues := (queues s)(RunQ := queues s RunQ @ queues s q, q := [])\<rparr>)"
    using assms(2,3) by (simp add: Wake_Up_def wake_loop_run set_queue_def)
  with q_rep_move_all [OF assms(1,2)] show ?thesis by blast
qed

lemma Wake_Up_One_rep:
  assumes "q_rep (queues s) pl" and "\<forall>t. pl t = In q \<longrightarrow> threads s t \<noteq> None" and "q \<noteq> RunQ"
    and "\<not> ints s"
  shows "\<exists>Q. Wake_Up_One q s = Some (s\<lparr>queues := Q\<rparr>)
    \<and> ((q_rep Q pl \<and> (\<forall>t. pl t \<noteq> In q)) \<or> (\<exists>b. pl b = In q \<and> q_rep Q (pl(b := In RunQ))
         \<and> first_best (threads s) (queues s q) b))"
proof -
  obtain b where b: "Find_Best q s = Some b"
    "case b of None \<Rightarrow> queues s q = [] \<and> (\<forall>t. pl t \<noteq> In q)
       | Some c \<Rightarrow> pl c = In q \<and> first_best (threads s) (queues s q) c"
    using Find_Best_rep [OF assms(1,2)] by blast
  show ?thesis
  proof (cases b)
    case None
    with b assms show ?thesis by (auto simp: Wake_Up_One_def intro!: exI [of _ "queues s"])
  next
    case (Some c)
    with b have c: "pl c = In q" "first_best (threads s) (queues s q) c" by auto
    let ?Q = "(queues s)(q := remove1 c (queues s q), RunQ := queues s RunQ @ [c])"
    have "c \<in> set (queues s q)" "c \<notin> set (queues s RunQ)"
      using assms(1,3) c(1) by (auto simp: q_rep_mem)
    then have "Wake_Up_One q s = Some (s\<lparr>queues := ?Q\<rparr>)"
      using b Some assms(3,4)
      by (simp add: Wake_Up_One_def Remove_Thread_def Make_Runnable_def Enqueue_Thread_def set_queue_def)
    moreover have "q_rep ?Q (pl(c := In RunQ))" by (rule q_rep_move [OF assms(1) c(1) assms(3)])
    ultimately show ?thesis using c by blast
  qed
qed

text \<open>A thread blocks: it leaves the processor for queue \<open>q\<close> and the best runnable thread runs.\<close>

lemma Wait_rep:
  assumes "q_rep (queues s) pl" and "pl (g_currentThread s) = Cur"
    and "\<forall>t. pl t = In RunQ \<longrightarrow> threads s t \<noteq> None" and "threads s (g_currentThread s) \<noteq> None"
    and "pl r = In RunQ" and "\<not> ints s" and "\<not> g_preemptionDisabled s"
  shows "\<exists>Q N b. Wait q s = Some (s\<lparr>queues := Q, thread_ticks := N, g_currentThread := b\<rparr>)
    \<and> (pl(g_currentThread s := In q)) b = In RunQ \<and> q_rep Q (pl(g_currentThread s := In q, b := Cur))"
proof -
  let ?c = "g_currentThread s" let ?pl = "pl(?c := In q)"
  have "?c \<noteq> r" using assms by auto
  obtain Q where Q: "Enqueue_Thread q ?c s = Some (s\<lparr>queues := Q\<rparr>)" "q_rep Q ?pl"
    using Enqueue_Thread_rep [OF assms(1), of ?c q] assms(2) by auto
  have "\<forall>t. ?pl t = In RunQ \<longrightarrow> threads s t \<noteq> None" using assms(3,4) by auto
  then obtain Q' N b where
    "Schedule (s\<lparr>queues := Q\<rparr>) = Some (s\<lparr>queues := Q', thread_ticks := N, g_currentThread := b\<rparr>)"
    "?pl b = In RunQ" "q_rep Q' (?pl(b := Cur))"
    using Schedule_rep [of "s\<lparr>queues := Q\<rparr>" ?pl r] Q(2) assms(5,6,7) \<open>?c \<noteq> r\<close> by auto
  with Q(1) assms(6) show ?thesis
    by (intro exI [of _ Q'] exI [of _ N] exI [of _ b]) (simp add: Wait_def)
qed

section \<open>Property of the scheduler\<close>

text \<open>
  Property C27 (functional).  \<open>Schedule\<close> fails its assertion when no thread is runnable.
  Otherwise it switches to the first thread of the run queue among those with the highest
  priority: threads before it in the queue have lower priority and threads after it have no
  higher one.  That thread, and only it, leaves the queue, and the order of the others is kept.
\<close>

theorem Schedule_picks_best:
  assumes "distinct (queues s RunQ)" and "set (queues s RunQ) \<subseteq> dom (threads s)"
    and "\<not> ints s" and "\<not> g_preemptionDisabled s"
  shows "if queues s RunQ = [] then Schedule s = None
    else \<exists>s' us vs. Schedule s = Some s' \<and> queues s RunQ = us @ g_currentThread s' # vs
      \<and> queues s' = (queues s)(RunQ := us @ vs)
      \<and> (\<forall>u \<in> set us. prio (threads s) u < prio (threads s) (g_currentThread s'))
      \<and> (\<forall>v \<in> set vs. prio (threads s) v \<le> prio (threads s) (g_currentThread s'))"
proof (cases "queues s RunQ = []")
  case True
  then show ?thesis by (simp add: Schedule_def Get_Next_Runnable_def Find_Best_def)
next
  case False
  have "\<forall>t \<in> set (queues s RunQ). threads s t \<noteq> None" using assms(2) by auto
  then obtain b where b: "find_best_loop (threads s) (queues s RunQ) None = Some b"
    "case b of None \<Rightarrow> queues s RunQ = [] | Some c \<Rightarrow> first_best (threads s) (queues s RunQ) c"
    using find_best_loop_None by blast
  with False obtain c where c: "b = Some c" "first_best (threads s) (queues s RunQ) c" by (cases b) auto
  then obtain us vs where uv: "queues s RunQ = us @ c # vs" "\<forall>u \<in> set us. prio (threads s) u < prio (threads s) c"
    "\<forall>v \<in> set vs. prio (threads s) v \<le> prio (threads s) c" by (auto simp: first_best_def)
  have "c \<notin> set us" using assms(1) uv(1) by auto
  then have r: "remove1 c (queues s RunQ) = us @ vs" using uv(1) by (simp add: remove1_append)
  have "Schedule s = Some (Switch_To_Thread c (set_queue RunQ (us @ vs) s))"
    using b(1) c assms(3,4) r first_best_mem [OF c(2)]
    by (simp add: Schedule_def Get_Next_Runnable_def Find_Best_def Remove_Thread_def)
  with uv False show ?thesis
    by (intro if_not_P [THEN iffD2] exI conjI | simp add: Switch_To_Thread_def set_queue_def)+
qed

definition three_runnable :: kstate where
  "three_runnable = \<lparr>kmem = boot_mem, threads = (\<lambda>t. Some \<lparr>esp = 0, priority = (if t = 2 \<or> t = 3 then 5 else 0),
     stackPage = 0, userContext = None, owner = None, refCount = 1, alive = True, exitCode = 0, pid = 1,
     tlocalData = (\<lambda>_. 0), kstack = []\<rparr>), thread_ticks = (\<lambda>_. 0),
     queues = (\<lambda>q. if q = RunQ then [1, 2, 3] else []), s_allThreadList = [], ucontexts = Map.empty,
     g_currentThread = 4, g_needReschedule = False, g_preemptionDisabled = False, ints = False, nextFreePid = 9,
     mutexes = (\<lambda>_. \<lparr>m_locked = False, m_owner = None\<rparr>), g_numTicks = 0, g_Quantum = 4, s_tlocalKeyCounter = 0,
     s_tlocalDestructors = (\<lambda>_. 0)\<rparr>"

lemma Schedule_picks_best_witness:
  "\<exists>s' us vs. Schedule three_runnable = Some s' \<and> queues three_runnable RunQ = us @ g_currentThread s' # vs
     \<and> queues s' = (queues three_runnable)(RunQ := us @ vs)"
  using Schedule_picks_best [of three_runnable] by (auto simp: three_runnable_def dom_def)

end
