(* ===== verification/Interrupt.thy ===== *)
theory Interrupt
  imports Kthread
begin

text \<open>
  Interrupts: the gates of \<open>src/geekos/idt.c\<close>, the interrupt controller mask of
  \<open>src/geekos/irq.c\<close>, and the common return path of all interrupts,
  \<open>Handle_Interrupt\<close> of \<open>src/geekos/lowlevel.asm\<close>, which is where a thread is preempted.
  Writes to the ports of the two interrupt controllers are a list of port and value, latest
  first.
\<close>

section \<open>Gates\<close>

definition SYSCALL_INT :: nat where "SYSCALL_INT = 0x90"
definition NUM_IDT_ENTRIES :: nat where "NUM_IDT_ENTRIES = 256"
definition FIRST_EXTERNAL_INT :: int where "FIRST_EXTERNAL_INT = 32"

record interrupt_gate =
  offsetLow :: u16
  segmentSelector :: u16
  ig_reserved :: "5 word"
  signature :: u8
  ig_dpl :: "2 word"
  ig_present :: "1 word"
  offsetHigh :: u16

definition Init_Interrupt_Gate :: "u32 \<Rightarrow> nat \<Rightarrow> interrupt_gate" where
  "Init_Interrupt_Gate addr dpl =
     \<lparr>offsetLow = ucast (addr AND 0xffff), segmentSelector = ucast KERNEL_CS, ig_reserved = 0,
      signature = 0x70, ig_dpl = word_of_nat dpl, ig_present = 1,
      offsetHigh = ucast (drop_bit 16 addr)\<rparr>"

text \<open>
  \<open>Init_IDT\<close> is given the entry point table of \<open>lowlevel.asm\<close>: its start, its end and the
  sizes of the entry points without and with error code.
\<close>

definition Init_IDT :: "u32 \<Rightarrow> u32 \<Rightarrow> u32 \<Rightarrow> u32 \<Rightarrow> interrupt_gate list option" where
  "Init_IDT tableStart tableEnd sizeNoErr sizeErr = do {
     kassert (sizeNoErr = sizeErr);
     kassert (tableEnd - tableStart = sizeNoErr * word_of_nat NUM_IDT_ENTRIES);
     Some (map (\<lambda>i. Init_Interrupt_Gate (tableStart + word_of_nat i * sizeNoErr)
                  (if i = SYSCALL_INT then USER_PRIVILEGE else KERNEL_PRIVILEGE))
             [0 ..< NUM_IDT_ENTRIES])
   }"

definition Install_Interrupt_Handler :: "int \<Rightarrow> 'h \<Rightarrow> (nat \<Rightarrow> 'h) \<Rightarrow> (nat \<Rightarrow> 'h) option" where
  "Install_Interrupt_Handler interrupt handler table = do {
     kassert (interrupt \<ge> 0 \<and> interrupt < int NUM_IDT_ENTRIES);
     Some (table(nat interrupt := handler))
   }"

section \<open>The interrupt controllers\<close>

record pic_state =
  s_irqMask :: u16
  port_log :: "(nat \<times> u8) list"

definition MASTER :: "u16 \<Rightarrow> u8" where "MASTER msk = ucast (msk AND 0xff)"
definition SLAVE :: "u16 \<Rightarrow> u8" where "SLAVE msk = ucast (drop_bit 8 msk AND 0xff)"

definition Out_Byte :: "nat \<Rightarrow> u8 \<Rightarrow> pic_state \<Rightarrow> pic_state" where
  "Out_Byte port v s = s\<lparr>port_log := (port, v) # port_log s\<rparr>"

definition Install_IRQ :: "int \<Rightarrow> 'h \<Rightarrow> (nat \<Rightarrow> 'h) \<Rightarrow> (nat \<Rightarrow> 'h) option" where
  "Install_IRQ irq handler table = Install_Interrupt_Handler (irq + FIRST_EXTERNAL_INT) handler table"

definition Get_IRQ_Mask :: "pic_state \<Rightarrow> u16" where
  "Get_IRQ_Mask s = s_irqMask s"

definition Set_IRQ_Mask :: "u16 \<Rightarrow> pic_state \<Rightarrow> pic_state" where
  "Set_IRQ_Mask msk s =
     (let s = (if MASTER msk \<noteq> MASTER (s_irqMask s) then Out_Byte 0x21 (MASTER msk) s else s);
          s = (if SLAVE msk \<noteq> SLAVE (s_irqMask s) then Out_Byte 0xA1 (SLAVE msk) s else s)
      in s\<lparr>s_irqMask := msk\<rparr>)"

definition Enable_IRQ :: "int \<Rightarrow> pic_state \<Rightarrow> pic_state option" where
  "Enable_IRQ irq s = do {
     kassert (irq \<ge> 0 \<and> irq < 16);
     Some (Set_IRQ_Mask (Get_IRQ_Mask s AND NOT (push_bit (nat irq) 1)) s)
   }"

definition Disable_IRQ :: "int \<Rightarrow> pic_state \<Rightarrow> pic_state option" where
  "Disable_IRQ irq s = do {
     kassert (irq \<ge> 0 \<and> irq < 16);
     Some (Set_IRQ_Mask (Get_IRQ_Mask s OR push_bit (nat irq) 1) s)
   }"

definition Begin_IRQ :: "pic_state \<Rightarrow> pic_state" where
  "Begin_IRQ s = s"

definition End_IRQ :: "int \<Rightarrow> pic_state \<Rightarrow> pic_state" where
  "End_IRQ intNum s =
     (let irq = intNum - FIRST_EXTERNAL_INT;
          command = word_of_int (0x60 OR (irq AND 0x7))
      in if irq < 8 then Out_Byte 0x20 command s
         else Out_Byte 0x20 0x62 (Out_Byte 0xA0 command s))"

section \<open>The return path\<close>

text \<open>
  The processor clears the interrupt flag, the handler runs, and unless preemption is
  disabled a pending request to reschedule suspends the current thread.  The result says
  whether it was suspended; otherwise \<open>iret\<close> restores the flag.
\<close>

definition Handle_Interrupt :: "(kstate \<Rightarrow> kstate option) \<Rightarrow> kstate \<Rightarrow> (bool \<times> kstate) option" where
  "Handle_Interrupt handler s = do {
     kassert (ints s);
     s \<leftarrow> handler (s\<lparr>ints := False\<rparr>);
     (if \<not> g_preemptionDisabled s \<and> g_needReschedule s then do {
        s \<leftarrow> Make_Runnable (g_currentThread s) s;
        let s = s\<lparr>thread_ticks := (thread_ticks s)(g_currentThread s := 0)\<rparr>;
        (t, s) \<leftarrow> Get_Next_Runnable s;
        Some (True, s\<lparr>g_currentThread := t, g_needReschedule := False\<rparr>)
      } else Some (False, s\<lparr>ints := True\<rparr>))
   }"

section \<open>What they do\<close>

lemma Init_Interrupt_Gate_offset:
  "ucast (offsetLow (Init_Interrupt_Gate a d)) OR push_bit 16 (ucast (offsetHigh (Init_Interrupt_Gate a d)))
     = (a :: u32)"
proof -
  have "(0xffff :: u32) = mask 16" by (simp add: mask_eq_exp_minus_1)
  then show ?thesis by (auto simp: Init_Interrupt_Gate_def bit_eq_iff bit_simps)
qed

text \<open>The value last written to a port; the initial programming of the controllers agrees with the mask.\<close>

definition last_write :: "nat \<Rightarrow> u8 \<Rightarrow> pic_state \<Rightarrow> u8" where
  "last_write port init s = (case filter (\<lambda>(p, v). p = port) (port_log s) of [] \<Rightarrow> init | w # _ \<Rightarrow> snd w)"

definition pic_synced :: "pic_state \<Rightarrow> bool" where
  "pic_synced s \<longleftrightarrow> last_write 0x21 (MASTER 0xfffb) s = MASTER (s_irqMask s)
     \<and> last_write 0xA1 (SLAVE 0xfffb) s = SLAVE (s_irqMask s)"

lemma Set_IRQ_Mask_synced: "pic_synced s \<Longrightarrow> pic_synced (Set_IRQ_Mask m s)"
  by (auto simp: pic_synced_def Set_IRQ_Mask_def Out_Byte_def last_write_def Let_def)

lemma mask_bits:
  assumes "0 \<le> irq" and "irq < 16"
  shows "bit (m AND NOT (push_bit (nat irq) 1) :: u16) k \<longleftrightarrow> bit m k \<and> int k \<noteq> irq"
    and "bit (m OR push_bit (nat irq) 1 :: u16) k \<longleftrightarrow> bit m k \<or> int k = irq"
proof -
  have k: "k < 16" if "bit m k" using that bit_imp_le_length [of m k] by simp
  have n: "nat irq = k \<longleftrightarrow> int k = irq" using assms by auto
  show "bit (m AND NOT (push_bit (nat irq) 1) :: u16) k \<longleftrightarrow> bit m k \<and> int k \<noteq> irq"
    using k n by (auto simp: bit_and_iff bit_not_iff bit_exp_iff)
  show "bit (m OR push_bit (nat irq) 1 :: u16) k \<longleftrightarrow> bit m k \<or> int k = irq"
    using n assms by (auto simp: bit_or_iff bit_exp_iff)
qed

section \<open>Properties\<close>

text \<open>
  \<open>Enable_IRQ\<close> and \<open>Disable_IRQ\<close> clear and set exactly the mask bit of their
  line, fail their assertion for a line that does not exist, and keep the masks last
  written to the master and slave controller equal to the two halves of the kernel's mask.
\<close>

theorem irq_mask_synced:
  assumes "pic_synced s"
  shows "if 0 \<le> irq \<and> irq < 16
    then \<exists>e d. Enable_IRQ irq s = Some e \<and> Disable_IRQ irq s = Some d \<and> pic_synced e \<and> pic_synced d
      \<and> (\<forall>k. bit (s_irqMask e) k \<longleftrightarrow> bit (s_irqMask s) k \<and> int k \<noteq> irq)
      \<and> (\<forall>k. bit (s_irqMask d) k \<longleftrightarrow> bit (s_irqMask s) k \<or> int k = irq)
    else Enable_IRQ irq s = None \<and> Disable_IRQ irq s = None"
proof (cases "0 \<le> irq \<and> irq < 16")
  case True
  have m: "s_irqMask (Set_IRQ_Mask x s) = x" for x by (simp add: Set_IRQ_Mask_def Let_def)
  let ?e = "s_irqMask s AND NOT (push_bit (nat irq) 1)" let ?d = "s_irqMask s OR push_bit (nat irq) 1"
  have "Enable_IRQ irq s = Some (Set_IRQ_Mask ?e s)" "Disable_IRQ irq s = Some (Set_IRQ_Mask ?d s)"
    using True by (simp_all add: Enable_IRQ_def Disable_IRQ_def Get_IRQ_Mask_def)
  moreover have "\<forall>k. bit ?e k \<longleftrightarrow> bit (s_irqMask s) k \<and> int k \<noteq> irq"
    "\<forall>k. bit ?d k \<longleftrightarrow> bit (s_irqMask s) k \<or> int k = irq"
    using mask_bits True by blast+
  ultimately show ?thesis
    using True Set_IRQ_Mask_synced [OF assms, of ?e] Set_IRQ_Mask_synced [OF assms, of ?d]
      m [of ?e] m [of ?d] by auto
qed (auto simp: Enable_IRQ_def Disable_IRQ_def bind_kassert)

lemma irq_mask_synced_witness:
  "\<exists>e. Enable_IRQ 1 \<lparr>s_irqMask = 0xfffb, port_log = []\<rparr> = Some e \<and> pic_synced e
     \<and> (\<forall>k. bit (s_irqMask e) k \<longleftrightarrow> bit (0xfffb :: u16) k \<and> int k \<noteq> 1)"
  using irq_mask_synced [of "\<lparr>s_irqMask = 0xfffb, port_log = []\<rparr>" 1]
  by (auto simp: pic_synced_def last_write_def)

text \<open>
  \<open>Init_IDT\<close> builds one gate per interrupt, each with the address of its
  entry point and the kernel's code segment, and lets user mode raise the system call
  interrupt and no other one.
\<close>

theorem Init_IDT_gates:
  assumes "tableEnd - tableStart = sz * 256"
  shows "\<exists>idt. Init_IDT tableStart tableEnd sz sz = Some idt \<and> length idt = 256
    \<and> (\<forall>i < 256. ucast (offsetLow (idt ! i)) OR push_bit 16 (ucast (offsetHigh (idt ! i)))
           = tableStart + word_of_nat i * sz
         \<and> segmentSelector (idt ! i) = ucast KERNEL_CS
         \<and> (ig_dpl (idt ! i) = 3 \<longleftrightarrow> i = 0x90) \<and> (ig_dpl (idt ! i) = 0 \<longleftrightarrow> i \<noteq> 0x90))"
proof -
  let ?g = "\<lambda>i. Init_Interrupt_Gate (tableStart + word_of_nat i * sz)
    (if i = SYSCALL_INT then USER_PRIVILEGE else KERNEL_PRIVILEGE)"
  have "Init_IDT tableStart tableEnd sz sz = Some (map ?g [0 ..< 256])"
    using assms by (simp add: Init_IDT_def NUM_IDT_ENTRIES_def)
  moreover have "segmentSelector (?g i) = ucast KERNEL_CS \<and> (ig_dpl (?g i) = 3 \<longleftrightarrow> i = 0x90)
      \<and> (ig_dpl (?g i) = 0 \<longleftrightarrow> i \<noteq> 0x90)" for i
    by (simp add: Init_Interrupt_Gate_def SYSCALL_INT_def USER_PRIVILEGE_def KERNEL_PRIVILEGE_def)
  ultimately show ?thesis by (simp add: Init_Interrupt_Gate_offset)
qed

lemma Init_IDT_gates_witness:
  "\<exists>idt. Init_IDT 0x10000 0x11000 16 16 = Some idt \<and> length idt = 256
     \<and> ig_dpl (idt ! 0x90) = 3 \<and> ig_dpl (idt ! 0x20) = 0"
  using Init_IDT_gates [of "0x11000" "0x10000" 16]
  by (auto dest: spec [of _ "0x90"] spec [of _ "0x20"])

end
