(* ===== verification/Timer.thy ===== *)
theory Timer
  imports Interrupt
begin

text \<open>
  The timer.  The interrupt handler of \<open>project2/src/geekos/timer.c\<close> counts the ticks of
  the current thread and asks for a reschedule at the end of its quantum.
  \<open>project3/src/geekos/timer.c\<close> adds a table of timer events; \<open>call\<close> runs an event's
  callback, which may itself start and cancel events.  An index outside the table is
  \<open>None\<close>.
\<close>

section \<open>Ticks\<close>

definition Timer_Interrupt_Handler :: "kstate \<Rightarrow> kstate option" where
  "Timer_Interrupt_Handler s = do {
     let current = g_currentThread s;
     kassert (threads s current \<noteq> None);
     let s = s\<lparr>g_numTicks := g_numTicks s + 1\<rparr>;
     let s = s\<lparr>thread_ticks := (thread_ticks s)(current := thread_ticks s current + 1)\<rparr>;
     Some (if thread_ticks s current \<ge> g_Quantum s then s\<lparr>g_needReschedule := True\<rparr> else s)
   }"

section \<open>Timer events\<close>

record 'cb timer_event =
  te_ticks :: int
  te_id :: int
  te_callBack :: 'cb
  te_origTicks :: int

record 'cb timer_state =
  pendingTimerEvents :: "'cb timer_event list"
  timeEventCount :: nat
  nextEventID :: int
  te_ints :: bool

definition MAX_TIMER_EVENTS :: nat where "MAX_TIMER_EVENTS = 100"

definition Start_Timer :: "int \<Rightarrow> 'cb \<Rightarrow> 'cb timer_state \<Rightarrow> (int \<times> 'cb timer_state) option" where
  "Start_Timer ticks cb s = do {
     kassert (\<not> te_ints s);
     (if timeEventCount s = MAX_TIMER_EVENTS then Some (-1, s)
      else if timeEventCount s < length (pendingTimerEvents s) then
        Some (nextEventID s,
          s\<lparr>nextEventID := nextEventID s + 1,
            pendingTimerEvents := (pendingTimerEvents s)[timeEventCount s :=
              \<lparr>te_ticks = ticks, te_id = nextEventID s, te_callBack = cb, te_origTicks = ticks\<rparr>],
            timeEventCount := timeEventCount s + 1\<rparr>)
      else None)
   }"

function find_event :: "int \<Rightarrow> 'cb timer_state \<Rightarrow> nat \<Rightarrow> nat option" where
  "find_event ident s i =
     (if i < timeEventCount s then
        (if te_id (pendingTimerEvents s ! i) = ident then Some i else find_event ident s (Suc i))
      else None)"
  by pat_completeness auto
termination
  by (relation "measure (\<lambda>(ident, s, i). timeEventCount s - i)") auto

definition Get_Remaing_Timer_Ticks :: "int \<Rightarrow> 'cb timer_state \<Rightarrow> int option" where
  "Get_Remaing_Timer_Ticks ident s = do {
     kassert (\<not> te_ints s);
     Some (case find_event ident s 0 of None \<Rightarrow> -1 | Some i \<Rightarrow> te_ticks (pendingTimerEvents s ! i))
   }"

definition Cancel_Timer :: "int \<Rightarrow> 'cb timer_state \<Rightarrow> (int \<times> 'cb timer_state) option" where
  "Cancel_Timer ident s = do {
     kassert (\<not> te_ints s);
     Some (case find_event ident s 0 of
             None \<Rightarrow> (-1, s)
           | Some i \<Rightarrow> (0, s\<lparr>pendingTimerEvents := (pendingTimerEvents s)[i :=
                            pendingTimerEvents s ! (timeEventCount s - 1)],
                          timeEventCount := timeEventCount s - 1\<rparr>))
   }"

text \<open>The loop over the events in the interrupt handler.\<close>

function timer_event_loop ::
  "('cb \<Rightarrow> int \<Rightarrow> 'cb timer_state \<Rightarrow> 'cb timer_state) \<Rightarrow> nat \<Rightarrow> 'cb timer_state
   \<Rightarrow> 'cb timer_state option" where
  "timer_event_loop call i s =
     (if i < timeEventCount s then
        (if i < MAX_TIMER_EVENTS then
           (let e = pendingTimerEvents s ! i
            in if te_ticks e = 0
               then timer_event_loop call (Suc i) (call (te_callBack e) (te_id e) s)
               else timer_event_loop call (Suc i)
                      (s\<lparr>pendingTimerEvents := (pendingTimerEvents s)[i := e\<lparr>te_ticks := te_ticks e - 1\<rparr>]\<rparr>))
         else None)
      else Some s)"
  by pat_completeness auto
termination
  by (relation "measure (\<lambda>(call, i, s). MAX_TIMER_EVENTS - i)") auto

declare find_event.simps [simp del] timer_event_loop.simps [simp del]

section \<open>The table as a map\<close>

definition active :: "'cb timer_state \<Rightarrow> 'cb timer_event list" where
  "active s = take (timeEventCount s) (pendingTimerEvents s)"

text \<open>The table has its full size, the identifiers are distinct, and new ones are fresh.\<close>

definition timer_ok :: "'cb timer_state \<Rightarrow> bool" where
  "timer_ok s \<longleftrightarrow> length (pendingTimerEvents s) = MAX_TIMER_EVENTS
     \<and> timeEventCount s \<le> MAX_TIMER_EVENTS \<and> distinct (map te_id (active s))
     \<and> (\<forall>e \<in> set (active s). te_id e < nextEventID s)"

definition remaining :: "'cb timer_state \<Rightarrow> int \<Rightarrow> int option" where
  "remaining s = map_of (map (\<lambda>e. (te_id e, te_ticks e)) (active s))"

lemma timer_ok_nth:
  "timer_ok s \<Longrightarrow> i < timeEventCount s \<Longrightarrow> active s ! i = pendingTimerEvents s ! i"
  by (simp add: active_def)

lemma timer_ok_length: "timer_ok s \<Longrightarrow> length (active s) = timeEventCount s"
  by (simp add: active_def timer_ok_def min_absorb2)

lemma find_event_spec:
  assumes "timer_ok s" and "i \<le> timeEventCount s"
  shows "case find_event ident s i of
      None \<Rightarrow> \<forall>j. i \<le> j \<and> j < timeEventCount s \<longrightarrow> te_id (active s ! j) \<noteq> ident
    | Some j \<Rightarrow> i \<le> j \<and> j < timeEventCount s \<and> te_id (active s ! j) = ident"
  using assms(2)
proof (induction "timeEventCount s - i" arbitrary: i)
  case 0
  then show ?case by (subst find_event.simps) auto
next
  case (Suc d)
  then have i: "i < timeEventCount s" by simp
  show ?case
  proof (cases "te_id (pendingTimerEvents s ! i) = ident")
    case True
    with i timer_ok_nth [OF assms(1) i] show ?thesis by (subst find_event.simps) simp
  next
    case False
    have IH: "case find_event ident s (Suc i) of
        None \<Rightarrow> \<forall>j. Suc i \<le> j \<and> j < timeEventCount s \<longrightarrow> te_id (active s ! j) \<noteq> ident
      | Some j \<Rightarrow> Suc i \<le> j \<and> j < timeEventCount s \<and> te_id (active s ! j) = ident"
      by (rule Suc.hyps(1)) (use Suc i in auto)
    have "find_event ident s i = find_event ident s (Suc i)"
      using i False by (subst find_event.simps) simp
    with IH False timer_ok_nth [OF assms(1) i] show ?thesis
      by (cases "find_event ident s (Suc i)") (auto, metis Suc_leI le_neq_implies_less)
  qed
qed

lemma remaining_Some:
  assumes "timer_ok s" and "j < timeEventCount s"
  shows "remaining s (te_id (active s ! j)) = Some (te_ticks (active s ! j))"
proof -
  have "distinct (map fst (map (\<lambda>e. (te_id e, te_ticks e)) (active s)))"
    using assms(1) by (simp add: timer_ok_def comp_def)
  moreover have "active s ! j \<in> set (active s)" using assms timer_ok_length by (metis nth_mem)
  ultimately show ?thesis by (force simp: remaining_def intro!: map_of_is_SomeI)
qed

lemma remaining_None:
  "timer_ok s \<Longrightarrow> remaining s ident = None \<longleftrightarrow> (\<forall>j < timeEventCount s. te_id (active s ! j) \<noteq> ident)"
  using timer_ok_length [of s] by (force simp: remaining_def map_of_eq_None_iff in_set_conv_nth)

lemma Get_Remaining_map:
  "timer_ok s \<Longrightarrow> \<not> te_ints s \<Longrightarrow>
   Get_Remaing_Timer_Ticks ident s = Some (case remaining s ident of None \<Rightarrow> -1 | Some n \<Rightarrow> n)"
  using find_event_spec [of s 0 ident] remaining_None [of s ident] remaining_Some [of s]
  by (auto simp: Get_Remaing_Timer_Ticks_def timer_ok_nth split: option.splits)

lemma Start_Timer_map:
  assumes ok: "timer_ok s" and "\<not> te_ints s" and lt: "timeEventCount s < MAX_TIMER_EVENTS"
  shows "\<exists>s'. Start_Timer n cb s = Some (nextEventID s, s') \<and> timer_ok s'
    \<and> remaining s (nextEventID s) = None \<and> remaining s' = (remaining s)(nextEventID s \<mapsto> n)"
proof -
  let ?e = "\<lparr>te_ticks = n, te_id = nextEventID s, te_callBack = cb, te_origTicks = n\<rparr>"
  let ?s = "s\<lparr>nextEventID := nextEventID s + 1,
    pendingTimerEvents := (pendingTimerEvents s)[timeEventCount s := ?e],
    timeEventCount := timeEventCount s + 1\<rparr>"
  have a: "active ?s = active s @ [?e]"
    using ok lt by (simp add: active_def timer_ok_def take_Suc_conv_app_nth)
  have fresh: "\<forall>e \<in> set (active s). te_id e < nextEventID s" using ok by (simp add: timer_ok_def)
  then have "timer_ok ?s"
    using ok lt unfolding timer_ok_def a by (auto simp: a)
  moreover have none: "remaining s (nextEventID s) = None"
    using fresh by (auto simp: remaining_def map_of_eq_None_iff)
  moreover have "remaining ?s = (remaining s)(nextEventID s \<mapsto> n)"
    using none unfolding remaining_def a
    by (auto simp: fun_eq_iff map_add_def split: option.splits)
  ultimately show ?thesis using assms by (auto simp: Start_Timer_def timer_ok_def)
qed

lemma remaining_iff:
  assumes "timer_ok s"
  shows "remaining s x = Some n \<longleftrightarrow> (\<exists>e \<in> set (active s). te_id e = x \<and> te_ticks e = n)"
proof -
  have "distinct (map fst (map (\<lambda>e. (te_id e, te_ticks e)) (active s)))"
    using assms by (simp add: timer_ok_def comp_def)
  then show ?thesis by (auto simp: remaining_def map_of_eq_Some_iff)
qed

lemma Cancel_Timer_map:
  assumes ok: "timer_ok s" and "\<not> te_ints s"
  shows "\<exists>s'. Cancel_Timer ident s = Some (if remaining s ident = None then -1 else 0, s')
    \<and> timer_ok s' \<and> remaining s' = (remaining s)(ident := None)"
proof (cases "find_event ident s 0")
  case None
  then have "remaining s ident = None"
    using find_event_spec [OF ok, of 0 ident] remaining_None [OF ok] by simp
  moreover from this have "(remaining s)(ident := None) = remaining s" by (simp add: fun_upd_idem)
  ultimately show ?thesis using None assms by (simp add: Cancel_Timer_def)
next
  case (Some i)
  let ?n = "timeEventCount s"
  let ?s = "s\<lparr>pendingTimerEvents := (pendingTimerEvents s)[i := pendingTimerEvents s ! (?n - 1)],
    timeEventCount := ?n - 1\<rparr>"
  have i: "i < ?n" "te_id (active s ! i) = ident" using find_event_spec [OF ok, of 0 ident] Some by auto
  have len: "length (active s) = ?n" by (rule timer_ok_length [OF ok])
  have d: "distinct (map te_id (active s))" using ok by (simp add: timer_ok_def)
  have len': "length (active ?s) = ?n - 1" using ok by (auto simp: active_def timer_ok_def)
  have nth: "active ?s ! j = (if j = i then active s ! (?n - 1) else active s ! j)" if "j < ?n - 1" for j
    using that i ok by (simp add: active_def timer_ok_def nth_list_update)
  have inj: "te_id (active s ! j) = te_id (active s ! k) \<longleftrightarrow> j = k" if "j < ?n" "k < ?n" for j k
    using nth_eq_iff_index_eq [OF d, of j k] that len by simp
  have set: "set (active ?s) = {e \<in> set (active s). te_id e \<noteq> ident}"
  proof (intro equalityI subsetI)
    fix e assume "e \<in> set (active ?s)"
    then obtain j where j: "j < ?n - 1" "e = active ?s ! j" using len' by (metis in_set_conv_nth)
    then show "e \<in> {e \<in> set (active s). te_id e \<noteq> ident}"
      using nth [OF j(1)] i len inj [of "?n - 1" i] inj [of j i] by auto
  next
    fix e assume "e \<in> {e \<in> set (active s). te_id e \<noteq> ident}"
    then obtain k where k: "k < ?n" "e = active s ! k" "k \<noteq> i"
      using len i by (auto simp: in_set_conv_nth)
    let ?j = "if k = ?n - 1 then i else k"
    have "?j < ?n - 1" "active ?s ! ?j = e" using k i nth [of ?j] by (auto split: if_splits)
    then show "e \<in> set (active ?s)" using len' nth_mem by metis
  qed
  have "distinct (map te_id (active ?s))"
    unfolding distinct_conv_nth
    using len' nth inj i by (auto split: if_splits)
  with ok set have ok': "timer_ok ?s" by (auto simp: timer_ok_def)
  have "remaining ?s = (remaining s)(ident := None)"
  proof (rule map_eqI)
    fix x y
    show "remaining ?s x = Some y \<longleftrightarrow> ((remaining s)(ident := None)) x = Some y"
      unfolding remaining_iff [OF ok'] set using remaining_iff [OF ok, of x y] by auto
  qed
  moreover have "remaining s ident \<noteq> None" using remaining_None [OF ok] i by auto
  ultimately show ?thesis using Some assms ok' by (auto simp: Cancel_Timer_def)
qed

section \<open>A tick\<close>

definition tick_event :: "'cb timer_event \<Rightarrow> 'cb timer_event" where
  "tick_event e = (if te_ticks e = 0 then e else e\<lparr>te_ticks := te_ticks e - 1\<rparr>)"

lemma timer_event_loop_passive:
  assumes "length (pendingTimerEvents s) = MAX_TIMER_EVENTS" and "timeEventCount s \<le> MAX_TIMER_EVENTS"
    and "i \<le> timeEventCount s"
  shows "timer_event_loop (\<lambda>_ _ s. s) i s = Some (s\<lparr>pendingTimerEvents :=
     take i (pendingTimerEvents s)
     @ map tick_event (take (timeEventCount s - i) (drop i (pendingTimerEvents s)))
     @ drop (timeEventCount s) (pendingTimerEvents s)\<rparr>)"
  using assms
proof (induction "timeEventCount s - i" arbitrary: i s)
  case 0
  then show ?case by (subst timer_event_loop.simps) simp
next
  case (Suc d)
  let ?es = "pendingTimerEvents s" let ?n = "timeEventCount s"
  let ?s = "s\<lparr>pendingTimerEvents := ?es[i := tick_event (?es ! i)]\<rparr>"
  have i: "i < ?n" "i < MAX_TIMER_EVENTS" "i < length ?es" using Suc by auto
  have upd: "?es[i := ?es ! i] = ?es" by simp
  have step: "timer_event_loop (\<lambda>_ _ s. s) i s = timer_event_loop (\<lambda>_ _ s. s) (Suc i) ?s"
    using i by (subst timer_event_loop.simps) (auto simp: tick_event_def Let_def)
  have IH: "timer_event_loop (\<lambda>_ _ s. s) (Suc i) ?s = Some (?s\<lparr>pendingTimerEvents :=
     take (Suc i) (pendingTimerEvents ?s)
     @ map tick_event (take (timeEventCount ?s - Suc i) (drop (Suc i) (pendingTimerEvents ?s)))
     @ drop (timeEventCount ?s) (pendingTimerEvents ?s)\<rparr>)"
    by (rule Suc.hyps(1)) (use Suc i in auto)
  have "take (Suc i) (?es[i := tick_event (?es ! i)]) = take i ?es @ [tick_event (?es ! i)]"
    using i by (simp add: take_Suc_conv_app_nth)
  moreover have "take (?n - i) (drop i ?es) = ?es ! i # take (?n - Suc i) (drop (Suc i) ?es)"
    using i by (metis Cons_nth_drop_Suc Suc_diff_Suc take_Suc_Cons)
  ultimately show ?case unfolding step IH using i by simp
qed

section \<open>Properties of the timer\<close>

text \<open>
  Property C36 (refinement).  The event table is a map from identifiers to remaining ticks:
  \<open>Start_Timer\<close> adds a fresh identifier, or returns -1 and changes nothing when the table is
  full; \<open>Get_Remaing_Timer_Ticks\<close> looks one up; \<open>Cancel_Timer\<close> removes exactly the given
  one.  With callbacks that leave the table alone, a tick takes one off every count that is
  not zero; an event whose count is zero stays in the table, and its callback is called
  again at every tick until it is cancelled.
\<close>

theorem timer_events_map:
  assumes "timer_ok s" and "\<not> te_ints s"
  shows "Get_Remaing_Timer_Ticks ident s = Some (case remaining s ident of None \<Rightarrow> -1 | Some k \<Rightarrow> k)
    \<and> (if timeEventCount s = MAX_TIMER_EVENTS then Start_Timer n cb s = Some (-1, s)
       else \<exists>s'. Start_Timer n cb s = Some (nextEventID s, s') \<and> timer_ok s'
         \<and> remaining s (nextEventID s) = None \<and> remaining s' = (remaining s)(nextEventID s \<mapsto> n))
    \<and> (\<exists>s'. Cancel_Timer ident s = Some (if remaining s ident = None then -1 else 0, s')
         \<and> timer_ok s' \<and> remaining s' = (remaining s)(ident := None))
    \<and> (\<exists>s'. timer_event_loop (\<lambda>_ _ s. s) 0 s = Some s' \<and> timer_ok s'
         \<and> remaining s' ident = map_option (\<lambda>k. if k = 0 then 0 else k - 1) (remaining s ident))"
proof (intro conjI)
  show "Get_Remaing_Timer_Ticks ident s = Some (case remaining s ident of None \<Rightarrow> -1 | Some k \<Rightarrow> k)"
    by (rule Get_Remaining_map [OF assms])
  show "if timeEventCount s = MAX_TIMER_EVENTS then Start_Timer n cb s = Some (-1, s)
       else \<exists>s'. Start_Timer n cb s = Some (nextEventID s, s') \<and> timer_ok s'
         \<and> remaining s (nextEventID s) = None \<and> remaining s' = (remaining s)(nextEventID s \<mapsto> n)"
    using assms Start_Timer_map [OF assms, of n cb] by (auto simp: Start_Timer_def timer_ok_def)
  show "\<exists>s'. Cancel_Timer ident s = Some (if remaining s ident = None then -1 else 0, s')
         \<and> timer_ok s' \<and> remaining s' = (remaining s)(ident := None)"
    by (rule Cancel_Timer_map [OF assms])
  let ?n = "timeEventCount s" let ?es = "pendingTimerEvents s"
  let ?s = "s\<lparr>pendingTimerEvents := map tick_event (take ?n ?es) @ drop ?n ?es\<rparr>"
  have run: "timer_event_loop (\<lambda>_ _ s. s) 0 s = Some ?s"
    using timer_event_loop_passive [of s 0] assms by (simp add: timer_ok_def)
  have a: "active ?s = map tick_event (active s)"
    using timer_ok_length [OF assms(1)] by (simp add: active_def)
  have ids: "te_id \<circ> tick_event = te_id" by (simp add: fun_eq_iff tick_event_def)
  have "timer_ok ?s" using assms(1) unfolding timer_ok_def a by (auto simp: ids tick_event_def)
  moreover have "map (\<lambda>e. (te_id (tick_event e), te_ticks (tick_event e))) (active s)
      = map (\<lambda>e. (te_id e, (\<lambda>k. if k = 0 then 0 else k - 1) (te_ticks e))) (active s)"
    by (simp add: tick_event_def)
  then have "remaining ?s ident = map_option (\<lambda>k. if k = 0 then 0 else k - 1) (remaining s ident)"
    unfolding remaining_def a map_map comp_def
    using map_of_map_val [of te_id "\<lambda>k. if k = 0 then 0 else k - 1" te_ticks "active s" ident]
    by (simp only:)
  ultimately show "\<exists>s'. timer_event_loop (\<lambda>_ _ s. s) 0 s = Some s' \<and> timer_ok s'
         \<and> remaining s' ident = map_option (\<lambda>k. if k = 0 then 0 else k - 1) (remaining s ident)"
    using run by blast
qed

definition no_events :: "nat timer_state" where
  "no_events = \<lparr>pendingTimerEvents = replicate 100 \<lparr>te_ticks = 0, te_id = 0, te_callBack = 0,
     te_origTicks = 0\<rparr>, timeEventCount = 0, nextEventID = 0, te_ints = False\<rparr>"

lemma timer_events_map_witness:
  "\<exists>s'. Start_Timer 5 7 no_events = Some (0, s') \<and> timer_ok s' \<and> remaining s' 0 = Some 5"
  using timer_events_map [of no_events 0 5 7]
  by (auto simp: timer_ok_def no_events_def MAX_TIMER_EVENTS_def active_def)

end
