(* ===== verification/Steps.thy ===== *)
theory Steps
  imports Sched Timer
begin

text \<open>
  The kernel's threads as one transition system.  \<open>exec a\<close> is one step of the current
  thread, from one point where it can be interrupted or switched out to the next one: an API
  call it makes, the continuation of a call after the thread has been switched in again, a
  round of the reaper, or an interrupt.  \<open>pc\<close> says for each thread where it will go on.
  \<open>held\<close> and \<open>refs\<close> are ghost components: which thread is between the return of
  \<open>Mutex_Lock\<close> and the call of \<open>Mutex_Unlock\<close>, and which threads are still referenced by
  their owner, that is, were not started detached and have not been joined.

  While preemption is disabled the code between two switches runs as one step: interrupts
  can be handled there, but \<open>Handle_Interrupt\<close> does not switch threads.
\<close>

section \<open>Steps\<close>

datatype cont = Running | Launching | Yielding | Joining tid | Locking nat | CondWaiting nat nat
  | DevWaiting nat | ReaperLoop | ReaperYielded "tid list" | Reaping "tid list"
  | Preempted | PreemptedReaping "tid list" | Dead

record sys =
  ks :: kstate
  pc :: "tid \<Rightarrow> cont"
  held :: "(tid \<times> nat) set"
  refs :: "tid set"
  idle :: tid
  reaper :: tid

abbreviation cur :: "sys \<Rightarrow> tid" where
  "cur \<sigma> \<equiv> g_currentThread (ks \<sigma>)"

datatype action = Resume | AYield | AStart u32 u32 int bool | AExit int | AJoin tid | ALock nat
  | AUnlock nat | ACondWait nat nat | ASignal nat | ABroadcast nat | ADevWait nat
  | ADevice nat | ATick | AReap

text \<open>The state \<open>s\<close>, with the thread that made the step continuing at \<open>c\<close>.\<close>

definition goes_to :: "sys \<Rightarrow> cont \<Rightarrow> kstate \<Rightarrow> sys" where
  "goes_to \<sigma> c s = \<sigma>\<lparr>ks := s, pc := (pc \<sigma>)(cur \<sigma> := c)\<rparr>"

text \<open>How a call that may block goes on: at \<open>c\<close> if it was switched out, otherwise running.\<close>

definition after_lock :: "sys \<Rightarrow> nat \<Rightarrow> unit run \<Rightarrow> sys" where
  "after_lock \<sigma> m r = (case r of
       Switched s \<Rightarrow> goes_to \<sigma> (Locking m) s
     | Returned _ s \<Rightarrow> (goes_to \<sigma> Running s)\<lparr>held := insert (cur \<sigma>, m) (held \<sigma>)\<rparr>)"

definition after_join :: "sys \<Rightarrow> tid \<Rightarrow> int run \<Rightarrow> sys" where
  "after_join \<sigma> t r = (case r of
       Switched s \<Rightarrow> goes_to \<sigma> (Joining t) s
     | Returned _ s \<Rightarrow> (goes_to \<sigma> Running s)\<lparr>refs := refs \<sigma> - {t}\<rparr>)"

definition reaper_round :: "sys \<Rightarrow> kstate \<Rightarrow> sys option" where
  "reaper_round \<sigma> s = do {
     (ts, s) \<leftarrow> Reaper_Round s;
     Some (goes_to \<sigma> (case ts of None \<Rightarrow> ReaperLoop | Some ts \<Rightarrow> ReaperYielded ts) s)
   }"

definition resume :: "sys \<Rightarrow> sys option" where
  "resume \<sigma> = (let s = ks \<sigma> in case pc \<sigma> (cur \<sigma>) of
       Launching \<Rightarrow> do {
         s \<leftarrow> Launch_Thread s;
         Some (goes_to \<sigma> (if cur \<sigma> = reaper \<sigma> then Reaping [] else Running) s) }
     | Yielding \<Rightarrow> do { s \<leftarrow> Enable_Interrupts s; Some (goes_to \<sigma> Running s) }
     | DevWaiting d \<Rightarrow> do { s \<leftarrow> Enable_Interrupts s; Some (goes_to \<sigma> Running s) }
     | Joining t \<Rightarrow> do { r \<leftarrow> Join_Loop t s; Some (after_join \<sigma> t r) }
     | Locking m \<Rightarrow> do { r \<leftarrow> Mutex_Lock_Resume m s; Some (after_lock \<sigma> m r) }
     | CondWaiting c m \<Rightarrow> do { r \<leftarrow> Cond_Wait_Resume m s; Some (after_lock \<sigma> m r) }
     | ReaperLoop \<Rightarrow> reaper_round \<sigma> s
     | ReaperYielded ts \<Rightarrow> do { s \<leftarrow> Enable_Interrupts s; Some (goes_to \<sigma> (Reaping ts) s) }
     | Preempted \<Rightarrow> Some (goes_to \<sigma> Running (s\<lparr>ints := True\<rparr>))
     | PreemptedReaping ts \<Rightarrow> Some (goes_to \<sigma> (Reaping ts) (s\<lparr>ints := True\<rparr>))
     | _ \<Rightarrow> None)"

definition preempted_at :: "cont \<Rightarrow> cont" where
  "preempted_at c = (case c of Reaping ts \<Rightarrow> PreemptedReaping ts | _ \<Rightarrow> Preempted)"

definition interrupt :: "(kstate \<Rightarrow> kstate option) \<Rightarrow> sys \<Rightarrow> sys option" where
  "interrupt handler \<sigma> = do {
     (switched, s) \<leftarrow> Handle_Interrupt handler (ks \<sigma>);
     Some (goes_to \<sigma> (if switched then preempted_at (pc \<sigma> (cur \<sigma>)) else pc \<sigma> (cur \<sigma>)) s)
   }"

definition start_thread :: "code_addrs \<Rightarrow> u32 \<Rightarrow> u32 \<Rightarrow> int \<Rightarrow> bool \<Rightarrow> sys \<Rightarrow> sys option" where
  "start_thread code f arg pr detached \<sigma> = do {
     (kt, s) \<leftarrow> Start_Kernel_Thread code f arg pr detached (ks \<sigma>);
     Some (case kt of
         None \<Rightarrow> \<sigma>\<lparr>ks := s\<rparr>
       | Some t \<Rightarrow> \<sigma>\<lparr>ks := s, pc := (pc \<sigma>)(t := Launching),
                     refs := (if detached then refs \<sigma> else insert t (refs \<sigma>))\<rparr>)
   }"

definition reap_step :: "sys \<Rightarrow> sys option" where
  "reap_step \<sigma> = (case pc \<sigma> (cur \<sigma>) of
       Reaping [] \<Rightarrow> do { s \<leftarrow> Disable_Interrupts (ks \<sigma>); reaper_round \<sigma> s }
     | Reaping (t # ts) \<Rightarrow> do { s \<leftarrow> Destroy_Thread t (ks \<sigma>); Some (goes_to \<sigma> (Reaping ts) s) }
     | _ \<Rightarrow> None)"

text \<open>The kernel under consideration registers no destructors of thread-local data.\<close>

definition no_call :: "u32 \<Rightarrow> u32 \<Rightarrow> kstate \<Rightarrow> kstate option" where
  "no_call d x s = None"

fun exec :: "code_addrs \<Rightarrow> action \<Rightarrow> sys \<Rightarrow> sys option" where
  "exec code Resume \<sigma> = resume \<sigma>"
| "exec code AYield \<sigma> = do { s \<leftarrow> Yield (ks \<sigma>); Some (goes_to \<sigma> Yielding s) }"
| "exec code (AStart f arg pr detached) \<sigma> = start_thread code f arg pr detached \<sigma>"
| "exec code (AExit c) \<sigma> = do { s \<leftarrow> Exit no_call c (ks \<sigma>); Some (goes_to \<sigma> Dead s) }"
| "exec code (AJoin t) \<sigma> = do { r \<leftarrow> Join t (ks \<sigma>); Some (after_join \<sigma> t r) }"
| "exec code (ALock m) \<sigma> = do { r \<leftarrow> Mutex_Lock m (ks \<sigma>); Some (after_lock \<sigma> m r) }"
| "exec code (AUnlock m) \<sigma> = do {
     s \<leftarrow> Mutex_Unlock m (ks \<sigma>);
     Some (\<sigma>\<lparr>ks := s, held := held \<sigma> - {(cur \<sigma>, m)}\<rparr>) }"
| "exec code (ACondWait c m) \<sigma> = do {
     s \<leftarrow> Cond_Wait c m (ks \<sigma>);
     Some ((goes_to \<sigma> (CondWaiting c m) s)\<lparr>held := held \<sigma> - {(cur \<sigma>, m)}\<rparr>) }"
| "exec code (ASignal c) \<sigma> = do { s \<leftarrow> Cond_Signal c (ks \<sigma>); Some (\<sigma>\<lparr>ks := s\<rparr>) }"
| "exec code (ABroadcast c) \<sigma> = do { s \<leftarrow> Cond_Broadcast c (ks \<sigma>); Some (\<sigma>\<lparr>ks := s\<rparr>) }"
| "exec code (ADevWait d) \<sigma> = do {
     s \<leftarrow> Disable_Interrupts (ks \<sigma>);
     s \<leftarrow> Wait (DevQ d) s;
     Some (goes_to \<sigma> (DevWaiting d) s) }"
| "exec code (ADevice d) \<sigma> = interrupt (Wake_Up (DevQ d)) \<sigma>"
| "exec code ATick \<sigma> = interrupt Timer_Interrupt_Handler \<sigma>"
| "exec code AReap \<sigma> = reap_step \<sigma>"

text \<open>
  What a thread may do: the rules of the interface that the code states in its comments and
  assertions.  A thread that has just been switched in resumes; the idle thread only
  yields; only the owner joins a thread, and once; a thread locks a mutex it does not hold,
  unlocks one it holds, and holds none when it exits.
\<close>

definition can_act :: "cont \<Rightarrow> bool" where
  "can_act c = (case c of Running \<Rightarrow> True | Reaping _ \<Rightarrow> True | _ \<Rightarrow> False)"

fun may :: "action \<Rightarrow> sys \<Rightarrow> bool" where
  "may Resume \<sigma> \<longleftrightarrow> \<not> can_act (pc \<sigma> (cur \<sigma>))"
| "may AYield \<sigma> \<longleftrightarrow> pc \<sigma> (cur \<sigma>) = Running"
| "may (AStart f arg pr detached) \<sigma> \<longleftrightarrow> pc \<sigma> (cur \<sigma>) = Running \<and> cur \<sigma> \<noteq> idle \<sigma>"
| "may (AExit c) \<sigma> \<longleftrightarrow> pc \<sigma> (cur \<sigma>) = Running \<and> cur \<sigma> \<noteq> idle \<sigma> \<and> (\<forall>m. (cur \<sigma>, m) \<notin> held \<sigma>)"
| "may (AJoin t) \<sigma> \<longleftrightarrow> pc \<sigma> (cur \<sigma>) = Running \<and> cur \<sigma> \<noteq> idle \<sigma> \<and> t \<in> refs \<sigma>
     \<and> map_option owner (threads (ks \<sigma>) t) = Some (Some (cur \<sigma>))"
| "may (ALock m) \<sigma> \<longleftrightarrow> pc \<sigma> (cur \<sigma>) = Running \<and> cur \<sigma> \<noteq> idle \<sigma> \<and> (cur \<sigma>, m) \<notin> held \<sigma>"
| "may (AUnlock m) \<sigma> \<longleftrightarrow> pc \<sigma> (cur \<sigma>) = Running \<and> (cur \<sigma>, m) \<in> held \<sigma>"
| "may (ACondWait c m) \<sigma> \<longleftrightarrow> pc \<sigma> (cur \<sigma>) = Running \<and> cur \<sigma> \<noteq> idle \<sigma> \<and> (cur \<sigma>, m) \<in> held \<sigma>"
| "may (ASignal c) \<sigma> \<longleftrightarrow> pc \<sigma> (cur \<sigma>) = Running"
| "may (ABroadcast c) \<sigma> \<longleftrightarrow> pc \<sigma> (cur \<sigma>) = Running"
| "may (ADevWait d) \<sigma> \<longleftrightarrow> pc \<sigma> (cur \<sigma>) = Running \<and> cur \<sigma> \<noteq> idle \<sigma>"
| "may (ADevice d) \<sigma> \<longleftrightarrow> can_act (pc \<sigma> (cur \<sigma>))"
| "may ATick \<sigma> \<longleftrightarrow> can_act (pc \<sigma> (cur \<sigma>))"
| "may AReap \<sigma> \<longleftrightarrow> (\<exists>ts. pc \<sigma> (cur \<sigma>) = Reaping ts)"

end
