(* ===== verification/Invariant.thy ===== *)
theory Invariant
  imports Steps
begin

text \<open>
  The invariant of the transition system of theory \<open>Steps\<close>, in parts: places, life and death
  of threads, mutexes, memory and process identifiers.  The lemmas say how each part moves
  when the current thread blocks, goes on, wakes others, unlocks a mutex or ends, and when a
  thread is created or destroyed; they speak of the components of the state, not of the
  code.
\<close>

section \<open>The invariant\<close>

fun ok_place :: "place \<Rightarrow> cont \<Rightarrow> bool" where
  "ok_place Cur c \<longleftrightarrow> c \<noteq> Dead"
| "ok_place Nowhere c \<longleftrightarrow> c = Dead"
| "ok_place (In RunQ) c \<longleftrightarrow> c \<noteq> Dead \<and> \<not> can_act c"
| "ok_place (In GraveyardQ) c \<longleftrightarrow> c = Dead"
| "ok_place (In ReaperWaitQ) c \<longleftrightarrow> c = ReaperLoop"
| "ok_place (In (JoinQ t)) c \<longleftrightarrow> c = Joining t"
| "ok_place (In (MutexQ m)) c \<longleftrightarrow> c = Locking m"
| "ok_place (In (CondQ q)) c \<longleftrightarrow> (\<exists>m. c = CondWaiting q m)"
| "ok_place (In (DevQ d)) c \<longleftrightarrow> c = DevWaiting d"

fun batch :: "cont \<Rightarrow> tid list" where
  "batch (ReaperYielded ts) = ts"
| "batch (Reaping ts) = ts"
| "batch (PreemptedReaping ts) = ts"
| "batch _ = []"

definition reaper_cont :: "cont \<Rightarrow> bool" where
  "reaper_cont c = (case c of ReaperLoop \<Rightarrow> True | ReaperYielded _ \<Rightarrow> True | Reaping _ \<Rightarrow> True
     | PreemptedReaping _ \<Rightarrow> True | _ \<Rightarrow> False)"

definition idle_cont :: "cont \<Rightarrow> bool" where
  "idle_cont c = (case c of Running \<Rightarrow> True | Launching \<Rightarrow> True | Yielding \<Rightarrow> True
     | Preempted \<Rightarrow> True | _ \<Rightarrow> False)"

text \<open>Every thread object is in the place its continuation belongs to.\<close>

definition places_ok ::
  "(tid \<Rightarrow> kthread option) \<Rightarrow> (tid \<Rightarrow> cont) \<Rightarrow> (tid \<Rightarrow> place) \<Rightarrow> tid \<Rightarrow> tid \<Rightarrow> bool" where
  "places_ok T P pl i r \<longleftrightarrow>
     (\<forall>t. T t = None \<longrightarrow> pl t = Nowhere) \<and> (\<forall>t. T t \<noteq> None \<longrightarrow> ok_place (pl t) (P t))
     \<and> i \<noteq> r \<and> T i \<noteq> None \<and> T r \<noteq> None \<and> (pl i = Cur \<or> pl i = In RunQ) \<and> idle_cont (P i)
     \<and> (\<forall>t. T t \<noteq> None \<and> reaper_cont (P t) \<longrightarrow> t = r) \<and> (reaper_cont (P r) \<or> P r = Launching)"

text \<open>Life and death of threads: references, joins and the reaper.\<close>

definition life_ok ::
  "(tid \<Rightarrow> kthread option) \<Rightarrow> (tid \<Rightarrow> cont) \<Rightarrow> (tid \<Rightarrow> place) \<Rightarrow> tid set \<Rightarrow> tid \<Rightarrow> bool" where
  "life_ok T P pl rs r \<longleftrightarrow>
     (\<forall>t k. T t = Some k \<longrightarrow> alive k = (P t \<noteq> Dead)
        \<and> refCount k = of_bool (P t \<noteq> Dead) + of_bool (t \<in> rs))
     \<and> (\<forall>t \<in> rs. T t \<noteq> None)
     \<and> (\<forall>t u. T t \<noteq> None \<and> P t = Joining u \<longrightarrow> u \<in> rs \<and> map_option owner (T u) = Some (Some t))
     \<and> (\<forall>t u. pl t = In (JoinQ u) \<longrightarrow> P u \<noteq> Dead)
     \<and> (\<forall>t. (T t \<noteq> None \<and> P t = Dead \<and> t \<notin> rs) = (pl t = In GraveyardQ \<or> t \<in> set (batch (P r))))
     \<and> distinct (batch (P r)) \<and> (\<forall>t \<in> set (batch (P r)). pl t = Nowhere)
     \<and> ((\<exists>t. pl t = In GraveyardQ) \<longrightarrow> pl r \<noteq> In ReaperWaitQ)"

text \<open>Mutexes: the holder, and a woken waiter whenever the mutex is free and has waiters.\<close>

definition mutex_ok ::
  "(tid \<Rightarrow> kthread option) \<Rightarrow> (tid \<Rightarrow> cont) \<Rightarrow> (tid \<Rightarrow> place) \<Rightarrow> (nat \<Rightarrow> mutex)
   \<Rightarrow> (tid \<times> nat) set \<Rightarrow> bool" where
  "mutex_ok T P pl mx h \<longleftrightarrow>
     (\<forall>t m. (t, m) \<in> h \<longleftrightarrow> m_locked (mx m) \<and> m_owner (mx m) = Some t)
     \<and> (\<forall>m. m_locked (mx m) \<longrightarrow> m_owner (mx m) \<noteq> None)
     \<and> (\<forall>m t. \<not> m_locked (mx m) \<and> pl t = In (MutexQ m) \<longrightarrow>
          (\<exists>w. T w \<noteq> None \<and> P w = Locking m \<and> (pl w = In RunQ \<or> pl w = Cur)))
     \<and> (\<forall>t m. (t, m) \<in> h \<longrightarrow> T t \<noteq> None \<and> P t \<noteq> Dead)
     \<and> (\<forall>t m c. T t \<noteq> None \<and> (P t = Locking m \<or> P t = CondWaiting c m) \<longrightarrow> (t, m) \<notin> h)"

text \<open>Memory: the pages of thread objects and stacks are allocated and all different.\<close>

definition page_ok :: "phys_mem \<Rightarrow> u32 \<Rightarrow> bool" where
  "page_ok m a \<longleftrightarrow> Is_Page_Multiple a \<and> Page_Index a < unat (s_numPages m)
     \<and> page_flags m (Page_Index a) = PAGE_ALLOCATED"

definition mem_ok :: "phys_mem \<Rightarrow> (tid \<Rightarrow> kthread option) \<Rightarrow> tid list \<Rightarrow> bool" where
  "mem_ok m T ts \<longleftrightarrow> (\<exists>ns. pm_inv m ns)
     \<and> (\<forall>t k. T t = Some k \<longrightarrow> page_ok m t \<and> page_ok m (stackPage k))
     \<and> (\<forall>t k u l. T t = Some k \<and> T u = Some l \<longrightarrow>
          t \<noteq> stackPage l \<and> (stackPage k = stackPage l \<longrightarrow> t = u))
     \<and> distinct ts \<and> (\<forall>t. t \<in> set ts \<longleftrightarrow> T t \<noteq> None)"

definition pids_ok :: "(tid \<Rightarrow> kthread option) \<Rightarrow> int \<Rightarrow> bool" where
  "pids_ok T n \<longleftrightarrow> (\<forall>t k. T t = Some k \<longrightarrow> pid k < n)
     \<and> (\<forall>t k u l. T t = Some k \<and> T u = Some l \<and> pid k = pid l \<longrightarrow> t = u)"

text \<open>
  The parts together; and the invariant between two steps, when interrupts are enabled
  exactly if the current thread is running its own code, and preemption is allowed.
\<close>

definition parts :: "sys \<Rightarrow> (tid \<Rightarrow> place) \<Rightarrow> bool" where
  "parts \<sigma> pl \<longleftrightarrow> (let s = ks \<sigma> in
     q_rep (queues s) pl \<and> s_tlocalDestructors s = (\<lambda>_. 0)
     \<and> places_ok (threads s) (pc \<sigma>) pl (idle \<sigma>) (reaper \<sigma>)
     \<and> life_ok (threads s) (pc \<sigma>) pl (refs \<sigma>) (reaper \<sigma>)
     \<and> mutex_ok (threads s) (pc \<sigma>) pl (mutexes s) (held \<sigma>)
     \<and> mem_ok (kmem s) (threads s) (s_allThreadList s)
     \<and> pids_ok (threads s) (nextFreePid s))"

definition running :: "sys \<Rightarrow> (tid \<Rightarrow> place) \<Rightarrow> bool" where
  "running \<sigma> pl \<longleftrightarrow> parts \<sigma> pl \<and> (\<forall>t. pl t = Cur \<longleftrightarrow> t = cur \<sigma>) \<and> \<not> g_preemptionDisabled (ks \<sigma>)"

definition kinv :: "sys \<Rightarrow> (tid \<Rightarrow> place) \<Rightarrow> bool" where
  "kinv \<sigma> pl \<longleftrightarrow> running \<sigma> pl \<and> ints (ks \<sigma>) = can_act (pc \<sigma> (cur \<sigma>))"

section \<open>How the parts of the invariant move\<close>

lemma ok_place_wake: "ok_place (In q) c \<Longrightarrow> q \<noteq> GraveyardQ \<Longrightarrow> ok_place (In RunQ) c"
  by (cases q) (auto simp: can_act_def split: cont.splits)

lemma places_at: "places_ok T P pl i r \<Longrightarrow> T t \<noteq> None \<Longrightarrow> pl t = p \<Longrightarrow> ok_place p (P t)"
  by (auto simp: places_ok_def)

lemma places_okI:
  assumes "\<And>t. T t = None \<Longrightarrow> pl t = Nowhere" and "\<And>t. T t \<noteq> None \<Longrightarrow> ok_place (pl t) (P t)"
    and "i \<noteq> r" and "T i \<noteq> None" and "T r \<noteq> None" and "pl i = Cur \<or> pl i = In RunQ"
    and "idle_cont (P i)" and "\<And>t. T t \<noteq> None \<Longrightarrow> reaper_cont (P t) \<Longrightarrow> t = r"
    and "reaper_cont (P r) \<or> P r = Launching"
  shows "places_ok T P pl i r"
  unfolding places_ok_def using assms by (intro conjI) blast+

lemma places_okD:
  assumes "places_ok T P pl i r"
  shows "T t = None \<Longrightarrow> pl t = Nowhere" and "T t \<noteq> None \<Longrightarrow> ok_place (pl t) (P t)"
    and "i \<noteq> r" and "T i \<noteq> None" and "T r \<noteq> None" and "pl i = Cur \<or> pl i = In RunQ"
    and "idle_cont (P i)" and "T t \<noteq> None \<Longrightarrow> reaper_cont (P t) \<Longrightarrow> t = r"
    and "reaper_cont (P r) \<or> P r = Launching"
  using assms unfolding places_ok_def by blast+

lemma places_woken:
  "places_ok T P pl i r \<Longrightarrow> T t \<noteq> None \<Longrightarrow> pl t = In q \<Longrightarrow> q \<noteq> GraveyardQ \<Longrightarrow> ok_place (In RunQ) (P t)"
  by (rule ok_place_wake [of q]) (auto simp: places_ok_def simp del: ok_place.simps)

lemma ok_place_Cur: "ok_place (In RunQ) c \<Longrightarrow> ok_place Cur c"
  by simp

subsection \<open>Introduction rules and facts\<close>

lemma life_okI:
  assumes "\<And>t k. T t = Some k \<Longrightarrow> alive k = (P t \<noteq> Dead)"
    and "\<And>t k. T t = Some k \<Longrightarrow> refCount k = of_bool (P t \<noteq> Dead) + of_bool (t \<in> rs)"
    and "\<And>t. t \<in> rs \<Longrightarrow> T t \<noteq> None"
    and "\<And>t u. T t \<noteq> None \<Longrightarrow> P t = Joining u \<Longrightarrow> u \<in> rs \<and> map_option owner (T u) = Some (Some t)"
    and "\<And>t u. pl t = In (JoinQ u) \<Longrightarrow> P u \<noteq> Dead"
    and "\<And>t. (T t \<noteq> None \<and> P t = Dead \<and> t \<notin> rs) = (pl t = In GraveyardQ \<or> t \<in> set (batch (P r)))"
    and "distinct (batch (P r))" and "\<And>t. t \<in> set (batch (P r)) \<Longrightarrow> pl t = Nowhere"
    and "\<And>t. pl t = In GraveyardQ \<Longrightarrow> pl r \<noteq> In ReaperWaitQ"
  shows "life_ok T P pl rs r"
  unfolding life_ok_def using assms by (intro conjI) blast+

lemma life_okD:
  assumes "life_ok T P pl rs r"
  shows "T t = Some k \<Longrightarrow> alive k = (P t \<noteq> Dead)"
    and "T t = Some k \<Longrightarrow> refCount k = of_bool (P t \<noteq> Dead) + of_bool (t \<in> rs)"
    and "t \<in> rs \<Longrightarrow> T t \<noteq> None"
    and "T t \<noteq> None \<Longrightarrow> P t = Joining u \<Longrightarrow> u \<in> rs \<and> map_option owner (T u) = Some (Some t)"
    and "pl t = In (JoinQ u) \<Longrightarrow> P u \<noteq> Dead"
    and "(T t \<noteq> None \<and> P t = Dead \<and> t \<notin> rs) = (pl t = In GraveyardQ \<or> t \<in> set (batch (P r)))"
    and "distinct (batch (P r))" and "t \<in> set (batch (P r)) \<Longrightarrow> pl t = Nowhere"
    and "pl t = In GraveyardQ \<Longrightarrow> pl r \<noteq> In ReaperWaitQ"
  using assms unfolding life_ok_def by blast+

lemma mutex_okI:
  assumes "\<And>t m. (t, m) \<in> h \<longleftrightarrow> m_locked (mx m) \<and> m_owner (mx m) = Some t"
    and "\<And>m. m_locked (mx m) \<Longrightarrow> m_owner (mx m) \<noteq> None"
    and "\<And>m t. \<not> m_locked (mx m) \<Longrightarrow> pl t = In (MutexQ m) \<Longrightarrow>
          \<exists>w. T w \<noteq> None \<and> P w = Locking m \<and> (pl w = In RunQ \<or> pl w = Cur)"
    and "\<And>t m. (t, m) \<in> h \<Longrightarrow> T t \<noteq> None \<and> P t \<noteq> Dead"
    and "\<And>t m c. T t \<noteq> None \<Longrightarrow> P t = Locking m \<or> P t = CondWaiting c m \<Longrightarrow> (t, m) \<notin> h"
  shows "mutex_ok T P pl mx h"
  unfolding mutex_ok_def using assms by (intro conjI) blast+

lemma mutex_okD:
  assumes "mutex_ok T P pl mx h"
  shows "(t, m) \<in> h \<longleftrightarrow> m_locked (mx m) \<and> m_owner (mx m) = Some t"
    and "m_locked (mx m) \<Longrightarrow> m_owner (mx m) \<noteq> None"
    and "\<not> m_locked (mx m) \<Longrightarrow> pl t = In (MutexQ m) \<Longrightarrow>
          \<exists>w. T w \<noteq> None \<and> P w = Locking m \<and> (pl w = In RunQ \<or> pl w = Cur)"
    and "(t, m) \<in> h \<Longrightarrow> T t \<noteq> None \<and> P t \<noteq> Dead"
    and "T t \<noteq> None \<Longrightarrow> P t = Locking m \<or> P t = CondWaiting c m \<Longrightarrow> (t, m) \<notin> h"
  using assms unfolding mutex_ok_def by blast+

lemma mutex_ok_mono:
  assumes ok: "mutex_ok T P pl mx h"
    and "\<And>t m. \<not> m_locked (mx m) \<Longrightarrow> pl' t = In (MutexQ m) \<Longrightarrow> pl t = In (MutexQ m)"
    and "\<And>w m. \<not> m_locked (mx m) \<Longrightarrow> T w \<noteq> None \<Longrightarrow> P w = Locking m \<Longrightarrow> pl w = In RunQ \<or> pl w = Cur
      \<Longrightarrow> T' w \<noteq> None \<and> P' w = Locking m \<and> (pl' w = In RunQ \<or> pl' w = Cur)"
    and "\<And>t m. (t, m) \<in> h \<Longrightarrow> T t \<noteq> None \<Longrightarrow> P t \<noteq> Dead \<Longrightarrow> T' t \<noteq> None \<and> P' t \<noteq> Dead"
    and "\<And>t m c. T' t \<noteq> None \<Longrightarrow> P' t = Locking m \<or> P' t = CondWaiting c m \<Longrightarrow> (t, m) \<notin> h"
  shows "mutex_ok T' P' pl' mx h"
proof (rule mutex_okI)
  show "\<exists>w. T' w \<noteq> None \<and> P' w = Locking m \<and> (pl' w = In RunQ \<or> pl' w = Cur)"
    if "\<not> m_locked (mx m)" "pl' t = In (MutexQ m)" for m t
    using mutex_okD(3) [OF ok that(1) assms(2) [OF that]] assms(3) [OF that(1)] by blast
  show "T' t \<noteq> None \<and> P' t \<noteq> Dead" if "(t, m) \<in> h" for t m
    using mutex_okD(4) [OF ok that] assms(4) [OF that] by blast
qed (use mutex_okD(1,2) [OF ok] assms(5) in blast)+

subsection \<open>The current thread leaves the processor\<close>

lemma places_leave:
  assumes ok: "places_ok T P pl i r" and c: "T c \<noteq> None" and k: "ok_place (In q) k" "q \<noteq> GraveyardQ"
    and i: "c = i \<longrightarrow> q = RunQ \<and> idle_cont k" and r: "reaper_cont k \<longleftrightarrow> c = r"
  shows "places_ok T (P(c := k)) (pl(c := In q)) i r"
proof (rule places_okI)
  note D = places_okD [OF ok]
  show "ok_place ((pl(c := In q)) t) ((P(c := k)) t)" if "T t \<noteq> None" for t using D(2) [OF that] k(1) by simp
  show "(pl(c := In q)) t = Nowhere" if "T t = None" for t using D(1) [OF that] c that by auto
qed (use places_okD(3-9) [OF ok] i r in \<open>auto split: if_splits\<close>)

lemma life_leave:
  assumes ok: "life_ok T P pl rs r" and c: "pl c = Cur" "P c \<noteq> Dead" "k \<noteq> Dead"
    and bt: "c = r \<longrightarrow> batch k = batch (P c)"
    and j: "\<forall>u. k = Joining u \<longrightarrow> u \<in> rs \<and> map_option owner (T u) = Some (Some c)"
    and jq: "\<forall>u. q = JoinQ u \<longrightarrow> P u \<noteq> Dead" and q: "q \<noteq> GraveyardQ"
    and rw: "q = ReaperWaitQ \<longrightarrow> (\<forall>t. pl t \<noteq> In GraveyardQ)"
  shows "life_ok T (P(c := k)) (pl(c := In q)) rs r"
proof -
  let ?P = "P(c := k)" let ?pl = "pl(c := In q)"
  have br: "batch (?P r) = batch (P r)" using bt by auto
  have dead: "?P t = Dead \<longleftrightarrow> P t = Dead" for t using c by auto
  have same: "?pl t = p \<longleftrightarrow> pl t = p" if "p = In GraveyardQ \<or> p = Nowhere" for t p
    using that c q by auto
  note D = life_okD [OF ok]
  show ?thesis
  proof (rule life_okI, unfold br dead)
    show "u \<in> rs \<and> map_option owner (T u) = Some (Some t)" if "T t \<noteq> None" "?P t = Joining u" for t u
      using that D(4) j by (auto split: if_splits)
    show "P u \<noteq> Dead" if "?pl t = In (JoinQ u)" for t u
      using that D(5) jq by (auto split: if_splits)
    show "(T t \<noteq> None \<and> P t = Dead \<and> t \<notin> rs) = (?pl t = In GraveyardQ \<or> t \<in> set (batch (P r)))" for t
      using D(6) same by auto
    show "?pl t = Nowhere" if "t \<in> set (batch (P r))" for t using that D(8) same by blast
    show "?pl r \<noteq> In ReaperWaitQ" if "?pl t = In GraveyardQ" for t
      using that same [of "In GraveyardQ" t] D(9) rw by (auto split: if_splits)
  qed (use D in auto)
qed

lemma mutex_leave:
  assumes "mutex_ok T P pl mx h" and "pl c = Cur" and "P c \<noteq> Dead" and "k \<noteq> Dead"
    and "\<forall>m. P c = Locking m \<longrightarrow> m_locked (mx m)" and "\<forall>m. q = MutexQ m \<longrightarrow> m_locked (mx m)"
    and "\<forall>m d. k = Locking m \<or> k = CondWaiting d m \<longrightarrow> (c, m) \<notin> h"
  shows "mutex_ok T (P(c := k)) (pl(c := In q)) mx h"
proof (rule mutex_ok_mono [OF assms(1)])
  show "(t, m) \<notin> h" if "T t \<noteq> None" "(P(c := k)) t = Locking m \<or> (P(c := k)) t = CondWaiting d m" for t m d
    using mutex_okD(5) [OF assms(1)] assms(7) that by (auto split: if_splits)
qed (use assms(2-6) in \<open>auto split: if_splits\<close>)

subsection \<open>The current thread goes on\<close>

lemma places_cont:
  assumes "places_ok T P pl i r" and "pl c = Cur" and "k \<noteq> Dead"
    and "c = i \<longrightarrow> idle_cont k" and "reaper_cont k \<longleftrightarrow> c = r"
  shows "places_ok T (P(c := k)) pl i r"
proof -
  have "ok_place (pl t) ((P(c := k)) t)" if "T t \<noteq> None" for t
    using assms(1,2,3) that by (auto simp: places_ok_def)
  with assms show ?thesis by (auto simp: places_ok_def)
qed

lemma life_cont:
  assumes "life_ok T P pl rs r" and "pl c = Cur" and "P c \<noteq> Dead" and "k \<noteq> Dead"
    and "c = r \<longrightarrow> batch k = batch (P c)" and "\<forall>u. k \<noteq> Joining u"
  shows "life_ok T (P(c := k)) pl rs r"
proof -
  have b: "batch ((P(c := k)) r) = batch (P r)" using assms(5) by auto
  show ?thesis unfolding life_ok_def b using assms by (auto simp: life_ok_def split: if_splits)
qed

lemma mutex_cont:
  assumes "mutex_ok T P pl mx h" and "pl c = Cur" and "P c \<noteq> Dead" and "k \<noteq> Dead"
    and "\<forall>m. P c = Locking m \<longrightarrow> m_locked (mx m)" and "\<forall>m d. k \<noteq> Locking m \<and> k \<noteq> CondWaiting d m"
  shows "mutex_ok T (P(c := k)) pl mx h"
proof (rule mutex_ok_mono [OF assms(1)])
  show "(t, m) \<notin> h" if "T t \<noteq> None" "(P(c := k)) t = Locking m \<or> (P(c := k)) t = CondWaiting d m" for t m d
    using mutex_okD(5) [OF assms(1)] assms(6) that by (auto split: if_splits)
qed (use assms(2-5) in \<open>auto split: if_splits\<close>)

subsection \<open>Waking threads\<close>

lemma places_wake:
  assumes "places_ok T P pl i r" and "q \<noteq> GraveyardQ"
  shows "places_ok T P (wake_place q pl) i r"
proof -
  have "ok_place (wake_place q pl t) (P t)" if "T t \<noteq> None" for t
    using assms that ok_place_wake [OF _ assms(2)] by (metis places_ok_def wake_place_def)
  with assms show ?thesis by (auto simp: places_ok_def wake_place_def)
qed

lemma life_ok_places:
  assumes ok: "life_ok T P pl rs r" and "\<And>t u. pl' t = In (JoinQ u) \<Longrightarrow> P u \<noteq> Dead"
    and g: "\<And>t. pl' t = In GraveyardQ \<longleftrightarrow> pl t = In GraveyardQ"
    and "\<And>t. pl t = Nowhere \<Longrightarrow> pl' t = Nowhere" and "pl' r = In ReaperWaitQ \<Longrightarrow> pl r = In ReaperWaitQ"
  shows "life_ok T P pl' rs r"
proof (rule life_okI)
  show "(T t \<noteq> None \<and> P t = Dead \<and> t \<notin> rs) = (pl' t = In GraveyardQ \<or> t \<in> set (batch (P r)))" for t
    using life_okD(6) [OF ok] g by simp
  show "pl' r \<noteq> In ReaperWaitQ" if "pl' t = In GraveyardQ" for t
    using that g life_okD(9) [OF ok] assms(5) by blast
qed (use life_okD(1-4,7,8) [OF ok] assms(2,4) in \<open>simp_all\<close>)

lemma life_wake:
  assumes "life_ok T P pl rs r" and "q \<noteq> GraveyardQ" shows "life_ok T P (wake_place q pl) rs r"
  by (rule life_ok_places [OF assms(1)])
    (use assms life_okD(5) [OF assms(1)] in \<open>auto simp: wake_place_def split: if_splits\<close>)

lemma mutex_wake:
  assumes "mutex_ok T P pl mx h" shows "mutex_ok T P (wake_place q pl) mx h"
  by (rule mutex_ok_mono [OF assms])
    (use mutex_okD(5) [OF assms] in \<open>auto simp: wake_place_def split: if_splits\<close>)

lemma places_wake_one:
  assumes "places_ok T P pl i r" and "q \<noteq> GraveyardQ" and "pl b = In q"
  shows "places_ok T P (pl(b := In RunQ)) i r"
proof -
  have "ok_place ((pl(b := In RunQ)) t) (P t)" if "T t \<noteq> None" for t
    using assms that ok_place_wake [OF _ assms(2), of "P b"] by (auto simp: places_ok_def)
  with assms show ?thesis by (auto simp: places_ok_def)
qed

lemma life_wake_one:
  assumes "life_ok T P pl rs r" and "q \<noteq> GraveyardQ" and "pl b = In q"
  shows "life_ok T P (pl(b := In RunQ)) rs r"
  by (rule life_ok_places [OF assms(1)])
    (use assms life_okD(5) [OF assms(1)] in \<open>auto split: if_splits\<close>)

lemma mutex_wake_one:
  assumes "mutex_ok T P pl mx h" and "pl b = In q"
  shows "mutex_ok T P (pl(b := In RunQ)) mx h"
  by (rule mutex_ok_mono [OF assms(1)]) (use mutex_okD(5) [OF assms(1)] assms(2) in \<open>auto split: if_splits\<close>)

subsection \<open>A runnable thread is switched in\<close>

lemma places_schedule:
  assumes "places_ok T P pl i r" and "pl b = In RunQ" shows "places_ok T P (pl(b := Cur)) i r"
proof -
  have "ok_place ((pl(b := Cur)) t) (P t)" if "T t \<noteq> None" for t
    using assms that by (auto simp: places_ok_def)
  with assms show ?thesis by (auto simp: places_ok_def)
qed

lemma life_schedule:
  assumes "life_ok T P pl rs r" and "pl b = In RunQ" shows "life_ok T P (pl(b := Cur)) rs r"
  by (rule life_ok_places [OF assms(1)])
    (use assms life_okD(5) [OF assms(1)] in \<open>auto split: if_splits\<close>)

lemma mutex_schedule:
  assumes "mutex_ok T P pl mx h" and "pl b = In RunQ" shows "mutex_ok T P (pl(b := Cur)) mx h"
  by (rule mutex_ok_mono [OF assms(1)])
    (use mutex_okD(5) [OF assms(1)] assms(2) in \<open>auto split: if_splits\<close>)

subsection \<open>Locking and unlocking\<close>

lemma mutex_lock:
  assumes ok: "mutex_ok T P pl mx h" and un: "\<not> m_locked (mx m)" and c: "T c \<noteq> None"
    and l: "\<forall>n. P c = Locking n \<longrightarrow> n = m"
  shows "mutex_ok T (P(c := Running)) pl (mx(m := \<lparr>m_locked = True, m_owner = Some c\<rparr>)) (insert (c, m) h)"
proof (rule mutex_okI)
  let ?mx = "mx(m := \<lparr>m_locked = True, m_owner = Some c\<rparr>)" and ?P = "P(c := Running)"
  note D = mutex_okD [OF ok]
  show "((t, n) \<in> insert (c, m) h) = (m_locked (?mx n) \<and> m_owner (?mx n) = Some t)" for t n
    using D(1) [of t n] un by auto
  show "m_owner (?mx n) \<noteq> None" if "m_locked (?mx n)" for n using that D(2) by (auto split: if_splits)
  show "\<exists>w. T w \<noteq> None \<and> ?P w = Locking n \<and> (pl w = In RunQ \<or> pl w = Cur)"
    if "\<not> m_locked (?mx n)" "pl t = In (MutexQ n)" for n t
  proof -
    from that have n: "n \<noteq> m" "\<not> m_locked (mx n)" by (auto split: if_splits)
    from D(3) [OF n(2) that(2)]
    obtain w where w: "T w \<noteq> None" "P w = Locking n" "pl w = In RunQ \<or> pl w = Cur" by blast
    with n l have "w \<noteq> c" by auto
    with w show ?thesis by (intro exI [of _ w]) auto
  qed
  show "T t \<noteq> None \<and> ?P t \<noteq> Dead" if "(t, n) \<in> insert (c, m) h" for t n
    using that D(4) [of t n] c by auto
  show "(t, n) \<notin> insert (c, m) h" if "T t \<noteq> None" "?P t = Locking n \<or> ?P t = CondWaiting d n" for t n d
    using that D(5) [of t n d] by (auto split: if_splits)
qed

text \<open>The holder gives the mutex up: nobody waits for it, or one waiter is made runnable.\<close>

lemma mutex_unlock_free:
  assumes ok: "mutex_ok T P pl mx h" and h: "(c, m) \<in> h" and c: "P c = Running"
    and no: "\<forall>t. pl' t = In (MutexQ m) \<longrightarrow> (\<exists>w. T w \<noteq> None \<and> P w = Locking m \<and> pl' w = In RunQ)"
    and same: "\<And>t n. n \<noteq> m \<Longrightarrow> pl' t = In (MutexQ n) \<Longrightarrow> pl t = In (MutexQ n)"
    and run: "\<And>t. pl t = In RunQ \<or> pl t = Cur \<Longrightarrow> pl' t = In RunQ \<or> pl' t = Cur"
  shows "mutex_ok T P pl' (mx(m := \<lparr>m_locked = False, m_owner = None\<rparr>)) (h - {(c, m)})"
proof (rule mutex_okI)
  let ?mx = "mx(m := \<lparr>m_locked = False, m_owner = None\<rparr>)"
  note D = mutex_okD [OF ok]
  have only: "(t, m) \<in> h \<longleftrightarrow> t = c" for t using D(1) [of t m] D(1) [of c m] h by auto
  show "((t, n) \<in> h - {(c, m)}) = (m_locked (?mx n) \<and> m_owner (?mx n) = Some t)" for t n
    using D(1) [of t n] only by (cases "n = m") auto
  show "m_owner (?mx n) \<noteq> None" if "m_locked (?mx n)" for n using that D(2) by (auto split: if_splits)
  show "\<exists>w. T w \<noteq> None \<and> P w = Locking n \<and> (pl' w = In RunQ \<or> pl' w = Cur)"
    if "\<not> m_locked (?mx n)" "pl' t = In (MutexQ n)" for n t
  proof (cases "n = m")
    case True
    with no that(2) show ?thesis by blast
  next
    case False
    with that have "\<not> m_locked (mx n)" "pl t = In (MutexQ n)" using same by auto
    from D(3) [OF this] run show ?thesis by blast
  qed
  show "T t \<noteq> None \<and> P t \<noteq> Dead" if "(t, n) \<in> h - {(c, m)}" for t n using that D(4) by blast
  show "(t, n) \<notin> h - {(c, m)}" if "T t \<noteq> None" "P t = Locking n \<or> P t = CondWaiting d n" for t n d
    using that D(5) by blast
qed

subsection \<open>Threads end\<close>

text \<open>The places after the last reference to a dead thread \<open>u\<close> is gone.\<close>

definition bury_place :: "tid \<Rightarrow> (tid \<Rightarrow> place) \<Rightarrow> tid \<Rightarrow> place" where
  "bury_place u pl = wake_place ReaperWaitQ (pl(u := In GraveyardQ))"

lemma bury_place_grave: "bury_place u pl t = In GraveyardQ \<longleftrightarrow> t = u \<or> pl t = In GraveyardQ"
  by (auto simp: bury_place_def wake_place_def)

lemma bury_place_other: "t \<noteq> u \<Longrightarrow> pl t \<noteq> In ReaperWaitQ \<Longrightarrow> bury_place u pl t = pl t"
  by (simp add: bury_place_def wake_place_def)

lemma bury_place_cases:
  "bury_place u pl t = (if t = u then In GraveyardQ else if pl t = In ReaperWaitQ then In RunQ else pl t)"
  by (simp add: bury_place_def wake_place_def)

lemma places_bury:
  assumes "places_ok T P pl i r" and "P u = Dead" and "T u \<noteq> None" and "pl u = Cur \<or> pl u = Nowhere"
  shows "places_ok T P (bury_place u pl) i r"
proof -
  have "ok_place (bury_place u pl t) (P t)" if "T t \<noteq> None" for t
    using places_at [OF assms(1) that refl] places_woken [OF assms(1) that, of ReaperWaitQ] assms(2)
    by (auto simp: bury_place_cases)
  moreover have "u \<noteq> i" using assms(1,2) by (auto simp: places_ok_def idle_cont_def)
  ultimately show ?thesis using assms by (auto simp: places_ok_def bury_place_cases)
qed

lemma life_bury:
  assumes ok: "life_ok T P pl (insert u rs) r" and u: "u \<notin> rs" "T u = Some k" "P u = Dead" "pl u = Nowhere"
    and nj: "\<forall>t. T t \<noteq> None \<longrightarrow> P t \<noteq> Joining u" and r: "P r \<noteq> Dead"
  shows "life_ok (T(u \<mapsto> k\<lparr>refCount := refCount k - 1\<rparr>)) P (bury_place u pl) rs r"
proof (rule life_okI)
  let ?T = "T(u \<mapsto> k\<lparr>refCount := refCount k - 1\<rparr>)"
  note D = life_okD [OF ok]
  have dom: "?T t \<noteq> None \<longleftrightarrow> T t \<noteq> None" for t using u by auto
  have ow: "map_option owner (?T t) = map_option owner (T t)" for t using u by auto
  show "alive l = (P t \<noteq> Dead)" if "?T t = Some l" for t l
    using that D(1) u by (auto split: if_splits)
  show "refCount l = of_bool (P t \<noteq> Dead) + of_bool (t \<in> rs)" if "?T t = Some l" for t l
    using that D(2) u by (auto split: if_splits)
  show "?T t \<noteq> None" if "t \<in> rs" for t using D(3) [of t] that dom by blast
  show "v \<in> rs \<and> map_option owner (?T v) = Some (Some t)" if "?T t \<noteq> None" "P t = Joining v" for t v
    using D(4) [of t v] that nj unfolding dom ow by auto
  show "P v \<noteq> Dead" if "bury_place u pl t = In (JoinQ v)" for t v
    using D(5) [of t v] that by (auto simp: bury_place_cases split: if_splits)
  show "(?T t \<noteq> None \<and> P t = Dead \<and> t \<notin> rs) = (bury_place u pl t = In GraveyardQ \<or> t \<in> set (batch (P r)))" for t
    using D(6) [of t] u unfolding dom bury_place_grave by auto
  show "bury_place u pl t = Nowhere" if "t \<in> set (batch (P r))" for t
    using D(6) [of t] D(8) [OF that] that u by (auto simp: bury_place_cases)
  show "bury_place u pl r \<noteq> In ReaperWaitQ" by (simp add: bury_place_cases)
qed (rule life_okD(7) [OF ok])

lemma mutex_bury:
  assumes ok: "mutex_ok T P pl mx h" and u: "T u = Some k" "P u = Dead"
  shows "mutex_ok (T(u \<mapsto> l)) P (bury_place u pl) mx h"
  by (rule mutex_ok_mono [OF ok])
    (use mutex_okD(5) [OF ok] u in \<open>auto simp: bury_place_cases split: if_splits\<close>)

text \<open>The current thread dies: its joiners wake up, and it is nowhere.\<close>

definition die_place :: "tid \<Rightarrow> (tid \<Rightarrow> place) \<Rightarrow> tid \<Rightarrow> place" where
  "die_place c pl = (wake_place (JoinQ c) pl)(c := Nowhere)"

lemma die_place_cases:
  "die_place c pl t = (if t = c then Nowhere else if pl t = In (JoinQ c) then In RunQ else pl t)"
  by (simp add: die_place_def wake_place_def)

lemma places_die:
  assumes ok: "places_ok T P pl i r" and c: "P c = Running" "c \<noteq> i" "T c = Some k"
  shows "places_ok (T(c \<mapsto> l)) (P(c := Dead)) (die_place c pl) i r"
proof (rule places_okI)
  note D = places_okD [OF ok]
  have r: "c \<noteq> r" using D(9) c by (auto simp: reaper_cont_def)
  have dom: "(T(c \<mapsto> l)) t \<noteq> None \<longleftrightarrow> T t \<noteq> None" for t using c by auto
  show "ok_place (die_place c pl t) ((P(c := Dead)) t)" if "(T(c \<mapsto> l)) t \<noteq> None" for t
    using D(2) [of t] places_woken [OF ok, of t "JoinQ c"] that[unfolded dom]
    by (auto simp: die_place_cases)
  show "die_place c pl t = Nowhere" if "(T(c \<mapsto> l)) t = None" for t
    using that D(1) [of t] by (auto simp: die_place_cases split: if_splits)
  show "t = r" if "(T(c \<mapsto> l)) t \<noteq> None" "reaper_cont ((P(c := Dead)) t)" for t
    using that(2) D(8) [OF that(1)[unfolded dom]] by (auto simp: reaper_cont_def split: if_splits)
qed (use places_okD(3-7,9) [OF ok] c in \<open>auto simp: die_place_cases reaper_cont_def\<close>)

lemma life_die:
  assumes ok: "life_ok T P pl rs r" and c: "T c = Some k" "P c = Running" "pl c = Cur" "c \<noteq> r"
  shows "life_ok (T(c \<mapsto> k\<lparr>exitCode := x, alive := False,
      refCount := 1\<rparr>)) (P(c := Dead)) (die_place c pl) (insert c rs) r"
proof (rule life_okI)
  let ?T = "T(c \<mapsto> k\<lparr>exitCode := x, alive := False, refCount := 1\<rparr>)" and ?P = "P(c := Dead)"
  note D = life_okD [OF ok]
  have dom: "?T t \<noteq> None \<longleftrightarrow> T t \<noteq> None" for t using c by auto
  have ow: "map_option owner (?T t) = map_option owner (T t)" for t using c by auto
  have br: "batch (?P r) = batch (P r)" using c by auto
  show "alive l = (?P t \<noteq> Dead)" if "?T t = Some l" for t l using that D(1) by (auto split: if_splits)
  show "refCount l = of_bool (?P t \<noteq> Dead) + of_bool (t \<in> insert c rs)" if "?T t = Some l" for t l
    using that D(2) by (auto split: if_splits)
  show "?T t \<noteq> None" if "t \<in> insert c rs" for t using D(3) [of t] that c by auto
  show "v \<in> insert c rs \<and> map_option owner (?T v) = Some (Some t)" if "?T t \<noteq> None" "?P t = Joining v" for t v
    using D(4) [of t v] that unfolding dom ow by (auto split: if_splits)
  show "?P v \<noteq> Dead" if "die_place c pl t = In (JoinQ v)" for t v
    using D(5) [of t v] that by (auto simp: die_place_cases split: if_splits)
  show "(?T t \<noteq> None \<and> ?P t = Dead \<and> t \<notin> insert c rs)
      = (die_place c pl t = In GraveyardQ \<or> t \<in> set (batch (?P r)))" for t
    using D(6) [of t] D(6) [of c] c(2) unfolding dom br by (auto simp: die_place_cases)
  show "die_place c pl t = Nowhere" if "t \<in> set (batch (?P r))" for t
    using D(8) that unfolding br by (auto simp: die_place_cases)
  show "die_place c pl r \<noteq> In ReaperWaitQ" if "die_place c pl t = In GraveyardQ" for t
    using D(9) that by (auto simp: die_place_cases split: if_splits)
  show "distinct (batch (?P r))" unfolding br by (rule D(7))
qed

lemma mutex_die:
  assumes ok: "mutex_ok T P pl mx h" and c: "T c = Some k" "P c = Running" "\<forall>m. (c, m) \<notin> h"
  shows "mutex_ok (T(c \<mapsto> l)) (P(c := Dead)) (die_place c pl) mx h"
proof (rule mutex_ok_mono [OF ok])
  show "(t, m) \<notin> h" if "(T(c \<mapsto> l)) t \<noteq> None" "(P(c := Dead)) t = Locking m \<or> (P(c := Dead)) t = CondWaiting d m"
    for t m d using that mutex_okD(5) [OF ok] by (auto split: if_splits)
qed (use c in \<open>auto simp: die_place_cases split: if_splits\<close>)

subsection \<open>The reaper\<close>

text \<open>The reaper takes over the threads of the graveyard.\<close>

definition take_place :: "(tid \<Rightarrow> place) \<Rightarrow> tid \<Rightarrow> place" where
  "take_place pl t = (if pl t = In GraveyardQ then Nowhere else pl t)"

lemma places_take:
  assumes ok: "places_ok T P pl i r" and r: "pl r = Cur"
  shows "places_ok T (P(r := ReaperYielded ts)) (take_place pl) i r"
proof (rule places_okI)
  note D = places_okD [OF ok]
  show "ok_place (take_place pl t) ((P(r := ReaperYielded ts)) t)" if "T t \<noteq> None" for t
    using D(2) [OF that] r by (auto simp: take_place_def)
qed (use places_okD [OF ok] in \<open>auto simp: take_place_def reaper_cont_def split: if_splits\<close>)

lemma life_take:
  assumes ok: "life_ok T P pl rs r" and r: "P r \<noteq> Dead" "batch (P r) = []" "pl r = Cur"
    and ts: "distinct ts" "\<And>t. t \<in> set ts \<longleftrightarrow> pl t = In GraveyardQ"
  shows "life_ok T (P(r := ReaperYielded ts)) (take_place pl) rs r"
proof (rule life_okI)
  let ?P = "P(r := ReaperYielded ts)"
  note D = life_okD [OF ok]
  have dead: "?P t = Dead \<longleftrightarrow> P t = Dead" for t using r by auto
  show "alive l = (?P t \<noteq> Dead)" if "T t = Some l" for t l unfolding dead by (rule D(1) [OF that])
  show "refCount l = of_bool (?P t \<noteq> Dead) + of_bool (t \<in> rs)" if "T t = Some l" for t l
    unfolding dead by (rule D(2) [OF that])
  show "v \<in> rs \<and> map_option owner (T v) = Some (Some t)" if "T t \<noteq> None" "?P t = Joining v" for t v
    using D(4) [of t v] that by (auto split: if_splits)
  show "?P v \<noteq> Dead" if "take_place pl t = In (JoinQ v)" for t v
    unfolding dead using D(5) [of t v] that by (auto simp: take_place_def split: if_splits)
  show "(T t \<noteq> None \<and> ?P t = Dead \<and> t \<notin> rs) = (take_place pl t = In GraveyardQ \<or> t \<in> set (batch (?P r)))" for t
    unfolding dead using D(6) [of t] r(2) ts(2) [of t] by (auto simp: take_place_def)
  show "take_place pl t = Nowhere" if "t \<in> set (batch (?P r))" for t
    using that ts(2) by (auto simp: take_place_def)
  show "take_place pl r \<noteq> In ReaperWaitQ" using r(3) by (simp add: take_place_def)
  show "distinct (batch (?P r))" using ts(1) by simp
qed (rule life_okD(3) [OF ok])

lemma mutex_take:
  assumes ok: "mutex_ok T P pl mx h" and r: "\<forall>m. P r \<noteq> Locking m"
  shows "mutex_ok T (P(r := ReaperYielded ts)) (take_place pl) mx h"
proof (rule mutex_ok_mono [OF ok])
  show "(t, m) \<notin> h" if "T t \<noteq> None" "(P(r := ReaperYielded ts)) t = Locking m
      \<or> (P(r := ReaperYielded ts)) t = CondWaiting d m" for t m d
    using mutex_okD(5) [OF ok] that by (auto split: if_splits)
qed (use r in \<open>auto simp: take_place_def split: if_splits\<close>)

text \<open>The reaper destroys the first thread of its batch.\<close>

lemma places_destroy:
  assumes ok: "places_ok T P pl i r" and u: "P u = Dead" "pl u = Nowhere" and r: "pl r = Cur"
  shows "places_ok (T(u := None)) (P(r := Reaping ts)) pl i r"
proof (rule places_okI)
  note D = places_okD [OF ok]
  show "ok_place (pl t) ((P(r := Reaping ts)) t)" if "(T(u := None)) t \<noteq> None" for t
    using D(2) [of t] that r by (auto split: if_splits)
  show "(T(u := None)) i \<noteq> None" "(T(u := None)) r \<noteq> None" using D(4,5,6) u r by auto
qed (use places_okD [OF ok] u in \<open>auto simp: reaper_cont_def split: if_splits\<close>)

lemma life_destroy:
  assumes ok: "life_ok T P pl rs r" and r: "batch (P r) = u # ts" "P r \<noteq> Dead" "pl r = Cur"
    and o: "\<forall>t. P t \<noteq> Dead \<longrightarrow> t \<noteq> u"
  shows "life_ok (T(u := None)) (P(r := Reaping ts)) pl rs r"
proof (rule life_okI)
  let ?P = "P(r := Reaping ts)" and ?T = "T(u := None)"
  note D = life_okD [OF ok]
  have dead: "?P t = Dead \<longleftrightarrow> P t = Dead" for t using r by auto
  have u: "P u = Dead" "u \<notin> rs" "pl u = Nowhere" "u \<notin> set ts"
    using D(6) [of u] D(8) [of u] D(7) unfolding r(1) by auto
  show "alive l = (?P t \<noteq> Dead)" if "?T t = Some l" for t l
    unfolding dead using that D(1) by (auto split: if_splits)
  show "refCount l = of_bool (?P t \<noteq> Dead) + of_bool (t \<in> rs)" if "?T t = Some l" for t l
    unfolding dead using that D(2) by (auto split: if_splits)
  show "?T t \<noteq> None" if "t \<in> rs" for t using D(3) [OF that] that u by auto
  show "v \<in> rs \<and> map_option owner (?T v) = Some (Some t)" if "?T t \<noteq> None" "?P t = Joining v" for t v
    using D(4) [of t v] that u by (auto split: if_splits)
  show "?P v \<noteq> Dead" if "pl t = In (JoinQ v)" for t v unfolding dead by (rule D(5) [OF that])
  show "(?T t \<noteq> None \<and> ?P t = Dead \<and> t \<notin> rs) = (pl t = In GraveyardQ \<or> t \<in> set (batch (?P r)))" for t
    using D(6) [of t] D(6) [of u] u unfolding dead r(1) by auto
  show "pl t = Nowhere" if "t \<in> set (batch (?P r))" for t using that D(8) r(1) by auto
  show "distinct (batch (?P r))" using D(7) r(1) by simp
qed (use life_okD(9) [OF ok] in blast)

lemma mutex_destroy:
  assumes ok: "mutex_ok T P pl mx h" and u: "P u = Dead" and r: "\<forall>m. P r \<noteq> Locking m"
  shows "mutex_ok (T(u := None)) (P(r := Reaping ts)) pl mx h"
proof (rule mutex_ok_mono [OF ok])
  show "(t, m) \<notin> h" if "(T(u := None)) t \<noteq> None" "(P(r := Reaping ts)) t = Locking m
      \<or> (P(r := Reaping ts)) t = CondWaiting d m" for t m d
    using mutex_okD(5) [OF ok] that by (auto split: if_splits)
qed (use u r in \<open>auto split: if_splits\<close>)

subsection \<open>Threads begin\<close>

lemma places_create:
  assumes ok: "places_ok T P pl i r" and t: "T t = None"
  shows "places_ok (T(t \<mapsto> k)) (P(t := Launching)) (pl(t := In RunQ)) i r"
proof (rule places_okI)
  note D = places_okD [OF ok]
  have "i \<noteq> t" "r \<noteq> t" using D(4,5) t by auto
  then show "(pl(t := In RunQ)) i = Cur \<or> (pl(t := In RunQ)) i = In RunQ" "idle_cont ((P(t := Launching)) i)"
    "reaper_cont ((P(t := Launching)) r) \<or> (P(t := Launching)) r = Launching" using D(6,7,9) by auto
  show "ok_place ((pl(t := In RunQ)) v) ((P(t := Launching)) v)" if "(T(t \<mapsto> k)) v \<noteq> None" for v
    using D(2) [of v] that by (auto simp: can_act_def)
  show "v = r" if "(T(t \<mapsto> k)) v \<noteq> None" "reaper_cont ((P(t := Launching)) v)" for v
    using that D(8) [of v] by (auto simp: reaper_cont_def split: if_splits)
qed (use places_okD [OF ok] in \<open>auto split: if_splits\<close>)

lemma life_create:
  assumes ok: "life_ok T P pl rs r" and t: "T t = None" "t \<noteq> r" "pl t = Nowhere"
    and k: "alive k" "refCount k = (if d then 1 else 2)"
  shows "life_ok (T(t \<mapsto> k)) (P(t := Launching)) (pl(t := In RunQ)) (if d then rs else insert t rs) r"
proof (rule life_okI)
  let ?P = "P(t := Launching)" and ?T = "T(t \<mapsto> k)" and ?pl = "pl(t := In RunQ)"
  let ?rs = "if d then rs else insert t rs"
  note D = life_okD [OF ok]
  have trs: "t \<notin> rs" using D(3) t by blast
  have br: "batch (?P r) = batch (P r)" using t by auto
  show "alive l = (?P v \<noteq> Dead)" if "?T v = Some l" for v l using that D(1) k by (auto split: if_splits)
  show "refCount l = of_bool (?P v \<noteq> Dead) + of_bool (v \<in> ?rs)" if "?T v = Some l" for v l
    using that D(2) k trs by (auto split: if_splits)
  show "?T v \<noteq> None" if "v \<in> ?rs" for v using that D(3) by (auto split: if_splits)
  show "u \<in> ?rs \<and> map_option owner (?T u) = Some (Some v)" if "?T v \<noteq> None" "?P v = Joining u" for v u
    using D(4) [of v u] that trs by (auto split: if_splits)
  show "?P u \<noteq> Dead" if "?pl v = In (JoinQ u)" for v u using that D(5) by (auto split: if_splits)
  show "(?T v \<noteq> None \<and> ?P v = Dead \<and> v \<notin> ?rs) = (?pl v = In GraveyardQ \<or> v \<in> set (batch (?P r)))" for v
    using D(6) [of v] t unfolding br by auto
  show "?pl v = Nowhere" if "v \<in> set (batch (?P r))" for v
    using D(6) [of v] D(8) [of v] that t unfolding br by auto
  show "?pl r \<noteq> In ReaperWaitQ" if "?pl v = In GraveyardQ" for v
    using that D(9) t by (auto split: if_splits)
  show "distinct (batch (?P r))" unfolding br by (rule D(7))
qed

lemma mutex_create:
  assumes ok: "mutex_ok T P pl mx h" and t: "T t = None"
  shows "mutex_ok (T(t \<mapsto> k)) (P(t := Launching)) (pl(t := In RunQ)) mx h"
proof (rule mutex_ok_mono [OF ok])
  show "(v, m) \<notin> h" if "(T(t \<mapsto> k)) v \<noteq> None" "(P(t := Launching)) v = Locking m
      \<or> (P(t := Launching)) v = CondWaiting d m" for v m d
    using mutex_okD(5) [OF ok] that by (auto split: if_splits)
qed (use t in \<open>auto split: if_splits\<close>)

text \<open>No queue is left over from a thread object that was at the same address.\<close>

lemma fresh_join_queue:
  assumes p: "places_ok T P pl i r" and l: "life_ok T P pl rs r" and t: "T t = None"
  shows "pl v \<noteq> In (JoinQ t)"
proof
  assume v: "pl v = In (JoinQ t)"
  then have T: "T v \<noteq> None" using places_okD(1) [OF p, of v] by auto
  then have "P v = Joining t" using places_okD(2) [OF p T] v by simp
  then show False using life_okD(3,4) [OF l] T t by blast
qed

subsection \<open>Pages and process identifiers\<close>

lemma page_ok_flags: "page_ok m a \<Longrightarrow> page_flags m' = (page_flags m)(n := x) \<Longrightarrow> s_numPages m' = s_numPages m
   \<Longrightarrow> Page_Index a \<noteq> n \<Longrightarrow> page_ok m' a"
  by (simp add: page_ok_def)

lemma page_inj: "Is_Page_Multiple a \<Longrightarrow> Is_Page_Multiple b \<Longrightarrow> Page_Index a = Page_Index b \<Longrightarrow> a = b"
  by (auto simp: Page_Index_div Is_Page_Multiple_dvd intro!: word_unat_eq_iff [THEN iffD2] elim!: dvdE)

text \<open>\<open>Alloc_Page\<close> returns the null pointer or a page that was not allocated.\<close>

lemma Alloc_Page_some:
  assumes "pm_inv m (n # ns)"
  shows "\<exists>a m'. Alloc_Page m = Some (a, m') \<and> a \<noteq> 0 \<and> pm_inv m' ns \<and> page_ok m' a \<and> \<not> page_ok m a
    \<and> (\<forall>b. page_ok m b \<longrightarrow> page_ok m' b)"
proof -
  obtain m' where m': "Alloc_Page m = Some (Get_Page_Address n, m')" "pm_inv m' ns"
    "page_flags m' = (page_flags m)(n := PAGE_ALLOCATED)" "s_numPages m' = s_numPages m"
    using Alloc_Page_nonempty [OF assms] by blast
  have n: "n < unat (s_numPages m)" "page_flags m n = PAGE_AVAIL" "unat (s_numPages m) \<le> 1048576"
    using assms by (auto simp: pm_inv_def free_pages_def)
  then have a: "unat (Get_Page_Address n) = n * 4096" by (intro unat_Get_Page_Address) simp
  then have i: "Page_Index (Get_Page_Address n) = n" "Is_Page_Multiple (Get_Page_Address n)"
    by (simp_all add: Page_Index_div Is_Page_Multiple_dvd)
  have "page_ok m' (Get_Page_Address n)" "\<not> page_ok m (Get_Page_Address n)"
    using i n m'(3,4) by (simp_all add: page_ok_def PAGE_ALLOCATED_def PAGE_AVAIL_def)
  moreover have "page_ok m' b" if "page_ok m b" for b
    using that n m'(3,4) by (auto simp: page_ok_def PAGE_ALLOCATED_def PAGE_AVAIL_def)
  moreover have "Get_Page_Address n \<noteq> 0"
  proof
    assume "Get_Page_Address n = 0"
    with a have "n = 0" by simp
    with assms n show False by (simp add: pm_inv_def known_flags_def)
  qed
  ultimately show ?thesis using m' by auto
qed

lemma Alloc_Page_page:
  assumes "pm_inv m ns"
  shows "\<exists>a m'. Alloc_Page m = Some (a, m') \<and> (\<exists>ns. pm_inv m' ns) \<and> (a = 0 \<longrightarrow> m' = m)
    \<and> (a \<noteq> 0 \<longrightarrow> page_ok m' a \<and> \<not> page_ok m a) \<and> (\<forall>b. page_ok m b \<longrightarrow> page_ok m' b)"
proof (cases ns)
  case Nil
  with assms Alloc_Page_empty [of m] show ?thesis by auto
next
  case (Cons n ns')
  with assms Alloc_Page_some [of m n ns'] show ?thesis by blast
qed

lemma Free_Page_page:
  assumes "pm_inv m ns" and "page_ok m a"
  shows "\<exists>m'. Free_Page a m = Some m' \<and> (\<exists>ns. pm_inv m' ns)
    \<and> (\<forall>b. page_ok m b \<and> b \<noteq> a \<longrightarrow> page_ok m' b)"
proof -
  let ?i = "Page_Index a"
  have a: "unat a = ?i * 4096" "?i < unat (s_numPages m)" "page_flags m ?i = PAGE_ALLOCATED"
    using assms(2) by (auto simp: page_ok_def Page_Index_div Is_Page_Multiple_dvd)
  obtain m' where m': "Free_Page a m = Some m'" "pm_inv m' (ns @ [?i])"
    "page_flags m' = (page_flags m)(?i := PAGE_AVAIL)" "s_numPages m' = s_numPages m"
    using Free_Page_allocated [OF assms(1) a(2,3,1)] by blast
  have "page_ok m' b" if "page_ok m b" "b \<noteq> a" for b
    by (rule page_ok_flags [OF that(1) m'(3,4)])
      (use that page_inj [of b a] assms(2) in \<open>auto simp: page_ok_def\<close>)
  with m' show ?thesis by blast
qed

lemma mem_okI:
  assumes "\<exists>ns. pm_inv m ns" and "\<And>t k. T t = Some k \<Longrightarrow> page_ok m t \<and> page_ok m (stackPage k)"
    and "\<And>t k u l. T t = Some k \<Longrightarrow> T u = Some l \<Longrightarrow> t \<noteq> stackPage l"
    and "\<And>t k u l. T t = Some k \<Longrightarrow> T u = Some l \<Longrightarrow> stackPage k = stackPage l \<Longrightarrow> t = u"
    and "distinct ts" and "\<And>t. t \<in> set ts \<longleftrightarrow> T t \<noteq> None"
  shows "mem_ok m T ts"
  unfolding mem_ok_def using assms by (intro conjI) blast+

lemma mem_okD:
  assumes "mem_ok m T ts"
  shows "\<exists>ns. pm_inv m ns" and "T t = Some k \<Longrightarrow> page_ok m t" and "T t = Some k \<Longrightarrow> page_ok m (stackPage k)"
    and "T t = Some k \<Longrightarrow> T u = Some l \<Longrightarrow> t \<noteq> stackPage l"
    and "T t = Some k \<Longrightarrow> T u = Some l \<Longrightarrow> stackPage k = stackPage l \<Longrightarrow> t = u"
    and "distinct ts" and "t \<in> set ts \<longleftrightarrow> T t \<noteq> None"
  using assms unfolding mem_ok_def by blast+

lemma mem_ok_create:
  assumes ok: "mem_ok m T ts" and m: "\<exists>ns. pm_inv m' ns" "\<forall>b. page_ok m b \<longrightarrow> page_ok m' b"
    and t: "page_ok m' t" "page_ok m' (stackPage k)" "\<not> page_ok m t" "\<not> page_ok m (stackPage k)"
      "t \<noteq> stackPage k"
  shows "T t = None \<and> mem_ok m' (T(t \<mapsto> k)) (ts @ [t])"
proof -
  note D = mem_okD [OF ok]
  have T: "T t = None" using D(2) [of t] t(3) by (cases "T t") auto
  have "mem_ok m' (T(t \<mapsto> k)) (ts @ [t])"
  proof (rule mem_okI)
    show "page_ok m' v \<and> page_ok m' (stackPage l)" if "(T(t \<mapsto> k)) v = Some l" for v l
      using D(2,3) [of v l] m t that by (auto split: if_splits)
    show "v \<noteq> stackPage y" if "(T(t \<mapsto> k)) v = Some l" "(T(t \<mapsto> k)) u = Some y" for v l u y
      using that D(4) [of v l u y] D(2) [of v l] D(3) [of u y] t by (cases "v = t"; cases "u = t") auto
    show "v = u" if "(T(t \<mapsto> k)) v = Some l" "(T(t \<mapsto> k)) u = Some y" "stackPage l = stackPage y" for v l u y
    proof (cases "v = t \<or> u = t")
      case True
      show ?thesis
      proof (rule ccontr)
        assume "v \<noteq> u"
        with True that obtain x z where "T x = Some z" "stackPage z = stackPage k" by auto
        with D(3) [of x z] t(4) show False by simp
      qed
    next
      case False
      with that have "T v = Some l" "T u = Some y" by simp_all
      from D(5) [OF this that(3)] show ?thesis .
    qed
    show "v \<in> set (ts @ [t]) \<longleftrightarrow> (T(t \<mapsto> k)) v \<noteq> None" for v using D(7) [of v] by auto
  qed (use D(6,7) T m(1) in auto)
  with T show ?thesis by blast
qed

lemma mem_ok_destroy:
  assumes ok: "mem_ok m T ts" and k: "T t = Some k" and m: "\<exists>ns. pm_inv m' ns"
    "\<forall>b. page_ok m b \<and> b \<noteq> t \<and> b \<noteq> stackPage k \<longrightarrow> page_ok m' b"
  shows "mem_ok m' (T(t := None)) (remove1 t ts)"
proof (rule mem_okI)
  note D = mem_okD [OF ok]
  show "page_ok m' v \<and> page_ok m' (stackPage l)" if "(T(t := None)) v = Some l" for v l
  proof -
    from that have v: "T v = Some l" "v \<noteq> t" by (auto split: if_splits)
    then have "stackPage l \<noteq> t" "stackPage l \<noteq> stackPage k" "v \<noteq> stackPage k"
      using D(4) [OF k v(1)] D(5) [OF v(1) k] D(4) [OF v(1) k] by auto
    with v D(2,3) [OF v(1)] m(2) show ?thesis by blast
  qed
  show "v \<noteq> stackPage y" if "(T(t := None)) v = Some l" "(T(t := None)) u = Some y" for v l u y
    using that D(4) [of v l u y] by (auto split: if_splits)
  show "v = u" if "(T(t := None)) v = Some l" "(T(t := None)) u = Some y" "stackPage l = stackPage y" for v l u y
    using that D(5) [of v l u y] by (auto split: if_splits)
  show "v \<in> set (remove1 t ts) \<longleftrightarrow> (T(t := None)) v \<noteq> None" for v using D(6,7) by auto
qed (use mem_okD(6) [OF ok] m(1) in auto)

text \<open>Changes of a thread object that keep its stack page and process identifier.\<close>

lemma mem_ok_update:
  assumes ok: "mem_ok m T ts" and k: "T t = Some k" and l: "stackPage l = stackPage k"
  shows "mem_ok m (T(t \<mapsto> l)) ts"
proof -
  note D = mem_okD [OF ok]
  have ex: "\<exists>y. T v = Some y \<and> stackPage y = stackPage x" if "(T(t \<mapsto> l)) v = Some x" for v x
    using that k l by (auto split: if_splits)
  show ?thesis
  proof (rule mem_okI)
    show "page_ok m v \<and> page_ok m (stackPage x)" if "(T(t \<mapsto> l)) v = Some x" for v x
      using ex [OF that] D(2,3) [of v] by auto
    show "v \<noteq> stackPage y" if "(T(t \<mapsto> l)) v = Some x" "(T(t \<mapsto> l)) u = Some y" for v x u y
      using ex [OF that(1)] ex [OF that(2)] D(4) [of v _ u] by metis
    show "v = u" if "(T(t \<mapsto> l)) v = Some x" "(T(t \<mapsto> l)) u = Some y" "stackPage x = stackPage y" for v x u y
      using ex [OF that(1)] ex [OF that(2)] that(3) D(5) [of v _ u] by metis
    show "v \<in> set ts \<longleftrightarrow> (T(t \<mapsto> l)) v \<noteq> None" for v using D(7) [of v] k by auto
  qed (use D(1,6) in auto)
qed

lemma pids_ok_update: "pids_ok T n \<Longrightarrow> T t = Some k \<Longrightarrow> pid l = pid k \<Longrightarrow> pids_ok (T(t \<mapsto> l)) n"
  unfolding pids_ok_def by (auto split: if_splits)

lemma pids_ok_create: "pids_ok T n \<Longrightarrow> pid k = n \<Longrightarrow> pids_ok (T(t \<mapsto> k)) (n + 1)"
  unfolding pids_ok_def by (fastforce split: if_splits)

lemma pids_ok_destroy: "pids_ok T n \<Longrightarrow> pids_ok (T(t := None)) n"
  unfolding pids_ok_def by (auto split: if_splits)

end
