(* ===== verification/System.thy ===== *)
theory System
  imports Invariant
begin

text \<open>
  Every step the threads may take succeeds, no assertion of the kernel fails in it, and it
  keeps the invariant; so this holds for every reachable state.
\<close>

section \<open>Switching threads\<close>

lemmas state_defs = running_def parts_def goes_to_def Let_def

lemma goes_to_same_cur: "g_currentThread s = cur \<sigma> \<Longrightarrow> goes_to (\<sigma>\<lparr>ks := s\<rparr>) k s' = goes_to \<sigma> k s'"
  by (simp add: goes_to_def)

lemma goes_to_twice: "g_currentThread s = cur \<sigma> \<Longrightarrow> goes_to (goes_to \<sigma> j s) k s' = goes_to \<sigma> k s'"
  by (simp add: goes_to_def)

lemma goes_to_ks: "(goes_to \<sigma> k s)\<lparr>ks := s'\<rparr> = goes_to \<sigma> k s'"
  by (simp add: goes_to_def)

lemma parts_threads:
  assumes "parts \<sigma> pl" and "pl t \<noteq> Nowhere" shows "threads (ks \<sigma>) t \<noteq> None"
  using assms by (auto simp: parts_def Let_def places_ok_def)

lemma switch_in:
  assumes "parts \<sigma> pl" and "\<forall>t. pl t \<noteq> Cur" and "\<not> ints (ks \<sigma>)" and "\<not> g_preemptionDisabled (ks \<sigma>)"
  shows "\<exists>Q N b. Schedule (ks \<sigma>)
      = Some ((ks \<sigma>)\<lparr>queues := Q, thread_ticks := N, g_currentThread := b\<rparr>)
    \<and> kinv (\<sigma>\<lparr>ks := (ks \<sigma>)\<lparr>queues := Q, thread_ticks := N, g_currentThread := b\<rparr>\<rparr>) (pl(b := Cur))
    \<and> first_best (threads (ks \<sigma>)) (queues (ks \<sigma>) RunQ) b"
proof -
  let ?s = "ks \<sigma>"
  have p: "q_rep (queues ?s) pl" "places_ok (threads ?s) (pc \<sigma>) pl (idle \<sigma>) (reaper \<sigma>)"
    "life_ok (threads ?s) (pc \<sigma>) pl (refs \<sigma>) (reaper \<sigma>)"
    "mutex_ok (threads ?s) (pc \<sigma>) pl (mutexes ?s) (held \<sigma>)"
    using assms(1) by (simp_all add: parts_def Let_def)
  have run: "\<forall>t. pl t = In RunQ \<longrightarrow> threads ?s t \<noteq> None" using parts_threads [OF assms(1)] by auto
  have i: "pl (idle \<sigma>) = In RunQ" using places_okD(6) [OF p(2)] assms(2) by auto
  obtain Q N b where b: "Schedule ?s = Some (?s\<lparr>queues := Q, thread_ticks := N, g_currentThread := b\<rparr>)"
    "pl b = In RunQ" "q_rep Q (pl(b := Cur))" "first_best (threads ?s) (queues ?s RunQ) b"
    using Schedule_rep [OF p(1) run i assms(3,4)] by blast
  have "\<not> can_act (pc \<sigma> b)"
    using places_okD(2) [OF p(2), of b] b(2) run by auto
  then have "kinv (\<sigma>\<lparr>ks := ?s\<lparr>queues := Q, thread_ticks := N, g_currentThread := b\<rparr>\<rparr>) (pl(b := Cur))"
    using assms b(3) places_schedule [OF p(2) b(2)] life_schedule [OF p(3) b(2)] mutex_schedule [OF p(4) b(2)]
    by (auto simp: kinv_def state_defs)
  with b(1,4) show ?thesis by blast
qed

text \<open>When the current thread may leave the processor for queue \<open>q\<close>, to go on at \<open>k\<close>.\<close>

definition may_leave :: "sys \<Rightarrow> (tid \<Rightarrow> place) \<Rightarrow> qid \<Rightarrow> cont \<Rightarrow> bool" where
  "may_leave \<sigma> pl q k \<longleftrightarrow> (let c = cur \<sigma>; P = pc \<sigma>; s = ks \<sigma> in
     ok_place (In q) k \<and> q \<noteq> GraveyardQ \<and> k \<noteq> Dead
     \<and> (c = idle \<sigma> \<longrightarrow> q = RunQ \<and> idle_cont k)
     \<and> (reaper_cont k \<longleftrightarrow> c = reaper \<sigma>) \<and> (c = reaper \<sigma> \<longrightarrow> batch k = batch (P c))
     \<and> (\<forall>u. k = Joining u \<longrightarrow> u \<in> refs \<sigma> \<and> map_option owner (threads s u) = Some (Some c))
     \<and> (\<forall>u. q = JoinQ u \<longrightarrow> P u \<noteq> Dead) \<and> (q = ReaperWaitQ \<longrightarrow> (\<forall>t. pl t \<noteq> In GraveyardQ))
     \<and> (\<forall>m. P c = Locking m \<longrightarrow> m_locked (mutexes s m)) \<and> (\<forall>m. q = MutexQ m \<longrightarrow> m_locked (mutexes s m))
     \<and> (\<forall>m d. k = Locking m \<or> k = CondWaiting d m \<longrightarrow> (c, m) \<notin> held \<sigma>))"

lemma running_cur:
  assumes "running \<sigma> pl"
  shows "pl (cur \<sigma>) = Cur" and "threads (ks \<sigma>) (cur \<sigma>) \<noteq> None" and "pc \<sigma> (cur \<sigma>) \<noteq> Dead"
proof -
  show c: "pl (cur \<sigma>) = Cur" using assms by (simp add: running_def)
  have "parts \<sigma> pl" using assms by (simp add: running_def)
  from parts_threads [OF this] c show T: "threads (ks \<sigma>) (cur \<sigma>) \<noteq> None" by simp
  have "places_ok (threads (ks \<sigma>)) (pc \<sigma>) pl (idle \<sigma>) (reaper \<sigma>)"
    using assms by (simp add: running_def parts_def Let_def)
  from places_okD(2) [OF this T] c show "pc \<sigma> (cur \<sigma>) \<noteq> Dead" by simp
qed

lemma leave:
  assumes run: "running \<sigma> pl" and ml: "may_leave \<sigma> pl q k"
  shows "\<exists>Q. Enqueue_Thread q (cur \<sigma>) (ks \<sigma>) = Some ((ks \<sigma>)\<lparr>queues := Q\<rparr>)
    \<and> parts (goes_to \<sigma> k ((ks \<sigma>)\<lparr>queues := Q\<rparr>)) (pl(cur \<sigma> := In q))
    \<and> (\<forall>t. (pl(cur \<sigma> := In q)) t \<noteq> Cur)"
proof -
  let ?s = "ks \<sigma>" let ?c = "cur \<sigma>"
  note c = running_cur [OF run]
  have p: "parts \<sigma> pl" using run by (simp add: running_def)
  then obtain Q where Q: "Enqueue_Thread q ?c ?s = Some (?s\<lparr>queues := Q\<rparr>)" "q_rep Q (pl(?c := In q))"
    using Enqueue_Thread_rep [of ?s pl ?c q] c(1) by (auto simp: parts_def Let_def)
  have "places_ok (threads ?s) ((pc \<sigma>)(?c := k)) (pl(?c := In q)) (idle \<sigma>) (reaper \<sigma>)"
    by (rule places_leave) (use p ml c in \<open>auto simp: parts_def may_leave_def Let_def\<close>)
  moreover have "life_ok (threads ?s) ((pc \<sigma>)(?c := k)) (pl(?c := In q)) (refs \<sigma>) (reaper \<sigma>)"
    by (rule life_leave) (use p ml c in \<open>auto simp: parts_def may_leave_def Let_def\<close>)
  moreover have "mutex_ok (threads ?s) ((pc \<sigma>)(?c := k)) (pl(?c := In q)) (mutexes ?s) (held \<sigma>)"
    by (rule mutex_leave) (use p ml c in \<open>auto simp: parts_def may_leave_def Let_def\<close>)
  ultimately have "parts (goes_to \<sigma> k (?s\<lparr>queues := Q\<rparr>)) (pl(?c := In q))"
    using p Q(2) by (simp add: parts_def Let_def goes_to_def)
  moreover have "\<forall>t. (pl(?c := In q)) t \<noteq> Cur" using run by (auto simp: running_def)
  ultimately show ?thesis using Q(1) by blast
qed

lemma switch_from:
  assumes "parts (goes_to \<sigma> k s) pl" and "\<And>t. pl t \<noteq> Cur" and "\<not> ints s" and "\<not> g_preemptionDisabled s"
  shows "\<exists>s' pl'. Schedule s = Some s' \<and> kinv (goes_to \<sigma> k s') pl'"
proof -
  have "ks (goes_to \<sigma> k s) = s" by (simp add: goes_to_def)
  with switch_in [OF assms(1)] assms(2-4) obtain s' pl' where "Schedule s = Some s'"
    "kinv ((goes_to \<sigma> k s)\<lparr>ks := s'\<rparr>) pl'" by fastforce
  then show ?thesis by (auto simp: goes_to_ks)
qed

lemma leave_and_schedule:
  assumes run: "running \<sigma> pl" and ml: "may_leave \<sigma> pl q k" and i: "\<not> ints (ks \<sigma>)"
  shows "\<exists>s1 s' pl'. Enqueue_Thread q (cur \<sigma>) (ks \<sigma>) = Some s1 \<and> Schedule s1 = Some s'
    \<and> kinv (goes_to \<sigma> k s') pl'"
proof -
  obtain Q where Q: "Enqueue_Thread q (cur \<sigma>) (ks \<sigma>) = Some ((ks \<sigma>)\<lparr>queues := Q\<rparr>)"
    "parts (goes_to \<sigma> k ((ks \<sigma>)\<lparr>queues := Q\<rparr>)) (pl(cur \<sigma> := In q))"
    "\<forall>t. (pl(cur \<sigma> := In q)) t \<noteq> Cur" using leave [OF run ml] by blast
  with switch_from [OF Q(2)] i run show ?thesis by (auto simp: running_def)
qed

lemma Wait_inv:
  assumes "running \<sigma> pl" and "may_leave \<sigma> pl q k" and "\<not> ints (ks \<sigma>)"
  shows "\<exists>s' pl'. Wait q (ks \<sigma>) = Some s' \<and> kinv (goes_to \<sigma> k s') pl'"
  using leave_and_schedule [OF assms] assms(3) by (auto simp: Wait_def)

lemma running_ints: "running (\<sigma>\<lparr>ks := (ks \<sigma>)\<lparr>ints := b\<rparr>\<rparr>) pl \<longleftrightarrow> running \<sigma> pl"
  by (simp add: state_defs)

lemma may_leave_ints: "may_leave (\<sigma>\<lparr>ks := (ks \<sigma>)\<lparr>ints := b\<rparr>\<rparr>) pl q k \<longleftrightarrow> may_leave \<sigma> pl q k"
  by (simp add: may_leave_def Let_def)

lemma Yield_inv:
  assumes "running \<sigma> pl" and "may_leave \<sigma> pl RunQ k" and "ints (ks \<sigma>)"
  shows "\<exists>s' pl'. Yield (ks \<sigma>) = Some s' \<and> kinv (goes_to \<sigma> k s') pl'"
proof -
  let ?\<sigma> = "\<sigma>\<lparr>ks := (ks \<sigma>)\<lparr>ints := False\<rparr>\<rparr>"
  have "running ?\<sigma> pl" "may_leave ?\<sigma> pl RunQ k" "\<not> ints (ks ?\<sigma>)"
    using assms by (simp_all add: running_ints may_leave_ints)
  from leave_and_schedule [OF this] assms(3) show ?thesis
    by (auto simp: Yield_def Disable_Interrupts_def Make_Runnable_def goes_to_same_cur)
qed

text \<open>The current thread goes on with its own code, with interrupts enabled.\<close>

lemma go_on:
  assumes run: "running \<sigma> pl" and k: "k \<noteq> Dead" "cur \<sigma> = idle \<sigma> \<longrightarrow> idle_cont k"
    "reaper_cont k \<longleftrightarrow> cur \<sigma> = reaper \<sigma>" "cur \<sigma> = reaper \<sigma> \<longrightarrow> batch k = batch (pc \<sigma> (cur \<sigma>))"
    "\<forall>u. k \<noteq> Joining u" "\<forall>m d. k \<noteq> Locking m \<and> k \<noteq> CondWaiting d m"
    and l: "\<forall>m. pc \<sigma> (cur \<sigma>) = Locking m \<longrightarrow> m_locked (mutexes (ks \<sigma>) m)"
  shows "running (goes_to \<sigma> k (ks \<sigma>)) pl"
proof -
  note c = running_cur [OF run]
  have p: "parts \<sigma> pl" using run by (simp add: running_def)
  have "places_ok (threads (ks \<sigma>)) ((pc \<sigma>)(cur \<sigma> := k)) pl (idle \<sigma>) (reaper \<sigma>)"
    by (rule places_cont) (use p k c in \<open>auto simp: parts_def Let_def\<close>)
  moreover have "life_ok (threads (ks \<sigma>)) ((pc \<sigma>)(cur \<sigma> := k)) pl (refs \<sigma>) (reaper \<sigma>)"
    by (rule life_cont) (use p k c in \<open>auto simp: parts_def Let_def\<close>)
  moreover have "mutex_ok (threads (ks \<sigma>)) ((pc \<sigma>)(cur \<sigma> := k)) pl (mutexes (ks \<sigma>)) (held \<sigma>)"
    by (rule mutex_cont) (use p k c l in \<open>auto simp: parts_def Let_def\<close>)
  ultimately show ?thesis using p run by (simp add: running_def parts_def Let_def goes_to_def)
qed

lemma go_on_inv:
  assumes "running (goes_to \<sigma> k (ks \<sigma>)) pl" and "can_act k"
  shows "kinv (goes_to \<sigma> k ((ks \<sigma>)\<lparr>ints := True\<rparr>)) pl"
  using assms by (simp add: kinv_def state_defs)

section \<open>Which thread runs what\<close>

lemma kinv_running: "kinv \<sigma> pl \<Longrightarrow> running \<sigma> pl"
  by (simp add: kinv_def)

lemma running_places: "running \<sigma> pl \<Longrightarrow> places_ok (threads (ks \<sigma>)) (pc \<sigma>) pl (idle \<sigma>) (reaper \<sigma>)"
  by (simp add: state_defs)

lemma running_life: "running \<sigma> pl \<Longrightarrow> life_ok (threads (ks \<sigma>)) (pc \<sigma>) pl (refs \<sigma>) (reaper \<sigma>)"
  by (simp add: state_defs)

lemma running_mutex: "running \<sigma> pl \<Longrightarrow> mutex_ok (threads (ks \<sigma>)) (pc \<sigma>) pl (mutexes (ks \<sigma>)) (held \<sigma>)"
  by (simp add: state_defs)

lemma running_queues: "running \<sigma> pl \<Longrightarrow> q_rep (queues (ks \<sigma>)) pl"
  by (simp add: state_defs)

lemma running_mem: "running \<sigma> pl \<Longrightarrow> mem_ok (kmem (ks \<sigma>)) (threads (ks \<sigma>)) (s_allThreadList (ks \<sigma>))"
  by (simp add: state_defs)

lemma running_pids: "running \<sigma> pl \<Longrightarrow> pids_ok (threads (ks \<sigma>)) (nextFreePid (ks \<sigma>))"
  by (simp add: state_defs)

lemma cur_not_reaper:
  assumes "running \<sigma> pl" and "\<not> reaper_cont (pc \<sigma> (cur \<sigma>))" and "pc \<sigma> (cur \<sigma>) \<noteq> Launching"
  shows "cur \<sigma> \<noteq> reaper \<sigma>"
  using places_okD(9) [OF running_places [OF assms(1)]] assms(2,3) by auto

lemma cur_reaper:
  assumes "running \<sigma> pl" and "reaper_cont (pc \<sigma> (cur \<sigma>))" shows "cur \<sigma> = reaper \<sigma>"
  using places_okD(8) [OF running_places [OF assms(1)] running_cur(2) [OF assms(1)] assms(2)] .

lemma cur_not_idle:
  assumes "running \<sigma> pl" and "\<not> idle_cont (pc \<sigma> (cur \<sigma>))" shows "cur \<sigma> \<noteq> idle \<sigma>"
  using places_okD(7) [OF running_places [OF assms(1)]] assms(2) by auto

lemma idle_not_reaper: "running \<sigma> pl \<Longrightarrow> idle \<sigma> \<noteq> reaper \<sigma>"
  using places_okD(3) [OF running_places] .

text \<open>A thread with code of its own that is not the reaper runs on.\<close>

lemma return_running:
  assumes run: "running \<sigma> pl" and "\<not> reaper_cont (pc \<sigma> (cur \<sigma>))"
    and "pc \<sigma> (cur \<sigma>) = Launching \<longrightarrow> cur \<sigma> \<noteq> reaper \<sigma>"
    and "\<forall>m. pc \<sigma> (cur \<sigma>) = Locking m \<longrightarrow> m_locked (mutexes (ks \<sigma>) m)"
  shows "running (goes_to \<sigma> Running (ks \<sigma>)) pl"
proof (rule go_on [OF run])
  show "reaper_cont Running \<longleftrightarrow> cur \<sigma> = reaper \<sigma>"
    using cur_not_reaper [OF run assms(2)] assms(3) by (auto simp: reaper_cont_def)
  show "cur \<sigma> = reaper \<sigma> \<longrightarrow> batch Running = batch (pc \<sigma> (cur \<sigma>))"
    using cur_not_reaper [OF run assms(2)] assms(3) by auto
qed (use assms(4) in \<open>auto simp: idle_cont_def\<close>)

section \<open>Steps that only switch\<close>

lemma yield_step:
  assumes "kinv \<sigma> pl" and "pc \<sigma> (cur \<sigma>) = Running"
  shows "\<exists>\<sigma>' pl'. exec code AYield \<sigma> = Some \<sigma>' \<and> kinv \<sigma>' pl'"
proof -
  note run = kinv_running [OF assms(1)]
  have r: "cur \<sigma> \<noteq> reaper \<sigma>" by (rule cur_not_reaper [OF run]) (simp_all add: assms(2) reaper_cont_def)
  have "may_leave \<sigma> pl RunQ Yielding"
    using assms(2) r by (simp add: may_leave_def idle_cont_def reaper_cont_def can_act_def Let_def)
  moreover have "ints (ks \<sigma>)" using assms by (simp add: kinv_def can_act_def)
  ultimately obtain s' pl' where "Yield (ks \<sigma>) = Some s'" "kinv (goes_to \<sigma> Yielding s') pl'"
    using Yield_inv [OF run] by blast
  then show ?thesis by auto
qed

lemma dev_wait_step:
  assumes "kinv \<sigma> pl" and "pc \<sigma> (cur \<sigma>) = Running" and "cur \<sigma> \<noteq> idle \<sigma>"
  shows "\<exists>\<sigma>' pl'. exec code (ADevWait d) \<sigma> = Some \<sigma>' \<and> kinv \<sigma>' pl'"
proof -
  note run = kinv_running [OF assms(1)]
  let ?\<sigma> = "\<sigma>\<lparr>ks := (ks \<sigma>)\<lparr>ints := False\<rparr>\<rparr>"
  have r: "cur \<sigma> \<noteq> reaper \<sigma>" by (rule cur_not_reaper [OF run]) (simp_all add: assms(2) reaper_cont_def)
  have "may_leave \<sigma> pl (DevQ d) (DevWaiting d)"
    using assms(2,3) r by (simp add: may_leave_def reaper_cont_def Let_def)
  then have "may_leave ?\<sigma> pl (DevQ d) (DevWaiting d)" "running ?\<sigma> pl" "\<not> ints (ks ?\<sigma>)"
    using run by (simp_all add: may_leave_ints running_ints)
  from Wait_inv [OF this(2,1,3)] obtain s' pl' where "Wait (DevQ d) ((ks \<sigma>)\<lparr>ints := False\<rparr>) = Some s'"
    "kinv (goes_to \<sigma> (DevWaiting d) s') pl'" by (auto simp: goes_to_same_cur)
  moreover have "ints (ks \<sigma>)" using assms by (simp add: kinv_def can_act_def)
  ultimately show ?thesis by (auto simp: Disable_Interrupts_def)
qed

section \<open>Waking threads\<close>

lemma wake_parts:
  assumes p: "parts \<sigma> pl" and q: "q \<noteq> RunQ" "q \<noteq> GraveyardQ" and i: "\<not> ints (ks \<sigma>)"
  shows "\<exists>Q. Wake_Up q (ks \<sigma>) = Some ((ks \<sigma>)\<lparr>queues := Q\<rparr>)
    \<and> parts (\<sigma>\<lparr>ks := (ks \<sigma>)\<lparr>queues := Q\<rparr>\<rparr>) (wake_place q pl)"
proof -
  have "q_rep (queues (ks \<sigma>)) pl" using p by (simp add: parts_def Let_def)
  from Wake_Up_rep [OF this q(1) i] obtain Q where Q: "Wake_Up q (ks \<sigma>) = Some ((ks \<sigma>)\<lparr>queues := Q\<rparr>)"
    "q_rep Q (wake_place q pl)" by blast
  then have "parts (\<sigma>\<lparr>ks := (ks \<sigma>)\<lparr>queues := Q\<rparr>\<rparr>) (wake_place q pl)"
    using p places_wake [OF _ q(2)] life_wake [OF _ q(2)] mutex_wake by (simp add: parts_def Let_def)
  with Q show ?thesis by blast
qed

lemma wake_Cur: "wake_place q pl t = Cur \<longleftrightarrow> pl t = Cur"
  by (simp add: wake_place_def)

lemma wake_running:
  assumes run: "running \<sigma> pl" and "q \<noteq> RunQ" "q \<noteq> GraveyardQ" and "\<not> ints (ks \<sigma>)"
  shows "\<exists>Q. Wake_Up q (ks \<sigma>) = Some ((ks \<sigma>)\<lparr>queues := Q\<rparr>)
    \<and> running (\<sigma>\<lparr>ks := (ks \<sigma>)\<lparr>queues := Q\<rparr>\<rparr>) (wake_place q pl)"
proof -
  have "parts \<sigma> pl" using run by (simp add: running_def)
  from wake_parts [OF this assms(2-4)] run show ?thesis by (auto simp: running_def wake_Cur)
qed

lemma wake_one_running:
  assumes run: "running \<sigma> pl" and q: "q \<noteq> RunQ" "q \<noteq> GraveyardQ" and i: "\<not> ints (ks \<sigma>)"
  shows "\<exists>Q pl'. Wake_Up_One q (ks \<sigma>) = Some ((ks \<sigma>)\<lparr>queues := Q\<rparr>)
    \<and> running (\<sigma>\<lparr>ks := (ks \<sigma>)\<lparr>queues := Q\<rparr>\<rparr>) pl'"
proof -
  have p: "parts \<sigma> pl" using run by (simp add: running_def)
  have T: "\<forall>t. pl t = In q \<longrightarrow> threads (ks \<sigma>) t \<noteq> None" using parts_threads [OF p] by auto
  obtain Q where Q: "Wake_Up_One q (ks \<sigma>) = Some ((ks \<sigma>)\<lparr>queues := Q\<rparr>)"
    "(q_rep Q pl \<and> (\<forall>t. pl t \<noteq> In q)) \<or> (\<exists>b. pl b = In q \<and> q_rep Q (pl(b := In RunQ)))"
    using Wake_Up_One_rep [OF running_queues [OF run] T q(1) i] by blast
  from Q(2) have "\<exists>pl'. running (\<sigma>\<lparr>ks := (ks \<sigma>)\<lparr>queues := Q\<rparr>\<rparr>) pl'"
  proof
    assume "q_rep Q pl \<and> (\<forall>t. pl t \<noteq> In q)"
    then have "running (\<sigma>\<lparr>ks := (ks \<sigma>)\<lparr>queues := Q\<rparr>\<rparr>) pl" using run by (simp add: state_defs)
    then show ?thesis by blast
  next
    assume "\<exists>b. pl b = In q \<and> q_rep Q (pl(b := In RunQ))"
    then obtain b where b: "pl b = In q" "q_rep Q (pl(b := In RunQ))" by blast
    then have "b \<noteq> cur \<sigma>" using running_cur(1) [OF run] by auto
    with b have "running (\<sigma>\<lparr>ks := (ks \<sigma>)\<lparr>queues := Q\<rparr>\<rparr>) (pl(b := In RunQ))"
      using run places_wake_one [OF running_places [OF run] q(2) b(1)]
        life_wake_one [OF running_life [OF run] q(2) b(1)] mutex_wake_one [OF running_mutex [OF run] b(1)]
      by (auto simp: state_defs)
    then show ?thesis by blast
  qed
  with Q(1) show ?thesis by blast
qed

lemma ints_off_on: "ints s \<Longrightarrow> s\<lparr>ints := False, queues := Q, ints := True\<rparr> = s\<lparr>queues := Q\<rparr>"
  by (cases s) simp

lemma signal_step:
  assumes "kinv \<sigma> pl" and "pc \<sigma> (cur \<sigma>) = Running"
  shows "\<exists>\<sigma>' pl'. exec code (ASignal c) \<sigma> = Some \<sigma>' \<and> kinv \<sigma>' pl'"
proof -
  let ?\<sigma> = "\<sigma>\<lparr>ks := (ks \<sigma>)\<lparr>ints := False\<rparr>\<rparr>"
  have i: "ints (ks \<sigma>)" using assms by (simp add: kinv_def can_act_def)
  have "running ?\<sigma> pl" using kinv_running [OF assms(1)] by (simp add: running_ints)
  from wake_one_running [OF this, of "CondQ c"] obtain Q pl' where
    "Wake_Up_One (CondQ c) ((ks \<sigma>)\<lparr>ints := False\<rparr>) = Some ((ks \<sigma>)\<lparr>ints := False, queues := Q\<rparr>)"
    "running (\<sigma>\<lparr>ks := (ks \<sigma>)\<lparr>ints := False, queues := Q\<rparr>\<rparr>) pl'" by auto
  moreover from this(2) have "kinv (\<sigma>\<lparr>ks := (ks \<sigma>)\<lparr>queues := Q, ints := True\<rparr>\<rparr>) pl'"
    using assms(2) by (simp add: kinv_def state_defs can_act_def)
  ultimately show ?thesis
    using i by (auto simp: Cond_Signal_def Disable_Interrupts_def Enable_Interrupts_def)
qed

lemma broadcast_step:
  assumes "kinv \<sigma> pl" and "pc \<sigma> (cur \<sigma>) = Running"
  shows "\<exists>\<sigma>' pl'. exec code (ABroadcast c) \<sigma> = Some \<sigma>' \<and> kinv \<sigma>' pl'"
proof -
  let ?\<sigma> = "\<sigma>\<lparr>ks := (ks \<sigma>)\<lparr>ints := False\<rparr>\<rparr>"
  have i: "ints (ks \<sigma>)" using assms by (simp add: kinv_def can_act_def)
  have "running ?\<sigma> pl" using kinv_running [OF assms(1)] by (simp add: running_ints)
  from wake_running [OF this, of "CondQ c"] obtain Q where
    "Wake_Up (CondQ c) ((ks \<sigma>)\<lparr>ints := False\<rparr>) = Some ((ks \<sigma>)\<lparr>ints := False, queues := Q\<rparr>)"
    "running (\<sigma>\<lparr>ks := (ks \<sigma>)\<lparr>ints := False, queues := Q\<rparr>\<rparr>) (wake_place (CondQ c) pl)" by auto
  moreover from this(2) have "kinv (\<sigma>\<lparr>ks := (ks \<sigma>)\<lparr>queues := Q, ints := True\<rparr>\<rparr>) (wake_place (CondQ c) pl)"
    using assms(2) by (simp add: kinv_def state_defs can_act_def)
  ultimately show ?thesis
    using i by (auto simp: Cond_Broadcast_def Disable_Interrupts_def Enable_Interrupts_def)
qed

section \<open>Mutexes and conditions\<close>

lemma preemption_off: "\<not> g_preemptionDisabled s \<Longrightarrow> s\<lparr>g_preemptionDisabled := False\<rparr> = s"
  by (cases s) simp

text \<open>
  The loop of \<open>Mutex_Lock\<close>, entered with interrupts enabled and preemption disabled: the
  thread gets the mutex or waits for it.
\<close>

lemma lock_loop:
  assumes run: "running \<sigma> pl" and i: "ints (ks \<sigma>)" and k: "pc \<sigma> (cur \<sigma>) \<in> {Running, Locking m, CondWaiting d m}"
    and idle: "cur \<sigma> \<noteq> idle \<sigma>" and h: "(cur \<sigma>, m) \<notin> held \<sigma>"
  shows "\<exists>r pl'. Mutex_Lock_Loop m ((ks \<sigma>)\<lparr>g_preemptionDisabled := True\<rparr>) = Some r
    \<and> kinv (after_lock \<sigma> m (finish_lock r)) pl'"
proof -
  let ?s = "ks \<sigma>" let ?c = "cur \<sigma>"
  have np: "\<not> g_preemptionDisabled ?s" using run by (simp add: running_def)
  have r: "?c \<noteq> reaper \<sigma>" by (rule cur_not_reaper [OF run]) (use k in \<open>auto simp: reaper_cont_def\<close>)
  show ?thesis
  proof (cases "m_locked (mutexes ?s m)")
    case True
    let ?\<sigma> = "\<sigma>\<lparr>ks := ?s\<lparr>ints := False\<rparr>\<rparr>"
    have "may_leave \<sigma> pl (MutexQ m) (Locking m)"
      using k r idle h True by (auto simp: may_leave_def reaper_cont_def Let_def)
    then have "may_leave ?\<sigma> pl (MutexQ m) (Locking m)" "running ?\<sigma> pl" "\<not> ints (ks ?\<sigma>)"
      using run by (simp_all add: may_leave_ints running_ints)
    from Wait_inv [OF this(2,1,3)] obtain s' pl' where "Wait (MutexQ m) (?s\<lparr>ints := False\<rparr>) = Some s'"
      "kinv (goes_to \<sigma> (Locking m) s') pl'" by (auto simp: goes_to_same_cur)
    moreover have "?s\<lparr>ints := False, g_preemptionDisabled := False\<rparr> = ?s\<lparr>ints := False\<rparr>"
      using np by (cases ?s) simp
    ultimately show ?thesis
      using True i by (auto simp: Mutex_Lock_Loop_def Mutex_Wait_def set_preemption_disabled_def
          Disable_Interrupts_def finish_lock_def after_lock_def)
  next
    case False
    let ?mx = "(mutexes ?s)(m := \<lparr>m_locked = True, m_owner = Some ?c\<rparr>)"
    have "places_ok (threads ?s) ((pc \<sigma>)(?c := Running)) pl (idle \<sigma>) (reaper \<sigma>)"
      by (rule places_cont [OF running_places [OF run] running_cur(1) [OF run]])
        (use r in \<open>auto simp: idle_cont_def reaper_cont_def\<close>)
    moreover have "life_ok (threads ?s) ((pc \<sigma>)(?c := Running)) pl (refs \<sigma>) (reaper \<sigma>)"
      by (rule life_cont [OF running_life [OF run] running_cur(1,3) [OF run]]) (use r in auto)
    moreover have "mutex_ok (threads ?s) ((pc \<sigma>)(?c := Running)) pl ?mx (insert (?c, m) (held \<sigma>))"
      by (rule mutex_lock [OF running_mutex [OF run] False running_cur(2) [OF run]]) (use k in auto)
    ultimately have "kinv ((goes_to \<sigma> Running (?s\<lparr>mutexes := ?mx\<rparr>))\<lparr>held := insert (?c, m) (held \<sigma>)\<rparr>) pl"
      using run i by (simp add: kinv_def state_defs can_act_def)
    moreover have "?s\<lparr>mutexes := ?mx, g_preemptionDisabled := False\<rparr> = ?s\<lparr>mutexes := ?mx\<rparr>"
      using np by (cases ?s) simp
    ultimately show ?thesis
      using False by (auto simp: Mutex_Lock_Loop_def set_preemption_disabled_def set_mutex_def
          finish_lock_def after_lock_def)
  qed
qed

lemma not_held:
  "running \<sigma> pl \<Longrightarrow> (cur \<sigma>, m) \<notin> held \<sigma> \<Longrightarrow> \<not> IS_HELD m ((ks \<sigma>)\<lparr>g_preemptionDisabled := b\<rparr>)"
  using mutex_okD(1) [OF running_mutex] by (auto simp: IS_HELD_def)

lemma is_held: "running \<sigma> pl \<Longrightarrow> (cur \<sigma>, m) \<in> held \<sigma> \<Longrightarrow> IS_HELD m (ks \<sigma>)"
  using mutex_okD(1) [OF running_mutex] by (auto simp: IS_HELD_def)

lemma lock_step:
  assumes "kinv \<sigma> pl" and "pc \<sigma> (cur \<sigma>) = Running" and "cur \<sigma> \<noteq> idle \<sigma>" and "(cur \<sigma>, m) \<notin> held \<sigma>"
  shows "\<exists>\<sigma>' pl'. exec code (ALock m) \<sigma> = Some \<sigma>' \<and> kinv \<sigma>' pl'"
proof -
  note run = kinv_running [OF assms(1)]
  have i: "ints (ks \<sigma>)" using assms by (simp add: kinv_def can_act_def)
  from lock_loop [OF run i _ assms(3,4)] assms(2)
  obtain r pl' where "Mutex_Lock_Loop m ((ks \<sigma>)\<lparr>g_preemptionDisabled := True\<rparr>) = Some r"
    "kinv (after_lock \<sigma> m (finish_lock r)) pl'" by auto
  then show ?thesis
    using i not_held [OF run assms(4)]
    by (auto simp: Mutex_Lock_def Mutex_Lock_Imp_def set_preemption_disabled_def)
qed

text \<open>Giving up a mutex.\<close>

lemma unlock_imp:
  assumes run: "running \<sigma> pl" and i: "ints (ks \<sigma>)" and k: "pc \<sigma> (cur \<sigma>) = Running"
    and h: "(cur \<sigma>, m) \<in> held \<sigma>"
  shows "\<exists>M Q pl'. Mutex_Unlock_Imp m ((ks \<sigma>)\<lparr>g_preemptionDisabled := True\<rparr>)
      = Some ((ks \<sigma>)\<lparr>g_preemptionDisabled := True, mutexes := M, queues := Q\<rparr>)
    \<and> running (\<sigma>\<lparr>ks := (ks \<sigma>)\<lparr>mutexes := M, queues := Q\<rparr>, held := held \<sigma> - {(cur \<sigma>, m)}\<rparr>) pl'"
proof -
  let ?s = "ks \<sigma>" let ?c = "cur \<sigma>" let ?h = "held \<sigma> - {(?c, m)}"
  let ?M = "(mutexes ?s)(m := \<lparr>m_locked = False, m_owner = None\<rparr>)"
  have p: "parts \<sigma> pl" using run by (simp add: running_def)
  note q = running_queues [OF run] and mo = mutex_unlock_free [OF running_mutex [OF run] h k]
  have held: "IS_HELD m (?s\<lparr>g_preemptionDisabled := True\<rparr>)"
    using is_held [OF run h] by (simp add: IS_HELD_def)
  show ?thesis
  proof (cases "queues ?s (MutexQ m) = []")
    case True
    then have none: "\<forall>t. pl t \<noteq> In (MutexQ m)" using q_rep_empty [OF q] by simp
    have "mutex_ok (threads ?s) (pc \<sigma>) pl ?M ?h" by (rule mo) (use none in auto)
    then have "running (\<sigma>\<lparr>ks := ?s\<lparr>mutexes := ?M, queues := queues ?s\<rparr>, held := ?h\<rparr>) pl"
      using run by (simp add: state_defs)
    moreover have "Mutex_Unlock_Imp m (?s\<lparr>g_preemptionDisabled := True\<rparr>)
        = Some (?s\<lparr>g_preemptionDisabled := True, mutexes := ?M, queues := queues ?s\<rparr>)"
      using True held by (simp add: Mutex_Unlock_Imp_def set_mutex_def)
    ultimately show ?thesis by blast
  next
    case False
    let ?u = "?s\<lparr>g_preemptionDisabled := True, mutexes := ?M, ints := False\<rparr>"
    have T: "\<forall>t. pl t = In (MutexQ m) \<longrightarrow> threads ?u t \<noteq> None" using parts_threads [OF p] by auto
    have "q_rep (queues ?u) pl" using q by simp
    moreover have "\<exists>t. pl t = In (MutexQ m)" using False q_rep_empty [OF q] by blast
    ultimately obtain Q b where b: "Wake_Up_One (MutexQ m) ?u = Some (?u\<lparr>queues := Q\<rparr>)"
      "pl b = In (MutexQ m)" "q_rep Q (pl(b := In RunQ))"
      using Wake_Up_One_rep [of ?u pl, OF _ T] by auto
    have Tb: "threads ?s b \<noteq> None" using T b(2) by simp
    have Pb: "pc \<sigma> b = Locking m" using places_okD(2) [OF running_places [OF run] Tb] b(2) by simp
    have bc: "b \<noteq> ?c" using running_cur(1) [OF run] b(2) by auto
    have "mutex_ok (threads ?s) (pc \<sigma>) (pl(b := In RunQ)) ?M ?h"
      by (rule mo) (use Tb Pb in \<open>auto split: if_splits\<close>)
    then have "running (\<sigma>\<lparr>ks := ?s\<lparr>mutexes := ?M, queues := Q\<rparr>, held := ?h\<rparr>) (pl(b := In RunQ))"
      using run b(3) bc places_wake_one [OF running_places [OF run] _ b(2)]
        life_wake_one [OF running_life [OF run] _ b(2)]
      by (auto simp: state_defs)
    moreover have "?s\<lparr>g_preemptionDisabled := True, mutexes := ?M, ints := False, queues := Q, ints := True\<rparr>
        = ?s\<lparr>g_preemptionDisabled := True, mutexes := ?M, queues := Q\<rparr>"
      using i by (cases ?s) simp
    then have "Mutex_Unlock_Imp m (?s\<lparr>g_preemptionDisabled := True\<rparr>)
        = Some (?s\<lparr>g_preemptionDisabled := True, mutexes := ?M, queues := Q\<rparr>)"
      using False held b(1) i
      by (simp add: Mutex_Unlock_Imp_def set_mutex_def Disable_Interrupts_def Enable_Interrupts_def)
    ultimately show ?thesis by blast
  qed
qed

lemma unlock_step:
  assumes "kinv \<sigma> pl" and "pc \<sigma> (cur \<sigma>) = Running" and "(cur \<sigma>, m) \<in> held \<sigma>"
  shows "\<exists>\<sigma>' pl'. exec code (AUnlock m) \<sigma> = Some \<sigma>' \<and> kinv \<sigma>' pl'"
proof -
  note run = kinv_running [OF assms(1)]
  let ?s = "ks \<sigma>"
  have i: "ints ?s" using assms by (simp add: kinv_def can_act_def)
  from unlock_imp [OF run i assms(2,3)] obtain M Q pl' where
    u: "Mutex_Unlock_Imp m (?s\<lparr>g_preemptionDisabled := True\<rparr>)
      = Some (?s\<lparr>g_preemptionDisabled := True, mutexes := M, queues := Q\<rparr>)"
    "running (\<sigma>\<lparr>ks := ?s\<lparr>mutexes := M, queues := Q\<rparr>, held := held \<sigma> - {(cur \<sigma>, m)}\<rparr>) pl'" by blast
  have "?s\<lparr>mutexes := M, queues := Q, g_preemptionDisabled := False\<rparr> = ?s\<lparr>mutexes := M, queues := Q\<rparr>"
    using run by (cases ?s) (simp add: running_def)
  with u i assms(2) show ?thesis
    by (auto simp: Mutex_Unlock_def set_preemption_disabled_def kinv_def can_act_def)
qed

lemma cond_wait_step:
  assumes "kinv \<sigma> pl" and "pc \<sigma> (cur \<sigma>) = Running" and "cur \<sigma> \<noteq> idle \<sigma>" and "(cur \<sigma>, m) \<in> held \<sigma>"
  shows "\<exists>\<sigma>' pl'. exec code (ACondWait d m) \<sigma> = Some \<sigma>' \<and> kinv \<sigma>' pl'"
proof -
  note run = kinv_running [OF assms(1)]
  let ?s = "ks \<sigma>" let ?c = "cur \<sigma>" let ?h = "held \<sigma> - {(?c, m)}"
  have i: "ints ?s" using assms by (simp add: kinv_def can_act_def)
  from unlock_imp [OF run i assms(2,4)] obtain M Q pl' where
    u: "Mutex_Unlock_Imp m (?s\<lparr>g_preemptionDisabled := True\<rparr>)
      = Some (?s\<lparr>g_preemptionDisabled := True, mutexes := M, queues := Q\<rparr>)"
    "running (\<sigma>\<lparr>ks := ?s\<lparr>mutexes := M, queues := Q\<rparr>, held := ?h\<rparr>) pl'" by blast
  let ?\<sigma> = "\<sigma>\<lparr>ks := ?s\<lparr>mutexes := M, queues := Q, ints := False\<rparr>, held := ?h\<rparr>"
  have r: "?c \<noteq> reaper \<sigma>" by (rule cur_not_reaper [OF run]) (simp_all add: assms(2) reaper_cont_def)
  have "running ?\<sigma> pl'" using u(2) by (simp add: state_defs)
  moreover have "may_leave ?\<sigma> pl' (CondQ d) (CondWaiting d m)"
    using assms(2,3) r by (simp add: may_leave_def reaper_cont_def Let_def)
  moreover have "\<not> ints (ks ?\<sigma>)" by simp
  ultimately obtain s' pl'' where "Wait (CondQ d) (ks ?\<sigma>) = Some s'"
    "kinv (goes_to ?\<sigma> (CondWaiting d m) s') pl''" using Wait_inv by blast
  moreover have "goes_to ?\<sigma> (CondWaiting d m) s' = (goes_to \<sigma> (CondWaiting d m) s')\<lparr>held := ?h\<rparr>"
    by (simp add: goes_to_def)
  moreover have "?s\<lparr>mutexes := M, queues := Q, ints := False, g_preemptionDisabled := False\<rparr>
      = ?s\<lparr>mutexes := M, queues := Q, ints := False\<rparr>"
    using run by (cases ?s) (simp add: running_def)
  ultimately show ?thesis
    using u(1) i is_held [OF run assms(4)]
    by (auto simp: Cond_Wait_def set_preemption_disabled_def Disable_Interrupts_def)
qed

section \<open>The end of threads\<close>

text \<open>The last reference to a dead thread is given up: the reaper gets it.\<close>

lemma reap_parts:
  assumes p: "parts \<sigma> pl" and u: "u \<in> refs \<sigma>" "threads (ks \<sigma>) u = Some k" "pc \<sigma> u = Dead" "pl u = Nowhere"
    and nj: "\<forall>t. threads (ks \<sigma>) t \<noteq> None \<longrightarrow> pc \<sigma> t \<noteq> Joining u" and i: "\<not> ints (ks \<sigma>)"
  shows "\<exists>Q. Detach_Thread u (ks \<sigma>) = Some ((ks \<sigma>)\<lparr>
        threads := (threads (ks \<sigma>))(u \<mapsto> k\<lparr>refCount := refCount k - 1\<rparr>), queues := Q\<rparr>)
    \<and> parts (\<sigma>\<lparr>ks := (ks \<sigma>)\<lparr>threads := (threads (ks \<sigma>))(u \<mapsto> k\<lparr>refCount := refCount k - 1\<rparr>),
        queues := Q\<rparr>, refs := refs \<sigma> - {u}\<rparr>) (bury_place u pl)"
proof -
  let ?s = "ks \<sigma>" let ?T = "(threads ?s)(u \<mapsto> k\<lparr>refCount := refCount k - 1\<rparr>)"
  have P: "places_ok (threads ?s) (pc \<sigma>) pl (idle \<sigma>) (reaper \<sigma>)" and L: "life_ok (threads ?s) (pc \<sigma>) pl (refs \<sigma>) (reaper \<sigma>)"
    and M: "mutex_ok (threads ?s) (pc \<sigma>) pl (mutexes ?s) (held \<sigma>)" and q: "q_rep (queues ?s) pl"
    and G: "mem_ok (kmem ?s) (threads ?s) (s_allThreadList ?s)" and I: "pids_ok (threads ?s) (nextFreePid ?s)"
    using p by (simp_all add: parts_def Let_def)
  have r1: "refCount k = 1" using life_okD(2) [OF L u(2)] u(1,3) by simp
  have rs: "insert u (refs \<sigma> - {u}) = refs \<sigma>" using u(1) by auto
  obtain Q where Q: "Enqueue_Thread GraveyardQ u (?s\<lparr>threads := ?T\<rparr>) = Some (?s\<lparr>threads := ?T, queues := Q\<rparr>)"
    "q_rep Q (pl(u := In GraveyardQ))"
    using Enqueue_Thread_rep [of "?s\<lparr>threads := ?T\<rparr>" pl u GraveyardQ] q u(4) by auto
  obtain Q' where Q': "Wake_Up ReaperWaitQ (?s\<lparr>threads := ?T, queues := Q\<rparr>) = Some (?s\<lparr>threads := ?T, queues := Q'\<rparr>)"
    "q_rep Q' (bury_place u pl)"
    using Wake_Up_rep [of "?s\<lparr>threads := ?T, queues := Q\<rparr>" "pl(u := In GraveyardQ)" ReaperWaitQ] Q(2) i
    by (auto simp: bury_place_def)
  have "Detach_Thread u ?s = Some (?s\<lparr>threads := ?T, queues := Q'\<rparr>)"
    using Q(1) Q'(1) u(2) i r1 by (simp add: Detach_Thread_def upd_thread_def Reap_Thread_def)
  moreover have rd: "pc \<sigma> (reaper \<sigma>) \<noteq> Dead" using places_okD(9) [OF P] by (auto simp: reaper_cont_def)
  have "life_ok ?T (pc \<sigma>) (bury_place u pl) (refs \<sigma> - {u}) (reaper \<sigma>)"
    by (rule life_bury) (use L u nj rd rs in auto)
  moreover have "places_ok ?T (pc \<sigma>) (bury_place u pl) (idle \<sigma>) (reaper \<sigma>)"
    using places_bury [OF P u(3) _ disjI2 [OF u(4)]] u(2) by (auto simp: places_ok_def)
  moreover have "mutex_ok ?T (pc \<sigma>) (bury_place u pl) (mutexes ?s) (held \<sigma>)" by (rule mutex_bury [OF M u(2,3)])
  moreover have "mem_ok (kmem ?s) ?T (s_allThreadList ?s)" by (rule mem_ok_update [OF G u(2)]) simp
  moreover have "pids_ok ?T (nextFreePid ?s)" by (rule pids_ok_update [OF I u(2)]) simp
  ultimately show ?thesis using p Q'(2) by (auto simp: parts_def Let_def)
qed

lemma bury_Cur: "pl u \<noteq> Cur \<Longrightarrow> bury_place u pl t = Cur \<longleftrightarrow> pl t = Cur"
  by (auto simp: bury_place_cases)

text \<open>The loop of \<open>Join\<close>: the owner waits, or gets the exit code of the dead thread.\<close>

lemma join_loop:
  assumes run: "running \<sigma> pl" and i: "\<not> ints (ks \<sigma>)" and k: "pc \<sigma> (cur \<sigma>) \<in> {Running, Joining u}"
    and idle: "cur \<sigma> \<noteq> idle \<sigma>" and u: "u \<in> refs \<sigma>" "map_option owner (threads (ks \<sigma>) u) = Some (Some (cur \<sigma>))"
  shows "\<exists>r pl'. Join_Loop u (ks \<sigma>) = Some r \<and> kinv (after_join \<sigma> u r) pl'
    \<and> (\<forall>x s. r = Returned x s \<longrightarrow> pc \<sigma> u = Dead \<and> map_option exitCode (threads (ks \<sigma>) u) = Some x)"
proof -
  let ?s = "ks \<sigma>" let ?c = "cur \<sigma>"
  have r: "?c \<noteq> reaper \<sigma>" by (rule cur_not_reaper [OF run]) (use k in \<open>auto simp: reaper_cont_def\<close>)
  obtain x where x: "threads ?s u = Some x" "owner x = Some ?c" using u(2) by auto
  note L = running_life [OF run]
  have al: "alive x \<longleftrightarrow> pc \<sigma> u \<noteq> Dead" using life_okD(1) [OF L x(1)] .
  show ?thesis
  proof (cases "alive x")
    case True
    then have "may_leave \<sigma> pl (JoinQ u) (Joining u)"
      using k r idle u al by (auto simp: may_leave_def reaper_cont_def Let_def)
    from Wait_inv [OF run this i] obtain s' pl' where "Wait (JoinQ u) ?s = Some s'"
      "kinv (goes_to \<sigma> (Joining u) s') pl'" by blast
    with True x show ?thesis by (auto simp: Join_Loop_def after_join_def)
  next
    case False
    then have dead: "pc \<sigma> u = Dead" using al by simp
    let ?\<sigma> = "goes_to \<sigma> Running ?s"
    have run': "running ?\<sigma> pl" by (rule return_running [OF run]) (use k in \<open>auto simp: reaper_cont_def\<close>)
    have uc: "u \<noteq> ?c" using dead k by auto
    have dead': "pc ?\<sigma> u = Dead" using dead uc by (simp add: goes_to_def)
    have grave: "pl u \<noteq> In GraveyardQ" using life_okD(6) [OF L, of u] u(1) by auto
    have "ok_place (pl u) Dead" using places_okD(2) [OF running_places [OF run], of u] x dead by simp
    then have now: "pl u = Nowhere" using grave
      by (cases "pl u"; cases "case pl u of In q \<Rightarrow> q | _ \<Rightarrow> RunQ") (auto split: place.splits)
    have nj: "\<forall>t. threads (ks ?\<sigma>) t \<noteq> None \<longrightarrow> pc ?\<sigma> t \<noteq> Joining u"
      using life_okD(4) [OF L, of _ u] x by (auto simp: goes_to_def)
    have p: "parts ?\<sigma> pl" using run' by (simp add: running_def)
    obtain Q where Q: "Detach_Thread u ?s = Some (?s\<lparr>
        threads := (threads ?s)(u \<mapsto> x\<lparr>refCount := refCount x - 1\<rparr>), queues := Q\<rparr>)"
      "parts (?\<sigma>\<lparr>ks := ?s\<lparr>threads := (threads ?s)(u \<mapsto> x\<lparr>refCount := refCount x - 1\<rparr>),
        queues := Q\<rparr>, refs := refs \<sigma> - {u}\<rparr>) (bury_place u pl)"
      using reap_parts [OF p _ _ dead' now nj] u x i by (auto simp: goes_to_def)
    let ?s' = "?s\<lparr>threads := (threads ?s)(u \<mapsto> x\<lparr>refCount := refCount x - 1\<rparr>), queues := Q, ints := True\<rparr>"
    have "kinv ((goes_to \<sigma> Running ?s')\<lparr>refs := refs \<sigma> - {u}\<rparr>) (bury_place u pl)"
      using Q(2) run' now by (auto simp: kinv_def state_defs bury_Cur can_act_def)
    moreover have "Join_Loop u ?s = Some (Returned (exitCode x) ?s')"
      using False x Q(1) i by (simp add: Join_Loop_def Enable_Interrupts_def)
    ultimately show ?thesis using dead x by (auto simp: after_join_def)
  qed
qed

lemma join_step:
  assumes "kinv \<sigma> pl" and "may (AJoin u) \<sigma>"
  shows "\<exists>\<sigma>' pl'. exec code (AJoin u) \<sigma> = Some \<sigma>' \<and> kinv \<sigma>' pl'"
proof -
  let ?\<sigma> = "\<sigma>\<lparr>ks := (ks \<sigma>)\<lparr>ints := False\<rparr>\<rparr>"
  have i: "ints (ks \<sigma>)" using assms by (simp add: kinv_def can_act_def)
  have "running ?\<sigma> pl" using kinv_running [OF assms(1)] by (simp add: running_ints)
  from join_loop [OF this, of u] assms(2) obtain r pl' where
    "Join_Loop u ((ks \<sigma>)\<lparr>ints := False\<rparr>) = Some r" "kinv (after_join ?\<sigma> u r) pl'" by auto
  moreover have "after_join ?\<sigma> u r = after_join \<sigma> u r"
    by (simp add: after_join_def goes_to_def split: run.splits)
  ultimately show ?thesis
    using i assms(2) by (auto simp: Join_def Disable_Interrupts_def)
qed

text \<open>Without destructors \<open>Tlocal_Exit\<close> does nothing.\<close>

lemma tlocal_pass_none:
  "s_tlocalDestructors s = (\<lambda>_. 0) \<Longrightarrow> threads s t \<noteq> None \<Longrightarrow> tlocal_pass call t js c s = Some (c, s)"
  by (induction js) (auto simp: Let_def)

lemma Tlocal_Exit_none:
  "s_tlocalDestructors s = (\<lambda>_. 0) \<Longrightarrow> threads s t \<noteq> None \<Longrightarrow> \<not> ints s \<Longrightarrow> Tlocal_Exit call t s = Some s"
  by (simp add: Tlocal_Exit_def MIN_DESTRUCTOR_ITERATIONS_def eval_nat_numeral tlocal_pass_none)

lemma exit_step:
  assumes inv: "kinv \<sigma> pl" and m: "may (AExit x) \<sigma>"
  shows "\<exists>\<sigma>' pl'. exec code (AExit x) \<sigma> = Some \<sigma>' \<and> kinv \<sigma>' pl'"
proof -
  note run = kinv_running [OF inv]
  let ?s = "ks \<sigma>" let ?c = "cur \<sigma>"
  note c = running_cur [OF run] and L = running_life [OF run]
  have k: "pc \<sigma> ?c = Running" "?c \<noteq> idle \<sigma>" "\<forall>m. (?c, m) \<notin> held \<sigma>" using m by auto
  have i: "ints ?s" using inv k by (simp add: kinv_def can_act_def)
  have r: "?c \<noteq> reaper \<sigma>" by (rule cur_not_reaper [OF run]) (simp_all add: k reaper_cont_def)
  obtain t where t: "threads ?s ?c = Some t" using c(2) by auto
  define d where "d = t\<lparr>exitCode := x, alive := False\<rparr>"
  let ?s1 = "?s\<lparr>ints := False, threads := (threads ?s)(?c \<mapsto> d)\<rparr>"
  have q: "q_rep (queues ?s) pl" by (rule running_queues [OF run])
  obtain Q where Q: "Wake_Up (JoinQ ?c) ?s1 = Some (?s1\<lparr>queues := Q\<rparr>)" "q_rep Q (wake_place (JoinQ ?c) pl)"
    using Wake_Up_rep [of ?s1 pl "JoinQ ?c"] q by auto
  have Qd: "q_rep Q (die_place ?c pl)"
    unfolding die_place_def by (rule q_rep_unqueued [OF Q(2)]) (use c(1) in \<open>auto simp: wake_place_def\<close>)
  let ?T = "(threads ?s)(?c \<mapsto> t\<lparr>exitCode := x, alive := False, refCount := 1\<rparr>)"
  let ?s2 = "?s\<lparr>ints := False, threads := ?T, queues := Q\<rparr>"
  let ?\<sigma>2 = "(goes_to \<sigma> Dead ?s2)\<lparr>refs := insert ?c (refs \<sigma>)\<rparr>"
  have parts2: "parts ?\<sigma>2 (die_place ?c pl)"
    using run Qd places_die [OF running_places [OF run] k(1,2) t] life_die [OF L t k(1) c(1) r]
      mutex_die [OF running_mutex [OF run] t k(1,3)] mem_ok_update [OF running_mem [OF run] t] pids_ok_update [OF running_pids [OF run] t]
    by (simp add: state_defs)
  have head: "Exit no_call x ?s = do { s \<leftarrow> Detach_Thread ?c (?s1\<lparr>queues := Q\<rparr>); Schedule s }"
    using i t Q(1) run
    by (simp add: Exit_def Disable_Interrupts_def upd_thread_def d_def Tlocal_Exit_none state_defs)
  have noCur: "die_place ?c pl v \<noteq> Cur" for v using run by (auto simp: die_place_cases running_def)
  show ?thesis
  proof (cases "?c \<in> refs \<sigma>")
    case True
    then have "refCount t = 2" using life_okD(2) [OF L t] k(1) by simp
    then have "Detach_Thread ?c (?s1\<lparr>queues := Q\<rparr>) = Some ?s2"
      by (simp add: Detach_Thread_def upd_thread_def d_def)
    moreover have eq: "?\<sigma>2 = goes_to \<sigma> Dead ?s2" using True by (simp add: goes_to_def insert_absorb)
    obtain s' pl' where "Schedule ?s2 = Some s'" "kinv (goes_to \<sigma> Dead s') pl'"
      using switch_from [OF parts2 [unfolded eq] noCur] run by (auto simp: running_def)
    ultimately show ?thesis using head by auto
  next
    case False
    then have "refCount t = 1" using life_okD(2) [OF L t] k(1) by simp
    then have d: "d = t\<lparr>exitCode := x, alive := False, refCount := 1\<rparr>" unfolding d_def by simp
    have nj: "threads (ks ?\<sigma>2) v \<noteq> None \<longrightarrow> pc ?\<sigma>2 v \<noteq> Joining ?c" for v
      using life_okD(4) [OF L, of v ?c] False t by (auto simp: goes_to_def)
    let ?d = "d\<lparr>refCount := refCount d - 1\<rparr>"
    have ks2: "ks ?\<sigma>2 = ?s2" by (simp add: goes_to_def)
    have fold: "?\<sigma>2\<lparr>ks := s', refs := refs ?\<sigma>2 - {?c}\<rparr> = goes_to \<sigma> Dead s'" for s'
      using False by (simp add: goes_to_def)
    have u: "?c \<in> refs ?\<sigma>2" "threads (ks ?\<sigma>2) ?c = Some d" "pc ?\<sigma>2 ?c = Dead" "die_place ?c pl ?c = Nowhere"
      "\<not> ints (ks ?\<sigma>2)" using d by (simp_all add: goes_to_def die_place_cases)
    from reap_parts [OF parts2 u(1-4) _ u(5)] nj
    obtain Q' where Q': "Detach_Thread ?c ?s2 = Some (?s2\<lparr>threads := ?T(?c \<mapsto> ?d), queues := Q'\<rparr>)"
      "parts (goes_to \<sigma> Dead (?s2\<lparr>threads := ?T(?c \<mapsto> ?d), queues := Q'\<rparr>)) (bury_place ?c (die_place ?c pl))"
      unfolding fold unfolding ks2 by auto
    have "bury_place ?c (die_place ?c pl) v \<noteq> Cur" for v using noCur by (simp add: bury_Cur)
    then obtain s' pl' where "Schedule (?s2\<lparr>threads := ?T(?c \<mapsto> ?d), queues := Q'\<rparr>)
        = Some s'" "kinv (goes_to \<sigma> Dead s') pl'"
      using switch_from [OF Q'(2)] run by (auto simp: running_def)
    moreover have "?s1\<lparr>queues := Q\<rparr> = ?s2" using d by simp
    ultimately show ?thesis using Q'(1) head by auto
  qed
qed

section \<open>Interrupts\<close>

lemma kinv_ticks: "kinv (goes_to \<sigma> k (s\<lparr>thread_ticks := N\<rparr>)) pl \<longleftrightarrow> kinv (goes_to \<sigma> k s) pl"
  by (simp add: kinv_def state_defs)

lemma kinv_reschedule: "kinv (goes_to \<sigma> k (s\<lparr>g_needReschedule := b\<rparr>)) pl \<longleftrightarrow> kinv (goes_to \<sigma> k s) pl"
  by (simp add: kinv_def state_defs)

lemma running_ticks: "running (\<sigma>\<lparr>ks := s\<lparr>thread_ticks := N\<rparr>\<rparr>) pl \<longleftrightarrow> running (\<sigma>\<lparr>ks := s\<rparr>) pl"
  by (simp add: state_defs)

lemma may_leave_ticks: "may_leave (\<sigma>\<lparr>ks := s\<lparr>thread_ticks := N\<rparr>\<rparr>) pl q k \<longleftrightarrow> may_leave (\<sigma>\<lparr>ks := s\<rparr>) pl q k"
  by (simp add: may_leave_def Let_def)

text \<open>The choice of a new thread at the end of an interrupt is that of \<open>Schedule\<close>.\<close>

lemma next_runnable:
  assumes "Schedule s = Some s'"
  shows "\<exists>t s''. Get_Next_Runnable s = Some (t, s'') \<and> g_currentThread s'' = g_currentThread s
    \<and> s' = s''\<lparr>thread_ticks := (thread_ticks s'')(g_currentThread s := 0), g_currentThread := t\<rparr>"
proof -
  obtain t s'' where g: "Get_Next_Runnable s = Some (t, s'')" "s' = Switch_To_Thread t s''"
    using assms by (auto simp: Schedule_def split: bind_splits)
  then have "g_currentThread s'' = g_currentThread s"
    by (auto simp: Get_Next_Runnable_def Remove_Thread_def set_queue_def split: bind_splits)
  with g show ?thesis by (simp add: Switch_To_Thread_def)
qed

lemma preempt_may_leave:
  assumes run: "running \<sigma> pl" and k: "can_act (pc \<sigma> (cur \<sigma>))"
  shows "may_leave \<sigma> pl RunQ (preempted_at (pc \<sigma> (cur \<sigma>)))"
proof (cases "pc \<sigma> (cur \<sigma>)")
  case Running
  then have "cur \<sigma> \<noteq> reaper \<sigma>" by (intro cur_not_reaper [OF run]) (simp_all add: reaper_cont_def)
  with Running show ?thesis
    by (simp add: may_leave_def preempted_at_def can_act_def idle_cont_def reaper_cont_def Let_def)
next
  case (Reaping ts)
  then have "cur \<sigma> = reaper \<sigma>" by (intro cur_reaper [OF run]) (simp add: reaper_cont_def)
  with Reaping idle_not_reaper [OF run] show ?thesis
    by (simp add: may_leave_def preempted_at_def can_act_def reaper_cont_def Let_def)
qed (use k in \<open>simp_all add: can_act_def\<close>)

lemma handle_interrupt:
  assumes inv: "kinv \<sigma> pl" and k: "can_act (pc \<sigma> (cur \<sigma>))"
    and h: "handler ((ks \<sigma>)\<lparr>ints := False\<rparr>) = Some s1" and run: "running (\<sigma>\<lparr>ks := s1\<rparr>) pl1"
    and s1: "\<not> ints s1" "g_currentThread s1 = cur \<sigma>"
  shows "\<exists>\<sigma>' pl'. interrupt handler \<sigma> = Some \<sigma>' \<and> kinv \<sigma>' pl'"
proof -
  have i: "ints (ks \<sigma>)" using inv k by (simp add: kinv_def)
  have np: "\<not> g_preemptionDisabled s1" using run by (simp add: running_def)
  let ?k = "preempted_at (pc \<sigma> (cur \<sigma>))"
  show ?thesis
  proof (cases "g_needReschedule s1")
    case False
    have "kinv (\<sigma>\<lparr>ks := s1\<lparr>ints := True\<rparr>\<rparr>) pl1" using run k s1 by (simp add: kinv_def state_defs)
    moreover have "goes_to \<sigma> (pc \<sigma> (cur \<sigma>)) (s1\<lparr>ints := True\<rparr>) = \<sigma>\<lparr>ks := s1\<lparr>ints := True\<rparr>\<rparr>"
      by (simp add: goes_to_def)
    moreover have "Handle_Interrupt handler (ks \<sigma>) = Some (False, s1\<lparr>ints := True\<rparr>)"
      using i h np False by (simp add: Handle_Interrupt_def)
    ultimately show ?thesis by (auto simp: interrupt_def)
  next
    case True
    let ?\<sigma> = "\<sigma>\<lparr>ks := s1\<rparr>"
    have ml: "may_leave ?\<sigma> pl1 RunQ ?k" using preempt_may_leave [OF run] k s1 by simp
    from leave [OF run ml] obtain Q where Q: "Enqueue_Thread RunQ (cur \<sigma>) s1 = Some (s1\<lparr>queues := Q\<rparr>)"
      "parts (goes_to \<sigma> ?k (s1\<lparr>queues := Q\<rparr>)) (pl1(cur \<sigma> := In RunQ))"
      "\<forall>t. (pl1(cur \<sigma> := In RunQ)) t \<noteq> Cur"
      using s1 by (auto simp: goes_to_same_cur)
    let ?N = "(thread_ticks s1)(cur \<sigma> := 0)"
    let ?s2 = "s1\<lparr>queues := Q, thread_ticks := ?N\<rparr>"
    have "parts (goes_to \<sigma> ?k ?s2) (pl1(cur \<sigma> := In RunQ))" using Q(2) by (simp add: state_defs)
    from switch_from [OF this] Q(3) s1 np obtain s' pl' where s': "Schedule ?s2 = Some s'"
      "kinv (goes_to \<sigma> ?k s') pl'" by auto
    from next_runnable [OF s'(1)] obtain t s'' where t: "Get_Next_Runnable ?s2 = Some (t, s'')"
      "s' = s''\<lparr>thread_ticks := (thread_ticks s'')(cur \<sigma> := 0), g_currentThread := t\<rparr>" using s1 by auto
    have swap: "s' = s''\<lparr>g_currentThread := t, thread_ticks := (thread_ticks s'')(cur \<sigma> := 0)\<rparr>"
      using t(2) by simp
    have "kinv (goes_to \<sigma> ?k (s''\<lparr>g_currentThread := t, g_needReschedule := False\<rparr>)) pl'"
      using s'(2) by (simp add: swap kinv_ticks kinv_reschedule)
    moreover have "Handle_Interrupt handler (ks \<sigma>)
        = Some (True, s''\<lparr>g_currentThread := t, g_needReschedule := False\<rparr>)"
      using i h np True Q(1) s1 t(1) by (simp add: Handle_Interrupt_def Make_Runnable_def Let_def)
    ultimately show ?thesis by (auto simp: interrupt_def)
  qed
qed

lemma device_step:
  assumes "kinv \<sigma> pl" and "can_act (pc \<sigma> (cur \<sigma>))"
  shows "\<exists>\<sigma>' pl'. exec code (ADevice d) \<sigma> = Some \<sigma>' \<and> kinv \<sigma>' pl'"
proof -
  let ?\<sigma> = "\<sigma>\<lparr>ks := (ks \<sigma>)\<lparr>ints := False\<rparr>\<rparr>"
  have "running ?\<sigma> pl" using kinv_running [OF assms(1)] by (simp add: running_ints)
  from wake_running [OF this, of "DevQ d"] obtain Q where
    "Wake_Up (DevQ d) ((ks \<sigma>)\<lparr>ints := False\<rparr>) = Some ((ks \<sigma>)\<lparr>ints := False, queues := Q\<rparr>)"
    "running (\<sigma>\<lparr>ks := (ks \<sigma>)\<lparr>ints := False, queues := Q\<rparr>\<rparr>) (wake_place (DevQ d) pl)" by auto
  from handle_interrupt [where handler = "Wake_Up (DevQ d)", OF assms this] show ?thesis by simp
qed

lemma tick_step:
  assumes "kinv \<sigma> pl" and "can_act (pc \<sigma> (cur \<sigma>))"
  shows "\<exists>\<sigma>' pl'. exec code ATick \<sigma> = Some \<sigma>' \<and> kinv \<sigma>' pl'"
proof -
  note run = kinv_running [OF assms(1)]
  let ?c = "cur \<sigma>"
  let ?s = "(ks \<sigma>)\<lparr>ints := False, g_numTicks := g_numTicks (ks \<sigma>) + 1,
    thread_ticks := (thread_ticks (ks \<sigma>))(?c := thread_ticks (ks \<sigma>) ?c + 1)\<rparr>"
  let ?s1 = "if thread_ticks ?s ?c \<ge> g_Quantum ?s then ?s\<lparr>g_needReschedule := True\<rparr> else ?s"
  have s1: "Timer_Interrupt_Handler ((ks \<sigma>)\<lparr>ints := False\<rparr>) = Some ?s1"
    using running_cur(2) [OF run] by (simp add: Timer_Interrupt_Handler_def Let_def)
  have "running (\<sigma>\<lparr>ks := ?s1\<rparr>) pl" using run by (simp add: state_defs)
  moreover have "\<not> ints ?s1" "g_currentThread ?s1 = ?c" by simp_all
  ultimately show ?thesis
    using handle_interrupt [where handler = Timer_Interrupt_Handler, OF assms s1] by simp
qed

section \<open>The reaper\<close>

lemma q_rep_take: "q_rep Q pl \<Longrightarrow> q_rep (Q(GraveyardQ := [])) (take_place pl)"
  by (auto simp: q_rep_def take_place_def)

lemma take_Cur: "take_place pl t = Cur \<longleftrightarrow> pl t = Cur"
  by (simp add: take_place_def)

lemma reaper_round_step:
  assumes run: "running \<sigma> pl" and i: "\<not> ints (ks \<sigma>)" and k: "reaper_cont (pc \<sigma> (cur \<sigma>))" "batch (pc \<sigma> (cur \<sigma>)) = []"
  shows "\<exists>\<sigma>' pl'. reaper_round \<sigma> (ks \<sigma>) = Some \<sigma>' \<and> kinv \<sigma>' pl'"
proof -
  let ?s = "ks \<sigma>" let ?c = "cur \<sigma>"
  have r: "?c = reaper \<sigma>" by (rule cur_reaper [OF run k(1)])
  have nl: "pc \<sigma> ?c \<noteq> Locking m" for m using k(1) by (auto simp: reaper_cont_def)
  show ?thesis
  proof (cases "queues ?s GraveyardQ")
    case Nil
    then have "\<forall>t. pl t \<noteq> In GraveyardQ" using q_rep_empty [OF running_queues [OF run]] by simp
    then have "may_leave \<sigma> pl ReaperWaitQ ReaperLoop"
      using k r nl idle_not_reaper [OF run] by (simp add: may_leave_def reaper_cont_def Let_def)
    from Wait_inv [OF run this i] Nil show ?thesis by (auto simp: reaper_round_def Reaper_Round_def)
  next
    case (Cons t0 ts0)
    let ?ts = "queues ?s GraveyardQ"
    let ?s1 = "?s\<lparr>queues := (queues ?s)(GraveyardQ := []), ints := True\<rparr>"
    let ?\<sigma> = "goes_to \<sigma> (ReaperYielded ?ts) ?s1"
    have ts: "distinct ?ts" "\<And>t. t \<in> set ?ts \<longleftrightarrow> pl t = In GraveyardQ"
      using running_queues [OF run] by (auto simp: q_rep_def)
    have c: "pl (reaper \<sigma>) = Cur" "pc \<sigma> (reaper \<sigma>) \<noteq> Dead" "batch (pc \<sigma> (reaper \<sigma>)) = []"
      using running_cur [OF run] k(2) r by auto
    have "running ?\<sigma> (take_place pl)"
      using run q_rep_take [OF running_queues [OF run]] places_take [OF running_places [OF run] c(1)]
        life_take [OF running_life [OF run] c(2,3,1) ts] mutex_take [OF running_mutex [OF run], of "reaper \<sigma>"]
        nl r by (simp add: state_defs take_Cur)
    moreover have "may_leave ?\<sigma> (take_place pl) RunQ (ReaperYielded ?ts)"
      using r idle_not_reaper [OF run] nl
      by (simp add: may_leave_def goes_to_def reaper_cont_def can_act_def Let_def)
    moreover have "ints (ks ?\<sigma>)" by (simp add: goes_to_def)
    ultimately obtain s' pl' where "Yield (ks ?\<sigma>) = Some s'" "kinv (goes_to ?\<sigma> (ReaperYielded ?ts) s') pl'"
      using Yield_inv by blast
    moreover have "ks ?\<sigma> = ?s1" by (simp add: goes_to_def)
    moreover have "goes_to ?\<sigma> (ReaperYielded ?ts) s' = goes_to \<sigma> (ReaperYielded ?ts) s'"
      by (simp add: goes_to_twice)
    ultimately show ?thesis
      using Cons i by (auto simp: reaper_round_def Reaper_Round_def set_queue_def Enable_Interrupts_def)
  qed
qed

lemma reaper_round_same: "g_currentThread s = cur \<sigma> \<Longrightarrow> reaper_round (\<sigma>\<lparr>ks := s\<rparr>) s' = reaper_round \<sigma> s'"
  by (simp add: reaper_round_def goes_to_same_cur)

lemma destroy_thread:
  assumes mem: "mem_ok (kmem s) (threads s) (s_allThreadList s)" and t: "threads s t = Some k" and i: "ints s"
  shows "\<exists>m. Destroy_Thread t s = Some (s\<lparr>kmem := m, s_allThreadList := remove1 t (s_allThreadList s),
      threads := (threads s)(t := None)\<rparr>)
    \<and> mem_ok m ((threads s)(t := None)) (remove1 t (s_allThreadList s))"
proof -
  note D = mem_okD [OF mem]
  obtain ns where ns: "pm_inv (kmem s) ns" using D(1) by blast
  have ne: "t \<noteq> stackPage k" by (rule D(4) [OF t t])
  obtain m1 where m1: "Free_Page (stackPage k) (kmem s) = Some m1" "\<exists>ns. pm_inv m1 ns"
    "\<forall>b. page_ok (kmem s) b \<and> b \<noteq> stackPage k \<longrightarrow> page_ok m1 b"
    using Free_Page_page [OF ns D(3) [OF t]] by blast
  then obtain ns1 where ns1: "pm_inv m1 ns1" by blast
  have "page_ok m1 t" using m1(3) D(2) [OF t] ne by blast
  from Free_Page_page [OF ns1 this] obtain m2 where m2: "Free_Page t m1 = Some m2" "\<exists>ns. pm_inv m2 ns"
    "\<forall>b. page_ok m1 b \<and> b \<noteq> t \<longrightarrow> page_ok m2 b" by blast
  have "mem_ok m2 ((threads s)(t := None)) (remove1 t (s_allThreadList s))"
    by (rule mem_ok_destroy [OF mem t m2(2)]) (use m1(3) m2(3) in blast)
  moreover have "t \<in> set (s_allThreadList s)" using D(7) [of t] t by simp
  moreover have "s\<lparr>kmem := m2, s_allThreadList := remove1 t (s_allThreadList s),
      threads := (threads s)(t := None), ints := True\<rparr>
    = s\<lparr>kmem := m2, s_allThreadList := remove1 t (s_allThreadList s), threads := (threads s)(t := None)\<rparr>"
    using i by (cases s) simp
  ultimately show ?thesis
    using t m1(1) m2(1) i
    by (intro exI [of _ m2]) (simp add: Destroy_Thread_def free_page_def Disable_Interrupts_def Enable_Interrupts_def)
qed

lemma reap_step_inv:
  assumes inv: "kinv \<sigma> pl" and m: "may AReap \<sigma>"
  shows "\<exists>\<sigma>' pl'. exec code AReap \<sigma> = Some \<sigma>' \<and> kinv \<sigma>' pl'"
proof -
  note run = kinv_running [OF inv]
  let ?s = "ks \<sigma>" let ?c = "cur \<sigma>"
  obtain ts where ts: "pc \<sigma> ?c = Reaping ts" using m by auto
  have i: "ints ?s" using inv ts by (simp add: kinv_def can_act_def)
  have r: "?c = reaper \<sigma>" by (rule cur_reaper [OF run]) (simp add: ts reaper_cont_def)
  show ?thesis
  proof (cases ts)
    case Nil
    let ?\<sigma> = "\<sigma>\<lparr>ks := ?s\<lparr>ints := False\<rparr>\<rparr>"
    have "running ?\<sigma> pl" using run by (simp add: running_ints)
    from reaper_round_step [OF this] ts Nil obtain \<sigma>' pl' where
      "reaper_round \<sigma> (?s\<lparr>ints := False\<rparr>) = Some \<sigma>'" "kinv \<sigma>' pl'"
      by (auto simp: reaper_round_same reaper_cont_def)
    with ts Nil i show ?thesis by (auto simp: reap_step_def Disable_Interrupts_def)
  next
    case (Cons u us)
    note L = running_life [OF run] and P = running_places [OF run]
    have b: "batch (pc \<sigma> (reaper \<sigma>)) = u # us" using ts Cons r by simp
    then have u: "pc \<sigma> u = Dead" "threads ?s u \<noteq> None" "pl u = Nowhere"
      using life_okD(6) [OF L, of u] life_okD(8) [OF L, of u] by auto
    then obtain k where k: "threads ?s u = Some k" by auto
    from destroy_thread [OF running_mem [OF run] k i] obtain mm where
      d: "Destroy_Thread u ?s = Some (?s\<lparr>kmem := mm, s_allThreadList := remove1 u (s_allThreadList ?s),
        threads := (threads ?s)(u := None)\<rparr>)"
      "mem_ok mm ((threads ?s)(u := None)) (remove1 u (s_allThreadList ?s))" by blast
    have c: "pl (reaper \<sigma>) = Cur" "pc \<sigma> (reaper \<sigma>) \<noteq> Dead" "\<forall>n. pc \<sigma> (reaper \<sigma>) \<noteq> Locking n"
      using running_cur [OF run] ts r by auto
    have "kinv (goes_to \<sigma> (Reaping us) (?s\<lparr>kmem := mm, s_allThreadList := remove1 u (s_allThreadList ?s),
        threads := (threads ?s)(u := None)\<rparr>)) pl"
      using run d(2) i r places_destroy [OF P u(1,3) c(1)] life_destroy [OF L b c(2,1)] u(1)
        mutex_destroy [OF running_mutex [OF run] u(1) c(3)] pids_ok_destroy [OF running_pids [OF run]]
      by (auto simp: kinv_def state_defs can_act_def)
    with ts Cons d(1) show ?thesis by (auto simp: reap_step_def)
  qed
qed

section \<open>Starting threads\<close>

lemma push_all_run:
  "threads s t = Some k \<Longrightarrow> push_all t vs s = Some (s\<lparr>threads := (threads s)(t \<mapsto>
     k\<lparr>esp := esp k - 4 * word_of_nat (length vs), kstack := rev vs @ kstack k\<rparr>)\<rparr>)"
proof (induction vs arbitrary: s k)
  case Nil
  then have "(threads s)(t \<mapsto> k) = threads s" by auto
  then show ?case by simp
next
  case (Cons v vs)
  let ?k = "k\<lparr>esp := esp k - 4, kstack := v # kstack k\<rparr>"
  have "push_all t vs (s\<lparr>threads := (threads s)(t \<mapsto> ?k)\<rparr>)
    = Some (s\<lparr>threads := (threads s)(t \<mapsto>
        ?k\<lparr>esp := esp ?k - 4 * word_of_nat (length vs), kstack := rev vs @ kstack ?k\<rparr>)\<rparr>)"
    using Cons.IH [of "s\<lparr>threads := (threads s)(t \<mapsto> ?k)\<rparr>" ?k] by (simp del: fun_upd_apply add: fun_upd_same)
  with Cons.prems show ?case by (simp add: Push_def upd_thread_def algebra_simps del: fun_upd_apply)
qed

text \<open>The stack of a new kernel thread, top first: the registers, and the frame it returns through.\<close>

definition kernel_frame :: "code_addrs \<Rightarrow> u32 \<Rightarrow> u32 \<Rightarrow> u32 list" where
  "kernel_frame code f arg = [0, 0, KERNEL_DS, KERNEL_DS, 0, 0, 0, 0, 0, 0, 0, 0, 0,
     addr_Launch_Thread code, KERNEL_CS, 0, f, addr_Shutdown_Thread code, arg]"

lemma Setup_Kernel_Thread_run:
  assumes "threads s t = Some k"
  shows "Setup_Kernel_Thread code t f arg s = Some (s\<lparr>threads := (threads s)(t \<mapsto>
     k\<lparr>esp := esp k - 76, kstack := kernel_frame code f arg @ kstack k\<rparr>)\<rparr>)"
  using assms
  by (simp add: Setup_Kernel_Thread_def Push_General_Registers_def push_all_run kernel_frame_def del: push_all.simps)

lemma mem_ok_mono:
  assumes "mem_ok m T ts" and "\<exists>ns. pm_inv m' ns" and "\<And>b. page_ok m b \<Longrightarrow> page_ok m' b"
  shows "mem_ok m' T ts"
  by (rule mem_okI) (use assms mem_okD [OF assms(1)] in auto)

lemma create_thread_pages:
  assumes mem: "mem_ok (kmem s) (threads s) (s_allThreadList s)"
    and t: "Alloc_Page (kmem s) = Some (t, m1)" "t \<noteq> 0" "page_ok m1 t" "\<not> page_ok (kmem s) t"
      "\<forall>b. page_ok (kmem s) b \<longrightarrow> page_ok m1 b"
    and pg: "Alloc_Page m1 = Some (page, m2)" "page \<noteq> 0" "page_ok m2 page" "\<not> page_ok m1 page"
      "\<forall>b. page_ok m1 b \<longrightarrow> page_ok m2 b" "pm_inv m2 ns"
  shows "Create_Thread pr d s = Some (Some t, (Init_Thread t page pr d (s\<lparr>kmem := m2\<rparr>))\<lparr>
      s_allThreadList := s_allThreadList s @ [t]\<rparr>)
    \<and> threads s t = None
    \<and> mem_ok m2 ((threads s)(t \<mapsto> new_thread page pr d (g_currentThread s) (nextFreePid s))) (s_allThreadList s @ [t])"
proof -
  let ?k = "new_thread page pr d (g_currentThread s) (nextFreePid s)"
  have k: "stackPage ?k = page" by (simp add: new_thread_def)
  have "t \<noteq> page" using t pg by auto
  moreover have "\<forall>b. page_ok (kmem s) b \<longrightarrow> page_ok m2 b" using t(5) pg(5) by blast
  moreover have "page_ok m2 t" "page_ok m2 page" "\<not> page_ok (kmem s) page" using t pg by blast+
  ultimately have c: "threads s t = None \<and> mem_ok m2 ((threads s)(t \<mapsto> ?k)) (s_allThreadList s @ [t])"
    using mem_ok_create [OF mem _ _ _ _ t(4), of m2 ?k] pg(6) k by auto
  have "t \<notin> set (s_allThreadList s)" using mem_okD(7) [OF mem, of t] c by simp
  then have "Create_Thread pr d s = Some (Some t, (Init_Thread t page pr d (s\<lparr>kmem := m2\<rparr>))\<lparr>
        s_allThreadList := s_allThreadList s @ [t]\<rparr>)"
    using t(1,2) pg(1,2)
    by (simp add: Create_Thread_def alloc_page_def Init_Thread_def set_queue_def Let_def)
  with c show ?thesis by blast
qed

lemma create_thread_enough:
  assumes mem: "mem_ok (kmem s) (threads s) (s_allThreadList s)" and ns: "pm_inv (kmem s) (a # b # ns)"
  shows "\<exists>m t page. Create_Thread pr d s = Some (Some t, (Init_Thread t page pr d (s\<lparr>kmem := m\<rparr>))\<lparr>
      s_allThreadList := s_allThreadList s @ [t]\<rparr>)
    \<and> threads s t = None \<and> pm_inv m ns
    \<and> mem_ok m ((threads s)(t \<mapsto> new_thread page pr d (g_currentThread s) (nextFreePid s))) (s_allThreadList s @ [t])"
proof -
  obtain t m1 where t: "Alloc_Page (kmem s) = Some (t, m1)" "t \<noteq> 0" "page_ok m1 t" "\<not> page_ok (kmem s) t"
    "\<forall>b. page_ok (kmem s) b \<longrightarrow> page_ok m1 b" "pm_inv m1 (b # ns)"
    using Alloc_Page_some [OF ns] by blast
  obtain page m2 where pg: "Alloc_Page m1 = Some (page, m2)" "page \<noteq> 0" "page_ok m2 page" "\<not> page_ok m1 page"
    "\<forall>b. page_ok m1 b \<longrightarrow> page_ok m2 b" "pm_inv m2 ns"
    using Alloc_Page_some [OF t(6)] by blast
  from create_thread_pages [OF mem t(1-5) pg] pg(6) show ?thesis by blast
qed

lemma create_thread:
  assumes mem: "mem_ok (kmem s) (threads s) (s_allThreadList s)"
  shows "(\<exists>m. Create_Thread pr d s = Some (None, s\<lparr>kmem := m\<rparr>) \<and> mem_ok m (threads s) (s_allThreadList s))
    \<or> (\<exists>m t k page. k = new_thread page pr d (g_currentThread s) (nextFreePid s)
        \<and> Create_Thread pr d s = Some (Some t, (Init_Thread t page pr d (s\<lparr>kmem := m\<rparr>))\<lparr>
            s_allThreadList := s_allThreadList s @ [t]\<rparr>)
        \<and> threads s t = None \<and> mem_ok m ((threads s)(t \<mapsto> k)) (s_allThreadList s @ [t]))"
proof -
  obtain ns where ns: "pm_inv (kmem s) ns" using mem_okD(1) [OF mem] by blast
  consider "ns = []" | a where "ns = [a]" | a b ns' where "ns = a # b # ns'"
    by (metis list.exhaust)
  then show ?thesis
  proof cases
    case 1
    then have "Create_Thread pr d s = Some (None, s\<lparr>kmem := kmem s\<rparr>)"
      using Alloc_Page_empty ns by (simp add: Create_Thread_def alloc_page_def)
    with mem show ?thesis by blast
  next
    case (2 a)
    obtain t m1 where t: "Alloc_Page (kmem s) = Some (t, m1)" "t \<noteq> 0" "pm_inv m1 []" "page_ok m1 t"
      "\<not> page_ok (kmem s) t" "\<forall>b. page_ok (kmem s) b \<longrightarrow> page_ok m1 b"
      using Alloc_Page_some ns 2 by blast
    obtain m3 where m3: "Free_Page t m1 = Some m3" "\<exists>ns. pm_inv m3 ns"
      "\<forall>b. page_ok m1 b \<and> b \<noteq> t \<longrightarrow> page_ok m3 b" using Free_Page_page [OF t(3,4)] by blast
    have "mem_ok m3 (threads s) (s_allThreadList s)"
      by (rule mem_ok_mono [OF mem m3(2)]) (use t(5,6) m3(3) in blast)
    moreover have "Create_Thread pr d s = Some (None, s\<lparr>kmem := m3\<rparr>)"
      using t(1,2) Alloc_Page_empty [OF t(3)] m3(1) by (simp add: Create_Thread_def alloc_page_def free_page_def)
    ultimately show ?thesis by blast
  next
    case (3 a b ns')
    from create_thread_enough [OF mem ns [unfolded 3]] obtain m t page where
      c: "Create_Thread pr d s = Some (Some t, (Init_Thread t page pr d (s\<lparr>kmem := m\<rparr>))\<lparr>
          s_allThreadList := s_allThreadList s @ [t]\<rparr>)" "threads s t = None"
        "mem_ok m ((threads s)(t \<mapsto> new_thread page pr d (g_currentThread s) (nextFreePid s)))
          (s_allThreadList s @ [t])" by blast
    show ?thesis
      by (rule disjI2, rule exI [of _ m], rule exI [of _ t],
          rule exI [of _ "new_thread page pr d (g_currentThread s) (nextFreePid s)"], rule exI [of _ page])
        (intro conjI refl c)
  qed
qed

text \<open>A new thread on the run queue, whatever it starts with on its stack.\<close>

lemma kinv_create:
  assumes inv: "kinv \<sigma> pl" and t: "threads (ks \<sigma>) t = None"
    and k: "k = new_thread page pr d (cur \<sigma>) (nextFreePid (ks \<sigma>))"
    and mem: "mem_ok mm ((threads (ks \<sigma>))(t \<mapsto> k)) (s_allThreadList (ks \<sigma>) @ [t])"
    and k': "stackPage k' = stackPage k" "alive k' = alive k" "refCount k' = refCount k" "pid k' = pid k" "owner k' = owner k"
  shows "kinv (\<sigma>\<lparr>ks := (ks \<sigma>)\<lparr>kmem := mm, threads := (threads (ks \<sigma>))(t \<mapsto> k'), thread_ticks := N,
        nextFreePid := nextFreePid (ks \<sigma>) + 1, queues := (queues (ks \<sigma>))(RunQ := queues (ks \<sigma>) RunQ @ [t]),
        s_allThreadList := s_allThreadList (ks \<sigma>) @ [t]\<rparr>, pc := (pc \<sigma>)(t := Launching),
      refs := (if d then refs \<sigma> else insert t (refs \<sigma>))\<rparr>) (pl(t := In RunQ))"
proof -
  note run = kinv_running [OF inv]
  note P = running_places [OF run] and L = running_life [OF run] and q = running_queues [OF run]
  let ?T = "(threads (ks \<sigma>))(t \<mapsto> k')"
  have now: "pl t = Nowhere" by (rule places_okD(1) [OF P t])
  have tr: "t \<noteq> reaper \<sigma>" "t \<noteq> cur \<sigma>" using places_okD(5) [OF P] running_cur(2) [OF run] t by auto
  have "q_rep ((queues (ks \<sigma>))(RunQ := queues (ks \<sigma>) RunQ @ [t])) (pl(t := In RunQ))"
    by (rule q_rep_enqueue [OF q]) (use now in simp)
  moreover have "life_ok ?T ((pc \<sigma>)(t := Launching)) (pl(t := In RunQ)) (if d then refs \<sigma> else insert t (refs \<sigma>)) (reaper \<sigma>)"
    by (rule life_create [OF L t tr(1) now]) (simp_all add: k' k new_thread_def)
  moreover have "mem_ok mm ?T (s_allThreadList (ks \<sigma>) @ [t])"
    using mem_ok_update [OF mem, of t k k'] by (simp add: k')
  moreover have "pids_ok ?T (nextFreePid (ks \<sigma>) + 1)"
    by (rule pids_ok_create [OF running_pids [OF run]]) (simp add: k' k new_thread_def)
  ultimately show ?thesis
    using inv places_create [OF P t] mutex_create [OF running_mutex [OF run] t] tr now
    by (auto simp: kinv_def state_defs)
qed

lemma start_step:
  assumes inv: "kinv \<sigma> pl" and m: "may (AStart f arg pr d) \<sigma>"
  shows "\<exists>\<sigma>' pl'. exec code (AStart f arg pr d) \<sigma> = Some \<sigma>' \<and> kinv \<sigma>' pl'"
proof -
  note run = kinv_running [OF inv]
  let ?s = "ks \<sigma>" let ?c = "cur \<sigma>"
  have i: "ints ?s" using inv m by (simp add: kinv_def can_act_def)
  from create_thread [OF running_mem [OF run], of pr d] show ?thesis
  proof (elim disjE exE conjE)
    fix mm assume mm: "Create_Thread pr d ?s = Some (None, ?s\<lparr>kmem := mm\<rparr>)"
      "mem_ok mm (threads ?s) (s_allThreadList ?s)"
    then have "kinv (\<sigma>\<lparr>ks := ?s\<lparr>kmem := mm\<rparr>\<rparr>) pl" using inv by (simp add: kinv_def state_defs)
    with mm(1) show ?thesis by (auto simp: start_thread_def Start_Kernel_Thread_def)
  next
    fix mm t k page
    assume k: "k = new_thread page pr d ?c (nextFreePid ?s)"
      and cr: "Create_Thread pr d ?s = Some (Some t, (Init_Thread t page pr d (?s\<lparr>kmem := mm\<rparr>))\<lparr>
        s_allThreadList := s_allThreadList ?s @ [t]\<rparr>)"
      and t: "threads ?s t = None" and mem: "mem_ok mm ((threads ?s)(t \<mapsto> k)) (s_allThreadList ?s @ [t])"
    note P = running_places [OF run] and L = running_life [OF run] and q = running_queues [OF run]
    have now: "pl t = Nowhere" by (rule places_okD(1) [OF P t])
    have "queues ?s (JoinQ t) = []" using q_rep_empty [OF q] fresh_join_queue [OF P L t] by simp
    then have jq: "(queues ?s)(JoinQ t := []) = queues ?s" by auto
    let ?k = "k\<lparr>esp := esp k - 76, kstack := kernel_frame code f arg @ kstack k\<rparr>"
    let ?T = "(threads ?s)(t \<mapsto> ?k)"
    let ?Q = "(queues ?s)(RunQ := queues ?s RunQ @ [t])"
    let ?s' = "?s\<lparr>kmem := mm, threads := ?T, thread_ticks := (thread_ticks ?s)(t := 0),
      nextFreePid := nextFreePid ?s + 1, queues := ?Q, s_allThreadList := s_allThreadList ?s @ [t]\<rparr>"
    have tq: "t \<notin> set (queues ?s RunQ)" using now q_rep_mem [OF q] by simp
    have ri: "?s\<lparr>kmem := mm, threads := ?T, thread_ticks := (thread_ticks ?s)(t := 0),
      nextFreePid := nextFreePid ?s + 1, s_allThreadList := s_allThreadList ?s @ [t],
      ints := False, queues := ?Q, ints := True\<rparr> = ?s'"
      using i by (cases ?s) simp
    have "Start_Kernel_Thread code f arg pr d ?s = Some (Some t, ?s')"
      using cr i tq ri
      by (simp add: Start_Kernel_Thread_def Init_Thread_def set_queue_def k [symmetric] jq
          Setup_Kernel_Thread_run [of _ t k] Make_Runnable_Atomic_def Make_Runnable_def Enqueue_Thread_def
          Disable_Interrupts_def Enable_Interrupts_def)
    moreover have "kinv (\<sigma>\<lparr>ks := ?s', pc := (pc \<sigma>)(t := Launching),
        refs := (if d then refs \<sigma> else insert t (refs \<sigma>))\<rparr>) (pl(t := In RunQ))"
      by (rule kinv_create [OF inv t k mem]) simp_all
    ultimately show ?thesis by (auto simp: start_thread_def)
  qed
qed

section \<open>A thread is switched in\<close>

text \<open>The thread enables interrupts and runs its own code again.\<close>

lemma resume_running:
  assumes run: "running \<sigma> pl" and i: "\<not> ints (ks \<sigma>)" and k: "can_act k" "cur \<sigma> = idle \<sigma> \<longrightarrow> idle_cont k"
    "reaper_cont k \<longleftrightarrow> cur \<sigma> = reaper \<sigma>" "cur \<sigma> = reaper \<sigma> \<longrightarrow> batch k = batch (pc \<sigma> (cur \<sigma>))"
    and p: "\<forall>m. pc \<sigma> (cur \<sigma>) \<noteq> Locking m"
  shows "kinv (goes_to \<sigma> k ((ks \<sigma>)\<lparr>ints := True\<rparr>)) pl"
proof -
  have "running (goes_to \<sigma> k (ks \<sigma>)) pl"
    by (rule go_on [OF run]) (use k p in \<open>auto simp: can_act_def\<close>)
  then show ?thesis by (rule go_on_inv [OF _ k(1)])
qed

text \<open>A thread that got the processor after waiting for a mutex or a condition.\<close>

lemma resume_lock:
  assumes run: "running \<sigma> pl" and i: "\<not> ints (ks \<sigma>)" and k: "pc \<sigma> (cur \<sigma>) \<in> {Locking m, CondWaiting d m}"
  shows "\<exists>r pl'. Mutex_Lock_Loop m ((ks \<sigma>)\<lparr>g_preemptionDisabled := True, ints := True\<rparr>) = Some r
    \<and> kinv (after_lock \<sigma> m (finish_lock r)) pl' \<and> (cur \<sigma>, m) \<notin> held \<sigma>"
proof -
  let ?\<sigma> = "\<sigma>\<lparr>ks := (ks \<sigma>)\<lparr>ints := True\<rparr>\<rparr>"
  have h: "(cur \<sigma>, m) \<notin> held \<sigma>"
    using mutex_okD(5) [OF running_mutex [OF run] running_cur(2) [OF run], of m d] k by auto
  have idle: "cur \<sigma> \<noteq> idle \<sigma>" by (rule cur_not_idle [OF run]) (use k in \<open>auto simp: idle_cont_def\<close>)
  have "running ?\<sigma> pl" using run by (simp add: running_ints)
  then obtain r pl' where r: "Mutex_Lock_Loop m ((ks ?\<sigma>)\<lparr>g_preemptionDisabled := True\<rparr>) = Some r"
    "kinv (after_lock ?\<sigma> m (finish_lock r)) pl'"
    using lock_loop [of ?\<sigma> pl m d] k idle h by auto
  have al: "after_lock ?\<sigma> m (finish_lock r) = after_lock \<sigma> m (finish_lock r)"
    by (simp add: after_lock_def goes_to_same_cur split: run.splits)
  have sw: "(ks ?\<sigma>)\<lparr>g_preemptionDisabled := True\<rparr> = (ks \<sigma>)\<lparr>g_preemptionDisabled := True, ints := True\<rparr>"
    by simp
  show ?thesis using r(1) [unfolded sw] r(2) [unfolded al] h by blast
qed

lemma resume_step:
  assumes inv: "kinv \<sigma> pl" and m: "may Resume \<sigma>"
  shows "\<exists>\<sigma>' pl'. exec code Resume \<sigma> = Some \<sigma>' \<and> kinv \<sigma>' pl'"
proof -
  note run = kinv_running [OF inv]
  let ?s = "ks \<sigma>" let ?c = "cur \<sigma>"
  have i: "\<not> ints ?s" using inv m by (simp add: kinv_def)
  note rr = resume_running [OF run i]
  have nr: "?c \<noteq> reaper \<sigma>" if "\<not> reaper_cont (pc \<sigma> ?c)" "pc \<sigma> ?c \<noteq> Launching"
    by (rule cur_not_reaper [OF run that])
  have ni: "?c \<noteq> idle \<sigma>" if "?c = reaper \<sigma>" using idle_not_reaper [OF run] that by simp
  show ?thesis
  proof (cases "pc \<sigma> ?c")
    case Running with m show ?thesis by (simp add: can_act_def)
  next
    case (Reaping ts) with m show ?thesis by (simp add: can_act_def)
  next
    case Dead with running_cur(3) [OF run] show ?thesis by simp
  next
    case Launching
    let ?k = "if ?c = reaper \<sigma> then Reaping [] else Running"
    have "kinv (goes_to \<sigma> ?k (?s\<lparr>ints := True\<rparr>)) pl"
      by (rule rr) (use Launching ni in \<open>auto simp: can_act_def reaper_cont_def idle_cont_def\<close>)
    with Launching i show ?thesis
      by (intro exI [of _ "goes_to \<sigma> ?k (?s\<lparr>ints := True\<rparr>)"])
        (auto simp: resume_def Launch_Thread_def Enable_Interrupts_def)
  next
    case Yielding
    have "kinv (goes_to \<sigma> Running (?s\<lparr>ints := True\<rparr>)) pl"
      by (rule rr) (use Yielding nr in \<open>auto simp: can_act_def reaper_cont_def idle_cont_def\<close>)
    with Yielding i show ?thesis by (auto simp: resume_def Enable_Interrupts_def)
  next
    case (DevWaiting d)
    have "kinv (goes_to \<sigma> Running (?s\<lparr>ints := True\<rparr>)) pl"
      by (rule rr) (use DevWaiting nr in \<open>auto simp: can_act_def reaper_cont_def idle_cont_def\<close>)
    with DevWaiting i show ?thesis by (auto simp: resume_def Enable_Interrupts_def)
  next
    case Preempted
    have "kinv (goes_to \<sigma> Running (?s\<lparr>ints := True\<rparr>)) pl"
      by (rule rr) (use Preempted nr in \<open>auto simp: can_act_def reaper_cont_def idle_cont_def\<close>)
    with Preempted show ?thesis by (auto simp: resume_def)
  next
    case (PreemptedReaping ts)
    then have r: "?c = reaper \<sigma>" by (intro cur_reaper [OF run]) (simp add: reaper_cont_def)
    have "kinv (goes_to \<sigma> (Reaping ts) (?s\<lparr>ints := True\<rparr>)) pl"
      by (rule rr) (use PreemptedReaping r ni in \<open>auto simp: can_act_def reaper_cont_def\<close>)
    with PreemptedReaping show ?thesis by (auto simp: resume_def)
  next
    case (ReaperYielded ts)
    then have r: "?c = reaper \<sigma>" by (intro cur_reaper [OF run]) (simp add: reaper_cont_def)
    have "kinv (goes_to \<sigma> (Reaping ts) (?s\<lparr>ints := True\<rparr>)) pl"
      by (rule rr) (use ReaperYielded r ni in \<open>auto simp: can_act_def reaper_cont_def\<close>)
    with ReaperYielded i show ?thesis by (auto simp: resume_def Enable_Interrupts_def)
  next
    case ReaperLoop
    with reaper_round_step [OF run i] show ?thesis by (auto simp: resume_def reaper_cont_def)
  next
    case (Joining u)
    have "u \<in> refs \<sigma> \<and> map_option owner (threads ?s u) = Some (Some ?c)"
      using life_okD(4) [OF running_life [OF run] running_cur(2) [OF run] Joining] .
    moreover have "?c \<noteq> idle \<sigma>" by (rule cur_not_idle [OF run]) (simp add: Joining idle_cont_def)
    ultimately show ?thesis using join_loop [OF run i, of u] Joining by (auto simp: resume_def)
  next
    case (Locking n)
    from resume_lock [OF run i, of n] Locking i show ?thesis
      by (auto simp: resume_def Mutex_Lock_Resume_def Mutex_Wait_Resume_def set_preemption_disabled_def
          Enable_Interrupts_def)
  next
    case (CondWaiting d n)
    from resume_lock [OF run i, of n d] CondWaiting i obtain r pl' where
      r: "Mutex_Lock_Loop n (?s\<lparr>g_preemptionDisabled := True, ints := True\<rparr>) = Some r"
      "kinv (after_lock \<sigma> n (finish_lock r)) pl'" "(?c, n) \<notin> held \<sigma>" by auto
    have "\<not> IS_HELD n (?s\<lparr>g_preemptionDisabled := True, ints := True\<rparr>)"
      using not_held [OF run r(3)] by (simp add: IS_HELD_def)
    with r CondWaiting i show ?thesis
      by (auto simp: resume_def Cond_Wait_Resume_def Mutex_Lock_Imp_def set_preemption_disabled_def
          Enable_Interrupts_def)
  qed
qed

section \<open>All steps\<close>

theorem step_ok:
  assumes "kinv \<sigma> pl" and "may a \<sigma>"
  shows "\<exists>\<sigma>' pl'. exec code a \<sigma> = Some \<sigma>' \<and> kinv \<sigma>' pl'"
proof (cases a)
  case Resume with assms resume_step show ?thesis by simp
next
  case AYield with assms yield_step show ?thesis by simp
next
  case AStart with assms start_step show ?thesis by blast
next
  case AExit with assms exit_step show ?thesis by blast
next
  case AJoin with assms join_step show ?thesis by blast
next
  case ALock with assms lock_step show ?thesis by fastforce
next
  case AUnlock with assms unlock_step show ?thesis by fastforce
next
  case ACondWait with assms cond_wait_step show ?thesis by fastforce
next
  case ASignal with assms signal_step show ?thesis by fastforce
next
  case ABroadcast with assms broadcast_step show ?thesis by fastforce
next
  case ADevWait with assms dev_wait_step show ?thesis by fastforce
next
  case ADevice with assms device_step show ?thesis by fastforce
next
  case ATick with assms tick_step show ?thesis by fastforce
next
  case AReap with assms reap_step_inv show ?thesis by blast
qed

end
