(* ===== verification/Reach.thy ===== *)
theory Reach
  imports System
begin

text \<open>
  The reachable states of the kernel's threads: those that \<open>Init_Scheduler\<close> sets up and those
  that steps lead to.  The properties of this theory hold in all of them, by rule induction
  over the steps with the invariant of theory \<open>Invariant\<close>.
\<close>

section \<open>Boot\<close>

text \<open>
  What \<open>Init_Scheduler\<close> finds: memory that \<open>Init_Mem\<close> set up, with at least the four free pages
  that the idle thread and the reaper need, and cleared static data.
\<close>

definition fresh :: "kstate \<Rightarrow> bool" where
  "fresh s \<longleftrightarrow> (\<exists>a b c d ns. pm_inv (kmem s) (a # b # c # d # ns))
     \<and> page_ok (kmem s) KERN_THREAD_OBJ \<and> page_ok (kmem s) KERN_STACK
     \<and> threads s = Map.empty \<and> queues s = (\<lambda>_. []) \<and> s_allThreadList s = []
     \<and> mutexes s = (\<lambda>_. \<lparr>m_locked = False, m_owner = None\<rparr>) \<and> ints s
     \<and> \<not> g_preemptionDisabled s \<and> s_tlocalDestructors s = (\<lambda>_. 0)"

text \<open>The system of the three threads that exist then.\<close>

definition boot_sys :: "kstate \<Rightarrow> tid \<Rightarrow> tid \<Rightarrow> sys" where
  "boot_sys s i r = \<lparr>ks = s, pc = (\<lambda>t. if t = KERN_THREAD_OBJ then Running else Launching),
     held = {}, refs = {}, idle = i, reaper = r\<rparr>"

lemma Start_Kernel_Thread_enough:
  assumes mem: "mem_ok (kmem s) (threads s) (s_allThreadList s)" and ns: "pm_inv (kmem s) (a # b # ns)"
    and i: "ints s" and q: "\<And>t. threads s t = None \<Longrightarrow> queues s (JoinQ t) = [] \<and> t \<notin> set (queues s RunQ)"
  shows "\<exists>m t k N. Start_Kernel_Thread code f arg pr True s = Some (Some t, s\<lparr>kmem := m,
      threads := (threads s)(t \<mapsto> k), thread_ticks := N, nextFreePid := nextFreePid s + 1,
      queues := (queues s)(RunQ := queues s RunQ @ [t]), s_allThreadList := s_allThreadList s @ [t]\<rparr>)
    \<and> threads s t = None \<and> pm_inv m ns \<and> mem_ok m ((threads s)(t \<mapsto> k)) (s_allThreadList s @ [t])
    \<and> pid k = nextFreePid s \<and> alive k \<and> refCount k = 1 \<and> priority k = pr"
proof -
  from create_thread_enough [OF mem ns, of pr True] obtain m t page where
    cr: "Create_Thread pr True s = Some (Some t, (Init_Thread t page pr True (s\<lparr>kmem := m\<rparr>))\<lparr>
      s_allThreadList := s_allThreadList s @ [t]\<rparr>)" and t: "threads s t = None" "pm_inv m ns"
    "mem_ok m ((threads s)(t \<mapsto> new_thread page pr True (g_currentThread s) (nextFreePid s)))
      (s_allThreadList s @ [t])" by blast
  define k where "k = new_thread page pr True (g_currentThread s) (nextFreePid s)"
  let ?k = "k\<lparr>esp := esp k - 76, kstack := kernel_frame code f arg @ kstack k\<rparr>"
  let ?N = "(thread_ticks s)(t := 0)" let ?Q = "(queues s)(RunQ := queues s RunQ @ [t])"
  have jq: "(queues s)(JoinQ t := []) = queues s" and tq: "t \<notin> set (queues s RunQ)"
    using q [OF t(1)] by auto
  have ri: "s\<lparr>kmem := m, threads := (threads s)(t \<mapsto> ?k), thread_ticks := ?N,
      nextFreePid := nextFreePid s + 1, s_allThreadList := s_allThreadList s @ [t],
      ints := False, queues := ?Q, ints := True\<rparr>
    = s\<lparr>kmem := m, threads := (threads s)(t \<mapsto> ?k), thread_ticks := ?N,
      nextFreePid := nextFreePid s + 1, queues := ?Q, s_allThreadList := s_allThreadList s @ [t]\<rparr>"
    using i by (cases s) simp
  have "Start_Kernel_Thread code f arg pr True s = Some (Some t, s\<lparr>kmem := m,
      threads := (threads s)(t \<mapsto> ?k), thread_ticks := ?N, nextFreePid := nextFreePid s + 1,
      queues := ?Q, s_allThreadList := s_allThreadList s @ [t]\<rparr>)"
    using cr i tq ri
    by (simp add: Start_Kernel_Thread_def Init_Thread_def set_queue_def k_def [symmetric] jq
        Setup_Kernel_Thread_run [of _ t k] Make_Runnable_Atomic_def Make_Runnable_def Enqueue_Thread_def
        Disable_Interrupts_def Enable_Interrupts_def)
  moreover have "mem_ok m ((threads s)(t \<mapsto> ?k)) (s_allThreadList s @ [t])"
    using mem_ok_update [OF t(3), of t k ?k] by (simp add: k_def)
  moreover have "pid ?k = nextFreePid s" "alive ?k" "refCount ?k = 1" "priority ?k = pr"
    by (simp_all add: k_def new_thread_def)
  ultimately show ?thesis using t(1,2) by blast
qed

lemma Init_Scheduler_boots:
  assumes "fresh s0"
  shows "\<exists>s i r pl. Init_Scheduler code s0 = Some s \<and> s_allThreadList s = [KERN_THREAD_OBJ, i, r]
    \<and> kinv (boot_sys s i r) pl \<and> g_currentThread s = KERN_THREAD_OBJ \<and> queues s RunQ = [i, r] \<and> ints s
    \<and> map_option priority (threads s i) = Some PRIORITY_IDLE
    \<and> map_option priority (threads s r) = Some PRIORITY_NORMAL"
proof -
  let ?m = "KERN_THREAD_OBJ"
  obtain a b c d ns where ns: "pm_inv (kmem s0) (a # b # c # d # ns)" using assms by (auto simp: fresh_def)
  let ?k = "new_thread KERN_STACK PRIORITY_NORMAL True (g_currentThread s0) (nextFreePid s0)"
  let ?s1 = "(Init_Thread ?m KERN_STACK PRIORITY_NORMAL True s0)\<lparr>g_currentThread := ?m, s_allThreadList := [?m]\<rparr>"
  have ne: "?m \<noteq> KERN_STACK" by (simp add: KERN_THREAD_OBJ_def KERN_STACK_def)
  have q1: "queues ?s1 = (\<lambda>_. [])" and T1: "threads ?s1 = [?m \<mapsto> ?k]" and i1: "ints ?s1"
    and al1: "s_allThreadList ?s1 = [?m]" and m1: "kmem ?s1 = kmem s0" and n1: "nextFreePid ?s1 = nextFreePid s0 + 1"
    using assms by (auto simp: Init_Thread_def set_queue_def fresh_def)
  have mem1: "mem_ok (kmem ?s1) (threads ?s1) (s_allThreadList ?s1)"
    unfolding T1 al1 m1
    by (rule mem_okI) (use assms ns ne in \<open>auto simp: fresh_def new_thread_def split: if_splits\<close>)
  obtain m2 i k2 N2 where
    "Start_Kernel_Thread code (addr_Idle code) 0 PRIORITY_IDLE True ?s1 = Some (Some i, ?s1\<lparr>kmem := m2,
      threads := (threads ?s1)(i \<mapsto> k2), thread_ticks := N2, nextFreePid := nextFreePid ?s1 + 1,
      queues := (queues ?s1)(RunQ := queues ?s1 RunQ @ [i]), s_allThreadList := s_allThreadList ?s1 @ [i]\<rparr>)"
    and i: "threads ?s1 i = None" "pm_inv m2 (c # d # ns)"
      "mem_ok m2 ((threads ?s1)(i \<mapsto> k2)) (s_allThreadList ?s1 @ [i])"
      "pid k2 = nextFreePid ?s1" "alive k2" "refCount k2 = 1" "priority k2 = PRIORITY_IDLE"
    using Start_Kernel_Thread_enough [OF mem1 _ i1, of a b "c # d # ns" code "addr_Idle code" 0 PRIORITY_IDLE]
      ns m1 q1 by auto
  moreover define s2 where "s2 = ?s1\<lparr>kmem := m2, threads := (threads ?s1)(i \<mapsto> k2), thread_ticks := N2,
    nextFreePid := nextFreePid ?s1 + 1, queues := (queues ?s1)(RunQ := queues ?s1 RunQ @ [i]),
    s_allThreadList := s_allThreadList ?s1 @ [i]\<rparr>"
  ultimately have st2: "Start_Kernel_Thread code (addr_Idle code) 0 PRIORITY_IDLE True ?s1 = Some (Some i, s2)"
    by simp
  have q2: "queues s2 = (\<lambda>_. [])(RunQ := [i])" and T2: "threads s2 = [?m \<mapsto> ?k, i \<mapsto> k2]" and i2: "ints s2"
    and al2: "s_allThreadList s2 = [?m, i]" and n2: "nextFreePid s2 = nextFreePid s0 + 2" and m2: "kmem s2 = m2"
    using q1 T1 i1 al1 n1 by (simp_all add: s2_def)
  have mem2: "mem_ok (kmem s2) (threads s2) (s_allThreadList s2)" using i(3) by (simp add: s2_def)
  have ns2: "pm_inv (kmem s2) (c # d # ns)" using i(2) m2 by simp
  have "queues s2 (JoinQ t) = [] \<and> t \<notin> set (queues s2 RunQ)" if "threads s2 t = None" for t
    using that by (auto simp: q2 T2 split: if_splits)
  from Start_Kernel_Thread_enough [OF mem2 ns2 i2 this, of code "addr_Reaper code" 0 PRIORITY_NORMAL]
  obtain m3 r k3 N3 where
    st3: "Start_Kernel_Thread code (addr_Reaper code) 0 PRIORITY_NORMAL True s2 = Some (Some r, s2\<lparr>kmem := m3,
      threads := (threads s2)(r \<mapsto> k3), thread_ticks := N3, nextFreePid := nextFreePid s2 + 1,
      queues := (queues s2)(RunQ := queues s2 RunQ @ [r]), s_allThreadList := s_allThreadList s2 @ [r]\<rparr>)"
    and r: "threads s2 r = None" "mem_ok m3 ((threads s2)(r \<mapsto> k3)) (s_allThreadList s2 @ [r])"
      "pid k3 = nextFreePid s2" "alive k3" "refCount k3 = 1" "priority k3 = PRIORITY_NORMAL" by blast
  let ?s3 = "s2\<lparr>kmem := m3, threads := (threads s2)(r \<mapsto> k3), thread_ticks := N3,
    nextFreePid := nextFreePid s2 + 1, queues := (queues s2)(RunQ := queues s2 RunQ @ [r]),
    s_allThreadList := s_allThreadList s2 @ [r]\<rparr>"
  have new: "i \<noteq> ?m" "r \<noteq> ?m" "r \<noteq> i" using i(1) r(1) by (auto simp: T1 T2 split: if_splits)
  have run: "Init_Scheduler code s0 = Some ?s3"
    using assms st2 st3
    by (simp add: Init_Scheduler_def Let_def fresh_def Init_Thread_def set_queue_def)
  define pl where "pl t = (if t = ?m then Cur else if t = i \<or> t = r then In RunQ else Nowhere)" for t
  have T3: "threads ?s3 = [?m \<mapsto> ?k, i \<mapsto> k2, r \<mapsto> k3]" by (simp add: T2)
  have k: "alive ?k" "refCount ?k = 1" "pid ?k = nextFreePid s0" by (simp_all add: new_thread_def)
  have "kinv (boot_sys ?s3 i r) pl"
  proof -
    let ?P = "\<lambda>t. if t = ?m then Running else Launching"
    have "q_rep (queues ?s3) pl" using new by (auto simp: q_rep_def q2 pl_def)
    moreover have "places_ok (threads ?s3) ?P pl i r"
      unfolding T3 by (rule places_okI) (use new in \<open>auto simp: pl_def idle_cont_def reaper_cont_def can_act_def split: if_splits\<close>)
    moreover have "life_ok (threads ?s3) ?P pl {} r"
      unfolding T3 by (rule life_okI) (use new k i r in \<open>auto simp: pl_def split: if_splits\<close>)
    moreover have "mutex_ok (threads ?s3) ?P pl (mutexes ?s3) {}"
      unfolding T3 by (rule mutex_okI)
        (use assms in \<open>auto simp: pl_def s2_def Init_Thread_def set_queue_def fresh_def split: if_splits\<close>)
    moreover have "pids_ok (threads ?s3) (nextFreePid ?s3)"
      unfolding T3 pids_ok_def using k i(4) r(3) n1 n2 by auto
    moreover have "g_currentThread ?s3 = ?m" "\<not> g_preemptionDisabled ?s3" "s_tlocalDestructors ?s3 = (\<lambda>_. 0)"
      using assms by (simp_all add: s2_def Init_Thread_def set_queue_def fresh_def)
    ultimately show ?thesis
      using r(2) i2 by (auto simp: kinv_def state_defs boot_sys_def pl_def can_act_def)
  qed
  moreover have "s_allThreadList ?s3 = [?m, i, r]" using al2 by simp
  moreover have "queues ?s3 RunQ = [i, r]" "ints ?s3" using q2 i2 by simp_all
  moreover have "map_option priority (threads ?s3 i) = Some PRIORITY_IDLE"
    "map_option priority (threads ?s3 r) = Some PRIORITY_NORMAL" using new i(7) r(6) by (simp_all add: T3)
  moreover have "g_currentThread ?s3 = ?m" by (simp add: s2_def)
  ultimately show ?thesis using run by blast
qed

section \<open>Reachable states\<close>

inductive reachable :: "code_addrs \<Rightarrow> sys \<Rightarrow> bool" for code :: code_addrs where
  boot: "fresh s0 \<Longrightarrow> Init_Scheduler code s0 = Some s \<Longrightarrow> s_allThreadList s = [KERN_THREAD_OBJ, i, r]
    \<Longrightarrow> reachable code (boot_sys s i r)"
| step: "reachable code \<sigma> \<Longrightarrow> may a \<sigma> \<Longrightarrow> exec code a \<sigma> = Some \<sigma>' \<Longrightarrow> reachable code \<sigma>'"

lemma reachable_inv: "reachable code \<sigma> \<Longrightarrow> \<exists>pl. kinv \<sigma> pl"
proof (induction rule: reachable.induct)
  case (boot s0 s i r)
  from Init_Scheduler_boots [OF boot(1), of code] boot(2,3) show ?case by auto
next
  case (step \<sigma> a \<sigma>')
  from step.IH obtain pl where "kinv \<sigma> pl" by blast
  from step_ok [OF this step.hyps(2), of code] step.hyps(3) show ?case by auto
qed

lemma reachable_running: "reachable code \<sigma> \<Longrightarrow> \<exists>pl. running \<sigma> pl"
  using reachable_inv kinv_running by blast

lemma reachable_parts:
  assumes "reachable code \<sigma>"
  obtains pl where "running \<sigma> pl" "kinv \<sigma> pl"
  using reachable_inv [OF assms] kinv_running by blast

inductive_cases reachable_cases: "reachable code \<sigma>"

text \<open>Memory of 8 MB, as \<open>Init_Mem\<close> leaves it, has what \<open>fresh\<close> asks for.\<close>

definition boot_state :: "phys_mem \<Rightarrow> kstate" where
  "boot_state m = \<lparr>kmem = m, threads = Map.empty, thread_ticks = (\<lambda>_. 0), queues = (\<lambda>_. []),
     s_allThreadList = [], ucontexts = Map.empty, g_currentThread = 0, g_needReschedule = False,
     g_preemptionDisabled = False, ints = True, nextFreePid = 1,
     mutexes = (\<lambda>_. \<lparr>m_locked = False, m_owner = None\<rparr>), g_numTicks = 0, g_Quantum = 4,
     s_tlocalKeyCounter = 0, s_tlocalDestructors = (\<lambda>_. 0)\<rparr>"

lemma fresh_8MB: "\<exists>m. fresh (boot_state m)"
proof -
  obtain s ns where s: "Init_Mem 8192 163840 boot_mem = Some s" "pm_inv s ns"
    "unat (s_numPages s) = 2048" "\<forall>i < 2048. page_flags s i = initial_flags (kern_pages 8192 163840) i"
    using Init_Mem_spec [OF boot_ok_8MB boot_mem_empty] by (auto simp: boot_mem_def)
  have "page_flags s i = PAGE_AVAIL" if "i \<in> {1, 2, 3, 4}" for i
    using s(4) that by (auto simp: initial_flags_def)
  then have "{1, 2, 3, 4} \<subseteq> set ns" using s(2,3) by (auto simp: pm_inv_def free_pages_def)
  then have "card {1, 2, 3, 4 :: nat} \<le> card (set ns)" by (rule card_mono [rotated]) simp
  also have "card (set ns) \<le> length ns" by (rule card_length)
  finally have "4 \<le> length ns" by simp
  then obtain a b c d ns' where "ns = a # b # c # d # ns'"
    by (auto simp: numeral_eq_Suc Suc_le_length_iff)
  moreover have "page_ok s KERN_THREAD_OBJ" "page_ok s KERN_STACK"
    using s(3,4)
    by (simp_all add: page_ok_def Is_Page_Multiple_dvd Page_Index_div KERN_THREAD_OBJ_def KERN_STACK_def
        initial_flags_def kern_pages_def)
  ultimately have "pm_inv s (a # b # c # d # ns')" "page_ok s KERN_THREAD_OBJ" "page_ok s KERN_STACK"
    using s(2) by simp_all
  then have "fresh (boot_state s)" unfolding fresh_def boot_state_def by (intro conjI exI) simp_all
  then show ?thesis ..
qed

text \<open>Some addresses for the code of the threads.\<close>

definition code0 :: code_addrs where
  "code0 = \<lparr>addr_Launch_Thread = 0x10000, addr_Shutdown_Thread = 0x10100, addr_Idle = 0x10200,
     addr_Reaper = 0x10300\<rparr>"

lemma boot_reachable:
  "\<exists>\<sigma>. reachable code \<sigma> \<and> pc \<sigma> (cur \<sigma>) = Running \<and> cur \<sigma> \<noteq> idle \<sigma> \<and> held \<sigma> = {} \<and> cur \<sigma> = KERN_THREAD_OBJ"
proof -
  obtain m where f: "fresh (boot_state m)" using fresh_8MB by blast
  obtain s i r pl where s: "Init_Scheduler code (boot_state m) = Some s"
    "s_allThreadList s = [KERN_THREAD_OBJ, i, r]" "kinv (boot_sys s i r) pl" "g_currentThread s = KERN_THREAD_OBJ"
    using Init_Scheduler_boots [OF f] by blast
  have "running (boot_sys s i r) pl" using s(3) by (rule kinv_running)
  then have "distinct [KERN_THREAD_OBJ, i, r]"
    using mem_okD(6) [OF running_mem] s(2) by (fastforce simp: boot_sys_def)
  moreover have "reachable code (boot_sys s i r)" by (rule reachable.boot [OF f s(1,2)])
  ultimately show ?thesis using s(4) by (intro exI [of _ "boot_sys s i r"]) (auto simp: boot_sys_def)
qed

section \<open>Properties of the threads\<close>



text \<open>
  Property C2 (safety).  Mutual exclusion: of all threads, at most one is between the return
  of \<open>Mutex_Lock\<close> and \<open>Mutex_Unlock\<close> of a mutex; it is alive and it is the recorded owner of
  the mutex, which is locked.  A locked mutex always has such a holder.
\<close>

theorem mutual_exclusion:
  assumes "reachable code \<sigma>"
  shows "((t, m) \<in> held \<sigma> \<longleftrightarrow> m_locked (mutexes (ks \<sigma>) m) \<and> m_owner (mutexes (ks \<sigma>) m) = Some t)
    \<and> {u. (u, m) \<in> held \<sigma>}
        = (if m_locked (mutexes (ks \<sigma>) m) then {the (m_owner (mutexes (ks \<sigma>) m))} else {})
    \<and> {u. (u, m) \<in> held \<sigma>} \<subseteq> {u. map_option alive (threads (ks \<sigma>) u) = Some True}"
proof (intro conjI)
  obtain pl where run: "running \<sigma> pl" using reachable_running [OF assms] by blast
  note D = mutex_okD [OF running_mutex [OF run]]
  show "(t, m) \<in> held \<sigma> \<longleftrightarrow> m_locked (mutexes (ks \<sigma>) m) \<and> m_owner (mutexes (ks \<sigma>) m) = Some t" by (rule D(1))
  show "{u. (u, m) \<in> held \<sigma>}
      = (if m_locked (mutexes (ks \<sigma>) m) then {the (m_owner (mutexes (ks \<sigma>) m))} else {})"
  proof (cases "m_locked (mutexes (ks \<sigma>) m)")
    case True
    then obtain v where "m_owner (mutexes (ks \<sigma>) m) = Some v" using D(2) by blast
    with True show ?thesis by (simp add: D(1))
  qed (simp add: D(1))
  show "{u. (u, m) \<in> held \<sigma>} \<subseteq> {u. map_option alive (threads (ks \<sigma>) u) = Some True}"
  proof clarsimp
    fix u assume "(u, m) \<in> held \<sigma>"
    then obtain k where "threads (ks \<sigma>) u = Some k" "pc \<sigma> u \<noteq> Dead" using D(4) by blast
    with life_okD(1) [OF running_life [OF run], of u k]
    show "\<exists>k. threads (ks \<sigma>) u = Some k \<and> alive k" by blast
  qed
qed

lemma mutual_exclusion_witness:
  "\<exists>\<sigma>. reachable code0 \<sigma> \<and> (KERN_THREAD_OBJ, 3) \<in> held \<sigma>
     \<and> {u. (u, 3) \<in> held \<sigma>} = {the (m_owner (mutexes (ks \<sigma>) 3))}"
proof -
  obtain \<sigma> where s: "reachable code0 \<sigma>" "pc \<sigma> (cur \<sigma>) = Running" "cur \<sigma> \<noteq> idle \<sigma>" "held \<sigma> = {}"
    "cur \<sigma> = KERN_THREAD_OBJ" using boot_reachable [of code0] by blast
  obtain pl where inv: "kinv \<sigma> pl" using reachable_inv [OF s(1)] by blast
  note run = kinv_running [OF inv]
  have i: "ints (ks \<sigma>)" using inv s(2) by (simp add: kinv_def can_act_def)
  have un: "\<not> m_locked (mutexes (ks \<sigma>) 3)"
    using mutex_okD(1,2) [OF running_mutex [OF run]] s(4) by fastforce
  have may: "may (ALock 3) \<sigma>" using s by simp
  have nh: "\<not> IS_HELD 3 ((ks \<sigma>)\<lparr>g_preemptionDisabled := True\<rparr>)" using un by (simp add: IS_HELD_def)
  obtain \<sigma>' where e: "exec code0 (ALock 3) \<sigma> = Some \<sigma>'" "held \<sigma>' = insert (KERN_THREAD_OBJ, 3) (held \<sigma>)"
    using un i nh s(5)
    by (simp add: Mutex_Lock_def Mutex_Lock_Imp_def Mutex_Lock_Loop_def set_preemption_disabled_def
        finish_lock_def after_lock_def goes_to_def set_mutex_def)
  have r: "reachable code0 \<sigma>'" by (rule reachable.step [OF s(1) may e(1)])
  have h: "(KERN_THREAD_OBJ, 3) \<in> held \<sigma>'" using e(2) by simp
  then have "m_locked (mutexes (ks \<sigma>') 3)" using mutual_exclusion [OF r] by blast
  with mutual_exclusion [OF r, of KERN_THREAD_OBJ 3] r h show ?thesis by (intro exI [of _ \<sigma>']) simp
qed

text \<open>
  Property C1 (liveness).  No wake-up is lost.  Whenever a mutex is free and threads wait for
  it, one of them has been woken and is running or runnable; only living threads are waited
  for in \<open>Join\<close>, and only by their owner; and the reaper is not asleep while the graveyard
  holds threads.
\<close>

theorem no_lost_wake_up:
  assumes "reachable code \<sigma>"
  shows "(m_locked (mutexes (ks \<sigma>) m) \<or> queues (ks \<sigma>) (MutexQ m) = []
        \<or> (\<exists>w. pc \<sigma> w = Locking m \<and> (w = cur \<sigma> \<or> w \<in> set (queues (ks \<sigma>) RunQ))))
    \<and> set (queues (ks \<sigma>) (JoinQ u))
        \<subseteq> {t. \<exists>k. threads (ks \<sigma>) u = Some k \<and> alive k \<and> owner k = Some t}
    \<and> (queues (ks \<sigma>) GraveyardQ = [] \<or> reaper \<sigma> = cur \<sigma> \<or> reaper \<sigma> \<in> set (queues (ks \<sigma>) RunQ))"
proof (intro conjI)
  obtain pl where run: "running \<sigma> pl" using reachable_running [OF assms] by blast
  note q = running_queues [OF run] and P = running_places [OF run] and L = running_life [OF run]
  have cur: "pl t = Cur \<longleftrightarrow> t = cur \<sigma>" for t using run by (simp add: running_def)
  show "m_locked (mutexes (ks \<sigma>) m) \<or> queues (ks \<sigma>) (MutexQ m) = []
        \<or> (\<exists>w. pc \<sigma> w = Locking m \<and> (w = cur \<sigma> \<or> w \<in> set (queues (ks \<sigma>) RunQ)))"
    using mutex_okD(3) [OF running_mutex [OF run], of m] q_rep_empty [OF q, of "MutexQ m"]
      q_rep_mem [OF q] cur by metis
  show "set (queues (ks \<sigma>) (JoinQ u)) \<subseteq> {t. \<exists>k. threads (ks \<sigma>) u = Some k \<and> alive k \<and> owner k = Some t}"
  proof
    fix t assume "t \<in> set (queues (ks \<sigma>) (JoinQ u))"
    then have pt: "pl t = In (JoinQ u)" using q_rep_mem [OF q] by simp
    then have T: "threads (ks \<sigma>) t \<noteq> None" using places_okD(1) [OF P, of t] by auto
    then have "pc \<sigma> t = Joining u" using places_okD(2) [OF P T] pt by simp
    then have "map_option owner (threads (ks \<sigma>) u) = Some (Some t)" using life_okD(4) [OF L T] by blast
    then obtain k where k: "threads (ks \<sigma>) u = Some k" "owner k = Some t" by auto
    with life_okD(1) [OF L k(1)] life_okD(5) [OF L pt] show
      "t \<in> {t. \<exists>k. threads (ks \<sigma>) u = Some k \<and> alive k \<and> owner k = Some t}" by simp
  qed
  show "queues (ks \<sigma>) GraveyardQ = [] \<or> reaper \<sigma> = cur \<sigma> \<or> reaper \<sigma> \<in> set (queues (ks \<sigma>) RunQ)"
  proof (cases "queues (ks \<sigma>) GraveyardQ = []")
    case False
    then obtain t where "pl t = In GraveyardQ" using q_rep_empty [OF q] by blast
    then have "pl (reaper \<sigma>) \<noteq> In ReaperWaitQ" using life_okD(9) [OF L] by blast
    moreover have "ok_place (pl (reaper \<sigma>)) (pc \<sigma> (reaper \<sigma>))" by (rule places_okD(2) [OF P places_okD(5) [OF P]])
    moreover have "reaper_cont (pc \<sigma> (reaper \<sigma>)) \<or> pc \<sigma> (reaper \<sigma>) = Launching" by (rule places_okD(9) [OF P])
    ultimately have "pl (reaper \<sigma>) = Cur \<or> pl (reaper \<sigma>) = In RunQ"
      by (cases "pl (reaper \<sigma>)"; cases "case pl (reaper \<sigma>) of In q \<Rightarrow> q | _ \<Rightarrow> RunQ")
        (auto simp: reaper_cont_def split: place.splits cont.splits)
    with cur q_rep_mem [OF q] show ?thesis by auto
  qed simp
qed

lemma no_lost_wake_up_witness:
  "\<exists>\<sigma>. reachable code0 \<sigma> \<and> (m_locked (mutexes (ks \<sigma>) 3) \<or> queues (ks \<sigma>) (MutexQ 3) = []
        \<or> (\<exists>w. pc \<sigma> w = Locking 3 \<and> (w = cur \<sigma> \<or> w \<in> set (queues (ks \<sigma>) RunQ))))"
  using boot_reachable [of code0] no_lost_wake_up [of code0 _ 3 0] by blast





text \<open>
  Property C12 (invariant).  The reference counts are exact: a thread object counts one
  reference while it is alive and one while its owner may still join it.  The objects with no
  reference left are exactly those in the graveyard and those that the reaper has taken from
  it and not yet destroyed, so none is leaked and none is destroyed while it is referenced.
\<close>

theorem reference_counts_exact:
  assumes "reachable code \<sigma>"
  shows "(case threads (ks \<sigma>) t of None \<Rightarrow> t \<notin> refs \<sigma>
        | Some k \<Rightarrow> refCount k = of_bool (alive k) + of_bool (t \<in> refs \<sigma>))
    \<and> {t. map_option refCount (threads (ks \<sigma>) t) = Some 0}
        = set (queues (ks \<sigma>) GraveyardQ) \<union> set (batch (pc \<sigma> (reaper \<sigma>)))
    \<and> distinct (queues (ks \<sigma>) GraveyardQ @ batch (pc \<sigma> (reaper \<sigma>)))"
proof -
  obtain pl where run: "running \<sigma> pl" using reachable_running [OF assms] by blast
  note q = running_queues [OF run] and D = life_okD [OF running_life [OF run]]
  have rc: "refCount k = of_bool (alive k) + of_bool (t \<in> refs \<sigma>)" if "threads (ks \<sigma>) t = Some k" for t k
    using D(1,2) [OF that] by simp
  have z: "map_option refCount (threads (ks \<sigma>) t) = Some 0
      \<longleftrightarrow> threads (ks \<sigma>) t \<noteq> None \<and> pc \<sigma> t = Dead \<and> t \<notin> refs \<sigma>" for t
    using D(2) [of t] by (cases "threads (ks \<sigma>) t") auto
  have "case threads (ks \<sigma>) t of None \<Rightarrow> t \<notin> refs \<sigma>
        | Some k \<Rightarrow> refCount k = of_bool (alive k) + of_bool (t \<in> refs \<sigma>)"
    using rc D(3) [of t] by (auto split: option.splits)
  moreover have "{t. map_option refCount (threads (ks \<sigma>) t) = Some 0}
        = set (queues (ks \<sigma>) GraveyardQ) \<union> set (batch (pc \<sigma> (reaper \<sigma>)))"
    unfolding z D(6) using q_rep_mem [OF q] by auto
  moreover have "set (queues (ks \<sigma>) GraveyardQ) \<inter> set (batch (pc \<sigma> (reaper \<sigma>))) = {}"
    using D(8) q_rep_mem [OF q] by fastforce
  then have "distinct (queues (ks \<sigma>) GraveyardQ @ batch (pc \<sigma> (reaper \<sigma>)))"
    using q D(7) by (simp add: q_rep_def)
  ultimately show ?thesis by blast
qed

lemma reference_counts_exact_witness:
  "\<exists>\<sigma>. reachable code0 \<sigma> \<and> distinct (queues (ks \<sigma>) GraveyardQ @ batch (pc \<sigma> (reaper \<sigma>)))"
  using boot_reachable [of code0] reference_counts_exact [of code0 _ 0] by blast



end
