(* ===== verification/Frames.thy ===== *)
theory Frames
  imports Reach
begin

text \<open>
  The stacks of new threads.  \<open>interrupt_state\<close> is \<open>struct Interrupt_State\<close> of
  \<open>include/geekos/int.h\<close>, what \<open>Switch_To_Thread\<close> and \<open>Handle_Interrupt\<close> pop when they resume a
  thread; the lemmas say that what \<open>Setup_Kernel_Thread\<close> and \<open>Setup_User_Thread\<close> push reads
  back as the state that the thread is meant to start in.
\<close>

record interrupt_state =
  is_gs :: u32
  is_fs :: u32
  is_es :: u32
  is_ds :: u32
  is_ebp :: u32
  is_edi :: u32
  is_esi :: u32
  is_edx :: u32
  is_ecx :: u32
  is_ebx :: u32
  is_eax :: u32
  intNum :: u32
  errorCode :: u32
  is_eip :: u32
  is_cs :: u32
  is_eflags :: u32

text \<open>The words from the stack pointer up as a saved state, and the words above it.\<close>

fun load_state :: "u32 list \<Rightarrow> (interrupt_state \<times> u32 list) option" where
  "load_state (a # b # c # d # e # f # g # h # i # j # k # l # m # n # p # q # rest) =
     Some (\<lparr>is_gs = a, is_fs = b, is_es = c, is_ds = d, is_ebp = e, is_edi = f, is_esi = g, is_edx = h,
       is_ecx = i, is_ebx = j, is_eax = k, intNum = l, errorCode = m, is_eip = n, is_cs = p,
       is_eflags = q\<rparr>, rest)"
| "load_state _ = None"

definition Is_User_Interrupt :: "interrupt_state \<Rightarrow> bool" where
  "Is_User_Interrupt state \<longleftrightarrow> is_cs state AND 3 = word_of_nat USER_PRIVILEGE"

section \<open>Kernel threads\<close>

text \<open>
  Property C23 (functional).  A new kernel thread starts in the kernel's segments at
  \<open>Launch_Thread\<close> with interrupts disabled, and the words above its saved state make it return
  from there into the start function, whose return address is \<open>Shutdown_Thread\<close> and whose
  argument is the given one.  The stack pointer is that many bytes below the end of the stack
  page.
\<close>

theorem Setup_Kernel_Thread_frame:
  assumes "threads s t = Some (new_thread page pr detached c p)"
  shows "\<exists>s' k st. Setup_Kernel_Thread code t startFunc arg s = Some s' \<and> threads s' t = Some k
    \<and> load_state (kstack k) = Some (st, [startFunc, addr_Shutdown_Thread code, arg])
    \<and> is_eip st = addr_Launch_Thread code \<and> is_cs st = KERNEL_CS \<and> is_ds st = KERNEL_DS
    \<and> is_es st = KERNEL_DS \<and> is_eflags st AND EFLAGS_IF = 0 \<and> \<not> Is_User_Interrupt st
    \<and> esp k = page + PAGE_SIZE - 4 * word_of_nat (length (kstack k))
    \<and> s' = s\<lparr>threads := (threads s)(t \<mapsto> k)\<rparr>"
proof -
  let ?k0 = "new_thread page pr detached c p"
  let ?k = "?k0\<lparr>esp := esp ?k0 - 76, kstack := kernel_frame code startFunc arg @ kstack ?k0\<rparr>"
  have "Setup_Kernel_Thread code t startFunc arg s = Some (s\<lparr>threads := (threads s)(t \<mapsto> ?k)\<rparr>)"
    by (rule Setup_Kernel_Thread_run [OF assms])
  moreover have "load_state (kstack ?k) = Some (\<lparr>is_gs = 0, is_fs = 0, is_es = KERNEL_DS, is_ds = KERNEL_DS,
      is_ebp = 0, is_edi = 0, is_esi = 0, is_edx = 0, is_ecx = 0, is_ebx = 0, is_eax = 0, intNum = 0,
      errorCode = 0, is_eip = addr_Launch_Thread code, is_cs = KERNEL_CS, is_eflags = 0\<rparr>,
      [startFunc, addr_Shutdown_Thread code, arg])"
    by (simp add: kernel_frame_def new_thread_def)
  moreover have "KERNEL_CS AND 3 \<noteq> word_of_nat USER_PRIVILEGE"
    by (simp add: KERNEL_CS_val USER_PRIVILEGE_def)
  moreover have "esp ?k = page + PAGE_SIZE - 4 * word_of_nat (length (kstack ?k))"
    by (simp add: new_thread_def kernel_frame_def)
  ultimately show ?thesis by (auto simp: Is_User_Interrupt_def)
qed

text \<open>A new thread object in the page at 0x5000, with its stack in the page at 0x6000.\<close>

definition one_thread :: kstate where
  "one_thread = (boot_state boot_mem)\<lparr>threads := [0x5000 \<mapsto> new_thread 0x6000 5 True 0x100000 4]\<rparr>"

lemma Setup_Kernel_Thread_frame_witness:
  "\<exists>s' k st. Setup_Kernel_Thread code0 0x5000 0x12340 7 one_thread = Some s' \<and> threads s' 0x5000 = Some k
    \<and> load_state (kstack k) = Some (st, [0x12340, addr_Shutdown_Thread code0, 7])"
  using Setup_Kernel_Thread_frame [of one_thread "0x5000" "0x6000" 5 True "0x100000" 4 code0 "0x12340" 7]
  by (auto simp: one_thread_def)

section \<open>User threads\<close>

lemma Attach_User_Context_run:
  assumes "threads s t = Some k" and "ints s" and "ucontexts s c = Some uc" and "uc_refCount uc = 0"
  shows "Attach_User_Context t (Some c) s = Some (s\<lparr>threads := (threads s)(t \<mapsto> k\<lparr>userContext := Some c\<rparr>),
    ucontexts := (ucontexts s)(c \<mapsto> uc\<lparr>uc_refCount := 1\<rparr>)\<rparr>)"
  using assms
  by (cases s) (simp add: Attach_User_Context_def upd_thread_def Disable_Interrupts_def Enable_Interrupts_def)

text \<open>The stack of a new user thread, top first, and the saved state and user stack that it is.\<close>

definition user_frame :: "u32 \<Rightarrow> user_context \<Rightarrow> u32 list" where
  "user_frame eflags uc = (let ds = ucast (uc_dsSelector uc) in
     [ds, ds, ds, ds, 0, 0, uc_argBlockAddr uc, 0, 0, 0, 0, 0, 0, uc_entryAddr uc, ucast (uc_csSelector uc),
      eflags OR EFLAGS_IF, uc_stackPointerAddr uc, ds])"

lemma Setup_User_Thread_run:
  assumes "threads s t = Some k" and "ints s" and "ucontexts s c = Some uc" and "uc_refCount uc = 0"
  shows "Setup_User_Thread eflags t c s = Some (s\<lparr>threads := (threads s)(t \<mapsto>
      k\<lparr>userContext := Some c, esp := esp k - 72, kstack := user_frame eflags uc @ kstack k\<rparr>),
    ucontexts := (ucontexts s)(c \<mapsto> uc\<lparr>uc_refCount := 1\<rparr>)\<rparr>)"
proof -
  let ?k = "k\<lparr>userContext := Some c\<rparr>"
  let ?s = "s\<lparr>threads := (threads s)(t \<mapsto> ?k), ucontexts := (ucontexts s)(c \<mapsto> uc\<lparr>uc_refCount := 1\<rparr>)\<rparr>"
  have f: "rev (user_frame eflags uc) = [ucast (uc_dsSelector uc), uc_stackPointerAddr uc, eflags OR EFLAGS_IF, ucast (uc_csSelector uc),
      uc_entryAddr uc, 0, 0, 0, 0, 0, 0, uc_argBlockAddr uc, 0, 0, ucast (uc_dsSelector uc), ucast (uc_dsSelector uc),
      ucast (uc_dsSelector uc), ucast (uc_dsSelector uc)]" "length (user_frame eflags uc) = 18"
    by (simp_all add: user_frame_def Let_def)
  have "push_all t (rev (user_frame eflags uc)) ?s = Some (?s\<lparr>threads := (threads ?s)(t \<mapsto>
      ?k\<lparr>esp := esp ?k - 4 * word_of_nat (length (rev (user_frame eflags uc))), kstack := rev (rev (user_frame eflags uc)) @ kstack ?k\<rparr>)\<rparr>)"
    by (rule push_all_run) simp
  then show ?thesis
    using Attach_User_Context_run [OF assms] f
    by (simp add: Setup_User_Thread_def Let_def del: push_all.simps fun_upd_apply add: fun_upd_same)
qed

lemma user_frame_state:
  assumes "uc_csSelector uc = Selector (int USER_PRIVILEGE) False 0"
  shows "\<exists>st. load_state (user_frame eflags uc) = Some (st, [uc_stackPointerAddr uc, ucast (uc_dsSelector uc)])
    \<and> is_eip st = uc_entryAddr uc \<and> is_esi st = uc_argBlockAddr uc \<and> Is_User_Interrupt st
    \<and> {is_ds st, is_es st, is_fs st, is_gs st} = {ucast (uc_dsSelector uc)} \<and> bit (is_eflags st) 9"
proof -
  have "bit (eflags OR EFLAGS_IF) 9" by (simp add: EFLAGS_IF_def bit_simps)
  moreover have "(ucast (uc_csSelector uc) :: u32) AND 3 = word_of_nat USER_PRIVILEGE"
    by (simp add: assms Selector_def USER_PRIVILEGE_def)
  ultimately show ?thesis by (simp add: user_frame_def Let_def Is_User_Interrupt_def)
qed

text \<open>
  Property C28 (functional).  A new user thread starts as if it had been interrupted in user
  mode just before the entry point of its program: with the code and data selectors of its
  context, interrupts enabled, the address of the argument block in the register where the
  start code expects it, and the user stack pointer and segment above the saved state.  It
  holds the only reference to its context.
\<close>

theorem Setup_User_Thread_frame:
  assumes "threads s t = Some (new_thread page pr detached cr p)" and "ints s"
    and "ucontexts s c = Some uc" and "uc_refCount uc = 0"
    and "uc_csSelector uc = Selector (int USER_PRIVILEGE) False 0"
  shows "\<exists>s' k st. Setup_User_Thread eflags t c s = Some s' \<and> threads s' t = Some k
    \<and> load_state (kstack k) = Some (st, [uc_stackPointerAddr uc, ucast (uc_dsSelector uc)])
    \<and> is_eip st = uc_entryAddr uc \<and> is_esi st = uc_argBlockAddr uc \<and> Is_User_Interrupt st
    \<and> {is_ds st, is_es st, is_fs st, is_gs st} = {ucast (uc_dsSelector uc)}
    \<and> bit (is_eflags st) 9 \<and> userContext k = Some c
    \<and> map_option uc_refCount (ucontexts s' c) = Some 1
    \<and> esp k = page + PAGE_SIZE - 4 * word_of_nat (length (kstack k))"
proof -
  let ?k0 = "new_thread page pr detached cr p"
  let ?k = "?k0\<lparr>userContext := Some c, esp := esp ?k0 - 72, kstack := user_frame eflags uc @ kstack ?k0\<rparr>"
  have "kstack ?k = user_frame eflags uc" "userContext ?k = Some c"
    "esp ?k = page + PAGE_SIZE - 4 * word_of_nat (length (kstack ?k))"
    by (simp_all add: new_thread_def user_frame_def Let_def)
  with Setup_User_Thread_run [OF assms(1-4), of eflags] user_frame_state [OF assms(5), of eflags] show ?thesis
    by (intro exI [of _ "s\<lparr>threads := (threads s)(t \<mapsto> ?k), ucontexts := (ucontexts s)(c \<mapsto> uc\<lparr>uc_refCount := 1\<rparr>)\<rparr>"]
        exI [of _ ?k]) simp
qed

definition some_context :: user_context where
  "some_context = \<lparr>uc_ldt = [], uc_ldtDescriptor = 5, uc_memory = 0x200000, uc_size = 0x8000, uc_ldtSelector = 40,
     uc_csSelector = Selector (int USER_PRIVILEGE) False 0, uc_dsSelector = Selector (int USER_PRIVILEGE) False 1,
     uc_entryAddr = 0x1000, uc_argBlockAddr = 0x7000, uc_stackPointerAddr = 0x7000, uc_refCount = 0\<rparr>"

lemma Setup_User_Thread_frame_witness:
  "\<exists>s' k st. Setup_User_Thread 2 0x5000 9 (one_thread\<lparr>ucontexts := [9 \<mapsto> some_context]\<rparr>) = Some s'
    \<and> threads s' 0x5000 = Some k \<and> load_state (kstack k)
        = Some (st, [0x7000, ucast (Selector (int USER_PRIVILEGE) False 1)])
    \<and> is_eip st = 0x1000"
  using Setup_User_Thread_frame [of "one_thread\<lparr>ucontexts := [9 \<mapsto> some_context]\<rparr>" "0x5000" "0x6000" 5 True
      "0x100000" 4 9 some_context 2]
  by (auto simp: one_thread_def boot_state_def some_context_def)

end
