(* ===== verification/Screen.thy ===== *)
theory Screen
  imports CString
begin

text \<open>
  The text console, \<open>src/geekos/screen.c\<close>: the display memory, the cursor, the attributes and
  the automaton that reads ANSI escape sequences.  The display is the part of the memory
  (\<open>mem\<close> of theory \<open>CString\<close>) that starts at \<open>VIDMEM\<close>, two bytes for each character; the
  registers of the CRT controller are a map, selected by its address register.  Integers of
  type \<open>int\<close> wrap around at 32 bits.  An access outside \<open>argList\<close> is \<open>None\<close>.  The copy of all
  output on port 0xE9, a debugging aid of an emulator, is left out.
\<close>

section \<open>State\<close>

definition BLACK :: u8 where "BLACK = 0"
definition BLUE :: u8 where "BLUE = 1"
definition GREEN :: u8 where "GREEN = 2"
definition CYAN :: u8 where "CYAN = 3"
definition RED :: u8 where "RED = 4"
definition MAGENTA :: u8 where "MAGENTA = 5"
definition AMBER :: u8 where "AMBER = 6"
definition GRAY :: u8 where "GRAY = 7"
definition BRIGHT :: u8 where "BRIGHT = 8"
definition ATTRIB :: "u8 \<Rightarrow> u8 \<Rightarrow> u8" where "ATTRIB bg fg = fg OR push_bit 4 bg"
definition DEFAULT_ATTRIBUTE :: u8 where "DEFAULT_ATTRIBUTE = ATTRIB BLACK GRAY"

definition NUMCOLS :: int where "NUMCOLS = 80"
definition NUMROWS :: int where "NUMROWS = 25"
definition TABWIDTH :: int where "TABWIDTH = 8"
definition VIDMEM :: u32 where "VIDMEM = 0xb8000"
definition MAXARGS :: int where "MAXARGS = 8"
definition ESC :: int where "ESC = 0x1B"

definition CRT_CURSOR_LOC_HIGH_REG :: u8 where "CRT_CURSOR_LOC_HIGH_REG = 0x0E"
definition CRT_CURSOR_LOC_LOW_REG :: u8 where "CRT_CURSOR_LOC_LOW_REG = 0x0F"

datatype esc_state = S_NORMAL | S_ESC | S_ESC2 | S_ARG | S_CMD

record console =
  row :: int
  col :: int
  saveRow :: int
  saveCol :: int
  currentAttr :: u8
  con_state :: esc_state
  argList :: "int list"
  numArgs :: int
  vmem :: mem
  crt_addr :: u8
  crt_regs :: "u8 \<Rightarrow> u8"
  con_ints :: bool

text \<open>\<open>Begin_Int_Atomic\<close> before, \<open>End_Int_Atomic\<close> after the body \<open>f\<close> of a function.\<close>

definition int_atomic :: "(console \<Rightarrow> console option) \<Rightarrow> console \<Rightarrow> console option" where
  "int_atomic f s = do {
     let iflag = con_ints s;
     s \<leftarrow> f (s\<lparr>con_ints := False\<rparr>);
     kassert (\<not> con_ints s);
     Some (if iflag then s\<lparr>con_ints := True\<rparr> else s)
   }"

section \<open>The display\<close>

definition NUM_SCREEN_DWORDS :: nat where "NUM_SCREEN_DWORDS = nat ((NUMROWS * NUMCOLS * 2) div 4)"
definition NUM_SCROLL_DWORDS :: nat where "NUM_SCROLL_DWORDS = nat (((NUMROWS - 1) * NUMCOLS * 2) div 4)"
definition NUM_DWORDS_PER_LINE :: nat where "NUM_DWORDS_PER_LINE = nat ((NUMCOLS * 2) div 4)"

definition FILL_DWORD :: "u8 \<Rightarrow> u32" where
  "FILL_DWORD attr = 0x00200020 OR push_bit 24 (ucast attr) OR push_bit 8 (ucast attr)"

fun scroll_loop :: "nat \<Rightarrow> nat \<Rightarrow> mem \<Rightarrow> mem" where
  "scroll_loop v 0 m = m"
| "scroll_loop v (Suc n) m = scroll_loop (v + 4) n (store32 v (load32 m (v + 4 * NUM_DWORDS_PER_LINE)) m)"

fun fill_loop :: "u32 \<Rightarrow> nat \<Rightarrow> nat \<Rightarrow> mem \<Rightarrow> mem" where
  "fill_loop fill v 0 m = m"
| "fill_loop fill v (Suc n) m = fill_loop fill (v + 4) n (store32 v fill m)"

definition Scroll :: "console \<Rightarrow> console" where
  "Scroll s =
     (let n = NUM_SCROLL_DWORDS;
          fill = FILL_DWORD (currentAttr s);
          m = scroll_loop (unat VIDMEM) n (vmem s)
      in s\<lparr>vmem := fill_loop fill (unat VIDMEM + 4 * n) NUM_DWORDS_PER_LINE m\<rparr>)"

definition cursor_addr :: "console \<Rightarrow> nat" where
  "cursor_addr s = unat (VIDMEM + word_of_int (row s * (NUMCOLS * 2)) + word_of_int (col s * 2))"

fun clear_loop :: "u8 \<Rightarrow> nat \<Rightarrow> nat \<Rightarrow> mem \<Rightarrow> mem" where
  "clear_loop attr 0 v m = m"
| "clear_loop attr (Suc n) v m = clear_loop attr n (v + 2) (m(v := 0x20, v + 1 := attr))"

definition Clear_To_EOL :: "console \<Rightarrow> console" where
  "Clear_To_EOL s =
     s\<lparr>vmem := clear_loop (currentAttr s) (nat (NUMCOLS - col s)) (cursor_addr s) (vmem s)\<rparr>"

definition Newline :: "console \<Rightarrow> console" where
  "Newline s =
     (let s = s\<lparr>row := row s + 1, col := 0\<rparr>
      in if row s = NUMROWS then (Scroll s)\<lparr>row := NUMROWS - 1\<rparr> else s)"

definition Put_Graphic_Char :: "int \<Rightarrow> console \<Rightarrow> console" where
  "Put_Graphic_Char c s =
     (let v = cursor_addr s;
          s = s\<lparr>vmem := (vmem s)(v := word_of_int c, v + 1 := currentAttr s)\<rparr>
      in if col s < NUMCOLS - 1 then s\<lparr>col := col s + 1\<rparr> else Newline s)"

fun put_spaces :: "nat \<Rightarrow> console \<Rightarrow> console" where
  "put_spaces 0 s = s"
| "put_spaces (Suc n) s = put_spaces n (Put_Graphic_Char 32 s)"

definition Output_Literal_Character :: "int \<Rightarrow> console \<Rightarrow> console" where
  "Output_Literal_Character c s =
     (if c = 10 then Newline (Clear_To_EOL s)
      else if c = 9 then put_spaces (nat (TABWIDTH - col s mod TABWIDTH)) s
      else Put_Graphic_Char c s)"

definition Move_Cursor :: "int \<Rightarrow> int \<Rightarrow> console \<Rightarrow> console" where
  "Move_Cursor r c s =
     (let r = (if r < 0 then 0 else if r \<ge> NUMROWS then NUMROWS - 1 else r);
          c = (if c < 0 then 0 else if c \<ge> NUMCOLS then NUMCOLS - 1 else c)
      in s\<lparr>row := r, col := c\<rparr>)"

section \<open>Escape sequences\<close>

definition s_ansiToVgaColor :: "u8 list" where
  "s_ansiToVgaColor = [BLACK, RED, GREEN, AMBER, BLUE, MAGENTA, CYAN, GRAY]"

definition arg_at :: "int \<Rightarrow> console \<Rightarrow> int option" where
  "arg_at i s = (if 0 \<le> i \<and> i < int (length (argList s)) then Some (argList s ! nat i) else None)"

definition set_arg :: "int \<Rightarrow> int \<Rightarrow> console \<Rightarrow> console option" where
  "set_arg i v s = (if 0 \<le> i \<and> i < int (length (argList s))
     then Some (s\<lparr>argList := (argList s)[nat i := v]\<rparr>) else None)"

text \<open>One argument of a sequence that sets attributes.\<close>

definition attr_arg :: "int \<Rightarrow> u8 \<Rightarrow> u8" where
  "attr_arg v attr =
     (if v = 0 then DEFAULT_ATTRIBUTE
      else if v = 1 then attr OR BRIGHT
      else if v \<ge> 30 \<and> v \<le> 37 then (attr AND NOT 0x7) OR s_ansiToVgaColor ! nat (v - 30)
      else if v \<ge> 40 \<and> v \<le> 47
      then (attr AND NOT (push_bit 4 0x7)) OR push_bit 4 (s_ansiToVgaColor ! nat (v - 40))
      else attr)"

function attr_loop :: "int \<Rightarrow> u8 \<Rightarrow> console \<Rightarrow> u8 option" where
  "attr_loop i attr s =
     (if i < numArgs s then do { v \<leftarrow> arg_at i s; attr_loop (i + 1) (attr_arg v attr) s }
      else Some attr)"
  by pat_completeness auto
termination
  by (relation "measure (\<lambda>(i, attr, s). nat (numArgs s - i))") auto

definition Update_Attributes :: "console \<Rightarrow> console option" where
  "Update_Attributes s = do {
     attr \<leftarrow> attr_loop 0 (currentAttr s AND NOT BRIGHT) s;
     Some (s\<lparr>currentAttr := attr\<rparr>)
   }"

definition Reset :: "console \<Rightarrow> console" where
  "Reset s = s\<lparr>con_state := S_NORMAL, numArgs := 0\<rparr>"

definition Start_Escape :: "console \<Rightarrow> console" where
  "Start_Escape s = s\<lparr>con_state := S_ESC, numArgs := 0\<rparr>"

definition Start_Arg :: "int \<Rightarrow> console \<Rightarrow> console option" where
  "Start_Arg argNum s = do {
     kassert (numArgs s = argNum);
     let s = s\<lparr>numArgs := s32 (numArgs s + 1), con_state := S_ARG\<rparr>;
     (if argNum < MAXARGS then set_arg argNum 0 s else Some s)
   }"

definition Save_Cursor :: "console \<Rightarrow> console" where
  "Save_Cursor s = s\<lparr>saveRow := row s, saveCol := col s\<rparr>"

definition Restore_Cursor :: "console \<Rightarrow> console" where
  "Restore_Cursor s = s\<lparr>row := saveRow s, col := saveCol s\<rparr>"

definition Add_Digit :: "int \<Rightarrow> console \<Rightarrow> console option" where
  "Add_Digit c s = do {
     kassert (ISDIGIT c);
     (if numArgs s < MAXARGS then do {
        let argNum = numArgs s - 1;
        v \<leftarrow> arg_at argNum s;
        set_arg argNum (s32 (s32 (v * 10) + (c - 48))) s
      } else Some s)
   }"

definition Get_Arg :: "int \<Rightarrow> console \<Rightarrow> int option" where
  "Get_Arg argNum s = (if argNum < numArgs s then arg_at argNum s else Some 0)"

section \<open>The hardware cursor\<close>

definition Out_CRT_Addr :: "u8 \<Rightarrow> console \<Rightarrow> console" where
  "Out_CRT_Addr v s = s\<lparr>crt_addr := v\<rparr>"

definition Out_CRT_Data :: "u8 \<Rightarrow> console \<Rightarrow> console" where
  "Out_CRT_Data v s = s\<lparr>crt_regs := (crt_regs s)(crt_addr s := v)\<rparr>"

definition Update_Cursor :: "console \<Rightarrow> console" where
  "Update_Cursor s =
     (let characterPos = (word_of_int (row s * NUMCOLS + col s) :: u32);
          origAddr = crt_addr s;
          s = Out_CRT_Addr CRT_CURSOR_LOC_HIGH_REG s;
          s = Out_CRT_Data (ucast (drop_bit 8 characterPos AND 0xff)) s;
          s = Out_CRT_Addr CRT_CURSOR_LOC_LOW_REG s;
          s = Out_CRT_Data (ucast (characterPos AND 0xff)) s
      in Out_CRT_Addr origAddr s)"

section \<open>Interface\<close>

definition Clear_Screen :: "console \<Rightarrow> console option" where
  "Clear_Screen s =
     (let fill = FILL_DWORD (currentAttr s)
      in int_atomic (\<lambda>s. Some (s\<lparr>vmem := fill_loop fill (unat VIDMEM) NUM_SCREEN_DWORDS (vmem s)\<rparr>)) s)"

definition Init_Screen :: "console \<Rightarrow> console option" where
  "Init_Screen = int_atomic (\<lambda>s. Clear_Screen (s\<lparr>row := 0, col := 0, currentAttr := DEFAULT_ATTRIBUTE\<rparr>))"

definition Get_Cursor :: "console \<Rightarrow> int \<times> int" where
  "Get_Cursor s = (row s, col s)"

definition Put_Cursor :: "int \<Rightarrow> int \<Rightarrow> console \<Rightarrow> (bool \<times> console) option" where
  "Put_Cursor r c s =
     (if r < 0 \<or> r \<ge> NUMROWS \<or> c < 0 \<or> c \<ge> NUMCOLS then Some (False, s)
      else do {
        s \<leftarrow> int_atomic (\<lambda>s. Some (Update_Cursor (s\<lparr>row := r, col := c\<rparr>))) s;
        Some (True, s)
      })"

definition Get_Current_Attr :: "console \<Rightarrow> u8" where
  "Get_Current_Attr s = currentAttr s"

definition Set_Current_Attr :: "u8 \<Rightarrow> console \<Rightarrow> console option" where
  "Set_Current_Attr attrib = int_atomic (\<lambda>s. Some (s\<lparr>currentAttr := attrib\<rparr>))"

text \<open>The command \<open>c\<close> that ends an escape sequence.\<close>

definition run_command :: "int \<Rightarrow> console \<Rightarrow> console option" where
  "run_command c s =
     (if c = 75 then Some (Clear_To_EOL s)
      else if c = 115 then Some (Save_Cursor s)
      else if c = 117 then Some (Restore_Cursor s)
      else if c = 65 then do { n \<leftarrow> Get_Arg 0 s; Some (Move_Cursor (s32 (row s - n)) (col s) s) }
      else if c = 66 then do { n \<leftarrow> Get_Arg 0 s; Some (Move_Cursor (s32 (row s + n)) (col s) s) }
      else if c = 67 then do { n \<leftarrow> Get_Arg 0 s; Some (Move_Cursor (row s) (s32 (col s + n)) s) }
      else if c = 68 then do { n \<leftarrow> Get_Arg 0 s; Some (Move_Cursor (row s) (s32 (col s - n)) s) }
      else if c = 109 then Update_Attributes s
      else if c = 102 \<or> c = 72 then
        (if numArgs s = 2 then do {
           n \<leftarrow> Get_Arg 0 s;
           k \<leftarrow> Get_Arg 1 s;
           Some (Move_Cursor (s32 (n - 1)) (s32 (k - 1)) s)
         } else Some s)
      else if c = 74 then
        (if numArgs s = 1 then do {
           n \<leftarrow> Get_Arg 0 s;
           (if n = 2 then do {
              s \<leftarrow> Clear_Screen s;
              (_, s) \<leftarrow> Put_Cursor 0 0 s;
              Some s
            } else Some s)
         } else Some s)
      else Some s)"

text \<open>\<open>Put_Char_Imp\<close>, one definition for each state in which \<open>goto again\<close> can enter the switch.\<close>

definition put_in_cmd :: "int \<Rightarrow> console \<Rightarrow> console option" where
  "put_in_cmd c s = do { s \<leftarrow> run_command c s; Some (Reset s) }"

definition put_in_arg :: "int \<Rightarrow> console \<Rightarrow> console option" where
  "put_in_arg c s =
     (if ISDIGIT c then Add_Digit c s
      else if c = 59 then Start_Arg (numArgs s) s
      else put_in_cmd c (s\<lparr>con_state := S_CMD\<rparr>))"

definition put_in_esc2 :: "int \<Rightarrow> console \<Rightarrow> console option" where
  "put_in_esc2 c s =
     (if ISDIGIT c then do { s \<leftarrow> Start_Arg 0 s; put_in_arg c s }
      else if c = 59 then do { s \<leftarrow> Start_Arg 0 s; s \<leftarrow> Add_Digit 49 s; Start_Arg 1 s }
      else put_in_cmd c (s\<lparr>con_state := S_CMD\<rparr>))"

definition Put_Char_Imp :: "int \<Rightarrow> console \<Rightarrow> console option" where
  "Put_Char_Imp c s =
     (case con_state s of
        S_NORMAL \<Rightarrow> Some (if c = ESC then Start_Escape s else Output_Literal_Character c s)
      | S_ESC \<Rightarrow> Some (if c = 91 then s\<lparr>con_state := S_ESC2\<rparr> else Reset s)
      | S_ESC2 \<Rightarrow> put_in_esc2 c s
      | S_ARG \<Rightarrow> put_in_arg c s
      | S_CMD \<Rightarrow> put_in_cmd c s)"

definition Put_Char :: "int \<Rightarrow> console \<Rightarrow> console option" where
  "Put_Char c = int_atomic (\<lambda>s. do { s \<leftarrow> Put_Char_Imp c s; Some (Update_Cursor s) })"

text \<open>The end of the list is the end of the object that holds the string.\<close>

fun put_string_loop :: "u8 list \<Rightarrow> console \<Rightarrow> console option" where
  "put_string_loop [] s = None"
| "put_string_loop (c # cs) s =
     (if c \<noteq> 0 then do { s \<leftarrow> Put_Char_Imp (sint c) s; put_string_loop cs s } else Some s)"

definition Put_String :: "u8 list \<Rightarrow> console \<Rightarrow> console option" where
  "Put_String str = int_atomic (\<lambda>s. do { s \<leftarrow> put_string_loop str s; Some (Update_Cursor s) })"

fun put_buf_loop :: "nat \<Rightarrow> u8 list \<Rightarrow> console \<Rightarrow> console option" where
  "put_buf_loop 0 buf s = Some s"
| "put_buf_loop (Suc n) [] s = None"
| "put_buf_loop (Suc n) (c # cs) s = do { s \<leftarrow> Put_Char_Imp (sint c) s; put_buf_loop n cs s }"

definition Put_Buf :: "u8 list \<Rightarrow> u32 \<Rightarrow> console \<Rightarrow> console option" where
  "Put_Buf buf n = int_atomic (\<lambda>s. do { s \<leftarrow> put_buf_loop (unat n) buf s; Some (Update_Cursor s) })"

declare attr_loop.simps [simp del]

section \<open>The contents of the display\<close>

text \<open>The character and the attribute at position \<open>p\<close>, counted from the top left corner.\<close>

definition cell :: "mem \<Rightarrow> nat \<Rightarrow> u8 \<times> u8" where
  "cell m p = (m (753664 + 2 * p), m (753664 + 2 * p + 1))"

definition text_of :: "mem \<Rightarrow> (u8 \<times> u8) list" where
  "text_of m = map (cell m) [0..<2000]"

definition outside_same :: "mem \<Rightarrow> mem \<Rightarrow> bool" where
  "outside_same m m' \<longleftrightarrow> (\<forall>x. x < 753664 \<or> 757664 \<le> x \<longrightarrow> m' x = m x)"

definition cpos :: "console \<Rightarrow> nat" where
  "cpos s = nat (row s * 80 + col s)"

lemmas screen_consts = NUMCOLS_def NUMROWS_def TABWIDTH_def MAXARGS_def ESC_def

lemma VIDMEM_val: "unat VIDMEM = 753664"
  by (simp add: VIDMEM_def)

lemma dwords_val: "NUM_SCREEN_DWORDS = 1000" "NUM_SCROLL_DWORDS = 960" "NUM_DWORDS_PER_LINE = 40"
  by (simp_all add: NUM_SCREEN_DWORDS_def NUM_SCROLL_DWORDS_def NUM_DWORDS_PER_LINE_def screen_consts)

lemma length_text_of [simp]: "length (text_of m) = 2000"
  by (simp add: text_of_def)

lemma nth_text_of [simp]: "p < 2000 \<Longrightarrow> text_of m ! p = cell m p"
  by (simp add: text_of_def)

lemma outside_same_refl [simp]: "outside_same m m"
  by (simp add: outside_same_def)

lemma outside_same_trans: "outside_same a b \<Longrightarrow> outside_same b c \<Longrightarrow> outside_same a c"
  by (simp add: outside_same_def)

lemma u8_high_bits: "\<not> bit (w :: u8) (n + 8)" "\<not> bit w (8 + n)"
  by (auto dest: bit_imp_le_length)

lemma load32_bytes:
  "ucast (load32 m a) = m a" "ucast (drop_bit 8 (load32 m a)) = m (a + 1)"
  "ucast (drop_bit 16 (load32 m a)) = m (a + 2)" "ucast (drop_bit 24 (load32 m a)) = m (a + 3)"
  unfolding load32_def by (rule bit_word_eqI; auto simp: bit_simps dest: bit_imp_le_length)+

lemma store32_at:
  "store32 v (load32 m w) m' x = (if v \<le> x \<and> x < v + 4 then m (w + (x - v)) else m' x)"
proof -
  have "x = v \<or> x = v + 1 \<or> x = v + 2 \<or> x = v + 3" if "v \<le> x" "x < v + 4" using that by arith
  then show ?thesis by (auto simp: store32_def load32_bytes)
qed

lemma scroll_loop_at:
  "scroll_loop v n m x = (if v \<le> x \<and> x < v + 4 * n then m (x + 160) else m x)"
proof (induction n arbitrary: v m)
  case (Suc n)
  show ?case
    by (auto simp: Suc.IH store32_at dwords_val add.commute)
qed auto

lemma or_pairs: "x = a OR b \<Longrightarrow> x OR p OR q = a OR q OR b OR (p :: u32)"
  by (simp add: or.assoc or.commute or.left_commute)

lemma FILL_DWORD_load: "FILL_DWORD a = load32 (\<lambda>i. if even i then 32 else a) 0"
proof -
  let ?m = "\<lambda>i :: nat. if even i then 32 else a"
  have "?m 0 = 32" "?m (0 + 1) = a" "?m (0 + 2) = 32" "?m (0 + 3) = a" by simp_all
  then have "load32 ?m 0 = ucast (32 :: u8) OR push_bit 8 (ucast a) OR push_bit 16 (ucast (32 :: u8)) OR push_bit 24 (ucast a)"
    by (simp only: load32_def)
  moreover have "(0x00200020 :: u32) = ucast (32 :: u8) OR push_bit 16 (ucast (32 :: u8))" by simp
  ultimately show ?thesis unfolding FILL_DWORD_def by (metis or_pairs)
qed

lemma store32_fill:
  "store32 v (FILL_DWORD a) m x = (if v \<le> x \<and> x < v + 4 then (if even (x - v) then 32 else a) else m x)"
  by (simp add: FILL_DWORD_load store32_at)

lemma fill_loop_at:
  "fill_loop (FILL_DWORD a) v n m x =
     (if v \<le> x \<and> x < v + 4 * n then (if even (x - v) then 32 else a) else m x)"
proof (induction n arbitrary: v m)
  case (Suc n)
  have "even (x - (v + 4)) \<longleftrightarrow> even (x - v)" if "v + 4 \<le> x" using that by auto
  then show ?case by (auto simp: Suc.IH store32_fill)
qed auto

lemma clear_loop_at:
  "clear_loop a n v m x = (if v \<le> x \<and> x < v + 2 * n then (if even (x - v) then 32 else a) else m x)"
proof (induction n arbitrary: v m)
  case (Suc n)
  have "even (x - (v + 2)) \<longleftrightarrow> even (x - v)" if "v + 2 \<le> x" using that by auto
  then show ?case by (auto simp: Suc.IH)
qed auto

lemma text_of_clear:
  assumes "p + n \<le> 2000"
  shows "text_of (clear_loop a n (753664 + 2 * p) m) = take p (text_of m) @ replicate n (32, a) @ drop (p + n) (text_of m)"
    and "outside_same m (clear_loop a n (753664 + 2 * p) m)"
proof -
  show "text_of (clear_loop a n (753664 + 2 * p) m) = take p (text_of m) @ replicate n (32, a) @ drop (p + n) (text_of m)"
  proof (rule nth_equalityI)
    fix i assume "i < length (text_of (clear_loop a n (753664 + 2 * p) m))"
    then have i: "i < 2000" by simp
    have c: "cell (clear_loop a n (753664 + 2 * p) m) i = (if p \<le> i \<and> i < p + n then (32, a) else cell m i)"
      by (auto simp: cell_def clear_loop_at)
    show "text_of (clear_loop a n (753664 + 2 * p) m) ! i
        = (take p (text_of m) @ replicate n (32, a) @ drop (p + n) (text_of m)) ! i"
      using i assms by (auto simp: c nth_append)
  qed (use assms in simp)
  show "outside_same m (clear_loop a n (753664 + 2 * p) m)"
    using assms by (auto simp: outside_same_def clear_loop_at)
qed

lemma text_of_fill: "text_of (fill_loop (FILL_DWORD a) 753664 1000 m) = replicate 2000 (32, a)"
  by (rule nth_equalityI) (auto simp: cell_def fill_loop_at)

lemma outside_fill: "outside_same m (fill_loop (FILL_DWORD a) 753664 1000 m)"
  by (auto simp: outside_same_def fill_loop_at)

lemma cell_put: "cell (m(753664 + 2 * p := a, 753664 + 2 * p + 1 := b)) q = (if q = p then (a, b) else cell m q)"
proof -
  have "2 * q + 1 \<noteq> 2 * p" "2 * p + 1 \<noteq> 2 * q" by presburger+
  then show ?thesis by (auto simp: cell_def)
qed

lemma text_of_put:
  "p < 2000 \<Longrightarrow> text_of (m(753664 + 2 * p := a, 753664 + 2 * p + 1 := b)) = (text_of m)[p := (a, b)]"
  by (rule nth_equalityI)
    (auto simp: cell_put [simplified] nth_list_update simp del: fun_upd_apply)

section \<open>The terminal the console implements\<close>

text \<open>
  The abstract terminal is the list of the cells and the position of the next character; text
  that passes the end of the last line moves all lines up.
\<close>

type_synonym terminal = "(u8 \<times> u8) list \<times> nat"

definition wrap :: "u8 \<Rightarrow> terminal \<Rightarrow> terminal" where
  "wrap a = (\<lambda>(t, p). if p = 2000 then (drop 80 t @ replicate 80 (32, a), 1920) else (t, p))"

definition glyph :: "u8 \<Rightarrow> u8 \<Rightarrow> terminal \<Rightarrow> terminal" where
  "glyph a b = (\<lambda>(t, p). wrap a (t[p := (b, a)], p + 1))"

definition next_line :: "nat \<Rightarrow> nat" where
  "next_line p = (p div 80 + 1) * 80"

definition new_line :: "u8 \<Rightarrow> terminal \<Rightarrow> terminal" where
  "new_line a = (\<lambda>(t, p). wrap a
     (take p t @ replicate (next_line p - p) (32, a) @ drop (next_line p) t, next_line p))"

definition tabulate :: "u8 \<Rightarrow> terminal \<Rightarrow> terminal" where
  "tabulate a tp = (glyph a 32 ^^ (8 - snd tp mod 8)) tp"

definition show_byte :: "u8 \<Rightarrow> u8 \<Rightarrow> terminal \<Rightarrow> terminal" where
  "show_byte a b = (if b = 10 then new_line a else if b = 9 then tabulate a else glyph a b)"

definition terminal_of :: "console \<Rightarrow> terminal" where
  "terminal_of s = (text_of (vmem s), cpos s)"

definition in_screen :: "console \<Rightarrow> bool" where
  "in_screen s \<longleftrightarrow> 0 \<le> row s \<and> row s < 25 \<and> 0 \<le> col s \<and> col s < 80"

text \<open>Only the cursor and the display change, and the cursor stays on the screen.\<close>

definition writes :: "console \<Rightarrow> console \<Rightarrow> bool" where
  "writes s s' \<longleftrightarrow> in_screen s' \<and> s' = s\<lparr>row := row s', col := col s', vmem := vmem s'\<rparr>
     \<and> outside_same (vmem s) (vmem s')"

lemma writes_refl: "in_screen s \<Longrightarrow> writes s s"
  by (simp add: writes_def)

lemma writes_trans: "writes a b \<Longrightarrow> writes b c \<Longrightarrow> writes a c"
  by (cases a; cases b; cases c) (auto simp: writes_def intro: outside_same_trans)

lemma writes_frame:
  assumes "writes s s'"
  shows "currentAttr s' = currentAttr s" "con_state s' = con_state s" "argList s' = argList s"
    "numArgs s' = numArgs s" "con_ints s' = con_ints s" "crt_addr s' = crt_addr s"
    "crt_regs s' = crt_regs s" "saveRow s' = saveRow s" "saveCol s' = saveCol s" "in_screen s'"
    "outside_same (vmem s) (vmem s')"
proof -
  from assms have e: "s' = s\<lparr>row := row s', col := col s', vmem := vmem s'\<rparr>" by (simp add: writes_def)
  show "currentAttr s' = currentAttr s" by (subst e) simp
  show "con_state s' = con_state s" by (subst e) simp
  show "argList s' = argList s" by (subst e) simp
  show "numArgs s' = numArgs s" by (subst e) simp
  show "con_ints s' = con_ints s" by (subst e) simp
  show "crt_addr s' = crt_addr s" by (subst e) simp
  show "crt_regs s' = crt_regs s" by (subst e) simp
  show "saveRow s' = saveRow s" by (subst e) simp
  show "saveCol s' = saveCol s" by (subst e) simp
  show "in_screen s'" "outside_same (vmem s) (vmem s')" using assms by (simp_all add: writes_def)
qed

lemma cpos_bound: "in_screen s \<Longrightarrow> cpos s < 2000"
  by (auto simp: in_screen_def cpos_def)

lemma cpos_div_mod:
  assumes "in_screen s"
  shows "cpos s div 80 = nat (row s)" "cpos s mod 80 = nat (col s)"
proof -
  from assms have e: "cpos s = nat (row s) * 80 + nat (col s)" "nat (col s) < 80"
    by (auto simp: cpos_def in_screen_def nat_add_distrib nat_mult_distrib)
  then show "cpos s div 80 = nat (row s)" "cpos s mod 80 = nat (col s)" by simp_all
qed

lemma unat_word_of_int_small: "0 \<le> k \<Longrightarrow> k < 4294967296 \<Longrightarrow> unat (word_of_int k :: u32) = nat k"
  by (simp add: unsigned_of_int take_bit_int_eq_self)

lemma cursor_addr_cpos:
  assumes "0 \<le> row s" "row s < 25" "0 \<le> col s" "col s \<le> 80"
  shows "cursor_addr s = 753664 + 2 * cpos s"
proof -
  have "VIDMEM + word_of_int (row s * 160) + word_of_int (col s * 2)
      = (word_of_int (753664 + row s * 160 + col s * 2) :: u32)"
    by (simp add: VIDMEM_def)
  moreover have "(80 :: int) * 2 = 160" by simp
  ultimately have "cursor_addr s = unat (word_of_int (753664 + row s * 160 + col s * 2) :: u32)"
    by (simp only: cursor_addr_def NUMCOLS_def)
  also have "\<dots> = nat (753664 + row s * 160 + col s * 2)"
    by (rule unat_word_of_int_small) (use assms in auto)
  finally show ?thesis using assms by (simp add: cpos_def)
qed

lemma Scroll_text:
  "text_of (vmem (Scroll s)) = drop 80 (text_of (vmem s)) @ replicate 80 (32, currentAttr s)"
  "outside_same (vmem s) (vmem (Scroll s))"
  "Scroll s = s\<lparr>vmem := vmem (Scroll s)\<rparr>"
proof -
  have at: "vmem (Scroll s) x = (if 757504 \<le> x \<and> x < 757664 then (if even x then 32 else currentAttr s)
      else if 753664 \<le> x \<and> x < 757504 then vmem s (x + 160) else vmem s x)" for x
  proof -
    have "even (x - 757504) \<longleftrightarrow> even x" if "757504 \<le> x" using that by auto
    then show ?thesis
      by (auto simp: Scroll_def VIDMEM_val dwords_val fill_loop_at scroll_loop_at)
  qed
  show "text_of (vmem (Scroll s)) = drop 80 (text_of (vmem s)) @ replicate 80 (32, currentAttr s)"
  proof (rule nth_equalityI)
    fix i assume "i < length (text_of (vmem (Scroll s)))"
    then have i: "i < 2000" by simp
    have c: "cell (vmem (Scroll s)) i = (if i < 1920 then cell (vmem s) (i + 80) else (32, currentAttr s))"
      using i by (auto simp: cell_def at algebra_simps)
    show "text_of (vmem (Scroll s)) ! i
        = (drop 80 (text_of (vmem s)) @ replicate 80 (32, currentAttr s)) ! i"
      using i by (auto simp: c nth_append add.commute)
  qed simp
  show "outside_same (vmem s) (vmem (Scroll s))" by (simp add: outside_same_def at)
  show "Scroll s = s\<lparr>vmem := vmem (Scroll s)\<rparr>" by (simp add: Scroll_def Let_def)
qed

lemma Scroll_frame [simp]: "row (Scroll s) = row s" "col (Scroll s) = col s"
  by (simp_all add: Scroll_def Let_def)

text \<open>The cursor may stand one position past the end of its line before \<open>Newline\<close> is called.\<close>

lemma Newline_wrap:
  assumes "0 \<le> row s" "row s < 25"
  shows "writes s (Newline s)"
    and "terminal_of (Newline s) = wrap (currentAttr s) (text_of (vmem s), (nat (row s) + 1) * 80)"
proof -
  let ?s = "s\<lparr>row := row s + 1, col := 0\<rparr>"
  have n: "Newline s = (if row s + 1 = 25 then (Scroll ?s)\<lparr>row := 24\<rparr> else ?s)"
    by (simp add: Newline_def screen_consts Let_def)
  have v: "writes s (Newline s)" if "row s = 24"
  proof -
    have "(Scroll u)\<lparr>row := 24\<rparr> = u\<lparr>row := 24, vmem := vmem (Scroll u)\<rparr>" for u
      by (subst Scroll_text(3)) (cases u, simp)
    moreover have "?s\<lparr>row := 24, vmem := X\<rparr> = s\<lparr>row := 24, col := 0, vmem := X\<rparr>" for X
      by (cases s) simp
    moreover have "Newline s = (Scroll ?s)\<lparr>row := 24\<rparr>" using that by (simp add: n)
    ultimately have "Newline s = s\<lparr>row := 24, col := 0, vmem := vmem (Scroll ?s)\<rparr>"
      by (simp only:)
    with Scroll_text(2) [of ?s] show ?thesis by (simp add: writes_def in_screen_def)
  qed
  show "writes s (Newline s)"
  proof (cases "row s = 24")
    case False
    with assms n show ?thesis by (simp add: writes_def in_screen_def)
  qed (rule v)
  show "terminal_of (Newline s) = wrap (currentAttr s) (text_of (vmem s), (nat (row s) + 1) * 80)"
  proof (cases "row s = 24")
    case True
    then show ?thesis using Scroll_text(1) [of ?s]
      by (simp add: n terminal_of_def wrap_def cpos_def)
  next
    case False
    with assms have "row s \<noteq> 24" "nat ((row s + 1) * 80) = (nat (row s) + 1) * 80"
      "(nat (row s) + 1) * 80 \<noteq> 2000"
      by (auto simp: nat_mult_distrib nat_add_distrib)
    then show ?thesis by (simp add: n terminal_of_def wrap_def cpos_def)
  qed
qed

lemma Put_Graphic_Char_glyph:
  assumes "in_screen s"
  shows "writes s (Put_Graphic_Char c s)"
    and "terminal_of (Put_Graphic_Char c s) = glyph (currentAttr s) (word_of_int c) (terminal_of s)"
proof -
  define m where "m = (vmem s)(753664 + 2 * cpos s := word_of_int c, 753664 + 2 * cpos s + 1 := currentAttr s)"
  let ?s = "s\<lparr>vmem := m\<rparr>"
  from assms have b: "0 \<le> row s" "row s < 25" "0 \<le> col s" "col s < 80" by (simp_all add: in_screen_def)
  then have a: "cursor_addr s = 753664 + 2 * cpos s" by (simp add: cursor_addr_cpos)
  have p: "cpos s < 2000" using assms by (rule cpos_bound)
  have t: "text_of m = (text_of (vmem s))[cpos s := (word_of_int c, currentAttr s)]"
    unfolding m_def by (rule text_of_put [OF p])
  have "2 * cpos s + 1 < 4000" using p by simp
  then have o: "outside_same (vmem s) m" by (auto simp: outside_same_def m_def)
  have g: "Put_Graphic_Char c s = (if col s < 79 then ?s\<lparr>col := col s + 1\<rparr> else Newline ?s)"
    unfolding Put_Graphic_Char_def a Let_def NUMCOLS_def m_def by simp
  have i: "in_screen ?s" "writes s ?s" using assms o by (simp_all add: in_screen_def writes_def)
  show "writes s (Put_Graphic_Char c s)"
  proof (cases "col s < 79")
    case True
    then show ?thesis using b o by (simp add: g writes_def in_screen_def)
  next
    case False
    have "writes ?s (Newline ?s)" by (rule Newline_wrap) (use b in simp_all)
    with False i(2) show ?thesis by (simp add: g writes_trans)
  qed
  show "terminal_of (Put_Graphic_Char c s) = glyph (currentAttr s) (word_of_int c) (terminal_of s)"
  proof (cases "col s < 79")
    case True
    then have "cpos s + 1 \<noteq> 2000" "nat (row s * 80 + (col s + 1)) = cpos s + 1"
      using b by (auto simp: cpos_def nat_add_distrib nat_mult_distrib)
    with True t show ?thesis
      by (simp add: g terminal_of_def glyph_def wrap_def) (simp add: cpos_def)
  next
    case False
    with b have "col s = 79" by simp
    with b have e: "(nat (row s) + 1) * 80 = cpos s + 1" by (simp add: cpos_def)
    have "terminal_of (Newline ?s) = wrap (currentAttr ?s) (text_of (vmem ?s), (nat (row ?s) + 1) * 80)"
      by (rule Newline_wrap) (use b in simp_all)
    also have "\<dots> = wrap (currentAttr s) (text_of m, cpos s + 1)" unfolding e [symmetric] by simp
    finally show ?thesis using False t by (simp add: g glyph_def terminal_of_def)
  qed
qed

lemma put_spaces_glyphs:
  assumes "in_screen s"
  shows "writes s (put_spaces n s)"
    and "terminal_of (put_spaces n s) = (glyph (currentAttr s) 32 ^^ n) (terminal_of s)"
proof -
  have "writes s (put_spaces n s)
      \<and> terminal_of (put_spaces n s) = (glyph (currentAttr s) 32 ^^ n) (terminal_of s)"
    using assms
  proof (induction n arbitrary: s)
    case (Suc n)
    note g = Put_Graphic_Char_glyph [OF Suc.prems, of 32]
    have "in_screen (Put_Graphic_Char 32 s)" "currentAttr (Put_Graphic_Char 32 s) = currentAttr s"
      using writes_frame [OF g(1)] by simp_all
    with Suc.IH [of "Put_Graphic_Char 32 s"] g show ?case
      by (auto simp: funpow_Suc_right simp del: funpow.simps intro: writes_trans)
  qed (simp add: writes_refl)
  then show "writes s (put_spaces n s)"
    "terminal_of (put_spaces n s) = (glyph (currentAttr s) 32 ^^ n) (terminal_of s)" by simp_all
qed

lemma Clear_To_EOL_text:
  assumes "in_screen s"
  shows "writes s (Clear_To_EOL s)" "row (Clear_To_EOL s) = row s" "col (Clear_To_EOL s) = col s"
    and "text_of (vmem (Clear_To_EOL s)) = take (cpos s) (text_of (vmem s))
      @ replicate (next_line (cpos s) - cpos s) (32, currentAttr s) @ drop (next_line (cpos s)) (text_of (vmem s))"
proof -
  from assms have b: "0 \<le> row s" "row s < 25" "0 \<le> col s" "col s < 80" by (simp_all add: in_screen_def)
  then have a: "cursor_addr s = 753664 + 2 * cpos s" by (simp add: cursor_addr_cpos)
  have nl: "next_line (cpos s) = nat (row s) * 80 + 80"
    using cpos_div_mod [OF assms] by (simp add: next_line_def)
  have cp: "cpos s = nat (row s) * 80 + nat (col s)"
    using b by (simp add: cpos_def nat_add_distrib nat_mult_distrib)
  have n: "nat (80 - col s) = next_line (cpos s) - cpos s"
    unfolding nl unfolding cp using b by simp
  have le: "cpos s + (next_line (cpos s) - cpos s) \<le> 2000" "cpos s \<le> next_line (cpos s)"
    unfolding nl unfolding cp using b by auto
  have c: "Clear_To_EOL s = s\<lparr>vmem := clear_loop (currentAttr s) (next_line (cpos s) - cpos s)
      (753664 + 2 * cpos s) (vmem s)\<rparr>"
    by (simp add: Clear_To_EOL_def a NUMCOLS_def n)
  note t = text_of_clear [OF le(1), where a = "currentAttr s" and m = "vmem s"]
  show "writes s (Clear_To_EOL s)" using assms t(2) by (simp add: c writes_def in_screen_def)
  show "row (Clear_To_EOL s) = row s" "col (Clear_To_EOL s) = col s" by (simp_all add: c)
  show "text_of (vmem (Clear_To_EOL s)) = take (cpos s) (text_of (vmem s))
      @ replicate (next_line (cpos s) - cpos s) (32, currentAttr s) @ drop (next_line (cpos s)) (text_of (vmem s))"
    using t(1) le(2) by (simp add: c)
qed

lemma Output_Literal_Character_shows:
  assumes "in_screen s"
  shows "writes s (Output_Literal_Character (sint b) s)"
    and "terminal_of (Output_Literal_Character (sint b) s) = show_byte (currentAttr s) b (terminal_of s)"
proof -
  have e: "sint b = 10 \<longleftrightarrow> b = 10" "sint b = 9 \<longleftrightarrow> b = 9"
    using signed_word_eqI [of b 10] signed_word_eqI [of b 9] by auto
  note c = Clear_To_EOL_text [OF assms] and w = writes_frame [OF Clear_To_EOL_text(1) [OF assms]]
  from assms have r: "0 \<le> row (Clear_To_EOL s)" "row (Clear_To_EOL s) < 25"
    by (simp_all add: c in_screen_def)
  have n: "(nat (row (Clear_To_EOL s)) + 1) * 80 = next_line (cpos s)"
    using cpos_div_mod [OF assms] by (simp add: c next_line_def)
  have "nat (8 - col s mod 8) = 8 - cpos s mod 8"
  proof -
    from assms have "cpos s = nat (row s) * 80 + nat (col s)"
      by (simp add: cpos_def in_screen_def nat_add_distrib nat_mult_distrib)
    moreover have "(r * 80 + c) mod 8 = c mod 8" for r c :: nat by presburger
    ultimately have "cpos s mod 8 = nat (col s) mod 8" by simp
    then have "cpos s mod 8 = nat (col s mod 8)" using assms by (simp add: nat_mod_distrib in_screen_def)
    then show ?thesis by simp
  qed
  then have t: "Output_Literal_Character 9 s = put_spaces (8 - cpos s mod 8) s"
    by (simp add: Output_Literal_Character_def TABWIDTH_def)
  show "writes s (Output_Literal_Character (sint b) s)"
    using writes_trans [OF c(1) Newline_wrap(1) [OF r]] put_spaces_glyphs(1) [OF assms]
      Put_Graphic_Char_glyph(1) [OF assms]
    by (simp add: Output_Literal_Character_def e)
  show "terminal_of (Output_Literal_Character (sint b) s) = show_byte (currentAttr s) b (terminal_of s)"
  proof -
    have "terminal_of (Newline (Clear_To_EOL s)) = new_line (currentAttr s) (terminal_of s)"
      using Newline_wrap(2) [OF r] w(1) n c(4) by (simp add: new_line_def terminal_of_def)
    moreover have "terminal_of (put_spaces (8 - cpos s mod 8) s) = tabulate (currentAttr s) (terminal_of s)"
      using put_spaces_glyphs(2) [OF assms] by (simp add: tabulate_def terminal_of_def)
    moreover have "Output_Literal_Character (sint b) s = (if b = 10 then Newline (Clear_To_EOL s)
        else if b = 9 then put_spaces (8 - cpos s mod 8) s else Put_Graphic_Char (sint b) s)"
      using t by (auto simp: Output_Literal_Character_def e)
    ultimately show ?thesis
      using Put_Graphic_Char_glyph(2) [OF assms, of "sint b"] by (simp add: show_byte_def)
  qed
qed

section \<open>The invariant of the console\<close>

definition base_ok :: "console \<Rightarrow> bool" where
  "base_ok s \<longleftrightarrow> in_screen s \<and> 0 \<le> saveRow s \<and> saveRow s < 25 \<and> 0 \<le> saveCol s \<and> saveCol s < 80
     \<and> length (argList s) = 8 \<and> 0 \<le> numArgs s"

definition con_ok :: "console \<Rightarrow> bool" where
  "con_ok s \<longleftrightarrow> base_ok s \<and> con_state s \<noteq> S_CMD
     \<and> (if con_state s = S_ARG then 0 < numArgs s else numArgs s = 0)"

definition con_stable :: "console \<Rightarrow> console \<Rightarrow> bool" where
  "con_stable s s' \<longleftrightarrow> base_ok s' \<and> outside_same (vmem s) (vmem s') \<and> con_ints s' = con_ints s
     \<and> crt_addr s' = crt_addr s"

lemma con_stable_refl: "base_ok s \<Longrightarrow> con_stable s s"
  by (simp add: con_stable_def)

lemma con_stable_trans: "con_stable a b \<Longrightarrow> con_stable b c \<Longrightarrow> con_stable a c"
  by (auto simp: con_stable_def intro: outside_same_trans)

lemma writes_stable: "writes s s' \<Longrightarrow> base_ok s \<Longrightarrow> con_stable s s'"
  using writes_frame [of s s'] by (simp add: con_stable_def base_ok_def)

lemma int_atomic_run:
  "f (s\<lparr>con_ints := False\<rparr>) = Some t \<Longrightarrow> \<not> con_ints t \<Longrightarrow>
     int_atomic f s = Some (t\<lparr>con_ints := con_ints s\<rparr>)"
  by (cases t) (simp add: int_atomic_def Let_def)

lemma Clear_Screen_run:
  "Clear_Screen s = Some (s\<lparr>vmem := fill_loop (FILL_DWORD (currentAttr s)) 753664 1000 (vmem s)\<rparr>)"
proof -
  let ?m = "fill_loop (FILL_DWORD (currentAttr s)) 753664 1000 (vmem s)"
  have "Clear_Screen s = Some (s\<lparr>con_ints := False, vmem := ?m\<rparr>\<lparr>con_ints := con_ints s\<rparr>)"
    unfolding Clear_Screen_def Let_def by (rule int_atomic_run) (simp_all add: VIDMEM_val dwords_val)
  then show ?thesis by (cases s) simp
qed

lemma Update_Cursor_frame [simp]:
  "row (Update_Cursor s) = row s" "col (Update_Cursor s) = col s" "saveRow (Update_Cursor s) = saveRow s"
  "saveCol (Update_Cursor s) = saveCol s" "currentAttr (Update_Cursor s) = currentAttr s"
  "con_state (Update_Cursor s) = con_state s" "argList (Update_Cursor s) = argList s"
  "numArgs (Update_Cursor s) = numArgs s" "vmem (Update_Cursor s) = vmem s"
  "crt_addr (Update_Cursor s) = crt_addr s" "con_ints (Update_Cursor s) = con_ints s"
  by (simp_all add: Update_Cursor_def Out_CRT_Addr_def Out_CRT_Data_def Let_def)

text \<open>The position that the two cursor registers hold.\<close>

definition hardware_cursor :: "console \<Rightarrow> nat" where
  "hardware_cursor s = 256 * unat (crt_regs s CRT_CURSOR_LOC_HIGH_REG)
     + unat (crt_regs s CRT_CURSOR_LOC_LOW_REG)"

lemma Update_Cursor_hardware:
  assumes "in_screen s"
  shows "hardware_cursor (Update_Cursor s) = cpos s"
proof -
  define w :: u32 where "w = word_of_int (row s * NUMCOLS + col s)"
  have w: "unat w = cpos s" using assms unfolding w_def
    by (subst unat_word_of_int_small) (auto simp: in_screen_def cpos_def NUMCOLS_def)
  have b: "cpos s < 2000" using assms by (rule cpos_bound)
  have u: "unat (ucast (x AND 0xff :: u32) :: u8) = unat x mod 256" for x
  proof -
    have "(0xff :: u32) = mask 8" by (simp add: mask_eq_exp_minus_1)
    then have "x AND 0xff = take_bit 8 x" by (simp only: take_bit_eq_mask)
    then have "(ucast (x AND 0xff) :: u8) = ucast x"
      by (simp only:) (rule bit_word_eqI, auto simp: bit_simps)
    then show ?thesis by (simp add: unsigned_ucast_eq take_bit_eq_mod)
  qed
  have "unat (drop_bit 8 w) = cpos s div 256"
    by (simp only: unat_drop_bit_eq w) (simp add: drop_bit_eq_div)
  then have d: "unat (drop_bit 8 w) mod 256 = cpos s div 256" using b by simp
  have "cpos s = 256 * (cpos s div 256) + cpos s mod 256" by simp
  moreover have "crt_regs (Update_Cursor s) CRT_CURSOR_LOC_HIGH_REG = ucast (drop_bit 8 w AND 0xff)"
    "crt_regs (Update_Cursor s) CRT_CURSOR_LOC_LOW_REG = ucast (w AND 0xff)"
    by (simp_all add: Update_Cursor_def Out_CRT_Addr_def Out_CRT_Data_def Let_def
        CRT_CURSOR_LOC_HIGH_REG_def CRT_CURSOR_LOC_LOW_REG_def w_def)
  ultimately show ?thesis by (simp only: hardware_cursor_def u w d)
qed

lemma Put_Cursor_home:
  "Put_Cursor 0 0 s = Some (True, Update_Cursor (s\<lparr>row := 0, col := 0\<rparr>))"
proof -
  have "int_atomic (\<lambda>s. Some (Update_Cursor (s\<lparr>row := 0, col := 0\<rparr>))) s
      = Some ((Update_Cursor (s\<lparr>con_ints := False, row := 0, col := 0\<rparr>))\<lparr>con_ints := con_ints s\<rparr>)"
    by (rule int_atomic_run) simp_all
  moreover have "(Update_Cursor (s\<lparr>con_ints := False, row := 0, col := 0\<rparr>))\<lparr>con_ints := con_ints s\<rparr>
      = Update_Cursor (s\<lparr>row := 0, col := 0\<rparr>)"
    by (cases s) (simp add: Update_Cursor_def Out_CRT_Addr_def Out_CRT_Data_def Let_def)
  ultimately show ?thesis by (simp add: Put_Cursor_def screen_consts)
qed

lemma arg_at_Some: "length (argList s) = 8 \<Longrightarrow> 0 \<le> i \<Longrightarrow> i < 8 \<Longrightarrow> arg_at i s = Some (argList s ! nat i)"
  by (simp add: arg_at_def)

lemma Get_Arg_Some:
  "length (argList s) = 8 \<Longrightarrow> 0 \<le> i \<Longrightarrow> i < 8 \<Longrightarrow>
     Get_Arg i s = Some (if i < numArgs s then argList s ! nat i else 0)"
  by (simp add: Get_Arg_def arg_at_Some)

lemma attr_loop_None:
  "0 \<le> i \<Longrightarrow> length (argList s) = 8 \<Longrightarrow> attr_loop i a s = None \<longleftrightarrow> i < numArgs s \<and> 8 < numArgs s"
proof (induction i a s rule: attr_loop.induct)
  case (1 i a s)
  show ?case
  proof (cases "i < numArgs s \<and> i < 8")
    case True
    with "1.prems" have "arg_at i s = Some (argList s ! nat i)" by (simp add: arg_at_Some)
    with "1.IH" [of "argList s ! nat i"] True "1.prems" show ?thesis
      by (subst attr_loop.simps) auto
  next
    case False
    then have "i < numArgs s \<Longrightarrow> arg_at i s = None" using "1.prems" by (simp add: arg_at_def)
    with False show ?thesis by (subst attr_loop.simps) auto
  qed
qed

lemma Move_Cursor_writes: "writes s (Move_Cursor r c s)"
  by (auto simp: Move_Cursor_def Let_def writes_def in_screen_def screen_consts)

lemma run_command_ok:
  assumes "base_ok s"
  shows "run_command c s = None \<longleftrightarrow> c = 109 \<and> 8 < numArgs s"
    and "run_command c s = Some s' \<Longrightarrow> con_stable s s'"
proof -
  from assms have l: "length (argList s) = 8" and i: "in_screen s" and n: "0 \<le> numArgs s"
    by (simp_all add: base_ok_def)
  have a: "Get_Arg 0 s = Some (if 0 < numArgs s then argList s ! 0 else 0)"
      "Get_Arg 1 s = Some (if 1 < numArgs s then argList s ! 1 else 0)"
    by (simp_all add: Get_Arg_Some [OF l])
  have u: "Update_Attributes s = None \<longleftrightarrow> 8 < numArgs s"
    using attr_loop_None [OF _ l, of 0] n by (auto simp: Update_Attributes_def bind_eq_None_conv)
  show "run_command c s = None \<longleftrightarrow> c = 109 \<and> 8 < numArgs s"
    by (simp add: run_command_def a u Clear_Screen_run Put_Cursor_home split del: if_split cong: if_cong)
      (auto simp: u split: if_splits)
  have m: "con_stable s (Move_Cursor r k s)" for r k by (rule writes_stable [OF Move_Cursor_writes assms])
  have att: "Update_Attributes s = Some s' \<Longrightarrow> con_stable s s'"
    using assms by (auto simp: Update_Attributes_def bind_eq_Some_conv con_stable_def base_ok_def in_screen_def)
  have clr: "con_stable s (Update_Cursor (s\<lparr>vmem := fill_loop (FILL_DWORD (currentAttr s)) 753664 1000 (vmem s), row := 0, col := 0\<rparr>))"
    using assms outside_fill by (simp add: con_stable_def base_ok_def in_screen_def)
  have clr': "con_stable s (Update_Cursor (s\<lparr>row := 0, col := 0, vmem := fill_loop (FILL_DWORD (currentAttr s)) 753664 1000 (vmem s)\<rparr>))"
    using assms outside_fill by (simp add: con_stable_def base_ok_def in_screen_def)
  have o: "con_stable s s" "con_stable s (Clear_To_EOL s)" "con_stable s (Save_Cursor s)" "con_stable s (Restore_Cursor s)"
    using assms writes_stable [OF Clear_To_EOL_text(1) [OF i]]
    by (simp_all add: con_stable_def base_ok_def in_screen_def Save_Cursor_def Restore_Cursor_def)
  show "con_stable s s'" if "run_command c s = Some s'"
    using that assms unfolding run_command_def a Clear_Screen_run bind.bind_lunit
    by (auto simp: Put_Cursor_home intro: m att clr clr' o con_stable_refl split: if_split_asm)
qed

lemma con_okD: "con_ok s \<Longrightarrow> base_ok s"
  by (simp add: con_ok_def)

lemma put_in_cmd_ok:
  assumes "base_ok s"
  shows "put_in_cmd c s = None \<longleftrightarrow> c = 109 \<and> 8 < numArgs s"
    and "put_in_cmd c s = Some s' \<Longrightarrow> con_stable s s' \<and> con_ok s' \<and> numArgs s' = 0"
  using run_command_ok [OF assms, of c]
  by (auto simp: put_in_cmd_def bind_eq_None_conv bind_eq_Some_conv Reset_def con_ok_def
      con_stable_def base_ok_def in_screen_def)

lemma Start_Arg_ok:
  assumes "base_ok s" "numArgs s = n" "n < 2147483647"
  shows "\<exists>s'. Start_Arg n s = Some s' \<and> con_stable s s' \<and> con_ok s' \<and> numArgs s' = n + 1 \<and> con_state s' = S_ARG"
proof -
  from assms have "s32 (numArgs s + 1) = n + 1" "0 \<le> n" by (simp_all add: s32_id base_ok_def)
  with assms show ?thesis
    by (auto simp: Start_Arg_def Let_def set_arg_def screen_consts con_stable_def con_ok_def
        base_ok_def in_screen_def)
qed

lemma Add_Digit_ok:
  assumes "base_ok s" "con_state s = S_ARG" "0 < numArgs s" "ISDIGIT c"
  shows "\<exists>s'. Add_Digit c s = Some s' \<and> con_stable s s' \<and> con_ok s' \<and> numArgs s' = numArgs s
    \<and> con_state s' = S_ARG"
  using assms
  by (auto simp: Add_Digit_def Let_def arg_at_def set_arg_def screen_consts con_stable_def con_ok_def
      base_ok_def in_screen_def)

lemma put_in_arg_ok:
  assumes "con_ok s" "con_state s = S_ARG" "numArgs s < 2147483647"
  shows "put_in_arg c s = None \<longleftrightarrow> c = 109 \<and> 8 < numArgs s"
    and "put_in_arg c s = Some s' \<Longrightarrow> con_stable s s' \<and> con_ok s' \<and> numArgs s' \<le> numArgs s + 1"
proof -
  from assms have b: "base_ok s" "0 < numArgs s" by (auto simp: con_ok_def split: if_splits)
  have b': "base_ok (s\<lparr>con_state := S_CMD\<rparr>)" using b by (simp add: base_ok_def in_screen_def)
  have st: "con_stable (s\<lparr>con_state := S_CMD\<rparr>) t \<longleftrightarrow> con_stable s t" for t by (simp add: con_stable_def)
  note a = Add_Digit_ok [OF b(1) assms(2) b(2), of c] and g = Start_Arg_ok [OF b(1) refl assms(3)]
    and k = put_in_cmd_ok [OF b', of c]
  have "\<not> ISDIGIT 109" "\<not> ISDIGIT 59" by (simp_all add: ISDIGIT_def)
  with a g k(1) show "put_in_arg c s = None \<longleftrightarrow> c = 109 \<and> 8 < numArgs s"
    by (auto simp: put_in_arg_def)
  show "con_stable s s' \<and> con_ok s' \<and> numArgs s' \<le> numArgs s + 1" if "put_in_arg c s = Some s'"
    using that a g k(2) [of s'] b(2) by (auto simp: put_in_arg_def st split: if_splits)
qed

lemma put_in_esc2_ok:
  assumes "con_ok s" "con_state s = S_ESC2"
  shows "\<exists>s'. put_in_esc2 c s = Some s' \<and> con_stable s s' \<and> con_ok s' \<and> numArgs s' \<le> numArgs s + 2"
proof -
  from assms have b: "base_ok s" "numArgs s = 0" by (auto simp: con_ok_def split: if_splits)
  from Start_Arg_ok [OF b] obtain s1 where s1: "Start_Arg 0 s = Some s1" "con_stable s s1" "con_ok s1"
    "numArgs s1 = 1" "con_state s1 = S_ARG" by auto
  consider "ISDIGIT c" | "\<not> ISDIGIT c" "c = 59" | "\<not> ISDIGIT c" "c \<noteq> 59" by blast
  then show ?thesis
  proof cases
    case 1
    from Add_Digit_ok [OF con_okD [OF s1(3)] s1(5) _ 1] s1(4) obtain s2 where
      "Add_Digit c s1 = Some s2" "con_stable s1 s2" "con_ok s2" "numArgs s2 = 1" by auto
    with 1 s1 b(2) show ?thesis
      using con_stable_trans by (auto simp: put_in_esc2_def put_in_arg_def)
  next
    case 2
    have "ISDIGIT 49" by (simp add: ISDIGIT_def)
    from Add_Digit_ok [OF con_okD [OF s1(3)] s1(5) _ this] s1(4) obtain s2 where
      s2: "Add_Digit 49 s1 = Some s2" "con_stable s1 s2" "con_ok s2" "numArgs s2 = 1" by auto
    from Start_Arg_ok [OF con_okD [OF s2(3)] s2(4)] obtain s3 where
      s3: "Start_Arg 1 s2 = Some s3" "con_stable s2 s3" "con_ok s3" "numArgs s3 = 2" by auto
    have "con_stable s s3" using s1(2) s2(2) s3(2) con_stable_trans by blast
    with 2 s1(1) s2(1) s3 b(2) show ?thesis by (simp add: put_in_esc2_def ISDIGIT_def)
  next
    case 3
    have b': "base_ok (s\<lparr>con_state := S_CMD\<rparr>)" using b by (simp add: base_ok_def in_screen_def)
    have st: "con_stable (s\<lparr>con_state := S_CMD\<rparr>) t \<longleftrightarrow> con_stable s t" for t by (simp add: con_stable_def)
    from put_in_cmd_ok [OF b', of c] 3 b(2) show ?thesis
      by (cases "put_in_cmd c (s\<lparr>con_state := S_CMD\<rparr>)") (auto simp: put_in_esc2_def st)
  qed
qed

lemma Output_Literal_Character_ok:
  assumes "in_screen s"
  shows "writes s (Output_Literal_Character c s)"
proof -
  note k = Clear_To_EOL_text [OF assms]
  from assms have r: "0 \<le> row (Clear_To_EOL s)" "row (Clear_To_EOL s) < 25"
    by (simp_all add: k in_screen_def)
  show ?thesis
    using writes_trans [OF k(1) Newline_wrap(1) [OF r]] put_spaces_glyphs(1) [OF assms]
      Put_Graphic_Char_glyph(1) [OF assms]
    by (simp add: Output_Literal_Character_def)
qed

lemma Put_Char_Imp_ok:
  assumes "con_ok s" "numArgs s < 2147483647"
  shows "Put_Char_Imp c s = None \<longleftrightarrow> con_state s = S_ARG \<and> c = 109 \<and> 8 < numArgs s"
    and "Put_Char_Imp c s = Some s' \<Longrightarrow> con_stable s s' \<and> con_ok s' \<and> numArgs s' \<le> numArgs s + 2"
proof -
  have b: "base_ok s" using assms by (simp add: con_ok_def)
  then have i: "in_screen s" by (simp add: base_ok_def)
  have o: "con_stable s (Output_Literal_Character c s)" "numArgs (Output_Literal_Character c s) = numArgs s"
    "con_state (Output_Literal_Character c s) = con_state s"
    using writes_stable [OF Output_Literal_Character_ok [OF i] b]
      writes_frame [OF Output_Literal_Character_ok [OF i]] by simp_all
  show "Put_Char_Imp c s = None \<longleftrightarrow> con_state s = S_ARG \<and> c = 109 \<and> 8 < numArgs s"
  proof (cases "con_state s")
    case S_ESC2
    with put_in_esc2_ok [OF assms(1), of c] show ?thesis by (auto simp: Put_Char_Imp_def)
  next
    case S_ARG
    with put_in_arg_ok(1) [OF assms(1) _ assms(2), of c] show ?thesis by (simp add: Put_Char_Imp_def)
  qed (use assms in \<open>simp_all add: con_ok_def Put_Char_Imp_def\<close>)
  show "con_stable s s' \<and> con_ok s' \<and> numArgs s' \<le> numArgs s + 2" if "Put_Char_Imp c s = Some s'"
  proof (cases "con_state s")
    case S_NORMAL
    with that assms o b show ?thesis
      by (auto simp: Put_Char_Imp_def con_ok_def Start_Escape_def con_stable_def base_ok_def in_screen_def split: if_splits)
  next
    case S_ESC
    with that assms b show ?thesis
      by (auto simp: Put_Char_Imp_def con_ok_def Reset_def con_stable_def base_ok_def in_screen_def split: if_splits)
  next
    case S_ESC2
    with that put_in_esc2_ok [OF assms(1), of c] show ?thesis by (auto simp: Put_Char_Imp_def)
  next
    case S_ARG
    with that put_in_arg_ok(2) [OF assms(1) _ assms(2), of c s'] show ?thesis by (auto simp: Put_Char_Imp_def)
  qed (use assms in \<open>simp add: con_ok_def\<close>)
qed

section \<open>Properties\<close>

lemma put_buf_loop_append:
  "put_buf_loop (length xs + n) (xs @ ys) s = do { s \<leftarrow> put_buf_loop (length xs) xs s; put_buf_loop n ys s }"
proof (induction xs arbitrary: s)
  case (Cons x xs)
  then show ?case by (cases "Put_Char_Imp (sint x) s") simp_all
qed simp

lemma sint_ESC: "sint (c :: u8) = ESC \<longleftrightarrow> c = 0x1B"
  using signed_word_eqI [of c "0x1B"] by (auto simp: ESC_def)

lemma con_ok_writes: "con_ok s \<Longrightarrow> writes s t \<Longrightarrow> con_ok t"
  using writes_frame [of s t] by (simp add: con_ok_def base_ok_def)

lemma put_text:
  assumes "con_ok s" "con_state s = S_NORMAL" "0x1B \<notin> set bs"
  shows "\<exists>t. put_buf_loop (length bs) bs s = Some t \<and> writes s t
    \<and> terminal_of t = fold (show_byte (currentAttr s)) bs (terminal_of s)"
  using assms
proof (induction bs arbitrary: s)
  case (Cons b bs)
  let ?t = "Output_Literal_Character (sint b) s"
  from Cons.prems have i: "in_screen s" by (simp add: con_ok_def base_ok_def)
  note o = Output_Literal_Character_shows [OF i, of b] and f = writes_frame [OF Output_Literal_Character_shows(1) [OF i, of b]]
  have "con_ok ?t" "con_state ?t = S_NORMAL" "0x1B \<notin> set bs"
    using con_ok_writes [OF Cons.prems(1) o(1)] Cons.prems f by simp_all
  from Cons.IH [OF this] obtain t where t: "put_buf_loop (length bs) bs ?t = Some t" "writes ?t t"
    "terminal_of t = fold (show_byte (currentAttr s)) bs (terminal_of ?t)" by (auto simp: f)
  have "Put_Char_Imp (sint b) s = Some ?t"
    using Cons.prems by (auto simp: Put_Char_Imp_def sint_ESC)
  with t o writes_trans [OF o(1) t(2)] show ?case by simp
qed (simp add: writes_refl con_ok_def base_ok_def)

text \<open>\<open>Put_Buf\<close> on a whole list, with the hardware cursor it leaves.\<close>

lemma Put_Buf_run:
  assumes "length bs < 4294967296"
    and "put_buf_loop (length bs) bs (s\<lparr>con_ints := False\<rparr>) = Some t" "\<not> con_ints t"
  shows "Put_Buf bs (word_of_nat (length bs)) s = Some ((Update_Cursor t)\<lparr>con_ints := con_ints s\<rparr>)"
proof -
  have "unat (word_of_nat (length bs) :: u32) = length bs"
    using assms(1) by (simp add: unsigned_of_nat take_bit_nat_eq_self)
  with assms show ?thesis unfolding Put_Buf_def by (intro int_atomic_run) simp_all
qed

lemma con_ok_ints [simp]: "con_ok (s\<lparr>con_ints := b\<rparr>) = con_ok s" "cpos (s\<lparr>con_ints := b\<rparr>) = cpos s"
  "terminal_of (s\<lparr>con_ints := b\<rparr>) = terminal_of s" "hardware_cursor (s\<lparr>con_ints := b\<rparr>) = hardware_cursor s"
  by (simp_all add: con_ok_def base_ok_def in_screen_def cpos_def terminal_of_def hardware_cursor_def)

lemma Update_Cursor_same [simp]: "con_ok (Update_Cursor s) = con_ok s" "cpos (Update_Cursor s) = cpos s"
  "terminal_of (Update_Cursor s) = terminal_of s"
  by (simp_all add: con_ok_def base_ok_def in_screen_def cpos_def terminal_of_def)

text \<open>
  Writing a character never takes the console out of its invariant: the cursor
  and the saved cursor stay on the screen, no byte outside the display memory is changed, the
  interrupt flag and the address register of the CRT controller are restored, and the hardware
  cursor stands where the console's cursor does.  The one character that does not succeed is the
  \<open>m\<close> that ends a sequence of more than eight arguments: \<open>Update_Attributes\<close> then reads past the
  end of \<open>argList\<close>.
\<close>

theorem Put_Char_keeps_console:
  assumes "con_ok s" and "numArgs s < 2147483647"
  shows "(Put_Char c s = None \<longleftrightarrow> con_state s = S_ARG \<and> c = 109 \<and> 8 < numArgs s)
    \<and> (\<forall>s'. Put_Char c s = Some s' \<longrightarrow> con_ok s' \<and> outside_same (vmem s) (vmem s')
         \<and> con_ints s' = con_ints s \<and> crt_addr s' = crt_addr s \<and> hardware_cursor s' = cpos s')"
proof -
  let ?s = "s\<lparr>con_ints := False\<rparr>"
  have "con_ok ?s" "numArgs ?s < 2147483647" using assms by simp_all
  note k = Put_Char_Imp_ok [OF this, of c]
  show ?thesis
  proof (cases "Put_Char_Imp c ?s")
    case None
    with k(1) show ?thesis by (simp add: Put_Char_def int_atomic_def)
  next
    case (Some t)
    with k have t: "con_stable ?s t" "con_ok t" and n: "\<not> (con_state s = S_ARG \<and> c = 109 \<and> 8 < numArgs s)"
      by simp_all
    then have "\<not> con_ints t" by (simp add: con_stable_def)
    with Some have "Put_Char c s = Some ((Update_Cursor t)\<lparr>con_ints := con_ints s\<rparr>)"
      unfolding Put_Char_def by (intro int_atomic_run) simp_all
    with n t Update_Cursor_hardware [of t] show ?thesis
      by (auto simp: con_stable_def base_ok_def)
  qed
qed

definition blank_console :: console where
  "blank_console = \<lparr>row = 0, col = 0, saveRow = 0, saveCol = 0, currentAttr = 7, con_state = S_NORMAL,
     argList = [0, 0, 0, 0, 0, 0, 0, 0], numArgs = 0, vmem = (\<lambda>_. 0), crt_addr = 0,
     crt_regs = (\<lambda>_. 0), con_ints = True\<rparr>"

lemma blank_console_ok: "con_ok blank_console"
  by (simp add: blank_console_def con_ok_def base_ok_def in_screen_def)

lemma Put_Char_keeps_console_witness:
  "Put_Char 65 blank_console \<noteq> None"
  using Put_Char_keeps_console [OF blank_console_ok, of 65] by (simp add: blank_console_def)

lemma finish_writes:
  assumes "writes (s\<lparr>con_ints := False\<rparr>) t"
  defines "s' \<equiv> (Update_Cursor t)\<lparr>con_ints := con_ints s\<rparr>"
  shows "writes (s\<lparr>crt_regs := crt_regs s'\<rparr>) s'" "hardware_cursor s' = cpos s'" "terminal_of s' = terminal_of t"
proof -
  note f = writes_frame [OF assms(1)]
  have u: "Update_Cursor t = t\<lparr>crt_regs := crt_regs (Update_Cursor t)\<rparr>"
    by (simp add: Update_Cursor_def Out_CRT_Addr_def Out_CRT_Data_def Let_def)
  have "t = s\<lparr>con_ints := False, row := row t, col := col t, vmem := vmem t\<rparr>"
    using assms(1) by (simp add: writes_def)
  then have "s' = s\<lparr>crt_regs := crt_regs s', row := row t, col := col t, vmem := vmem t\<rparr>"
    unfolding s'_def by (subst u) (cases s; cases t; simp)
  with f show "writes (s\<lparr>crt_regs := crt_regs s'\<rparr>) s'" by (simp add: writes_def in_screen_def s'_def)
  show "hardware_cursor s' = cpos s'" "terminal_of s' = terminal_of t"
    using f by (simp_all add: s'_def Update_Cursor_hardware)
qed

text \<open>
  Property C19.  A text without escape characters, of any length, is shown as the abstract
  terminal shows it: characters fill the lines from the cursor on in the current attribute,
  a new line clears the rest of its line, a tabulator writes blanks up to the next multiple of
  eight, and what passes the last line moves the whole screen up.  Nothing but the display, the
  cursor and the CRT registers changes.
\<close>

theorem Put_Buf_refines_terminal:
  assumes "con_ok s" and "con_state s = S_NORMAL" and "0x1B \<notin> set bs" and "length bs < 4294967296"
  shows "\<exists>s'. Put_Buf bs (word_of_nat (length bs)) s = Some s'
    \<and> terminal_of s' = fold (show_byte (currentAttr s)) bs (terminal_of s)
    \<and> writes (s\<lparr>crt_regs := crt_regs s'\<rparr>) s' \<and> hardware_cursor s' = cpos s'"
proof -
  let ?s = "s\<lparr>con_ints := False\<rparr>"
  from put_text [of ?s bs] assms obtain t where t: "put_buf_loop (length bs) bs ?s = Some t" "writes ?s t"
    "terminal_of t = fold (show_byte (currentAttr s)) bs (terminal_of s)" by auto
  have "Put_Buf bs (word_of_nat (length bs)) s = Some ((Update_Cursor t)\<lparr>con_ints := con_ints s\<rparr>)"
    using writes_frame [OF t(2)] by (intro Put_Buf_run [OF assms(4) t(1)]) simp
  with finish_writes [OF t(2)] t(3) show ?thesis by auto
qed

lemma Put_Buf_refines_terminal_witness:
  "\<exists>s'. Put_Buf [72, 105] 2 blank_console = Some s' \<and> terminal_of s' = ((text_of (\<lambda>_. 0))[0 := (72, 7), 1 := (105, 7)], 2)"
proof -
  have s: "con_state blank_console = S_NORMAL" "currentAttr blank_console = 7"
    "terminal_of blank_console = (text_of (\<lambda>_. 0), 0)"
    by (simp_all add: blank_console_def terminal_of_def cpos_def)
  from Put_Buf_refines_terminal [OF blank_console_ok s(1), of "[72, 105]"] show ?thesis
    by (auto simp: s show_byte_def glyph_def wrap_def)
qed

section \<open>Cursor addressing\<close>

lemma dec_value_step: "dec_value (ds @ [d]) acc = dec_value ds acc * 10 + (unat d - 48)"
  by (induction ds arbitrary: acc) auto

lemma dec_value_ge: "acc \<le> dec_value ds acc"
proof (induction ds arbitrary: acc)
  case (Cons d ds)
  from Cons [of "acc * 10 + (unat d - 48)"] show ?case by simp
qed simp

lemma digit_char: "is_digit d \<Longrightarrow> ISDIGIT (sint d) \<and> sint d - 48 = int (unat d - 48)"
proof -
  assume d: "is_digit d"
  have u: "uint d = int (unat d)" by simp
  have "ISDIGIT (if int n < 128 then int n else int n - 256)
      \<and> (if int n < 128 then int n else int n - 256) - 48 = int (n - 48)" if "48 \<le> n" "n \<le> 57" for n
    using that by (auto simp: ISDIGIT_def)
  from this [of "unat d"] d show ?thesis unfolding sint_u8 u is_digit_def by blast
qed

text \<open>Digits add to the argument that is being read.\<close>

lemma put_digits:
  assumes "con_state s = S_ARG" "0 < numArgs s" "numArgs s < 8" "length (argList s) = 8"
    and "\<forall>d \<in> set ds. is_digit d" "dec_value ds v < 2147483648"
    and "argList s ! nat (numArgs s - 1) = int v"
  shows "put_buf_loop (length ds) ds s
    = Some (s\<lparr>argList := (argList s)[nat (numArgs s - 1) := int (dec_value ds v)]\<rparr>)"
  using assms
proof (induction ds arbitrary: s v)
  case Nil
  then have "(argList s)[nat (numArgs s - 1) := int v] = argList s" by (metis list_update_id)
  then show ?case by simp
next
  case (Cons d ds)
  let ?i = "nat (numArgs s - 1)"
  let ?v = "v * 10 + (unat d - 48)"
  let ?t = "s\<lparr>argList := (argList s)[?i := int ?v]\<rparr>"
  from Cons.prems have d: "ISDIGIT (sint d)" "sint d - 48 = int (unat d - 48)"
    using digit_char [of d] by auto
  have "?v < 2147483648" using dec_value_ge [of ?v ds] Cons.prems(6) by simp
  then have w: "s32 (s32 (int v * 10) + (sint d - 48)) = int ?v"
    unfolding d(2) by (simp add: s32_id)
  have "Put_Char_Imp (sint d) s = Some ?t"
    using Cons.prems d w
    by (simp add: Put_Char_Imp_def put_in_arg_def Add_Digit_def Let_def arg_at_def set_arg_def MAXARGS_def)
  moreover have "put_buf_loop (length ds) ds ?t
      = Some (?t\<lparr>argList := (argList ?t)[?i := int (dec_value ds ?v)]\<rparr>)"
    using Cons.IH [of ?t ?v] Cons.prems by (simp add: nat_less_iff)
  ultimately show ?case by simp
qed

definition clamp :: "int \<Rightarrow> int \<Rightarrow> int" where
  "clamp hi x = max 0 (min (hi - 1) x)"

lemma put_position:
  assumes ok: "con_ok s" "con_state s = S_NORMAL"
    and r: "ds \<noteq> []" "\<forall>d \<in> set ds. is_digit d" "dec_value ds 0 < 2147483648"
    and c: "\<forall>d \<in> set es. is_digit d" "dec_value es 0 < 2147483648"
  defines "bs \<equiv> [0x1B, 0x5B] @ ds @ [0x3B] @ es @ [0x48]"
  shows "\<exists>a. put_buf_loop (length bs) bs s = Some (s\<lparr>row := clamp 25 (int (dec_value ds 0) - 1),
    col := clamp 80 (int (dec_value es 0) - 1), con_state := S_NORMAL, argList := a, numArgs := 0\<rparr>)
    \<and> length a = 8"
proof -
  from ok have l: "length (argList s) = 8" and n: "numArgs s = 0" by (simp_all add: con_ok_def base_ok_def)
  define a1 where "a1 = (argList s)[0 := 0]"
  define a2 where "a2 = a1[0 := int (dec_value ds 0)]"
  define a3 where "a3 = a2[1 := 0]"
  define a4 where "a4 = a3[1 := int (dec_value es 0)]"
  let ?s0 = "s\<lparr>con_state := S_ESC2, numArgs := 0\<rparr>"
  let ?s1 = "s\<lparr>con_state := S_ARG, argList := a1, numArgs := 1\<rparr>"
  let ?s2 = "s\<lparr>con_state := S_ARG, argList := a2, numArgs := 1\<rparr>"
  let ?s3 = "s\<lparr>con_state := S_ARG, argList := a3, numArgs := 2\<rparr>"
  let ?s4 = "s\<lparr>con_state := S_ARG, argList := a4, numArgs := 2\<rparr>"
  from l have la: "length a1 = 8" "length a2 = 8" "length a3 = 8" "length a4 = 8"
    "a1 ! 0 = 0" "a3 ! 1 = 0" "a4 ! 0 = int (dec_value ds 0)" "a4 ! 1 = int (dec_value es 0)"
    by (simp_all add: a1_def a2_def a3_def a4_def nth_list_update)
  have e: "sint (0x1B :: u8) = 27" "sint (0x5B :: u8) = 91" "sint (0x3B :: u8) = 59" "sint (0x48 :: u8) = 72"
    by simp_all
  have esc: "put_buf_loop (length [0x1B, 0x5B]) [0x1B, 0x5B] s = Some ?s0"
    using ok n by (cases s) (simp add: Put_Char_Imp_def e ESC_def Start_Escape_def)
  have ne: "argList s \<noteq> []" using l by auto
  obtain d ds' where d: "ds = d # ds'" using r(1) by (cases ds) auto
  have "ISDIGIT (sint d)" using digit_char [of d] r(2) d by auto
  moreover have "Start_Arg 0 ?s0 = Some ?s1"
    using l ne by (cases s) (simp add: Start_Arg_def Let_def set_arg_def MAXARGS_def s32_id a1_def)
  ultimately have "Put_Char_Imp (sint d) ?s0 = Put_Char_Imp (sint d) ?s1"
    by (simp add: Put_Char_Imp_def put_in_esc2_def)
  then have "put_buf_loop (length ds) ds ?s0 = put_buf_loop (length ds) ds ?s1" by (simp add: d)
  also have "\<dots> = Some ?s2"
    using put_digits [of ?s1 ds 0] r la by (simp add: a2_def)
  finally have digits1: "put_buf_loop (length ds) ds ?s0 = Some ?s2" .
  have semi: "put_buf_loop (length [0x3B]) [0x3B] ?s2 = Some ?s3"
    using la by (cases s) (simp add: Put_Char_Imp_def put_in_arg_def e ISDIGIT_def Start_Arg_def Let_def set_arg_def
        MAXARGS_def s32_id a3_def)
  have digits2: "put_buf_loop (length es) es ?s3 = Some ?s4"
    using put_digits [of ?s3 es 0] c la by (simp add: a4_def)
  have args: "Get_Arg 0 (?s4\<lparr>con_state := S_CMD\<rparr>) = Some (int (dec_value ds 0))"
    "Get_Arg 1 (?s4\<lparr>con_state := S_CMD\<rparr>) = Some (int (dec_value es 0))"
    using la by (simp_all add: Get_Arg_def arg_at_def)
  have "s32 (int (dec_value ds 0) - 1) = int (dec_value ds 0) - 1"
    "s32 (int (dec_value es 0) - 1) = int (dec_value es 0) - 1" using r(3) c(2) by (simp_all add: s32_id)
  with args have "Put_Char_Imp 72 ?s4
      = Some (Reset (Move_Cursor (int (dec_value ds 0) - 1) (int (dec_value es 0) - 1) (?s4\<lparr>con_state := S_CMD\<rparr>)))"
    by (simp add: Put_Char_Imp_def put_in_arg_def ISDIGIT_def put_in_cmd_def run_command_def)
  also have "Reset (Move_Cursor (int (dec_value ds 0) - 1) (int (dec_value es 0) - 1) (?s4\<lparr>con_state := S_CMD\<rparr>))
      = s\<lparr>row := clamp 25 (int (dec_value ds 0) - 1), col := clamp 80 (int (dec_value es 0) - 1),
          con_state := S_NORMAL, argList := a4, numArgs := 0\<rparr>"
    by (cases s) (simp add: Reset_def Move_Cursor_def Let_def clamp_def screen_consts max_def min_def)
  finally have last: "put_buf_loop (length [0x48]) [0x48] ?s4 = Some (s\<lparr>row := clamp 25 (int (dec_value ds 0) - 1),
      col := clamp 80 (int (dec_value es 0) - 1), con_state := S_NORMAL, argList := a4, numArgs := 0\<rparr>)"
    by (simp add: e)
  show ?thesis
    unfolding bs_def length_append put_buf_loop_append esc digits1 semi digits2 last bind.bind_lunit
    using la(4) by blast
qed

text \<open>
  The sequence \<open>ESC [ r ; c H\<close>, with two decimal numbers, moves the cursor to row
  \<open>r - 1\<close> and column \<open>c - 1\<close>, or to the nearest position on the screen, leaves the text and the
  attribute as they are, and ends in the normal state.
\<close>

theorem cursor_addressing:
  assumes "con_ok s" and "con_state s = S_NORMAL" and "ds \<noteq> []"
    and "\<forall>d \<in> set (ds @ es). is_digit d" and "dec_value ds 0 < 2147483648" and "dec_value es 0 < 2147483648"
    and "length ds + length es < 4294967000"
  shows "\<exists>s'. Put_Buf ([0x1B, 0x5B] @ ds @ [0x3B] @ es @ [0x48]) (word_of_nat (length ds + length es + 4)) s = Some s'
    \<and> row s' = max 0 (min 24 (int (dec_value ds 0) - 1)) \<and> col s' = max 0 (min 79 (int (dec_value es 0) - 1))
    \<and> vmem s' = vmem s \<and> currentAttr s' = currentAttr s \<and> con_state s' = S_NORMAL
    \<and> con_ok s' \<and> hardware_cursor s' = cpos s'"
proof -
  let ?bs = "[0x1B, 0x5B] @ ds @ [0x3B] @ es @ [0x48] :: u8 list"
  let ?s = "s\<lparr>con_ints := False\<rparr>"
  have "con_ok ?s" "con_state ?s = S_NORMAL" using assms by simp_all
  from put_position [OF this assms(3) _ assms(5) _ assms(6)] assms(4) obtain a t where
    t: "put_buf_loop (length ?bs) ?bs ?s = Some t" "length a = 8"
    "t = ?s\<lparr>row := clamp 25 (int (dec_value ds 0) - 1), col := clamp 80 (int (dec_value es 0) - 1),
        con_state := S_NORMAL, argList := a, numArgs := 0\<rparr>" by auto
  have ok: "con_ok t" using assms(1) t(2)
    by (simp add: t(3) con_ok_def base_ok_def in_screen_def clamp_def min_def)
  then have i: "in_screen t" by (simp add: con_ok_def base_ok_def)
  have len: "length ?bs = length ds + length es + 4" by simp
  have "Put_Buf ?bs (word_of_nat (length ?bs)) s = Some ((Update_Cursor t)\<lparr>con_ints := con_ints s\<rparr>)"
    by (rule Put_Buf_run [OF _ t(1)]) (use assms(7) in \<open>simp_all add: t(3)\<close>)
  moreover have "row t = max 0 (min 24 (int (dec_value ds 0) - 1))"
    "col t = max 0 (min 79 (int (dec_value es 0) - 1))" "vmem t = vmem s" "currentAttr t = currentAttr s"
    "con_state t = S_NORMAL" by (simp_all add: t(3) clamp_def)
  ultimately show ?thesis
    using ok i unfolding len by (simp add: Update_Cursor_hardware)
qed

lemma cursor_addressing_witness:
  "\<exists>s'. Put_Buf [0x1B, 0x5B, 50, 0x3B, 49, 48, 0x48] 7 blank_console = Some s' \<and> row s' = 1 \<and> col s' = 9"
proof -
  have "con_state blank_console = S_NORMAL" by (simp add: blank_console_def)
  from cursor_addressing [OF blank_console_ok this, of "[50]" "[49, 48]"] show ?thesis
    by (auto simp: is_digit_def)
qed

end
