(* ===== verification/Fmtout.thy ===== *)
theory Fmtout
  imports CString
begin

text \<open>
  Formatted output, \<open>src/common/fmtout.c\<close>, and \<open>snprintf\<close> of \<open>src/common/string.c\<close>.  An output
  sink is the pair of its functions on a state of its own; formatting threads that state.  The
  variable arguments are a list: a 32-bit word for an \<open>int\<close>, a \<open>long\<close> or a pointer, a list of
  bytes for a string, \<open>None\<close> being the null pointer.  An argument that is missing or of
  another kind is \<open>None\<close>, as is the assertion on the number of digits, which hangs.  The format
  and strings are lists of bytes without the zero at their end.
\<close>

section \<open>Output sinks\<close>

record 's output_sink =
  Emit :: "int \<Rightarrow> 's \<Rightarrow> 's option"
  Finish :: "'s \<Rightarrow> 's option"

datatype va_arg = VInt u32 | VStr "u8 list option" | VOut nat

section \<open>Integers\<close>

definition FL_ZERO :: u32 where "FL_ZERO = 0x01"
definition FL_MINUS :: u32 where "FL_MINUS = 0x02"
definition FL_PLUS :: u32 where "FL_PLUS = 0x04"
definition FL_TICK :: u32 where "FL_TICK = 0x08"
definition FL_SPACE :: u32 where "FL_SPACE = 0x10"
definition FL_HASH :: u32 where "FL_HASH = 0x20"
definition FL_SIGNED :: u32 where "FL_SIGNED = 0x40"
definition FL_UPPER :: u32 where "FL_UPPER = 0x80"

definition NDIGITS_MAX :: int where "NDIGITS_MAX = 43"

text \<open>The bytes of the two tables of digits.\<close>

definition lcdigits :: "u8 list" where
  "lcdigits = [48, 49, 50, 51, 52, 53, 54, 55, 56, 57, 97, 98, 99, 100, 101, 102]"

definition ucdigits :: "u8 list" where
  "ucdigits = [48, 49, 50, 51, 52, 53, 54, 55, 56, 57, 65, 66, 67, 68, 69, 70]"

definition flag_on :: "u32 \<Rightarrow> u32 \<Rightarrow> bool" where
  "flag_on flags f \<longleftrightarrow> flags AND f \<noteq> 0"

text \<open>The loop that counts the digits; it does not end for a base below two.\<close>

function count_digits :: "u32 \<Rightarrow> u32 \<Rightarrow> int \<Rightarrow> int option" where
  "count_digits base v n =
     (if v = 0 then Some n else if base < 2 then None else count_digits base (v div base) (n + 1))"
  by pat_completeness auto
termination
proof (relation "measure (\<lambda>(base, v, n). unat v)", goal_cases)
  case (2 base v n)
  then have "unat v div unat base < unat v"
    by (intro div_less_dividend) (auto simp: word_less_nat_alt unat_gt_0 unat_eq_zero not_less word_le_nat_alt)
  then show ?case by (simp add: unat_div)
qed simp

text \<open>The loops \<open>while (width > n) { EMIT(c); width--; }\<close>.\<close>

function pad_loop :: "'s output_sink \<Rightarrow> int \<Rightarrow> int \<Rightarrow> int \<Rightarrow> 's \<Rightarrow> (int \<times> 's) option" where
  "pad_loop q c width n s =
     (if width > n then do { s \<leftarrow> Emit q c s; pad_loop q c (width - 1) n s } else Some (width, s))"
  by pat_completeness auto
termination
  by (relation "measure (\<lambda>(q, c, width, n, s). nat (width - n))") auto

text \<open>
  The digits are stored into the buffer from right to left.  The buffer below \<open>qq\<close> is
  \<open>buf\<close>; a store in front of the buffer is \<open>None\<close>.
\<close>

function gen_digits :: "u8 list \<Rightarrow> u32 \<Rightarrow> int \<Rightarrow> int \<Rightarrow> int \<Rightarrow> u32 \<Rightarrow> u8 list \<Rightarrow> u8 list option" where
  "gen_digits digits base tickskip ndigits b4tick v buf =
     (if ndigits > 0 then
        (let (b4tick, ndigits, buf) =
               (if b4tick = 0 then (tickskip - 1, ndigits - 1, 95 # buf) else (b4tick - 1, ndigits, buf))
         in if ndigits > 0
            then gen_digits digits base tickskip (ndigits - 1) b4tick (v div base) (digits ! unat (v mod base) # buf)
            else None)
      else Some buf)"
  by pat_completeness auto
termination
  by (relation "measure (\<lambda>(digits, base, t, n, b, v, buf). nat n)") (auto split: if_splits)

fun emit_bytes :: "'s output_sink \<Rightarrow> u8 list \<Rightarrow> 's \<Rightarrow> 's option" where
  "emit_bytes q [] s = Some s"
| "emit_bytes q (c # cs) s = do { s \<leftarrow> Emit q (sint c) s; emit_bytes q cs s }"

definition format_int :: "'s output_sink \<Rightarrow> u32 \<Rightarrow> u32 \<Rightarrow> u32 \<Rightarrow> int \<Rightarrow> int \<Rightarrow> 's \<Rightarrow> 's option" where
  "format_int q v flags base width prec s = do {
     let digits = (if flag_on flags FL_UPPER then ucdigits else lcdigits);
     let minus = (flag_on flags FL_SIGNED \<and> sint v < 0);
     let v = (if minus then - v else v);
     ndigits \<leftarrow> count_digits base v 0;
     let prec = (if flag_on flags FL_HASH \<and> base = 8 \<and> prec < ndigits + 1 then ndigits + 1 else prec);
     let ndigits = (if ndigits < prec then prec else if v = 0 then 1 else ndigits);
     let tickskip = (if flag_on flags FL_TICK then (if base = 16 then 4 else 3) else ndigits);
     let ndigits = s32 (ndigits + (ndigits - 1) div tickskip);
     let nchars = (if minus \<or> flag_on flags (FL_PLUS OR FL_SPACE) then s32 (ndigits + 1) else ndigits);
     let nchars = (if flag_on flags FL_HASH \<and> base = 16 then s32 (nchars + 2) else nchars);
     (width, s) \<leftarrow> (if \<not> flag_on flags (FL_MINUS OR FL_ZERO) \<and> width > nchars
       then pad_loop q 32 width nchars s else Some (width, s));
     s \<leftarrow> (if minus then Emit q 45 s
       else if flag_on flags FL_PLUS then Emit q 43 s
       else if flag_on flags FL_SPACE then Emit q 32 s
       else Some s);
     s \<leftarrow> (if flag_on flags FL_HASH \<and> base = 16
       then do { s \<leftarrow> Emit q 48 s; Emit q (if flag_on flags FL_UPPER then 88 else 120) s }
       else Some s);
     (width, s) \<leftarrow> (if flags AND (FL_MINUS OR FL_ZERO) = FL_ZERO \<and> width > ndigits
       then pad_loop q 48 width nchars s else Some (width, s));
     kassert (ndigits \<le> NDIGITS_MAX);
     buf \<leftarrow> gen_digits digits base tickskip ndigits tickskip v [];
     s \<leftarrow> emit_bytes q buf s;
     (width, s) \<leftarrow> (if flag_on flags FL_MINUS then pad_loop q 32 width nchars s else Some (width, s));
     Some s
   }"

section \<open>Directives\<close>

datatype fmt_state = st_normal | st_flags | st_width | st_prec | st_modifiers

record fmt_spec =
  f_flags :: u32
  f_rank :: int
  f_width :: int
  f_prec :: int

definition fmt_init :: fmt_spec where
  "fmt_init = \<lparr>f_flags = 0, f_rank = 0, f_width = 0, f_prec = -1\<rparr>"

definition flag_of :: "u8 \<Rightarrow> u32 option" where
  "flag_of c = (if c = 45 then Some FL_MINUS else if c = 43 then Some FL_PLUS else if c = 39 then Some FL_TICK
     else if c = 32 then Some FL_SPACE else if c = 35 then Some FL_HASH else if c = 48 then Some FL_ZERO else None)"

text \<open>The length modifiers \<open>h\<close>, \<open>l\<close>, \<open>j\<close>, \<open>z\<close>, \<open>t\<close>, \<open>L\<close> and \<open>q\<close>.\<close>

definition modify_rank :: "u8 \<Rightarrow> int \<Rightarrow> int option" where
  "modify_rank c rank = (if c = 104 then Some (s32 (rank - 1)) else if c = 108 then Some (s32 (rank + 1))
     else if c = 106 \<or> c = 122 \<or> c = 116 then Some 1
     else if c = 76 \<or> c = 113 then Some (s32 (rank + 2)) else None)"

fun va_int :: "va_arg list \<Rightarrow> (u32 \<times> va_arg list) option" where
  "va_int (VInt v # args) = Some (v, args)"
| "va_int _ = None"

text \<open>The conversion of an argument of rank \<open>char\<close>, \<open>short\<close>, \<open>int\<close> or \<open>long\<close>.\<close>

definition signed_arg :: "int \<Rightarrow> u32 \<Rightarrow> u32" where
  "signed_arg rank v = (if rank = -2 then scast (ucast v :: u8) else if rank = -1 then scast (ucast v :: u16) else v)"

definition unsigned_arg :: "int \<Rightarrow> u32 \<Rightarrow> u32" where
  "unsigned_arg rank v = (if rank = -2 then ucast (ucast v :: u8) else if rank = -1 then ucast (ucast v :: u16) else v)"

text \<open>A precision below -1 makes the loop run past the end of the string.\<close>

definition format_string :: "'s output_sink \<Rightarrow> u8 list \<Rightarrow> fmt_spec \<Rightarrow> 's \<Rightarrow> 's option" where
  "format_string q str f s = do {
     let slen = (if f_prec f \<noteq> -1 \<and> int (length str) > f_prec f then f_prec f else int (length str));
     kassert (0 \<le> slen);
     (width, s) \<leftarrow> (if f_width f > slen \<and> \<not> flag_on (f_flags f) FL_MINUS
       then pad_loop q (if flag_on (f_flags f) FL_ZERO then 48 else 32) (f_width f) slen s
       else Some (f_width f, s));
     s \<leftarrow> emit_bytes q (take (nat slen) str) s;
     (width, s) \<leftarrow> (if width > slen \<and> flag_on (f_flags f) FL_MINUS then pad_loop q 32 width slen s
       else Some (width, s));
     Some s
   }"

definition null_text :: "u8 list" where
  "null_text = [40, 110, 117, 108, 108, 41]"

text \<open>
  The output modifier \<open>c\<close>, in the order of the source: \<open>P p d i o u X x c s n\<close>.  The character
  count that \<open>%n\<close> stores is 0, because the variable \<open>o\<close> is only ever increased by the result
  of \<open>format_int\<close>, which is 0; the places it is stored at are collected in the result.
\<close>

definition convert ::
  "'s output_sink \<Rightarrow> u8 \<Rightarrow> fmt_spec \<Rightarrow> va_arg list \<Rightarrow> 's \<Rightarrow> (va_arg list \<times> nat list \<times> 's) option" where
  "convert q c f args s =
     (let rank = (if f_rank f < -2 then -2 else if f_rank f > 1 then 1 else f_rank f);
          integer = (\<lambda>flags base prec cv. do {
            (v, args) \<leftarrow> va_int args;
            s \<leftarrow> format_int q (cv v) flags base (f_width f) prec s;
            Some (args, [], s) })
      in if c = 80 then integer (f_flags f OR FL_UPPER OR FL_HASH) 16 8 (\<lambda>v. v)
         else if c = 112 then integer (f_flags f OR FL_HASH) 16 8 (\<lambda>v. v)
         else if c = 100 \<or> c = 105 then integer (f_flags f OR FL_SIGNED) 10 (f_prec f) (signed_arg rank)
         else if c = 111 then integer (f_flags f) 8 (f_prec f) (unsigned_arg rank)
         else if c = 117 then integer (f_flags f) 10 (f_prec f) (unsigned_arg rank)
         else if c = 88 then integer (f_flags f OR FL_UPPER) 16 (f_prec f) (unsigned_arg rank)
         else if c = 120 then integer (f_flags f) 16 (f_prec f) (unsigned_arg rank)
         else if c = 99 then do {
           (v, args) \<leftarrow> va_int args;
           s \<leftarrow> format_string q [ucast v] f s;
           Some (args, [], s) }
         else if c = 115 then (case args of
             VStr str # args \<Rightarrow> do {
               s \<leftarrow> format_string q (case str of Some b \<Rightarrow> b | None \<Rightarrow> null_text) f s;
               Some (args, [], s) }
           | _ \<Rightarrow> None)
         else if c = 110 then (case args of VOut p # args \<Rightarrow> Some (args, [p], s) | _ \<Rightarrow> None)
         else do { s \<leftarrow> Emit q (sint c) s; Some (args, [], s) })"

definition is_dec :: "u8 \<Rightarrow> bool" where
  "is_dec c \<longleftrightarrow> sint c \<ge> 48 \<and> sint c \<le> 57"

fun state_rank :: "fmt_state \<Rightarrow> nat" where
  "state_rank st_flags = 3"
| "state_rank st_width = 2"
| "state_rank st_prec = 1"
| "state_rank _ = 0"

text \<open>A state that processes its character again goes on with the same list.\<close>

function format_loop ::
  "'s output_sink \<Rightarrow> fmt_state \<Rightarrow> fmt_spec \<Rightarrow> u8 list \<Rightarrow> va_arg list \<Rightarrow> 's \<Rightarrow> (nat list \<times> 's) option" where
  "format_loop q st f [] args s = Some ([], s)"
| "format_loop q st_normal f (c # p) args s =
     (if c = 37 then format_loop q st_flags fmt_init p args s
      else do { s \<leftarrow> Emit q (sint c) s; format_loop q st_normal f p args s })"
| "format_loop q st_flags f (c # p) args s =
     (case flag_of c of
        Some fl \<Rightarrow> format_loop q st_flags (f\<lparr>f_flags := f_flags f OR fl\<rparr>) p args s
      | None \<Rightarrow> format_loop q st_width f (c # p) args s)"
| "format_loop q st_width f (c # p) args s =
     (if is_dec c
      then format_loop q st_width (f\<lparr>f_width := s32 (s32 (f_width f * 10) + (sint c - 48))\<rparr>) p args s
      else if c = 42 then do {
        (v, args) \<leftarrow> va_int args;
        let f = (if sint v < 0 then f\<lparr>f_width := s32 (- sint v), f_flags := f_flags f OR FL_MINUS\<rparr>
          else f\<lparr>f_width := sint v\<rparr>);
        format_loop q st_width f p args s }
      else if c = 46 then format_loop q st_prec (f\<lparr>f_prec := 0\<rparr>) p args s
      else format_loop q st_modifiers f (c # p) args s)"
| "format_loop q st_prec f (c # p) args s =
     (if is_dec c
      then format_loop q st_prec (f\<lparr>f_prec := s32 (s32 (f_prec f * 10) + (sint c - 48))\<rparr>) p args s
      else if c = 42 then do {
        (v, args) \<leftarrow> va_int args;
        format_loop q st_prec (f\<lparr>f_prec := (if sint v < 0 then -1 else sint v)\<rparr>) p args s }
      else format_loop q st_modifiers f (c # p) args s)"
| "format_loop q st_modifiers f (c # p) args s =
     (case modify_rank c (f_rank f) of
        Some r \<Rightarrow> format_loop q st_modifiers (f\<lparr>f_rank := r\<rparr>) p args s
      | None \<Rightarrow> do {
          (args, ns, s) \<leftarrow> convert q c f args s;
          (ms, s) \<leftarrow> format_loop q st_normal f p args s;
          Some (ns @ ms, s) })"
  by pat_completeness auto
termination
  by (relation "measures [\<lambda>(q, st, f, p, args, s). length p, \<lambda>(q, st, f, p, args, s). state_rank st]") auto

text \<open>The result is the number \<open>o\<close>, the places of \<open>%n\<close>, and the state of the sink.\<close>

definition Format_Output ::
  "'s output_sink \<Rightarrow> u8 list \<Rightarrow> va_arg list \<Rightarrow> 's \<Rightarrow> (int \<times> nat list \<times> 's) option" where
  "Format_Output q format args s = do {
     (ns, s) \<leftarrow> format_loop q st_normal fmt_init format args s;
     s \<leftarrow> Finish q s;
     Some (0, ns, s)
   }"

declare count_digits.simps [simp del] pad_loop.simps [simp del] gen_digits.simps [simp del]

section \<open>Output to a string\<close>

text \<open>
  \<open>n\<close> counts the characters of the text; a text of \<open>2 ^ 32\<close> of them does not occur.  In
  \<open>String_Finish\<close> for a buffer of size 0, the byte in front of the buffer is overwritten.
\<close>

record string_sink =
  so_mem :: mem
  so_s :: nat
  so_n :: nat
  so_size :: nat

definition String_Emit :: "int \<Rightarrow> string_sink \<Rightarrow> string_sink option" where
  "String_Emit ch o1 =
     (let o1 = (if so_n o1 < so_size o1
        then o1\<lparr>so_mem := (so_mem o1)(so_s o1 := word_of_int ch), so_s := so_s o1 + 1\<rparr> else o1)
      in Some (o1\<lparr>so_n := so_n o1 + 1\<rparr>))"

definition String_Finish :: "string_sink \<Rightarrow> string_sink option" where
  "String_Finish o1 =
     (if so_n o1 < so_size o1 then Some (o1\<lparr>so_mem := (so_mem o1)(so_s o1 := 0)\<rparr>)
      else if so_s o1 = 0 then None
      else Some (o1\<lparr>so_mem := (so_mem o1)(so_s o1 - 1 := 0)\<rparr>))"

definition snprintf :: "nat \<Rightarrow> nat \<Rightarrow> u8 list \<Rightarrow> va_arg list \<Rightarrow> mem \<Rightarrow> (int \<times> mem) option" where
  "snprintf s sz fmt args m = do {
     (rc, _, o1) \<leftarrow> Format_Output \<lparr>Emit = String_Emit, Finish = String_Finish\<rparr> fmt args
       \<lparr>so_mem = m, so_s = s, so_n = 0, so_size = sz\<rparr>;
     Some (rc, so_mem o1)
   }"

section \<open>The text of a directive\<close>

text \<open>
  What is written does not depend on the sink: every function emits bytes that are computed
  from its other arguments alone.
\<close>

lemma emit_bytes_append: "emit_bytes q (xs @ ys) s = do { s \<leftarrow> emit_bytes q xs s; emit_bytes q ys s }"
  by (induction xs arbitrary: s) (auto split: Option.bind_split)

lemma emit_bytes_one: "Emit q (sint c) s = emit_bytes q [c] s"
  by (cases "Emit q (sint c) s") simp_all

lemma pad_loop_bytes:
  "pad_loop q (sint c) w n s = do { s \<leftarrow> emit_bytes q (replicate (nat (w - n)) c) s; Some (min w n, s) }"
proof (induction "nat (w - n)" arbitrary: w s)
  case 0
  then show ?case by (subst pad_loop.simps) simp
next
  case (Suc k)
  then have "k = nat (w - 1 - n)" "w > n" "nat (w - n) = Suc k" by simp_all
  then show ?case
    by (subst pad_loop.simps) (auto simp: Suc.hyps(1) [of "w - 1"] min_def split: Option.bind_split)
qed

definition int_sign :: "u32 \<Rightarrow> u32 \<Rightarrow> u8 list" where
  "int_sign v flags = (if flag_on flags FL_SIGNED \<and> sint v < 0 then [45] else if flag_on flags FL_PLUS then [43]
     else if flag_on flags FL_SPACE then [32] else [])"

definition int_prefix :: "u32 \<Rightarrow> u32 \<Rightarrow> u8 list" where
  "int_prefix flags base = (if flag_on flags FL_HASH \<and> base = 16
     then [48, if flag_on flags FL_UPPER then 88 else 120] else [])"

text \<open>The digits of \<open>v\<close> to a base, most significant first, and how many it has.\<close>

fun numeral_digits :: "nat \<Rightarrow> nat \<Rightarrow> nat \<Rightarrow> nat list" where
  "numeral_digits b 0 v = []"
| "numeral_digits b (Suc n) v = numeral_digits b n (v div b) @ [v mod b]"

function num_digits :: "nat \<Rightarrow> nat \<Rightarrow> nat" where
  "num_digits b v = (if v = 0 \<or> b < 2 then 0 else Suc (num_digits b (v div b)))"
  by pat_completeness auto
termination
  by (relation "measure snd") auto

declare num_digits.simps [simp del]

definition magnitude :: "u32 \<Rightarrow> u32 \<Rightarrow> nat" where
  "magnitude v flags = (if flag_on flags FL_SIGNED then nat \<bar>sint v\<bar> else unat v)"

text \<open>The number of digits that are written, with the leading zeros that the precision asks for.\<close>

definition int_digits :: "u32 \<Rightarrow> u32 \<Rightarrow> u32 \<Rightarrow> int \<Rightarrow> nat" where
  "int_digits v flags base prec =
     (let k = num_digits (unat base) (magnitude v flags);
          octal = (if flag_on flags FL_HASH \<and> base = 8 then k + 1 else 0)
      in max (max 1 k) (max octal (nat prec)))"

definition int_body :: "u32 \<Rightarrow> u32 \<Rightarrow> u32 \<Rightarrow> nat \<Rightarrow> u8 list" where
  "int_body v flags base n = map ((!) (if flag_on flags FL_UPPER then ucdigits else lcdigits))
     (numeral_digits (unat base) n (magnitude v flags))"

definition int_text :: "u32 \<Rightarrow> u32 \<Rightarrow> u32 \<Rightarrow> int \<Rightarrow> int \<Rightarrow> u8 list" where
  "int_text v flags base width prec =
     (let n = int_digits v flags base prec;
          pad = nat (width - int (n + length (int_sign v flags) + length (int_prefix flags base)))
      in (if \<not> flag_on flags (FL_MINUS OR FL_ZERO) then replicate pad 32 else [])
         @ int_sign v flags @ int_prefix flags base
         @ (if flags AND (FL_MINUS OR FL_ZERO) = FL_ZERO then replicate pad 48 else [])
         @ int_body v flags base n
         @ (if flag_on flags FL_MINUS then replicate pad 32 else []))"

lemma unat_magnitude:
  "unat (if flag_on flags FL_SIGNED \<and> sint v < 0 then - v else v) = magnitude v flags"
proof (cases "flag_on flags FL_SIGNED \<and> sint v < 0")
  case True
  have "- v = word_of_int (- sint v)" by simp
  then have "uint (- v) = (- sint v) mod 2 ^ 32"
    using uint_word_of_int [where ?'a = 32, of "- sint v"] by simp
  moreover have "- sint v \<le> 2147483648" using sint_greater_eq [of v] by simp
  ultimately have "uint (- v) = - sint v" using True by simp
  then have "unat (- v) = nat (- sint v)" by (simp only: flip: nat_uint_eq)
  with True show ?thesis by (simp add: magnitude_def)
next
  case False
  have "sint v = uint v" if "0 \<le> sint v"
  proof -
    have "uint v = sint v mod 4294967296"
      using uint_word_of_int [where ?'a = 32, of "sint v"] by simp
    with that sint_less [of v] show ?thesis by simp
  qed
  with False show ?thesis by (auto simp: magnitude_def)
qed

lemma count_digits_num:
  "2 \<le> base \<Longrightarrow> count_digits base v n = Some (n + int (num_digits (unat base) (unat v)))"
proof (induction base v n rule: count_digits.induct)
  case (1 base v n)
  have b: "2 \<le> unat base" using 1(2) by (simp add: word_le_nat_alt)
  show ?case
  proof (cases "v = 0")
    case False
    then have "unat v \<noteq> 0" by (simp add: unat_eq_zero)
    with 1 b False show ?thesis
      by (subst count_digits.simps, subst num_digits.simps) (simp add: unat_div not_less)
  qed (subst count_digits.simps, subst num_digits.simps, simp)
qed

lemma gen_digits_numeral:
  assumes "2 \<le> base" "int n \<le> b4"
  shows "gen_digits digits base t (int n) b4 v buf
    = Some (map ((!) digits) (numeral_digits (unat base) n (unat v)) @ buf)"
  using assms(2)
proof (induction n arbitrary: b4 v buf)
  case 0
  then show ?case by (subst gen_digits.simps) simp
next
  case (Suc n)
  then show ?case by (subst gen_digits.simps) (simp add: Suc.IH unat_div unat_mod)
qed
lemma format_flag_bits:
  "flag_on flags FL_ZERO = bit flags 0" "flag_on flags FL_MINUS = bit flags 1" "flag_on flags FL_PLUS = bit flags 2"
  "flag_on flags FL_TICK = bit flags 3" "flag_on flags FL_SPACE = bit flags 4" "flag_on flags FL_HASH = bit flags 5"
  "flag_on flags FL_SIGNED = bit flags 6" "flag_on flags FL_UPPER = bit flags 7"
  using and_exp_eq_0_iff_not_bit [of flags 0] and_exp_eq_0_iff_not_bit [of flags 1] and_exp_eq_0_iff_not_bit [of flags 2]
    and_exp_eq_0_iff_not_bit [of flags 3] and_exp_eq_0_iff_not_bit [of flags 4] and_exp_eq_0_iff_not_bit [of flags 5]
    and_exp_eq_0_iff_not_bit [of flags 6] and_exp_eq_0_iff_not_bit [of flags 7]
  by (simp_all add: flag_on_def FL_ZERO_def FL_MINUS_def FL_PLUS_def FL_TICK_def FL_SPACE_def FL_HASH_def
      FL_SIGNED_def FL_UPPER_def)

lemma flag_on_or: "flag_on flags (a OR b) \<longleftrightarrow> flag_on flags a \<or> flag_on flags b"
proof -
  have "flags AND (a OR b) = 0 \<longleftrightarrow> flags AND a = 0 \<and> flags AND b = 0"
    by (simp add: bit.conj_disj_distrib or_eq_0_iff)
  then show ?thesis by (simp add: flag_on_def)
qed

lemma zero_not_minus: "flags AND (FL_MINUS OR FL_ZERO) = FL_ZERO \<longleftrightarrow> flag_on flags FL_ZERO \<and> \<not> flag_on flags FL_MINUS"
proof
  assume a: "flags AND (FL_MINUS OR FL_ZERO) = FL_ZERO"
  have "bit (flags AND (FL_MINUS OR FL_ZERO)) 0" "\<not> bit (flags AND (FL_MINUS OR FL_ZERO)) 1"
    unfolding a by (simp_all add: FL_ZERO_def)
  then have "bit flags 0" "\<not> bit flags 1" by (simp_all add: bit_simps FL_ZERO_def FL_MINUS_def)
  then show "flag_on flags FL_ZERO \<and> \<not> flag_on flags FL_MINUS" by (simp add: format_flag_bits)
next
  assume "flag_on flags FL_ZERO \<and> \<not> flag_on flags FL_MINUS"
  then have "flags AND FL_MINUS = 0" "flags AND FL_ZERO = FL_ZERO"
    by (simp_all add: flag_on_def FL_ZERO_def and_one_eq odd_iff_mod_2_eq_one)
  then show "flags AND (FL_MINUS OR FL_ZERO) = FL_ZERO" by (simp add: bit.conj_disj_distrib)
qed

lemma num_digits_le: "v < 2 ^ n \<Longrightarrow> num_digits b v \<le> n"
proof (induction n arbitrary: v)
  case 0
  then show ?case by (subst num_digits.simps) simp
next
  case (Suc n)
  show ?case
  proof (cases "v = 0 \<or> b < 2")
    case False
    then have "v div b \<le> v div 2" by (intro div_le_mono2) auto
    then have "v div b < 2 ^ n" using Suc.prems by (simp add: less_mult_imp_div_less mult.commute)
    with Suc.IH False show ?thesis by (subst num_digits.simps) simp
  qed (subst num_digits.simps, simp)
qed

lemma num_digits_0: "2 \<le> b \<Longrightarrow> num_digits b v = 0 \<longleftrightarrow> v = 0"
  by (subst num_digits.simps) simp
lemma sint_byte_32: "sint (32 :: u8) = 32"
  by simp

lemma sint_byte_48: "sint (48 :: u8) = 48"
  by simp

lemma pad_if:
  "(if P then pad_loop q (sint c) w n s else Some (w, s))
    = do { s \<leftarrow> emit_bytes q (if P then replicate (nat (w - n)) c else []) s; Some (if P then min w n else w, s) }"
  by (simp add: pad_loop_bytes)

lemmas pad_blank = pad_if [where c = 32, unfolded sint_byte_32]
lemmas pad_zero = pad_if [where c = 48, unfolded sint_byte_48]

lemma bind_None: "Option.bind m (\<lambda>_. None) = None"
  by (cases m) simp_all

lemma sign_bytes:
  "(if flag_on flags FL_SIGNED \<and> sint v < 0 then Emit q 45 s
     else if flag_on flags FL_PLUS then Emit q 43 s else if flag_on flags FL_SPACE then Emit q 32 s else Some s)
    = emit_bytes q (int_sign v flags) s"
  using emit_bytes_one [of q 45 s] emit_bytes_one [of q 43 s] emit_bytes_one [of q 32 s]
  by (simp add: int_sign_def)

lemma prefix_bytes:
  "(if flag_on flags FL_HASH \<and> base = 16
     then do { s \<leftarrow> Emit q 48 s; Emit q (if flag_on flags FL_UPPER then 88 else 120) s } else Some s)
    = emit_bytes q (int_prefix flags base) s"
  using emit_bytes_one [of q 48 s] emit_bytes_one [of q 88] emit_bytes_one [of q 120]
  by (auto simp: int_prefix_def split: Option.bind_split)

lemma int_digits_code:
  fixes v flags base prec
  defines "v' \<equiv> (if flag_on flags FL_SIGNED \<and> sint v < 0 then - v else v)"
    and "k \<equiv> int (num_digits (unat base) (magnitude v flags))"
  defines "p \<equiv> (if flag_on flags FL_HASH \<and> base = 8 \<and> prec < k + 1 then k + 1 else prec)"
  assumes "2 \<le> base" "prec < 2147483648"
  shows "count_digits base v' 0 = Some k"
    and "(if k < p then p else if v' = 0 then 1 else k) = int (int_digits v flags base prec)"
    and "0 < int_digits v flags base prec" "int (int_digits v flags base prec) < 2147483648"
proof -
  have m: "unat v' = magnitude v flags" unfolding v'_def by (rule unat_magnitude)
  have b: "2 \<le> unat base" using assms(4) by (simp add: word_le_nat_alt)
  have "magnitude v flags < 2 ^ 32" using unat_less_2_32 [of v'] by (simp flip: m)
  then have k: "k \<le> 32" unfolding k_def by (simp add: num_digits_le)
  show "count_digits base v' 0 = Some k"
    using count_digits_num [OF assms(4), of v' 0] by (simp add: m k_def)
  have z: "v' = 0 \<longleftrightarrow> k = 0"
    using num_digits_0 [OF b, of "magnitude v flags"] by (simp add: k_def unat_eq_zero flip: m)
  show "(if k < p then p else if v' = 0 then 1 else k) = int (int_digits v flags base prec)"
    using z by (auto simp: int_digits_def Let_def p_def k_def max_def)
  show "0 < int_digits v flags base prec" by (simp add: int_digits_def Let_def)
  have p: "nat prec < 2147483648" using assms(5) by linarith
  show "int (int_digits v flags base prec) < 2147483648"
    using k p by (auto simp: int_digits_def Let_def k_def)
qed

lemma format_int_text:
  assumes "2 \<le> base" "\<not> flag_on flags FL_TICK" "prec < 2147483648"
  shows "format_int q v flags base width prec s
    = (if int_digits v flags base prec \<le> 43 then emit_bytes q (int_text v flags base width prec) s else None)"
proof -
  let ?v = "if flag_on flags FL_SIGNED \<and> sint v < 0 then - v else v"
  let ?k = "int (num_digits (unat base) (magnitude v flags))"
  let ?p = "if flag_on flags FL_HASH \<and> base = 8 \<and> prec < ?k + 1 then ?k + 1 else prec"
  define n where "n = int_digits v flags base prec"
  note d = int_digits_code [OF assms(1,3), where v = v and flags = flags, folded n_def]
  have s1: "s32 (int n + (int n - 1) div int n) = int n"
    using d(3,4) by (simp add: div_pos_pos_trivial s32_id)
  define sg where "sg = int_sign v flags"
  define pr where "pr = int_prefix flags base"
  have sg: "length sg = (if (flag_on flags FL_SIGNED \<and> sint v < 0) \<or> flag_on flags (FL_PLUS OR FL_SPACE) then 1 else 0)"
    by (simp add: sg_def int_sign_def flag_on_or)
  have pr: "length pr = (if flag_on flags FL_HASH \<and> base = 16 then 2 else 0)"
    by (simp add: pr_def int_prefix_def)
  define N where "N = (let n1 = (if (flag_on flags FL_SIGNED \<and> sint v < 0) \<or> flag_on flags (FL_PLUS OR FL_SPACE)
      then s32 (int n + 1) else int n) in if flag_on flags FL_HASH \<and> base = 16 then s32 (n1 + 2) else n1)"
  define digits where "digits = (if flag_on flags FL_UPPER then ucdigits else lcdigits)"
  have g: "gen_digits digits base (int n) (int n) (int n) ?v [] = Some (int_body v flags base n)"
    using gen_digits_numeral [OF assms(1), of n "int n" digits "int n" ?v "[]"]
    by (simp add: unat_magnitude int_body_def digits_def)
  have run: "format_int q v flags base width prec s = do {
     (w, s) \<leftarrow> (if \<not> flag_on flags (FL_MINUS OR FL_ZERO) \<and> width > N then pad_loop q 32 width N s else Some (width, s));
     s \<leftarrow> emit_bytes q sg s;
     s \<leftarrow> emit_bytes q pr s;
     (w, s) \<leftarrow> (if flags AND (FL_MINUS OR FL_ZERO) = FL_ZERO \<and> w > int n then pad_loop q 48 w N s else Some (w, s));
     kassert (int n \<le> NDIGITS_MAX);
     s \<leftarrow> emit_bytes q (int_body v flags base n) s;
     (w, s) \<leftarrow> (if flag_on flags FL_MINUS then pad_loop q 32 w N s else Some (w, s));
     Some s }"
    unfolding format_int_def Let_def d(1) bind.bind_lunit d(2) if_not_P [OF assms(2)] s1 sign_bytes prefix_bytes
      digits_def [symmetric] g N_def sg_def [symmetric] pr_def [symmetric]
    by (rule refl)
  show ?thesis
  proof (cases "n \<le> 43")
    case True
    then have N: "N = int (n + length sg + length pr)" unfolding N_def Let_def by (simp add: sg pr s32_id)
    show ?thesis
      unfolding run pad_blank pad_zero n_def [symmetric] int_text_def Let_def sg_def [symmetric] pr_def [symmetric] N [symmetric]
      using True N d(3)
      by (cases "flag_on flags FL_MINUS"; cases "flag_on flags FL_ZERO")
        (auto simp: flag_on_or zero_not_minus NDIGITS_MAX_def emit_bytes_append min_def split: Option.bind_split)
  next
    case False
    then show ?thesis unfolding run n_def [symmetric] by (simp add: NDIGITS_MAX_def bind_None case_prod_unfold)
  qed
qed
section \<open>Sinks\<close>

text \<open>The sink that collects the text.\<close>

definition text_sink :: "u8 list output_sink" where
  "text_sink = \<lparr>Emit = (\<lambda>c bs. Some (bs @ [word_of_int c])), Finish = Some\<rparr>"

lemma emit_text [simp]: "Emit text_sink c bs = Some (bs @ [word_of_int c])" "Finish text_sink bs = Some bs"
  by (simp_all add: text_sink_def)

lemma emit_bytes_text [simp]: "emit_bytes text_sink cs bs = Some (bs @ cs)"
  by (induction cs arbitrary: bs) simp_all

text \<open>The part of \<open>format_int\<close> after the counting.\<close>

definition int_tail ::
  "'s output_sink \<Rightarrow> u8 list \<Rightarrow> bool \<Rightarrow> u32 \<Rightarrow> u32 \<Rightarrow> u32 \<Rightarrow> int \<Rightarrow> int \<Rightarrow> int \<Rightarrow> int \<Rightarrow> 's \<Rightarrow> 's option" where
  "int_tail q digits neg v flags base tickskip width ndigits nchars s = do {
     (width, s) \<leftarrow> (if \<not> flag_on flags (FL_MINUS OR FL_ZERO) \<and> width > nchars
       then pad_loop q 32 width nchars s else Some (width, s));
     s \<leftarrow> (if neg then Emit q 45 s
       else if flag_on flags FL_PLUS then Emit q 43 s
       else if flag_on flags FL_SPACE then Emit q 32 s
       else Some s);
     s \<leftarrow> (if flag_on flags FL_HASH \<and> base = 16
       then do { s \<leftarrow> Emit q 48 s; Emit q (if flag_on flags FL_UPPER then 88 else 120) s }
       else Some s);
     (width, s) \<leftarrow> (if flags AND (FL_MINUS OR FL_ZERO) = FL_ZERO \<and> width > ndigits
       then pad_loop q 48 width nchars s else Some (width, s));
     kassert (ndigits \<le> NDIGITS_MAX);
     buf \<leftarrow> gen_digits digits base tickskip ndigits tickskip v [];
     s \<leftarrow> emit_bytes q buf s;
     (width, s) \<leftarrow> (if flag_on flags FL_MINUS then pad_loop q 32 width nchars s else Some (width, s));
     Some s
   }"

definition format_int_with ::
  "(u8 list \<Rightarrow> bool \<Rightarrow> u32 \<Rightarrow> u32 \<Rightarrow> u32 \<Rightarrow> int \<Rightarrow> int \<Rightarrow> int \<Rightarrow> int \<Rightarrow> 'a option)
   \<Rightarrow> u32 \<Rightarrow> u32 \<Rightarrow> u32 \<Rightarrow> int \<Rightarrow> int \<Rightarrow> 'a option" where
  "format_int_with F v flags base width prec = do {
     let digits = (if flag_on flags FL_UPPER then ucdigits else lcdigits);
     let minus = (flag_on flags FL_SIGNED \<and> sint v < 0);
     let v = (if minus then - v else v);
     ndigits \<leftarrow> count_digits base v 0;
     let prec = (if flag_on flags FL_HASH \<and> base = 8 \<and> prec < ndigits + 1 then ndigits + 1 else prec);
     let ndigits = (if ndigits < prec then prec else if v = 0 then 1 else ndigits);
     let tickskip = (if flag_on flags FL_TICK then (if base = 16 then 4 else 3) else ndigits);
     let ndigits = s32 (ndigits + (ndigits - 1) div tickskip);
     let nchars = (if minus \<or> flag_on flags (FL_PLUS OR FL_SPACE) then s32 (ndigits + 1) else ndigits);
     let nchars = (if flag_on flags FL_HASH \<and> base = 16 then s32 (nchars + 2) else nchars);
     F digits minus v flags base tickskip width ndigits nchars }"

lemma format_int_with:
  "format_int q v flags base width prec s
    = format_int_with (\<lambda>d m v f b t w n c. int_tail q d m v f b t w n c s) v flags base width prec"
  unfolding format_int_def format_int_with_def int_tail_def by (rule refl)

lemma int_tail_text:
  "int_tail q d m v f b t w n c s = do { bs \<leftarrow> int_tail text_sink d m v f b t w n c []; emit_bytes q bs s }"
proof -
  define sg :: "u8 list" where "sg = (if m then [45] else if flag_on f FL_PLUS then [43] else if flag_on f FL_SPACE then [32] else [])"
  have sg: "(if m then Emit q 45 s else if flag_on f FL_PLUS then Emit q 43 s
      else if flag_on f FL_SPACE then Emit q 32 s else Some s) = emit_bytes q sg s" for q :: "'b output_sink" and s
    using emit_bytes_one [of q 45 s] emit_bytes_one [of q 43 s] emit_bytes_one [of q 32 s]
    by (simp add: sg_def)
  have sg': "(if m then Emit q 45 s else if flag_on f FL_PLUS then Emit q 43 s
      else if flag_on f FL_SPACE then Emit q 32 s else Some s) = emit_bytes q sg s" for q :: "'a output_sink" and s
    using emit_bytes_one [of q 45 s] emit_bytes_one [of q 43 s] emit_bytes_one [of q 32 s]
    by (simp add: sg_def)
  show ?thesis
    unfolding int_tail_def pad_blank pad_zero sg sg' prefix_bytes
    by (cases "n \<le> NDIGITS_MAX"; cases "gen_digits d b t n t v []")
      (simp_all add: emit_bytes_append bind_None split: Option.bind_split)
qed

lemma format_int_emits:
  "format_int q v flags base width prec s
    = do { bs \<leftarrow> format_int text_sink v flags base width prec []; emit_bytes q bs s }"
  unfolding format_int_with format_int_with_def Let_def
  by (subst int_tail_text) (rule bind_assoc [symmetric])
lemma pad_choice:
  "(if P then pad_loop q (if z then 48 else 32) w n s else Some (w, s))
    = do { s \<leftarrow> emit_bytes q (if P then replicate (nat (w - n)) (if z then 48 else 32) else []) s;
        Some (if P then min w n else w, s) }"
  by (cases z) (simp_all only: if_True if_False pad_zero pad_blank)

lemma format_string_emits:
  "format_string q str f s = do { bs \<leftarrow> format_string text_sink str f []; emit_bytes q bs s }"
  unfolding format_string_def Let_def pad_choice pad_blank
  by (cases "0 \<le> (if f_prec f \<noteq> - 1 \<and> f_prec f < int (length str) then f_prec f else int (length str))")
    (simp_all add: emit_bytes_append bind_None split: Option.bind_split split del: if_split)

lemma integer_emits:
  "do { (v, args) \<leftarrow> va_int args; s \<leftarrow> format_int q (cv v) flags base w p s; Some (args, [], s) }
    = do { (args, ns, bs) \<leftarrow> do { (v, args) \<leftarrow> va_int args; bs \<leftarrow> format_int text_sink (cv v) flags base w p []; Some (args, [], bs) };
        s \<leftarrow> emit_bytes q bs s; Some (args, ns, s) }"
  by (subst format_int_emits) (simp add: case_prod_unfold)

lemma string_emits:
  "do { s \<leftarrow> format_string q str f s; Some (args, [], s) }
    = do { (args, ns, bs) \<leftarrow> do { bs \<leftarrow> format_string text_sink str f []; Some (args, [], bs) };
        s \<leftarrow> emit_bytes q bs s; Some (args, ns, s) }"
  by (subst format_string_emits) simp

lemma char_emits:
  "do { (v, args) \<leftarrow> va_int args; s \<leftarrow> format_string q [ucast v] f s; Some (args, [], s) }
    = do { (args, ns, bs) \<leftarrow> do { (v, args) \<leftarrow> va_int args; bs \<leftarrow> format_string text_sink [ucast v] f []; Some (args, [], bs) };
        s \<leftarrow> emit_bytes q bs s; Some (args, ns, s) }"
  by (subst format_string_emits) (simp add: case_prod_unfold)

lemma bind_if: "Option.bind (if P then a else b) f = (if P then Option.bind a f else Option.bind b f)"
  by simp

lemma convert_emits:
  "convert q c f args s
    = do { (args, ns, bs) \<leftarrow> convert text_sink c f args []; s \<leftarrow> emit_bytes q bs s; Some (args, ns, s) }"
proof -
  have o: "do { s \<leftarrow> Emit q (sint c) s; Some (args, [], s) }
      = do { (args, ns, bs) \<leftarrow> do { bs \<leftarrow> Emit text_sink (sint c) []; Some (args, [], bs) }; s \<leftarrow> emit_bytes q bs s; Some (args, ns, s) }"
    using emit_bytes_one [of q c s] by simp
  have str: "(case args of VStr str # args \<Rightarrow> do { s \<leftarrow> format_string q (case str of Some b \<Rightarrow> b | None \<Rightarrow> null_text) f s; Some (args, [], s) }
        | _ \<Rightarrow> None)
      = do { (args, ns, bs) \<leftarrow> (case args of
          VStr str # args \<Rightarrow> do { s \<leftarrow> format_string text_sink (case str of Some b \<Rightarrow> b | None \<Rightarrow> null_text) f []; Some (args, [], s) }
        | _ \<Rightarrow> None); s \<leftarrow> emit_bytes q bs s; Some (args, ns, s) }"
    by (subst format_string_emits) (auto split: list.split va_arg.split)
  have out: "(case args of VOut p # args \<Rightarrow> Some (args, [p], s) | _ \<Rightarrow> None)
      = do { (args, ns, bs) \<leftarrow> (case args of VOut p # args \<Rightarrow> Some (args, [p], []) | _ \<Rightarrow> None);
          s \<leftarrow> emit_bytes q bs s; Some (args, ns, s) }"
    by (auto split: list.split va_arg.split)
  show ?thesis
    unfolding convert_def Let_def bind_if
    by (intro if_cong refl integer_emits char_emits o str out)
qed

lemma format_loop_text:
  "format_loop text_sink st f p args bs
    = do { (ns, cs) \<leftarrow> format_loop text_sink st f p args []; Some (ns, bs @ cs) }"
proof (induction "4 * length p + state_rank st" arbitrary: st f p args bs rule: less_induct)
  case less
  show ?case
  proof (cases p)
    case (Cons c cs)
    have IH: "format_loop text_sink st' f' cs args' bs'
        = do { (ns, xs) \<leftarrow> format_loop text_sink st' f' cs args' []; Some (ns, bs' @ xs) }" for st' f' args' bs'
      by (rule less) (cases st'; simp add: Cons)
    have IH': "format_loop text_sink st' f' (c # cs) args' bs'
        = do { (ns, xs) \<leftarrow> format_loop text_sink st' f' (c # cs) args' []; Some (ns, bs' @ xs) }"
      if "state_rank st' < state_rank st" for st' f' args' bs'
      by (rule less) (simp add: Cons that)
    show ?thesis
    proof (cases st)
      case st_normal
      show ?thesis unfolding Cons st_normal format_loop.simps(2)
        using IH [of st_normal f args "bs @ [c]"] IH [of st_normal f args "[c]"] IH [of st_flags fmt_init args bs]
        by (simp add: case_prod_unfold)
    next
      case st_flags
      then show ?thesis unfolding Cons st_flags format_loop.simps(3)
        by (cases "flag_of c") (simp_all only: option.case IH [where bs' = bs], rule IH', simp add: st_flags)
    next
      case st_width
      show ?thesis unfolding Cons st_width format_loop.simps(4) Let_def bind_if
        by (intro if_cong refl; (rule IH | rule IH' | (simp only: IH [where bs' = bs] case_prod_unfold bind_assoc Let_def)); simp add: st_width)
    next
      case st_prec
      show ?thesis unfolding Cons st_prec format_loop.simps(5) bind_if
        by (intro if_cong refl; (rule IH | rule IH' | (simp only: IH [where bs' = bs] case_prod_unfold bind_assoc Let_def)); simp add: st_prec)
    next
      case st_modifiers
      show ?thesis
      proof (cases "modify_rank c (f_rank f)")
        case None
        show ?thesis unfolding Cons st_modifiers format_loop.simps(6) None option.case
          by (subst convert_emits, subst (1 2) IH) (simp add: case_prod_unfold)
      next
        case (Some r)
        show ?thesis unfolding Cons st_modifiers format_loop.simps(6) Some option.case by (rule IH)
      qed
    qed
  qed simp
qed
lemma format_loop_emits:
  "format_loop q st f p args s
    = do { (ns, bs) \<leftarrow> format_loop text_sink st f p args []; s \<leftarrow> emit_bytes q bs s; Some (ns, s) }"
proof (induction "4 * length p + state_rank st" arbitrary: st f p args s rule: less_induct)
  case less
  show ?case
  proof (cases p)
    case (Cons c cs)
    have IH: "format_loop q st' f' cs args' s'
        = do { (ns, bs) \<leftarrow> format_loop text_sink st' f' cs args' []; s \<leftarrow> emit_bytes q bs s'; Some (ns, s) }" for st' f' args' s'
      by (rule less) (cases st'; simp add: Cons)
    have IH': "format_loop q st' f' (c # cs) args' s'
        = do { (ns, bs) \<leftarrow> format_loop text_sink st' f' (c # cs) args' []; s \<leftarrow> emit_bytes q bs s'; Some (ns, s) }"
      if "state_rank st' < state_rank st" for st' f' args' s'
      by (rule less) (simp add: Cons that)
    show ?thesis
    proof (cases st)
      case st_normal
      show ?thesis unfolding Cons st_normal format_loop.simps(2)
        using format_loop_text [of st_normal f cs args "[c]"]
        by (cases "Emit q (sint c) s")
          (simp_all add: IH [where s' = s] IH [where st' = st_normal] bind_None case_prod_unfold)
    next
      case st_flags
      show ?thesis unfolding Cons st_flags format_loop.simps(3)
        by (cases "flag_of c") (simp_all only: option.case IH [where s' = s], rule IH', simp add: st_flags)
    next
      case st_width
      show ?thesis unfolding Cons st_width format_loop.simps(4) Let_def bind_if
        by (intro if_cong refl; (rule IH | rule IH' | (simp only: IH [where s' = s] case_prod_unfold bind_assoc Let_def)); simp add: st_width)
    next
      case st_prec
      show ?thesis unfolding Cons st_prec format_loop.simps(5) bind_if
        by (intro if_cong refl; (rule IH | rule IH' | (simp only: IH [where s' = s] case_prod_unfold bind_assoc Let_def)); simp add: st_prec)
    next
      case st_modifiers
      show ?thesis
      proof (cases "modify_rank c (f_rank f)")
        case None
        show ?thesis unfolding Cons st_modifiers format_loop.simps(6) None option.case
          by (subst convert_emits)
            (simp add: IH format_loop_text [where bs = "snd (snd x)" for x] emit_bytes_append case_prod_unfold
              split: Option.bind_split)
      next
        case (Some r)
        show ?thesis unfolding Cons st_modifiers format_loop.simps(6) Some option.case by (rule IH)
      qed
    qed
  qed simp
qed

text \<open>
  What \<open>Format_Output\<close> needs of a sink: \<open>add\<close> is the effect of a character on what can be
  seen of the state, for the characters that are \<open>good\<close>.
\<close>

locale sink_contract =
  fixes q :: "'s output_sink" and inv :: "'s \<Rightarrow> bool" and good :: "u8 \<Rightarrow> bool"
    and view :: "'s \<Rightarrow> 'v" and add :: "u8 \<Rightarrow> 'v \<Rightarrow> 'v"
  assumes emit_ok: "inv s \<Longrightarrow> good c \<Longrightarrow> \<exists>s'. Emit q (sint c) s = Some s' \<and> inv s' \<and> view s' = add c (view s)"
begin

lemma emit_bytes_ok:
  "inv s \<Longrightarrow> \<forall>c \<in> set bs. good c \<Longrightarrow> \<exists>s'. emit_bytes q bs s = Some s' \<and> inv s' \<and> view s' = fold add bs (view s)"
proof (induction bs arbitrary: s)
  case (Cons c bs)
  from emit_ok [OF Cons.prems(1), of c] Cons.prems(2) obtain s1 where
    s1: "Emit q (sint c) s = Some s1" "inv s1" "view s1 = add c (view s)" by auto
  from Cons.IH [OF s1(2)] Cons.prems(2) s1 show ?case by auto
qed auto

lemma Format_Output_ok:
  assumes "inv s" "Format_Output text_sink fmt args [] = Some (r, ns, bs)" "\<forall>c \<in> set bs. good c"
  shows "\<exists>s'. Format_Output q fmt args s = do { s' \<leftarrow> Finish q s'; Some (0, ns, s') } \<and> inv s'
    \<and> view s' = fold add bs (view s)"
proof -
  from assms(2) have t: "format_loop text_sink st_normal fmt_init fmt args [] = Some (ns, bs)"
    by (auto simp: Format_Output_def bind_eq_Some_conv)
  from emit_bytes_ok [OF assms(1,3)] obtain s' where
    s': "emit_bytes q bs s = Some s'" "inv s'" "view s' = fold add bs (view s)" by blast
  have "format_loop q st_normal fmt_init fmt args s = Some (ns, s')"
    by (subst format_loop_emits) (simp add: t s'(1))
  with s' show ?thesis by (auto simp: Format_Output_def)
qed

end

lemma Format_Output_None:
  "Format_Output text_sink fmt args [] = None \<Longrightarrow> Format_Output q fmt args s = None"
  unfolding Format_Output_def by (subst format_loop_emits) (auto simp: bind_eq_None_conv)
section \<open>What the text of an integer denotes\<close>

definition digit_value :: "u8 \<Rightarrow> nat" where
  "digit_value c = (if c \<ge> 97 then unat c - 87 else if c \<ge> 65 then unat c - 55 else unat c - 48)"

definition numeral_value :: "nat \<Rightarrow> u8 list \<Rightarrow> nat" where
  "numeral_value b cs = foldl (\<lambda>a c. a * b + digit_value c) 0 cs"

lemma digit_value_tables:
  "d < 16 \<Longrightarrow> digit_value ((if up then ucdigits else lcdigits) ! d) = d"
proof -
  assume "d < 16"
  then have "d \<in> {0, 1, 2, 3, 4, 5, 6, 7, 8, 9, 10, 11, 12, 13, 14, 15}"
    by (simp only: insert_iff empty_iff) arith
  then show ?thesis by (auto simp: digit_value_def ucdigits_def lcdigits_def)
qed

lemma numeral_value_digits:
  assumes "0 < b" "b \<le> 16"
  shows "numeral_value b (map ((!) (if up then ucdigits else lcdigits)) (numeral_digits b n v)) = v mod b ^ n"
proof (induction n arbitrary: v)
  case (Suc n)
  have "v mod b < 16" using assms mod_less_divisor [of b v] by linarith
  with Suc show ?case
    by (simp add: numeral_value_def digit_value_tables mod_mult2_eq mult.commute)
qed (simp add: numeral_value_def)

lemma numeral_value_zeros: "numeral_value b (replicate k 48 @ cs) = numeral_value b cs"
proof -
  have "foldl (\<lambda>a c. a * b + digit_value c) 0 (replicate k (48 :: u8)) = 0"
    by (induction k) (simp_all add: digit_value_def)
  then show ?thesis by (simp add: numeral_value_def)
qed

lemma num_digits_power: "2 \<le> b \<Longrightarrow> v < b ^ num_digits b v"
proof (induction b v rule: num_digits.induct)
  case (1 b v)
  show ?case
  proof (cases "v = 0")
    case False
    with 1 have "v div b < b ^ num_digits b (v div b)" by simp
    then have "v < b * b ^ num_digits b (v div b)"
      using 1(2) by (simp add: div_less_iff_less_mult mult.commute)
    with False 1(2) show ?thesis by (subst num_digits.simps) simp
  qed (use 1(2) in simp)
qed

lemma num_digits_ge: "2 \<le> b \<Longrightarrow> n < num_digits b v \<Longrightarrow> b ^ n \<le> v"
proof (induction n arbitrary: v)
  case 0
  then have "v \<noteq> 0" using num_digits_0 [of b v] by auto
  then show ?case by simp
next
  case (Suc n)
  from Suc.prems have v: "v \<noteq> 0" using num_digits_0 [of b v] by auto
  with Suc.prems have "n < num_digits b (v div b)" by (subst (asm) num_digits.simps) simp
  with Suc have "b ^ n \<le> v div b" by simp
  with Suc.prems(1) show ?case by (simp add: less_eq_div_iff_mult_less_eq mult.commute)
qed

lemma length_numeral_digits [simp]: "length (numeral_digits b n v) = n"
  by (induction n arbitrary: v) simp_all

lemma int_body_value:
  assumes "base \<in> {8, 10, 16}"
  shows "numeral_value (unat base) (int_body v flags base (int_digits v flags base prec)) = magnitude v flags"
    and "length (int_body v flags base n) = n"
proof -
  have b: "2 \<le> unat base" "unat base \<le> 16" using assms by auto
  let ?k = "num_digits (unat base) (magnitude v flags)"
  have "?k \<le> int_digits v flags base prec" by (simp add: int_digits_def Let_def)
  then have "unat base ^ ?k \<le> unat base ^ int_digits v flags base prec"
    using b by (intro power_increasing) simp_all
  then have "magnitude v flags < unat base ^ int_digits v flags base prec"
    using num_digits_power [OF b(1)] less_le_trans by blast
  with numeral_value_digits [of "unat base" "flag_on flags FL_UPPER"] b
  show "numeral_value (unat base) (int_body v flags base (int_digits v flags base prec)) = magnitude v flags"
    by (simp add: int_body_def)
  show "length (int_body v flags base n) = n" by (simp add: int_body_def)
qed



section \<open>Text in a buffer\<close>

definition string_out :: "string_sink output_sink" where
  "string_out = \<lparr>Emit = String_Emit, Finish = String_Finish\<rparr>"

definition string_inv :: "mem \<Rightarrow> nat \<Rightarrow> nat \<Rightarrow> string_sink \<Rightarrow> bool" where
  "string_inv m p sz o1 \<longleftrightarrow> so_size o1 = sz \<and> so_s o1 = p + min (so_n o1) sz
     \<and> (\<forall>x. x < p \<or> p + sz \<le> x \<longrightarrow> so_mem o1 x = m x)"

text \<open>The bytes stored so far and the length of the text so far.\<close>

definition string_view :: "nat \<Rightarrow> nat \<Rightarrow> string_sink \<Rightarrow> u8 list \<times> nat" where
  "string_view p sz o1 = (map (so_mem o1) [p..<p + min (so_n o1) sz], so_n o1)"

definition string_add :: "nat \<Rightarrow> u8 \<Rightarrow> u8 list \<times> nat \<Rightarrow> u8 list \<times> nat" where
  "string_add sz c = (\<lambda>(bs, n). (if n < sz then bs @ [c] else bs, n + 1))"

lemma map_upt_store: "x = b \<Longrightarrow> a \<le> b \<Longrightarrow> map (m(x := c)) [a..<Suc b] = map m [a..<b] @ [c]"
  by auto

interpretation buffer: sink_contract string_out "string_inv m p sz" "\<lambda>_. True" "string_view p sz" "string_add sz"
  for m p sz
proof unfold_locales
  fix o1 c
  assume i: "string_inv m p sz o1"
  show "\<exists>s'. Emit string_out (sint c) o1 = Some s' \<and> string_inv m p sz s'
      \<and> string_view p sz s' = string_add sz c (string_view p sz o1)"
  proof (cases "so_n o1 < sz")
    case True
    with i show ?thesis
      by (auto simp: string_out_def String_Emit_def string_inv_def string_view_def string_add_def min_def
          map_upt_store)
  next
    case False
    with i show ?thesis
      by (auto simp: string_out_def String_Emit_def string_inv_def string_view_def string_add_def min_def)
  qed
qed

lemma fold_string_add:
  "fold (string_add sz) bs (as, n) = (as @ take (sz - n) bs, n + length bs)"
proof (induction bs arbitrary: as n)
  case (Cons b bs)
  show ?case
  proof (cases "n < sz")
    case True
    then have "sz - n = Suc (sz - Suc n)" by simp
    with True Cons.IH show ?thesis by (simp add: string_add_def)
  next
    case False
    with Cons.IH show ?thesis by (simp add: string_add_def)
  qed
qed simp

lemma snprintf_text:
  assumes "0 < sz"
  shows "case Format_Output text_sink fmt args [] of
      None \<Rightarrow> snprintf p sz fmt args m = None
    | Some (_, _, bs) \<Rightarrow> \<exists>m'. snprintf p sz fmt args m = Some (0, m')
        \<and> map m' [p..<p + min (length bs) (sz - 1)] = take (sz - 1) bs \<and> m' (p + min (length bs) (sz - 1)) = 0
        \<and> (\<forall>x. x < p \<or> p + sz \<le> x \<longrightarrow> m' x = m x)"
proof (cases "Format_Output text_sink fmt args []")
  case None
  then show ?thesis
    by (simp add: snprintf_def string_out_def [symmetric] Format_Output_None)
next
  case (Some x)
  obtain r ns bs where x: "x = (r, ns, bs)" by (cases x)
  let ?o = "\<lparr>so_mem = m, so_s = p, so_n = 0, so_size = sz\<rparr>"
  have "string_inv m p sz ?o" "string_view p sz ?o = ([], 0)" by (simp_all add: string_inv_def string_view_def)
  with buffer.Format_Output_ok [OF this(1), of fmt args r ns bs] Some x
    fold_string_add [where n = 0 and sz = sz and bs = bs and as = "[]"]
  obtain o1 where o1: "Format_Output string_out fmt args ?o = do { s' \<leftarrow> Finish string_out o1; Some (0, ns, s') }"
    "string_inv m p sz o1" "string_view p sz o1 = (take sz bs, length bs)" by auto
  from o1(2,3) have i: "so_n o1 = length bs" "so_size o1 = sz" "so_s o1 = p + min (length bs) sz"
    "map (so_mem o1) [p..<p + min (length bs) sz] = take sz bs"
    "\<And>x. x < p \<or> p + sz \<le> x \<Longrightarrow> so_mem o1 x = m x" by (auto simp: string_inv_def string_view_def)
  let ?n = "min (length bs) (sz - 1)"
  have fin: "Finish string_out o1 = Some (o1\<lparr>so_mem := (so_mem o1)(p + ?n := 0)\<rparr>)"
    using i(1-3) assms by (auto simp: string_out_def String_Finish_def min_def)
  have "map ((so_mem o1)(p + ?n := 0)) [p..<p + ?n] = map (so_mem o1) [p..<p + ?n]" by simp
  also have "\<dots> = take ?n (map (so_mem o1) [p..<p + min (length bs) sz])"
    by (simp add: take_map)
  also have "\<dots> = take (sz - 1) bs" unfolding i(4) using assms by (auto simp: min_def)
  finally show ?thesis
    using Some x o1(1) fin i(5) assms by (auto simp: snprintf_def string_out_def [symmetric])
qed


text \<open>Decimal numbers: the text of \<open>%u\<close>, and of \<open>%d\<close> for a number that is not negative.\<close>

lemma numeral_digits_less: "0 < b \<Longrightarrow> d \<in> set (numeral_digits b n v) \<Longrightarrow> d < b"
  by (induction b n v rule: numeral_digits.induct) auto

lemma is_digit_table: "d < 10 \<Longrightarrow> is_digit (lcdigits ! d)"
proof -
  assume "d < 10"
  then have "d \<in> {0, 1, 2, 3, 4, 5, 6, 7, 8, 9}"
    by (simp only: insert_iff empty_iff) arith
  then show ?thesis by (auto simp: is_digit_def lcdigits_def)
qed

lemma dec_value_foldl:
  "\<forall>c \<in> set cs. is_digit c \<Longrightarrow> dec_value cs a = foldl (\<lambda>a c. a * 10 + digit_value c) a cs"
  by (induction cs arbitrary: a) (auto simp: digit_value_def is_digit_def word_le_nat_alt)

definition decimal :: "u32 \<Rightarrow> u8 list" where
  "decimal v = int_text v 0 10 0 (-1)"

lemma decimal_text:
  shows "decimal v = int_body v 0 10 (int_digits v 0 10 (-1))"
    and "0 \<le> sint v \<Longrightarrow> int_text v FL_SIGNED 10 0 (-1) = decimal v"
    and "\<forall>c \<in> set (decimal v). is_digit c" and "dec_value (decimal v) 0 = unat v" and "decimal v \<noteq> []"
    and "length (decimal v) \<le> 10" and "int_digits v 0 10 (-1) = length (decimal v)"
    and "0 \<le> sint v \<Longrightarrow> int_digits v FL_SIGNED 10 (-1) = length (decimal v)"
proof -
  have f: "\<not> flag_on 0 x" for x by (simp add: flag_on_def)
  show d: "decimal v = int_body v 0 10 (int_digits v 0 10 (-1))"
    by (simp add: decimal_def int_text_def Let_def f int_sign_def int_prefix_def FL_ZERO_def)
  have m: "magnitude v 0 = unat v" by (simp add: magnitude_def f)
  have fs: "\<not> flag_on FL_SIGNED FL_ZERO" "\<not> flag_on FL_SIGNED FL_MINUS" "\<not> flag_on FL_SIGNED FL_PLUS"
    "\<not> flag_on FL_SIGNED FL_SPACE" "\<not> flag_on FL_SIGNED FL_HASH" "\<not> flag_on FL_SIGNED FL_UPPER"
    "flag_on FL_SIGNED FL_SIGNED"
    by (simp_all add: flag_on_def FL_SIGNED_def FL_ZERO_def FL_MINUS_def FL_PLUS_def FL_SPACE_def FL_HASH_def FL_UPPER_def)
  have ms: "magnitude v FL_SIGNED = unat v" if "0 \<le> sint v"
    using unat_magnitude [of FL_SIGNED v] that by (simp add: not_less)
  have n: "int_digits v FL_SIGNED 10 (-1) = int_digits v 0 10 (-1)" if "0 \<le> sint v"
    using that by (simp add: int_digits_def Let_def f fs m ms)
  show "int_text v FL_SIGNED 10 0 (-1) = decimal v" if "0 \<le> sint v"
    using that by (simp add: d n int_text_def Let_def flag_on_or zero_not_minus fs int_sign_def int_prefix_def
        int_body_def f m ms)
  show "\<forall>c \<in> set (decimal v). is_digit c"
    using numeral_digits_less [of 10] by (auto simp: d int_body_def f intro: is_digit_table)
  then show "dec_value (decimal v) 0 = unat v"
    using int_body_value(1) [of 10 v 0 "-1"] by (simp add: dec_value_foldl d numeral_value_def m)
  show l: "int_digits v 0 10 (-1) = length (decimal v)" by (simp add: d int_body_def)
  show "int_digits v FL_SIGNED 10 (-1) = length (decimal v)" if "0 \<le> sint v"
    using l n that by simp
  show "decimal v \<noteq> []" using l by (auto simp: int_digits_def Let_def)
  have "num_digits 10 (unat v) \<le> 10"
  proof (rule ccontr)
    assume "\<not> num_digits 10 (unat v) \<le> 10"
    then have "(10 :: nat) ^ 10 \<le> unat v" by (intro num_digits_ge) simp_all
    then show False using unat_less_2_32 [of v] by simp
  qed
  then show "length (decimal v) \<le> 10" by (simp add: l [symmetric] int_digits_def Let_def f m)
qed

text \<open>
  \<open>atoi\<close> reads back what \<open>snprintf\<close> writes: for \<open>%u\<close> every number, for \<open>%d\<close> every
  number that is not negative, in any buffer of at least eleven bytes.
\<close>

theorem snprintf_atoi:
  assumes "11 \<le> sz" and "sgd \<longrightarrow> 0 \<le> sint v"
  shows "\<exists>m'. snprintf p sz [37, if sgd then 100 else 117] [VInt v] m = Some (0, m') \<and> atoi m' p = Some v"
proof -
  define c :: u8 where "c = (if sgd then 100 else 117)"
  define fl where "fl = (if sgd then FL_SIGNED else 0)"
  have b: "int_text v fl 10 0 (-1) = decimal v" "int_digits v fl 10 (-1) = length (decimal v)"
    using decimal_text(2,7,8) [of v] assms(2) by (auto simp: fl_def decimal_def)
  have "\<not> flag_on fl FL_TICK" by (simp add: fl_def flag_on_def FL_SIGNED_def FL_TICK_def)
  then have i: "format_int text_sink v fl 10 0 (-1) [] = Some (decimal v)"
    using decimal_text(6) [of v] by (simp add: format_int_text b)
  have cv: "convert text_sink c fmt_init [VInt v] [] = Some ([], [], decimal v)"
    using i by (auto simp: convert_def fmt_init_def c_def fl_def signed_arg_def unsigned_arg_def Let_def)
  have "Format_Output text_sink [37, c] [VInt v] [] = Some (0, [], decimal v)"
    using cv by (auto simp: Format_Output_def flag_of_def is_dec_def modify_rank_def c_def split: if_splits)
  then obtain m' where m': "snprintf p sz [37, c] [VInt v] m = Some (0, m')"
    "map m' [p..<p + min (length (decimal v)) (sz - 1)] = take (sz - 1) (decimal v)"
    "m' (p + min (length (decimal v)) (sz - 1)) = 0"
    using snprintf_text [where sz = sz and fmt = "[37, c]" and args = "[VInt v]" and p = p and m = m] assms(1) by auto
  have l: "length (decimal v) \<le> sz - 1" using decimal_text(6) [of v] assms(1) by simp
  have "cstr m' p (decimal v)"
  proof (rule cstrI)
    show "0 \<notin> set (decimal v)" using decimal_text(3) [of v] by (auto simp: is_digit_def)
    show "m' (p + i) = decimal v ! i" if "i < length (decimal v)" for i
      using arg_cong [OF m'(2), of "\<lambda>xs. xs ! i"] that l by (simp add: min_def)
    show "m' (p + length (decimal v)) = 0" using m'(3) l by (simp add: min_def)
  qed
  then have "atoi_loop m' p (word_of_nat 0) = Some (word_of_nat (dec_value (decimal v) 0))"
    using atoi_loop_cstr [of m' p "decimal v" "[]" 0] decimal_text(3) [of v] by simp
  then have "atoi m' p = Some v" by (simp add: atoi_def decimal_text(4))
  with m'(1) show ?thesis by (auto simp: c_def)
qed

lemma snprintf_atoi_witness:
  "\<exists>m'. snprintf 100 16 [37, 117] [VInt 4294967295] (\<lambda>_. 7) = Some (0, m') \<and> atoi m' 100 = Some 4294967295"
  using snprintf_atoi [where sz = 16 and sgd = False and v = 4294967295 and p = 100 and m = "\<lambda>_. 7"] by simp

end
