(* ===== verification/Format_Text.thy ===== *)
theory Format_Text
  imports Fmtout
begin

text \<open>
  The texts that the formats of the program produce: literal text and the conversions \<open>%d\<close>, \<open>%u\<close> and \<open>%s\<close>.
\<close>

definition signed_decimal :: "u32 \<Rightarrow> u8 list" where
  "signed_decimal v = int_text v FL_SIGNED 10 0 (-1)"

lemma signed_decimal_chars:
  shows "length (signed_decimal v) \<le> 11" "\<forall>c \<in> set (signed_decimal v). is_digit c \<or> c = 45"
    and "format_int text_sink v FL_SIGNED 10 0 (-1) [] = Some (signed_decimal v)"
    and "\<exists>d ds. (\<forall>c \<in> set (d # ds). is_digit c) \<and> (signed_decimal v = d # ds \<or> signed_decimal v = 45 # d # ds)"
proof -
  have fs: "\<not> flag_on FL_SIGNED FL_ZERO" "\<not> flag_on FL_SIGNED FL_MINUS" "\<not> flag_on FL_SIGNED FL_PLUS"
    "\<not> flag_on FL_SIGNED FL_SPACE" "\<not> flag_on FL_SIGNED FL_HASH" "\<not> flag_on FL_SIGNED FL_UPPER"
    "flag_on FL_SIGNED FL_SIGNED" "\<not> flag_on FL_SIGNED FL_TICK"
    by (simp_all add: flag_on_def FL_SIGNED_def FL_ZERO_def FL_MINUS_def FL_PLUS_def FL_SPACE_def FL_HASH_def FL_UPPER_def FL_TICK_def)
  define m where "m = magnitude v FL_SIGNED"
  have "m < 2 ^ 32"
    unfolding m_def using unat_magnitude [of FL_SIGNED v] unat_less_2_32 [of "if flag_on FL_SIGNED FL_SIGNED \<and> sint v < 0 then - v else v"] by simp
  have k: "num_digits 10 m \<le> 10"
  proof (rule ccontr)
    assume "\<not> num_digits 10 m \<le> 10"
    then have "(10 :: nat) ^ 10 \<le> m" by (intro num_digits_ge) simp_all
    with \<open>m < 2 ^ 32\<close> show False by simp
  qed
  then have n: "int_digits v FL_SIGNED 10 (-1) \<le> 10" by (simp add: int_digits_def Let_def fs flip: m_def)
  have t: "signed_decimal v = int_sign v FL_SIGNED @ int_body v FL_SIGNED 10 (int_digits v FL_SIGNED 10 (-1))"
    by (simp add: signed_decimal_def int_text_def Let_def flag_on_or zero_not_minus fs int_prefix_def)
  show "length (signed_decimal v) \<le> 11" using n by (auto simp: t int_sign_def int_body_def)
  show "\<forall>c \<in> set (signed_decimal v). is_digit c \<or> c = 45"
    using numeral_digits_less [of 10] by (auto simp: t int_sign_def int_body_def fs intro: is_digit_table)
  show "format_int text_sink v FL_SIGNED 10 0 (-1) [] = Some (signed_decimal v)"
    using n fs by (simp add: format_int_text signed_decimal_def)
  define ds where "ds = int_body v FL_SIGNED 10 (int_digits v FL_SIGNED 10 (-1))"
  have "ds \<noteq> []" by (subst ds_def) (simp add: int_body_def int_digits_def Let_def num_digits.simps fs)
  then obtain e es where e: "ds = e # es" by (cases ds) simp_all
  have "\<forall>c \<in> set ds. is_digit c"
    using numeral_digits_less [of 10] by (auto simp: ds_def int_body_def fs intro: is_digit_table)
  then show "\<exists>d ds. (\<forall>c \<in> set (d # ds). is_digit c) \<and> (signed_decimal v = d # ds \<or> signed_decimal v = 45 # d # ds)"
    unfolding t ds_def [symmetric] e by (auto simp: int_sign_def fs)
qed

definition unsigned_decimal :: "u32 \<Rightarrow> u8 list" where
  "unsigned_decimal v = int_text v 0 10 0 (-1)"

lemma unsigned_decimal_chars:
  shows "\<forall>c \<in> set (unsigned_decimal v). is_digit c" and "format_int text_sink v 0 10 0 (-1) [] = Some (unsigned_decimal v)"
proof -
  have fs: "\<not> flag_on 0 x" for x by (simp add: flag_on_def)
  have "unat v < 2 ^ 32" using unat_less_2_32 [of v] by simp
  have "num_digits 10 (magnitude v 0) \<le> 10"
  proof (rule ccontr)
    assume "\<not> num_digits 10 (magnitude v 0) \<le> 10"
    then have "(10 :: nat) ^ 10 \<le> unat v" unfolding magnitude_def by (intro num_digits_ge) (simp_all add: fs)
    with \<open>unat v < 2 ^ 32\<close> show False by simp
  qed
  then have n: "int_digits v 0 10 (-1) \<le> 10" by (simp add: int_digits_def Let_def fs)
  have t: "unsigned_decimal v = int_body v 0 10 (int_digits v 0 10 (-1))"
    by (simp add: unsigned_decimal_def int_text_def Let_def flag_on_or zero_not_minus fs int_prefix_def int_sign_def)
  show "\<forall>c \<in> set (unsigned_decimal v). is_digit c"
    using numeral_digits_less [of 10] by (auto simp: t int_body_def fs intro: is_digit_table)
  show "format_int text_sink v 0 10 0 (-1) [] = Some (unsigned_decimal v)"
    using n fs by (simp add: format_int_text unsigned_decimal_def)
qed

abbreviation text_loop :: "u8 list \<Rightarrow> va_arg list \<Rightarrow> (nat list \<times> u8 list) option" where
  "text_loop fmt va \<equiv> format_loop text_sink st_normal fmt_init fmt va []"

lemma text_loop_Nil: "text_loop [] va = Some ([], [])"
  by simp

lemma text_loop_char: "c \<noteq> 37 \<Longrightarrow> text_loop (c # fmt) va = do { (ns, cs) \<leftarrow> text_loop fmt va; Some (ns, c # cs) }"
  by (simp, subst format_loop_text) simp

lemma text_loop_d: "text_loop (37 # 100 # fmt) (VInt v # va) = do { (ns, cs) \<leftarrow> text_loop fmt va; Some (ns, signed_decimal v @ cs) }"
proof -
  have "convert text_sink 100 fmt_init (VInt v # va) [] = Some (va, [], signed_decimal v)"
    using signed_decimal_chars(3) [of v] by (simp add: convert_def fmt_init_def signed_arg_def Let_def)
  then have "text_loop (37 # 100 # fmt) (VInt v # va)
      = do { (ms, s) \<leftarrow> format_loop text_sink st_normal fmt_init fmt va (signed_decimal v); Some ([] @ ms, s) }"
    by (simp add: flag_of_def is_dec_def modify_rank_def)
  then show ?thesis by (subst (asm) format_loop_text) (simp add: case_prod_unfold)
qed

lemma text_loop_u: "text_loop (37 # 117 # fmt) (VInt v # va) = do { (ns, cs) \<leftarrow> text_loop fmt va; Some (ns, unsigned_decimal v @ cs) }"
proof -
  have "convert text_sink 117 fmt_init (VInt v # va) [] = Some (va, [], unsigned_decimal v)"
    using unsigned_decimal_chars(2) [of v] by (simp add: convert_def fmt_init_def unsigned_arg_def Let_def)
  then have "text_loop (37 # 117 # fmt) (VInt v # va)
      = do { (ms, s) \<leftarrow> format_loop text_sink st_normal fmt_init fmt va (unsigned_decimal v); Some ([] @ ms, s) }"
    by (simp add: flag_of_def is_dec_def modify_rank_def)
  then show ?thesis by (subst (asm) format_loop_text) (simp add: case_prod_unfold)
qed

lemma text_loop_s:
  assumes "length t < 2 ^ 31"
  shows "text_loop (37 # 115 # fmt) (VStr (Some t) # va) = do { (ns, cs) \<leftarrow> text_loop fmt va; Some (ns, t @ cs) }"
proof -
  have "format_string text_sink t fmt_init [] = Some t"
    using assms by (simp add: format_string_def fmt_init_def flag_on_def Let_def)
  then have "convert text_sink 115 fmt_init (VStr (Some t) # va) [] = Some (va, [], t)"
    by (simp add: convert_def Let_def)
  then have "text_loop (37 # 115 # fmt) (VStr (Some t) # va)
      = do { (ms, s) \<leftarrow> format_loop text_sink st_normal fmt_init fmt va t; Some ([] @ ms, s) }"
    by (simp add: flag_of_def is_dec_def modify_rank_def)
  then show ?thesis by (subst (asm) format_loop_text) (simp add: case_prod_unfold)
qed

lemmas text_loop_simps = text_loop_Nil text_loop_char text_loop_d text_loop_u text_loop_s

lemma text_loop_literal: "37 \<notin> set t \<Longrightarrow> text_loop t va = Some ([], t)"
  by (induction t) (simp_all add: text_loop_simps del: format_loop.simps(2))

lemma text_loop_literal_append:
  "37 \<notin> set t \<Longrightarrow> text_loop (t @ fmt) va = do { (ns, cs) \<leftarrow> text_loop fmt va; Some (ns, t @ cs) }"
  by (induction t) (simp_all add: text_loop_simps case_prod_unfold del: format_loop.simps(2))

end
