(* ===== verification/Console.thy ===== *)
theory Console
  imports Screen Format_Text
begin

text \<open>
  \<open>Print\<close> of \<open>src/geekos/screen.c\<close>: formatted output with the console as its sink.
\<close>

definition Print_Emit :: "int \<Rightarrow> console \<Rightarrow> console option" where
  "Print_Emit ch s = Put_Char_Imp ch s"

definition Print_Finish :: "console \<Rightarrow> console option" where
  "Print_Finish s = Some (Update_Cursor s)"

definition s_outputSink :: "console output_sink" where
  "s_outputSink = \<lparr>Emit = Print_Emit, Finish = Print_Finish\<rparr>"

definition Print :: "u8 list \<Rightarrow> va_arg list \<Rightarrow> console \<Rightarrow> console option" where
  "Print fmt args = int_atomic (\<lambda>s. do { (_, _, s) \<leftarrow> Format_Output s_outputSink fmt args s; Some s })"

text \<open>The console is a sink for characters other than ESC.\<close>

definition normal_from :: "console \<Rightarrow> console \<Rightarrow> bool" where
  "normal_from s0 s \<longleftrightarrow> con_ok s0 \<and> con_state s0 = S_NORMAL \<and> writes s0 s"

interpretation screen: sink_contract s_outputSink "normal_from s0" "\<lambda>c. c \<noteq> 0x1B" terminal_of "show_byte (currentAttr s0)"
  for s0
proof unfold_locales
  fix s c
  assume i: "normal_from s0 s" and c: "c \<noteq> (0x1B :: u8)"
  then have "con_ok s" "con_state s = S_NORMAL" "currentAttr s = currentAttr s0"
    using con_ok_writes [of s0 s] writes_frame [of s0 s] by (auto simp: normal_from_def)
  with put_text [of s "[c]"] c obtain t where
    t: "Put_Char_Imp (sint c) s = Some t" "writes s t" "terminal_of t = show_byte (currentAttr s0) c (terminal_of s)"
    by (auto simp: bind_eq_Some_conv)
  with i writes_trans [of s0 s t]
  show "\<exists>s'. Emit s_outputSink (sint c) s = Some s' \<and> normal_from s0 s'
      \<and> terminal_of s' = show_byte (currentAttr s0) c (terminal_of s)"
    by (auto simp: s_outputSink_def Print_Emit_def normal_from_def)
qed

lemma Print_run:
  assumes "con_ok s" and "con_state s = S_NORMAL"
    and "Format_Output text_sink fmt args [] = Some (r, ns, bs)" and "0x1B \<notin> set bs"
  shows "\<exists>s'. Print fmt args s = Some s'
    \<and> terminal_of s' = fold (show_byte (currentAttr s)) bs (terminal_of s)
    \<and> writes (s\<lparr>crt_regs := crt_regs s'\<rparr>) s' \<and> hardware_cursor s' = cpos s'"
proof -
  let ?s = "s\<lparr>con_ints := False\<rparr>"
  have "normal_from ?s ?s" using assms(1,2) by (simp add: normal_from_def writes_refl con_ok_def base_ok_def in_screen_def)
  from screen.Format_Output_ok [OF this assms(3)] assms(4) obtain t where
    t: "Format_Output s_outputSink fmt args ?s = Some (0, ns, Update_Cursor t)" "normal_from ?s t"
    "terminal_of t = fold (show_byte (currentAttr s)) bs (terminal_of s)"
    by (auto simp: s_outputSink_def Print_Finish_def)
  from t(2) have w: "writes ?s t" by (simp add: normal_from_def)
  have "Print fmt args s = Some ((Update_Cursor t)\<lparr>con_ints := con_ints s\<rparr>)"
    unfolding Print_def using t(1) writes_frame [OF w] by (intro int_atomic_run) simp_all
  with finish_writes [OF w] t(3) show ?thesis by auto
qed

text \<open>
  \<open>Print\<close> on a console in its normal state shows the formatted text as an abstract
  terminal does, whatever the format and the arguments, if the text has no ESC; nothing but the
  display, the cursor and the CRT registers changes, and the hardware cursor follows.
\<close>

theorem Print_shows_text:
  assumes "con_ok s" and "con_state s = S_NORMAL"
    and "Format_Output text_sink fmt args [] = Some (r, ns, bs)" and "0x1B \<notin> set bs"
  shows "\<exists>s'. Print fmt args s = Some s'
    \<and> terminal_of s' = fold (show_byte (currentAttr s)) bs (terminal_of s)
    \<and> writes (s\<lparr>crt_regs := crt_regs s'\<rparr>) s' \<and> hardware_cursor s' = cpos s'"
  using assms by (rule Print_run)

lemma Print_shows_text_witness:
  "\<exists>s'. Print [37, 100] [VInt 7] blank_console = Some s'
    \<and> terminal_of s' = show_byte 7 55 (terminal_of blank_console)"
proof -
  have f: "\<not> flag_on FL_SIGNED FL_TICK" by (simp add: flag_on_def FL_SIGNED_def FL_TICK_def)
  have k: "num_digits 10 7 = 1" by (simp add: num_digits.simps)
  have d: "decimal 7 = [55]"
    by (simp add: decimal_text(1) int_digits_def int_body_def magnitude_def flag_on_def k lcdigits_def)
  have s: "0 \<le> sint (7 :: u32)" by simp
  have "format_int text_sink 7 FL_SIGNED 10 0 (-1) [] = Some [55]"
    using decimal_text(2,8) [OF s] f by (simp add: format_int_text d)
  then have "convert text_sink 100 fmt_init [VInt 7] [] = Some ([], [], [55])"
    by (simp add: convert_def fmt_init_def signed_arg_def Let_def)
  then have "Format_Output text_sink [37, 100] [VInt 7] [] = Some (0, [], [55])"
    by (simp add: Format_Output_def flag_of_def is_dec_def modify_rank_def)
  from Print_shows_text [OF blank_console_ok _ this] show ?thesis by (auto simp: blank_console_def)
qed

section \<open>Escape sequences in printed text\<close>

text \<open>
  The console interprets escape sequences, and it reads beyond its array of arguments when a
  sequence with more than eight arguments sets attributes.  \<open>esc_step\<close> follows the place in a sequence; \<open>None\<close> is this case.
\<close>

datatype esc = Plain | Esc | Bracket | Args nat

definition esc_step :: "u8 \<Rightarrow> esc \<Rightarrow> esc option" where
  "esc_step c e = (case e of
       Plain \<Rightarrow> Some (if c = 0x1B then Esc else Plain)
     | Esc \<Rightarrow> Some (if c = 91 then Bracket else Plain)
     | Bracket \<Rightarrow> Some (if is_digit c then Args 1 else if c = 59 then Args 2 else Plain)
     | Args n \<Rightarrow> (if is_digit c then Some (Args n)
         else if c = 59 then (if n < 2147483645 then Some (Args (n + 1)) else None)
         else if c = 109 \<and> n > 8 then None else Some Plain))"

fun esc_text :: "u8 list \<Rightarrow> esc \<Rightarrow> esc option" where
  "esc_text [] e = Some e"
| "esc_text (c # cs) e = do { e \<leftarrow> esc_step c e; esc_text cs e }"

lemma esc_text_append [simp]: "esc_text (xs @ ys) e = do { e \<leftarrow> esc_text xs e; esc_text ys e }"
  by (induction xs arbitrary: e) (auto split: Option.bind_split)

lemma esc_text_plain: "0x1B \<notin> set t \<Longrightarrow> esc_text t Plain = Some Plain"
  by (induction t) (auto simp: esc_step_def)

lemma esc_text_digits: "\<forall>c \<in> set t. is_digit c \<Longrightarrow> esc_text t (Args n) = Some (Args n)"
  by (induction t) (auto simp: esc_step_def)

text \<open>The place of the console in a sequence.\<close>

definition esc_of :: "console \<Rightarrow> esc" where
  "esc_of s = (case con_state s of S_NORMAL \<Rightarrow> Plain | S_ESC \<Rightarrow> Esc | S_ESC2 \<Rightarrow> Bracket | S_ARG \<Rightarrow> Args (nat (numArgs s)) | S_CMD \<Rightarrow> Plain)"

lemma sint_char: "sint (c :: u8) = 59 \<longleftrightarrow> c = 59" "sint c = 91 \<longleftrightarrow> c = 91" "sint c = 109 \<longleftrightarrow> c = 109"
  using signed_word_eqI [of c 59] signed_word_eqI [of c 91] signed_word_eqI [of c 109] by auto

lemma put_in_cmd_esc:
  assumes "base_ok s" "\<not> (c = 109 \<and> 8 < numArgs s)"
  shows "\<exists>s'. put_in_cmd c (s\<lparr>con_state := S_CMD\<rparr>) = Some s' \<and> con_ok s' \<and> con_stable s s' \<and> esc_of s' = Plain"
proof -
  have b: "base_ok (s\<lparr>con_state := S_CMD\<rparr>)" using assms(1) by (simp add: base_ok_def in_screen_def)
  with put_in_cmd_ok(1) [OF b, of c] assms(2) obtain s' where s': "put_in_cmd c (s\<lparr>con_state := S_CMD\<rparr>) = Some s'"
    by (cases "put_in_cmd c (s\<lparr>con_state := S_CMD\<rparr>)") auto
  then have "con_state s' = S_NORMAL" by (auto simp: put_in_cmd_def Reset_def bind_eq_Some_conv)
  with s' put_in_cmd_ok(2) [OF b s'] show ?thesis by (simp add: esc_of_def con_stable_def)
qed

lemma Start_Arg_esc:
  assumes "base_ok s" "numArgs s = n" "n < 2147483647"
  shows "\<exists>s'. Start_Arg n s = Some s' \<and> con_stable s s' \<and> con_ok s' \<and> con_state s' = S_ARG \<and> numArgs s' = n + 1 \<and> esc_of s' = Args (nat (n + 1))"
  using Start_Arg_ok [OF assms] by (auto simp: esc_of_def)

lemma Add_Digit_esc:
  assumes "base_ok s" "con_state s = S_ARG" "0 < numArgs s" "ISDIGIT c"
  shows "\<exists>s'. Add_Digit c s = Some s' \<and> con_stable s s' \<and> con_ok s' \<and> numArgs s' = numArgs s \<and> esc_of s' = Args (nat (numArgs s))"
  using Add_Digit_ok [OF assms] by (auto simp: esc_of_def)

lemma put_in_esc2_esc:
  assumes "con_ok s" "con_state s = S_ESC2" "esc_step c Bracket = Some e"
  shows "\<exists>s'. put_in_esc2 (sint c) s = Some s' \<and> con_ok s' \<and> con_stable s s' \<and> esc_of s' = e"
proof -
  have dg: "ISDIGIT (sint c) \<longleftrightarrow> is_digit c" by (simp add: ISDIGIT_def is_digit_sint)
  from assms(1,2) have b: "base_ok s" "numArgs s = 0" by (auto simp: con_ok_def split: if_splits)
  from Start_Arg_esc [OF b] obtain s1 where s1: "Start_Arg 0 s = Some s1" "con_stable s s1" "con_ok s1"
    "con_state s1 = S_ARG" "numArgs s1 = 1" by auto
  have add: "\<exists>s'. Add_Digit d s1 = Some s' \<and> con_stable s s' \<and> con_ok s' \<and> numArgs s' = 1 \<and> esc_of s' = Args 1" if "ISDIGIT d" for d
  proof -
    have "0 < numArgs s1" using s1(5) by simp
    from Add_Digit_esc [OF con_okD [OF s1(3)] s1(4) this that] obtain t where
      "Add_Digit d s1 = Some t" "con_stable s1 t" "con_ok t" "numArgs t = 1" "esc_of t = Args 1" using s1(5) by auto
    with con_stable_trans [OF s1(2), of t] show ?thesis by blast
  qed
  consider "is_digit c" | "\<not> is_digit c" "c = 59" | "\<not> is_digit c" "c \<noteq> 59" by blast
  then show ?thesis
  proof cases
    case 1
    with add [of "sint c"] assms(3) s1(1) show ?thesis by (auto simp: put_in_esc2_def put_in_arg_def dg esc_step_def)
  next
    case 2
    have "ISDIGIT 49" by (simp add: ISDIGIT_def)
    from add [OF this] obtain s2 where s2: "Add_Digit 49 s1 = Some s2" "con_stable s s2" "con_ok s2" "numArgs s2 = 1" by blast
    from Start_Arg_esc [OF con_okD [OF s2(3)] s2(4)] obtain s3 where
      s3: "Start_Arg 1 s2 = Some s3" "con_stable s2 s3" "con_ok s3" "esc_of s3 = Args 2" by auto
    have "con_stable s s3" using s2(2) s3(2) con_stable_trans by blast
    with 2 s1(1) s2(1) s3 assms(3) show ?thesis by (simp add: put_in_esc2_def ISDIGIT_def sint_char esc_step_def is_digit_sint)
  next
    case 3
    with put_in_cmd_esc [OF b(1), of "sint c"] b(2) assms(3) show ?thesis
      by (auto simp: put_in_esc2_def dg sint_char esc_step_def)
  qed
qed

lemma put_in_arg_esc:
  assumes "con_ok s" "con_state s = S_ARG" "esc_step c (Args (nat (numArgs s))) = Some e"
  shows "\<exists>s'. put_in_arg (sint c) s = Some s' \<and> con_ok s' \<and> con_stable s s' \<and> esc_of s' = e"
proof -
  have dg: "ISDIGIT (sint c) \<longleftrightarrow> is_digit c" by (simp add: ISDIGIT_def is_digit_sint)
  from assms(1,2) have b: "base_ok s" "0 < numArgs s" by (auto simp: con_ok_def split: if_splits)
  consider "is_digit c" | "\<not> is_digit c" "c = 59" | "\<not> is_digit c" "c \<noteq> 59" by blast
  then show ?thesis
  proof cases
    case 1
    with Add_Digit_esc [OF b(1) assms(2) b(2), of "sint c"] assms(3) show ?thesis
      by (auto simp: put_in_arg_def dg esc_step_def)
  next
    case 2
    then have n: "nat (numArgs s) < 2147483645" and e: "e = Args (nat (numArgs s) + 1)"
      using assms(3) by (auto simp: esc_step_def split: if_splits)
    have d: "\<not> ISDIGIT 59" by (simp add: ISDIGIT_def)
    from n have "numArgs s < 2147483647" by simp
    from Start_Arg_esc [OF b(1) refl this] 2 b(2) e d show ?thesis
      by (auto simp: put_in_arg_def sint_char nat_add_distrib)
  next
    case 3
    with assms(3) have "\<not> (sint c = 109 \<and> 8 < numArgs s)" "e = Plain"
      by (auto simp: esc_step_def sint_char split: if_splits)
    with 3 put_in_cmd_esc [OF b(1), of "sint c"] show ?thesis by (simp add: put_in_arg_def dg sint_char)
  qed
qed

lemma Put_Char_Imp_esc:
  assumes "con_ok s" "esc_step c (esc_of s) = Some e"
  shows "\<exists>s'. Put_Char_Imp (sint c) s = Some s' \<and> con_ok s' \<and> con_stable s s' \<and> esc_of s' = e"
proof (cases "con_state s")
  case S_NORMAL
  have b: "base_ok s" and i: "in_screen s" using assms(1) by (simp_all add: con_ok_def base_ok_def)
  note o = writes_stable [OF Output_Literal_Character_ok [OF i] b] writes_frame [OF Output_Literal_Character_ok [OF i]]
  from S_NORMAL assms o [of "sint c"] b show ?thesis
    by (auto simp: Put_Char_Imp_def sint_ESC esc_of_def esc_step_def Start_Escape_def con_ok_def con_stable_def base_ok_def in_screen_def)
next
  case S_ESC
  with assms show ?thesis
    by (auto simp: Put_Char_Imp_def sint_char esc_of_def esc_step_def Reset_def con_ok_def con_stable_def base_ok_def in_screen_def)
next
  case S_ESC2
  with assms put_in_esc2_esc [of s c e] show ?thesis by (simp add: Put_Char_Imp_def esc_of_def)
next
  case S_ARG
  with assms put_in_arg_esc [of s c e] show ?thesis by (simp add: Put_Char_Imp_def esc_of_def)
qed (use assms in \<open>simp add: con_ok_def\<close>)

lemma emit_esc:
  assumes "con_ok s" "esc_text bs (esc_of s) = Some e"
  shows "\<exists>s'. emit_bytes s_outputSink bs s = Some s' \<and> con_ok s' \<and> con_stable s s' \<and> esc_of s' = e"
  using assms
proof (induction bs arbitrary: s)
  case (Cons b bs)
  then obtain e1 where e1: "esc_step b (esc_of s) = Some e1" "esc_text bs e1 = Some e" by (auto simp: bind_eq_Some_conv)
  from Put_Char_Imp_esc [OF Cons.prems(1) this(1)] obtain s1 where
    s1: "Put_Char_Imp (sint b) s = Some s1" "con_ok s1" "con_stable s s1" "esc_of s1 = e1" by blast
  from Cons.IH [OF s1(2)] s1(4) e1(2) obtain s2 where
    s2: "emit_bytes s_outputSink bs s1 = Some s2" "con_ok s2" "con_stable s1 s2" "esc_of s2 = e" by blast
  from con_stable_trans [OF s1(3) s2(3)] s1(1) s2 show ?case by (simp add: s_outputSink_def Print_Emit_def)
qed (simp add: con_stable_refl con_okD)

lemma esc_of_fields:
  "esc_of (s\<lparr>con_ints := b\<rparr>) = esc_of s" "esc_of (Update_Cursor s) = esc_of s"
  "esc_of (s\<lparr>crt_addr := a\<rparr>) = esc_of s" "esc_of (s\<lparr>crt_regs := r\<rparr>) = esc_of s"
  by (cases "con_state s"; simp add: esc_of_def Update_Cursor_def Let_def Out_CRT_Addr_def Out_CRT_Data_def)+

lemma Print_esc:
  assumes "con_ok s" "Format_Output text_sink fmt va [] = Some (r, ns, bs)" "esc_text bs (esc_of s) = Some e"
  shows "\<exists>s'. Print fmt va s = Some s' \<and> con_ok s' \<and> con_stable s s' \<and> esc_of s' = e"
proof -
  let ?s = "s\<lparr>con_ints := False\<rparr>"
  have "con_ok ?s" "esc_text bs (esc_of ?s) = Some e" using assms(1,3) by (simp_all add: esc_of_fields)
  from emit_esc [OF this] obtain t where t: "emit_bytes s_outputSink bs ?s = Some t" "con_ok t" "con_stable ?s t" "esc_of t = e" by blast
  from assms(2) have f: "format_loop text_sink st_normal fmt_init fmt va [] = Some (ns, bs)"
    by (auto simp: Format_Output_def bind_eq_Some_conv)
  have "Format_Output s_outputSink fmt va ?s = Some (0, ns, Update_Cursor t)"
    unfolding Format_Output_def
    by (subst format_loop_emits) (simp add: f t(1), simp add: s_outputSink_def Print_Finish_def)
  then have "Print fmt va s = Some ((Update_Cursor t)\<lparr>con_ints := con_ints s\<rparr>)"
    unfolding Print_def using t(3) by (intro int_atomic_run) (simp_all add: con_stable_def)
  moreover have "con_ok ((Update_Cursor t)\<lparr>con_ints := con_ints s\<rparr>)" (is "con_ok ?t") using t(2) by simp
  moreover have "vmem ?t = vmem t" "crt_addr ?t = crt_addr t"
    by (simp_all add: Update_Cursor_def Let_def Out_CRT_Addr_def Out_CRT_Data_def)
  moreover have "esc_of ?t = e" by (simp only: esc_of_fields t(4))
  ultimately show ?thesis using t(3) con_okD [of ?t] by (simp add: con_stable_def)
qed

end
