(* ===== verification/Crc32.thy ===== *)
theory Crc32
  imports Prelude
begin

text \<open>
  The checksum of \<open>src/geekos/crc32.c\<close>: the table of 256 entries that \<open>Init_CRC32\<close> builds from
  the polynomial, and the loop that uses it, one byte at a time.  An access outside the table is
  \<open>None\<close>.  The reference is the division of the message, bit by bit, by the polynomial.
\<close>

section \<open>The code\<close>

definition POLYNOMIAL :: u32 where "POLYNOMIAL = 0xedb88320"

function fill_table :: "nat \<Rightarrow> u32 \<Rightarrow> nat \<Rightarrow> u32 list \<Rightarrow> u32 list option" where
  "fill_table i h j t =
     (if j < 256 \<and> 0 < i then
        (if i + j < length t then fill_table i h (j + 2 * i) (t[i + j := t ! j XOR h]) else None)
      else Some t)"
  by pat_completeness auto
termination
  by (relation "measure (\<lambda>(i, h, j, t). 256 - j)") auto

function table_loop :: "nat \<Rightarrow> u32 \<Rightarrow> u32 list \<Rightarrow> u32 list option" where
  "table_loop i h t =
     (if i \<noteq> 0 then do {
        let h = drop_bit 1 h XOR (if h AND 1 \<noteq> 0 then POLYNOMIAL else 0);
        t \<leftarrow> fill_table i h 0 t;
        table_loop (i div 2) h t
      } else Some t)"
  by pat_completeness auto
termination
  by (relation "measure (\<lambda>(i, h, t). i)") auto

definition Init_CRC32 :: "u32 list \<Rightarrow> u32 list option" where
  "Init_CRC32 t = table_loop 128 1 (t[0 := 0])"

fun crc_loop :: "u32 list \<Rightarrow> u32 \<Rightarrow> u8 list \<Rightarrow> u32" where
  "crc_loop t crc [] = crc"
| "crc_loop t crc (b # bs) =
     crc_loop t (drop_bit 8 crc XOR t ! unat ((crc XOR scast b) AND 0xff)) bs"

definition crc32 :: "u32 list \<Rightarrow> u32 \<Rightarrow> u8 list \<Rightarrow> u32 option" where
  "crc32 t crc buf = do {
     kassert (t ! 255 \<noteq> 0);
     let crc = crc XOR 0xffffffff;
     let crc = crc_loop t crc buf;
     Some (crc XOR 0xffffffff)
   }"

declare fill_table.simps [simp del] table_loop.simps [simp del]

section \<open>The reference\<close>

text \<open>One step of the division: the lowest bit is shifted out and the polynomial subtracted.\<close>

definition div_bit :: "u32 \<Rightarrow> u32" where
  "div_bit r = drop_bit 1 r XOR (if r AND 1 \<noteq> 0 then POLYNOMIAL else 0)"

definition div_byte :: "u32 \<Rightarrow> u8 \<Rightarrow> u32" where
  "div_byte r b = (div_bit ^^ 8) (r XOR ucast b)"

definition crc_remainder :: "u32 \<Rightarrow> u8 list \<Rightarrow> u32" where
  "crc_remainder crc bs = NOT (fold (\<lambda>b r. div_byte r b) bs (NOT crc))"

abbreviation "div8 \<equiv> div_bit ^^ 8"

text \<open>The division is linear, and shifts as long as the lowest bits are zero.\<close>

lemma and_1_bit: "x AND 1 \<noteq> 0 \<longleftrightarrow> bit x 0" for x :: u32
  by (simp add: and_one_eq bit_0 odd_iff_mod_2_eq_one)

lemma div_bit_xor: "div_bit (a XOR b) = div_bit a XOR div_bit b"
  unfolding div_bit_def and_1_bit by (rule bit_word_eqI) (auto simp: bit_simps)

lemma funpow_div_bit_xor: "(div_bit ^^ n) (a XOR b) = (div_bit ^^ n) a XOR (div_bit ^^ n) b"
  by (induction n) (simp_all add: div_bit_xor)

lemma div_bit_shift: "\<not> bit z 0 \<Longrightarrow> div_bit z = drop_bit 1 z"
  unfolding div_bit_def and_1_bit by simp

lemma funpow_div_bit_shift: "(\<forall>n < k. \<not> bit z n) \<Longrightarrow> (div_bit ^^ k) z = drop_bit k z"
proof (induction k arbitrary: z)
  case (Suc k)
  have "\<not> bit z 0" using Suc.prems by blast
  then have "div_bit z = drop_bit 1 z" by (rule div_bit_shift)
  moreover have "\<forall>n < k. \<not> bit (drop_bit 1 z) n" using Suc.prems by (auto simp: bit_simps)
  ultimately have "(div_bit ^^ k) (div_bit z) = drop_bit k (drop_bit 1 z)" using Suc.IH by simp
  then show ?case by (simp only: funpow_Suc_right comp_apply drop_bit_drop_bit) simp
qed simp

lemma div8_split: "div8 x = drop_bit 8 x XOR div8 (x AND 0xff)"
proof -
  have m: "(0xff :: u32) = mask 8" by (simp add: mask_eq_exp_minus_1)
  let ?h = "x AND NOT (mask 8)"
  have "x = ?h XOR (x AND 0xff)" unfolding m by (rule bit_word_eqI) (auto simp: bit_simps)
  then have "div8 x = div8 ?h XOR div8 (x AND 0xff)" by (metis funpow_div_bit_xor)
  moreover have "div8 ?h = drop_bit 8 ?h" by (rule funpow_div_bit_shift) (simp add: bit_simps)
  moreover have "drop_bit 8 ?h = drop_bit 8 x"
    by (rule bit_word_eqI) (auto simp: bit_simps dest: bit_imp_le_length)
  ultimately show ?thesis by simp
qed

section \<open>The table\<close>

definition table_ok :: "u32 list \<Rightarrow> bool" where
  "table_ok t \<longleftrightarrow> length t = 256 \<and> (\<forall>n < 256. t ! n = div8 (word_of_nat n))"

definition multiples_ok :: "nat \<Rightarrow> u32 list \<Rightarrow> bool" where
  "multiples_ok i t \<longleftrightarrow> length t = 256 \<and> (\<forall>n < 256. i dvd n \<longrightarrow> t ! n = div8 (word_of_nat n))"

lemma word_of_nat_disjoint:
  assumes "2 ^ Suc k dvd j"
  shows "(word_of_nat (2 ^ k + j) :: u32) = word_of_nat j XOR word_of_nat (2 ^ k)"
proof -
  from assms obtain c where "j = 2 ^ Suc k * c" by blast
  then have "j div 2 ^ k = 2 * c" by simp
  then have "\<not> bit j k" by (simp add: bit_iff_odd)
  then have "j AND 2 ^ k = 0" by (auto intro!: bit_eqI simp: bit_simps)
  then have "j + 2 ^ k = j XOR 2 ^ k" by (rule disjunctive_add_eq_xor)
  then show ?thesis by (metis add.commute of_nat_xor_eq)
qed

lemma fill_table_ok:
  assumes "length t = 256" "2 ^ Suc k dvd j" "k < 8" "h = div8 (word_of_nat (2 ^ k))"
    and "\<forall>n < 256. 2 ^ k dvd n \<longrightarrow> 2 ^ Suc k dvd n \<or> n < j \<longrightarrow> t ! n = div8 (word_of_nat n)"
  shows "\<exists>t'. fill_table (2 ^ k) h j t = Some t' \<and> multiples_ok (2 ^ k) t'"
  using assms
proof (induction "2 ^ k :: nat" h j t rule: fill_table.induct)
  case (1 h j t)
  show ?case
  proof (cases "j < 256")
    case False
    with "1.prems" show ?thesis by (subst fill_table.simps) (auto simp: multiples_ok_def)
  next
    case True
    let ?i = "2 ^ k :: nat"
    let ?t = "t[?i + j := t ! j XOR h]"
    have "2 ^ Suc k dvd (256 :: nat)"
    proof -
      have "(256 :: nat) = 2 ^ 8" by simp
      with \<open>k < 8\<close> show ?thesis by (metis Suc_leI le_imp_power_dvd)
    qed
    then obtain c d where c: "j = 2 * ?i * c" "256 = 2 * ?i * d" using "1.prems"(2) by (auto elim!: dvdE)
    with True have "c < d" by simp
    then have "2 * ?i * (c + 1) \<le> 2 * ?i * d" by (intro mult_le_mono) simp_all
    then have "2 * ?i * (c + 1) \<le> 256" unfolding c(2) .
    moreover have "2 * ?i * (c + 1) = j + 2 * ?i" unfolding c(1) by simp
    moreover have "0 < ?i" by simp
    ultimately have b: "?i + j < 256" by linarith
    have v: "t ! j = div8 (word_of_nat j)"
    proof -
      have "2 ^ k dvd j" using "1.prems"(2) by (rule power_le_dvd) simp
      with "1.prems" True show ?thesis by blast
    qed
    have e: "t ! j XOR h = div8 (word_of_nat (?i + j))"
      unfolding v "1.prems"(4) word_of_nat_disjoint [OF "1.prems"(2)] funpow_div_bit_xor ..
    have "\<exists>t'. fill_table ?i h (j + 2 * ?i) ?t = Some t' \<and> multiples_ok ?i t'"
    proof (rule "1.hyps")
      show "j < 256 \<and> 0 < ?i" "?i + j < length t" "length ?t = 256" "k < 8"
        "h = div8 (word_of_nat (2 ^ k))" using True b "1.prems" by simp_all
      show "2 ^ Suc k dvd j + 2 * ?i" using "1.prems"(2) by simp
      show "\<forall>n < 256. 2 ^ k dvd n \<longrightarrow> 2 ^ Suc k dvd n \<or> n < j + 2 * ?i \<longrightarrow> ?t ! n = div8 (word_of_nat n)"
      proof (intro allI impI)
        fix n :: nat
        assume n: "n < 256" "2 ^ k dvd n" "2 ^ Suc k dvd n \<or> n < j + 2 * ?i"
        show "?t ! n = div8 (word_of_nat n)"
        proof (cases "n = ?i + j")
          case True
          then show ?thesis using e b "1.prems"(1) by simp
        next
          case False
          have "2 ^ Suc k dvd n \<or> n < j"
          proof (rule ccontr)
            assume no: "\<not> (2 ^ Suc k dvd n \<or> n < j)"
            from n(2) obtain a where a: "n = ?i * a" by blast
            have "?i * (2 * c) \<le> ?i * a" "?i * a < ?i * (2 * c + 2)" "?i * a \<noteq> ?i * (2 * c + 1)"
              using no c(1) n(3) False unfolding a by (auto simp: algebra_simps)
            then have "2 * c \<le> a" "a < 2 * c + 2" "a \<noteq> 2 * c + 1"
              by (simp_all only: mult_less_cancel1 mult_le_cancel1 mult_cancel1) auto
            then have "n = 2 ^ Suc k * c" using a by simp
            with no show False by simp
          qed
          with n "1.prems"(5) have "t ! n = div8 (word_of_nat n)" by blast
          with False show ?thesis by simp
        qed
      qed
    qed
    with True b "1.prems"(1) show ?thesis by (subst fill_table.simps) simp
  qed
qed

lemma div8_power: "k \<le> 7 \<Longrightarrow> div8 (word_of_nat (2 ^ k)) = (div_bit ^^ (8 - k)) 1"
proof -
  assume "k \<le> 7"
  have "\<not> bit (2 ^ k :: u32) n" if "n < k" for n using that by (simp add: bit_simps)
  then have "(div_bit ^^ k) (2 ^ k) = drop_bit k (2 ^ k)" by (intro funpow_div_bit_shift) simp
  also have "\<dots> = 1" using \<open>k \<le> 7\<close> by (intro bit_word_eqI) (auto simp: bit_simps)
  finally have "(div_bit ^^ ((8 - k) + k)) (2 ^ k) = (div_bit ^^ (8 - k)) 1"
    by (simp only: funpow_add comp_apply)
  with \<open>k \<le> 7\<close> show ?thesis by simp
qed

lemma table_loop_step:
  "i \<noteq> 0 \<Longrightarrow> table_loop i h t = do { t \<leftarrow> fill_table i (div_bit h) 0 t; table_loop (i div 2) (div_bit h) t }"
  by (subst table_loop.simps) (simp add: div_bit_def Let_def)

lemma table_loop_ok:
  assumes "k \<le> 7" "multiples_ok (2 ^ Suc k) t" "h = (div_bit ^^ (7 - k)) 1"
  shows "\<exists>t'. table_loop (2 ^ k) h t = Some t' \<and> table_ok t'"
  using assms
proof (induction k arbitrary: h t)
  have step: "\<exists>t'. fill_table (2 ^ k) (div_bit h) 0 t = Some t' \<and> multiples_ok (2 ^ k) t'"
    if "k \<le> 7" "multiples_ok (2 ^ Suc k) t" "h = (div_bit ^^ (7 - k)) 1" for k h t
  proof (rule fill_table_ok)
    from that(1) have "Suc (7 - k) = 8 - k" by simp
    then have "div_bit h = (div_bit ^^ (8 - k)) 1" using that(3) by (metis funpow.simps(2) comp_apply)
    then show "div_bit h = div8 (word_of_nat (2 ^ k))" using div8_power [OF that(1)] by simp
  qed (use that in \<open>auto simp: multiples_ok_def\<close>)
  {
    case 0
    from step [OF this] obtain t' where t': "fill_table 1 (div_bit h) 0 t = Some t'" "multiples_ok 1 t'" by auto
    then have "table_ok t'" by (simp add: table_ok_def multiples_ok_def)
    moreover have "table_loop 0 g u = Some u" for g u by (subst table_loop.simps) simp
    ultimately have "table_loop 1 h t = Some t'" using t'(1)
      by (simp add: table_loop_step)
    with \<open>table_ok t'\<close> show ?case by auto
  next
    case (Suc k)
    from step [OF Suc.prems] obtain t' where
      t': "fill_table (2 ^ Suc k) (div_bit h) 0 t = Some t'" "multiples_ok (2 ^ Suc k) t'" by auto
    have "Suc (7 - Suc k) = 7 - k" using Suc.prems(1) by simp
    then have "div_bit h = (div_bit ^^ (7 - k)) 1" using Suc.prems(3) by (metis funpow.simps(2) comp_apply)
    with Suc.IH [OF _ t'(2)] Suc.prems(1) obtain u where "table_loop (2 ^ k) (div_bit h) t' = Some u" "table_ok u"
      by auto
    with t'(1) show ?case
      by (auto simp: table_loop_step)
  }
qed

lemma Init_CRC32_ok:
  assumes "length t = 256"
  shows "\<exists>t'. Init_CRC32 t = Some t' \<and> table_ok t'"
proof -
  have "div8 0 = 0"
  proof -
    have "div8 0 = drop_bit 8 0" by (rule funpow_div_bit_shift) simp
    then show ?thesis by simp
  qed
  moreover have "n = 0" if "n < 256" "256 dvd n" for n :: nat using that by auto
  ultimately have "multiples_ok (2 ^ Suc 7) (t[0 := 0])"
    using assms by (auto simp: multiples_ok_def)
  from table_loop_ok [OF _ this, of 1] show ?thesis by (simp add: Init_CRC32_def)
qed

section \<open>The checksum\<close>

lemma table_step:
  assumes "table_ok t"
  shows "drop_bit 8 r XOR t ! unat ((r XOR scast (b :: u8)) AND 0xff) = div_byte r b"
proof -
  let ?x = "r XOR ucast b"
  have m: "(0xff :: u32) = mask 8" by (simp add: mask_eq_exp_minus_1)
  have x: "(r XOR scast b) AND 0xff = ?x AND 0xff"
    unfolding m by (rule bit_word_eqI) (auto simp: bit_simps)
  have "unat (?x AND 0xff) = take_bit 8 (unat ?x)"
    unfolding m take_bit_eq_mask [symmetric] by (rule unsigned_take_bit_eq)
  then have "unat (?x AND 0xff) < 256" using take_bit_nat_less_exp [of 8 "unat ?x"] by simp
  then have "t ! unat (?x AND 0xff) = div8 (?x AND 0xff)"
    using assms by (simp add: table_ok_def)
  moreover have "drop_bit 8 r = drop_bit 8 ?x"
    by (rule bit_word_eqI) (auto simp: bit_simps dest: bit_imp_le_length)
  ultimately show ?thesis unfolding x div_byte_def by (metis div8_split)
qed

lemma crc_loop_fold: "table_ok t \<Longrightarrow> crc_loop t r bs = fold (\<lambda>b r. div_byte r b) bs r"
  by (induction bs arbitrary: r) (simp_all add: table_step)

lemma crc32_remainder:
  assumes "table_ok t"
  shows "crc32 t crc bs = Some (crc_remainder crc bs)"
proof -
  have "(0xffffffff :: u32) = -1" by simp
  then have n: "x XOR 0xffffffff = NOT x" for x :: u32 by (metis bit.xor_one_right)
  have "t ! 255 = div8 255" using assms by (simp add: table_ok_def)
  moreover have "div8 255 = 0x2d02ef8d" by code_simp
  ultimately have "t ! 255 \<noteq> 0" by simp
  then show ?thesis
    by (simp add: crc32_def n crc_remainder_def crc_loop_fold [OF assms])
qed

text \<open>
  Property C39.  After \<open>Init_CRC32\<close>, whatever the table held before, \<open>crc32\<close> never fails, computes
  the remainder that the division by the polynomial gives, bit by bit, with the preset and the
  inversion of the standard, and the value for one buffer is the chaining value for the next.
\<close>

theorem crc32_is_crc:
  assumes "length t0 = 256"
  shows "\<exists>t. Init_CRC32 t0 = Some t \<and> (\<forall>crc xs ys. crc32 t crc xs = Some (crc_remainder crc xs)
    \<and> crc32 t (crc_remainder crc xs) ys = crc32 t crc (xs @ ys))"
proof -
  from Init_CRC32_ok [OF assms] obtain t where t: "Init_CRC32 t0 = Some t" "table_ok t" by blast
  moreover have "crc_remainder (crc_remainder crc xs) ys = crc_remainder crc (xs @ ys)" for crc xs ys
    by (simp add: crc_remainder_def)
  ultimately show ?thesis by (auto simp: crc32_remainder [OF t(2)])
qed

lemma crc32_is_crc_witness:
  "\<exists>t. Init_CRC32 (replicate 256 7) = Some t \<and> crc32 t 0 [49] = Some 0x83dcefb7"
proof -
  have "crc_remainder 0 [49] = 0x83dcefb7"
    by code_simp
  with crc32_is_crc [of "replicate 256 7"] show ?thesis by auto
qed

end
