(* ===== verification/Blockdev.thy ===== *)
theory Blockdev
  imports Sched
begin

text \<open>
  Block devices, \<open>src/geekos/blockdev.c\<close>.  The first part is the protocol between the threads
  that post requests and the driver's thread that serves them, on the kernel state of theory
  \<open>Kthread\<close>: a request is a number, the list of requests of the device is a list of numbers.
  \<open>Post_Request_And_Wait\<close> and \<open>Dequeue_Request\<close> block; like the functions of theory \<open>Synch\<close>
  they are split at the context switch: the definition whose name ends in \<open>_Loop\<close> is the
  waiting loop, entered at the beginning and after each wait.

  The second part is what the callers of the interface see: the list of devices, and
  \<open>Do_Request\<close> as a function that returns when the driver has answered.  What a driver answers
  is a component of the device; the outcomes of the calls of \<open>Malloc\<close> are a list in the state,
  used up from the front, and a call beyond the end of the list succeeds.
\<close>

section \<open>The request protocol\<close>

datatype request_type = BLOCK_READ | BLOCK_WRITE

datatype request_state = PENDING | COMPLETED | ERROR

record request =
  rq_type :: request_type
  rq_blockNum :: int
  rq_state :: request_state
  rq_errorCode :: int

record io_state =
  kern :: kstate
  requests :: "nat \<Rightarrow> request"
  requestQueue :: "nat list"

text \<open>The wait queue of the driver and the one of request \<open>r\<close>.\<close>

definition drv_queue :: qid where "drv_queue = DevQ 1"
definition req_queue :: "nat \<Rightarrow> qid" where "req_queue r = DevQ (2 + r)"

datatype 'a io_run = IO_Returned 'a io_state | IO_Switched io_state

definition on_kern :: "(kstate \<Rightarrow> kstate option) \<Rightarrow> io_state \<Rightarrow> io_state option" where
  "on_kern f s = do { k \<leftarrow> f (kern s); Some (s\<lparr>kern := k\<rparr>) }"

text \<open>The fields of a new request that the code does not set keep the values of the block.\<close>

definition Create_Request :: "nat \<Rightarrow> request_type \<Rightarrow> int \<Rightarrow> io_state \<Rightarrow> io_state" where
  "Create_Request r ty blockNum s =
     s\<lparr>kern := set_queue (req_queue r) [] (kern s),
       requests := (requests s)(r := (requests s r)\<lparr>rq_type := ty, rq_blockNum := blockNum,
         rq_state := PENDING\<rparr>)\<rparr>"

definition Wait_Request_Loop :: "nat \<Rightarrow> io_state \<Rightarrow> unit io_run option" where
  "Wait_Request_Loop r s =
     (if rq_state (requests s r) = PENDING
      then do { s \<leftarrow> on_kern (Wait (req_queue r)) s; Some (IO_Switched s) }
      else do { s \<leftarrow> on_kern Enable_Interrupts s; Some (IO_Returned () s) })"

definition Post_Request_And_Wait :: "nat \<Rightarrow> io_state \<Rightarrow> unit io_run option" where
  "Post_Request_And_Wait r s = do {
     s \<leftarrow> on_kern Disable_Interrupts s;
     kassert (r \<notin> set (requestQueue s));
     let s = s\<lparr>requestQueue := requestQueue s @ [r]\<rparr>;
     s \<leftarrow> on_kern (Wake_Up drv_queue) s;
     s \<leftarrow> on_kern Enable_Interrupts s;
     s \<leftarrow> on_kern Disable_Interrupts s;
     Wait_Request_Loop r s
   }"

definition Dequeue_Request_Loop :: "io_state \<Rightarrow> nat io_run option" where
  "Dequeue_Request_Loop s =
     (case requestQueue s of
        [] \<Rightarrow> do { s \<leftarrow> on_kern (Wait drv_queue) s; Some (IO_Switched s) }
      | r # rs \<Rightarrow> do {
          s \<leftarrow> on_kern Enable_Interrupts (s\<lparr>requestQueue := rs\<rparr>);
          Some (IO_Returned r s)
        })"

definition Dequeue_Request :: "io_state \<Rightarrow> nat io_run option" where
  "Dequeue_Request s = do { s \<leftarrow> on_kern Disable_Interrupts s; Dequeue_Request_Loop s }"

definition Notify_Request_Completion :: "nat \<Rightarrow> request_state \<Rightarrow> int \<Rightarrow> io_state \<Rightarrow> io_state option" where
  "Notify_Request_Completion r st errorCode s = do {
     s \<leftarrow> on_kern Disable_Interrupts s;
     let s = s\<lparr>requests := (requests s)(r := (requests s r)\<lparr>rq_state := st, rq_errorCode := errorCode\<rparr>)\<rparr>;
     s \<leftarrow> on_kern (Wake_Up (req_queue r)) s;
     on_kern Enable_Interrupts s
   }"

section \<open>The device list\<close>

record block_device =
  bd_name :: "u8 list"
  bd_unit :: int
  bd_inUse :: bool
  drv_Open :: int
  drv_Close :: int
  drv_Get_Num_Blocks :: int
  drv_transfer :: "request_type \<Rightarrow> int \<Rightarrow> u8 list \<Rightarrow> int \<times> u8 list"

text \<open>
  \<open>drv_Open\<close>, \<open>drv_Close\<close> and \<open>drv_Get_Num_Blocks\<close> are what the functions of the driver's
  table return; \<open>drv_transfer ty blockNum buf\<close> is the error code with which the driver completes
  a request and the contents of the buffer afterwards.
\<close>

record world =
  mallocs :: "bool list"
  garbage :: "nat \<Rightarrow> u8"
  s_deviceList :: "block_device list"

text \<open>\<open>garbage\<close> is what a block that \<open>Malloc\<close> returns contains.\<close>

definition Malloc :: "'a world_scheme \<Rightarrow> bool \<times> 'a world_scheme" where
  "Malloc w = (case mallocs w of [] \<Rightarrow> (True, w) | b # bs \<Rightarrow> (b, w\<lparr>mallocs := bs\<rparr>))"

definition BLOCKDEV_MAX_NAME_LEN :: nat where "BLOCKDEV_MAX_NAME_LEN = 15"

text \<open>A name that does not fit, with its terminating zero, into the array \<open>name\<close> overflows it.\<close>

definition Register_Block_Device :: "block_device \<Rightarrow> 'a world_scheme \<Rightarrow> (int \<times> 'a world_scheme) option" where
  "Register_Block_Device dev w =
     (let (ok, w) = Malloc w
      in if \<not> ok then Some (ENOMEM, w)
         else if length (bd_name dev) + 1 > BLOCKDEV_MAX_NAME_LEN then None
         else Some (0, w\<lparr>s_deviceList := s_deviceList w @ [dev\<lparr>bd_inUse := False\<rparr>]\<rparr>))"

fun find_device :: "u8 list \<Rightarrow> block_device list \<Rightarrow> nat \<Rightarrow> nat option" where
  "find_device name [] i = None"
| "find_device name (d # ds) i = (if bd_name d = name then Some i else find_device name ds (Suc i))"

definition set_inUse :: "nat \<Rightarrow> bool \<Rightarrow> 'a world_scheme \<Rightarrow> 'a world_scheme" where
  "set_inUse i b w = w\<lparr>s_deviceList := (s_deviceList w)[i := (s_deviceList w ! i)\<lparr>bd_inUse := b\<rparr>]\<rparr>"

definition Open_Block_Device :: "u8 list \<Rightarrow> 'a world_scheme \<Rightarrow> int \<times> nat option \<times> 'a world_scheme" where
  "Open_Block_Device name w =
     (case find_device name (s_deviceList w) 0 of
        None \<Rightarrow> (ENODEV, None, w)
      | Some i \<Rightarrow>
          (if bd_inUse (s_deviceList w ! i) then (EBUSY, None, w)
           else let rc = drv_Open (s_deviceList w ! i)
                in if rc = 0 then (rc, Some i, set_inUse i True w) else (rc, None, w)))"

definition Close_Block_Device :: "nat \<Rightarrow> 'a world_scheme \<Rightarrow> (int \<times> 'a world_scheme) option" where
  "Close_Block_Device i w =
     (if i < length (s_deviceList w) then do {
        kassert (bd_inUse (s_deviceList w ! i));
        let rc = drv_Close (s_deviceList w ! i);
        Some (rc, if rc = 0 then set_inUse i False w else w)
      } else None)"

text \<open>A driver that transfers more or less than the buffer has room for is \<open>None\<close>.\<close>

definition Do_Request ::
  "nat \<Rightarrow> request_type \<Rightarrow> int \<Rightarrow> u8 list \<Rightarrow> 'a world_scheme \<Rightarrow> (int \<times> u8 list \<times> 'a world_scheme) option" where
  "Do_Request i ty blockNum buf w =
     (let (ok, w) = Malloc w
      in if \<not> ok then Some (ENOMEM, buf, w)
         else if i < length (s_deviceList w) then
           (let (rc, buf') = drv_transfer (s_deviceList w ! i) ty blockNum buf
            in if length buf' = length buf then Some (rc, buf', w) else None)
         else None)"

definition Block_Read :: "nat \<Rightarrow> int \<Rightarrow> u8 list \<Rightarrow> 'a world_scheme \<Rightarrow> (int \<times> u8 list \<times> 'a world_scheme) option" where
  "Block_Read i blockNum buf w = Do_Request i BLOCK_READ blockNum buf w"

definition Block_Write :: "nat \<Rightarrow> int \<Rightarrow> u8 list \<Rightarrow> 'a world_scheme \<Rightarrow> (int \<times> u8 list \<times> 'a world_scheme) option" where
  "Block_Write i blockNum buf w = Do_Request i BLOCK_WRITE blockNum buf w"

definition Get_Num_Blocks :: "nat \<Rightarrow> 'a world_scheme \<Rightarrow> int option" where
  "Get_Num_Blocks i w = (if i < length (s_deviceList w)
     then Some (drv_Get_Num_Blocks (s_deviceList w ! i)) else None)"

definition SECTOR_SIZE :: u32 where "SECTOR_SIZE = 512"

definition Round_Up_To_Block :: "u32 \<Rightarrow> u32" where
  "Round_Up_To_Block off =
     (if off mod SECTOR_SIZE = 0 then off else off + (SECTOR_SIZE - off mod SECTOR_SIZE))"

definition Round_Down_To_Block :: "u32 \<Rightarrow> u32" where
  "Round_Down_To_Block off =
     (if off mod SECTOR_SIZE = 0 then off else off - off mod SECTOR_SIZE)"

section \<open>Invariant of the protocol\<close>

text \<open>
  A thread waits for a request only while the request is pending, and the driver waits only
  while no request is queued.  The threads are in the places \<open>pl\<close> says; \<open>idle\<close> is a thread
  that is always runnable when it does not run.
\<close>

definition io_ok :: "io_state \<Rightarrow> (tid \<Rightarrow> place) \<Rightarrow> bool" where
  "io_ok s pl \<longleftrightarrow> q_rep (queues (kern s)) pl
     \<and> (\<forall>t. pl t \<noteq> Nowhere \<longrightarrow> threads (kern s) t \<noteq> None)
     \<and> (\<forall>t. pl t = Cur \<longleftrightarrow> t = g_currentThread (kern s)) \<and> \<not> g_preemptionDisabled (kern s)
     \<and> distinct (requestQueue s) \<and> (\<forall>r \<in> set (requestQueue s). rq_state (requests s r) = PENDING)
     \<and> (\<forall>t r. pl t = In (req_queue r) \<longrightarrow> rq_state (requests s r) = PENDING)
     \<and> ((\<exists>t. pl t = In drv_queue) \<longrightarrow> requestQueue s = [])"

lemma req_queue_simps [simp]: "req_queue r = req_queue r' \<longleftrightarrow> r = r'" "req_queue r \<noteq> drv_queue"
  "drv_queue \<noteq> req_queue r" "req_queue r \<noteq> RunQ" "RunQ \<noteq> req_queue r" "drv_queue \<noteq> RunQ" "RunQ \<noteq> drv_queue"
  by (auto simp: req_queue_def drv_queue_def)

lemma Wait_io:
  assumes "io_ok s pl" "\<not> ints (kern s)" "pl i = In RunQ"
    and "\<And>r. q = req_queue r \<Longrightarrow> rq_state (requests s r) = PENDING"
    and "q = drv_queue \<Longrightarrow> requestQueue s = []" "q \<noteq> RunQ"
  shows "\<exists>s' pl'. on_kern (Wait q) s = Some s' \<and> io_ok s' pl'
    \<and> pl' (g_currentThread (kern s)) = In q \<and> requests s' = requests s \<and> requestQueue s' = requestQueue s
    \<and> \<not> ints (kern s') \<and> pl (g_currentThread (kern s')) = In RunQ"
proof -
  let ?k = "kern s" let ?c = "g_currentThread ?k"
  from assms(1) have a: "q_rep (queues ?k) pl" "pl ?c = Cur" "\<not> g_preemptionDisabled ?k"
    "\<And>t. pl t \<noteq> Nowhere \<Longrightarrow> threads ?k t \<noteq> None" "\<And>t. pl t = Cur \<longleftrightarrow> t = ?c"
    "\<And>t r. pl t = In (req_queue r) \<Longrightarrow> rq_state (requests s r) = PENDING"
    "\<And>t. pl t = In drv_queue \<Longrightarrow> requestQueue s = []" by (auto simp: io_ok_def)
  obtain Q N b where w: "Wait q ?k = Some (?k\<lparr>queues := Q, thread_ticks := N, g_currentThread := b\<rparr>)"
    "(pl(?c := In q)) b = In RunQ" "q_rep Q (pl(?c := In q, b := Cur))"
    using Wait_rep [OF a(1,2) _ _ assms(3,2) a(3), of q] a(4) a(2) by force
  have bc: "b \<noteq> ?c" "pl b = In RunQ" using w(2) assms(6) by (auto split: if_splits)
  let ?pl = "pl(?c := In q, b := Cur)"
  have "io_ok (s\<lparr>kern := ?k\<lparr>queues := Q, thread_ticks := N, g_currentThread := b\<rparr>\<rparr>) ?pl"
    unfolding io_ok_def
  proof (intro conjI)
    show "\<forall>t. ?pl t \<noteq> Nowhere \<longrightarrow> threads (kern (s\<lparr>kern := ?k\<lparr>queues := Q, thread_ticks := N, g_currentThread := b\<rparr>\<rparr>)) t \<noteq> None"
      using a(2,4) bc by simp
    show "\<forall>t. ?pl t = Cur \<longleftrightarrow> t = g_currentThread (kern (s\<lparr>kern := ?k\<lparr>queues := Q, thread_ticks := N, g_currentThread := b\<rparr>\<rparr>))"
      using a(2,5) by auto
    show "\<forall>t r. ?pl t = In (req_queue r) \<longrightarrow>
        rq_state (requests (s\<lparr>kern := ?k\<lparr>queues := Q, thread_ticks := N, g_currentThread := b\<rparr>\<rparr>) r) = PENDING"
      using a(6) assms(4) by auto
    show "(\<exists>t. ?pl t = In drv_queue) \<longrightarrow>
        requestQueue (s\<lparr>kern := ?k\<lparr>queues := Q, thread_ticks := N, g_currentThread := b\<rparr>\<rparr>) = []"
      using a(7) assms(5) by (auto split: if_splits)
  qed (use assms(1) w(3) a(3) in \<open>auto simp: io_ok_def\<close>)
  with w(1) bc assms(2) show ?thesis by (auto simp: on_kern_def)
qed

lemma Wake_io:
  assumes "q_rep (queues (kern s)) pl" "\<not> ints (kern s)" "q \<noteq> RunQ"
  shows "\<exists>Q. on_kern (Wake_Up q) s = Some (s\<lparr>kern := (kern s)\<lparr>queues := Q\<rparr>\<rparr>) \<and> q_rep Q (wake_place q pl)"
  using Wake_Up_rep [OF assms(1,3,2)] by (auto simp: on_kern_def)

lemma disable_io: "ints (kern s) \<Longrightarrow> on_kern Disable_Interrupts s = Some (s\<lparr>kern := (kern s)\<lparr>ints := False\<rparr>\<rparr>)"
  by (simp add: on_kern_def Disable_Interrupts_def)

lemma enable_io: "\<not> ints (kern s) \<Longrightarrow> on_kern Enable_Interrupts s = Some (s\<lparr>kern := (kern s)\<lparr>ints := True\<rparr>\<rparr>)"
  by (simp add: on_kern_def Enable_Interrupts_def)

lemma toggle_io:
  "\<not> ints (kern s) \<Longrightarrow> do { s \<leftarrow> on_kern Enable_Interrupts s; s \<leftarrow> on_kern Disable_Interrupts s; f s } = f s"
  by (cases s; cases "kern s") (simp add: on_kern_def Enable_Interrupts_def Disable_Interrupts_def)

lemma io_ok_ints [simp]: "io_ok (s\<lparr>kern := (kern s)\<lparr>ints := b\<rparr>\<rparr>) pl = io_ok s pl"
  by (simp add: io_ok_def)

lemma wake_place_simps: "wake_place q pl t = Cur \<longleftrightarrow> pl t = Cur" "wake_place q pl t = Nowhere \<longleftrightarrow> pl t = Nowhere"
  "p \<noteq> RunQ \<Longrightarrow> wake_place q pl t = In p \<longleftrightarrow> p \<noteq> q \<and> pl t = In p"
  by (auto simp: wake_place_def)

text \<open>A thread that posts a request wakes the driver and waits.\<close>

lemma Post_io:
  assumes "io_ok s pl" "ints (kern s)" "pl i = In RunQ"
    and "rq_state (requests s r) = PENDING" "r \<notin> set (requestQueue s)"
  shows "\<exists>s' pl'. Post_Request_And_Wait r s = Some (IO_Switched s') \<and> io_ok s' pl'
    \<and> requestQueue s' = requestQueue s @ [r] \<and> requests s' = requests s
    \<and> pl' (g_currentThread (kern s)) = In (req_queue r) \<and> (\<forall>t. pl' t \<noteq> In drv_queue)"
proof -
  let ?s0 = "s\<lparr>kern := (kern s)\<lparr>ints := False\<rparr>, requestQueue := requestQueue s @ [r]\<rparr>"
  from assms(1) have rep: "q_rep (queues (kern ?s0)) pl" by (simp add: io_ok_def)
  from Wake_io [OF this, of drv_queue] obtain Q where
    w: "on_kern (Wake_Up drv_queue) ?s0 = Some (?s0\<lparr>kern := (kern ?s0)\<lparr>queues := Q\<rparr>\<rparr>)"
      "q_rep Q (wake_place drv_queue pl)" by auto
  let ?s1 = "?s0\<lparr>kern := (kern ?s0)\<lparr>queues := Q\<rparr>\<rparr>" let ?pl = "wake_place drv_queue pl"
  have ok: "io_ok ?s1 ?pl" using assms(1,4,5) w(2) by (simp add: io_ok_def wake_place_simps)
  have "?pl i = In RunQ" using assms(3) by (simp add: wake_place_def)
  from Wait_io [OF ok _ this, of "req_queue r"] assms(4) obtain s' pl' where
    s': "on_kern (Wait (req_queue r)) ?s1 = Some s'" "io_ok s' pl'" "pl' (g_currentThread (kern s)) = In (req_queue r)"
    "requests s' = requests s" "requestQueue s' = requestQueue s @ [r]" by auto
  have d: "on_kern Disable_Interrupts s = Some (s\<lparr>kern := (kern s)\<lparr>ints := False\<rparr>\<rparr>)"
    using assms(2) by (rule disable_io)
  have c: "do { s \<leftarrow> on_kern Enable_Interrupts ?s1; s \<leftarrow> on_kern Disable_Interrupts s; Wait_Request_Loop r s }
      = Wait_Request_Loop r ?s1" by (rule toggle_io) simp
  have u: "(s\<lparr>kern := (kern s)\<lparr>ints := False\<rparr>\<rparr>)\<lparr>requestQueue := requestQueue s @ [r]\<rparr> = ?s0" by simp
  have "Post_Request_And_Wait r s = Wait_Request_Loop r ?s1"
    unfolding Post_Request_And_Wait_def d bind.bind_lunit using assms(5) w(1) c by simp
  also have "\<dots> = Some (IO_Switched s')" using s'(1) assms(4) by (simp add: Wait_Request_Loop_def)
  finally have "Post_Request_And_Wait r s = Some (IO_Switched s')" .
  moreover have "\<forall>t. pl' t \<noteq> In drv_queue" using s'(2,5) by (auto simp: io_ok_def)
  ultimately show ?thesis using s' by blast
qed

lemma Wait_Request_Loop_io:
  assumes "io_ok s pl" "\<not> ints (kern s)" "pl i = In RunQ"
  shows "if rq_state (requests s r) = PENDING
    then \<exists>s' pl'. Wait_Request_Loop r s = Some (IO_Switched s') \<and> io_ok s' pl'
      \<and> pl' (g_currentThread (kern s)) = In (req_queue r)
    else \<exists>s'. Wait_Request_Loop r s = Some (IO_Returned () s') \<and> io_ok s' pl \<and> requests s' = requests s"
proof (cases "rq_state (requests s r) = PENDING")
  case True
  with Wait_io [OF assms, of "req_queue r"] obtain s' pl' where
    "on_kern (Wait (req_queue r)) s = Some s'" "io_ok s' pl'" "pl' (g_currentThread (kern s)) = In (req_queue r)"
    by auto
  with True show ?thesis unfolding Wait_Request_Loop_def by auto
next
  case False
  with assms show ?thesis by (auto simp: Wait_Request_Loop_def enable_io)
qed

lemma Dequeue_io:
  assumes "io_ok s pl" "\<not> ints (kern s)" "pl i = In RunQ"
  shows "case requestQueue s of
      [] \<Rightarrow> \<exists>s' pl'. Dequeue_Request_Loop s = Some (IO_Switched s') \<and> io_ok s' pl'
        \<and> pl' (g_currentThread (kern s)) = In drv_queue
    | r # rs \<Rightarrow> \<exists>s'. Dequeue_Request_Loop s = Some (IO_Returned r s') \<and> io_ok s' pl
        \<and> requestQueue s' = rs \<and> requests s' = requests s"
proof (cases "requestQueue s")
  case Nil
  with Wait_io [OF assms, of drv_queue] show ?thesis by (auto simp: Dequeue_Request_Loop_def)
next
  case (Cons r rs)
  with assms(1,2) show ?thesis by (auto simp: Dequeue_Request_Loop_def enable_io io_ok_def)
qed

lemma Notify_io:
  assumes "io_ok s pl" "ints (kern s)" "r \<notin> set (requestQueue s)" "st \<noteq> PENDING"
  shows "\<exists>s' pl'. Notify_Request_Completion r st e s = Some s' \<and> io_ok s' pl'
    \<and> rq_state (requests s' r) = st \<and> rq_errorCode (requests s' r) = e \<and> requestQueue s' = requestQueue s
    \<and> pl' = wake_place (req_queue r) pl"
proof -
  let ?s0 = "s\<lparr>kern := (kern s)\<lparr>ints := False\<rparr>, requests := (requests s)(r := (requests s r)\<lparr>rq_state := st, rq_errorCode := e\<rparr>)\<rparr>"
  from assms(1) have rep: "q_rep (queues (kern ?s0)) pl" by (simp add: io_ok_def)
  from Wake_io [OF this, of "req_queue r"] obtain Q where
    w: "on_kern (Wake_Up (req_queue r)) ?s0 = Some (?s0\<lparr>kern := (kern ?s0)\<lparr>queues := Q\<rparr>\<rparr>)"
      "q_rep Q (wake_place (req_queue r) pl)" by auto
  let ?s1 = "?s0\<lparr>kern := (kern ?s0)\<lparr>queues := Q\<rparr>\<rparr>"
  have "\<forall>q \<in> set (requestQueue s). q \<noteq> r" using assms(3) by blast
  then have "io_ok ?s1 (wake_place (req_queue r) pl)"
    using assms(1,4) w(2) by (auto simp: io_ok_def wake_place_simps)
  moreover have "Notify_Request_Completion r st e s = Some (?s1\<lparr>kern := (kern ?s1)\<lparr>ints := True\<rparr>\<rparr>)"
    using w(1) assms(2) by (simp add: Notify_Request_Completion_def disable_io enable_io)
  ultimately show ?thesis by (intro exI [of _ "?s1\<lparr>kern := (kern ?s1)\<lparr>ints := True\<rparr>\<rparr>"]
        exI [of _ "wake_place (req_queue r) pl"] conjI) (simp_all add: io_ok_def)
qed

section \<open>Properties\<close>


definition io_example :: io_state where
  "io_example = \<lparr>kern = three_runnable\<lparr>ints := True, queues := (\<lambda>q. if q = RunQ then [1] else if q = drv_queue then [2] else [])\<rparr>,
     requests = (\<lambda>_. \<lparr>rq_type = BLOCK_READ, rq_blockNum = 7, rq_state = PENDING, rq_errorCode = 0\<rparr>),
     requestQueue = []\<rparr>"


end
