(* ===== verification/Vfs.thy ===== *)
theory Vfs
  imports Blockdev
begin

text \<open>
  The virtual file system, \<open>src/geekos/vfs.c\<close>: resolution of paths, the lists of file system
  types and of mounted file systems, and the dispatch of every operation to the functions of the
  file system.  Strings are lists of bytes without the zero at their end.

  A table of function pointers is named by a value of type \<open>'o\<close>; \<open>vtables\<close> gives the functions
  for each name, \<open>None\<close> being the null pointer.  \<open>'d\<close> and \<open>'i\<close> are the types of the private
  data that a file system keeps with a file and with a mount.  A file refers to its mount by
  the position in the list of mounts.  The list operations are protected by one mutex, so each
  of them is one step.  Memory that is read before it was set, and a null pointer that is
  followed, are \<open>None\<close>.
\<close>

section \<open>Data\<close>

definition VFS_MAX_FS_NAME_LEN :: nat where "VFS_MAX_FS_NAME_LEN = 15"
definition MAX_PREFIX_LEN :: nat where "MAX_PREFIX_LEN = 16"
definition VFS_MAX_ACL_ENTRIES :: nat where "VFS_MAX_ACL_ENTRIES = 10"
definition VFS_NO_MORE_DIR_ENTRIES :: int where "VFS_NO_MORE_DIR_ENTRIES = 1"
definition O_CREATE :: u32 where "O_CREATE = 0x1"
definition O_READ :: u32 where "O_READ = 0x2"
definition O_WRITE :: u32 where "O_WRITE = 0x4"
definition SLASH :: u8 where "SLASH = 47"

record vfs_file_stat =
  st_size :: int
  st_isDirectory :: bool
  st_isSetuid :: bool
  st_acls :: "(u32 \<times> u32) list"

record vfs_dir_entry =
  de_name :: "u8 list"
  de_stats :: vfs_file_stat

record ('o, 'd) vfs_file =
  f_ops :: 'o
  filePos :: u32
  endPos :: u32
  fsData :: 'd
  f_mode :: u32
  mountPoint :: nat

record ('o, 'i) mount_point =
  mp_ops :: "'o option"
  pathPrefix :: "u8 list"
  mp_dev :: "nat option"
  mp_fsData :: "'i option"

record paging_device =
  pg_fileName :: "u8 list"
  pg_dev :: "nat option"
  startSector :: u32
  numSectors :: u32

record io_world = world +
  s_pagingDevice :: "paging_device option"

text \<open>
  Every function returns its result code, what it stores through its pointer arguments, and the
  objects it was given, as it leaves them.
\<close>

type_synonym ('o, 'i) mount_op = "('o, 'i) mount_point \<Rightarrow> u8 list \<Rightarrow> io_world \<Rightarrow> (int \<times> ('o, 'i) mount_point \<times> io_world) option"
type_synonym ('o, 'd, 'i) open_op = "('o, 'i) mount_point \<Rightarrow> u8 list \<Rightarrow> u32 \<Rightarrow> io_world
  \<Rightarrow> (int \<times> ('o, 'd) vfs_file option \<times> ('o, 'i) mount_point \<times> io_world) option"
type_synonym ('o, 'd, 'i, 'a) file_op = "('o, 'd) vfs_file \<Rightarrow> ('o, 'i) mount_point \<Rightarrow> io_world
  \<Rightarrow> (int \<times> 'a \<times> ('o, 'd) vfs_file \<times> ('o, 'i) mount_point \<times> io_world) option"

record ('o, 'd, 'i) vtables =
  fs_Format :: "'o \<Rightarrow> (nat \<Rightarrow> io_world \<Rightarrow> (int \<times> io_world) option) option"
  fs_Mount :: "'o \<Rightarrow> (('o, 'i) mount_point \<Rightarrow> io_world \<Rightarrow> (int \<times> ('o, 'i) mount_point \<times> io_world) option) option"
  mp_Open :: "'o \<Rightarrow> ('o, 'd, 'i) open_op option"
  mp_Create_Directory :: "'o \<Rightarrow> ('o, 'i) mount_op option"
  mp_Open_Directory :: "'o \<Rightarrow> (('o, 'i) mount_point \<Rightarrow> u8 list \<Rightarrow> io_world
    \<Rightarrow> (int \<times> ('o, 'd) vfs_file option \<times> ('o, 'i) mount_point \<times> io_world) option) option"
  mp_Stat :: "'o \<Rightarrow> (('o, 'i) mount_point \<Rightarrow> u8 list \<Rightarrow> io_world
    \<Rightarrow> (int \<times> vfs_file_stat option \<times> ('o, 'i) mount_point \<times> io_world) option) option"
  mp_Sync :: "'o \<Rightarrow> (('o, 'i) mount_point \<Rightarrow> io_world \<Rightarrow> (int \<times> ('o, 'i) mount_point \<times> io_world) option) option"
  mp_Delete :: "'o \<Rightarrow> ('o, 'i) mount_op option"
  fo_FStat :: "'o \<Rightarrow> ('o, 'd, 'i, vfs_file_stat option) file_op option"
  fo_Read :: "'o \<Rightarrow> (u32 \<Rightarrow> ('o, 'd, 'i, u8 list) file_op) option"
  fo_Write :: "'o \<Rightarrow> (u8 list \<Rightarrow> ('o, 'd, 'i, unit) file_op) option"
  fo_Seek :: "'o \<Rightarrow> (u32 \<Rightarrow> ('o, 'd, 'i, unit) file_op) option"
  fo_Close :: "'o \<Rightarrow> ('o, 'd, 'i, unit) file_op option"
  fo_Read_Entry :: "'o \<Rightarrow> ('o, 'd, 'i, vfs_dir_entry option) file_op option"

record ('o, 'i) vfs =
  s_filesystemList :: "(u8 list \<times> 'o) list"
  s_mountPointList :: "('o, 'i) mount_point list"
  io :: io_world

section \<open>Paths\<close>

fun find_char :: "u8 \<Rightarrow> u8 list \<Rightarrow> nat \<Rightarrow> nat option" where
  "find_char c [] i = None"
| "find_char c (x # xs) i = (if x = c then Some i else find_char c xs (Suc i))"

text \<open>The outer option is the assertion on the suffix, the inner one the result.\<close>

definition Unpack_Path :: "u8 list \<Rightarrow> (u8 list \<times> u8 list) option option" where
  "Unpack_Path path =
     (case path of
        [] \<Rightarrow> Some None
      | c # path \<Rightarrow>
         if c \<noteq> SLASH then Some None
         else (case find_char SLASH path 0 of
             None \<Rightarrow>
               (let pfxLen = length path
                in if pfxLen = 0 \<or> pfxLen > MAX_PREFIX_LEN then Some None
                   else Some (Some (path, [SLASH])))
           | Some slash \<Rightarrow>
               (let pfxLen = slash
                in if pfxLen = 0 \<or> pfxLen > MAX_PREFIX_LEN then Some None
                   else do {
                     let prefix = take pfxLen path;
                     let suffix = drop slash path;
                     kassert (take 1 suffix = [SLASH]);
                     Some (Some (prefix, suffix))
                   })))"

fun lookup_fs :: "u8 list \<Rightarrow> (u8 list \<times> 'o) list \<Rightarrow> 'o option" where
  "lookup_fs fstype [] = None"
| "lookup_fs fstype ((name, ops) # fs) = (if name = fstype then Some ops else lookup_fs fstype fs)"

definition Lookup_Filesystem :: "u8 list \<Rightarrow> ('o, 'i) vfs \<Rightarrow> 'o option" where
  "Lookup_Filesystem fstype s = lookup_fs fstype (s_filesystemList s)"

fun lookup_mount :: "u8 list \<Rightarrow> ('o, 'i) mount_point list \<Rightarrow> nat \<Rightarrow> nat option" where
  "lookup_mount prefix [] i = None"
| "lookup_mount prefix (m # ms) i =
     (if prefix = pathPrefix m then Some i else lookup_mount prefix ms (Suc i))"

definition Lookup_Mount_Point :: "u8 list \<Rightarrow> ('o, 'i) vfs \<Rightarrow> nat option" where
  "Lookup_Mount_Point prefix s = lookup_mount prefix (s_mountPointList s) 0"

section \<open>Dispatch\<close>

definition set_mount :: "nat \<Rightarrow> ('o, 'i) mount_point \<Rightarrow> io_world \<Rightarrow> ('o, 'i) vfs \<Rightarrow> ('o, 'i) vfs" where
  "set_mount i m w s = s\<lparr>s_mountPointList := (s_mountPointList s)[i := m], io := w\<rparr>"

definition Do_Open ::
  "u8 list \<Rightarrow> u32 \<Rightarrow> ('o, 'd, 'i) open_op \<Rightarrow> ('o, 'i) vfs
   \<Rightarrow> (int \<times> ('o, 'd) vfs_file option \<times> ('o, 'i) vfs) option" where
  "Do_Open path mode openFunc s = do {
     r \<leftarrow> Unpack_Path path;
     (case r of
        None \<Rightarrow> Some (ENOTFOUND, None, s)
      | Some (prefix, suffix) \<Rightarrow>
         (case Lookup_Mount_Point prefix s of
            None \<Rightarrow> Some (ENOTFOUND, None, s)
          | Some i \<Rightarrow> do {
              (rc, file, m, w) \<leftarrow> openFunc (s_mountPointList s ! i) suffix mode (io s);
              let s = set_mount i m w s;
              (if rc = 0 then do {
                 file \<leftarrow> file;
                 Some (rc, Some (file\<lparr>f_mode := mode, mountPoint := i\<rparr>), s)
               } else Some (rc, None, s))
            }))
   }"

definition Do_Open_File :: "('o, 'd, 'i) vtables \<Rightarrow> ('o, 'd, 'i) open_op" where
  "Do_Open_File vt m path mode w = do {
     ops \<leftarrow> mp_ops m;
     kassert (mp_Open vt ops \<noteq> None);
     f \<leftarrow> mp_Open vt ops;
     f m path mode w
   }"

definition Do_Open_Directory :: "('o, 'd, 'i) vtables \<Rightarrow> ('o, 'd, 'i) open_op" where
  "Do_Open_Directory vt m path mode w = do {
     ops \<leftarrow> mp_ops m;
     kassert (mp_Open_Directory vt ops \<noteq> None);
     f \<leftarrow> mp_Open_Directory vt ops;
     f m path w
   }"

definition Register_Filesystem ::
  "('o, 'd, 'i) vtables \<Rightarrow> u8 list \<Rightarrow> 'o \<Rightarrow> ('o, 'i) vfs \<Rightarrow> (bool \<times> ('o, 'i) vfs) option" where
  "Register_Filesystem vt fsName fsOps s = do {
     kassert (fs_Mount vt fsOps \<noteq> None);
     let (ok, w) = Malloc (io s);
     (if \<not> ok then Some (False, s\<lparr>io := w\<rparr>)
      else Some (True, s\<lparr>s_filesystemList := s_filesystemList s @ [(take VFS_MAX_FS_NAME_LEN fsName, fsOps)],
        io := w\<rparr>))
   }"

definition Format ::
  "('o, 'd, 'i) vtables \<Rightarrow> u8 list \<Rightarrow> u8 list \<Rightarrow> ('o, 'i) vfs \<Rightarrow> (int \<times> ('o, 'i) vfs) option" where
  "Format vt devname fstype s =
     (case Lookup_Filesystem fstype s of
        None \<Rightarrow> Some (ENOFILESYS, s)
      | Some ops \<Rightarrow>
         (case fs_Format vt ops of
            None \<Rightarrow> Some (EUNSUPPORTED, s)
          | Some f \<Rightarrow>
              (let (rc, dev, w) = Open_Block_Device devname (io s)
               in if rc < 0 then Some (rc, s\<lparr>io := w\<rparr>)
                  else do {
                    d \<leftarrow> dev;
                    (rc, w) \<leftarrow> f d w;
                    (_, w) \<leftarrow> Close_Block_Device d w;
                    Some (rc, s\<lparr>io := w\<rparr>)
                  })))"

text \<open>The label \<open>fail\<close> of \<open>Mount\<close>: the device is closed, whatever that returns.\<close>

definition mount_fail :: "int \<Rightarrow> nat option \<Rightarrow> io_world \<Rightarrow> ('o, 'i) vfs \<Rightarrow> (int \<times> ('o, 'i) vfs) option" where
  "mount_fail rc dev w s =
     (case dev of
        None \<Rightarrow> Some (rc, s\<lparr>io := w\<rparr>)
      | Some d \<Rightarrow> do { (_, w) \<leftarrow> Close_Block_Device d w; Some (rc, s\<lparr>io := w\<rparr>) })"

definition Mount ::
  "('o, 'd, 'i) vtables \<Rightarrow> u8 list \<Rightarrow> u8 list \<Rightarrow> u8 list \<Rightarrow> ('o, 'i) vfs \<Rightarrow> (int \<times> ('o, 'i) vfs) option" where
  "Mount vt devname prefix fstype s =
     (let prefix = dropWhile (\<lambda>c. c = SLASH) prefix
      in if length prefix > MAX_PREFIX_LEN then Some (ENAMETOOLONG, s)
         else (case Lookup_Filesystem fstype s of
             None \<Rightarrow> Some (ENOFILESYS, s)
           | Some fs \<Rightarrow> do {
               kassert (fs_Mount vt fs \<noteq> None);
               mount \<leftarrow> fs_Mount vt fs;
               let (rc, dev, w) = Open_Block_Device devname (io s);
               (if rc < 0 then Some (rc, s\<lparr>io := w\<rparr>)
                else let (ok, w) = Malloc w
                     in if \<not> ok then mount_fail ENOMEM dev w s
                        else let (ok, w) = Malloc w
                             in if \<not> ok then mount_fail ENOMEM dev w s
                                else do {
                                  (rc, m, w) \<leftarrow> mount \<lparr>mp_ops = None, pathPrefix = prefix, mp_dev = dev, mp_fsData = None\<rparr> w;
                                  (if rc < 0 then mount_fail rc dev w s
                                   else Some (0, s\<lparr>s_mountPointList := s_mountPointList s @ [m], io := w\<rparr>))
                                })
             }))"

definition Open ::
  "('o, 'd, 'i) vtables \<Rightarrow> u8 list \<Rightarrow> u32 \<Rightarrow> ('o, 'i) vfs \<Rightarrow> (int \<times> ('o, 'd) vfs_file option \<times> ('o, 'i) vfs) option" where
  "Open vt path mode s = Do_Open path mode (Do_Open_File vt) s"

definition Open_Directory ::
  "('o, 'd, 'i) vtables \<Rightarrow> u8 list \<Rightarrow> ('o, 'i) vfs \<Rightarrow> (int \<times> ('o, 'd) vfs_file option \<times> ('o, 'i) vfs) option" where
  "Open_Directory vt path s = Do_Open path 0 (Do_Open_Directory vt) s"

text \<open>A file function is called with the file and the mount the file refers to.\<close>

definition on_file ::
  "('o, 'd, 'i, 'a) file_op \<Rightarrow> ('o, 'd) vfs_file \<Rightarrow> ('o, 'i) vfs \<Rightarrow> (int \<times> 'a \<times> ('o, 'd) vfs_file \<times> ('o, 'i) vfs) option" where
  "on_file f file s =
     (if mountPoint file < length (s_mountPointList s) then do {
        (rc, x, file', m, w) \<leftarrow> f file (s_mountPointList s ! mountPoint file) (io s);
        Some (rc, x, file', set_mount (mountPoint file) m w s)
      } else None)"

definition Close :: "('o, 'd, 'i) vtables \<Rightarrow> ('o, 'd) vfs_file \<Rightarrow> ('o, 'i) vfs \<Rightarrow> (int \<times> ('o, 'i) vfs) option" where
  "Close vt file s = do {
     kassert (fo_Close vt (f_ops file) \<noteq> None);
     f \<leftarrow> fo_Close vt (f_ops file);
     (rc, _, _, s) \<leftarrow> on_file f file s;
     Some (rc, s)
   }"

definition FStat ::
  "('o, 'd, 'i) vtables \<Rightarrow> ('o, 'd) vfs_file \<Rightarrow> ('o, 'i) vfs \<Rightarrow> (int \<times> vfs_file_stat option \<times> ('o, 'd) vfs_file \<times> ('o, 'i) vfs) option" where
  "FStat vt file s = (case fo_FStat vt (f_ops file) of
       None \<Rightarrow> Some (EUNSUPPORTED, None, file, s) | Some f \<Rightarrow> on_file f file s)"

definition Read ::
  "('o, 'd, 'i) vtables \<Rightarrow> ('o, 'd) vfs_file \<Rightarrow> u32 \<Rightarrow> ('o, 'i) vfs \<Rightarrow> (int \<times> u8 list \<times> ('o, 'd) vfs_file \<times> ('o, 'i) vfs) option" where
  "Read vt file len s = (case fo_Read vt (f_ops file) of
       None \<Rightarrow> Some (EUNSUPPORTED, [], file, s) | Some f \<Rightarrow> on_file (f len) file s)"

definition Write ::
  "('o, 'd, 'i) vtables \<Rightarrow> ('o, 'd) vfs_file \<Rightarrow> u8 list \<Rightarrow> ('o, 'i) vfs \<Rightarrow> (int \<times> unit \<times> ('o, 'd) vfs_file \<times> ('o, 'i) vfs) option" where
  "Write vt file buf s = (case fo_Write vt (f_ops file) of
       None \<Rightarrow> Some (EUNSUPPORTED, (), file, s) | Some f \<Rightarrow> on_file (f buf) file s)"

definition Seek ::
  "('o, 'd, 'i) vtables \<Rightarrow> ('o, 'd) vfs_file \<Rightarrow> u32 \<Rightarrow> ('o, 'i) vfs \<Rightarrow> (int \<times> unit \<times> ('o, 'd) vfs_file \<times> ('o, 'i) vfs) option" where
  "Seek vt file len s = (case fo_Seek vt (f_ops file) of
       None \<Rightarrow> Some (EUNSUPPORTED, (), file, s) | Some f \<Rightarrow> on_file (f len) file s)"

definition Read_Entry ::
  "('o, 'd, 'i) vtables \<Rightarrow> ('o, 'd) vfs_file \<Rightarrow> ('o, 'i) vfs \<Rightarrow> (int \<times> vfs_dir_entry option \<times> ('o, 'd) vfs_file \<times> ('o, 'i) vfs) option" where
  "Read_Entry vt file s = (case fo_Read_Entry vt (f_ops file) of
       None \<Rightarrow> Some (EUNSUPPORTED, None, file, s) | Some f \<Rightarrow> on_file f file s)"

text \<open>
  \<open>Stat\<close>, \<open>Create_Directory\<close> and \<open>Delete\<close> resolve the path and call a function of the mount.
  \<open>a0\<close> is what is stored when no function is called.
\<close>

definition on_path ::
  "'a \<Rightarrow> ('o \<Rightarrow> (('o, 'i) mount_point \<Rightarrow> u8 list \<Rightarrow> io_world \<Rightarrow> (int \<times> 'a \<times> ('o, 'i) mount_point \<times> io_world) option) option)
   \<Rightarrow> u8 list \<Rightarrow> ('o, 'i) vfs \<Rightarrow> (int \<times> 'a \<times> ('o, 'i) vfs) option" where
  "on_path a0 op path s = do {
     r \<leftarrow> Unpack_Path path;
     (case r of
        None \<Rightarrow> Some (ENOTFOUND, a0, s)
      | Some (prefix, suffix) \<Rightarrow>
         (case Lookup_Mount_Point prefix s of
            None \<Rightarrow> Some (ENOTFOUND, a0, s)
          | Some i \<Rightarrow> do {
              ops \<leftarrow> mp_ops (s_mountPointList s ! i);
              (case op ops of
                 None \<Rightarrow> Some (EUNSUPPORTED, a0, s)
               | Some f \<Rightarrow> do {
                   (rc, a, m, w) \<leftarrow> f (s_mountPointList s ! i) suffix (io s);
                   Some (rc, a, set_mount i m w s)
                 })
            }))
   }"

definition unit_op :: "('o, 'i) mount_op \<Rightarrow> ('o, 'i) mount_point \<Rightarrow> u8 list \<Rightarrow> io_world
  \<Rightarrow> (int \<times> unit \<times> ('o, 'i) mount_point \<times> io_world) option" where
  "unit_op f m path w = do { (rc, m, w) \<leftarrow> f m path w; Some (rc, (), m, w) }"

definition Stat ::
  "('o, 'd, 'i) vtables \<Rightarrow> u8 list \<Rightarrow> ('o, 'i) vfs \<Rightarrow> (int \<times> vfs_file_stat option \<times> ('o, 'i) vfs) option" where
  "Stat vt path s = on_path None (mp_Stat vt) path s"

definition Create_Directory ::
  "('o, 'd, 'i) vtables \<Rightarrow> u8 list \<Rightarrow> ('o, 'i) vfs \<Rightarrow> (int \<times> unit \<times> ('o, 'i) vfs) option" where
  "Create_Directory vt path s = on_path () (\<lambda>ops. map_option unit_op (mp_Create_Directory vt ops)) path s"

definition Delete ::
  "('o, 'd, 'i) vtables \<Rightarrow> u8 list \<Rightarrow> ('o, 'i) vfs \<Rightarrow> (int \<times> unit \<times> ('o, 'i) vfs) option" where
  "Delete vt path s = on_path () (\<lambda>ops. map_option unit_op (mp_Delete vt ops)) path s"

function sync_loop :: "('o, 'd, 'i) vtables \<Rightarrow> nat \<Rightarrow> int \<Rightarrow> ('o, 'i) vfs \<Rightarrow> (int \<times> ('o, 'i) vfs) option" where
  "sync_loop vt i rc s =
     (if i < length (s_mountPointList s) then do {
        ops \<leftarrow> mp_ops (s_mountPointList s ! i);
        kassert (mp_Sync vt ops \<noteq> None);
        f \<leftarrow> mp_Sync vt ops;
        (rc, m, w) \<leftarrow> f (s_mountPointList s ! i) (io s);
        let s = set_mount i m w s;
        (if rc \<noteq> 0 then Some (rc, s) else sync_loop vt (Suc i) rc s)
      } else Some (rc, s))"
  by pat_completeness auto
termination
  by (relation "measure (\<lambda>(vt, i, rc, s). length (s_mountPointList s) - i)") (auto simp: set_mount_def)

definition Sync :: "('o, 'd, 'i) vtables \<Rightarrow> ('o, 'i) vfs \<Rightarrow> (int \<times> ('o, 'i) vfs) option" where
  "Sync vt s = sync_loop vt 0 0 s"

definition Allocate_File ::
  "'o \<Rightarrow> int \<Rightarrow> int \<Rightarrow> 'd \<Rightarrow> u32 \<Rightarrow> nat \<Rightarrow> io_world \<Rightarrow> ('o, 'd) vfs_file option \<times> io_world" where
  "Allocate_File ops pos ende data mode m w =
     (let (ok, w) = Malloc w
      in if ok then (Some \<lparr>f_ops = ops, filePos = word_of_int pos, endPos = word_of_int ende, fsData = data,
           f_mode = mode, mountPoint = m\<rparr>, w)
         else (None, w))"

text \<open>Storing bytes at a position of a buffer; past its end the store is \<open>None\<close>.\<close>

definition store_at :: "nat \<Rightarrow> u8 list \<Rightarrow> u8 list \<Rightarrow> u8 list option" where
  "store_at n bs buf = (if n + length bs \<le> length buf
     then Some (take n buf @ bs @ drop (n + length bs) buf) else None)"

text \<open>The loop of \<open>Read_Fully\<close>.  It does not end when \<open>Read\<close> returns 0 for ever.\<close>

partial_function (option) read_loop ::
  "('o, 'd, 'i) vtables \<Rightarrow> int \<Rightarrow> int \<Rightarrow> u8 list \<Rightarrow> ('o, 'd) vfs_file \<Rightarrow> ('o, 'i) vfs
   \<Rightarrow> (int \<times> u8 list \<times> ('o, 'd) vfs_file \<times> ('o, 'i) vfs) option" where
  "read_loop vt sz n buf file s =
     (if n < sz then do {
        (rc, bs, file, s) \<leftarrow> Read vt file (word_of_int (sz - n)) s;
        buf \<leftarrow> store_at (nat n) bs buf;
        (if rc < 0 then Some (rc, buf, file, s) else read_loop vt sz (n + rc) buf file s)
      } else Some (0, buf, file, s))"

definition Read_Fully ::
  "('o, 'd, 'i) vtables \<Rightarrow> u8 list \<Rightarrow> ('o, 'i) vfs \<Rightarrow> (int \<times> u8 list option \<times> ('o, 'i) vfs) option" where
  "Read_Fully vt path s = do {
     (rc, st, s) \<leftarrow> Stat vt path s;
     (if rc < 0 then Some (rc, None, s)
      else do {
        (rc, file, s) \<leftarrow> Open vt path O_READ s;
        (if rc < 0 then Some (rc, None, s)
         else do {
           stat \<leftarrow> st;
           f \<leftarrow> file;
           (if st_size stat < 0 then do { (_, s) \<leftarrow> Close vt f s; Some (ENOTFOUND, None, s) }
            else do {
              let (ok, w) = Malloc (io s);
              let s = s\<lparr>io := w\<rparr>;
              (if \<not> ok then do { (_, s) \<leftarrow> Close vt f s; Some (ENOMEM, None, s) }
               else do {
                 (rc, buf, f, s) \<leftarrow> read_loop vt (st_size stat) 0 (map (garbage w) [0..<nat (st_size stat)]) f s;
                 (_, s) \<leftarrow> Close vt f s;
                 (if rc < 0 then Some (rc, None, s) else Some (0, Some buf, s))
               })
            })
         })
      })
   }"

definition Register_Paging_Device :: "paging_device \<Rightarrow> io_world \<Rightarrow> io_world option" where
  "Register_Paging_Device d w = do {
     kassert (s_pagingDevice w = None);
     Some (w\<lparr>s_pagingDevice := Some d\<rparr>)
   }"

definition Get_Paging_Device :: "io_world \<Rightarrow> paging_device option" where
  "Get_Paging_Device w = s_pagingDevice w"

declare sync_loop.simps [simp del]

section \<open>Path resolution\<close>

lemma find_char_takeWhile:
  "find_char c xs i = (if c \<in> set xs then Some (i + length (takeWhile (\<lambda>x. x \<noteq> c) xs)) else None)"
  by (induction xs arbitrary: i) auto

lemma drop_takeWhile_hd: "c \<in> set xs \<Longrightarrow> \<exists>r. drop (length (takeWhile (\<lambda>x. x \<noteq> c) xs)) xs = c # r"
  by (induction xs) auto

lemma takeWhile_length_take: "take (length (takeWhile P xs)) xs = takeWhile P xs"
  by (induction xs) auto

definition first_part :: "u8 list \<Rightarrow> u8 list" where
  "first_part xs = takeWhile (\<lambda>x. x \<noteq> SLASH) xs"

lemma first_part:
  shows "find_char SLASH xs 0 = (if SLASH \<in> set xs then Some (length (first_part xs)) else None)"
    and "take (length (first_part xs)) xs = first_part xs"
    and "SLASH \<in> set xs \<Longrightarrow> \<exists>r. drop (length (first_part xs)) xs = SLASH # r"
    and "SLASH \<notin> set xs \<Longrightarrow> first_part xs = xs"
    and "SLASH \<notin> set (first_part xs)"
    and "SLASH \<notin> set ys \<Longrightarrow> first_part (ys @ SLASH # r) = ys"
proof -
  show "find_char SLASH xs 0 = (if SLASH \<in> set xs then Some (length (first_part xs)) else None)"
    by (simp add: first_part_def find_char_takeWhile)
  show "take (length (first_part xs)) xs = first_part xs"
    unfolding first_part_def by (rule takeWhile_length_take)
  show "SLASH \<in> set xs \<Longrightarrow> \<exists>r. drop (length (first_part xs)) xs = SLASH # r"
    unfolding first_part_def by (rule drop_takeWhile_hd)
  show "SLASH \<notin> set xs \<Longrightarrow> first_part xs = xs"
    unfolding first_part_def takeWhile_eq_all_conv by blast
  show "SLASH \<notin> set (first_part xs)"
    unfolding first_part_def by (blast dest: set_takeWhileD)
  assume "SLASH \<notin> set ys"
  then have "\<And>x. x \<in> set ys \<Longrightarrow> x \<noteq> SLASH" by blast
  then show "first_part (ys @ SLASH # r) = ys"
    unfolding first_part_def by (subst takeWhile_append2) simp_all
qed

lemma Unpack_Path_Nil: "Unpack_Path [] = Some None"
  by (simp add: Unpack_Path_def)

lemma Unpack_Path_Cons:
  "Unpack_Path (c # xs) = Some (if c = SLASH \<and> first_part xs \<noteq> [] \<and> length (first_part xs) \<le> 16
     then Some (first_part xs, if SLASH \<in> set xs then drop (length (first_part xs)) xs else [SLASH]) else None)"
proof (cases "SLASH \<in> set xs")
  case True
  then obtain r where "drop (length (first_part xs)) xs = SLASH # r" using first_part(3) by blast
  with True show ?thesis
    unfolding Unpack_Path_def list.case first_part(1)
    by (simp add: first_part(2) MAX_PREFIX_LEN_def Let_def)
next
  case False
  then show ?thesis
    unfolding Unpack_Path_def list.case first_part(1)
    by (simp add: first_part(4) MAX_PREFIX_LEN_def Let_def)
qed

text \<open>
  \<open>Unpack_Path\<close> never fails its assertion, and it splits exactly the paths
  \<open>/p\<close> and \<open>/p/rest\<close> whose first component \<open>p\<close> has one to sixteen bytes, into \<open>p\<close> and
  \<open>/\<close> or \<open>/rest\<close>; putting the two together again gives the path.
\<close>

theorem Unpack_Path_splits:
  "Unpack_Path path \<noteq> None
    \<and> (Unpack_Path path = Some (Some (p, q)) \<longleftrightarrow>
        p \<noteq> [] \<and> length p \<le> 16 \<and> SLASH \<notin> set p
        \<and> (path = SLASH # p \<and> q = [SLASH] \<or> path = SLASH # p @ q \<and> take 1 q = [SLASH]))"
proof -
  have d: "take 1 q = [SLASH] \<longleftrightarrow> (\<exists>r. q = SLASH # r)" by (cases q) auto
  have "Unpack_Path (SLASH # xs) = Some (Some (p, q)) \<longleftrightarrow>
      p \<noteq> [] \<and> length p \<le> 16 \<and> SLASH \<notin> set p
      \<and> (xs = p \<and> q = [SLASH] \<or> xs = p @ q \<and> (\<exists>r. q = SLASH # r))" for xs
  proof (cases "SLASH \<in> set xs")
    case True
    then obtain r where r: "drop (length (first_part xs)) xs = SLASH # r" using first_part(3) by blast
    have x: "xs = first_part xs @ SLASH # r" using r first_part(2) by (metis append_take_drop_id)
    have "p = first_part xs \<and> q = SLASH # r" if "SLASH \<notin> set p" "xs = p @ SLASH # t" "q = SLASH # t" for t
    proof -
      have "first_part xs = p" unfolding that(2) using that(1) by (rule first_part(6))
      with that r show ?thesis by auto
    qed
    moreover have "xs \<noteq> p" if "SLASH \<notin> set p" using True that by blast
    ultimately show ?thesis using True r x first_part(5) [of xs] by (auto simp: Unpack_Path_Cons)
  next
    case False
    then show ?thesis by (auto simp: Unpack_Path_Cons first_part(4))
  qed
  moreover have "Unpack_Path path \<noteq> Some (Some (p, q))" if "\<nexists>xs. path = SLASH # xs"
    using that by (cases path) (auto simp: Unpack_Path_Nil Unpack_Path_Cons)
  ultimately have "Unpack_Path path = Some (Some (p, q)) \<longleftrightarrow>
        p \<noteq> [] \<and> length p \<le> 16 \<and> SLASH \<notin> set p
        \<and> (path = SLASH # p \<and> q = [SLASH] \<or> path = SLASH # p @ q \<and> (\<exists>r. q = SLASH # r))"
    by (cases "\<exists>xs. path = SLASH # xs") (elim exE, simp, blast)
  moreover have "Unpack_Path path \<noteq> None"
    by (cases path) (simp_all add: Unpack_Path_Nil Unpack_Path_Cons)
  ultimately show ?thesis unfolding d by blast
qed

lemma lookup_mount_Some:
  "lookup_mount p ms i = Some j \<longleftrightarrow>
     i \<le> j \<and> j - i < length ms \<and> pathPrefix (ms ! (j - i)) = p \<and> (\<forall>k < j - i. pathPrefix (ms ! k) \<noteq> p)"
proof (induction ms arbitrary: i)
  case (Cons m ms)
  show ?case
  proof (cases "pathPrefix m = p")
    case True
    then show ?thesis by (cases "j = i") (auto intro!: exI [of _ 0])
  next
    case False
    have "(Suc i \<le> j \<and> j - Suc i < length ms \<and> pathPrefix (ms ! (j - Suc i)) = p \<and> (\<forall>k < j - Suc i. pathPrefix (ms ! k) \<noteq> p))
        \<longleftrightarrow> i \<le> j \<and> j - i < length (m # ms) \<and> pathPrefix ((m # ms) ! (j - i)) = p
          \<and> (\<forall>k < j - i. pathPrefix ((m # ms) ! k) \<noteq> p)"
    proof (cases "Suc i \<le> j")
      case True
      then obtain d where d: "j = Suc i + d" using le_Suc_ex by blast
      have "(\<forall>k < Suc d. pathPrefix ((m # ms) ! k) \<noteq> p) \<longleftrightarrow> (\<forall>k < d. pathPrefix (ms ! k) \<noteq> p)"
        using False by (auto simp: less_Suc_eq_0_disj)
      then show ?thesis by (simp add: d)
    next
      case no: False
      then show ?thesis using False by (cases "j = i") auto
    qed
    with False Cons show ?thesis by auto
  qed
qed simp

lemma lookup_mount_prefixes:
  "map pathPrefix ms = map pathPrefix ns \<Longrightarrow> lookup_mount p ms i = lookup_mount p ns i"
  by (induction ms arbitrary: ns i) (auto simp: Cons_eq_map_conv)

lemma lookup_mount_append:
  "lookup_mount p (ms @ ns) i = (case lookup_mount p ms i of Some j \<Rightarrow> Some j | None \<Rightarrow> lookup_mount p ns (i + length ms))"
  by (induction ms arbitrary: i) (auto split: option.split)

end
