(* ===== verification/Bitset.thy ===== *)
theory Bitset
  imports Prelude
begin

text \<open>
  The bit sets of \<open>src/geekos/bitset.c\<close>: a block of bytes, bit \<open>n\<close> being bit \<open>n mod 8\<close> of
  byte \<open>n div 8\<close>.  A bit position past the end of the block is an access outside the
  object, hence \<open>None\<close>.  \<open>Create_Bit_Set\<close> is given whether \<open>Malloc\<close> succeeds and returns
  \<open>None\<close> for the null pointer.
\<close>

type_synonym bit_set = "u8 list"

definition FIND_NUM_BYTES :: "u32 \<Rightarrow> u32" where
  "FIND_NUM_BYTES totalBits = totalBits div 8 + (if totalBits mod 8 \<noteq> 0 then 1 else 0)"

definition Create_Bit_Set :: "bool \<Rightarrow> u32 \<Rightarrow> bit_set option" where
  "Create_Bit_Set malloc_ok totalBits =
     (if malloc_ok then Some (replicate (unat (FIND_NUM_BYTES totalBits)) 0) else None)"

definition Set_Bit :: "bit_set \<Rightarrow> u32 \<Rightarrow> bit_set option" where
  "Set_Bit bitSet bitPos =
     (let offset = unat bitPos div 8; b = unat bitPos mod 8
      in if offset < length bitSet
         then Some (bitSet[offset := bitSet ! offset OR push_bit b 1]) else None)"

definition Clear_Bit :: "bit_set \<Rightarrow> u32 \<Rightarrow> bit_set option" where
  "Clear_Bit bitSet bitPos =
     (let offset = unat bitPos div 8; b = unat bitPos mod 8
      in if offset < length bitSet
         then Some (bitSet[offset := bitSet ! offset AND NOT (push_bit b 1)]) else None)"

definition Is_Bit_Set :: "bit_set \<Rightarrow> u32 \<Rightarrow> bool option" where
  "Is_Bit_Set bitSet bitPos =
     (let offset = unat bitPos div 8; b = unat bitPos mod 8
      in if offset < length bitSet
         then Some (bitSet ! offset AND push_bit b 1 \<noteq> 0) else None)"

text \<open>The inner loop of \<open>Find_First_Free_Bit\<close> on one byte; \<open>None\<close> is its \<open>KASSERT(false)\<close>.\<close>

function free_bit_in_byte :: "u8 \<Rightarrow> nat \<Rightarrow> nat option" where
  "free_bit_in_byte c k =
     (if k < 8 then (if c AND push_bit k 1 = 0 then Some k else free_bit_in_byte c (Suc k))
      else None)"
  by pat_completeness auto
termination
  by (relation "measure (\<lambda>(c, k). 8 - k)") auto

function find_free_from :: "bit_set \<Rightarrow> nat \<Rightarrow> nat \<Rightarrow> int option" where
  "find_free_from bits numBytes offset =
     (if offset < numBytes then
        (if offset < length bits then
           (if bits ! offset \<noteq> 0xff then do {
              k \<leftarrow> free_bit_in_byte (bits ! offset) 0;
              Some (int (offset * 8 + k))
            } else find_free_from bits numBytes (Suc offset))
         else None)
      else Some (-1))"
  by pat_completeness auto
termination
  by (relation "measure (\<lambda>(bits, numBytes, offset). numBytes - offset)") auto

definition Find_First_Free_Bit :: "bit_set \<Rightarrow> u32 \<Rightarrow> int option" where
  "Find_First_Free_Bit bitSet totalBits = find_free_from bitSet (unat (FIND_NUM_BYTES totalBits)) 0"

text \<open>
  The inner loop of \<open>Find_First_N_Free\<close>: the value of \<open>j\<close> after it.  The sums \<open>i + j\<close> are
  computed on 32 bits.
\<close>

function run_end :: "bit_set \<Rightarrow> u32 \<Rightarrow> u32 \<Rightarrow> u32 \<Rightarrow> u32 option" where
  "run_end bitSet i runLength j =
     (if j < runLength then do {
        b \<leftarrow> Is_Bit_Set bitSet (i + j);
        if b then Some j else run_end bitSet i runLength (j + 1)
      } else Some j)"
  by pat_completeness auto
termination
  by (relation "measure (\<lambda>(bitSet, i, runLength, j). unat (runLength - j))")
    (auto simp: unat_diff_Suc_less)

function find_run :: "bit_set \<Rightarrow> u32 \<Rightarrow> u32 \<Rightarrow> u32 \<Rightarrow> int option" where
  "find_run bitSet runLength limit i =
     (if i < limit then do {
        b \<leftarrow> Is_Bit_Set bitSet i;
        if \<not> b then do {
          j \<leftarrow> run_end bitSet i runLength 1;
          if j = runLength then Some (sint i) else find_run bitSet runLength limit (i + 1)
        } else find_run bitSet runLength limit (i + 1)
      } else Some (-1))"
  by pat_completeness auto
termination
  by (relation "measure (\<lambda>(bitSet, runLength, limit, i). unat (limit - i))")
    (auto simp: unat_diff_Suc_less)

definition Find_First_N_Free :: "bit_set \<Rightarrow> u32 \<Rightarrow> u32 \<Rightarrow> int option" where
  "Find_First_N_Free bitSet runLength totalBits =
     find_run bitSet runLength (totalBits - runLength) 0"

declare free_bit_in_byte.simps [simp del] find_free_from.simps [simp del]
  run_end.simps [simp del] find_run.simps [simp del]

section \<open>The set a bit set stands for\<close>

definition bit_at :: "bit_set \<Rightarrow> nat \<Rightarrow> bool" where
  "bit_at bs n \<longleftrightarrow> n < 8 * length bs \<and> bit (bs ! (n div 8)) (n mod 8)"

lemma mask_bit: "(c AND 2 ^ k = 0) = (\<not> bit (c :: u8) k)"
  by (rule and_exp_eq_0_iff_not_bit)

lemma same_position: "n div 8 = k div 8 \<Longrightarrow> n mod 8 = k mod 8 \<Longrightarrow> n = (k :: nat)"
  by (metis div_mult_mod_eq)

lemma byte_bound: "n < 8 * l \<longleftrightarrow> n div 8 < (l :: nat)"
  by (auto simp: less_mult_imp_div_less mult.commute div_less_iff_less_mult)

lemma Is_Bit_Set_bit_at:
  "unat p < 8 * length bs \<Longrightarrow> Is_Bit_Set bs p = Some (bit_at bs (unat p))"
  by (auto simp: Is_Bit_Set_def bit_at_def mask_bit byte_bound Let_def)

lemma Set_Bit_bit_at:
  assumes "unat p < 8 * length bs"
  shows "\<exists>bs'. Set_Bit bs p = Some bs' \<and> length bs' = length bs
    \<and> (\<forall>n. bit_at bs' n \<longleftrightarrow> n = unat p \<or> bit_at bs n)"
  using assms same_position [of _ "unat p"]
  by (auto simp: Set_Bit_def bit_at_def byte_bound Let_def nth_list_update
      bit_or_iff bit_exp_iff)

lemma Clear_Bit_bit_at:
  assumes "unat p < 8 * length bs"
  shows "\<exists>bs'. Clear_Bit bs p = Some bs' \<and> length bs' = length bs
    \<and> (\<forall>n. bit_at bs' n \<longleftrightarrow> n \<noteq> unat p \<and> bit_at bs n)"
  using assms same_position [of _ "unat p"]
  by (auto simp: Clear_Bit_def bit_at_def byte_bound Let_def nth_list_update
      bit_and_iff bit_not_iff bit_exp_iff)

lemma FIND_NUM_BYTES_enough: "unat n \<le> 8 * unat (FIND_NUM_BYTES n)"
proof -
  have "unat n div 8 + 1 < 4294967296" using unat_less_2_32 [of n] by simp
  moreover have "n mod 8 \<noteq> 0 \<longleftrightarrow> unat n mod 8 \<noteq> 0"
    by (auto simp: unat_eq_zero [symmetric] unat_mod)
  ultimately show ?thesis
    by (auto simp: FIND_NUM_BYTES_def unat_div unat_plus_if')
qed

section \<open>Searching\<close>

lemma free_bit_in_byte_spec:
  "k \<le> 8 \<Longrightarrow> free_bit_in_byte c k =
     (if \<forall>j. k \<le> j \<and> j < 8 \<longrightarrow> bit c j then None
      else Some (LEAST j. k \<le> j \<and> \<not> bit c j))"
proof (induction c k rule: free_bit_in_byte.induct)
  case (1 c k)
  show ?case
  proof (cases "k < 8")
    case False
    then show ?thesis by (subst free_bit_in_byte.simps) auto
  next
    case k: True
    show ?thesis
    proof (cases "bit c k")
      case False
      then have "(LEAST j. k \<le> j \<and> \<not> bit c j) = k" by (intro Least_equality) auto
      with False k show ?thesis by (subst free_bit_in_byte.simps) (auto simp: mask_bit)
    next
      case True
      then have "(\<lambda>j. k \<le> j \<and> \<not> bit c j) = (\<lambda>j. Suc k \<le> j \<and> \<not> bit c j)"
        using le_eq_less_or_eq by auto
      moreover have "(\<forall>j. k \<le> j \<and> j < 8 \<longrightarrow> bit c j) = (\<forall>j. Suc k \<le> j \<and> j < 8 \<longrightarrow> bit c j)"
        using True by (metis Suc_leD Suc_leI le_eq_less_or_eq)
      moreover have "free_bit_in_byte c k = free_bit_in_byte c (Suc k)"
        using k True by (subst free_bit_in_byte.simps) (simp add: mask_bit)
      ultimately show ?thesis using "1.IH" k True by (simp add: mask_bit)
    qed
  qed
qed

lemma full_byte: "(c :: u8) = 0xff \<longleftrightarrow> (\<forall>j < 8. bit c j)"
proof -
  have "(0xff :: u8) = mask 8" by (simp add: mask_eq_exp_minus_1)
  then show ?thesis by (auto simp: bit_eq_iff bit_mask_iff)
qed

lemma free_bit_in_byte_0:
  assumes "c \<noteq> 0xff"
  shows "\<exists>k < 8. free_bit_in_byte c 0 = Some k \<and> \<not> bit c k \<and> (\<forall>j < k. bit c j)"
proof -
  from assms obtain j where j: "j < 8" "\<not> bit c j" by (auto simp: full_byte)
  let ?k = "LEAST j. \<not> bit c j"
  have "?k \<le> j" using j by (intro Least_le)
  then have "?k < 8" using j(1) by (rule le_less_trans)
  moreover have "\<not> bit c ?k" using j(2) by (rule LeastI)
  moreover have "\<forall>i < ?k. bit c i" using not_less_Least by blast
  moreover have "free_bit_in_byte c 0 = Some ?k"
    using j by (subst free_bit_in_byte_spec) (simp_all del: not_ex, blast)
  ultimately show ?thesis by blast
qed

definition first_free :: "bit_set \<Rightarrow> nat \<Rightarrow> int \<Rightarrow> bool" where
  "first_free bs n r \<longleftrightarrow>
     (if \<forall>i < n. bit_at bs i then r = -1
      else \<exists>i < n. r = int i \<and> \<not> bit_at bs i \<and> (\<forall>j < i. bit_at bs j))"

lemma find_free_from_spec:
  assumes "offset \<le> numBytes" and "numBytes \<le> length bs" and "\<forall>i < 8 * offset. bit_at bs i"
  shows "\<exists>r. find_free_from bs numBytes offset = Some r \<and> first_free bs (8 * numBytes) r"
  using assms
proof (induction bs numBytes offset rule: find_free_from.induct)
  case (1 bs numBytes offset)
  consider "offset = numBytes" | "offset < numBytes" "bs ! offset = 0xff"
    | "offset < numBytes" "bs ! offset \<noteq> 0xff"
    using "1.prems" by linarith
  then show ?case
  proof cases
    case 1
    with "1.prems" show ?thesis by (subst find_free_from.simps) (auto simp: first_free_def)
  next
    case 2
    have "bit_at bs i" if "i < 8 * Suc offset" for i
    proof (cases "i < 8 * offset")
      case False
      then have "i div 8 = offset" using that by auto
      moreover have "i mod 8 < 8" by simp
      ultimately show ?thesis
        using 2 "1.prems" full_byte [of "bs ! offset"] by (auto simp: bit_at_def byte_bound)
    qed (use "1.prems" in auto)
    then have "\<exists>r. find_free_from bs numBytes (Suc offset) = Some r \<and> first_free bs (8 * numBytes) r"
      using 2 "1.prems" by (intro "1.IH") auto
    moreover have "find_free_from bs numBytes offset = find_free_from bs numBytes (Suc offset)"
      using 2 "1.prems" by (subst find_free_from.simps) auto
    ultimately show ?thesis by simp
  next
    case 3
    obtain k where k: "k < 8" "free_bit_in_byte (bs ! offset) 0 = Some k"
      "\<not> bit (bs ! offset) k" "\<forall>j < k. bit (bs ! offset) j"
      using free_bit_in_byte_0 [OF 3(2)] by blast
    let ?i = "offset * 8 + k"
    have "\<not> bit_at bs ?i" using k by (simp add: bit_at_def)
    moreover have "bit_at bs j" if "j < ?i" for j
    proof (cases "j < 8 * offset")
      case False
      then obtain d where "j = 8 * offset + d" using le_Suc_ex by (auto simp: not_less)
      then have "j div 8 = offset" "j mod 8 < k" using that k by auto
      then show ?thesis using 3 "1.prems" k by (auto simp: bit_at_def byte_bound)
    qed (use "1.prems" in auto)
    moreover have "?i < 8 * numBytes" using k 3 by auto
    moreover have "find_free_from bs numBytes offset = Some (int ?i)"
      using 3 k "1.prems" by (subst find_free_from.simps) auto
    ultimately show ?thesis unfolding first_free_def by auto
  qed
qed

text \<open>A run of free bits, and what the inner loop of \<open>Find_First_N_Free\<close> finds of it.\<close>

definition free_run :: "bit_set \<Rightarrow> nat \<Rightarrow> nat \<Rightarrow> bool" where
  "free_run bs i n \<longleftrightarrow> (\<forall>j < n. \<not> bit_at bs (i + j))"

lemma run_end_spec:
  assumes "unat i + unat n \<le> 8 * length bs" and "8 * length bs \<le> 4294967295"
    and "1 \<le> unat j" and "unat j \<le> unat n"
    and "\<forall>k < unat j. \<not> bit_at bs (unat i + k)"
  shows "\<exists>e. run_end bs i n j = Some e \<and> (e = n \<longleftrightarrow> free_run bs (unat i) (unat n))"
  using assms
proof (induction bs i n j rule: run_end.induct)
  case (1 bs i n j)
  show ?case
  proof (cases "j < n")
    case False
    with "1.prems" have "j = n" by (simp add: word_less_nat_alt word_unat_eq_iff)
    with "1.prems" show ?thesis by (subst run_end.simps) (auto simp: free_run_def)
  next
    case True
    have u: "unat (i + j) = unat i + unat j"
      using "1.prems" True by (auto simp: unat_plus_if' word_less_nat_alt)
    then have b: "Is_Bit_Set bs (i + j) = Some (bit_at bs (unat i + unat j))"
      using "1.prems" True by (simp add: Is_Bit_Set_bit_at word_less_nat_alt)
    show ?thesis
    proof (cases "bit_at bs (unat i + unat j)")
      case set: True
      with True show ?thesis
        by (subst run_end.simps) (auto simp: b free_run_def word_less_nat_alt)
    next
      case free: False
      have "\<exists>e. run_end bs i n (j + 1) = Some e \<and> (e = n \<longleftrightarrow> free_run bs (unat i) (unat n))"
        using "1.prems" True free
        by (intro "1.IH" [OF True b]) (auto simp: unat_Suc_less word_less_nat_alt less_Suc_eq)
      then show ?thesis using True b free by (subst run_end.simps) auto
    qed
  qed
qed

definition first_run :: "bit_set \<Rightarrow> nat \<Rightarrow> nat \<Rightarrow> int \<Rightarrow> bool" where
  "first_run bs n limit r \<longleftrightarrow>
     (if \<forall>i < limit. \<not> free_run bs i n then r = -1
      else \<exists>i < limit. r = int i \<and> free_run bs i n \<and> (\<forall>j < i. \<not> free_run bs j n))"

lemma first_run_found:
  "i < limit \<Longrightarrow> free_run bs i n \<Longrightarrow> \<forall>j < i. \<not> free_run bs j n \<Longrightarrow> first_run bs n limit (int i)"
  by (auto simp: first_run_def)

lemma sint_small: "unat (i :: u32) < 2147483648 \<Longrightarrow> sint i = int (unat i)"
proof -
  assume "unat i < 2147483648"
  moreover have u: "uint i = int (unat i)" by simp
  ultimately have "(uint i + 2147483648) mod 4294967296 = uint i + 2147483648"
    unfolding u by (intro mod_pos_pos_trivial) linarith+
  then show ?thesis
    by (simp add: sint_uint signed_take_bit_eq_take_bit_shift take_bit_eq_mod)
qed

lemma find_run_spec:
  assumes "unat limit + unat n \<le> 8 * length bs" and "8 * length bs \<le> 2147483647"
    and "0 < unat n" and "unat i \<le> unat limit"
    and "\<forall>j < unat i. \<not> free_run bs j (unat n)"
  shows "\<exists>r. find_run bs n limit i = Some r \<and> first_run bs (unat n) (unat limit) r"
  using assms
proof (induction bs n limit i rule: find_run.induct)
  case (1 bs n limit i)
  show ?case
  proof (cases "i < limit")
    case False
    with "1.prems" have "unat i = unat limit" by (simp add: word_less_nat_alt)
    with "1.prems" False show ?thesis by (subst find_run.simps) (auto simp: first_run_def)
  next
    case True
    have b: "Is_Bit_Set bs i = Some (bit_at bs (unat i))"
      using "1.prems" True by (simp add: Is_Bit_Set_bit_at word_less_nat_alt)
    have step: "unat (i + 1) \<le> unat limit" "\<forall>j < unat (i + 1). \<not> free_run bs j (unat n)"
      if "\<not> free_run bs (unat i) (unat n)"
      using that "1.prems"(5) True by (simp_all add: unat_Suc_less word_less_nat_alt less_Suc_eq)
    show ?thesis
    proof (cases "bit_at bs (unat i)")
      case set: True
      then have "\<not> free_run bs (unat i) (unat n)"
        using "1.prems"(3) by (auto simp: free_run_def intro!: exI [of _ 0])
      note IH = "1.IH"(2) [OF True b _ "1.prems"(1-3) step [OF this]]
      have "find_run bs n limit i = find_run bs n limit (i + 1)"
        using set True b by (subst find_run.simps) simp
      with IH set show ?thesis by simp
    next
      case free: False
      obtain e where e: "run_end bs i n 1 = Some e" "e = n \<longleftrightarrow> free_run bs (unat i) (unat n)"
        using run_end_spec [of i n bs 1] "1.prems" free True by (auto simp: word_less_nat_alt)
      show ?thesis
      proof (cases "e = n")
        case found: True
        have "sint i = int (unat i)" using "1.prems"(1,2) True by (intro sint_small) (simp add: word_less_nat_alt)
        moreover have "first_run bs (unat n) (unat limit) (int (unat i))"
          by (rule first_run_found)
            (use e(2) found "1.prems"(5) True in \<open>simp_all add: word_less_nat_alt\<close>)
        moreover have "find_run bs n limit i = Some (sint i)"
          using True b free e(1) found by (subst find_run.simps) (simp del: One_nat_def)
        ultimately show ?thesis by simp
      next
        case False
        then have "\<not> free_run bs (unat i) (unat n)" using e by simp
        note IH = "1.IH"(1) [OF True b _ e(1) False "1.prems"(1-3) step [OF this]]
        have "find_run bs n limit i = find_run bs n limit (i + 1)"
          using free True b e(1) False by (subst find_run.simps) simp
        with IH free show ?thesis by simp
      qed
    qed
  qed
qed

section \<open>Properties of bit sets\<close>

text \<open>
  Property C40 (refinement).  A bit set is a set of numbers below eight times its length in
  bytes: \<open>Create_Bit_Set\<close> makes the empty one, large enough for \<open>totalBits\<close>; \<open>Set_Bit\<close>
  inserts a number, \<open>Clear_Bit\<close> deletes one and \<open>Is_Bit_Set\<close> tests membership, and none
  of them changes another member or the size.
\<close>

theorem bit_set_refines_set:
  "(Create_Bit_Set ok n = Some bs \<longrightarrow> unat n \<le> 8 * length bs \<and> (\<forall>k. \<not> bit_at bs k))
   \<and> (unat p < 8 * length bs \<longrightarrow>
        Is_Bit_Set bs p = Some (bit_at bs (unat p))
        \<and> (\<exists>s. Set_Bit bs p = Some s \<and> length s = length bs
              \<and> Collect (bit_at s) = insert (unat p) (Collect (bit_at bs)))
        \<and> (\<exists>s. Clear_Bit bs p = Some s \<and> length s = length bs
              \<and> Collect (bit_at s) = Collect (bit_at bs) - {unat p}))
   \<and> (\<not> unat p < 8 * length bs \<longrightarrow>
        Is_Bit_Set bs p = None \<and> Set_Bit bs p = None \<and> Clear_Bit bs p = None)"
proof (intro conjI impI)
  assume "Create_Bit_Set ok n = Some bs"
  then have bs: "bs = replicate (unat (FIND_NUM_BYTES n)) 0"
    by (auto simp: Create_Bit_Set_def split: if_splits)
  then show "unat n \<le> 8 * length bs" using FIND_NUM_BYTES_enough by simp
  show "\<forall>k. \<not> bit_at bs k" by (auto simp: bs bit_at_def byte_bound)
qed (use Is_Bit_Set_bit_at [of p bs] Set_Bit_bit_at [of p bs] Clear_Bit_bit_at [of p bs] in
     \<open>auto simp: Set_Bit_def Clear_Bit_def Is_Bit_Set_def Let_def byte_bound\<close>)

lemma replicate_2: "replicate 2 x = [x, x]"
  by (simp add: numeral_2_eq_2)

lemma bit_set_refines_set_witness:
  "Create_Bit_Set True 12 = Some [0, 0] \<and> Is_Bit_Set [0, 4] 10 = Some True
   \<and> (\<exists>s. Set_Bit [0, 4] 10 = Some s \<and> length s = length [0, 4 :: u8]
        \<and> Collect (bit_at s) = insert 10 (Collect (bit_at [0, 4])))"
  using bit_set_refines_set [of True 12 "[0, 0]" 10] bit_set_refines_set [of True 12 "[0, 4]" 10]
  by (simp add: Create_Bit_Set_def FIND_NUM_BYTES_def Is_Bit_Set_def replicate_2)

text \<open>
  \<open>Find_First_Free_Bit\<close> returns the least position whose bit is clear among
  those of the bytes that hold \<open>totalBits\<close> bits, and -1 when all of them are set; its
  \<open>KASSERT(false)\<close> is never reached.  The position can be \<open>totalBits\<close> or larger when the
  last byte is not full.
\<close>

theorem Find_First_Free_Bit_first:
  assumes "unat (FIND_NUM_BYTES totalBits) \<le> length bs"
  shows "\<exists>r. Find_First_Free_Bit bs totalBits = Some r
    \<and> first_free bs (8 * unat (FIND_NUM_BYTES totalBits)) r"
  unfolding Find_First_Free_Bit_def by (rule find_free_from_spec) (use assms in auto)

lemma Find_First_Free_Bit_first_witness:
  "\<exists>r. Find_First_Free_Bit [0xff, 0x07] 11 = Some r
    \<and> first_free [0xff, 0x07] (8 * unat (FIND_NUM_BYTES 11)) r"
  by (rule Find_First_Free_Bit_first) (simp add: FIND_NUM_BYTES_def)

text \<open>The free bit found there is bit 11, which is not one of the 11 bits of the set.\<close>

lemma Find_First_Free_Bit_past_end: "Find_First_Free_Bit [0xff, 0x07] 11 = Some 11"
  by (simp add: Find_First_Free_Bit_def FIND_NUM_BYTES_def find_free_from.simps
      free_bit_in_byte.simps)

text \<open>
  \<open>Find_First_N_Free\<close> returns the least start, below \<open>totalBits - runLength\<close>,
  of a run of \<open>runLength\<close> clear bits, and -1 when there is none.  Every bit of the run lies
  inside the set; the run that ends with the last bit is never found, since its start is
  not below the bound.
\<close>

theorem Find_First_N_Free_first:
  assumes "unat totalBits \<le> 8 * length bs" and "8 * length bs \<le> 2147483647"
    and "0 < runLength" and "runLength \<le> totalBits"
  shows "\<exists>r. Find_First_N_Free bs runLength totalBits = Some r
    \<and> first_run bs (unat runLength) (unat totalBits - unat runLength) r"
proof -
  have d: "unat (totalBits - runLength) = unat totalBits - unat runLength"
    using assms(4) by (rule unat_sub)
  have "\<exists>r. find_run bs runLength (totalBits - runLength) 0 = Some r
    \<and> first_run bs (unat runLength) (unat (totalBits - runLength)) r"
    by (rule find_run_spec) (use assms d in \<open>auto simp: word_le_nat_alt unat_gt_0\<close>)
  then show ?thesis by (simp add: Find_First_N_Free_def d)
qed

lemma Find_First_N_Free_first_witness:
  "\<exists>r. Find_First_N_Free [0x0b, 0xff] 3 16 = Some r
    \<and> first_run [0x0b, 0xff] (unat (3 :: u32)) (unat (16 :: u32) - unat (3 :: u32)) r"
  by (rule Find_First_N_Free_first) auto

text \<open>A set whose last two bits are free, and only these: the run of two is missed.\<close>

lemma Find_First_N_Free_misses_last: "Find_First_N_Free [0x3f] 2 8 = Some (-1)"
  by (simp add: Find_First_N_Free_def find_run.simps run_end.simps Is_Bit_Set_def)

end
