(* ===== verification/Pfat.thy ===== *)
theory Pfat
  imports Vfs Bitset Elf
begin

text \<open>
  The PFAT file system, \<open>src/geekos/pfat.c\<close>: mounting, look-up, and reading through the cache
  of each open file.  Pointers to directory entries and to the \<open>PFAT_File\<close> objects of an
  instance are positions in the instance's lists; \<open>Freed\<close> is a pointer to an object that has
  been freed.  On-disk structures are decoded from the bytes of the sectors with the layout the
  compiler gives them: 28 bytes for a directory entry, little-endian integers, bit fields from
  the lowest bit of their byte.  Lock and unlock pairs are left out: every function is one step.
\<close>

section \<open>On-disk structures\<close>

record boot_sector =
  magic :: int
  fileAllocationOffset :: int
  fileAllocationLength :: int
  rootDirectoryOffset :: int
  rootDirectoryCount :: int
  setupStart :: int
  setupSize :: int
  kernelStart :: int
  kernelSize :: int

text \<open>
  \<open>de_bytes\<close> are all the bytes of an entry; the name is an array of twelve of them, which need
  not contain a zero byte.
\<close>

record directory_entry =
  de_bytes :: "u8 list"
  readOnly :: bool
  hidden :: bool
  systemFile :: bool
  volumeLabel :: bool
  directory :: bool
  de_time :: int
  de_date :: int
  firstBlock :: int
  fileSize :: int

definition fileName :: "directory_entry \<Rightarrow> u8 list" where
  "fileName e = take 12 (de_bytes e)"

definition FAT_ENTRY_FREE :: u32 where "FAT_ENTRY_FREE = 0"
definition FAT_ENTRY_EOF :: u32 where "FAT_ENTRY_EOF = 1"
definition PFAT_MAGIC :: int where "PFAT_MAGIC = 0x78320000"
definition PFAT_BOOT_RECORD_OFFSET :: nat where "PFAT_BOOT_RECORD_OFFSET = 482"
definition DIR_ENTRY_SIZE :: nat where "DIR_ENTRY_SIZE = 28"

definition rd_int :: "u8 list \<Rightarrow> nat \<Rightarrow> int option" where
  "rd_int f i = map_option sint (rd32 f i)"

definition rd_short :: "u8 list \<Rightarrow> nat \<Rightarrow> int option" where
  "rd_short f i = map_option sint (rd16 f i)"

definition decode_boot_sector :: "u8 list \<Rightarrow> boot_sector option" where
  "decode_boot_sector f = do {
     a \<leftarrow> rd_int f 0; b \<leftarrow> rd_int f 4; c \<leftarrow> rd_int f 8; d \<leftarrow> rd_int f 12; e \<leftarrow> rd_int f 16;
     ss \<leftarrow> rd_short f 20; sz \<leftarrow> rd_short f 22; ks \<leftarrow> rd_short f 24; kz \<leftarrow> rd_short f 26;
     Some \<lparr>magic = a, fileAllocationOffset = b, fileAllocationLength = c, rootDirectoryOffset = d,
       rootDirectoryCount = e, setupStart = ss, setupSize = sz, kernelStart = ks, kernelSize = kz\<rparr>
   }"

definition decode_entry :: "u8 list \<Rightarrow> directory_entry option" where
  "decode_entry f = do {
     t \<leftarrow> rd_short f 14; d \<leftarrow> rd_short f 16; b \<leftarrow> rd_int f 20; z \<leftarrow> rd_int f 24;
     Some \<lparr>de_bytes = f, readOnly = bit (f ! 12) 0, hidden = bit (f ! 12) 1,
       systemFile = bit (f ! 12) 2, volumeLabel = bit (f ! 12) 3, directory = bit (f ! 12) 4,
       de_time = t, de_date = d, firstBlock = b, fileSize = z\<rparr>
   }"

fun decode_list :: "(u8 list \<Rightarrow> 'a option) \<Rightarrow> nat \<Rightarrow> nat \<Rightarrow> u8 list \<Rightarrow> 'a list option" where
  "decode_list d k 0 f = Some []"
| "decode_list d k (Suc n) f = do { x \<leftarrow> d (take k f); xs \<leftarrow> decode_list d k n (drop k f); Some (x # xs) }"

section \<open>State\<close>

datatype entry_ref = Root_Entry | Dir_Entry nat

datatype pfat_ops = PfatFilesystemOps | PfatMountPointOps | PfatFileOps | PfatDirOps

datatype pfat_data = PfatFile nat | Freed | NoData

record pfat_file =
  pf_entry :: entry_ref
  numBlocks :: u32
  fileDataCache :: "u8 list"
  validBlockSet :: bit_set

record pfat_instance =
  fsinfo :: boot_sector
  fat :: "int list"
  rootDir :: "directory_entry list"
  rootDirEntry :: directory_entry
  fileList :: "pfat_file list"

type_synonym pfat_mount = "(pfat_ops, pfat_instance) mount_point"
type_synonym pfat_open_file = "(pfat_ops, pfat_data) vfs_file"

definition entry_of :: "pfat_instance \<Rightarrow> entry_ref \<Rightarrow> directory_entry option" where
  "entry_of inst e = (case e of Root_Entry \<Rightarrow> Some (rootDirEntry inst)
     | Dir_Entry i \<Rightarrow> if i < length (rootDir inst) then Some (rootDir inst ! i) else None)"

text \<open>The \<open>PFAT_File\<close> behind an open file.\<close>

definition pfat_file_of :: "pfat_instance \<Rightarrow> pfat_data \<Rightarrow> (nat \<times> pfat_file) option" where
  "pfat_file_of inst d = (case d of
       PfatFile i \<Rightarrow> if i < length (fileList inst) then Some (i, fileList inst ! i) else None
     | _ \<Rightarrow> None)"

section \<open>File operations\<close>

definition Copy_Stat :: "directory_entry \<Rightarrow> vfs_file_stat" where
  "Copy_Stat e =
     \<lparr>st_size = fileSize e, st_isDirectory = directory e, st_isSetuid = False,
      st_acls = (0, if readOnly e then O_READ else O_READ OR O_WRITE) # replicate (VFS_MAX_ACL_ENTRIES - 1) (0, 0)\<rparr>"

definition PFAT_FStat :: "(pfat_ops, pfat_data, pfat_instance, vfs_file_stat option) file_op" where
  "PFAT_FStat file m w = do {
     inst \<leftarrow> mp_fsData m;
     (_, pf) \<leftarrow> pfat_file_of inst (fsData file);
     e \<leftarrow> entry_of inst (pf_entry pf);
     Some (0, Some (Copy_Stat e), file, m, w)
   }"

text \<open>Block \<open>i\<close> of the file is read from device block \<open>curBlock\<close> unless it is in the cache.\<close>

definition fetch_block ::
  "nat option \<Rightarrow> nat \<Rightarrow> u32 \<Rightarrow> pfat_file \<Rightarrow> io_world \<Rightarrow> (int \<times> pfat_file \<times> io_world) option" where
  "fetch_block dev i curBlock pf w = do {
     valid \<leftarrow> Is_Bit_Set (validBlockSet pf) (word_of_nat i);
     (if valid then Some (0, pf, w)
      else if i * 512 + 512 \<le> length (fileDataCache pf) then do {
        d \<leftarrow> dev;
        (rc, buf, w) \<leftarrow> Block_Read d (sint curBlock) (take 512 (drop (i * 512) (fileDataCache pf))) w;
        cache \<leftarrow> store_at (i * 512) buf (fileDataCache pf);
        let pf = pf\<lparr>fileDataCache := cache\<rparr>;
        (if rc = 0 then do {
           bs \<leftarrow> Set_Bit (validBlockSet pf) (word_of_nat i);
           Some (0, pf\<lparr>validBlockSet := bs\<rparr>, w)
         } else Some (rc, pf, w))
      } else None)
   }"

function read_blocks ::
  "int list \<Rightarrow> nat option \<Rightarrow> nat \<Rightarrow> nat \<Rightarrow> nat \<Rightarrow> u32 \<Rightarrow> pfat_file \<Rightarrow> io_world
   \<Rightarrow> (int \<times> pfat_file \<times> io_world) option" where
  "read_blocks ft dev startBlock endBlock i curBlock pf w =
     (if i < endBlock then
        (if curBlock = FAT_ENTRY_FREE \<or> curBlock = FAT_ENTRY_EOF then Some (EIO, pf, w)
         else do {
           (rc, pf, w) \<leftarrow> (if i \<ge> startBlock then fetch_block dev i curBlock pf w else Some (0, pf, w));
           (if rc \<noteq> 0 then Some (rc, pf, w)
            else if unat curBlock < length ft
            then read_blocks ft dev startBlock endBlock (Suc i) (word_of_int (ft ! unat curBlock)) pf w
            else None)
         })
      else Some (0, pf, w))"
  by pat_completeness auto
termination
  by (relation "measure (\<lambda>(ft, dev, sb, eb, i, c, pf, w). eb - i)") auto

definition PFAT_Read :: "u32 \<Rightarrow> (pfat_ops, pfat_data, pfat_instance, u8 list) file_op" where
  "PFAT_Read numBytes file m w = do {
     inst \<leftarrow> mp_fsData m;
     let start = filePos file;
     let ende = filePos file + numBytes;
     (if numBytes > 0x7fffffff then Some (EINVALID, [], file, m, w)
      else if start \<ge> endPos file \<or> ende > endPos file \<or> ende < start then Some (EINVALID, [], file, m, w)
      else do {
        (j, pf) \<leftarrow> pfat_file_of inst (fsData file);
        let startBlock = unat ((start mod SECTOR_SIZE) div SECTOR_SIZE);
        let endBlock = unat (Round_Up_To_Block ende div SECTOR_SIZE);
        e \<leftarrow> entry_of inst (pf_entry pf);
        (rc, pf, w) \<leftarrow> read_blocks (fat inst) (mp_dev m) startBlock endBlock 0 (word_of_int (firstBlock e)) pf w;
        let m = m\<lparr>mp_fsData := Some (inst\<lparr>fileList := (fileList inst)[j := pf]\<rparr>)\<rparr>;
        (if rc \<noteq> 0 then Some (rc, [], file, m, w)
         else if unat start + unat numBytes \<le> length (fileDataCache pf)
         then Some (int (unat numBytes), take (unat numBytes) (drop (unat start) (fileDataCache pf)), file, m, w)
         else None)
      })
   }"

definition PFAT_Write :: "u8 list \<Rightarrow> (pfat_ops, pfat_data, pfat_instance, unit) file_op" where
  "PFAT_Write buf file m w = Some (EACCESS, (), file, m, w)"

definition PFAT_Seek :: "u32 \<Rightarrow> (pfat_ops, pfat_data, pfat_instance, unit) file_op" where
  "PFAT_Seek pos file m w =
     (if pos \<ge> endPos file then Some (EINVALID, (), file, m, w)
      else Some (0, (), file\<lparr>filePos := pos\<rparr>, m, w))"

definition PFAT_Close :: "(pfat_ops, pfat_data, pfat_instance, unit) file_op" where
  "PFAT_Close file m w = Some (0, (), file, m, w)"

section \<open>Directory operations\<close>

definition PFAT_FStat_Dir :: "(pfat_ops, pfat_data, pfat_instance, vfs_file_stat option) file_op" where
  "PFAT_FStat_Dir dir m w = do {
     inst \<leftarrow> mp_fsData m;
     Some (0, Some (Copy_Stat (rootDirEntry inst)), dir, m, w)
   }"

definition PFAT_Close_Dir :: "(pfat_ops, pfat_data, pfat_instance, unit) file_op" where
  "PFAT_Close_Dir dir m w = Some (0, (), dir, m, w)"

text \<open>\<open>strncpy\<close> copies up to the first zero byte; the byte after the array is set to zero.\<close>

definition PFAT_Read_Entry :: "(pfat_ops, pfat_data, pfat_instance, vfs_dir_entry option) file_op" where
  "PFAT_Read_Entry dir m w = do {
     inst \<leftarrow> mp_fsData m;
     (if filePos dir \<ge> endPos dir then Some (VFS_NO_MORE_DIR_ENTRIES, None, dir, m, w)
      else do {
        e \<leftarrow> entry_of inst (Dir_Entry (unat (filePos dir)));
        Some (0, Some \<lparr>de_name = takeWhile (\<lambda>c. c \<noteq> 0) (fileName e), de_stats = Copy_Stat e\<rparr>,
          dir\<lparr>filePos := filePos dir + 1\<rparr>, m, w)
      })
   }"

section \<open>Look-up and opening\<close>

text \<open>
  \<open>strcmp\<close> of the name in a directory entry with a path.  A name that fills its array is
  compared together with the bytes that follow it, first that of the attributes.
\<close>

definition name_matches :: "directory_entry \<Rightarrow> u8 list \<Rightarrow> bool option" where
  "name_matches e path =
     (if 0 \<in> set (de_bytes e) then Some (takeWhile (\<lambda>c. c \<noteq> 0) (de_bytes e) = path)
      else if take (length (de_bytes e)) path = de_bytes e then None
      else Some False)"

function lookup_loop :: "pfat_instance \<Rightarrow> u8 list \<Rightarrow> nat \<Rightarrow> entry_ref option option" where
  "lookup_loop inst path i =
     (if int i < rootDirectoryCount (fsinfo inst) then do {
        e \<leftarrow> entry_of inst (Dir_Entry i);
        found \<leftarrow> name_matches e path;
        (if found then Some (Some (Dir_Entry i)) else lookup_loop inst path (Suc i))
      } else Some None)"
  by pat_completeness auto
termination
  by (relation "measure (\<lambda>(inst, path, i). nat (rootDirectoryCount (fsinfo inst)) - i)") auto

definition PFAT_Lookup :: "pfat_instance \<Rightarrow> u8 list \<Rightarrow> entry_ref option option" where
  "PFAT_Lookup inst path = do {
     kassert (take 1 path = [SLASH]);
     (if path = [SLASH] then Some (Some Root_Entry) else lookup_loop inst (drop 1 path) 0)
   }"

fun find_open :: "entry_ref \<Rightarrow> pfat_file list \<Rightarrow> nat \<Rightarrow> nat option" where
  "find_open e [] i = None"
| "find_open e (f # fs) i = (if pf_entry f = e then Some i else find_open e fs (Suc i))"

text \<open>
  The three allocations are made one after the other, and the first that fails ends them.  At
  the label \<open>memfail\<close> the \<open>PFAT_File\<close> is freed, but the function goes on to return it.
\<close>

definition Get_PFAT_File ::
  "pfat_instance \<Rightarrow> entry_ref \<Rightarrow> io_world \<Rightarrow> (pfat_data option \<times> pfat_instance \<times> io_world) option" where
  "Get_PFAT_File inst entry w =
     (case find_open entry (fileList inst) 0 of
        Some i \<Rightarrow> Some (Some (PfatFile i), inst, w)
      | None \<Rightarrow> do {
          e \<leftarrow> entry_of inst entry;
          let blocks = Round_Up_To_Block (word_of_int (fileSize e)) div SECTOR_SIZE;
          let (ok, w) = Malloc w;
          (if \<not> ok then Some (None, inst, w)
           else let (ok, w) = Malloc w
                in if \<not> ok then Some (Some Freed, inst, w)
                   else let cache = map (garbage w) [0..<unat (blocks * SECTOR_SIZE)];
                            (ok, w) = Malloc w
                        in (case Create_Bit_Set ok blocks of
                              None \<Rightarrow> Some (Some Freed, inst, w)
                            | Some bs \<Rightarrow> Some (Some (PfatFile (length (fileList inst))),
                                inst\<lparr>fileList := fileList inst @ [\<lparr>pf_entry = entry, numBlocks = blocks,
                                  fileDataCache = cache, validBlockSet = bs\<rparr>]\<rparr>, w)))
        })"

definition PFAT_Open :: "(pfat_ops, pfat_data, pfat_instance) open_op" where
  "PFAT_Open m path mode w = do {
     inst \<leftarrow> mp_fsData m;
     (if mode AND (O_WRITE OR O_CREATE) \<noteq> 0 then Some (EACCESS, None, m, w)
      else do {
        r \<leftarrow> PFAT_Lookup inst path;
        (case r of
           None \<Rightarrow> Some (ENOTFOUND, None, m, w)
         | Some entry \<Rightarrow> do {
             e \<leftarrow> entry_of inst entry;
             (if directory e then Some (EACCESS, None, m, w)
              else do {
                (pf, inst, w) \<leftarrow> Get_PFAT_File inst entry w;
                let m = m\<lparr>mp_fsData := Some inst\<rparr>;
                (case pf of
                   None \<Rightarrow> Some (0, None, m, w)
                 | Some d \<Rightarrow>
                     (case Allocate_File PfatFileOps 0 (fileSize e) d 0 0 w of
                        (None, w) \<Rightarrow> Some (ENOMEM, None, m, w)
                      | (Some file, w) \<Rightarrow> Some (0, Some file, m, w)))
              })
           })
      })
   }"

definition PFAT_Open_Directory ::
  "pfat_mount \<Rightarrow> u8 list \<Rightarrow> io_world \<Rightarrow> (int \<times> pfat_open_file option \<times> pfat_mount \<times> io_world) option" where
  "PFAT_Open_Directory m path w = do {
     inst \<leftarrow> mp_fsData m;
     (if path \<noteq> [SLASH] then Some (ENOTFOUND, None, m, w)
      else let (ok, w) = Malloc w
           in if \<not> ok then Some (ENOMEM, None, m, w)
              else Some (0, Some \<lparr>f_ops = PfatDirOps, filePos = 0,
                endPos = word_of_int (rootDirectoryCount (fsinfo inst)), fsData = NoData, f_mode = 0,
                mountPoint = 0\<rparr>, m, w))
   }"

definition PFAT_Stat ::
  "pfat_mount \<Rightarrow> u8 list \<Rightarrow> io_world \<Rightarrow> (int \<times> vfs_file_stat option \<times> pfat_mount \<times> io_world) option" where
  "PFAT_Stat m path w = do {
     inst \<leftarrow> mp_fsData m;
     r \<leftarrow> PFAT_Lookup inst path;
     (case r of
        None \<Rightarrow> Some (ENOTFOUND, None, m, w)
      | Some entry \<Rightarrow> do { e \<leftarrow> entry_of inst entry; Some (0, Some (Copy_Stat e), m, w) })
   }"

definition PFAT_Sync :: "pfat_mount \<Rightarrow> io_world \<Rightarrow> (int \<times> pfat_mount \<times> io_world) option" where
  "PFAT_Sync m w = Some (0, m, w)"

section \<open>Mounting\<close>

text \<open>The bytes of \<open>/pagefile.bin\<close>.\<close>

definition PAGEFILE_FILENAME :: "u8 list" where
  "PAGEFILE_FILENAME = [47, 112, 97, 103, 101, 102, 105, 108, 101, 46, 98, 105, 110]"

definition PFAT_Register_Paging_File :: "pfat_mount \<Rightarrow> pfat_instance \<Rightarrow> io_world \<Rightarrow> io_world option" where
  "PFAT_Register_Paging_File m inst w =
     (if Get_Paging_Device w \<noteq> None then Some w
      else do {
        r \<leftarrow> PFAT_Lookup inst PAGEFILE_FILENAME;
        (case r of
           None \<Rightarrow> Some w
         | Some entry \<Rightarrow> do {
             e \<leftarrow> entry_of inst entry;
             let (ok, w) = Malloc w;
             (if \<not> ok then Some w
              else let (ok, w) = Malloc w
                   in if \<not> ok then Some w
                      else Register_Paging_Device \<lparr>pg_fileName = SLASH # pathPrefix m @ PAGEFILE_FILENAME,
                        pg_dev = mp_dev m, startSector = word_of_int (firstBlock e),
                        numSectors = word_of_int (fileSize e) div SECTOR_SIZE\<rparr> w)
           })
      })"

text \<open>Reading the sectors of the FAT into the buffer that was allocated for it.\<close>

function read_fat :: "nat \<Rightarrow> int \<Rightarrow> int \<Rightarrow> nat \<Rightarrow> u8 list \<Rightarrow> io_world \<Rightarrow> (int \<times> u8 list \<times> io_world) option" where
  "read_fat d off n i buf w =
     (if int i < n then
        (if i * 512 + 512 \<le> length buf then do {
           (rc, sector, w) \<leftarrow> Block_Read d (off + int i) (take 512 (drop (i * 512) buf)) w;
           buf \<leftarrow> store_at (i * 512) sector buf;
           (if rc < 0 then Some (rc, buf, w) else read_fat d off n (Suc i) buf w)
         } else None)
      else Some (0, buf, w))"
  by pat_completeness auto
termination
  by (relation "measure (\<lambda>(d, off, n, i, buf, w). nat n - i)") auto

text \<open>
  Reading the root directory: \<open>i\<close> counts bytes, but is added to the number of the first sector
  and, times the size of a sector, to a pointer to directory entries.
\<close>

function read_root_dir :: "nat \<Rightarrow> int \<Rightarrow> nat \<Rightarrow> nat \<Rightarrow> u8 list \<Rightarrow> io_world \<Rightarrow> (int \<times> u8 list \<times> io_world) option" where
  "read_root_dir d off rootDirSize i buf w =
     (if i < rootDirSize then
        (if i * 512 * DIR_ENTRY_SIZE + 512 \<le> length buf then do {
           (rc, sector, w) \<leftarrow> Block_Read d (off + int i) (take 512 (drop (i * 512 * DIR_ENTRY_SIZE) buf)) w;
           buf \<leftarrow> store_at (i * 512 * DIR_ENTRY_SIZE) sector buf;
           (if rc < 0 then Some (rc, buf, w) else read_root_dir d off rootDirSize (i + 512) buf w)
         } else None)
      else Some (0, buf, w))"
  by pat_completeness auto
termination
  by (relation "measure (\<lambda>(d, off, n, i, buf, w). n - i)") auto

definition fake_root_entry :: "boot_sector \<Rightarrow> directory_entry" where
  "fake_root_entry b = \<lparr>de_bytes = replicate 12 0 @ [0x11] @ replicate 11 0 @ map (\<lambda>k. ucast (drop_bit (8 * k)
       (word_of_int (rootDirectoryCount b) * word_of_nat DIR_ENTRY_SIZE :: u32))) [0..<4], readOnly = True, hidden = False, systemFile = False,
     volumeLabel = False, directory = True, de_time = 0, de_date = 0, firstBlock = 0,
     fileSize = sint (word_of_int (rootDirectoryCount b) * word_of_nat DIR_ENTRY_SIZE :: u32)\<rparr>"

definition PFAT_Mount :: "pfat_mount \<Rightarrow> io_world \<Rightarrow> (int \<times> pfat_mount \<times> io_world) option" where
  "PFAT_Mount m w =
     (let (ok, w) = Malloc w
      in if \<not> ok then Some (ENOMEM, m, w)
         else let (ok, w) = Malloc w
      in if \<not> ok then Some (ENOMEM, m, w)
         else do {
           d \<leftarrow> mp_dev m;
           (rc, bootSect, w) \<leftarrow> Block_Read d 0 (map (garbage w) [0..<512]) w;
           (if rc < 0 then Some (rc, m, w)
            else do {
              info \<leftarrow> decode_boot_sector (drop PFAT_BOOT_RECORD_OFFSET bootSect);
              (if magic info \<noteq> PFAT_MAGIC then Some (EINVALIDFS, m, w)
               else if fileAllocationOffset info \<le> 0 \<or> fileAllocationLength info \<le> 0
                 \<or> rootDirectoryCount info < 0 \<or> rootDirectoryOffset info \<le> 0
               then Some (EINVALIDFS, m, w)
               else let fatBytes = unat (word_of_int (fileAllocationLength info * 512) :: u32);
                        (ok, w) = Malloc w
                    in if \<not> ok then Some (ENOMEM, m, w)
                       else do {
                         (rc, fatBuf, w) \<leftarrow> read_fat d (fileAllocationOffset info) (fileAllocationLength info) 0
                           (map (garbage w) [0..<fatBytes]) w;
                         (if rc < 0 then Some (rc, m, w)
                          else let size = Round_Up_To_Block (word_of_nat DIR_ENTRY_SIZE * word_of_int (rootDirectoryCount info));
                                   (ok, w) = Malloc w
                               in do {
                                 (rc, dirBuf, w) \<leftarrow> (if sint size \<le> 0 then Some (0, [], w)
                                   else if \<not> ok then None
                                   else read_root_dir d (rootDirectoryOffset info) (unat size) 0
                                     (map (garbage w) [0..<unat size]) w);
                                 (if rc < 0 then Some (rc, m, w)
                                  else do {
                                    ft \<leftarrow> decode_list (\<lambda>f. rd_int f 0) 4 (fatBytes div 4) fatBuf;
                                    dir \<leftarrow> decode_list decode_entry DIR_ENTRY_SIZE (length dirBuf div DIR_ENTRY_SIZE) dirBuf;
                                    let inst = \<lparr>fsinfo = info, fat = ft, rootDir = dir,
                                      rootDirEntry = fake_root_entry info, fileList = []\<rparr>;
                                    w \<leftarrow> PFAT_Register_Paging_File m inst w;
                                    Some (0, m\<lparr>mp_ops := Some PfatMountPointOps, mp_fsData := Some inst\<rparr>, w)
                                  })
                               })
                       })
            })
         })"

text \<open>The tables of functions; the entries that are 0 in the source are \<open>None\<close>.\<close>

definition pfat_vtables :: "(pfat_ops, pfat_data, pfat_instance) vtables" where
  "pfat_vtables = \<lparr>
     fs_Format = (\<lambda>_. None),
     fs_Mount = (\<lambda>ops. if ops = PfatFilesystemOps then Some PFAT_Mount else None),
     mp_Open = (\<lambda>ops. if ops = PfatMountPointOps then Some PFAT_Open else None),
     mp_Create_Directory = (\<lambda>_. None),
     mp_Open_Directory = (\<lambda>ops. if ops = PfatMountPointOps then Some PFAT_Open_Directory else None),
     mp_Stat = (\<lambda>ops. if ops = PfatMountPointOps then Some PFAT_Stat else None),
     mp_Sync = (\<lambda>ops. if ops = PfatMountPointOps then Some PFAT_Sync else None),
     mp_Delete = (\<lambda>_. None),
     fo_FStat = (\<lambda>ops. if ops = PfatFileOps then Some PFAT_FStat
       else if ops = PfatDirOps then Some PFAT_FStat_Dir else None),
     fo_Read = (\<lambda>ops. if ops = PfatFileOps then Some PFAT_Read else None),
     fo_Write = (\<lambda>ops. if ops = PfatFileOps then Some PFAT_Write else None),
     fo_Seek = (\<lambda>ops. if ops = PfatFileOps then Some PFAT_Seek else None),
     fo_Close = (\<lambda>ops. if ops = PfatFileOps then Some PFAT_Close
       else if ops = PfatDirOps then Some PFAT_Close_Dir else None),
     fo_Read_Entry = (\<lambda>ops. if ops = PfatDirOps then Some PFAT_Read_Entry else None)\<rparr>"

text \<open>The bytes of \<open>pfat\<close>.\<close>

definition Init_PFAT :: "(pfat_ops, pfat_instance) vfs \<Rightarrow> (bool \<times> (pfat_ops, pfat_instance) vfs) option" where
  "Init_PFAT s = Register_Filesystem pfat_vtables [112, 102, 97, 116] PfatFilesystemOps s"

declare read_blocks.simps [simp del] lookup_loop.simps [simp del] read_fat.simps [simp del]
  read_root_dir.simps [simp del]

section \<open>Contents of a file\<close>

text \<open>The first \<open>n\<close> blocks of the chain that starts at \<open>b\<close>.\<close>

fun fat_chain :: "int list \<Rightarrow> u32 \<Rightarrow> nat \<Rightarrow> u32 list option" where
  "fat_chain ft b 0 = Some []"
| "fat_chain ft b (Suc n) =
     (if b = FAT_ENTRY_FREE \<or> b = FAT_ENTRY_EOF \<or> length ft \<le> unat b then None
      else do { bs \<leftarrow> fat_chain ft (word_of_int (ft ! unat b)) n; Some (b # bs) })"

definition blocks_for :: "directory_entry \<Rightarrow> nat" where
  "blocks_for e = (nat (fileSize e) + 511) div 512"

definition file_blocks :: "pfat_instance \<Rightarrow> directory_entry \<Rightarrow> u32 list option" where
  "file_blocks inst e = fat_chain (fat inst) (word_of_int (firstBlock e)) (blocks_for e)"

definition contents :: "(int \<Rightarrow> u8 list) \<Rightarrow> u32 list \<Rightarrow> directory_entry \<Rightarrow> u8 list" where
  "contents disk bs e = take (nat (fileSize e)) (concat (map (\<lambda>b. disk (sint b)) bs))"

text \<open>
  Device \<open>d\<close> holds \<open>disk\<close>, and its driver reads every block of it; a block that the device does
  not have, or cannot read, is empty in \<open>disk\<close>.
\<close>

definition disk_ok :: "(int \<Rightarrow> u8 list) \<Rightarrow> nat \<Rightarrow> io_world \<Rightarrow> bool" where
  "disk_ok disk d w \<longleftrightarrow> d < length (s_deviceList w)
     \<and> (\<forall>b. disk b \<noteq> [] \<longrightarrow> length (disk b) = 512
          \<and> (\<forall>buf. length buf = 512 \<longrightarrow> drv_transfer (s_deviceList w ! d) BLOCK_READ b buf = (0, disk b)))"

definition readable :: "(int \<Rightarrow> u8 list) \<Rightarrow> u32 list \<Rightarrow> bool" where
  "readable disk bs \<longleftrightarrow> (\<forall>b \<in> set bs. disk (sint b) \<noteq> [])"

definition block_at :: "u8 list \<Rightarrow> nat \<Rightarrow> u8 list" where
  "block_at cache i = take 512 (drop (i * 512) cache)"

definition cache_ok :: "(int \<Rightarrow> u8 list) \<Rightarrow> u32 list \<Rightarrow> pfat_file \<Rightarrow> bool" where
  "cache_ok disk bs pf \<longleftrightarrow> readable disk bs \<and> length (fileDataCache pf) = 512 * length bs
     \<and> length bs \<le> 8 * length (validBlockSet pf) \<and> length bs < 4294967296
     \<and> (\<forall>i < length bs. bit_at (validBlockSet pf) i \<longrightarrow> block_at (fileDataCache pf) i = disk (sint (bs ! i)))"

definition inst_ok :: "(int \<Rightarrow> u8 list) \<Rightarrow> pfat_instance \<Rightarrow> bool" where
  "inst_ok disk inst \<longleftrightarrow> (\<forall>pf \<in> set (fileList inst). \<exists>e bs. entry_of inst (pf_entry pf) = Some e
     \<and> 0 \<le> fileSize e \<and> fileSize e < 2147483648 \<and> file_blocks inst e = Some bs \<and> cache_ok disk bs pf)"

lemma fat_chain_length: "fat_chain ft b n = Some bs \<Longrightarrow> length bs = n"
  by (induction ft b n arbitrary: bs rule: fat_chain.induct) (auto simp: bind_eq_Some_conv split: if_splits)

lemma fat_chain_nth:
  "fat_chain ft b n = Some bs \<Longrightarrow> i < n \<Longrightarrow>
     bs ! i \<noteq> FAT_ENTRY_FREE \<and> bs ! i \<noteq> FAT_ENTRY_EOF \<and> unat (bs ! i) < length ft
     \<and> (Suc i < n \<longrightarrow> bs ! Suc i = word_of_int (ft ! unat (bs ! i)))"
proof (induction ft b n arbitrary: bs i rule: fat_chain.induct)
  case (2 ft b n)
  from "2.prems"(1) obtain cs where cs: "bs = b # cs" "fat_chain ft (word_of_int (ft ! unat b)) n = Some cs"
    "\<not> (b = FAT_ENTRY_FREE \<or> b = FAT_ENTRY_EOF \<or> length ft \<le> unat b)"
    by (auto simp: bind_eq_Some_conv split: if_splits)
  have first: "n > 0 \<Longrightarrow> cs ! 0 = word_of_int (ft ! unat b)"
    using cs(2) by (cases n) (auto simp: bind_eq_Some_conv split: if_splits)
  show ?case
  proof (cases i)
    case 0
    with cs first show ?thesis by auto
  next
    case (Suc k)
    with "2.IH" [OF cs(3,2), of k] "2.prems"(2) cs(1) show ?thesis by auto
  qed
qed simp

lemma store_at_Some: "n + length bs \<le> length buf \<Longrightarrow> store_at n bs buf = Some (take n buf @ bs @ drop (n + length bs) buf)"
  by (simp add: store_at_def)

lemma block_at_store:
  assumes "length cache = 512 * n" "i < n" "length b = 512" "k < n"
  shows "block_at (take (i * 512) cache @ b @ drop (i * 512 + 512) cache) k
    = (if k = i then b else block_at cache k)"
proof -
  consider "k = i" | "k < i" | "i < k" by linarith
  then show ?thesis
  proof cases
    case 1
    with assms show ?thesis by (simp add: block_at_def)
  next
    case 2
    then have "k * 512 + 512 \<le> i * 512" by simp
    then have "512 \<le> i * 512 - k * 512" by simp
    with 2 assms show ?thesis by (simp add: block_at_def min_def drop_take)
  next
    case 3
    then have "i * 512 + 512 \<le> k * 512" by simp
    then obtain c where "k * 512 = i * 512 + 512 + c" using le_Suc_ex by blast
    with 3 assms show ?thesis by (simp add: block_at_def min_def add.commute add.left_commute)
  qed
qed

lemma Malloc_ok: "mallocs w = [] \<Longrightarrow> Malloc w = (True, w)"
  by (simp add: Malloc_def)

lemma disk_length: "disk_ok disk d w \<Longrightarrow> disk b \<noteq> [] \<Longrightarrow> length (disk b) = 512"
  by (simp add: disk_ok_def)

lemma readable_nth: "readable disk bs \<Longrightarrow> i < length bs \<Longrightarrow> disk (sint (bs ! i)) \<noteq> []"
  by (simp add: readable_def)

lemma Block_Read_disk:
  assumes "disk_ok disk d w" "mallocs w = []" "length buf = 512" "disk b \<noteq> []"
  shows "Block_Read d b buf w = Some (0, disk b, w)"
  using assms by (simp add: Block_Read_def Do_Request_def Malloc_ok disk_ok_def)

lemma fetch_block_ok:
  assumes "cache_ok disk bs pf" "i < length bs" "disk_ok disk d w" "mallocs w = []"
  shows "\<exists>pf'. fetch_block (Some d) i (bs ! i) pf w = Some (0, pf', w) \<and> cache_ok disk bs pf'
    \<and> bit_at (validBlockSet pf') i \<and> (\<forall>k. bit_at (validBlockSet pf) k \<longrightarrow> bit_at (validBlockSet pf') k)
    \<and> pf_entry pf' = pf_entry pf"
proof -
  from assms have l: "length (fileDataCache pf) = 512 * length bs" "length bs \<le> 8 * length (validBlockSet pf)"
    "length bs < 4294967296" by (simp_all add: cache_ok_def)
  have u: "unat (word_of_nat i :: u32) = i"
    using assms(2) l(3) by (simp add: unsigned_of_nat take_bit_nat_eq_self)
  have ib: "unat (word_of_nat i :: u32) < 8 * length (validBlockSet pf)" using u assms(2) l(2) by simp
  show ?thesis
  proof (cases "bit_at (validBlockSet pf) i")
    case True
    with ib u show ?thesis using assms(1) by (auto simp: fetch_block_def Is_Bit_Set_bit_at)
  next
    case False
    let ?c = "fileDataCache pf"
    have r: "i * 512 + 512 \<le> length ?c" using assms(2) l(1) by simp
    have len: "length (take 512 (drop (i * 512) ?c)) = 512" using r by simp
    have ne: "disk (sint (bs ! i)) \<noteq> []" using assms(1,2) by (simp add: cache_ok_def readable_nth)
    note dl = disk_length [OF assms(3) ne] and rd = Block_Read_disk [OF assms(3,4) len ne]
    let ?c' = "take (i * 512) ?c @ disk (sint (bs ! i)) @ drop (i * 512 + 512) ?c"
    have st: "store_at (i * 512) (disk (sint (bs ! i))) ?c = Some ?c'" using r by (simp add: store_at_def dl)
    obtain v where v: "Set_Bit (validBlockSet pf) (word_of_nat i) = Some v" "length v = length (validBlockSet pf)"
      "\<And>k. bit_at v k = (k = i \<or> bit_at (validBlockSet pf) k)"
      using Set_Bit_bit_at [OF ib] u by auto
    let ?pf = "pf\<lparr>fileDataCache := ?c', validBlockSet := v\<rparr>"
    have "cache_ok disk bs ?pf"
      unfolding cache_ok_def
    proof (intro conjI allI impI)
      fix k assume k: "k < length bs" "bit_at (validBlockSet ?pf) k"
      have "block_at ?c' k = (if k = i then disk (sint (bs ! i)) else block_at ?c k)"
        by (rule block_at_store [OF l(1) assms(2) dl k(1)])
      with k v(3) assms(1) show "block_at (fileDataCache ?pf) k = disk (sint (bs ! k))"
        by (auto simp: cache_ok_def)
    qed (use l assms(1,2) v(2) dl in \<open>simp_all add: cache_ok_def\<close>)
    moreover have "fetch_block (Some d) i (bs ! i) pf w = Some (0, ?pf, w)"
      using ib u False r rd st v(1) by (simp add: fetch_block_def Is_Bit_Set_bit_at)
    ultimately show ?thesis using v(3) by auto
  qed
qed

lemma read_blocks_ok:
  assumes "\<And>k. k < length bs \<Longrightarrow> bs ! k \<noteq> FAT_ENTRY_FREE \<and> bs ! k \<noteq> FAT_ENTRY_EOF \<and> unat (bs ! k) < length ft
      \<and> (Suc k < length bs \<longrightarrow> bs ! Suc k = word_of_int (ft ! unat (bs ! k)))"
    and "eb \<le> length bs" "disk_ok disk d w" "mallocs w = []"
    and "cache_ok disk bs pf" "i < length bs \<Longrightarrow> cur = bs ! i"
  shows "\<exists>pf'. read_blocks ft (Some d) sb eb i cur pf w = Some (0, pf', w) \<and> cache_ok disk bs pf'
    \<and> (\<forall>k. sb \<le> k \<and> i \<le> k \<and> k < eb \<longrightarrow> bit_at (validBlockSet pf') k)
    \<and> (\<forall>k. bit_at (validBlockSet pf) k \<longrightarrow> bit_at (validBlockSet pf') k) \<and> pf_entry pf' = pf_entry pf"
  using assms(5,6)
proof (induction "eb - i" arbitrary: i cur pf)
  case 0
  then show ?case by (subst read_blocks.simps) auto
next
  case (Suc n)
  then have i: "i < eb" "i < length bs" using assms(2) by auto
  with Suc.prems have cur: "cur = bs ! i" by simp
  note b = assms(1) [OF i(2)]
  obtain pf1 where f: "(if i \<ge> sb then fetch_block (Some d) i cur pf w else Some (0, pf, w)) = Some (0, pf1, w)"
    "cache_ok disk bs pf1" "sb \<le> i \<longrightarrow> bit_at (validBlockSet pf1) i"
    "\<forall>k. bit_at (validBlockSet pf) k \<longrightarrow> bit_at (validBlockSet pf1) k" "pf_entry pf1 = pf_entry pf"
    using fetch_block_ok [OF Suc.prems(1) i(2) assms(3,4)] Suc.prems(1) cur by (cases "sb \<le> i") auto
  have "n = eb - Suc i" using Suc.hyps(2) by simp
  from Suc.hyps(1) [OF this f(2), of "word_of_int (ft ! unat cur)"] b cur obtain pf2 where
    r: "read_blocks ft (Some d) sb eb (Suc i) (word_of_int (ft ! unat cur)) pf1 w = Some (0, pf2, w)"
    "cache_ok disk bs pf2" "\<forall>k. sb \<le> k \<and> Suc i \<le> k \<and> k < eb \<longrightarrow> bit_at (validBlockSet pf2) k"
    "\<forall>k. bit_at (validBlockSet pf1) k \<longrightarrow> bit_at (validBlockSet pf2) k" "pf_entry pf2 = pf_entry pf1"
    by auto
  have "read_blocks ft (Some d) sb eb i cur pf w = Some (0, pf2, w)"
    using i(1) b cur f(1) r(1) by (subst read_blocks.simps) simp
  moreover have "bit_at (validBlockSet pf2) k" if "sb \<le> k" "i \<le> k" "k < eb" for k
    using that f(3) r(3,4) by (cases "k = i") auto
  ultimately show ?case using r f(4,5) by auto
qed

lemma take_blocks:
  assumes "length cache = 512 * n" "eb \<le> n" "length bs = n" "\<And>b. b \<in> set bs \<Longrightarrow> length (disk (sint b)) = 512"
    and "\<And>k. k < eb \<Longrightarrow> block_at cache k = disk (sint (bs ! k))"
  shows "take (512 * eb) cache = take (512 * eb) (concat (map (\<lambda>b. disk (sint b)) bs))"
  using assms(2,5)
proof (induction eb)
  case (Suc eb)
  let ?all = "concat (map (\<lambda>b. disk (sint b)) bs)"
  have c: "length (concat (map (\<lambda>b. disk (sint b)) cs)) = 512 * length cs" if "set cs \<subseteq> set bs" for cs
    using that by (induction cs) (simp_all add: assms(4))
  have "bs = take eb bs @ bs ! eb # drop (Suc eb) bs" using Suc.prems(1) assms(3) by (simp add: id_take_nth_drop)
  then have "?all = concat (map (\<lambda>b. disk (sint b)) (take eb bs)) @ disk (sint (bs ! eb))
      @ concat (map (\<lambda>b. disk (sint b)) (drop (Suc eb) bs))"
    by (metis concat.simps(2) concat_append list.simps(9) map_append)
  moreover have "length (concat (map (\<lambda>b. disk (sint b)) (take eb bs))) = 512 * eb"
    using c [of "take eb bs"] Suc.prems(1) assms(3) by (simp add: set_take_subset)
  moreover have "length (disk (sint (bs ! eb))) = 512" using Suc.prems(1) assms(3,4) by simp
  ultimately have "take 512 (drop (512 * eb) ?all) = disk (sint (bs ! eb))" by simp
  moreover have "take 512 (drop (512 * eb) cache) = disk (sint (bs ! eb))"
    using Suc.prems(2) [of eb] by (simp add: block_at_def mult.commute)
  moreover have "take (512 * eb) cache = take (512 * eb) ?all" using Suc by simp
  moreover have "take (512 * Suc eb) xs = take (512 * eb) xs @ take 512 (drop (512 * eb) xs)" for xs :: "u8 list"
    by (metis add.commute mult_Suc_right take_add)
  ultimately show ?case by metis
qed simp

lemma div_up_512:
  fixes a :: nat
  shows "a mod 512 = 0 \<Longrightarrow> a div 512 = (a + 511) div 512"
    and "a mod 512 \<noteq> 0 \<Longrightarrow> (a + (512 - a mod 512)) div 512 = (a + 511) div 512"
    and "a \<le> 512 * ((a + 511) div 512)"
proof -
  define q r where "q = a div 512" and "r = a mod 512"
  have a: "a = 512 * q + r" "r < 512" by (simp_all add: q_def r_def)
  have d: "(512 * q + x) div 512 = q + x div 512" for x by simp
  show "a div 512 = (a + 511) div 512" if "a mod 512 = 0"
  proof -
    from that have "r = 0" unfolding r_def .
    with a(1) have e: "a = 512 * q" by (simp only: add_0_right)
    show ?thesis unfolding e using d [of 511] by simp
  qed
  show "(a + (512 - a mod 512)) div 512 = (a + 511) div 512" if "a mod 512 \<noteq> 0"
  proof -
    from that have "r \<noteq> 0" unfolding r_def .
    then have "(r + 511) div 512 = 1" by (intro div_nat_eqI) (use a(2) in simp_all)
    moreover have "a + (512 - r) = 512 * q + 512" "a + 511 = 512 * q + (r + 511)" using a by linarith+
    ultimately show ?thesis unfolding r_def [symmetric] by (simp only: d)
  qed
  have "a + 511 = 512 * ((a + 511) div 512) + (a + 511) mod 512" by simp
  moreover have "(a + 511) mod 512 < 512" by simp
  ultimately show "a \<le> 512 * ((a + 511) div 512)" by linarith
qed

lemma Round_Up_blocks:
  assumes "unat n < 2147483648"
  shows "unat (Round_Up_To_Block n div SECTOR_SIZE) = (unat n + 511) div 512"
proof -
  have s: "unat SECTOR_SIZE = 512" by (simp add: SECTOR_SIZE_def)
  have m: "n mod SECTOR_SIZE = 0 \<longleftrightarrow> unat n mod 512 = 0"
    using s by (metis unat_eq_zero unat_mod)
  show ?thesis
  proof (cases "unat n mod 512 = 0")
    case True
    then have "unat (Round_Up_To_Block n div SECTOR_SIZE) = unat n div 512"
      by (simp add: Round_Up_To_Block_def m unat_div s)
    also have "\<dots> = (unat n + 511) div 512" by (rule div_up_512(1) [OF True])
    finally show ?thesis .
  next
    case False
    have r: "unat (n mod SECTOR_SIZE) = unat n mod 512" by (simp add: unat_mod s)
    have "n mod SECTOR_SIZE \<le> SECTOR_SIZE" by (simp add: word_le_nat_alt r s)
    then have "unat (SECTOR_SIZE - n mod SECTOR_SIZE) = 512 - unat n mod 512" by (simp add: unat_sub r s)
    moreover have "unat n + (512 - unat n mod 512) < 4294967296" using assms by simp
    ultimately have "unat (n + (SECTOR_SIZE - n mod SECTOR_SIZE)) = unat n + (512 - unat n mod 512)"
      by (simp add: unat_plus_if')
    then have "unat (Round_Up_To_Block n div SECTOR_SIZE) = (unat n + (512 - unat n mod 512)) div 512"
      using False by (simp add: Round_Up_To_Block_def m unat_div s)
    also have "\<dots> = (unat n + 511) div 512" by (rule div_up_512(2) [OF False])
    finally show ?thesis .
  qed
qed

section \<open>Reading\<close>

lemma unat_int_small: "0 \<le> z \<Longrightarrow> z < 2147483648 \<Longrightarrow> unat (word_of_int z :: u32) = nat z"
  by (simp add: unsigned_of_int take_bit_int_eq_self)

text \<open>The file that \<open>f\<close> has open, and the mount it is on, with the disk behind it.\<close>

definition open_ok :: "(int \<Rightarrow> u8 list) \<Rightarrow> nat \<Rightarrow> pfat_mount \<Rightarrow> pfat_instance \<Rightarrow> pfat_open_file \<Rightarrow> nat
    \<Rightarrow> directory_entry \<Rightarrow> u32 list \<Rightarrow> bool" where
  "open_ok disk d m inst f j e bs \<longleftrightarrow> mp_dev m = Some d \<and> mp_fsData m = Some inst \<and> inst_ok disk inst
     \<and> fsData f = PfatFile j \<and> j < length (fileList inst)
     \<and> entry_of inst (pf_entry (fileList inst ! j)) = Some e \<and> file_blocks inst e = Some bs
     \<and> endPos f = word_of_int (fileSize e)"

lemma inst_ok_at:
  assumes "inst_ok disk inst" "j < length (fileList inst)" "entry_of inst (pf_entry (fileList inst ! j)) = Some e"
    "file_blocks inst e = Some bs"
  shows "0 \<le> fileSize e" "fileSize e < 2147483648" "cache_ok disk bs (fileList inst ! j)"
proof -
  obtain e' bs' where "entry_of inst (pf_entry (fileList inst ! j)) = Some e'" "0 \<le> fileSize e'"
    "fileSize e' < 2147483648" "file_blocks inst e' = Some bs'" "cache_ok disk bs' (fileList inst ! j)"
    using assms(1) nth_mem [OF assms(2)] unfolding inst_ok_def by blast
  with assms(3,4) show "0 \<le> fileSize e" "fileSize e < 2147483648" "cache_ok disk bs (fileList inst ! j)"
    by simp_all
qed

lemma entry_of_files [simp]: "entry_of (inst\<lparr>fileList := fs\<rparr>) r = entry_of inst r"
  by (cases r) (simp_all add: entry_of_def)

lemma file_blocks_files [simp]: "file_blocks (inst\<lparr>fileList := fs\<rparr>) e = file_blocks inst e"
  by (simp add: file_blocks_def)

lemma inst_ok_update:
  assumes "inst_ok disk inst" "entry_of inst (pf_entry pf) = Some e" "0 \<le> fileSize e" "fileSize e < 2147483648"
    "file_blocks inst e = Some bs" "cache_ok disk bs pf"
  shows "inst_ok disk (inst\<lparr>fileList := (fileList inst)[j := pf]\<rparr>)"
    and "inst_ok disk (inst\<lparr>fileList := fileList inst @ [pf]\<rparr>)"
  using assms set_update_subset_insert [of "fileList inst" j pf] by (auto simp: inst_ok_def)

text \<open>Two instances with the same disk structures.\<close>

definition same_disk :: "pfat_instance \<Rightarrow> pfat_instance \<Rightarrow> bool" where
  "same_disk a b \<longleftrightarrow> b = a\<lparr>fileList := fileList b\<rparr>"

lemma same_diskD:
  assumes "same_disk a b"
  shows "entry_of b r = entry_of a r" "file_blocks b e = file_blocks a e" "fsinfo b = fsinfo a"
proof -
  from assms have e: "b = a\<lparr>fileList := fileList b\<rparr>" by (simp add: same_disk_def)
  show "entry_of b r = entry_of a r" "file_blocks b e = file_blocks a e" "fsinfo b = fsinfo a"
    by (subst e, simp)+
qed

lemma same_disk_update [simp]: "same_disk a (a\<lparr>fileList := fs\<rparr>)" "same_disk a a"
  by (simp_all add: same_disk_def)

lemma PFAT_Read_range:
  assumes o: "open_ok disk d m inst f j e bs" and w: "disk_ok disk d w" "mallocs w = []"
    and r: "unat (filePos f) < nat (fileSize e)" "unat (filePos f) + unat n \<le> nat (fileSize e)"
  shows "\<exists>inst'. PFAT_Read n f m w = Some (int (unat n), take (unat n) (drop (unat (filePos f)) (contents disk bs e)),
      f, m\<lparr>mp_fsData := Some inst'\<rparr>, w)
    \<and> open_ok disk d (m\<lparr>mp_fsData := Some inst'\<rparr>) inst' f j e bs \<and> same_disk inst inst'"
proof -
  let ?pf = "fileList inst ! j"
  note D = o [unfolded open_ok_def]
  note E = inst_ok_at [of disk inst j e bs]
  have e: "0 \<le> fileSize e" "fileSize e < 2147483648" "cache_ok disk bs ?pf" using D E by auto
  have uend: "unat (endPos f) = nat (fileSize e)" using D e by (simp add: unat_int_small)
  have sm: "unat (filePos f) + unat n < 2147483648" using r e by linarith
  have us: "unat (filePos f + n) = unat (filePos f) + unat n"
    using sm by (simp add: unat_plus_if')
  have c1: "\<not> n > 0x7fffffff" using sm by (simp add: word_less_nat_alt)
  have c2: "\<not> (filePos f \<ge> endPos f \<or> filePos f + n > endPos f \<or> filePos f + n < filePos f)"
    using r uend us by (simp add: word_less_nat_alt word_le_nat_alt)
  have s0: "unat ((filePos f mod SECTOR_SIZE) div SECTOR_SIZE) = 0"
    by (simp add: unat_div unat_mod SECTOR_SIZE_def)
  let ?eb = "(unat (filePos f) + unat n + 511) div 512"
  have eb: "unat (Round_Up_To_Block (filePos f + n) div SECTOR_SIZE) = ?eb"
    using Round_Up_blocks [of "filePos f + n"] us sm by simp
  have ch: "fat_chain (fat inst) (word_of_int (firstBlock e)) (blocks_for e) = Some bs"
    using D by (simp add: file_blocks_def)
  have lb: "length bs = blocks_for e" using fat_chain_length [OF ch] .
  have ebl: "?eb \<le> length bs" unfolding lb blocks_for_def using r(2) by (intro div_le_mono) simp
  have "0 < length bs \<Longrightarrow> word_of_int (firstBlock e) = bs ! 0"
    using ch lb by (cases "blocks_for e") (auto simp: bind_eq_Some_conv split: if_splits)
  with read_blocks_ok [of bs "fat inst" ?eb disk d w ?pf 0 "word_of_int (firstBlock e)" 0]
    fat_chain_nth [OF ch] lb ebl w e(3) obtain pf' where
    pf': "read_blocks (fat inst) (Some d) 0 ?eb 0 (word_of_int (firstBlock e)) ?pf w = Some (0, pf', w)"
      "cache_ok disk bs pf'" "\<forall>k < ?eb. bit_at (validBlockSet pf') k" "pf_entry pf' = pf_entry ?pf"
    by auto
  let ?c = "fileDataCache pf'"
  have lc: "length ?c = 512 * length bs" using pf'(2) by (simp add: cache_ok_def)
  have dl: "length (disk (sint b)) = 512" if "b \<in> set bs" for b
    using e(3) that disk_length [OF w(1)] by (simp add: cache_ok_def readable_def)
  have tb: "take (512 * ?eb) ?c = take (512 * ?eb) (concat (map (\<lambda>b. disk (sint b)) bs))"
    using pf'(2,3) ebl dl by (intro take_blocks [OF lc ebl refl]) (auto simp: cache_ok_def)
  have le: "unat (filePos f) + unat n \<le> 512 * ?eb" by (rule div_up_512(3))
  have cut: "take b (drop a xs) = take b (drop a (take k xs))" if "a + b \<le> k" for a b k :: nat and xs :: "u8 list"
    using that by (simp add: drop_take min_def)
  have "take (unat n) (drop (unat (filePos f)) ?c) = take (unat n) (drop (unat (filePos f)) (concat (map (\<lambda>b. disk (sint b)) bs)))"
    using cut [OF le] tb by metis
  also have "\<dots> = take (unat n) (drop (unat (filePos f)) (contents disk bs e))"
    unfolding contents_def by (rule cut [OF r(2)])
  finally have bytes: "take (unat n) (drop (unat (filePos f)) ?c) = take (unat n) (drop (unat (filePos f)) (contents disk bs e))" .
  have inb: "unat (filePos f) + unat n \<le> length ?c" using le ebl lc by simp
  let ?inst = "inst\<lparr>fileList := (fileList inst)[j := pf']\<rparr>"
  have "PFAT_Read n f m w = Some (int (unat n), take (unat n) (drop (unat (filePos f)) (contents disk bs e)),
      f, m\<lparr>mp_fsData := Some ?inst\<rparr>, w)"
    using D c1 c2 s0 eb pf' inb bytes by (simp add: PFAT_Read_def pfat_file_of_def)
  moreover have "open_ok disk d (m\<lparr>mp_fsData := Some ?inst\<rparr>) ?inst f j e bs"
    using D e pf' inst_ok_update(1) [of disk inst pf' e bs j] by (simp add: open_ok_def)
  ultimately show ?thesis by (intro exI [of _ ?inst]) (simp add: same_disk_def)
qed

lemma PFAT_Read_invalid:
  assumes o: "open_ok disk d m inst f j e bs"
    and r: "\<not> (unat (filePos f) < nat (fileSize e) \<and> unat (filePos f) + unat n \<le> nat (fileSize e))"
  shows "PFAT_Read n f m w = Some (EINVALID, [], f, m, w)"
proof -
  note D = o [unfolded open_ok_def]
  have e: "0 \<le> fileSize e" "fileSize e < 2147483648" using D inst_ok_at [of disk inst j e bs] by auto
  have uend: "unat (endPos f) = nat (fileSize e)" using D e by (simp add: unat_int_small)
  show ?thesis
  proof (cases "n > 0x7fffffff \<or> filePos f \<ge> endPos f \<or> filePos f + n < filePos f")
    case True
    with D show ?thesis by (auto simp: PFAT_Read_def Let_def)
  next
    case False
    then have "\<not> unat (filePos f + n) < unat (filePos f)" by (simp add: word_less_nat_alt)
    then have "unat (filePos f + n) = unat (filePos f) + unat n"
      using unat_less_2_32 [of n] by (simp add: unat_plus_if' split: if_splits)
    with False r uend have "filePos f + n > endPos f" by (simp add: word_less_nat_alt word_le_nat_alt)
    with D False show ?thesis by (simp add: PFAT_Read_def Let_def)
  qed
qed

section \<open>Opening\<close>

lemma find_open_Some:
  "find_open e fs i = Some k \<Longrightarrow> i \<le> k \<and> k - i < length fs \<and> pf_entry (fs ! (k - i)) = e"
proof (induction fs arbitrary: i)
  case (Cons f fs)
  show ?case
  proof (cases "pf_entry f = e")
    case False
    with Cons.prems Cons.IH [of "Suc i"] have "Suc i \<le> k" "k - Suc i < length fs" "pf_entry (fs ! (k - Suc i)) = e"
      by auto
    moreover from this(1) obtain c where "k = Suc i + c" using le_Suc_ex by blast
    ultimately show ?thesis by simp
  qed (use Cons.prems in auto)
qed simp

lemma blocks_for_word:
  assumes "0 \<le> fileSize e" "fileSize e < 2147483648"
  shows "unat (Round_Up_To_Block (word_of_int (fileSize e)) div SECTOR_SIZE) = blocks_for e"
    "blocks_for e \<le> 4194304"
proof -
  show "unat (Round_Up_To_Block (word_of_int (fileSize e)) div SECTOR_SIZE) = blocks_for e"
    using assms by (subst Round_Up_blocks) (auto simp: unat_int_small blocks_for_def)
  have "nat (fileSize e) + 511 \<le> 4194304 * 512 + 511" using assms by simp
  then have "blocks_for e \<le> (4194304 * 512 + 511) div 512" unfolding blocks_for_def by (rule div_le_mono)
  then show "blocks_for e \<le> 4194304" by simp
qed

lemma Get_PFAT_File_ok:
  assumes "inst_ok disk inst" "entry_of inst entry = Some e" "0 \<le> fileSize e" "fileSize e < 2147483648"
    "file_blocks inst e = Some bs" "mallocs w = []" "readable disk bs"
  shows "\<exists>j inst'. Get_PFAT_File inst entry w = Some (Some (PfatFile j), inst', w) \<and> inst_ok disk inst'
    \<and> same_disk inst inst' \<and> j < length (fileList inst') \<and> pf_entry (fileList inst' ! j) = entry"
proof (cases "find_open entry (fileList inst) 0")
  case (Some k)
  with find_open_Some [OF Some] assms show ?thesis by (auto simp: Get_PFAT_File_def)
next
  case None
  note b = blocks_for_word [OF assms(3,4)]
  define blocks where "blocks = Round_Up_To_Block (word_of_int (fileSize e)) div SECTOR_SIZE"
  have ub: "unat blocks = blocks_for e" using b(1) by (simp add: blocks_def)
  have "unat (blocks * SECTOR_SIZE) = unat blocks * unat SECTOR_SIZE mod 4294967296"
    by (simp add: unat_word_ariths)
  then have us: "unat (blocks * SECTOR_SIZE) = 512 * blocks_for e"
    using b(2) by (simp add: ub SECTOR_SIZE_def)
  define pf where "pf = \<lparr>pf_entry = entry, numBlocks = blocks,
    fileDataCache = map (garbage w) [0..<unat (blocks * SECTOR_SIZE)],
    validBlockSet = replicate (unat (FIND_NUM_BYTES blocks)) 0\<rparr>"
  have lb: "length bs = blocks_for e" using assms(5) fat_chain_length unfolding file_blocks_def by blast
  have "\<not> bit_at (replicate n 0) k" for n k by (auto simp: bit_at_def nth_replicate byte_bound)
  then have "cache_ok disk bs pf"
    using lb us ub b(2) FIND_NUM_BYTES_enough [of blocks] assms(7) by (simp add: cache_ok_def pf_def)
  then have "inst_ok disk (inst\<lparr>fileList := fileList inst @ [pf]\<rparr>)"
    by (intro inst_ok_update(2) [OF assms(1) _ assms(3,4,5)]) (simp_all add: pf_def assms(2))
  moreover have "Get_PFAT_File inst entry w
      = Some (Some (PfatFile (length (fileList inst))), inst\<lparr>fileList := fileList inst @ [pf]\<rparr>, w)"
    using None assms(2,6)
    by (simp add: Get_PFAT_File_def Malloc_ok Create_Bit_Set_def pf_def blocks_def Let_def)
  ultimately show ?thesis by (auto simp: pf_def)
qed

lemma PFAT_Open_ok:
  assumes "mp_dev m = Some d" "mp_fsData m = Some inst" "inst_ok disk inst" "mallocs w = []"
    "PFAT_Lookup inst q = Some (Some entry)" "entry_of inst entry = Some e" "\<not> directory e"
    "0 \<le> fileSize e" "fileSize e < 2147483648" "file_blocks inst e = Some bs" "readable disk bs"
  shows "\<exists>j f inst'. PFAT_Open m q O_READ w = Some (0, Some f, m\<lparr>mp_fsData := Some inst'\<rparr>, w)
    \<and> open_ok disk d (m\<lparr>mp_fsData := Some inst'\<rparr>) inst' f j e bs \<and> same_disk inst inst'
    \<and> f_ops f = PfatFileOps \<and> filePos f = 0"
proof -
  obtain j inst' where g: "Get_PFAT_File inst entry w = Some (Some (PfatFile j), inst', w)" "inst_ok disk inst'"
    "same_disk inst inst'" "j < length (fileList inst')" "pf_entry (fileList inst' ! j) = entry"
    using Get_PFAT_File_ok [OF assms(3,6,8,9,10,4,11)] by blast
  let ?f = "\<lparr>f_ops = PfatFileOps, filePos = 0, endPos = word_of_int (fileSize e), fsData = PfatFile j,
    f_mode = 0, mountPoint = 0\<rparr>"
  have "O_READ AND (O_WRITE OR O_CREATE) = 0" by (simp add: O_READ_def O_WRITE_def O_CREATE_def)
  then have "PFAT_Open m q O_READ w = Some (0, Some ?f, m\<lparr>mp_fsData := Some inst'\<rparr>, w)"
    using assms g(1) by (simp add: PFAT_Open_def Allocate_File_def Malloc_ok)
  moreover have "open_ok disk d (m\<lparr>mp_fsData := Some inst'\<rparr>) inst' ?f j e bs"
    using assms g same_diskD [OF g(3)] by (simp add: open_ok_def)
  ultimately show ?thesis using g(3) by auto
qed

section \<open>Properties\<close>


lemma length_contents:
  assumes "disk_ok disk d w" "readable disk bs" "file_blocks inst e = Some bs"
  shows "length (contents disk bs e) = nat (fileSize e)"
proof -
  have "length (concat (map (\<lambda>b. disk (sint b)) bs)) = 512 * length bs"
    using assms(2) by (induction bs) (simp_all add: readable_def disk_length [OF assms(1)])
  moreover have "length bs = blocks_for e" using assms(3) fat_chain_length unfolding file_blocks_def by blast
  ultimately show ?thesis using div_up_512(3) [of "nat (fileSize e)"] by (simp add: contents_def blocks_for_def)
qed

lemma same_disk_trans: "same_disk a b \<Longrightarrow> same_disk b c \<Longrightarrow> same_disk a c"
  unfolding same_disk_def by (cases a; cases b; cases c) simp

text \<open>
  Mount \<open>i\<close> of the virtual file system is a PFAT instance whose disk answers, and there is
  memory for every allocation.
\<close>

definition mounted :: "(int \<Rightarrow> u8 list) \<Rightarrow> nat \<Rightarrow> (pfat_ops, pfat_instance) vfs \<Rightarrow> nat \<Rightarrow> pfat_instance \<Rightarrow> bool" where
  "mounted disk d s i inst \<longleftrightarrow> i < length (s_mountPointList s)
     \<and> mp_ops (s_mountPointList s ! i) = Some PfatMountPointOps \<and> mp_dev (s_mountPointList s ! i) = Some d
     \<and> mp_fsData (s_mountPointList s ! i) = Some inst \<and> inst_ok disk inst
     \<and> disk_ok disk d (io s) \<and> mallocs (io s) = []"

lemma set_mount_same: "set_mount i (s_mountPointList s ! i) (io s) s = s"
  by (simp add: set_mount_def)

lemma pfat_table [simp]:
  "mp_Stat pfat_vtables PfatMountPointOps = Some PFAT_Stat" "mp_Open pfat_vtables PfatMountPointOps = Some PFAT_Open"
  "fo_Read pfat_vtables PfatFileOps = Some PFAT_Read" "fo_Close pfat_vtables PfatFileOps = Some PFAT_Close"
  by (simp_all add: pfat_vtables_def)

lemma Read_Fully_contents:
  assumes "mounted disk d s i inst"
    and "Unpack_Path path = Some (Some (p, q))" and "Lookup_Mount_Point p s = Some i"
    and "PFAT_Lookup inst q = Some (Some entry)" and "entry_of inst entry = Some e" and "\<not> directory e"
    and "0 \<le> fileSize e" and "fileSize e < 2147483648" and "file_blocks inst e = Some bs"
    and "readable disk bs"
  shows "\<exists>s' inst'. Read_Fully pfat_vtables path s = Some (0, Some (contents disk bs e), s')
    \<and> mounted disk d s' i inst' \<and> same_disk inst inst'
    \<and> map pathPrefix (s_mountPointList s') = map pathPrefix (s_mountPointList s)"
proof -
  define m where "m = s_mountPointList s ! i"
  have M: "i < length (s_mountPointList s)" "mp_ops m = Some PfatMountPointOps" "mp_dev m = Some d"
    "mp_fsData m = Some inst" "inst_ok disk inst" "disk_ok disk d (io s)" "mallocs (io s) = []"
    using assms(1) by (simp_all add: mounted_def m_def)
  have st: "Stat pfat_vtables path s = Some (0, Some (Copy_Stat e), s)"
    using assms M by (simp add: Stat_def on_path_def PFAT_Stat_def set_mount_same flip: m_def) (simp add: m_def set_mount_same)
  obtain j f inst1 where o: "PFAT_Open m q O_READ (io s) = Some (0, Some f, m\<lparr>mp_fsData := Some inst1\<rparr>, io s)"
    "open_ok disk d (m\<lparr>mp_fsData := Some inst1\<rparr>) inst1 f j e bs" "same_disk inst inst1"
    "f_ops f = PfatFileOps" "filePos f = 0"
    using PFAT_Open_ok [OF M(3,4,5,7) assms(4-10)] by blast
  let ?f = "f\<lparr>f_mode := O_READ, mountPoint := i\<rparr>"
  define s1 where "s1 = set_mount i (m\<lparr>mp_fsData := Some inst1\<rparr>) (io s) s"
  have op: "Open pfat_vtables path O_READ s = Some (0, Some ?f, s1)"
    using assms(2,3) M o(1) by (simp add: Open_def Do_Open_def Do_Open_File_def s1_def flip: m_def)
  have s1: "i < length (s_mountPointList s1)" "s_mountPointList s1 ! i = m\<lparr>mp_fsData := Some inst1\<rparr>" "io s1 = io s"
    using M(1) by (simp_all add: s1_def set_mount_def)
  have cl: "length (contents disk bs e) = nat (fileSize e)" by (rule length_contents [OF M(6) assms(10,9)])
  let ?buf = "map (garbage (io s)) [0..<nat (fileSize e)]"
  have "\<exists>s2 inst2. read_loop pfat_vtables (fileSize e) 0 ?buf ?f s1 = Some (0, contents disk bs e, ?f, s2)
    \<and> s2 = set_mount i (m\<lparr>mp_fsData := Some inst2\<rparr>) (io s) s \<and> inst_ok disk inst2 \<and> same_disk inst inst2"
  proof (cases "fileSize e = 0")
    case True
    with cl have "contents disk bs e = []" by simp
    with True show ?thesis using o(2,3)
      by (subst read_loop.simps) (auto simp: s1_def open_ok_def)
  next
    case False
    with assms(7,8) have z: "0 < fileSize e" "unat (word_of_int (fileSize e) :: u32) = nat (fileSize e)"
      by (simp_all add: unat_int_small)
    have of: "open_ok disk d (m\<lparr>mp_fsData := Some inst1\<rparr>) inst1 ?f j e bs" using o(2) by (simp add: open_ok_def)
    obtain inst2 where r: "PFAT_Read (word_of_int (fileSize e)) ?f (m\<lparr>mp_fsData := Some inst1\<rparr>) (io s)
        = Some (fileSize e, contents disk bs e, ?f, m\<lparr>mp_fsData := Some inst2\<rparr>, io s)"
      "inst_ok disk inst2" "same_disk inst1 inst2"
      using PFAT_Read_range [OF of M(6,7), of "word_of_int (fileSize e)"] z cl o(5)
      by (auto simp: open_ok_def)
    let ?s2 = "set_mount i (m\<lparr>mp_fsData := Some inst2\<rparr>) (io s) s1"
    have rd: "Read pfat_vtables ?f (word_of_int (fileSize e - 0)) s1 = Some (fileSize e, contents disk bs e, ?f, ?s2)"
      using r(1) s1 o(4) by (simp add: Read_def on_file_def)
    have sa: "store_at (nat 0) (contents disk bs e) ?buf = Some (contents disk bs e)"
      using cl by (simp add: store_at_def)
    have "read_loop pfat_vtables (fileSize e) (0 + fileSize e) (contents disk bs e) ?f ?s2
        = Some (0, contents disk bs e, ?f, ?s2)" by (subst read_loop.simps) simp
    with rd sa z(1) have "read_loop pfat_vtables (fileSize e) 0 ?buf ?f s1 = Some (0, contents disk bs e, ?f, ?s2)"
      by (subst read_loop.simps) simp
    moreover have "?s2 = set_mount i (m\<lparr>mp_fsData := Some inst2\<rparr>) (io s) s" by (simp add: s1_def set_mount_def)
    ultimately show ?thesis using r(2,3) o(3) same_disk_trans by blast
  qed
  then obtain s2 inst2 where l: "read_loop pfat_vtables (fileSize e) 0 ?buf ?f s1 = Some (0, contents disk bs e, ?f, s2)"
    "s2 = set_mount i (m\<lparr>mp_fsData := Some inst2\<rparr>) (io s) s" "inst_ok disk inst2" "same_disk inst inst2" by blast
  have s2: "i < length (s_mountPointList s2)" "s_mountPointList s2 ! i = m\<lparr>mp_fsData := Some inst2\<rparr>" "io s2 = io s"
    "map pathPrefix (s_mountPointList s2) = map pathPrefix (s_mountPointList s)"
    using M(1) by (simp_all add: l(2) set_mount_def map_update m_def [symmetric])
      (metis M(1) list_update_id m_def map_update)
  have "set_mount i (s_mountPointList s2 ! i) (io s2) s2 = s2" by (rule set_mount_same)
  then have close: "Close pfat_vtables ?f s2 = Some (0, s2)"
    using s2(1) o(4) by (simp add: Close_def on_file_def PFAT_Close_def)
  have sz: "st_size (Copy_Stat e) = fileSize e" by (simp add: Copy_Stat_def)
  have io1: "s1\<lparr>io := io s\<rparr> = s1" using s1(3) by (cases s1) simp
  have "Read_Fully pfat_vtables path s = Some (0, Some (contents disk bs e), s2)"
    using assms(7) M(7) close by (simp add: Read_Fully_def st op sz Malloc_ok s1(3) io1 l(1))
  moreover have "mounted disk d s2 i inst2" using M s2 l(3) by (simp add: mounted_def)
  ultimately show ?thesis using l(4) s2(4) by blast
qed


text \<open>A file system with one file of three bytes, \<open>/d/a\<close>, in block 2.\<close>

definition toy_disk :: "int \<Rightarrow> u8 list" where
  "toy_disk b = replicate 512 (word_of_int b)"

definition toy_entry :: directory_entry where
  "toy_entry = \<lparr>de_bytes = 97 # replicate 27 0, readOnly = False, hidden = False, systemFile = False,
     volumeLabel = False, directory = False, de_time = 0, de_date = 0, firstBlock = 2, fileSize = 3\<rparr>"

definition toy_info :: boot_sector where
  "toy_info = \<lparr>magic = PFAT_MAGIC, fileAllocationOffset = 1, fileAllocationLength = 1, rootDirectoryOffset = 9,
     rootDirectoryCount = 1, setupStart = 0, setupSize = 0, kernelStart = 0, kernelSize = 0\<rparr>"

definition toy_inst :: "pfat_file list \<Rightarrow> pfat_instance" where
  "toy_inst fs = \<lparr>fsinfo = toy_info, fat = [0, 0, 1], rootDir = [toy_entry],
     rootDirEntry = fake_root_entry toy_info, fileList = fs\<rparr>"

definition toy_world :: io_world where
  "toy_world = \<lparr>mallocs = [], garbage = (\<lambda>_. 7), s_deviceList = [\<lparr>bd_name = [105], bd_unit = 0, bd_inUse = True,
     drv_Open = 0, drv_Close = 0, drv_Get_Num_Blocks = 10, drv_transfer = (\<lambda>_ b _. (0, toy_disk b))\<rparr>],
     s_pagingDevice = None\<rparr>"

definition toy_mount :: "pfat_instance \<Rightarrow> pfat_mount" where
  "toy_mount inst = \<lparr>mp_ops = Some PfatMountPointOps, pathPrefix = [100], mp_dev = Some 0, mp_fsData = Some inst\<rparr>"

definition toy_vfs :: "(pfat_ops, pfat_instance) vfs" where
  "toy_vfs = \<lparr>s_filesystemList = [], s_mountPointList = [toy_mount (toy_inst [])], io = toy_world\<rparr>"

lemma toy_readable: "readable toy_disk bs"
  by (simp add: readable_def toy_disk_def)

lemma toy_disk_ok: "disk_ok toy_disk 0 toy_world"
  by (simp add: disk_ok_def toy_world_def toy_disk_def)

lemma toy_blocks: "entry_of (toy_inst fs) (Dir_Entry 0) = Some toy_entry" "file_blocks (toy_inst fs) toy_entry = Some [2]"
  by (simp_all add: toy_inst_def entry_of_def file_blocks_def blocks_for_def toy_entry_def
      FAT_ENTRY_FREE_def FAT_ENTRY_EOF_def)

lemma toy_contents: "contents toy_disk [2] toy_entry = [2, 2, 2]"
  by (simp add: contents_def toy_disk_def toy_entry_def numeral_eq_Suc)

lemma toy_lookup: "PFAT_Lookup (toy_inst fs) [47, 97] = Some (Some (Dir_Entry 0))"
  by (simp add: PFAT_Lookup_def SLASH_def lookup_loop.simps toy_blocks name_matches_def)
    (simp add: toy_inst_def toy_info_def toy_entry_def)

lemma toy_mounted: "mounted toy_disk 0 toy_vfs 0 (toy_inst [])"
  using toy_disk_ok by (simp add: mounted_def toy_vfs_def toy_mount_def inst_ok_def) (simp add: toy_inst_def toy_world_def)



section \<open>Mounting\<close>

definition sectors :: "(int \<Rightarrow> u8 list) \<Rightarrow> int \<Rightarrow> nat \<Rightarrow> u8 list" where
  "sectors disk off n = concat (map (\<lambda>k. disk (off + int k)) [0..<n])"

lemma sectors_Suc: "sectors disk off (Suc n) = sectors disk off n @ disk (off + int n)"
  by (simp add: sectors_def)

definition sectors_readable :: "(int \<Rightarrow> u8 list) \<Rightarrow> int \<Rightarrow> nat \<Rightarrow> bool" where
  "sectors_readable disk off n \<longleftrightarrow> (\<forall>k < n. disk (off + int k) \<noteq> [])"

lemma length_sectors:
  "disk_ok disk d w \<Longrightarrow> sectors_readable disk off n \<Longrightarrow> length (sectors disk off n) = 512 * n"
proof (induction n)
  case (Suc n)
  then show ?case by (simp add: sectors_Suc sectors_readable_def disk_length)
qed (simp add: sectors_def)

lemma read_fat_ok:
  assumes "disk_ok disk d w" "mallocs w = []" "length buf = 512 * n" "i \<le> n" "take (i * 512) buf = sectors disk off i"
    and "sectors_readable disk off n"
  shows "read_fat d off (int n) i buf w = Some (0, sectors disk off n, w)"
  using assms(3-5)
proof (induction "n - i" arbitrary: i buf)
  case 0
  then show ?case by (subst read_fat.simps) (simp add: mult.commute)
next
  case (Suc k)
  then have i: "i < n" by simp
  then have r: "i * 512 + 512 \<le> length buf" using Suc.prems(1) by simp
  have ne: "disk (off + int i) \<noteq> []" and sr: "sectors_readable disk off i"
    using assms(6) i by (simp_all add: sectors_readable_def)
  note dl = disk_length [OF assms(1) ne]
  have rd: "Block_Read d (off + int i) (take 512 (drop (i * 512) buf)) w = Some (0, disk (off + int i), w)"
    by (rule Block_Read_disk [OF assms(1,2) _ ne]) (use r in simp)
  let ?buf = "take (i * 512) buf @ disk (off + int i) @ drop (i * 512 + 512) buf"
  have st: "store_at (i * 512) (disk (off + int i)) buf = Some ?buf" using r by (simp add: store_at_def dl)
  have "k = n - Suc i" using Suc.hyps(2) by simp
  moreover have "length ?buf = 512 * n" using Suc.prems(1) r dl by simp
  moreover have "take (Suc i * 512) ?buf = sectors disk off (Suc i)"
    using Suc.prems(3) r length_sectors [OF assms(1) sr] dl by (simp add: sectors_Suc)
  ultimately have "read_fat d off (int n) (Suc i) ?buf w = Some (0, sectors disk off n, w)"
    using Suc.hyps(1) [of "Suc i" ?buf] i by simp
  with i r rd st show ?case by (subst read_fat.simps) simp
qed

lemma decode_list_total:
  assumes "\<And>g. length g = k \<Longrightarrow> d g \<noteq> None" "n * k \<le> length f"
  shows "\<exists>xs. decode_list d k n f = Some xs \<and> length xs = n"
  using assms(2)
proof (induction n arbitrary: f)
  case (Suc n)
  then have "length (take k f) = k" by simp
  with assms(1) obtain x where x: "d (take k f) = Some x" by blast
  have "n * k \<le> length (drop k f)" using Suc.prems by simp
  then obtain xs where "decode_list d k n (drop k f) = Some xs" "length xs = n" using Suc.IH by blast
  with x show ?case by simp
qed simp

lemma decode_entry_total: "length g = 28 \<Longrightarrow> decode_entry g \<noteq> None"
  by (simp add: decode_entry_def rd_short_def rd_int_def rd16_def rd32_def)

lemma decode_entry_bytes: "decode_entry g = Some e \<Longrightarrow> de_bytes e = g"
  by (auto simp: decode_entry_def bind_eq_Some_conv)

lemma decode_list_all:
  "decode_list d k n f = Some xs \<Longrightarrow> n * k \<le> length f \<Longrightarrow> x \<in> set xs \<Longrightarrow> \<exists>g. length g = k \<and> d g = Some x"
proof (induction n arbitrary: f xs)
  case (Suc n)
  then obtain y ys where y: "d (take k f) = Some y" "decode_list d k n (drop k f) = Some ys" "xs = y # ys"
    by (auto simp: bind_eq_Some_conv)
  have "n * k \<le> length (drop k f)" "length (take k f) = k" using Suc.prems(2) by simp_all
  show ?case
  proof (cases "x = y")
    case True
    with y(1) \<open>length (take k f) = k\<close> show ?thesis by blast
  next
    case False
    with Suc.IH [OF y(2) \<open>n * k \<le> _\<close>] y(3) Suc.prems(3) show ?thesis by auto
  qed
qed simp

lemma lookup_loop_total:
  assumes "\<forall>e \<in> set (rootDir inst). length (de_bytes e) = 28" "length path < 28"
    "rootDirectoryCount (fsinfo inst) \<le> int (length (rootDir inst))"
  shows "\<exists>r. lookup_loop inst path i = Some r \<and> (\<forall>entry. r = Some entry \<longrightarrow> entry_of inst entry \<noteq> None)"
  using assms
proof (induction inst path i rule: lookup_loop.induct)
  case (1 inst path i)
  show ?case
  proof (cases "int i < rootDirectoryCount (fsinfo inst)")
    case True
    with "1.prems"(3) have i: "i < length (rootDir inst)" by simp
    then have e: "entry_of inst (Dir_Entry i) = Some (rootDir inst ! i)" by (simp add: entry_of_def)
    have l: "length (de_bytes (rootDir inst ! i)) = 28" using "1.prems"(1) i by simp
    have "take (length (de_bytes (rootDir inst ! i))) path \<noteq> de_bytes (rootDir inst ! i)"
    proof
      assume "take (length (de_bytes (rootDir inst ! i))) path = de_bytes (rootDir inst ! i)"
      then have "length (take 28 path) = 28" using l by simp
      with "1.prems"(2) show False by simp
    qed
    then have "name_matches (rootDir inst ! i) path \<noteq> None"
      by (cases "0 \<in> set (de_bytes (rootDir inst ! i))") (simp_all add: name_matches_def)
    then obtain b where b: "name_matches (rootDir inst ! i) path = Some b" by blast
    show ?thesis
    proof (cases b)
      case True
      with \<open>int i < _\<close> e b show ?thesis by (subst lookup_loop.simps) simp
    next
      case False
      with "1.IH" [OF True e b False] "1.prems" True e b show ?thesis by (subst lookup_loop.simps) simp
    qed
  next
    case False
    then show ?thesis by (subst lookup_loop.simps) simp
  qed
qed

text \<open>What mounting may change of the world: a paging device may be registered.\<close>

lemma PFAT_Register_Paging_File_total:
  assumes "\<forall>e \<in> set (rootDir inst). length (de_bytes e) = 28" "mallocs w = []"
    "rootDirectoryCount (fsinfo inst) \<le> int (length (rootDir inst))"
  shows "\<exists>p. PFAT_Register_Paging_File m inst w = Some (w\<lparr>s_pagingDevice := p\<rparr>)"
proof -
  obtain r where r: "PFAT_Lookup inst PAGEFILE_FILENAME = Some r"
    "\<And>entry. r = Some entry \<Longrightarrow> entry_of inst entry \<noteq> None"
    using lookup_loop_total [OF assms(1) _ assms(3), of "drop 1 PAGEFILE_FILENAME" 0]
    by (auto simp: PFAT_Lookup_def PAGEFILE_FILENAME_def SLASH_def)
  have same: "\<exists>p. w = w\<lparr>s_pagingDevice := p\<rparr>" by (rule exI [of _ "s_pagingDevice w"]) simp
  show ?thesis
  proof (cases "s_pagingDevice w")
    case None
    show ?thesis
    proof (cases r)
      case (Some entry)
      with r(2) obtain e where "entry_of inst entry = Some e" by blast
      with None Some r(1) assms(2) show ?thesis
        by (simp add: PFAT_Register_Paging_File_def Get_Paging_Device_def Malloc_ok Register_Paging_Device_def) blast
    next
      case no: None
      with None r(1) same show ?thesis by (auto simp: PFAT_Register_Paging_File_def Get_Paging_Device_def)
    qed
  next
    case (Some p)
    with same show ?thesis by (auto simp: PFAT_Register_Paging_File_def Get_Paging_Device_def)
  qed
qed

lemma Round_Up_unat:
  assumes "unat n < 2147483648"
  shows "unat (Round_Up_To_Block n) = 512 * ((unat n + 511) div 512)"
proof -
  have s: "unat SECTOR_SIZE = 512" by (simp add: SECTOR_SIZE_def)
  have "unat (Round_Up_To_Block n) mod 512 = 0"
  proof (cases "n mod SECTOR_SIZE = 0")
    case True
    have "unat n mod 512 = unat (n mod SECTOR_SIZE)" by (simp add: unat_mod s)
    with True show ?thesis by (simp add: Round_Up_To_Block_def)
  next
    case False
    have r: "unat (n mod SECTOR_SIZE) = unat n mod 512" by (simp add: unat_mod s)
    have "n mod SECTOR_SIZE \<le> SECTOR_SIZE" by (simp add: word_le_nat_alt r s)
    then have "unat (SECTOR_SIZE - n mod SECTOR_SIZE) = 512 - unat n mod 512" by (simp add: unat_sub r s)
    moreover have "unat n + (512 - unat n mod 512) < 4294967296" using assms by simp
    ultimately have "unat (n + (SECTOR_SIZE - n mod SECTOR_SIZE)) = unat n + (512 - unat n mod 512)"
      by (simp add: unat_plus_if')
    also have "\<dots> = 512 * (unat n div 512 + 1)"
    proof -
      define q r where "q = unat n div 512" and "r = unat n mod 512"
      have "unat n = 512 * q + r" "r < 512" by (simp_all add: q_def r_def)
      then show ?thesis unfolding q_def [symmetric] r_def [symmetric] by simp
    qed
    finally show ?thesis using False by (simp add: Round_Up_To_Block_def)
  qed
  moreover have "unat (Round_Up_To_Block n) div 512 = (unat n + 511) div 512"
    using Round_Up_blocks [OF assms] by (simp add: unat_div s)
  ultimately show ?thesis by (metis add.right_neutral mult_div_mod_eq)
qed

definition info_ok :: "boot_sector \<Rightarrow> bool" where
  "info_ok info \<longleftrightarrow> magic info = PFAT_MAGIC \<and> 0 < fileAllocationOffset info \<and> 0 < fileAllocationLength info
     \<and> 0 \<le> rootDirectoryCount info \<and> 0 < rootDirectoryOffset info"

lemma dir_size:
  assumes "0 \<le> n" "n \<le> 262144"
  shows "unat (Round_Up_To_Block (word_of_nat DIR_ENTRY_SIZE * word_of_int n)) = 512 * ((28 * nat n + 511) div 512)"
    "sint (Round_Up_To_Block (word_of_nat DIR_ENTRY_SIZE * word_of_int n)) = int (512 * ((28 * nat n + 511) div 512))"
proof -
  have "unat (word_of_int n :: u32) = nat n" using assms by (simp add: unat_int_small)
  then have u: "unat (word_of_nat DIR_ENTRY_SIZE * word_of_int n :: u32) = 28 * nat n"
    using assms by (simp add: DIR_ENTRY_SIZE_def unat_word_ariths)
  with assms show r: "unat (Round_Up_To_Block (word_of_nat DIR_ENTRY_SIZE * word_of_int n)) = 512 * ((28 * nat n + 511) div 512)"
    by (subst Round_Up_unat) simp_all
  have "28 * nat n + 511 \<le> 8000000" using assms by simp
  then have "512 * ((28 * nat n + 511) div 512) \<le> 8000000" using div_times_less_eq_dividend by (metis le_trans mult.commute)
  then show "sint (Round_Up_To_Block (word_of_nat DIR_ENTRY_SIZE * word_of_int n)) = int (512 * ((28 * nat n + 511) div 512))"
    using sint_small [of "Round_Up_To_Block (word_of_nat DIR_ENTRY_SIZE * word_of_int n)"] r by simp
qed

lemma dir_sectors:
  fixes c :: nat
  assumes "0 < c" "c \<le> 262144"
  shows "0 < (28 * c + 511) div 512" "(28 * c + 511) div 512 \<le> 14336" "((28 * c + 511) div 512 = 1) = (c \<le> 18)"
proof -
  define q r where "q = (28 * c + 511) div 512" and "r = (28 * c + 511) mod 512"
  have "28 * c + 511 = 512 * q + r" "r < 512" by (simp_all add: q_def r_def)
  with assms have "0 < q \<and> q \<le> 14336 \<and> (q = 1) = (c \<le> 18)" by auto
  then show "0 < (28 * c + 511) div 512" "(28 * c + 511) div 512 \<le> 14336" "((28 * c + 511) div 512 = 1) = (c \<le> 18)"
    by (simp_all add: q_def)
qed

lemma read_root_dir_sectors:
  assumes "disk_ok disk d w" "mallocs w = []" "length buf = 512 * k" "0 < k" "k \<le> 14336" "disk off \<noteq> []"
  shows "read_root_dir d off (512 * k) 0 buf w = (if k = 1 then Some (0, disk off, w) else None)"
proof -
  note dl = disk_length [OF assms(1,6)]
  have len: "length (take 512 buf) = 512" using assms(3,4) by simp
  note rd = Block_Read_disk [OF assms(1,2) len assms(6)]
  have st: "store_at 0 (disk off) buf = Some (disk off @ drop 512 buf)"
    using assms(3,4) by (simp add: store_at_def dl)
  have l: "length (disk off @ drop 512 buf) = 512 * k" using assms(3,4) by (simp add: dl)
  have "read_root_dir d off (512 * k) 0 buf w = read_root_dir d off (512 * k) 512 (disk off @ drop 512 buf) w"
    using assms(3,4) rd st by (subst read_root_dir.simps) (simp add: DIR_ENTRY_SIZE_def)
  also have "\<dots> = (if k = 1 then Some (0, disk off, w) else None)"
    using assms(3-5) l by (subst read_root_dir.simps) (simp add: DIR_ENTRY_SIZE_def)
  finally show ?thesis .
qed

text \<open>What \<open>PFAT_Mount\<close> does after the last sector has been read.\<close>

definition mount_rest :: "pfat_mount \<Rightarrow> boot_sector \<Rightarrow> int list \<Rightarrow> u8 list \<Rightarrow> io_world
    \<Rightarrow> (int \<times> pfat_mount \<times> io_world) option" where
  "mount_rest m info ft dirBuf w = do {
     dir \<leftarrow> decode_list decode_entry DIR_ENTRY_SIZE (length dirBuf div DIR_ENTRY_SIZE) dirBuf;
     let inst = \<lparr>fsinfo = info, fat = ft, rootDir = dir, rootDirEntry = fake_root_entry info, fileList = []\<rparr>;
     w \<leftarrow> PFAT_Register_Paging_File m inst w;
     Some (0, m\<lparr>mp_ops := Some PfatMountPointOps, mp_fsData := Some inst\<rparr>, w) }"

lemma mount_rest_ok:
  assumes "mallocs w = []" "rootDirectoryCount info \<le> int (length dirBuf div 28)"
  shows "\<exists>dir p. decode_list decode_entry 28 (length dirBuf div 28) dirBuf = Some dir
    \<and> mount_rest m info ft dirBuf w = Some (0, m\<lparr>mp_ops := Some PfatMountPointOps,
        mp_fsData := Some \<lparr>fsinfo = info, fat = ft, rootDir = dir, rootDirEntry = fake_root_entry info, fileList = []\<rparr>\<rparr>,
        w\<lparr>s_pagingDevice := p\<rparr>)"
proof -
  let ?n = "length dirBuf div 28"
  have le: "?n * 28 \<le> length dirBuf" by simp
  obtain dir where dir: "decode_list decode_entry 28 ?n dirBuf = Some dir" "length dir = ?n"
    using decode_list_total [of 28 decode_entry ?n dirBuf] decode_entry_total le by blast
  let ?inst = "\<lparr>fsinfo = info, fat = ft, rootDir = dir, rootDirEntry = fake_root_entry info, fileList = []\<rparr>"
  have "\<forall>e \<in> set dir. length (de_bytes e) = 28"
    using decode_list_all [OF dir(1) le] decode_entry_bytes by blast
  then obtain p where "PFAT_Register_Paging_File m ?inst w = Some (w\<lparr>s_pagingDevice := p\<rparr>)"
    using PFAT_Register_Paging_File_total [of ?inst w m] assms dir(2) by auto
  with dir show ?thesis by (auto simp: mount_rest_def DIR_ENTRY_SIZE_def)
qed

lemma PFAT_Mount_disk:
  assumes "disk_ok disk d w" and "mallocs w = []" and "mp_dev m = Some d"
    and "decode_boot_sector (drop 482 (disk 0)) = Some info"
    and "fileAllocationLength info < 1048576" and "rootDirectoryCount info \<le> 262144"
    and "disk 0 \<noteq> []" and "sectors_readable disk (fileAllocationOffset info) (nat (fileAllocationLength info))"
    and "disk (rootDirectoryOffset info) \<noteq> []"
  shows "if \<not> info_ok info then PFAT_Mount m w = Some (EINVALIDFS, m, w)
    else if rootDirectoryCount info \<le> 18 then
      \<exists>inst p. PFAT_Mount m w = Some (0, m\<lparr>mp_ops := Some PfatMountPointOps, mp_fsData := Some inst\<rparr>, w\<lparr>s_pagingDevice := p\<rparr>)
        \<and> fsinfo inst = info \<and> fileList inst = []
        \<and> decode_list (\<lambda>f. rd_int f 0) 4 (128 * nat (fileAllocationLength info))
            (sectors disk (fileAllocationOffset info) (nat (fileAllocationLength info))) = Some (fat inst)
        \<and> (if rootDirectoryCount info = 0 then rootDir inst = []
           else decode_list decode_entry 28 18 (disk (rootDirectoryOffset info)) = Some (rootDir inst))
    else PFAT_Mount m w = None"
proof -
  note dl = disk_length [OF assms(1,9)]
  have boot: "Block_Read d 0 (map (garbage w) [0..<512]) w = Some (0, disk 0, w)"
    by (rule Block_Read_disk [OF assms(1,2) _ assms(7)]) simp
  show ?thesis
  proof (cases "info_ok info")
    case False
    then show ?thesis
      using assms(2,3,4) boot by (auto simp: PFAT_Mount_def Malloc_ok PFAT_BOOT_RECORD_OFFSET_def info_ok_def Let_def)
  next
    case True
    note ok = this
    define n where "n = nat (fileAllocationLength info)"
    have n: "fileAllocationLength info = int n" "0 < n" "n < 1048576"
      using True assms(5) by (simp_all add: n_def info_ok_def)
    have fb: "unat (word_of_int (fileAllocationLength info * 512) :: u32) = 512 * n"
      using n by (subst unat_int_small) (simp_all add: nat_mult_distrib)
    have ft: "read_fat d (fileAllocationOffset info) (fileAllocationLength info) 0 (map (garbage w) [0..<512 * n]) w
        = Some (0, sectors disk (fileAllocationOffset info) n, w)"
      using assms(8) unfolding n(1) by (intro read_fat_ok [OF assms(1,2)]) (simp_all add: sectors_def)
    obtain fl where fl: "decode_list (\<lambda>f. rd_int f 0) 4 (128 * n) (sectors disk (fileAllocationOffset info) n) = Some fl"
      using decode_list_total [of 4 "\<lambda>f. rd_int f 0" "128 * n" "sectors disk (fileAllocationOffset info) n"]
        length_sectors [OF assms(1), of "fileAllocationOffset info" n] assms(8) n(1)
      by (auto simp: rd_int_def rd32_def)
    have c: "0 \<le> rootDirectoryCount info" using True by (simp add: info_ok_def)
    note sz = dir_size [OF c assms(6)]
    let ?size = "Round_Up_To_Block (word_of_nat DIR_ENTRY_SIZE * word_of_int (rootDirectoryCount info))"
    let ?k = "(28 * nat (rootDirectoryCount info) + 511) div 512"
    have P: "PFAT_Mount m w = do {
        (rc, dirBuf, w) \<leftarrow> (if sint ?size \<le> 0 then Some (0, [], w)
          else read_root_dir d (rootDirectoryOffset info) (unat ?size) 0 (map (garbage w) [0..<unat ?size]) w);
        (if rc < 0 then Some (rc, m, w) else mount_rest m info fl dirBuf w) }"
      using assms(2,3,4) boot True n(2) fb ft fl
      by (simp add: PFAT_Mount_def Malloc_ok PFAT_BOOT_RECORD_OFFSET_def info_ok_def mount_rest_def Let_def
          not_less not_le split del: if_split cong: if_cong)
    show ?thesis
    proof (cases "rootDirectoryCount info = 0")
      case True
      then have s0: "sint ?size \<le> 0" using sz(2) by simp
      obtain p where "mount_rest m info fl [] w = Some (0, m\<lparr>mp_ops := Some PfatMountPointOps,
        mp_fsData := Some \<lparr>fsinfo = info, fat = fl, rootDir = [], rootDirEntry = fake_root_entry info, fileList = []\<rparr>\<rparr>,
        w\<lparr>s_pagingDevice := p\<rparr>)"
        using mount_rest_ok [OF assms(2), of info "[]" m fl] True by auto
      with P s0 have run: "PFAT_Mount m w = Some (0, m\<lparr>mp_ops := Some PfatMountPointOps,
        mp_fsData := Some \<lparr>fsinfo = info, fat = fl, rootDir = [], rootDirEntry = fake_root_entry info, fileList = []\<rparr>\<rparr>,
        w\<lparr>s_pagingDevice := p\<rparr>)" by simp
      show ?thesis
        by (simp add: ok True, intro exI conjI, rule run) (simp_all add: fl [unfolded n_def])
    next
      case False
      define k where "k = ?k"
      have "0 < nat (rootDirectoryCount info)" "nat (rootDirectoryCount info) \<le> 262144"
        using False c assms(6) by simp_all
      note ks = dir_sectors [OF this]
      have k: "0 < k" "k \<le> 14336" "(k = 1) = (rootDirectoryCount info \<le> 18)"
        using ks c by (simp_all add: k_def nat_le_iff del: div_greater_zero_iff)
      have u: "unat ?size = 512 * k" "\<not> sint ?size \<le> 0" using sz k(1) unfolding k_def by simp_all
      have rd: "read_root_dir d (rootDirectoryOffset info) (unat ?size) 0 (map (garbage w) [0..<unat ?size]) w
          = (if k = 1 then Some (0, disk (rootDirectoryOffset info), w) else None)"
        unfolding u(1) by (rule read_root_dir_sectors [OF assms(1,2) _ k(1,2) assms(9)]) simp
      show ?thesis
      proof (cases "rootDirectoryCount info \<le> 18")
        case small: True
        then obtain dir p where dir: "decode_list decode_entry 28 18 (disk (rootDirectoryOffset info)) = Some dir"
          "mount_rest m info fl (disk (rootDirectoryOffset info)) w = Some (0, m\<lparr>mp_ops := Some PfatMountPointOps,
            mp_fsData := Some \<lparr>fsinfo = info, fat = fl, rootDir = dir, rootDirEntry = fake_root_entry info, fileList = []\<rparr>\<rparr>,
            w\<lparr>s_pagingDevice := p\<rparr>)"
          using mount_rest_ok [OF assms(2), of info "disk (rootDirectoryOffset info)" m fl] dl by auto
        from P u(2) rd k(3) small dir(2) have run: "PFAT_Mount m w = Some (0, m\<lparr>mp_ops := Some PfatMountPointOps,
            mp_fsData := Some \<lparr>fsinfo = info, fat = fl, rootDir = dir, rootDirEntry = fake_root_entry info, fileList = []\<rparr>\<rparr>,
            w\<lparr>s_pagingDevice := p\<rparr>)" by simp
        show ?thesis
          by (simp add: ok small False, intro exI conjI, rule run) (simp_all add: fl [unfolded n_def] dir(1))
      next
        case big: False
        with P u(2) rd k(3) ok show ?thesis by simp
      qed
    qed
  qed
qed


text \<open>
  A disk with a boot record, the FAT in block 1 and a root directory of one entry in block 2.
\<close>

definition boot_bytes :: "u8 list" where
  "boot_bytes = [0, 0, 50, 120, 1, 0, 0, 0, 1, 0, 0, 0, 2, 0, 0, 0, 1, 0, 0, 0, 0, 0, 0, 0, 0, 0, 0, 0, 85, 170]"

definition boot_disk :: "int \<Rightarrow> u8 list" where
  "boot_disk b = (if b = 0 then replicate 482 0 @ boot_bytes else replicate 512 (word_of_int b))"

definition boot_world :: io_world where
  "boot_world = toy_world\<lparr>s_deviceList := [(s_deviceList toy_world ! 0)\<lparr>drv_transfer := (\<lambda>_ b _. (0, boot_disk b))\<rparr>]\<rparr>"


end
