(* ===== verification/BuildFat.thy ===== *)
theory BuildFat
  imports Pfat "HOL-Library.Signed_Division"
begin

text \<open>
  The host tool \<open>src/tools/buildFat.c\<close>, which writes a PFAT file system into a disk image.  The
  host's files are a map from names to contents; \<open>open\<close> of an existing file, \<open>calloc\<close> and
  \<open>malloc\<close> succeed.  A read returns what is left of the file up to the size of the buffer, a write
  past the end of the image extends it.  \<open>heap\<close> is what the block that \<open>malloc\<close> returns
  contains, \<open>bSector0\<close> and \<open>stack\<close> what the local variables \<open>bSector\<close> and \<open>buffer\<close> contain before they are set.
  Code that exits returns its exit code; \<open>None\<close> is an access outside of an object or a failed
  assertion.  A file that is the image itself is not modelled (\<open>None\<close>).
\<close>

section \<open>The tool\<close>

type_synonym host = "u8 list \<Rightarrow> u8 list option"

datatype 'a ctl = Exit int host | Go 'a

definition roundToNextBlock :: "int \<Rightarrow> int" where
  "roundToNextBlock x = (if x smod 512 = 0 then x else s32 (x + 512 - x smod 512))"

definition write_at :: "nat \<Rightarrow> u8 list \<Rightarrow> u8 list \<Rightarrow> u8 list" where
  "write_at pos bs img = take pos (img @ replicate (pos - length img) 0) @ bs @ drop (pos + length bs) img"

definition le32 :: "int \<Rightarrow> u8 list" where
  "le32 v = (let w = word_of_int v :: u32 in [ucast w, ucast (drop_bit 8 w), ucast (drop_bit 16 w), ucast (drop_bit 24 w)])"

definition le16 :: "int \<Rightarrow> u8 list" where
  "le16 v = (let w = word_of_int v :: u16 in [ucast w, ucast (drop_bit 8 w)])"

definition encode_boot_sector :: "boot_sector \<Rightarrow> u8 list" where
  "encode_boot_sector b = le32 (magic b) @ le32 (fileAllocationOffset b) @ le32 (fileAllocationLength b)
     @ le32 (rootDirectoryOffset b) @ le32 (rootDirectoryCount b)
     @ le16 (setupStart b) @ le16 (setupSize b) @ le16 (kernelStart b) @ le16 (kernelSize b)"

text \<open>The variables of \<open>main\<close> that the loop over the files changes.\<close>

record bf_state =
  bSector :: boot_sector
  bf_fat :: "int list"
  bf_dir :: "u8 list"
  firstFreeBlock :: int
  bf_image :: "u8 list"

definition fat_store :: "int \<Rightarrow> int \<Rightarrow> int list \<Rightarrow> int list option" where
  "fat_store i v ft = (if 0 \<le> i \<and> nat i < length ft then Some (ft[nat i := v]) else None)"

text \<open>The loop that chains all blocks of a file but the last; \<open>False\<close> when the image is full.\<close>

fun chain_loop :: "int \<Rightarrow> nat \<Rightarrow> int list \<Rightarrow> int \<Rightarrow> (bool \<times> int list \<times> int) option" where
  "chain_loop limit 0 ft ff = Some (True, ft, ff)"
| "chain_loop limit (Suc n) ft ff = do {
     ft \<leftarrow> fat_store ff (ff + 1) ft;
     (if ff + 1 > limit then Some (False, ft, ff + 1) else chain_loop limit n ft (ff + 1))
   }"

fun copy_loop :: "nat \<Rightarrow> u8 list \<Rightarrow> nat \<Rightarrow> u8 list \<Rightarrow> u8 list" where
  "copy_loop 0 rest pos img = img"
| "copy_loop (Suc n) rest pos img =
     copy_loop n (drop 512 rest) (pos + length (take 512 rest)) (write_at pos (take 512 rest) img)"

text \<open>The part of a path behind the last slash, and \<open>strncpy\<close> of the host with its padding.\<close>

definition base_name :: "u8 list \<Rightarrow> u8 list" where
  "base_name f = rev (takeWhile (\<lambda>c. c \<noteq> SLASH) (rev f))"

definition strncpy12 :: "u8 list \<Rightarrow> u8 list" where
  "strncpy12 name = take 12 (name @ replicate 12 0)"

text \<open>One round of the loop over the files.\<close>

definition add_file ::
  "host \<Rightarrow> u8 list \<Rightarrow> bool \<Rightarrow> int \<Rightarrow> nat \<Rightarrow> u8 list \<Rightarrow> bf_state \<Rightarrow> bf_state ctl option" where
  "add_file fs imageFile writeBoot diskSize i filename s = do {
     let first = firstFreeBlock s;
     dir \<leftarrow> store_at (28 * i + 20) (le32 first) (bf_dir s);
     (case fs filename of
        None \<Rightarrow> Some (Exit (-1) (fs(imageFile \<mapsto> bf_image s)))
      | Some content \<Rightarrow> do {
          kassert (filename \<noteq> imageFile);
          let size1 = s32 (int (length content));
          let numBlocks = roundToNextBlock size1 sdiv 512;
          dir \<leftarrow> store_at (28 * i + 24) (le32 size1) dir;
          let boot = (if writeBoot \<and> i = 0 then (bSector s)\<lparr>setupStart := first, setupSize := numBlocks\<rparr>
            else if writeBoot \<and> i = 1 then (bSector s)\<lparr>kernelStart := first, kernelSize := numBlocks\<rparr>
            else bSector s);
          (ok, ft, ff) \<leftarrow> chain_loop (diskSize sdiv 512) (nat (numBlocks - 1)) (bf_fat s) first;
          (if \<not> ok then Some (Exit (-1) (fs(imageFile \<mapsto> bf_image s)))
           else do {
             ft \<leftarrow> fat_store ff (uint FAT_ENTRY_EOF) ft;
             dir \<leftarrow> store_at (28 * i) (strncpy12 (base_name filename)) dir;
             Some (Go \<lparr>bSector = boot, bf_fat = ft, bf_dir = dir, firstFreeBlock = ff + 1,
               bf_image = copy_loop (nat numBlocks) content (nat (first * 512)) (bf_image s)\<rparr>)
           })
        })
   }"

fun files_loop ::
  "host \<Rightarrow> u8 list \<Rightarrow> bool \<Rightarrow> int \<Rightarrow> nat \<Rightarrow> u8 list list \<Rightarrow> bf_state \<Rightarrow> bf_state ctl option" where
  "files_loop fs imageFile writeBoot diskSize i [] s = Some (Go s)"
| "files_loop fs imageFile writeBoot diskSize i (f # files) s = do {
     r \<leftarrow> add_file fs imageFile writeBoot diskSize i f s;
     (case r of Exit c h \<Rightarrow> Some (Exit c h) | Go s \<Rightarrow> files_loop fs imageFile writeBoot diskSize (Suc i) files s)
   }"

text \<open>\<open>argv\<close> has the name of the program first; the entry behind the last is the null pointer.\<close>

definition buildFat ::
  "u8 list list \<Rightarrow> host \<Rightarrow> (nat \<Rightarrow> u8) \<Rightarrow> boot_sector \<Rightarrow> (nat \<Rightarrow> u8) \<Rightarrow> (int \<times> host) option" where
  "buildFat argv fs heap bSector0 stack =
     (if length argv \<le> 1 then Some (-1, fs)
      else let writeBoot = (argv ! 1 = [45, 98]);
               curr = (if writeBoot then 4 else 2)
           in case (if curr - 1 < length argv then fs (argv ! (curr - 1)) else None) of
                None \<Rightarrow> Some (-1, fs)
              | Some img \<Rightarrow>
                 (let imageFile = argv ! (curr - 1);
                      fileCount = int (length argv) - int curr;
                      diskSize = s32 (int (length img))
                  in if diskSize smod 512 \<noteq> 0 then Some (-1, fs)
                     else do {
                       let blocks = diskSize sdiv 512;
                       let falen = roundToNextBlock blocks sdiv 512 * 4;
                       let boot = bSector0\<lparr>magic := PFAT_MAGIC, fileAllocationOffset := 1, fileAllocationLength := falen,
                         rootDirectoryOffset := falen + 1, rootDirectoryCount := fileCount\<rparr>;
                       let img = (if writeBoot
                         then write_at 0 (let boot = (case fs (argv ! 2) of Some b \<Rightarrow> take 512 b | None \<Rightarrow> [])
                           in boot @ map stack [length boot..<512]) img
                         else img);
                       let first = falen + 1 + roundToNextBlock (28 * fileCount) sdiv 512;
                       r \<leftarrow> files_loop fs imageFile writeBoot diskSize 0 (drop curr argv)
                         \<lparr>bSector = boot, bf_fat = replicate (nat blocks) 0, bf_dir = map heap [0..<nat (28 * fileCount)],
                          firstFreeBlock = first, bf_image = img\<rparr>;
                       (case r of
                          Exit c h \<Rightarrow> Some (c, h)
                        | Go s \<Rightarrow>
                           let img = write_at 512 (concat (map le32 (bf_fat s))) (bf_image s);
                               img = write_at (nat (rootDirectoryOffset (bSector s) * 512)) (bf_dir s) img;
                               img = write_at PFAT_BOOT_RECORD_OFFSET (encode_boot_sector (bSector s)) img
                           in Some (0, fs(imageFile \<mapsto> img)))
                     }))"

section \<open>Pieces of an image\<close>

definition slice :: "nat \<Rightarrow> nat \<Rightarrow> 'a list \<Rightarrow> 'a list" where
  "slice a n xs = take n (drop a xs)"

lemma slice_slice: "i + n \<le> m \<Longrightarrow> slice i n (slice a m xs) = slice (a + i) n xs"
  by (simp add: slice_def drop_take min_def add.commute)

lemma length_slice: "a + n \<le> length xs \<Longrightarrow> length (slice a n xs) = n"
  by (simp add: slice_def)

lemma slice_Suc: "slice a (n + m) xs = slice a n xs @ slice (a + n) m xs"
  using take_add [of n m "drop a xs"] by (simp add: slice_def add.commute)

lemma write_at_in:
  assumes "pos + length bs \<le> length img"
  shows "write_at pos bs img = take pos img @ bs @ drop (pos + length bs) img"
  using assms by (simp add: write_at_def)

lemma length_write_at: "pos + length bs \<le> length img \<Longrightarrow> length (write_at pos bs img) = length img"
  by (simp add: write_at_in)

lemma slice_write_inside:
  assumes "pos + length bs \<le> length img" "i + n \<le> length bs"
  shows "slice (pos + i) n (write_at pos bs img) = slice i n bs"
  using assms by (simp add: write_at_in slice_def)

lemma slice_write_outside:
  assumes "pos + length bs \<le> length img" "a + n \<le> pos \<or> pos + length bs \<le> a"
  shows "slice a n (write_at pos bs img) = slice a n img"
proof (cases "a + n \<le> pos")
  case True
  then obtain k where "pos = a + n + k" using le_Suc_ex by blast
  with assms(1) show ?thesis by (simp add: write_at_in slice_def drop_take)
next
  case False
  with assms(2) have "pos + length bs \<le> a" by simp
  then obtain k where "a = pos + length bs + k" using le_Suc_ex by blast
  with assms(1) show ?thesis by (simp add: write_at_in slice_def add.commute add.left_commute)
qed

lemma write_at_two:
  assumes "pos + length xs + length ys \<le> length img"
  shows "write_at (pos + length xs) ys (write_at pos xs img) = write_at pos (xs @ ys) img"
  using assms by (simp add: write_at_in length_write_at ac_simps)

lemma copy_loop_write:
  "length rest \<le> 512 * n \<Longrightarrow> pos + length rest \<le> length img \<Longrightarrow> copy_loop n rest pos img = write_at pos rest img"
proof (induction n arbitrary: rest pos img)
  case 0
  then show ?case by (simp add: write_at_def)
next
  case (Suc n)
  let ?a = "take 512 rest" and ?b = "drop 512 rest"
  have l: "length ?a + length ?b = length rest" by simp
  then have "copy_loop n ?b (pos + length ?a) (write_at pos ?a img)
      = write_at (pos + length ?a) ?b (write_at pos ?a img)"
    using Suc.prems by (intro Suc.IH) (auto simp: length_write_at)
  also have "\<dots> = write_at pos (?a @ ?b) img" using Suc.prems l by (intro write_at_two) linarith
  finally show ?case by simp
qed

lemma length_le32 [simp]: "length (le32 v) = 4"
  by (simp add: le32_def Let_def)

lemma length_le16 [simp]: "length (le16 v) = 2"
  by (simp add: le16_def Let_def)

lemma rd_le32:
  assumes "slice i 4 f = le32 v" "i + 4 \<le> length f" "- 2147483648 \<le> v" "v < 2147483648"
  shows "rd_int f i = Some v"
proof -
  define w :: u32 where "w = word_of_int v"
  have n: "f ! (i + k) = le32 v ! k" if "k < 4" for k
    using assms(1,2) that by (simp add: slice_def flip: assms(1))
  have "byte_at f i = ucast w" "byte_at f (i + 1) = ucast (drop_bit 8 w)" "byte_at f (i + 2) = ucast (drop_bit 16 w)"
    "byte_at f (i + 3) = ucast (drop_bit 24 w)"
    using assms(2) n [of 0] n [of 1] n [of 2] n [of 3] by (simp_all add: byte_at_def le32_def Let_def flip: w_def)
  then have "load32 (byte_at f) i = w" unfolding load32_def by (simp only: word_of_bytes)
  moreover have "sint w = v"
    unfolding w_def using assms(3,4) by (simp add: sint_sbintrunc' signed_take_bit_int_eq_self)
  ultimately show ?thesis using assms(2) by (simp add: rd_int_def rd32_def)
qed
section \<open>What the loop over the files leaves\<close>

definition blocks_needed :: "u8 list \<Rightarrow> nat" where
  "blocks_needed c = max 1 ((length c + 511) div 512)"

text \<open>The first block of file \<open>i\<close>, when the blocks from \<open>a\<close> on are free.\<close>

definition start_of :: "nat \<Rightarrow> u8 list list \<Rightarrow> nat \<Rightarrow> nat" where
  "start_of a cs i = a + sum_list (map blocks_needed (take i cs))"

definition file_laid :: "nat \<Rightarrow> nat \<Rightarrow> u8 list \<Rightarrow> u8 list \<Rightarrow> bf_state \<Rightarrow> bool" where
  "file_laid b i f c s \<longleftrightarrow>
     slice (28 * i) 12 (bf_dir s) = strncpy12 (base_name f)
     \<and> slice (28 * i + 20) 4 (bf_dir s) = le32 (int b) \<and> slice (28 * i + 24) 4 (bf_dir s) = le32 (int (length c))
     \<and> slice (512 * b) (length c) (bf_image s) = c
     \<and> (\<forall>j. j + 1 < blocks_needed c \<longrightarrow> bf_fat s ! (b + j) = int (b + j + 1))"

definition laid :: "nat \<Rightarrow> (u8 list \<times> u8 list) list \<Rightarrow> bf_state \<Rightarrow> bf_state \<Rightarrow> bool" where
  "laid a files s0 s \<longleftrightarrow> firstFreeBlock s = int (start_of a (map snd files) (length files))
     \<and> (\<exists>ss sz ks kz. bSector s = (bSector s0)\<lparr>setupStart := ss, setupSize := sz, kernelStart := ks, kernelSize := kz\<rparr>)
     \<and> length (bf_fat s) = length (bf_fat s0) \<and> length (bf_dir s) = length (bf_dir s0)
     \<and> length (bf_image s) = length (bf_image s0)
     \<and> (\<forall>i. slice (28 * i + 12) 1 (bf_dir s) = slice (28 * i + 12) 1 (bf_dir s0))
     \<and> (\<forall>i < length files. file_laid (start_of a (map snd files) i) i (fst (files ! i)) (snd (files ! i)) s)
     \<and> (\<forall>v \<in> set (bf_fat s). 0 \<le> v \<and> v < 2147483648)"

lemma sdiv_512 [simp]: "0 \<le> x \<Longrightarrow> x sdiv 512 = x div 512" for x :: int
  by (simp add: signed_divide_int_def sgn_if)

lemma smod_512 [simp]: "0 \<le> x \<Longrightarrow> x smod 512 = x mod 512" for x :: int
  by (cases "x = 0") (simp_all add: signed_modulo_int_def)

lemma round_blocks:
  assumes "n \<le> 2147483136"
  shows "roundToNextBlock (int n) sdiv 512 = int ((n + 511) div 512)"
proof -
  define q r where "q = n div 512" and "r = n mod 512"
  have n: "n = 512 * q + r" "r < 512" by (simp_all add: q_def r_def)
  have m: "int n mod 512 = int r" by (simp add: r_def zmod_int)
  show ?thesis
  proof (cases "r = 0")
    case True
    with m have "roundToNextBlock (int n) = int n" by (simp add: roundToNextBlock_def)
    with n True show ?thesis by simp
  next
    case False
    have "int n + 512 - int r = 512 * (int q + 1)" using n by simp
    moreover have "q < 4194303" using assms n False by arith
    then have "s32 (int n + 512 - int r) = int n + 512 - int r" using n by (intro s32_id) linarith+
    ultimately have "roundToNextBlock (int n) = 512 * (int q + 1)"
      using m False by (simp add: roundToNextBlock_def)
    moreover have "(n + 511) div 512 = q + 1" using n False by simp
    ultimately show ?thesis by simp
  qed
qed

lemma chain_loop_ok:
  assumes "b + n < length ft" "int (b + n) \<le> limit"
  shows "\<exists>ft'. chain_loop limit n ft (int b) = Some (True, ft', int (b + n)) \<and> length ft' = length ft
    \<and> (\<forall>j < n. ft' ! (b + j) = int (b + j + 1)) \<and> (\<forall>k. k < b \<or> b + n \<le> k \<longrightarrow> ft' ! k = ft ! k)
    \<and> set ft' \<subseteq> set ft \<union> {0..int (b + n)}"
  using assms
proof (induction n arbitrary: b ft)
  case (Suc n)
  let ?ft = "ft[b := int b + 1]"
  from Suc.IH [of "Suc b" ?ft] Suc.prems obtain ft' where
    ft': "chain_loop limit n ?ft (int b + 1) = Some (True, ft', int b + 1 + int n)" "length ft' = length ft"
    "\<forall>j < n. ft' ! (Suc b + j) = int (Suc b + j + 1)" "\<forall>k. k < Suc b \<or> Suc b + n \<le> k \<longrightarrow> ft' ! k = ?ft ! k"
    "set ft' \<subseteq> set ?ft \<union> {0..int (b + Suc n)}"
    by (auto simp: add.commute)
  have "chain_loop limit (Suc n) ft (int b) = Some (True, ft', int (b + Suc n))"
    using Suc.prems ft'(1) by (simp add: fat_store_def algebra_simps)
  moreover have "ft' ! (b + j) = int (b + j + 1)" if "j < Suc n" for j
    using ft'(3,4) that Suc.prems by (cases j) auto
  moreover have "ft' ! k = ft ! k" if "k < b \<or> b + Suc n \<le> k" for k
    using ft'(4) that by auto
  moreover have "set ft' \<subseteq> set ft \<union> {0..int (b + Suc n)}"
    using ft'(5) set_update_subset_insert [of ft b "int b + 1"] by auto
  ultimately show ?case using ft'(2) by blast
qed auto

lemma store_at_write: "n + length bs \<le> length buf \<Longrightarrow> store_at n bs buf = Some (write_at n bs buf)"
  by (simp add: store_at_def write_at_in)

lemma start_of_snoc:
  "start_of a (cs @ [c]) (length cs) = start_of a cs (length cs)"
  "start_of a (cs @ [c]) (Suc (length cs)) = start_of a cs (length cs) + blocks_needed c"
  "i \<le> length cs \<Longrightarrow> start_of a (cs @ [c]) i = start_of a cs i"
  by (simp_all add: start_of_def)

lemma start_of_next:
  assumes "i < length cs"
  shows "start_of a cs i + blocks_needed (cs ! i) \<le> start_of a cs (length cs)"
proof -
  have "sum_list (map blocks_needed (take (Suc i) cs)) \<le> sum_list (map blocks_needed cs)"
    by (metis append_take_drop_id le_add1 map_append sum_list_append)
  with assms show ?thesis by (simp add: start_of_def take_Suc_conv_app_nth)
qed

lemma blocks_needed_bytes: "length c \<le> 512 * blocks_needed c"
proof -
  define q r where "q = (length c + 511) div 512" and "r = (length c + 511) mod 512"
  have "length c + 511 = 512 * q + r" "r < 512" by (simp_all add: q_def r_def)
  then have "length c \<le> 512 * q" by simp
  then show ?thesis by (simp add: blocks_needed_def q_def max_def)
qed
lemma length_strncpy12 [simp]: "length (strncpy12 n) = 12"
  by (simp add: strncpy12_def)

text \<open>The entry written for a file, and the parts of the directory that stay.\<close>

definition put_entry :: "nat \<Rightarrow> u8 list \<Rightarrow> int \<Rightarrow> int \<Rightarrow> u8 list \<Rightarrow> u8 list" where
  "put_entry i f b sz dir = write_at (28 * i) (strncpy12 (base_name f))
     (write_at (28 * i + 24) (le32 sz) (write_at (28 * i + 20) (le32 b) dir))"

lemma put_entry_slices:
  assumes "28 * i + 28 \<le> length dir"
  shows "length (put_entry i f b sz dir) = length dir"
    and "slice (28 * i) 12 (put_entry i f b sz dir) = strncpy12 (base_name f)"
    and "slice (28 * i + 20) 4 (put_entry i f b sz dir) = le32 b"
    and "slice (28 * i + 24) 4 (put_entry i f b sz dir) = le32 sz"
    and "p + m \<le> 28 * i \<or> 28 * i + 28 \<le> p \<or> 28 * i + 12 \<le> p \<and> p + m \<le> 28 * i + 20
      \<Longrightarrow> slice p m (put_entry i f b sz dir) = slice p m dir"
proof -
  let ?d1 = "write_at (28 * i + 20) (le32 b) dir"
  let ?d2 = "write_at (28 * i + 24) (le32 sz) ?d1"
  have l: "length ?d1 = length dir" "length ?d2 = length dir" using assms by (simp_all add: length_write_at)
  show "length (put_entry i f b sz dir) = length dir" using assms l by (simp add: put_entry_def length_write_at)
  show "slice (28 * i) 12 (put_entry i f b sz dir) = strncpy12 (base_name f)"
    using slice_write_inside [of "28 * i" "strncpy12 (base_name f)" ?d2 0 12] assms l
    by (simp add: put_entry_def) (simp add: slice_def)
  have o: "slice p m (put_entry i f b sz dir) = slice p m ?d2" if "p + m \<le> 28 * i \<or> 28 * i + 12 \<le> p" for p m
    using assms l that unfolding put_entry_def by (intro slice_write_outside) auto
  have o2: "slice p m ?d2 = slice p m ?d1" if "p + m \<le> 28 * i + 24 \<or> 28 * i + 28 \<le> p" for p m
    using assms l that by (intro slice_write_outside) auto
  have o1: "slice p m ?d1 = slice p m dir" if "p + m \<le> 28 * i + 20 \<or> 28 * i + 24 \<le> p" for p m
    using assms that by (intro slice_write_outside) auto
  show "slice (28 * i + 20) 4 (put_entry i f b sz dir) = le32 b"
    using slice_write_inside [of "28 * i + 20" "le32 b" dir 0 4] assms by (simp add: o o2) (simp add: slice_def)
  show "slice (28 * i + 24) 4 (put_entry i f b sz dir) = le32 sz"
    using slice_write_inside [of "28 * i + 24" "le32 sz" ?d1 0 4] assms l by (simp add: o) (simp add: slice_def)
  show "p + m \<le> 28 * i \<or> 28 * i + 28 \<le> p \<or> 28 * i + 12 \<le> p \<and> p + m \<le> 28 * i + 20
      \<Longrightarrow> slice p m (put_entry i f b sz dir) = slice p m dir"
    using o [of p m] o2 [of p m] o1 [of p m] by auto
qed

lemma add_file_run:
  assumes f: "fs f = Some c" "f \<noteq> img" and first: "firstFreeBlock s = int b" and b: "b + blocks_needed c \<le> B"
    and B: "length (bf_fat s) = B" "length (bf_image s) = 512 * B" "B < 4194304"
    and d: "28 * i + 28 \<le> length (bf_dir s)"
  shows "\<exists>ft ss sz ks kz. add_file fs img wb (int (512 * B)) i f s = Some (Go
      \<lparr>bSector = (bSector s)\<lparr>setupStart := ss, setupSize := sz, kernelStart := ks, kernelSize := kz\<rparr>,
       bf_fat = ft, bf_dir = put_entry i f (int b) (int (length c)) (bf_dir s),
       firstFreeBlock = int (b + blocks_needed c), bf_image = write_at (512 * b) c (bf_image s)\<rparr>)
    \<and> length ft = B \<and> (\<forall>j. j + 1 < blocks_needed c \<longrightarrow> ft ! (b + j) = int (b + j + 1))
    \<and> (\<forall>k < b. ft ! k = bf_fat s ! k) \<and> set ft \<subseteq> set (bf_fat s) \<union> {0..int B}"
proof -
  define q where "q = (length c + 511) div 512"
  have nb: "blocks_needed c = max 1 q" by (simp add: blocks_needed_def q_def)
  have lc: "length c \<le> 512 * q"
    using blocks_needed_bytes [of c] by (cases "c = []") (auto simp: nb max_def q_def split: if_splits)
  have fit: "512 * b + length c \<le> 512 * B" using blocks_needed_bytes [of c] b by linarith
  have s1: "s32 (int (length c)) = int (length c)" using fit B(3) by (intro s32_id) linarith+
  have nbk: "roundToNextBlock (int (length c)) sdiv 512 = int q"
    unfolding q_def by (rule round_blocks) (use fit B(3) in linarith)
  have k: "nat (int q - 1) = blocks_needed c - 1" by (auto simp: nb max_def)
  have nb1: "1 \<le> blocks_needed c" by (simp add: nb)
  then have "b + (blocks_needed c - 1) < length (bf_fat s)" "int (b + (blocks_needed c - 1)) \<le> int B"
    using b B(1) by linarith+
  from chain_loop_ok [OF this] obtain ft where
    ft: "chain_loop (int B) (nat (int q - 1)) (bf_fat s) (int b) = Some (True, ft, int (b + (blocks_needed c - 1)))"
      "length ft = B" "\<forall>j < blocks_needed c - 1. ft ! (b + j) = int (b + j + 1)"
      "\<forall>k. k < b \<or> b + (blocks_needed c - 1) \<le> k \<longrightarrow> ft ! k = bf_fat s ! k"
      "set ft \<subseteq> set (bf_fat s) \<union> {0..int (b + (blocks_needed c - 1))}" unfolding k B(1) by blast
  let ?e = "b + (blocks_needed c - 1)"
  have e: "fat_store (int ?e) (uint FAT_ENTRY_EOF) ft = Some (ft[?e := 1])"
    unfolding fat_store_def nat_int using nb1 b ft(2) by (simp add: FAT_ENTRY_EOF_def del: of_nat_add of_nat_diff)
  have cp: "copy_loop q c (nat (int b * 512)) (bf_image s) = write_at (512 * b) c (bf_image s)"
    using copy_loop_write [OF lc, of "512 * b" "bf_image s"] fit B(2) by (simp add: nat_mult_distrib mult.commute)
  have dir: "store_at (28 * i + 20) (le32 (int b)) (bf_dir s) = Some (write_at (28 * i + 20) (le32 (int b)) (bf_dir s))"
    "store_at (28 * i + 24) (le32 (int (length c))) (write_at (28 * i + 20) (le32 (int b)) (bf_dir s))
      = Some (write_at (28 * i + 24) (le32 (int (length c))) (write_at (28 * i + 20) (le32 (int b)) (bf_dir s)))"
    "store_at (28 * i) (strncpy12 (base_name f)) (write_at (28 * i + 24) (le32 (int (length c)))
        (write_at (28 * i + 20) (le32 (int b)) (bf_dir s)))
      = Some (put_entry i f (int b) (int (length c)) (bf_dir s))"
    using d by (simp_all add: store_at_write length_write_at put_entry_def)
  have lim: "int (512 * B) sdiv 512 = int B" by simp
  have ff: "int ?e + 1 = int (b + blocks_needed c)" using nb1 by simp
  have run: "\<exists>ss sz ks kz. add_file fs img wb (int (512 * B)) i f s = Some (Go
      \<lparr>bSector = (bSector s)\<lparr>setupStart := ss, setupSize := sz, kernelStart := ks, kernelSize := kz\<rparr>,
       bf_fat = ft[?e := 1], bf_dir = put_entry i f (int b) (int (length c)) (bf_dir s),
       firstFreeBlock = int (b + blocks_needed c), bf_image = write_at (512 * b) c (bf_image s)\<rparr>)"
  proof -
    define boot where "boot = (if wb \<and> i = 0 then (bSector s)\<lparr>setupStart := int b, setupSize := int q\<rparr>
            else if wb \<and> i = 1 then (bSector s)\<lparr>kernelStart := int b, kernelSize := int q\<rparr> else bSector s)"
    have "add_file fs img wb (int (512 * B)) i f s = Some (Go
      \<lparr>bSector = boot, bf_fat = ft[?e := 1], bf_dir = put_entry i f (int b) (int (length c)) (bf_dir s),
       firstFreeBlock = int (b + blocks_needed c), bf_image = write_at (512 * b) c (bf_image s)\<rparr>)"
      unfolding add_file_def Let_def first dir(1) f(1) option.case bind.bind_lunit s1 nbk dir(2) lim ft(1) dir(3) e prod.case
        boot_def [symmetric] ff nat_int cp
      using f(2) by simp
    moreover have "\<exists>ss sz ks kz. boot = (bSector s)\<lparr>setupStart := ss, setupSize := sz, kernelStart := ks, kernelSize := kz\<rparr>"
      unfolding boot_def by (cases "bSector s") auto
    ultimately show ?thesis by auto
  qed
  moreover have "set (ft[?e := 1]) \<subseteq> set (bf_fat s) \<union> {0..int B}"
    using ft(5) set_update_subset_insert [of ft ?e 1] b by (force simp: nb)
  moreover have "ft[?e := 1] ! (b + j) = int (b + j + 1)" if "j + 1 < blocks_needed c" for j
    using ft(3) that by simp
  moreover have "ft[?e := 1] ! k = bf_fat s ! k" if "k < b" for k using ft(4) that by simp
  ultimately show ?thesis using ft(2) by (metis length_list_update)
qed

lemma file_laid_keep:
  assumes l: "file_laid b i f c s" and "i < n" and "28 * n + 28 \<le> length (bf_dir s)"
    and "b + blocks_needed c \<le> b'" and "512 * b' + length c' \<le> length (bf_image s)"
    and d: "bf_dir s' = put_entry n f' v sz (bf_dir s)" and i: "bf_image s' = write_at (512 * b') c' (bf_image s)"
    and "\<forall>k < b'. bf_fat s' ! k = bf_fat s ! k"
  shows "file_laid b i f c s'"
proof -
  have e: "28 * i + 28 \<le> 28 * n" using assms(2) by simp
  have c: "512 * b + length c \<le> 512 * b'" using assms(4) blocks_needed_bytes [of c] by linarith
  have "slice p m (bf_dir s') = slice p m (bf_dir s)" if "p + m \<le> 28 * n" for p m
    unfolding d using put_entry_slices(5) [OF assms(3)] that by blast
  moreover have "slice (512 * b) (length c) (bf_image s') = slice (512 * b) (length c) (bf_image s)"
    unfolding i using assms(5) c by (intro slice_write_outside) auto
  moreover have "bf_fat s' ! (b + j) = bf_fat s ! (b + j)" if "j + 1 < blocks_needed c" for j
    using assms(4,8) that by simp
  ultimately show ?thesis using l e by (simp add: file_laid_def)
qed

lemma add_file_laid:
  assumes l: "laid a files s0 s" and f: "fs f = Some c" "f \<noteq> img"
    and b: "start_of a (map snd files) (length files) + blocks_needed c \<le> B"
    and B: "length (bf_fat s0) = B" "length (bf_image s0) = 512 * B" "B < 4194304"
    and d: "28 * length files + 28 \<le> length (bf_dir s0)"
  shows "\<exists>s'. add_file fs img wb (int (512 * B)) (length files) f s = Some (Go s') \<and> laid a (files @ [(f, c)]) s0 s'"
proof -
  let ?n = "length files" and ?cs = "map snd files"
  let ?b = "start_of a ?cs ?n"
  have L: "firstFreeBlock s = int ?b" "length (bf_fat s) = B" "length (bf_image s) = 512 * B"
    "length (bf_dir s) = length (bf_dir s0)"
    "\<exists>ss sz ks kz. bSector s = (bSector s0)\<lparr>setupStart := ss, setupSize := sz, kernelStart := ks, kernelSize := kz\<rparr>"
    "\<And>i. slice (28 * i + 12) 1 (bf_dir s) = slice (28 * i + 12) 1 (bf_dir s0)"
    "\<And>i. i < ?n \<Longrightarrow> file_laid (start_of a ?cs i) i (fst (files ! i)) (snd (files ! i)) s"
    "\<And>v. v \<in> set (bf_fat s) \<Longrightarrow> 0 \<le> v \<and> v < 2147483648"
    using l B by (simp_all add: laid_def)
  have dir: "28 * ?n + 28 \<le> length (bf_dir s)" using d L(4) by simp
  obtain ft ss sz ks kz where run: "add_file fs img wb (int (512 * B)) ?n f s = Some (Go
      \<lparr>bSector = (bSector s)\<lparr>setupStart := ss, setupSize := sz, kernelStart := ks, kernelSize := kz\<rparr>,
       bf_fat = ft, bf_dir = put_entry ?n f (int ?b) (int (length c)) (bf_dir s),
       firstFreeBlock = int (?b + blocks_needed c), bf_image = write_at (512 * ?b) c (bf_image s)\<rparr>)"
    (is "_ = Some (Go ?s')")
    and ft: "length ft = B" "\<forall>j. j + 1 < blocks_needed c \<longrightarrow> ft ! (?b + j) = int (?b + j + 1)"
    "\<forall>k < ?b. ft ! k = bf_fat s ! k" "set ft \<subseteq> set (bf_fat s) \<union> {0..int B}"
    using add_file_run [where fs = fs and b = ?b and i = ?n and wb = wb, OF f L(1) b L(2,3) B(3) dir] by blast
  have fit: "512 * ?b + length c \<le> length (bf_image s)" using b blocks_needed_bytes [of c] L(3) by linarith
  note st = start_of_snoc [where a = a and cs = ?cs and c = c, simplified]
  have "file_laid (start_of a (?cs @ [c]) i) i (fst ((files @ [(f, c)]) ! i)) (snd ((files @ [(f, c)]) ! i)) ?s'"
    if "i < Suc ?n" for i
  proof (cases "i < ?n")
    case True
    have "start_of a ?cs i + blocks_needed (?cs ! i) \<le> ?b" using start_of_next [of i ?cs a] True by simp
    then have "file_laid (start_of a ?cs i) i (fst (files ! i)) (snd (files ! i)) ?s'"
      using ft(3) True by (intro file_laid_keep [OF L(7) True dir _ fit]) simp_all
    with True show ?thesis by (simp add: st(3) nth_append)
  next
    case False
    with that have i: "i = ?n" by simp
    have "slice (512 * ?b) (length c) (write_at (512 * ?b) c (bf_image s)) = c"
      using slice_write_inside [OF fit, of 0 "length c"] by (simp add: slice_def)
    then show ?thesis using ft(2) put_entry_slices [OF dir] by (simp add: i st(1) file_laid_def)
  qed
  moreover have "slice (28 * i + 12) 1 (put_entry ?n f (int ?b) (int (length c)) (bf_dir s)) = slice (28 * i + 12) 1 (bf_dir s0)" for i
  proof -
    consider "i = ?n" | "28 * i + 28 \<le> 28 * ?n" | "28 * ?n + 28 \<le> 28 * i" by (cases i ?n rule: linorder_cases) auto
    then have "28 * i + 12 + 1 \<le> 28 * ?n \<or> 28 * ?n + 28 \<le> 28 * i + 12 \<or> 28 * ?n + 12 \<le> 28 * i + 12 \<and> 28 * i + 12 + 1 \<le> 28 * ?n + 20"
      by cases auto
    then show ?thesis by (rule trans [OF put_entry_slices(5) [OF dir] L(6)])
  qed
  moreover have "\<exists>ss' sz' ks' kz'. bSector ?s' = (bSector s0)\<lparr>setupStart := ss', setupSize := sz', kernelStart := ks', kernelSize := kz'\<rparr>"
    using L(5) by (elim exE, simp, blast)
  moreover have "0 \<le> v \<and> v < 2147483648" if "v \<in> set ft" for v
    using ft(4) L(8) that B(3) by fastforce
  moreover have "length (write_at (512 * ?b) c (bf_image s)) = 512 * B" using fit L(3) by (simp add: length_write_at)
  ultimately have "laid a (files @ [(f, c)]) s0 ?s'"
    using B ft(1) put_entry_slices(1) [OF dir] L(4) by (simp add: laid_def st(2))
  with run show ?thesis by blast
qed

lemma files_loop_laid:
  assumes "laid a files s0 s" and "\<forall>f \<in> set names. f \<noteq> img \<and> fs f \<noteq> None"
    and "start_of a (map snd files @ map (\<lambda>f. the (fs f)) names) (length files + length names) \<le> B"
    and B: "length (bf_fat s0) = B" "length (bf_image s0) = 512 * B" "B < 4194304"
    and "28 * (length files + length names) \<le> length (bf_dir s0)"
  shows "\<exists>s'. files_loop fs img wb (int (512 * B)) (length files) names s = Some (Go s')
    \<and> laid a (files @ map (\<lambda>f. (f, the (fs f))) names) s0 s'"
  using assms(1,2,3,7)
proof (induction names arbitrary: files s)
  case Nil
  then show ?case by simp
next
  case (Cons f names)
  obtain c where c: "fs f = Some c" "f \<noteq> img" using Cons.prems(2) by auto
  let ?cs = "map snd files @ c # map (\<lambda>f. the (fs f)) names"
  have "start_of a ?cs (length files) + blocks_needed c \<le> start_of a ?cs (length ?cs)"
    using start_of_next [of "length files" ?cs a] by (simp add: nth_append)
  also have "\<dots> \<le> B" using Cons.prems(3) c(1) by simp
  finally have b: "start_of a (map snd files) (length files) + blocks_needed c \<le> B" by (simp add: start_of_def)
  have d: "28 * length files + 28 \<le> length (bf_dir s0)" using Cons.prems(4) by simp
  obtain s1 where s1: "add_file fs img wb (int (512 * B)) (length files) f s = Some (Go s1)" "laid a (files @ [(f, c)]) s0 s1"
    using add_file_laid [where fs = fs and wb = wb, OF Cons.prems(1) c b B d] by blast
  have "\<exists>s'. files_loop fs img wb (int (512 * B)) (length (files @ [(f, c)])) names s1 = Some (Go s')
    \<and> laid a ((files @ [(f, c)]) @ map (\<lambda>f. (f, the (fs f))) names) s0 s'"
    using Cons.prems(2-4) c(1) by (intro Cons.IH [OF s1(2)]) simp_all
  then show ?case using s1(1) c(1) by simp
qed

section \<open>The format\<close>

text \<open>
  The image holds the files: the boot record, the directory at block \<open>root\<close>, and for every file
  its entry, its chain in the FAT, and its bytes in consecutive blocks from \<open>a\<close> on.
\<close>

definition entry_in :: "nat \<Rightarrow> nat \<Rightarrow> nat \<Rightarrow> u8 list \<Rightarrow> u8 list \<Rightarrow> u8 list \<Rightarrow> bool" where
  "entry_in p i b f c img \<longleftrightarrow>
     slice (p + 28 * i) 12 img = strncpy12 (base_name f) \<and> slice (p + 28 * i + 12) 1 img = [0]
     \<and> slice (p + 28 * i + 20) 4 img = le32 (int b) \<and> slice (p + 28 * i + 24) 4 img = le32 (int (length c))"

definition image_has :: "nat \<Rightarrow> nat \<Rightarrow> (u8 list \<times> u8 list) list \<Rightarrow> u8 list \<Rightarrow> bool" where
  "image_has root a files img \<longleftrightarrow>
     slice 482 4 img = le32 PFAT_MAGIC \<and> slice 486 4 img = le32 1 \<and> slice 490 4 img = le32 (int root - 1)
     \<and> slice 494 4 img = le32 (int root) \<and> slice 498 4 img = le32 (int (length files))
     \<and> (\<forall>i < length files. let b = start_of a (map snd files) i; c = snd (files ! i) in
          entry_in (512 * root) i b (fst (files ! i)) c img
          \<and> slice (512 * b) (length c) img = c
          \<and> (\<forall>j. j + 1 < blocks_needed c \<longrightarrow> slice (512 + 4 * (b + j)) 4 img = le32 (int (b + j + 1))))"

definition holds_image :: "(int \<Rightarrow> u8 list) \<Rightarrow> u8 list \<Rightarrow> bool" where
  "holds_image disk img \<longleftrightarrow> (\<forall>b. 512 * b + 512 \<le> length img \<longrightarrow> disk (int b) = slice (512 * b) 512 img)"

lemma holds_imageD: "holds_image disk img \<Longrightarrow> 512 * b + 512 \<le> length img \<Longrightarrow> disk (int b) = slice (512 * b) 512 img"
  by (simp add: holds_image_def)

lemma holds_image_nonempty: "holds_image disk img \<Longrightarrow> 512 * b + 512 \<le> length img \<Longrightarrow> disk (int b) \<noteq> []"
  by (simp add: holds_imageD slice_def)

lemma sectors_image:
  assumes "holds_image disk img"
  shows "512 * (b + n) \<le> length img \<Longrightarrow> sectors disk (int b) n = slice (512 * b) (512 * n) img"
proof (induction n)
  case 0
  then show ?case by (simp add: sectors_def slice_def)
next
  case (Suc n)
  have "disk (int (b + n)) = slice (512 * (b + n)) 512 img"
    by (rule holds_imageD [OF assms]) (use Suc.prems in simp)
  with Suc show ?case using slice_Suc [of "512 * b" "512 * n" 512 img] by (simp add: sectors_Suc algebra_simps)
qed

lemma decode_list_nth:
  "decode_list d k n f = Some xs \<Longrightarrow> i < n \<Longrightarrow> length xs = n \<and> d (slice (k * i) k f) = Some (xs ! i)"
proof (induction n arbitrary: f xs i)
  case (Suc n)
  then obtain y ys where y: "d (take k f) = Some y" "decode_list d k n (drop k f) = Some ys" "xs = y # ys"
    by (auto simp: bind_eq_Some_conv)
  show ?case
  proof (cases i)
    case 0
    have "length ys = n" using Suc.IH [OF y(2)] y(2) by (cases n) auto
    with 0 y show ?thesis by (simp add: slice_def)
  next
    case (Suc j)
    then have "length ys = n \<and> d (slice (k * j) k (drop k f)) = Some (ys ! j)" using Suc.IH [OF y(2)] Suc.prems(2) by simp
    with Suc y show ?thesis by (simp add: slice_def add.commute)
  qed
qed simp

lemma rd_int_slice:
  assumes "slice (p + i) 4 img = le32 v" "i + 4 \<le> m" "p + m \<le> length img" "- 2147483648 \<le> v" "v < 2147483648"
  shows "rd_int (slice p m img) i = Some v"
  using assms by (intro rd_le32) (simp_all add: slice_slice length_slice)

lemma decode_boot_fields:
  assumes "slice 482 4 img = le32 a" "slice 486 4 img = le32 b" "slice 490 4 img = le32 c" "slice 494 4 img = le32 d"
    "slice 498 4 img = le32 e" "512 \<le> length img" "\<forall>v \<in> {a, b, c, d, e}. 0 \<le> v \<and> v < 2147483648"
  shows "\<exists>info. decode_boot_sector (slice 482 30 img) = Some info \<and> magic info = a \<and> fileAllocationOffset info = b
    \<and> fileAllocationLength info = c \<and> rootDirectoryOffset info = d \<and> rootDirectoryCount info = e"
proof -
  have i: "rd_int (slice 482 30 img) 0 = Some a" "rd_int (slice 482 30 img) 4 = Some b" "rd_int (slice 482 30 img) 8 = Some c"
    "rd_int (slice 482 30 img) 12 = Some d" "rd_int (slice 482 30 img) 16 = Some e"
    using assms by (simp_all add: rd_int_slice)
  have "\<exists>v. rd_short (slice 482 30 img) k = Some v" if "k < 28" for k
    using assms(6) that by (simp add: rd_short_def rd16_def length_slice)
  then obtain h where "\<And>k. k < 28 \<Longrightarrow> rd_short (slice 482 30 img) k = Some (h k)" by metis
  then show ?thesis by (simp add: decode_boot_sector_def i)
qed

section \<open>Reading the image back\<close>

lemma entry_decoded:
  assumes "entry_in p i b f c img" "p + 28 * i + 28 \<le> length img" "b < 2147483648" "length c < 2147483648"
  shows "\<exists>e rest. decode_entry (slice (p + 28 * i) 28 img) = Some e \<and> de_bytes e = strncpy12 (base_name f) @ 0 # rest
    \<and> firstBlock e = int b \<and> fileSize e = int (length c) \<and> \<not> directory e"
proof -
  let ?f = "slice (p + 28 * i) 28 img"
  have lf: "length ?f = 28" using assms(2) by (simp add: length_slice)
  have r: "rd_int ?f 20 = Some (int b)" "rd_int ?f 24 = Some (int (length c))"
    using assms by (simp_all add: rd_int_slice entry_in_def)
  have sh: "\<exists>v. rd_short ?f k = Some v" if "k < 20" for k using lf that by (simp add: rd_short_def rd16_def)
  then obtain h where "\<And>k. k < 20 \<Longrightarrow> rd_short ?f k = Some (h k)" by metis
  moreover have n: "slice 0 12 ?f = strncpy12 (base_name f)" and z: "slice 12 1 ?f = [0]"
    using assms(1) by (simp_all add: slice_slice entry_in_def)
  then have z12: "?f ! 12 = 0" using lf by (simp add: slice_def [of 12] take_Suc_conv_app_nth hd_drop_conv_nth flip: hd_conv_nth)
  moreover have "?f = strncpy12 (base_name f) @ 0 # drop 13 ?f"
    using n z12 lf id_take_nth_drop [of 12 ?f] by (simp add: slice_def)
  ultimately show ?thesis by (simp add: decode_entry_def r) blast
qed

lemma fat_chain_consecutive:
  assumes "2 \<le> b" "b + n \<le> length ft" "length ft < 2147483648" "\<forall>j. j + 1 < n \<longrightarrow> ft ! (b + j) = int (b + j + 1)"
  shows "fat_chain ft (word_of_int (int b)) n = Some (map (\<lambda>k. word_of_int (int k)) [b..<b + n])"
  using assms
proof (induction n arbitrary: b)
  case (Suc n)
  let ?w = "word_of_int (int b) :: u32"
  have u: "unat ?w = b" using Suc.prems(2,3) by (subst unat_int_small) simp_all
  then have "?w \<noteq> 0" "?w \<noteq> 1" using Suc.prems(1) by auto
  then have w: "\<not> (?w = FAT_ENTRY_FREE \<or> ?w = FAT_ENTRY_EOF \<or> length ft \<le> unat ?w)"
    using u Suc.prems(2) by (simp add: FAT_ENTRY_FREE_def FAT_ENTRY_EOF_def)
  show ?case
  proof (cases n)
    case 0
    with w show ?thesis by simp
  next
    case (Suc m)
    have "ft ! b = int (Suc b)" using Suc.prems(4) Suc by force
    moreover have "ft ! (Suc b + j) = int (Suc b + j + 1)" if "j + 1 < n" for j
      using Suc.prems(4) that by (metis add_Suc_right add_Suc_shift less_diff_conv less_Suc_eq_le Suc_eq_plus1 Suc_mono)
    then have "fat_chain ft (word_of_int (int (Suc b))) n = Some (map (\<lambda>k. word_of_int (int k)) [Suc b..<Suc b + n])"
      using Suc.prems by (intro Suc.IH) simp_all
    ultimately show ?thesis using w u by (simp add: upt_conv_Cons del: upt_Suc)
  qed
qed simp

lemma contents_consecutive:
  assumes "holds_image disk img" "512 * (b + n) \<le> length img" "b + n < 2147483648" "fileSize e = int sz" "sz \<le> 512 * n"
  shows "contents disk (map (\<lambda>k. word_of_int (int k)) [b..<b + n]) e = slice (512 * b) sz img"
proof -
  have "sint (word_of_int (int k) :: u32) = int k" if "k < b + n" for k
    using that assms(3) by (simp add: sint_sbintrunc' signed_take_bit_int_eq_self del: of_int_of_nat_eq)
  then have "map (\<lambda>w :: u32. disk (sint w)) (map (\<lambda>k. word_of_int (int k)) [b..<b + n]) = map (\<lambda>k. disk (int k)) [b..<b + n]"
    by simp
  also have "\<dots> = map (\<lambda>k. disk (int b + int k)) [0..<n]"
    by (rule nth_equalityI) simp_all
  finally have "concat (map (\<lambda>w :: u32. disk (sint w)) (map (\<lambda>k. word_of_int (int k)) [b..<b + n])) = sectors disk (int b) n"
    by (simp add: sectors_def)
  with assms show ?thesis by (simp add: contents_def sectors_image) (simp add: slice_def min_def)
qed

lemma readable_consecutive:
  assumes "holds_image disk img" "512 * (b + n) \<le> length img" "b + n < 2147483648"
  shows "readable disk (map (\<lambda>k. word_of_int (int k)) [b..<b + n])"
proof -
  have "disk (sint (word_of_int (int k) :: u32)) \<noteq> []" if "k < b + n" for k
  proof -
    have "sint (word_of_int (int k) :: u32) = int k"
      using that assms(3) by (simp add: sint_sbintrunc' signed_take_bit_int_eq_self del: of_int_of_nat_eq)
    then show ?thesis using holds_image_nonempty [OF assms(1), of k] that assms(2) by simp
  qed
  then show ?thesis by (auto simp: readable_def)
qed

lemma lookup_loop_found:
  assumes "k \<le> i" "int i < rootDirectoryCount (fsinfo inst)"
    and "\<forall>m \<le> i. \<exists>e. entry_of inst (Dir_Entry m) = Some e \<and> name_matches e path = Some (m = i)"
  shows "lookup_loop inst path k = Some (Some (Dir_Entry i))"
  using assms
proof (induction "i - k" arbitrary: k)
  case 0
  then obtain e where "entry_of inst (Dir_Entry i) = Some e" "name_matches e path = Some True" by auto
  moreover have "k = i" using 0 by simp
  ultimately show ?case using 0 by (subst lookup_loop.simps) simp
next
  case (Suc d)
  then have k: "k < i" by simp
  then obtain e where "entry_of inst (Dir_Entry k) = Some e" "name_matches e path = Some False"
    using Suc.prems(3) [rule_format, of k] by auto
  moreover have "lookup_loop inst path (Suc k) = Some (Some (Dir_Entry i))" using Suc k by simp
  ultimately show ?case using Suc.prems(2) k by (subst lookup_loop.simps) simp
qed

lemma name_in_entry:
  assumes "de_bytes e = strncpy12 nm @ 0 # rest" "length nm \<le> 12" "0 \<notin> set nm"
  shows "name_matches e path = Some (nm = path)"
proof -
  have "strncpy12 nm @ 0 # rest = nm @ 0 # (replicate (12 - length nm - 1) 0 @ (if length nm < 12 then 0 # rest else rest))"
  proof (cases "length nm < 12")
    case True
    then obtain k where "12 - length nm = Suc k" by (metis Suc_diff_Suc)
    with True show ?thesis by (simp add: strncpy12_def replicate_app_Cons_same)
  qed (use assms(2) in \<open>simp add: strncpy12_def\<close>)
  moreover have "takeWhile (\<lambda>c. c \<noteq> 0) (nm @ 0 # r) = nm" for r
    using assms(3) by (subst takeWhile_append2) auto
  ultimately show ?thesis by (simp add: name_matches_def assms(1))
qed

text \<open>
  The bounds of the layout, for an image of \<open>B\<close> blocks, and the names that can be found again:
  at most twelve bytes behind the last slash, none zero, no two equal.
\<close>

definition layout_ok :: "nat \<Rightarrow> nat \<Rightarrow> nat \<Rightarrow> (u8 list \<times> u8 list) list \<Rightarrow> bool" where
  "layout_ok root a B files \<longleftrightarrow> 1 \<le> length files \<and> length files \<le> 18 \<and> 2 \<le> root \<and> root < 1048576 \<and> B \<le> 128 * (root - 1)
     \<and> 512 * root + 28 * length files \<le> 512 * a \<and> start_of a (map snd files) (length files) \<le> B \<and> B < 4194304"

definition names_ok :: "u8 list list \<Rightarrow> bool" where
  "names_ok names \<longleftrightarrow> distinct (map base_name names)
     \<and> (\<forall>f \<in> set names. base_name f \<noteq> [] \<and> length (base_name f) \<le> 12 \<and> 0 \<notin> set (base_name f))"

lemma layout_bounds:
  assumes "layout_ok root a B files" "i < length files"
  shows "root < a" "a < B" "root < 4194304" "2 \<le> start_of a (map snd files) i"
    "start_of a (map snd files) i + blocks_needed (snd (files ! i)) \<le> B" "length (snd (files ! i)) \<le> 512 * B"
proof -
  have r: "1 \<le> length files" "2 \<le> root" "512 * root + 28 * length files \<le> 512 * a" "start_of a (map snd files) (length files) \<le> B"
    "B < 4194304" using assms(1) by (simp_all add: layout_ok_def)
  then show ra: "root < a" by linarith
  have n: "start_of a (map snd files) i + blocks_needed (snd (files ! i)) \<le> start_of a (map snd files) (length files)"
    using start_of_next [of i "map snd files" a] assms(2) by simp
  with r(4) show fit: "start_of a (map snd files) i + blocks_needed (snd (files ! i)) \<le> B" by simp
  have "1 \<le> blocks_needed (snd (files ! i))" by (simp add: blocks_needed_def)
  moreover have "a \<le> start_of a (map snd files) i" by (simp add: start_of_def)
  ultimately show "a < B" "2 \<le> start_of a (map snd files) i" using fit ra r(2) by simp_all
  with ra r(5) show "root < 4194304" by simp
  show "length (snd (files ! i)) \<le> 512 * B" using blocks_needed_bytes [of "snd (files ! i)"] fit by linarith
qed

lemma image_boot:
  assumes "image_has root a files img" "layout_ok root a B files" "length img = 512 * B" "holds_image disk img"
  shows "\<exists>info. decode_boot_sector (drop 482 (disk 0)) = Some info \<and> magic info = PFAT_MAGIC \<and> fileAllocationOffset info = 1
    \<and> fileAllocationLength info = int (root - 1) \<and> rootDirectoryOffset info = int root \<and> rootDirectoryCount info = int (length files)"
proof -
  have l: "0 < length files" "length files \<le> 18" "2 \<le> root" using assms(2) by (auto simp: layout_ok_def)
  note b = layout_bounds [OF assms(2) l(1)]
  have "disk (int 0) = slice (512 * 0) 512 img" by (rule holds_imageD [OF assms(4)]) (use assms(3) b in simp)
  then have d: "drop 482 (disk 0) = slice 482 30 img" by (simp add: slice_def drop_take)
  have "slice 490 4 img = le32 (int root - 1)" using assms(1) by (simp add: image_has_def)
  moreover have "int root - 1 = int (root - 1)" using l(3) by simp
  ultimately have "slice 490 4 img = le32 (int (root - 1))" by (simp only:)
  then have s: "slice 482 4 img = le32 PFAT_MAGIC" "slice 486 4 img = le32 1" "slice 490 4 img = le32 (int (root - 1))"
    "slice 494 4 img = le32 (int root)" "slice 498 4 img = le32 (int (length files))"
    using assms(1) by (simp_all add: image_has_def)
  have "512 \<le> length img" using assms(3) b by simp
  moreover have "\<forall>v \<in> {PFAT_MAGIC, 1, int (root - 1), int root, int (length files)}. 0 \<le> v \<and> v < 2147483648"
    using l b by (auto simp: PFAT_MAGIC_def)
  ultimately show ?thesis unfolding d by (rule decode_boot_fields [OF s])
qed

text \<open>What the file system knows of one file.\<close>

definition serves :: "(int \<Rightarrow> u8 list) \<Rightarrow> pfat_instance \<Rightarrow> u8 list \<Rightarrow> u8 list \<Rightarrow> bool" where
  "serves disk inst name c \<longleftrightarrow> (\<exists>k e bs. PFAT_Lookup inst (SLASH # name) = Some (Some k) \<and> entry_of inst k = Some e
     \<and> \<not> directory e \<and> fileSize e = int (length c) \<and> file_blocks inst e = Some bs \<and> readable disk bs \<and> contents disk bs e = c)"

lemma image_entry:
  assumes "image_has root a files img" "layout_ok root a B files" "length img = 512 * B" "holds_image disk img"
    and "decode_list decode_entry 28 18 (disk (int root)) = Some dir" and i: "i < length files"
  shows "i < length dir \<and> (\<exists>rest. de_bytes (dir ! i) = strncpy12 (base_name (fst (files ! i))) @ 0 # rest)
    \<and> firstBlock (dir ! i) = int (start_of a (map snd files) i) \<and> fileSize (dir ! i) = int (length (snd (files ! i)))
    \<and> \<not> directory (dir ! i)"
proof -
  note b = layout_bounds [OF assms(2) i]
  have n: "length files \<le> 18" and B: "B < 4194304" using assms(2) by (simp_all add: layout_ok_def)
  have en: "entry_in (512 * root) i (start_of a (map snd files) i) (fst (files ! i)) (snd (files ! i)) img"
    using assms(1) i by (simp add: image_has_def Let_def)
  have "disk (int root) = slice (512 * root) 512 img" by (rule holds_imageD [OF assms(4)]) (use assms(3) b in simp)
  then have sl: "slice (28 * i) 28 (disk (int root)) = slice (512 * root + 28 * i) 28 img"
    using i n by (simp add: slice_slice)
  have fit: "512 * root + 28 * i + 28 \<le> length img" using assms(3) b(1,2) i n by simp
  have sz: "start_of a (map snd files) i < 2147483648" "length (snd (files ! i)) < 2147483648" using b(5,6) B by linarith+
  have "length dir = 18" "decode_entry (slice (512 * root + 28 * i) 28 img) = Some (dir ! i)"
    using decode_list_nth [OF assms(5), of i] i n by (simp_all add: sl)
  then show ?thesis using entry_decoded [OF en fit sz] i n by auto
qed

lemma image_serves:
  assumes im: "image_has root a files img" "layout_ok root a B files" "length img = 512 * B" "holds_image disk img"
    and dir: "decode_list decode_entry 28 18 (disk (int root)) = Some (rootDir inst)"
    and ft: "decode_list (\<lambda>f. rd_int f 0) 4 (128 * (root - 1)) (sectors disk 1 (root - 1)) = Some (fat inst)"
    and c: "rootDirectoryCount (fsinfo inst) = int (length files)" and nm: "names_ok (map fst files)" and i: "i < length files"
  shows "serves disk inst (base_name (fst (files ! i))) (snd (files ! i))"
proof -
  let ?b = "start_of a (map snd files) i" and ?c = "snd (files ! i)" and ?e = "rootDir inst ! i"
  note e = image_entry [OF im dir]
  note b = layout_bounds [OF im(2) i]
  have B: "B < 4194304" "B \<le> 128 * (root - 1)" using im(2) by (simp_all add: layout_ok_def)
  have nth: "base_name (fst (files ! k)) \<noteq> [] \<and> length (base_name (fst (files ! k))) \<le> 12 \<and> 0 \<notin> set (base_name (fst (files ! k)))"
    if "k < length files" for k using nm that by (auto simp: names_ok_def)
  have "\<exists>e. entry_of inst (Dir_Entry k) = Some e \<and> name_matches e (base_name (fst (files ! i))) = Some (k = i)" if "k \<le> i" for k
  proof -
    have k: "k < length files" using that i by simp
    have "base_name (fst (files ! k)) = base_name (fst (files ! i)) \<longleftrightarrow> k = i"
      using nm i k nth_eq_iff_index_eq [of "map base_name (map fst files)" k i] by (simp add: names_ok_def)
    then show ?thesis using e [OF k] name_in_entry nth [OF k] by (auto simp: entry_of_def)
  qed
  then have "lookup_loop inst (base_name (fst (files ! i))) 0 = Some (Some (Dir_Entry i))"
    using i c by (intro lookup_loop_found) simp_all
  then have lk: "PFAT_Lookup inst (SLASH # base_name (fst (files ! i))) = Some (Some (Dir_Entry i))"
    using nth [OF i] by (simp add: PFAT_Lookup_def)
  have r1: "512 * (1 + (root - 1)) \<le> length img" using b(1,2) im(3) by simp
  then have sec: "sectors disk 1 (root - 1) = slice 512 (512 * (root - 1)) img"
    using sectors_image [OF im(4), of 1 "root - 1"] by simp
  have fl: "length (fat inst) = 128 * (root - 1)" using decode_list_nth [OF ft, of 0] b(1) im(2) by (simp add: layout_ok_def)
  define n where "n = blocks_for ?e"
  have n: "n = (length ?c + 511) div 512" "n \<le> blocks_needed ?c" using e [OF i] by (simp_all add: n_def blocks_for_def blocks_needed_def)
  have chain: "\<forall>j. j + 1 < blocks_needed ?c \<longrightarrow> slice (512 + 4 * (?b + j)) 4 img = le32 (int (?b + j + 1))"
    using im(1) i by (simp add: image_has_def Let_def)
  have "fat inst ! (?b + j) = int (?b + j + 1)" if "j + 1 < n" for j
  proof -
    have "slice (512 + 4 * (?b + j)) 4 img = le32 (int (?b + j + 1))"
      using chain that n(2) by simp
    moreover have k: "?b + j < 128 * (root - 1)" using b(5) that n(2) B(2) by simp
    then have "slice (4 * (?b + j)) 4 (sectors disk 1 (root - 1)) = slice (512 + 4 * (?b + j)) 4 img"
      unfolding sec by (intro slice_slice) simp
    ultimately have "slice (4 * (?b + j)) 4 (sectors disk 1 (root - 1)) = le32 (int (?b + j + 1))" by (simp only:)
    then have "rd_int (slice (4 * (?b + j)) 4 (sectors disk 1 (root - 1))) 0 = Some (int (?b + j + 1))"
      using b(5) that n(2) B(1) by (intro rd_le32) (simp_all add: slice_def)
    then show ?thesis using decode_list_nth [OF ft k] by simp
  qed
  then have "fat_chain (fat inst) (word_of_int (int ?b)) n = Some (map (\<lambda>k. word_of_int (int k)) [?b..<?b + n])"
    using b(4,5) n(2) B b(3) fl by (intro fat_chain_consecutive) simp_all
  then have fb: "file_blocks inst ?e = Some (map (\<lambda>k. word_of_int (int k)) [?b..<?b + n])"
    using e [OF i] by (simp add: file_blocks_def n_def)
  have "length ?c \<le> 512 * n" unfolding n(1) by simp
  then have "contents disk (map (\<lambda>k. word_of_int (int k)) [?b..<?b + n]) ?e = slice (512 * ?b) (length ?c) img"
    using b(5) n(2) B(1) e [OF i] im(3) by (intro contents_consecutive [OF im(4)]) simp_all
  also have "\<dots> = ?c" using im(1) i by (simp add: image_has_def Let_def)
  finally have ct: "contents disk (map (\<lambda>k. word_of_int (int k)) [?b..<?b + n]) ?e = ?c" .
  have "readable disk (map (\<lambda>k. word_of_int (int k)) [?b..<?b + n])"
    using b(5) n(2) B(1) im(3) by (intro readable_consecutive [OF im(4)]) simp_all
  with ct show ?thesis using lk fb e [OF i] by (auto simp: serves_def entry_of_def)
qed

section \<open>What the tool writes\<close>

lemma length_concat_le32: "length (concat (map le32 vs)) = 4 * length vs"
  by (induction vs) simp_all

lemma slice_concat_le32: "k < length vs \<Longrightarrow> slice (4 * k) 4 (concat (map le32 vs)) = le32 (vs ! k)"
proof (induction vs arbitrary: k)
  case (Cons v vs)
  then show ?case by (cases k) (simp_all add: slice_def)
qed simp

lemma encode_boot_slices:
  "slice 0 4 (encode_boot_sector b) = le32 (magic b)" "slice 4 4 (encode_boot_sector b) = le32 (fileAllocationOffset b)"
  "slice 8 4 (encode_boot_sector b) = le32 (fileAllocationLength b)"
  "slice 12 4 (encode_boot_sector b) = le32 (rootDirectoryOffset b)"
  "slice 16 4 (encode_boot_sector b) = le32 (rootDirectoryCount b)" "length (encode_boot_sector b) = 28"
  by (simp_all add: encode_boot_sector_def slice_def)

text \<open>The FAT, the directory and the boot record do not overlap, nor do they reach the data blocks.\<close>

definition final_image :: "bf_state \<Rightarrow> u8 list" where
  "final_image s = write_at PFAT_BOOT_RECORD_OFFSET (encode_boot_sector (bSector s))
     (write_at (nat (rootDirectoryOffset (bSector s) * 512)) (bf_dir s) (write_at 512 (concat (map le32 (bf_fat s))) (bf_image s)))"

lemma final_slices:
  assumes r: "rootDirectoryOffset (bSector s) = int root" and B: "length (bf_fat s) = B" "length (bf_image s) = 512 * B"
    and fit: "B \<le> 128 * (root - 1)" "1 \<le> root" "512 * root + length (bf_dir s) \<le> 512 * B"
  shows "length (final_image s) = 512 * B"
    and "i + n \<le> 28 \<Longrightarrow> slice (482 + i) n (final_image s) = slice i n (encode_boot_sector (bSector s))"
    and "k < B \<Longrightarrow> slice (512 + 4 * k) 4 (final_image s) = le32 (bf_fat s ! k)"
    and "i + n \<le> length (bf_dir s) \<Longrightarrow> slice (512 * root + i) n (final_image s) = slice i n (bf_dir s)"
    and "512 * root + length (bf_dir s) \<le> p \<Longrightarrow> slice p n (final_image s) = slice p n (bf_image s)"
proof -
  let ?F = "concat (map le32 (bf_fat s))" and ?e = "encode_boot_sector (bSector s)"
  let ?i1 = "write_at 512 ?F (bf_image s)"
  let ?i2 = "write_at (512 * root) (bf_dir s) ?i1"
  have F: "length ?F = 4 * B" using B(1) by (simp add: length_concat_le32)
  have fr: "512 + 4 * B \<le> 512 * root" "512 * root \<le> 512 * B" using fit by simp_all
  have fin: "final_image s = write_at 482 ?e ?i2"
    by (simp add: final_image_def r PFAT_BOOT_RECORD_OFFSET_def nat_mult_distrib mult.commute)
  have w1: "512 + length ?F \<le> length (bf_image s)" using F fr B(2) by simp
  have l1: "length ?i1 = 512 * B" using w1 B(2) by (simp add: length_write_at)
  have w2: "512 * root + length (bf_dir s) \<le> length ?i1" using l1 fit(3) by simp
  have l2: "length ?i2 = 512 * B" using w2 l1 by (simp add: length_write_at)
  have w3: "482 + length ?e \<le> length ?i2" using l2 fr by (simp add: encode_boot_slices)
  show "length (final_image s) = 512 * B" using w3 l2 by (simp add: fin length_write_at)
  show "i + n \<le> 28 \<Longrightarrow> slice (482 + i) n (final_image s) = slice i n ?e"
    unfolding fin by (rule slice_write_inside [OF w3]) (simp add: encode_boot_slices)
  have o3: "slice p n (final_image s) = slice p n ?i2" if "512 \<le> p" for p n
    unfolding fin by (rule slice_write_outside [OF w3]) (use that in \<open>simp add: encode_boot_slices\<close>)
  have o2: "slice p n ?i2 = slice p n ?i1" if "p + n \<le> 512 * root \<or> 512 * root + length (bf_dir s) \<le> p" for p n
    using that by (rule slice_write_outside [OF w2])
  have o1: "slice p n ?i1 = slice p n (bf_image s)" if "512 + 4 * B \<le> p" for p n
    by (rule slice_write_outside [OF w1]) (use that F in simp)
  show "slice (512 + 4 * k) 4 (final_image s) = le32 (bf_fat s ! k)" if "k < B"
  proof -
    have "slice (512 + 4 * k) 4 (final_image s) = slice (512 + 4 * k) 4 ?i1" using that fr by (simp add: o3 o2)
    also have "\<dots> = slice (4 * k) 4 ?F" by (rule slice_write_inside [OF w1]) (use that F in simp)
    finally show ?thesis using that B(1) by (simp add: slice_concat_le32)
  qed
  show "slice (512 * root + i) n (final_image s) = slice i n (bf_dir s)" if "i + n \<le> length (bf_dir s)"
    using fit(2) slice_write_inside [OF w2 that] by (simp add: o3)
  show "slice p n (final_image s) = slice p n (bf_image s)" if "512 * root + length (bf_dir s) \<le> p"
    using that fr by (simp add: o3 o2 o1)
qed

lemma final_image_has:
  assumes l: "laid a files s0 s" and lay: "layout_ok root a B files"
    and s0: "magic (bSector s0) = PFAT_MAGIC" "fileAllocationOffset (bSector s0) = 1" "fileAllocationLength (bSector s0) = int root - 1"
      "rootDirectoryOffset (bSector s0) = int root" "rootDirectoryCount (bSector s0) = int (length files)"
    and len: "length (bf_fat s0) = B" "length (bf_image s0) = 512 * B" "length (bf_dir s0) = 28 * length files"
    and z: "\<forall>i < length files. slice (28 * i + 12) 1 (bf_dir s0) = [0]"
  shows "image_has root a files (final_image s) \<and> length (final_image s) = 512 * B"
proof -
  have r: "1 \<le> root" "B \<le> 128 * (root - 1)" "512 * root + 28 * length files \<le> 512 * a" "0 < length files"
    using lay by (auto simp: layout_ok_def)
  note b = layout_bounds [OF lay]
  from l have L: "length (bf_fat s) = B" "length (bf_image s) = 512 * B" "length (bf_dir s) = 28 * length files"
    "\<And>i. i < length files \<Longrightarrow> slice (28 * i + 12) 1 (bf_dir s) = [0]"
    "\<And>i. i < length files \<Longrightarrow> file_laid (start_of a (map snd files) i) i (fst (files ! i)) (snd (files ! i)) s"
    using len z by (simp_all add: laid_def)
  obtain ss sz ks kz where "bSector s = (bSector s0)\<lparr>setupStart := ss, setupSize := sz, kernelStart := ks, kernelSize := kz\<rparr>"
    using l by (auto simp: laid_def)
  then have S: "magic (bSector s) = PFAT_MAGIC" "fileAllocationOffset (bSector s) = 1" "fileAllocationLength (bSector s) = int root - 1"
      "rootDirectoryOffset (bSector s) = int root" "rootDirectoryCount (bSector s) = int (length files)"
    using s0 by simp_all
  have "512 * root + length (bf_dir s) \<le> 512 * B" using b(2) [OF r(4)] r(3) L(3) by linarith
  note f = final_slices [OF S(4) L(1,2) r(2,1) this]
  have boot: "slice 482 4 (final_image s) = le32 PFAT_MAGIC" "slice 486 4 (final_image s) = le32 1"
    "slice 490 4 (final_image s) = le32 (int root - 1)" "slice 494 4 (final_image s) = le32 (int root)"
    "slice 498 4 (final_image s) = le32 (int (length files))"
    using f(2) [of 0 4] f(2) [of 4 4] f(2) [of 8 4] f(2) [of 12 4] f(2) [of 16 4] by (simp_all add: encode_boot_slices S)
  have "entry_in (512 * root) i (start_of a (map snd files) i) (fst (files ! i)) (snd (files ! i)) (final_image s)
      \<and> slice (512 * start_of a (map snd files) i) (length (snd (files ! i))) (final_image s) = snd (files ! i)
      \<and> (\<forall>j. j + 1 < blocks_needed (snd (files ! i)) \<longrightarrow>
          slice (512 + 4 * (start_of a (map snd files) i + j)) 4 (final_image s) = le32 (int (start_of a (map snd files) i + j + 1)))"
    (is "?A \<and> ?B \<and> ?C") if i: "i < length files" for i
  proof (intro conjI)
    let ?b = "start_of a (map snd files) i"
    note fl = L(5) [OF i, unfolded file_laid_def]
    have d: "slice (512 * root + 28 * i + k) n (final_image s) = slice (28 * i + k) n (bf_dir s)" if "k + n \<le> 28" for k n
      using f(4) [of "28 * i + k" n] L(3) i that by (simp add: add.assoc)
    show ?A using fl L(4) [OF i] d [of 0 12] d [of 12 1] d [of 20 4] d [of 24 4] by (simp add: entry_in_def)
    have "a \<le> ?b" by (simp add: start_of_def)
    then have "512 * root + length (bf_dir s) \<le> 512 * ?b" using r(3) L(3) by linarith
    then show ?B using fl by (simp add: f(5))
    show ?C
    proof (intro allI impI)
      fix j assume j: "j + 1 < blocks_needed (snd (files ! i))"
      then have "?b + j < B" using b(5) [OF i] by simp
      then show "slice (512 + 4 * (?b + j)) 4 (final_image s) = le32 (int (?b + j + 1))"
        using f(3) [of "?b + j"] fl j by (simp only:)
    qed
  qed
  then show ?thesis using boot f(1) by (simp add: image_has_def Let_def)
qed

section \<open>The whole run\<close>

definition build_args :: "u8 list \<Rightarrow> u8 list option \<Rightarrow> u8 list \<Rightarrow> u8 list list \<Rightarrow> u8 list list" where
  "build_args prog boot img names = prog # (case boot of None \<Rightarrow> [] | Some b \<Rightarrow> [[45, 98], b]) @ img # names"

definition image_root :: "nat \<Rightarrow> nat" where
  "image_root B = 4 * ((B + 511) div 512) + 1"

definition data_start :: "nat \<Rightarrow> nat \<Rightarrow> nat" where
  "data_start B n = image_root B + (28 * n + 511) div 512"

text \<open>The files exist, are not the image, and fit into it; their names can be found again.\<close>

definition can_build :: "u8 list option \<Rightarrow> u8 list \<Rightarrow> u8 list list \<Rightarrow> host \<Rightarrow> nat \<Rightarrow> bool" where
  "can_build boot img names fs B \<longleftrightarrow> (boot = None \<longrightarrow> img \<noteq> [45, 98]) \<and> (\<exists>c. fs img = Some c \<and> length c = 512 * B)
     \<and> (\<forall>f \<in> set names. f \<noteq> img \<and> fs f \<noteq> None) \<and> names \<noteq> [] \<and> length names \<le> 18 \<and> B < 4194304
     \<and> start_of (data_start B (length names)) (map (\<lambda>f. the (fs f)) names) (length names) \<le> B"

lemma blocks_cover: "m \<le> 512 * ((m + 511) div 512)" for m :: nat
proof -
  have "m + 511 = 512 * ((m + 511) div 512) + (m + 511) mod 512" "(m + 511) mod 512 < 512" by simp_all
  then show ?thesis by linarith
qed

lemma can_build_layout:
  assumes "can_build boot img names fs B"
  shows "layout_ok (image_root B) (data_start B (length names)) B (map (\<lambda>f. (f, the (fs f))) names)"
proof -
  let ?n = "length names"
  have c: "names \<noteq> []" "?n \<le> 18" "B < 4194304"
    "start_of (data_start B ?n) (map (\<lambda>f. the (fs f)) names) ?n \<le> B" using assms by (simp_all add: can_build_def)
  have "data_start B ?n \<le> B" using c(4) by (simp add: start_of_def)
  then have "1 \<le> B" by (simp add: data_start_def image_root_def)
  then have "1 \<le> (B + 511) div 512" by simp
  then have "2 \<le> image_root B" by (simp add: image_root_def)
  moreover have "image_root B < 1048576" using c(3) by (simp add: image_root_def)
  moreover have "B \<le> 128 * (image_root B - 1)" using blocks_cover [of B] by (simp add: image_root_def)
  moreover have "512 * image_root B + 28 * ?n \<le> 512 * data_start B ?n"
    using blocks_cover [of "28 * ?n"] by (simp add: data_start_def algebra_simps)
  moreover have "1 \<le> ?n" using c(1) by (cases names) simp_all
  ultimately show ?thesis using c by (simp add: layout_ok_def comp_def)
qed

lemma buildFat_steps:
  assumes "argv = build_args prog boot img names" and "boot = None \<longrightarrow> img \<noteq> [45, 98]" and "fs img = Some c" "length c = 512 * B"
    "B < 4194304" "length names \<le> 18" "1 \<le> B"
  shows "\<exists>i0. length i0 = 512 * B \<and> buildFat argv fs heap bs stack = do {
      r \<leftarrow> files_loop fs img (boot \<noteq> None) (int (512 * B)) 0 names
        \<lparr>bSector = bs\<lparr>magic := PFAT_MAGIC, fileAllocationOffset := 1, fileAllocationLength := int (image_root B) - 1,
           rootDirectoryOffset := int (image_root B), rootDirectoryCount := int (length names)\<rparr>,
         bf_fat = replicate B 0, bf_dir = map heap [0..<28 * length names],
         firstFreeBlock = int (data_start B (length names)), bf_image = i0\<rparr>;
      (case r of Exit c h \<Rightarrow> Some (c, h) | Go s \<Rightarrow> Some (0, fs(img \<mapsto> final_image s))) }"
proof -
  define wb where "wb = (boot \<noteq> None)"
  define cur where "cur = (if wb then 4 else 2 :: nat)"
  have a: "\<not> length argv \<le> 1" "(argv ! 1 = [45, 98]) = wb" "cur - 1 < length argv" "argv ! (cur - 1) = img"
    "drop cur argv = names" "int (length argv) - int cur = int (length names)"
    using assms(1,2) by (auto simp: build_args_def wb_def cur_def split: option.split)
  have sz: "s32 (int (length c)) = int (512 * B)" using assms(4,5) by (subst s32_id) simp_all
  have m: "int (512 * B) smod 512 = 0" by simp
  have d: "int (512 * B) sdiv 512 = int B" by simp
  have f: "roundToNextBlock (int B) sdiv 512 * 4 = int (image_root B) - 1"
    using assms(5) by (subst round_blocks) (simp_all add: image_root_def)
  have n: "roundToNextBlock (28 * int (length names)) sdiv 512 = int ((28 * length names + 511) div 512)"
    using round_blocks [of "28 * length names"] assms(6) by simp
  have ds: "int (image_root B) - 1 + 1 + int ((28 * length names + 511) div 512) = int (data_start B (length names))"
    by (simp add: data_start_def)
  have hd: "nat (28 * int (length names)) = 28 * length names" by (simp add: nat_mult_distrib)
  let ?boot = "case fs (argv ! 2) of Some b \<Rightarrow> take 512 b | None \<Rightarrow> []"
  let ?i0 = "if wb then write_at 0 (?boot @ map stack [length ?boot..<512]) c else c"
  have bl: "length ?boot \<le> 512" by (cases "fs (argv ! 2)") simp_all
  have i0: "length ?i0 = 512 * B"
  proof (cases wb)
    case True
    have "length (?boot @ map stack [length ?boot..<512]) = 512" using bl by simp
    with True assms(4,7) show ?thesis by (simp only: if_True) (subst length_write_at, simp_all)
  qed (use assms(4) in simp)
  have "buildFat argv fs heap bs stack = do {
      r \<leftarrow> files_loop fs img wb (int (512 * B)) 0 names
        \<lparr>bSector = bs\<lparr>magic := PFAT_MAGIC, fileAllocationOffset := 1, fileAllocationLength := int (image_root B) - 1,
           rootDirectoryOffset := int (image_root B), rootDirectoryCount := int (length names)\<rparr>,
         bf_fat = replicate B 0, bf_dir = map heap [0..<28 * length names],
         firstFreeBlock = int (data_start B (length names)), bf_image = ?i0\<rparr>;
      (case r of Exit c h \<Rightarrow> Some (c, h) | Go s \<Rightarrow> Some (0, fs(img \<mapsto> final_image s))) }"
    unfolding buildFat_def if_not_P [OF a(1)] Let_def a(2) cur_def [symmetric] if_P [OF a(3)] a(4-6) assms(3)
      option.case sz m d f ds n hd nat_int
    by (simp add: final_image_def Let_def cong: ctl.case_cong)
  with i0 show ?thesis unfolding wb_def by blast
qed

lemma buildFat_image:
  assumes can: "can_build boot img names fs B" and z: "\<forall>i < length names. heap (28 * i + 12) = 0"
  shows "\<exists>img'. buildFat (build_args prog boot img names) fs heap bs stack = Some (0, fs(img \<mapsto> img')) \<and> length img' = 512 * B
    \<and> image_has (image_root B) (data_start B (length names)) (map (\<lambda>f. (f, the (fs f))) names) img'"
proof -
  note c = can [unfolded can_build_def]
  let ?files = "map (\<lambda>f. (f, the (fs f))) names" and ?a = "data_start B (length names)"
  note lay = can_build_layout [OF can]
  have n: "length names \<le> 18" "B < 4194304" "boot = None \<longrightarrow> img \<noteq> [45, 98]" using c by simp_all
  have "0 < length ?files" using c by simp
  from layout_bounds(2) [OF lay this] have B1: "1 \<le> B" by simp
  obtain c0 where c0: "fs img = Some c0" "length c0 = 512 * B" using c by blast
  obtain i0 where i0: "length i0 = 512 * B" and run: "buildFat (build_args prog boot img names) fs heap bs stack = do {
      r \<leftarrow> files_loop fs img (boot \<noteq> None) (int (512 * B)) 0 names
        \<lparr>bSector = bs\<lparr>magic := PFAT_MAGIC, fileAllocationOffset := 1, fileAllocationLength := int (image_root B) - 1,
           rootDirectoryOffset := int (image_root B), rootDirectoryCount := int (length names)\<rparr>,
         bf_fat = replicate B 0, bf_dir = map heap [0..<28 * length names],
         firstFreeBlock = int (data_start B (length names)), bf_image = i0\<rparr>;
      (case r of Exit c h \<Rightarrow> Some (c, h) | Go s \<Rightarrow> Some (0, fs(img \<mapsto> final_image s))) }"
    (is "_ = do { r \<leftarrow> files_loop fs img _ _ 0 names ?s0; _ r }")
    using buildFat_steps [where fs = fs and img = img, OF refl n(3) c0 n(2,1) B1] by blast
  have "\<exists>ss sz ks kz. bSector ?s0 = (bSector ?s0)\<lparr>setupStart := ss, setupSize := sz, kernelStart := ks, kernelSize := kz\<rparr>"
    by (rule exI [of _ "setupStart bs"], rule exI [of _ "setupSize bs"], rule exI [of _ "kernelStart bs"],
        rule exI [of _ "kernelSize bs"]) simp
  then have l0: "laid ?a [] ?s0 ?s0" by (simp add: laid_def start_of_def)
  have len: "length (bf_fat ?s0) = B" "length (bf_image ?s0) = 512 * B" "length (bf_dir ?s0) = 28 * length names"
    using i0 by simp_all
  have fits: "start_of ?a (map snd [] @ map (\<lambda>f. the (fs f)) names) (length [] + length names) \<le> B"
    "28 * (length [] + length names) \<le> length (bf_dir ?s0)" "\<forall>f \<in> set names. f \<noteq> img \<and> fs f \<noteq> None"
    using c by simp_all
  from files_loop_laid [OF l0 fits(3,1) len(1,2) n(2) fits(2)] obtain s where
    s: "files_loop fs img (boot \<noteq> None) (int (512 * B)) 0 names ?s0 = Some (Go s)" "laid ?a ?files ?s0 s" by auto
  have zero: "\<forall>i < length ?files. slice (28 * i + 12) 1 (bf_dir ?s0) = [0]"
  proof (intro allI impI)
    fix i assume i: "i < length ?files"
    then have "drop (28 * i + 12) (bf_dir ?s0) = heap (28 * i + 12) # drop (28 * i + 13) (bf_dir ?s0)"
      using Cons_nth_drop_Suc [of "28 * i + 12" "bf_dir ?s0"] by (simp add: eval_nat_numeral)
    then show "slice (28 * i + 12) 1 (bf_dir ?s0) = [0]" using z i by (simp add: slice_def)
  qed
  have "image_has (image_root B) ?a ?files (final_image s) \<and> length (final_image s) = 512 * B"
    using len zero by (intro final_image_has [OF s(2) lay]) simp_all
  with run s(1) show ?thesis by auto
qed

text \<open>Reading several files one after the other, and what mounting the image needs of the kernel.\<close>

fun Read_All :: "u8 list list \<Rightarrow> (pfat_ops, pfat_instance) vfs \<Rightarrow> (u8 list list \<times> (pfat_ops, pfat_instance) vfs) option" where
  "Read_All [] s = Some ([], s)"
| "Read_All (p # ps) s = do {
     (rc, b, s) \<leftarrow> Read_Fully pfat_vtables p s;
     kassert (rc = 0);
     c \<leftarrow> b;
     (cs, s) \<leftarrow> Read_All ps s;
     Some (c # cs, s)
   }"

definition can_mount :: "nat \<Rightarrow> u8 list \<Rightarrow> u8 list \<Rightarrow> (pfat_ops, pfat_instance) vfs \<Rightarrow> bool" where
  "can_mount d devname prefix s \<longleftrightarrow> mallocs (io s) = [] \<and> find_device devname (s_deviceList (io s)) 0 = Some d
     \<and> \<not> bd_inUse (s_deviceList (io s) ! d) \<and> drv_Open (s_deviceList (io s) ! d) = 0
     \<and> Lookup_Filesystem [112, 102, 97, 116] s = Some PfatFilesystemOps
     \<and> prefix \<noteq> [] \<and> length prefix \<le> 16 \<and> SLASH \<notin> set prefix \<and> prefix \<notin> pathPrefix ` set (s_mountPointList s)"

lemma serves_same: "same_disk inst inst' \<Longrightarrow> serves disk inst name c \<Longrightarrow> serves disk inst' name c"
proof -
  assume sd: "same_disk inst inst'" and sv: "serves disk inst name c"
  from sd have e: "inst' = inst\<lparr>fileList := fileList inst'\<rparr>" by (simp add: same_disk_def)
  have k: "lookup_loop (inst\<lparr>fileList := l\<rparr>) p k = lookup_loop inst p k" for l p k
    by (induction inst p k rule: lookup_loop.induct) (subst (1 2) lookup_loop.simps, auto simp: entry_of_def split: bind_split)
  have "PFAT_Lookup inst' p = PFAT_Lookup inst p" for p by (subst e) (simp add: PFAT_Lookup_def k)
  with sv same_diskD [OF sd] show "serves disk inst' name c" by (simp add: serves_def)
qed

lemma Read_All_serves:
  assumes "mounted disk d s i inst" "Lookup_Mount_Point prefix s = Some i"
    and "prefix \<noteq> []" "length prefix \<le> 16" "SLASH \<notin> set prefix"
    and "\<forall>f \<in> set names. serves disk inst (g f) (h f) \<and> length (h f) < 2147483648"
  shows "\<exists>s'. Read_All (map (\<lambda>f. SLASH # prefix @ SLASH # g f) names) s = Some (map h names, s')"
  using assms(1,2,6)
proof (induction names arbitrary: s inst)
  case (Cons f names)
  have fp: "first_part (prefix @ SLASH # g f) = prefix" using assms(5) by (rule first_part(6))
  have up: "Unpack_Path (SLASH # prefix @ SLASH # g f) = Some (Some (prefix, SLASH # g f))"
    unfolding Unpack_Path_Cons fp using assms(3,4) by simp
  obtain k e b where sv: "PFAT_Lookup inst (SLASH # g f) = Some (Some k)" "entry_of inst k = Some e" "\<not> directory e"
    "fileSize e = int (length (h f))" "file_blocks inst e = Some b" "readable disk b" "contents disk b e = h f"
    using Cons.prems(3) by (auto simp: serves_def)
  have "0 \<le> fileSize e" "fileSize e < 2147483648" using Cons.prems(3) sv(4) by simp_all
  from Read_Fully_contents [OF Cons.prems(1) up Cons.prems(2) sv(1-3) this sv(5,6)] obtain s1 inst1 where
    r: "Read_Fully pfat_vtables (SLASH # prefix @ SLASH # g f) s = Some (0, Some (h f), s1)"
    and m: "mounted disk d s1 i inst1" "same_disk inst inst1"
      "map pathPrefix (s_mountPointList s1) = map pathPrefix (s_mountPointList s)"
    unfolding sv(7) by blast
  have "Lookup_Mount_Point prefix s1 = Some i"
    using Cons.prems(2) lookup_mount_prefixes [OF m(3)] by (simp add: Lookup_Mount_Point_def)
  then obtain s2 where "Read_All (map (\<lambda>f. SLASH # prefix @ SLASH # g f) names) s1 = Some (map h names, s2)"
    using Cons.IH [OF m(1)] Cons.prems(3) serves_same [OF m(2)] by auto
  with r show ?case by simp
qed simp

lemma image_mounts:
  assumes "image_has root a files img" "layout_ok root a B files" "length img = 512 * B" "names_ok (map fst files)"
    and "holds_image disk img" "disk_ok disk d (io s)" "can_mount d devname prefix s"
  shows "\<exists>s' inst. Mount pfat_vtables devname prefix [112, 102, 97, 116] s = Some (0, s')
    \<and> mounted disk d s' (length (s_mountPointList s)) inst \<and> Lookup_Mount_Point prefix s' = Some (length (s_mountPointList s))
    \<and> (\<forall>i < length files. serves disk inst (base_name (fst (files ! i))) (snd (files ! i)))"
proof -
  note cm = assms(7) [unfolded can_mount_def]
  define w where "w = set_inUse d True (io s)"
  define m where "m = \<lparr>mp_ops = None :: pfat_ops option, pathPrefix = prefix, mp_dev = Some d, mp_fsData = None :: pfat_instance option\<rparr>"
  have op: "Open_Block_Device devname (io s) = (0, Some d, w)" using cm by (simp add: Open_Block_Device_def w_def)
  have w: "disk_ok disk d w" "mallocs w = []" "mp_dev m = Some d"
    using assms(6) cm by (auto simp: w_def set_inUse_def disk_ok_def m_def)
  obtain info where info: "decode_boot_sector (drop 482 (disk 0)) = Some info" "magic info = PFAT_MAGIC" "fileAllocationOffset info = 1"
    "fileAllocationLength info = int (root - 1)" "rootDirectoryOffset info = int root" "rootDirectoryCount info = int (length files)"
    using image_boot [OF assms(1-3,5)] by blast
  have l: "0 < length files" "length files \<le> 18" "2 \<le> root" "B < 4194304" using assms(2) by (auto simp: layout_ok_def)
  have ok: "info_ok info" using info l by (simp add: info_ok_def)
  have ro: "fileAllocationLength info < 1048576" "rootDirectoryCount info \<le> 262144"
    using info l assms(2) by (simp_all add: layout_ok_def)
  have c: "rootDirectoryCount info \<le> 18" "rootDirectoryCount info \<noteq> 0" using info(6) l by simp_all
  note b = layout_bounds [OF assms(2) l(1)]
  have rd: "disk 0 \<noteq> []" "sectors_readable disk (fileAllocationOffset info) (nat (fileAllocationLength info))"
    "disk (rootDirectoryOffset info) \<noteq> []"
    unfolding sectors_readable_def info(3,4,5)
    using holds_image_nonempty [OF assms(5), of 0] holds_image_nonempty [OF assms(5), of "Suc k" for k]
      holds_image_nonempty [OF assms(5), of root] b(1,2) assms(3) by auto
  from PFAT_Mount_disk [OF w info(1) ro rd] ok c obtain inst p where
    mt: "PFAT_Mount m w = Some (0, m\<lparr>mp_ops := Some PfatMountPointOps, mp_fsData := Some inst\<rparr>, w\<lparr>s_pagingDevice := p\<rparr>)"
      "fsinfo inst = info" "fileList inst = []"
      "decode_list (\<lambda>f. rd_int f 0) 4 (128 * (root - 1)) (sectors disk 1 (root - 1)) = Some (fat inst)"
      "decode_list decode_entry 28 18 (disk (int root)) = Some (rootDir inst)"
    unfolding info(3,4,5) nat_int by auto
  define s' where "s' = s\<lparr>s_mountPointList := s_mountPointList s @ [m\<lparr>mp_ops := Some PfatMountPointOps, mp_fsData := Some inst\<rparr>],
    io := w\<lparr>s_pagingDevice := p\<rparr>\<rparr>"
  have "dropWhile (\<lambda>c. c = SLASH) prefix = prefix" using cm by (cases prefix) auto
  then have "Mount pfat_vtables devname prefix [112, 102, 97, 116] s = Some (0, s')"
    using cm op w(2) mt(1) by (simp add: Mount_def MAX_PREFIX_LEN_def pfat_vtables_def Malloc_ok s'_def flip: m_def)
  moreover have "mounted disk d s' (length (s_mountPointList s)) inst"
    using w mt(3) by (simp add: mounted_def s'_def inst_ok_def m_def disk_ok_def)
  moreover have "lookup_mount prefix (s_mountPointList s) 0 = None"
  proof (rule ccontr)
    assume "lookup_mount prefix (s_mountPointList s) 0 \<noteq> None"
    then obtain j where "j < length (s_mountPointList s)" "pathPrefix (s_mountPointList s ! j) = prefix"
      using lookup_mount_Some [of prefix "s_mountPointList s" 0] by auto
    with cm show False by (metis image_eqI nth_mem)
  qed
  then have "Lookup_Mount_Point prefix s' = Some (length (s_mountPointList s))"
    by (simp add: Lookup_Mount_Point_def s'_def lookup_mount_append m_def)
  moreover have "serves disk inst (base_name (fst (files ! i))) (snd (files ! i))" if "i < length files" for i
    using mt(2) info(6) that by (intro image_serves [OF assms(1-3,5) mt(5,4) _ assms(4)]) simp_all
  ultimately show ?thesis by blast
qed

lemma buildFat_image_served:
  assumes "can_build boot img names fs B" and "names_ok names" and "\<forall>i < length names. heap (28 * i + 12) = 0"
  shows "\<exists>img'. buildFat (build_args prog boot img names) fs heap bs stack = Some (0, fs(img \<mapsto> img')) \<and> length img' = 512 * B
    \<and> (\<forall>disk d devname prefix s. holds_image disk img' \<and> disk_ok disk d (io s) \<and> can_mount d devname prefix s \<longrightarrow>
        (\<exists>s'. Mount pfat_vtables devname prefix [112, 102, 97, 116] s = Some (0, s')
          \<and> (\<forall>order. set order \<subseteq> set names \<longrightarrow>
              (\<exists>s''. Read_All (map (\<lambda>f. SLASH # prefix @ SLASH # base_name f) order) s'
                = Some (map (\<lambda>f. the (fs f)) order, s'')))))"
proof -
  let ?files = "map (\<lambda>f. (f, the (fs f))) names" and ?a = "data_start B (length names)"
  note lay = can_build_layout [OF assms(1)]
  from buildFat_image [OF assms(1,3)] obtain img' where
    i: "buildFat (build_args prog boot img names) fs heap bs stack = Some (0, fs(img \<mapsto> img'))" "length img' = 512 * B"
      "image_has (image_root B) ?a ?files img'" by blast
  have nm: "names_ok (map fst ?files)" using assms(2) by (simp add: comp_def)
  have "\<exists>s'. Mount pfat_vtables devname prefix [112, 102, 97, 116] s = Some (0, s')
      \<and> (\<forall>order. set order \<subseteq> set names \<longrightarrow> (\<exists>s''. Read_All (map (\<lambda>f. SLASH # prefix @ SLASH # base_name f) order) s'
          = Some (map (\<lambda>f. the (fs f)) order, s'')))"
    if k: "holds_image disk img'" "disk_ok disk d (io s)" "can_mount d devname prefix s" for disk d devname prefix s
  proof -
    obtain s' inst where s': "Mount pfat_vtables devname prefix [112, 102, 97, 116] s = Some (0, s')"
      "mounted disk d s' (length (s_mountPointList s)) inst" "Lookup_Mount_Point prefix s' = Some (length (s_mountPointList s))"
      "\<forall>i < length ?files. serves disk inst (base_name (fst (?files ! i))) (snd (?files ! i))"
      using image_mounts [OF i(3) lay i(2) nm k] by blast
    have sv: "serves disk inst (base_name f) (the (fs f)) \<and> length (the (fs f)) < 2147483648" if f: "f \<in> set names" for f
    proof -
      obtain j where j: "j < length names" "names ! j = f" using f by (auto simp: in_set_conv_nth)
      then have "serves disk inst (base_name f) (the (fs f))" using s'(4) by auto
      moreover have "length (the (fs f)) \<le> 512 * B" using layout_bounds(6) [OF lay, of j] j by simp
      ultimately show ?thesis using lay by (simp add: layout_ok_def)
    qed
    have "\<exists>s''. Read_All (map (\<lambda>f. SLASH # prefix @ SLASH # base_name f) order) s' = Some (map (\<lambda>f. the (fs f)) order, s'')"
      if "set order \<subseteq> set names" for order
      using k(3) sv that by (intro Read_All_serves [OF s'(2,3)]) (auto simp: can_mount_def)
    with s'(1) show ?thesis by blast
  qed
  with i(1,2) show ?thesis by blast
qed


text \<open>
  A new image \<open>i\<close> of seven blocks with a directory part, a file \<open>d/a\<close> of three bytes, and a
  kernel whose device \<open>i\<close> has the blocks of an image.
\<close>

definition image_block :: "u8 list \<Rightarrow> int \<Rightarrow> u8 list" where
  "image_block img b = (let s = slice (512 * nat b) 512 img in if length s = 512 then s else replicate 512 0)"

definition image_kernel :: "u8 list \<Rightarrow> (pfat_ops, pfat_instance) vfs" where
  "image_kernel img = \<lparr>s_filesystemList = [([112, 102, 97, 116], PfatFilesystemOps)], s_mountPointList = [],
     io = \<lparr>mallocs = [], garbage = (\<lambda>_. 7), s_deviceList = [\<lparr>bd_name = [105], bd_unit = 0, bd_inUse = False,
       drv_Open = 0, drv_Close = 0, drv_Get_Num_Blocks = 7, drv_transfer = (\<lambda>_ b _. (0, image_block img b))\<rparr>],
       s_pagingDevice = None\<rparr>\<rparr>"

definition toy_host :: host where
  "toy_host = [[105] \<mapsto> replicate 3584 0, [100, 47, 97] \<mapsto> [1, 2, 3]]"

lemma image_kernel_ok:
  "holds_image (image_block img) img" "disk_ok (image_block img) 0 (io (image_kernel img))"
  "can_mount 0 [105] [99] (image_kernel img)"
  by (simp_all add: holds_image_def image_block_def Let_def length_slice disk_ok_def image_kernel_def can_mount_def
      Lookup_Filesystem_def SLASH_def)

lemma toy_host_can:
  "can_build None [105] [[100, 47, 97]] toy_host 7" "names_ok [[100, 47, 97]]"
  "\<forall>i < length [[100, 47, 97 :: u8]]. (\<lambda>_. 0 :: u8) (28 * i + 12) = 0"
  "build_args [98] None [105] [[100, 47, 97]] = [[98], [105], [100, 47, 97]]"
  by (simp_all add: can_build_def toy_host_def start_of_def data_start_def image_root_def blocks_needed_def
      names_ok_def base_name_def SLASH_def build_args_def)

end
