(* ===== verification/Ide.thy ===== *)
theory Ide
  imports Blockdev "HOL-Library.Signed_Division"
begin

text \<open>
  The driver of ATA disks, \<open>src/geekos/ide.c\<close>.  The controller is a parameter: a record of what
  reading and writing a port does to a state of its own.  A drive that stays busy for ever is
  \<open>None\<close>.  \<open>ideDebug\<close> is 0, so that its messages are not printed; the messages of errors and of
  the configuration are left out.  \<open>ata\<close> is the programming interface of an ATA controller as its
  standard documents it; \<open>is_ata\<close> says that the parameter behaves like it.
\<close>

section \<open>Ports\<close>

record 'd ports =
  In_Byte :: "nat \<Rightarrow> 'd \<Rightarrow> u8 \<times> 'd"
  In_Word :: "nat \<Rightarrow> 'd \<Rightarrow> u16 \<times> 'd"
  Out_Byte :: "nat \<Rightarrow> u8 \<Rightarrow> 'd \<Rightarrow> 'd"
  Out_Word :: "nat \<Rightarrow> u16 \<Rightarrow> 'd \<Rightarrow> 'd"

definition IDE_DATA_REGISTER :: nat where "IDE_DATA_REGISTER = 0x1f0"
definition IDE_ERROR_REGISTER :: nat where "IDE_ERROR_REGISTER = 0x1f1"
definition IDE_FEATURE_REG :: nat where "IDE_FEATURE_REG = IDE_ERROR_REGISTER"
definition IDE_SECTOR_COUNT_REGISTER :: nat where "IDE_SECTOR_COUNT_REGISTER = 0x1f2"
definition IDE_SECTOR_NUMBER_REGISTER :: nat where "IDE_SECTOR_NUMBER_REGISTER = 0x1f3"
definition IDE_CYLINDER_LOW_REGISTER :: nat where "IDE_CYLINDER_LOW_REGISTER = 0x1f4"
definition IDE_CYLINDER_HIGH_REGISTER :: nat where "IDE_CYLINDER_HIGH_REGISTER = 0x1f5"
definition IDE_DRIVE_HEAD_REGISTER :: nat where "IDE_DRIVE_HEAD_REGISTER = 0x1f6"
definition IDE_STATUS_REGISTER :: nat where "IDE_STATUS_REGISTER = 0x1f7"
definition IDE_COMMAND_REGISTER :: nat where "IDE_COMMAND_REGISTER = 0x1f7"
definition IDE_DEVICE_CONTROL_REGISTER :: nat where "IDE_DEVICE_CONTROL_REGISTER = 0x3F6"

definition IDE_DRIVE_0 :: u8 where "IDE_DRIVE_0 = 0xa0"
definition IDE_DRIVE_1 :: u8 where "IDE_DRIVE_1 = 0xb0"

definition IDE_COMMAND_IDENTIFY_DRIVE :: u8 where "IDE_COMMAND_IDENTIFY_DRIVE = 0xEC"
definition IDE_COMMAND_READ_SECTORS :: u8 where "IDE_COMMAND_READ_SECTORS = 0x21"
definition IDE_COMMAND_WRITE_SECTORS :: u8 where "IDE_COMMAND_WRITE_SECTORS = 0x30"
definition IDE_COMMAND_DIAGNOSTIC :: u8 where "IDE_COMMAND_DIAGNOSTIC = 0x90"
definition IDE_COMMAND_ATAPI_IDENT_DRIVE :: u8 where "IDE_COMMAND_ATAPI_IDENT_DRIVE = 0xA1"

definition IDE_STATUS_DRIVE_BUSY :: u8 where "IDE_STATUS_DRIVE_BUSY = 0x80"
definition IDE_STATUS_DRIVE_DATA_REQUEST :: u8 where "IDE_STATUS_DRIVE_DATA_REQUEST = 0x08"
definition IDE_STATUS_DRIVE_ERROR :: u8 where "IDE_STATUS_DRIVE_ERROR = 0x01"
definition IDE_DCR_NOINTERRUPT :: u8 where "IDE_DCR_NOINTERRUPT = 0x02"
definition IDE_DCR_RESET :: u8 where "IDE_DCR_RESET = 0x04"

definition IDE_ERROR_NO_ERROR :: int where "IDE_ERROR_NO_ERROR = 0"
definition IDE_ERROR_BAD_DRIVE :: int where "IDE_ERROR_BAD_DRIVE = -1"
definition IDE_ERROR_INVALID_BLOCK :: int where "IDE_ERROR_INVALID_BLOCK = -2"
definition IDE_ERROR_DRIVE_ERROR :: int where "IDE_ERROR_DRIVE_ERROR = -3"

definition IDE_MAX_DRIVES :: int where "IDE_MAX_DRIVES = 2"

definition LOW_BYTE :: "int \<Rightarrow> u8" where
  "LOW_BYTE x = word_of_int (and x 0xff)"

definition HIGH_BYTE :: "int \<Rightarrow> u8" where
  "HIGH_BYTE x = word_of_int (and (drop_bit 8 x) 0xff)"

section \<open>The driver\<close>

record ideDisk =
  num_Cylinders :: int
  num_Heads :: int
  num_SectorsPerTrack :: int
  num_BytesPerSector :: int

record ide =
  numDrives :: int
  drives :: "ideDisk list"
  ide_ints :: bool

text \<open>An index outside of the array \<open>drives\<close> is \<open>None\<close>.\<close>

definition IDE_getNumBlocks :: "int \<Rightarrow> ide \<Rightarrow> int option" where
  "IDE_getNumBlocks driveNum st =
     (if driveNum < 0 \<or> driveNum > IDE_MAX_DRIVES then Some IDE_ERROR_BAD_DRIVE
      else if nat driveNum < length (drives st)
      then (let d = drives st ! nat driveNum
            in Some (s32 (s32 (num_Heads d * num_SectorsPerTrack d) * num_Cylinders d)))
      else None)"

partial_function (option) wait_busy :: "'d ports \<Rightarrow> 'd \<Rightarrow> 'd option" where
  "wait_busy hw d =
     (let (b, d) = In_Byte hw IDE_STATUS_REGISTER d
      in if b AND IDE_STATUS_DRIVE_BUSY \<noteq> 0 then wait_busy hw d else Some d)"

text \<open>The transfer of words between the data register and a buffer, low byte first.\<close>

fun read_words :: "'d ports \<Rightarrow> nat \<Rightarrow> 'd \<Rightarrow> u16 list \<times> 'd" where
  "read_words hw 0 d = ([], d)"
| "read_words hw (Suc n) d =
     (let (w, d) = In_Word hw IDE_DATA_REGISTER d; (ws, d) = read_words hw n d in (w # ws, d))"

fun write_words :: "'d ports \<Rightarrow> u16 list \<Rightarrow> 'd \<Rightarrow> 'd" where
  "write_words hw [] d = d"
| "write_words hw (w # ws) d = write_words hw ws (Out_Word hw IDE_DATA_REGISTER w d)"

definition bytes_of :: "u16 list \<Rightarrow> u8 list" where
  "bytes_of ws = concat (map (\<lambda>w. [ucast w, ucast (drop_bit 8 w)]) ws)"

fun words_of :: "u8 list \<Rightarrow> u16 list" where
  "words_of (a # b # bs) = (ucast a OR push_bit 8 (ucast b)) # words_of bs"
| "words_of _ = []"

text \<open>The address of block \<open>blockNum\<close> and the command \<open>cmd\<close>.\<close>

definition ide_command :: "'d ports \<Rightarrow> int \<Rightarrow> ideDisk \<Rightarrow> int \<Rightarrow> u8 \<Rightarrow> 'd \<Rightarrow> 'd" where
  "ide_command hw driveNum dr blockNum cmd d =
     (let sector = blockNum smod num_SectorsPerTrack dr + 1;
          cylinder = blockNum sdiv (num_Heads dr * num_SectorsPerTrack dr);
          head = (blockNum sdiv num_SectorsPerTrack dr) smod num_Heads dr;
          d = Out_Byte hw IDE_SECTOR_COUNT_REGISTER 1 d;
          d = Out_Byte hw IDE_SECTOR_NUMBER_REGISTER (word_of_int sector) d;
          d = Out_Byte hw IDE_CYLINDER_LOW_REGISTER (LOW_BYTE cylinder) d;
          d = Out_Byte hw IDE_CYLINDER_HIGH_REGISTER (HIGH_BYTE cylinder) d;
          d = (if driveNum = 0 then Out_Byte hw IDE_DRIVE_HEAD_REGISTER (IDE_DRIVE_0 OR word_of_int head) d
               else if driveNum = 1 then Out_Byte hw IDE_DRIVE_HEAD_REGISTER (IDE_DRIVE_1 OR word_of_int head) d
               else d)
      in Out_Byte hw IDE_COMMAND_REGISTER cmd d)"

text \<open>The buffer has 512 bytes.  After an error of the drive, interrupts are not enabled again.\<close>

definition IDE_Read :: "'d ports \<Rightarrow> int \<Rightarrow> int \<Rightarrow> u8 list \<Rightarrow> ide \<Rightarrow> 'd \<Rightarrow> (int \<times> u8 list \<times> ide \<times> 'd) option" where
  "IDE_Read hw driveNum blockNum buffer st d =
     (if driveNum < 0 \<or> driveNum > numDrives st - 1 then Some (IDE_ERROR_BAD_DRIVE, buffer, st, d)
      else do {
        blocks \<leftarrow> IDE_getNumBlocks driveNum st;
        (if blockNum < 0 \<or> blockNum \<ge> blocks then Some (IDE_ERROR_INVALID_BLOCK, buffer, st, d)
         else do {
           let reEnable = ide_ints st;
           let st = st\<lparr>ide_ints := False\<rparr>;
           let d = ide_command hw driveNum (drives st ! nat driveNum) blockNum IDE_COMMAND_READ_SECTORS d;
           d \<leftarrow> wait_busy hw d;
           let (status, d) = In_Byte hw IDE_STATUS_REGISTER d;
           (if status AND IDE_STATUS_DRIVE_ERROR \<noteq> 0
            then let (_, d) = In_Byte hw IDE_STATUS_REGISTER d in Some (IDE_ERROR_DRIVE_ERROR, buffer, st, d)
            else let (ws, d) = read_words hw 256 d
                 in Some (IDE_ERROR_NO_ERROR, bytes_of ws, st\<lparr>ide_ints := reEnable\<rparr>, d))
         })
      })"

definition IDE_Write :: "'d ports \<Rightarrow> int \<Rightarrow> int \<Rightarrow> u8 list \<Rightarrow> ide \<Rightarrow> 'd \<Rightarrow> (int \<times> u8 list \<times> ide \<times> 'd) option" where
  "IDE_Write hw driveNum blockNum buffer st d =
     (if driveNum < 0 \<or> driveNum > numDrives st - 1 then Some (IDE_ERROR_BAD_DRIVE, buffer, st, d)
      else do {
        blocks \<leftarrow> IDE_getNumBlocks driveNum st;
        (if blockNum < 0 \<or> blockNum \<ge> blocks then Some (IDE_ERROR_INVALID_BLOCK, buffer, st, d)
         else do {
           let reEnable = ide_ints st;
           let st = st\<lparr>ide_ints := False\<rparr>;
           let d = ide_command hw driveNum (drives st ! nat driveNum) blockNum IDE_COMMAND_WRITE_SECTORS d;
           d \<leftarrow> wait_busy hw d;
           let d = write_words hw (take 256 (words_of buffer)) d;
           d \<leftarrow> wait_busy hw d;
           let (status, d) = In_Byte hw IDE_STATUS_REGISTER d;
           (if status AND IDE_STATUS_DRIVE_ERROR \<noteq> 0
            then let (_, d) = In_Byte hw IDE_STATUS_REGISTER d in Some (IDE_ERROR_DRIVE_ERROR, buffer, st, d)
            else Some (IDE_ERROR_NO_ERROR, buffer, st\<lparr>ide_ints := reEnable\<rparr>, d))
         })
      })"

definition IDE_Open :: "block_device \<Rightarrow> int option" where
  "IDE_Open dev = do { kassert (\<not> bd_inUse dev); Some 0 }"

definition IDE_Close :: "block_device \<Rightarrow> int option" where
  "IDE_Close dev = do { kassert (bd_inUse dev); Some 0 }"

definition IDE_Get_Num_Blocks :: "block_device \<Rightarrow> ide \<Rightarrow> int option" where
  "IDE_Get_Num_Blocks dev st = IDE_getNumBlocks (bd_unit dev) st"

text \<open>One round of the request thread, between \<open>Dequeue_Request\<close> and \<open>Notify_Request_Completion\<close>.\<close>

definition IDE_Request_Thread ::
  "'d ports \<Rightarrow> request_type \<Rightarrow> int \<Rightarrow> int \<Rightarrow> u8 list \<Rightarrow> ide \<Rightarrow> 'd \<Rightarrow> (request_state \<times> int \<times> u8 list \<times> ide \<times> 'd) option" where
  "IDE_Request_Thread hw ty unit blockNum buf st d = do {
     (rc, buf, st, d) \<leftarrow> (if ty = BLOCK_READ then IDE_Read hw unit blockNum buf st d else IDE_Write hw unit blockNum buf st d);
     Some (if rc = 0 then COMPLETED else ERROR, rc, buf, st, d)
   }"

text \<open>
  \<open>drv_transfer\<close> of the registered device is an argument: it stands for the request thread on
  the state in which the controller is when the request is served.  The digit of the drive is
  appended to the bytes of \<open>ide\<close>.
\<close>

definition readDriveConfig ::
  "'d ports \<Rightarrow> (request_type \<Rightarrow> int \<Rightarrow> u8 list \<Rightarrow> int \<times> u8 list) \<Rightarrow> nat \<Rightarrow> ide \<Rightarrow> 'd \<Rightarrow> 'a world_scheme
   \<Rightarrow> (int \<times> ide \<times> 'd \<times> 'a world_scheme) option" where
  "readDriveConfig hw transfer drive st d w = do {
     let d = Out_Byte hw IDE_DRIVE_HEAD_REGISTER (if drive = 0 then IDE_DRIVE_0 else IDE_DRIVE_1) d;
     let d = Out_Byte hw IDE_COMMAND_REGISTER IDE_COMMAND_IDENTIFY_DRIVE d;
     d \<leftarrow> wait_busy hw d;
     let (status, d) = In_Byte hw IDE_STATUS_REGISTER d;
     (if status AND IDE_STATUS_DRIVE_DATA_REQUEST \<noteq> 0 then do {
        let (info, d) = read_words hw 256 d;
        kassert (drive < length (drives st));
        let st = st\<lparr>drives := (drives st)[drive := \<lparr>num_Cylinders = sint (info ! 1), num_Heads = sint (info ! 3),
          num_SectorsPerTrack = sint (info ! 6), num_BytesPerSector = sint (info ! 5)\<rparr>]\<rparr>;
        blocks \<leftarrow> IDE_getNumBlocks (int drive) st;
        (_, w) \<leftarrow> Register_Block_Device \<lparr>bd_name = [105, 100, 101, 48 + word_of_nat drive], bd_unit = int drive, bd_inUse = False,
          drv_Open = 0, drv_Close = 0, drv_Get_Num_Blocks = blocks, drv_transfer = transfer\<rparr> w;
        Some (0, st, d, w)
      } else do {
        let d = Out_Byte hw IDE_FEATURE_REG 0 d;
        let d = Out_Byte hw IDE_DRIVE_HEAD_REGISTER (if drive = 0 then IDE_DRIVE_0 else IDE_DRIVE_1) d;
        let d = Out_Byte hw IDE_COMMAND_REGISTER IDE_COMMAND_ATAPI_IDENT_DRIVE d;
        d \<leftarrow> wait_busy hw d;
        let (_, d) = In_Byte hw IDE_STATUS_REGISTER d;
        Some (-1, st, d, w)
      })
   }"

text \<open>\<open>Micro_Delay\<close> and the start of the request thread change nothing of this state.\<close>

definition Init_IDE ::
  "'d ports \<Rightarrow> (nat \<Rightarrow> request_type \<Rightarrow> int \<Rightarrow> u8 list \<Rightarrow> int \<times> u8 list) \<Rightarrow> ide \<Rightarrow> 'd \<Rightarrow> 'a world_scheme
   \<Rightarrow> (ide \<times> 'd \<times> 'a world_scheme) option" where
  "Init_IDE hw transfer st d w = do {
     let d = Out_Byte hw IDE_DEVICE_CONTROL_REGISTER (IDE_DCR_NOINTERRUPT OR IDE_DCR_RESET) d;
     let d = Out_Byte hw IDE_DEVICE_CONTROL_REGISTER IDE_DCR_NOINTERRUPT d;
     d \<leftarrow> wait_busy hw d;
     let d = Out_Byte hw IDE_COMMAND_REGISTER IDE_COMMAND_DIAGNOSTIC d;
     d \<leftarrow> wait_busy hw d;
     let (_, d) = In_Byte hw IDE_ERROR_REGISTER d;
     (rc0, st, d, w) \<leftarrow> readDriveConfig hw (transfer 0) 0 st d w;
     let st = (if rc0 = 0 then st\<lparr>numDrives := numDrives st + 1\<rparr> else st);
     (rc1, st, d, w) \<leftarrow> readDriveConfig hw (transfer 1) 1 st d w;
     let st = (if rc1 = 0 then st\<lparr>numDrives := numDrives st + 1\<rparr> else st);
     Some (st, d, w)
   }"

section \<open>An ATA controller\<close>

text \<open>
  The task file of two drives.  After a command the controller is busy for a while, during which
  its other status bits are not defined; \<open>delay\<close> says for how many more reads of the status, \<open>noise\<close> what these
  bits are.  \<open>ata_sector\<close> are the sectors of each drive by cylinder, head and sector;
  \<open>unreadable\<close> ones end a command with the error bit.
\<close>

datatype phase = Ready | Failed | Sending "u16 list" | Receiving nat "u16 list"

record ata =
  task :: "nat \<Rightarrow> u8"
  busy :: nat
  phase_of :: phase
  ata_sector :: "bool \<Rightarrow> nat \<times> nat \<times> nat \<Rightarrow> u16 list"
  unreadable :: "(bool \<times> nat \<times> nat \<times> nat) set"
  identity :: "bool \<Rightarrow> u16 list option"
  delay :: "nat \<Rightarrow> nat"
  noise :: u8
  commands :: nat

definition selected :: "ata \<Rightarrow> bool" where
  "selected a = bit (task a IDE_DRIVE_HEAD_REGISTER) 4"

definition address :: "ata \<Rightarrow> nat \<times> nat \<times> nat" where
  "address a = (unat (task a IDE_CYLINDER_LOW_REGISTER) + 256 * unat (task a IDE_CYLINDER_HIGH_REGISTER),
     unat (task a IDE_DRIVE_HEAD_REGISTER AND 0x0f), unat (task a IDE_SECTOR_NUMBER_REGISTER))"

definition target :: "ata \<Rightarrow> bool \<times> nat \<times> nat \<times> nat" where
  "target a = (selected a, address a)"

definition ata_command :: "u8 \<Rightarrow> ata \<Rightarrow> ata" where
  "ata_command c a = a\<lparr>busy := delay a (commands a), commands := Suc (commands a),
     phase_of := (if c = 0x21 then (if target a \<in> unreadable a then Failed else Sending (ata_sector a (selected a) (address a)))
       else if c = 0x30 then Receiving 256 []
       else if c = 0xEC then (case identity a (selected a) of Some ws \<Rightarrow> Sending ws | None \<Rightarrow> Failed)
       else Ready)\<rparr>"

definition ata_status :: "ata \<Rightarrow> u8" where
  "ata_status a = (if busy a > 0 then 0x80 OR noise a
     else case phase_of a of Ready \<Rightarrow> 0x50 | Failed \<Rightarrow> 0x51 | Sending ws \<Rightarrow> 0x58 | Receiving n ws \<Rightarrow> 0x58)"

definition ata_in_byte :: "nat \<Rightarrow> ata \<Rightarrow> u8 \<times> ata" where
  "ata_in_byte p a = (if p = 0x1f7 then (ata_status a, a\<lparr>busy := busy a - 1\<rparr>) else (task a p, a))"

definition ata_in_word :: "nat \<Rightarrow> ata \<Rightarrow> u16 \<times> ata" where
  "ata_in_word p a = (case phase_of a of
       Sending (w # ws) \<Rightarrow> (w, a\<lparr>phase_of := (if ws = [] then Ready else Sending ws)\<rparr>)
     | _ \<Rightarrow> (0, a))"

definition ata_out_byte :: "nat \<Rightarrow> u8 \<Rightarrow> ata \<Rightarrow> ata" where
  "ata_out_byte p v a = (if p = 0x1f7 then ata_command v a
     else if p = 0x3f6 then (if bit v 2 then a\<lparr>phase_of := Ready\<rparr> else a)
     else a\<lparr>task := (task a)(p := v)\<rparr>)"

definition ata_out_word :: "nat \<Rightarrow> u16 \<Rightarrow> ata \<Rightarrow> ata" where
  "ata_out_word p w a = (case phase_of a of
       Receiving (Suc n) ws \<Rightarrow>
         (if n > 0 then a\<lparr>phase_of := Receiving n (ws @ [w])\<rparr>
          else if target a \<in> unreadable a then a\<lparr>phase_of := Failed, busy := delay a (commands a), commands := Suc (commands a)\<rparr>
          else a\<lparr>phase_of := Ready, busy := delay a (commands a), commands := Suc (commands a),
            ata_sector := (ata_sector a)(selected a := (ata_sector a (selected a))(address a := ws @ [w]))\<rparr>)
     | _ \<Rightarrow> a)"

definition is_ata :: "'d ports \<Rightarrow> ('d \<Rightarrow> ata) \<Rightarrow> bool" where
  "is_ata hw view \<longleftrightarrow>
     (\<forall>p d. fst (In_Byte hw p d) = fst (ata_in_byte p (view d)) \<and> view (snd (In_Byte hw p d)) = snd (ata_in_byte p (view d)))
     \<and> (\<forall>p d. fst (In_Word hw p d) = fst (ata_in_word p (view d)) \<and> view (snd (In_Word hw p d)) = snd (ata_in_word p (view d)))
     \<and> (\<forall>p v d. view (Out_Byte hw p v d) = ata_out_byte p v (view d))
     \<and> (\<forall>p v d. view (Out_Word hw p v d) = ata_out_word p v (view d))"


section \<open>The protocol\<close>

lemma is_ata_ops:
  assumes "is_ata hw view"
  shows "fst (In_Byte hw p d) = fst (ata_in_byte p (view d))" "view (snd (In_Byte hw p d)) = snd (ata_in_byte p (view d))"
    "fst (In_Word hw p d) = fst (ata_in_word p (view d))" "view (snd (In_Word hw p d)) = snd (ata_in_word p (view d))"
    "view (Out_Byte hw p v d) = ata_out_byte p v (view d)" "view (Out_Word hw p w d) = ata_out_word p w (view d)"
  using assms by (auto simp: is_ata_def)

lemma status_busy: "ata_status a AND 0x80 \<noteq> 0 \<longleftrightarrow> 0 < busy a"
proof (cases "0 < busy a")
  case True
  have "(0x80 OR noise a) AND 0x80 = (0x80 :: u8)" by (rule bit_word_eqI) (auto simp: bit_simps)
  with True show ?thesis by (simp add: ata_status_def)
qed (auto simp: ata_status_def split: phase.splits)

lemma wait_busy_ata:
  assumes "is_ata hw view"
  shows "\<exists>d'. wait_busy hw d = Some d' \<and> view d' = (view d)\<lparr>busy := 0\<rparr>"
proof (induction "busy (view d)" arbitrary: d)
  case 0
  then have "fst (In_Byte hw IDE_STATUS_REGISTER d) AND IDE_STATUS_DRIVE_BUSY = 0"
    using status_busy [of "view d"] by (simp add: is_ata_ops [OF assms] ata_in_byte_def IDE_STATUS_REGISTER_def IDE_STATUS_DRIVE_BUSY_def)
  moreover have "view (snd (In_Byte hw IDE_STATUS_REGISTER d)) = (view d)\<lparr>busy := 0\<rparr>"
    using 0 by (simp add: is_ata_ops [OF assms] ata_in_byte_def IDE_STATUS_REGISTER_def)
  ultimately show ?case by (subst wait_busy.simps) (simp add: case_prod_unfold)
next
  case (Suc n)
  then have "fst (In_Byte hw IDE_STATUS_REGISTER d) AND IDE_STATUS_DRIVE_BUSY \<noteq> 0"
    using status_busy [of "view d"] by (simp add: is_ata_ops [OF assms] ata_in_byte_def IDE_STATUS_REGISTER_def IDE_STATUS_DRIVE_BUSY_def)
  moreover have v: "view (snd (In_Byte hw IDE_STATUS_REGISTER d)) = (view d)\<lparr>busy := n\<rparr>"
    using Suc(2) by (simp add: is_ata_ops [OF assms] ata_in_byte_def IDE_STATUS_REGISTER_def flip: Suc(2))
  moreover obtain d' where "wait_busy hw (snd (In_Byte hw IDE_STATUS_REGISTER d)) = Some d'" "view d' = (view d)\<lparr>busy := 0\<rparr>"
    using Suc(1) [of "snd (In_Byte hw IDE_STATUS_REGISTER d)"] v by auto
  ultimately show ?case by (subst wait_busy.simps) (simp add: case_prod_unfold)
qed

lemma read_words_ata:
  assumes "is_ata hw view" "phase_of (view d) = Sending ws" "ws \<noteq> []"
  shows "fst (read_words hw (length ws) d) = ws \<and> view (snd (read_words hw (length ws) d)) = (view d)\<lparr>phase_of := Ready\<rparr>"
  using assms(2,3)
proof (induction ws arbitrary: d)
  case (Cons w ws)
  let ?d = "snd (In_Word hw IDE_DATA_REGISTER d)"
  have i: "fst (In_Word hw IDE_DATA_REGISTER d) = w" "view ?d = (view d)\<lparr>phase_of := (if ws = [] then Ready else Sending ws)\<rparr>"
    using Cons.prems by (simp_all add: is_ata_ops [OF assms(1)] ata_in_word_def)
  show ?case
  proof (cases "ws = []")
    case True
    with i show ?thesis by (simp add: case_prod_unfold Let_def)
  next
    case False
    with Cons.IH [of ?d] i show ?thesis by (simp add: case_prod_unfold Let_def)
  qed
qed simp

lemma write_words_ata:
  assumes "is_ata hw view" "phase_of (view d) = Receiving (length ws) vs" "ws \<noteq> []"
  shows "view (write_words hw ws d) = (let a = view d in
     (if target a \<in> unreadable a then a\<lparr>phase_of := Failed, busy := delay a (commands a), commands := Suc (commands a)\<rparr>
      else a\<lparr>phase_of := Ready, busy := delay a (commands a), commands := Suc (commands a),
        ata_sector := (ata_sector a)(selected a := (ata_sector a (selected a))(address a := vs @ ws))\<rparr>))"
  using assms(2,3)
proof (induction ws arbitrary: d vs)
  case (Cons w ws)
  let ?d = "Out_Word hw IDE_DATA_REGISTER w d"
  show ?case
  proof (cases "ws = []")
    case True
    with Cons.prems show ?thesis by (simp add: is_ata_ops [OF assms(1)] ata_out_word_def Let_def)
  next
    case False
    with Cons.prems have v: "view ?d = (view d)\<lparr>phase_of := Receiving (length ws) (vs @ [w])\<rparr>"
      by (simp add: is_ata_ops [OF assms(1)] ata_out_word_def)
    have "target (view ?d) = target (view d)" "selected (view ?d) = selected (view d)" "address (view ?d) = address (view d)"
      by (simp_all add: v target_def selected_def address_def)
    with Cons.IH [of ?d "vs @ [w]"] v False show ?thesis by (simp add: Let_def)
  qed
qed simp

section \<open>Addresses\<close>

definition geometry_ok :: "ideDisk \<Rightarrow> bool" where
  "geometry_ok dr \<longleftrightarrow> 0 < num_Cylinders dr \<and> num_Cylinders dr < 32768 \<and> 0 < num_Heads dr \<and> num_Heads dr \<le> 16
     \<and> 0 < num_SectorsPerTrack dr \<and> num_SectorsPerTrack dr \<le> 255"

lemma geometryE:
  assumes "geometry_ok dr"
  obtains h s c where "num_Heads dr = int h" "num_SectorsPerTrack dr = int s" "num_Cylinders dr = int c"
    "h \<le> 16" "s \<le> 255" "c < 32768" "0 < h" "0 < s" "0 < c"
  by (rule that [of "nat (num_Heads dr)" "nat (num_SectorsPerTrack dr)" "nat (num_Cylinders dr)"])
    (use assms in \<open>auto simp: geometry_ok_def\<close>)

definition capacity :: "ideDisk \<Rightarrow> nat" where
  "capacity dr = nat (num_Heads dr) * nat (num_SectorsPerTrack dr) * nat (num_Cylinders dr)"

definition chs :: "ideDisk \<Rightarrow> nat \<Rightarrow> nat \<times> nat \<times> nat" where
  "chs dr b = (b div (nat (num_Heads dr) * nat (num_SectorsPerTrack dr)), (b div nat (num_SectorsPerTrack dr)) mod nat (num_Heads dr),
     b mod nat (num_SectorsPerTrack dr) + 1)"

lemma capacity_blocks:
  assumes "geometry_ok dr" "nat driveNum < length (drives st)" "drives st ! nat driveNum = dr" "0 \<le> driveNum" "driveNum < 2"
  shows "IDE_getNumBlocks driveNum st = Some (int (capacity dr))" "capacity dr < 133693440"
proof -
  from assms(1) obtain h s c where g: "num_Heads dr = int h" "num_SectorsPerTrack dr = int s" "num_Cylinders dr = int c"
    "h \<le> 16" "s \<le> 255" "c < 32768" by (rule geometryE)
  have "h * s \<le> 16 * 255" using g by (intro mult_le_mono)
  moreover from this have "h * s * c \<le> 4080 * 32767" using g by (intro mult_le_mono) simp_all
  ultimately have b: "h * s \<le> 4080" "h * s * c \<le> 133689360" by simp_all
  then show "capacity dr < 133693440" by (simp add: capacity_def g)
  have "s32 (int h * int s) = int (h * s)" using b(1) by (subst s32_id) (simp_all flip: of_nat_mult)
  moreover have "s32 (int (h * s) * int c) = int (h * s * c)" using b(2) by (subst s32_id) (simp_all flip: of_nat_mult)
  ultimately show "IDE_getNumBlocks driveNum st = Some (int (capacity dr))"
    using assms by (simp add: IDE_getNumBlocks_def IDE_MAX_DRIVES_def capacity_def g Let_def)
qed

lemma chs_inj:
  assumes "geometry_ok dr" "chs dr b = chs dr b'"
  shows "b = b'"
proof -
  define h s where "h = nat (num_Heads dr)" and "s = nat (num_SectorsPerTrack dr)"
  have e: "b div (h * s) = b' div (h * s)" "(b div s) mod h = (b' div s) mod h" "b mod s = b' mod s"
    using assms(2) by (simp_all add: chs_def h_def s_def)
  have "b div s div h = b' div s div h" using e(1) by (metis div_mult2_eq mult.commute)
  with e(2) have "b div s = b' div s" by (metis div_mult_mod_eq)
  with e(3) show ?thesis by (metis div_mult_mod_eq)
qed

lemma chs_registers:
  assumes "geometry_ok dr" "b < capacity dr"
  shows "int b smod num_SectorsPerTrack dr + 1 = int (b mod nat (num_SectorsPerTrack dr) + 1)"
    "int b sdiv (num_Heads dr * num_SectorsPerTrack dr) = int (b div (nat (num_Heads dr) * nat (num_SectorsPerTrack dr)))"
    "(int b sdiv num_SectorsPerTrack dr) smod num_Heads dr = int ((b div nat (num_SectorsPerTrack dr)) mod nat (num_Heads dr))"
    "b mod nat (num_SectorsPerTrack dr) + 1 < 256"
    "b div (nat (num_Heads dr) * nat (num_SectorsPerTrack dr)) < 65536"
    "(b div nat (num_SectorsPerTrack dr)) mod nat (num_Heads dr) < 16"
proof -
  from assms(1) obtain h s c where g: "num_Heads dr = int h" "num_SectorsPerTrack dr = int s" "num_Cylinders dr = int c"
    "h \<le> 16" "s \<le> 255" "c < 32768" "0 < h" "0 < s" "0 < c" by (rule geometryE)
  have m: "int x smod int y = int (x mod y)" if "0 < y" for x y
    using that by (simp add: signed_modulo_int_def zmod_int sgn_if)
  have d: "int x sdiv int y = int (x div y)" for x y
    by (simp add: signed_divide_int_def zdiv_int sgn_if)
  show "int b smod num_SectorsPerTrack dr + 1 = int (b mod nat (num_SectorsPerTrack dr) + 1)" using g by (simp add: m)
  show "int b sdiv (num_Heads dr * num_SectorsPerTrack dr) = int (b div (nat (num_Heads dr) * nat (num_SectorsPerTrack dr)))"
    using d [of b "h * s"] by (simp add: g)
  show "(int b sdiv num_SectorsPerTrack dr) smod num_Heads dr = int ((b div nat (num_SectorsPerTrack dr)) mod nat (num_Heads dr))"
    using g by (simp add: d m)
  have "b mod s < s" using g by simp
  with g show "b mod nat (num_SectorsPerTrack dr) + 1 < 256" by simp
  have "b < h * s * c" using assms(2) by (simp add: capacity_def g)
  then have "b div (h * s) < c" using g by (simp add: less_mult_imp_div_less mult.commute)
  with g show "b div (nat (num_Heads dr) * nat (num_SectorsPerTrack dr)) < 65536" by simp
  have "(b div s) mod h < h" using g by simp
  with g show "(b div nat (num_SectorsPerTrack dr)) mod nat (num_Heads dr) < 16" by simp
qed

lemma byte_of_small: "n < 256 \<Longrightarrow> unat (word_of_int (int n) :: u8) = n"
  by (simp add: unsigned_of_nat take_bit_nat_eq_self)

lemma and_255: "and x 255 = x mod 256" for x :: int
  using take_bit_eq_mask [of 8 x] by (simp add: mask_eq_exp_minus_1 take_bit_eq_mod)

lemma cylinder_bytes: "n < 65536 \<Longrightarrow> unat (LOW_BYTE (int n)) + 256 * unat (HIGH_BYTE (int n)) = n"
proof -
  assume n: "n < 65536"
  have "int n mod 256 = int (n mod 256)" "int n div 256 mod 256 = int (n div 256 mod 256)" by (simp_all add: zmod_int zdiv_int)
  moreover have "drop_bit 8 (int n) = int n div 256" by (simp add: drop_bit_eq_div)
  ultimately have "LOW_BYTE (int n) = word_of_nat (n mod 256)" "HIGH_BYTE (int n) = word_of_nat (n div 256 mod 256)"
    by (simp_all only: LOW_BYTE_def HIGH_BYTE_def and_255 of_int_of_nat_eq)
  moreover have "n div 256 < 256" using n by (simp add: less_mult_imp_div_less)
  ultimately show ?thesis by (simp add: unsigned_of_nat take_bit_nat_eq_self)
qed

lemma head_byte:
  assumes "n < 16"
  shows "unat ((0xa0 OR word_of_nat n) AND 0x0f :: u8) = n" "\<not> bit (0xa0 OR word_of_nat n :: u8) 4"
    "unat ((0xb0 OR word_of_nat n) AND 0x0f :: u8) = n" "bit (0xb0 OR word_of_nat n :: u8) 4"
proof -
  have "n \<in> {0, 1, 2, 3, 4, 5, 6, 7, 8, 9, 10, 11, 12, 13, 14, 15}" using assms by simp presburger
  then show "unat ((0xa0 OR word_of_nat n) AND 0x0f :: u8) = n" "\<not> bit (0xa0 OR word_of_nat n :: u8) 4"
    "unat ((0xb0 OR word_of_nat n) AND 0x0f :: u8) = n" "bit (0xb0 OR word_of_nat n :: u8) 4"
    by (elim insertE emptyE; simp add: bit_simps)+
qed

lemma ide_command_ata:
  assumes hw: "is_ata hw view" and g: "geometry_ok dr" "b < capacity dr" and u: "u \<in> {0, 1}"
  shows "\<exists>t. view (ide_command hw u dr (int b) cmd d) = ata_command cmd ((view d)\<lparr>task := t\<rparr>)
    \<and> selected ((view d)\<lparr>task := t\<rparr>) = (u = 1) \<and> address ((view d)\<lparr>task := t\<rparr>) = chs dr b"
proof -
  note r = chs_registers [OF g]
  define h s where "h = nat (num_Heads dr)" and "s = nat (num_SectorsPerTrack dr)"
  define t where "t = (task (view d))(IDE_SECTOR_COUNT_REGISTER := 1, IDE_SECTOR_NUMBER_REGISTER := word_of_nat (b mod s + 1),
    IDE_CYLINDER_LOW_REGISTER := LOW_BYTE (int (b div (h * s))), IDE_CYLINDER_HIGH_REGISTER := HIGH_BYTE (int (b div (h * s))),
    IDE_DRIVE_HEAD_REGISTER := (if u = 0 then IDE_DRIVE_0 else IDE_DRIVE_1) OR word_of_nat ((b div s) mod h))"
  have "view (ide_command hw u dr (int b) cmd d) = ata_command cmd ((view d)\<lparr>task := t\<rparr>)"
    using u by (auto simp: ide_command_def Let_def r is_ata_ops [OF hw] ata_out_byte_def t_def h_def s_def IDE_COMMAND_REGISTER_def
        IDE_SECTOR_COUNT_REGISTER_def IDE_SECTOR_NUMBER_REGISTER_def IDE_CYLINDER_LOW_REGISTER_def IDE_CYLINDER_HIGH_REGISTER_def
        IDE_DRIVE_HEAD_REGISTER_def)
  moreover have "selected ((view d)\<lparr>task := t\<rparr>) = (u = 1)"
    using u head_byte [OF r(6)] by (auto simp: selected_def t_def IDE_DRIVE_0_def IDE_DRIVE_1_def h_def s_def)
  moreover have "address ((view d)\<lparr>task := t\<rparr>) = chs dr b"
    using u head_byte [OF r(6)] cylinder_bytes [OF r(5)] byte_of_small [OF r(4)]
    by (auto simp: address_def chs_def t_def h_def s_def IDE_DRIVE_0_def IDE_DRIVE_1_def IDE_SECTOR_COUNT_REGISTER_def
        IDE_SECTOR_NUMBER_REGISTER_def IDE_CYLINDER_LOW_REGISTER_def IDE_CYLINDER_HIGH_REGISTER_def IDE_DRIVE_HEAD_REGISTER_def)
  ultimately show ?thesis by blast
qed

section \<open>A drive is an array of blocks\<close>

lemma length_words_of: "length (words_of bs) = length bs div 2"
  by (induction bs rule: words_of.induct) simp_all

lemma length_bytes_of: "length (bytes_of ws) = 2 * length ws"
  by (induction ws) (simp_all add: bytes_of_def)

lemma bytes_of_words_of: "even (length bs) \<Longrightarrow> bytes_of (words_of bs) = bs"
proof (induction bs rule: words_of.induct)
  case (1 a b bs)
  have "ucast (ucast a OR push_bit 8 (ucast b) :: u16) = a" "ucast (drop_bit 8 (ucast a OR push_bit 8 (ucast b) :: u16)) = b"
    by (rule bit_word_eqI, auto simp: bit_simps dest: bit_imp_le_length)+
  with 1 show ?case by (simp add: bytes_of_def)
qed (simp_all add: bytes_of_def)

text \<open>Drive \<open>u\<close> is configured with the geometry \<open>dr\<close>, and its block \<open>b\<close> is one of its sectors.\<close>

definition drive_ok :: "ide \<Rightarrow> int \<Rightarrow> ideDisk \<Rightarrow> bool" where
  "drive_ok st u dr \<longleftrightarrow> u \<in> {0, 1} \<and> u < numDrives st \<and> nat u < length (drives st) \<and> drives st ! nat u = dr \<and> geometry_ok dr"

definition ide_block :: "ata \<Rightarrow> ideDisk \<Rightarrow> bool \<Rightarrow> nat \<Rightarrow> u8 list" where
  "ide_block a dr second b = bytes_of (ata_sector a second (chs dr b))"

definition same_media :: "ata \<Rightarrow> ata \<Rightarrow> bool" where
  "same_media a a' \<longleftrightarrow> unreadable a' = unreadable a \<and> identity a' = identity a \<and> delay a' = delay a"

lemma drive_okD:
  assumes "drive_ok st u dr" "b < capacity dr"
  shows "\<not> (u < 0 \<or> u > numDrives st - 1)" "IDE_getNumBlocks u st = Some (int (capacity dr))" "drives st ! nat u = dr"
    "\<not> (int b < 0 \<or> int b \<ge> int (capacity dr))" "u \<in> {0, 1}" "geometry_ok dr"
  using assms capacity_blocks(1) [of dr u st] by (auto simp: drive_ok_def)

lemma status_ready:
  assumes "is_ata hw view" "busy (view d) = 0"
  shows "fst (In_Byte hw IDE_STATUS_REGISTER d) AND IDE_STATUS_DRIVE_ERROR \<noteq> 0 \<longleftrightarrow> phase_of (view d) = Failed"
    "fst (In_Byte hw IDE_STATUS_REGISTER d) AND IDE_STATUS_DRIVE_DATA_REQUEST \<noteq> 0
      \<longleftrightarrow> (\<exists>ws. phase_of (view d) = Sending ws) \<or> (\<exists>n ws. phase_of (view d) = Receiving n ws)"
    "view (snd (In_Byte hw IDE_STATUS_REGISTER d)) = view d"
  using assms(2) by (auto simp: is_ata_ops [OF assms(1)] ata_in_byte_def ata_status_def IDE_STATUS_REGISTER_def
      IDE_STATUS_DRIVE_ERROR_def IDE_STATUS_DRIVE_DATA_REQUEST_def split: phase.splits)

lemma IDE_Read_run:
  assumes hw: "is_ata hw view" and dk: "drive_ok st u dr" and b: "b < capacity dr"
    and len: "length (ata_sector (view d) (u = 1) (chs dr b)) = 256"
  shows "\<exists>d'. IDE_Read hw u (int b) buf st d
      = (if (u = 1, chs dr b) \<in> unreadable (view d) then Some (IDE_ERROR_DRIVE_ERROR, buf, st\<lparr>ide_ints := False\<rparr>, d')
         else Some (IDE_ERROR_NO_ERROR, ide_block (view d) dr (u = 1) b, st, d'))
    \<and> same_media (view d) (view d') \<and> ata_sector (view d') = ata_sector (view d)"
proof -
  note k = drive_okD [OF dk b]
  let ?d1 = "ide_command hw u dr (int b) IDE_COMMAND_READ_SECTORS d"
  obtain t where t: "view ?d1 = ata_command IDE_COMMAND_READ_SECTORS ((view d)\<lparr>task := t\<rparr>)"
    "selected ((view d)\<lparr>task := t\<rparr>) = (u = 1)" "address ((view d)\<lparr>task := t\<rparr>) = chs dr b"
    using ide_command_ata [OF hw k(6) b k(5)] by blast
  obtain d2 where d2: "wait_busy hw ?d1 = Some d2" "view d2 = (view ?d1)\<lparr>busy := 0\<rparr>" using wait_busy_ata [OF hw] by blast
  let ?d3 = "snd (In_Byte hw IDE_STATUS_REGISTER d2)"
  have p: "phase_of (view d2) = (if (u = 1, chs dr b) \<in> unreadable (view d) then Failed else Sending (ata_sector (view d) (u = 1) (chs dr b)))"
    "busy (view d2) = 0" "same_media (view d) (view d2)" "ata_sector (view d2) = ata_sector (view d)"
    using t by (simp_all add: d2(2) ata_command_def target_def IDE_COMMAND_READ_SECTORS_def same_media_def)
  note s = status_ready [OF hw p(2)]
  have run: "IDE_Read hw u (int b) buf st d =
    (if phase_of (view d2) = Failed
     then let (_, d) = In_Byte hw IDE_STATUS_REGISTER ?d3 in Some (IDE_ERROR_DRIVE_ERROR, buf, st\<lparr>ide_ints := False\<rparr>, d)
     else let (ws, d) = read_words hw 256 ?d3 in Some (IDE_ERROR_NO_ERROR, bytes_of ws, st, d))"
    unfolding IDE_Read_def if_not_P [OF k(1)] k(2) bind.bind_lunit if_not_P [OF k(4)] Let_def case_prod_unfold
    by (simp add: k(3) d2(1) s(1))
  show ?thesis
  proof (cases "(u = 1, chs dr b) \<in> unreadable (view d)")
    case True
    have "busy (view ?d3) = 0" using p(2) s(3) by simp
    from status_ready(3) [OF hw this] have "view (snd (In_Byte hw IDE_STATUS_REGISTER ?d3)) = view d2" using s(3) by simp
    with True run p show ?thesis by (auto simp: case_prod_unfold Let_def)
  next
    case False
    let ?ws = "ata_sector (view d) (u = 1) (chs dr b)"
    have "phase_of (view ?d3) = Sending ?ws" "?ws \<noteq> []" using False p(1) s(3) len by auto
    from read_words_ata [OF hw this] have "fst (read_words hw 256 ?d3) = ?ws" "view (snd (read_words hw 256 ?d3)) = (view d2)\<lparr>phase_of := Ready\<rparr>"
      unfolding len s(3) by simp_all
    with False run p show ?thesis by (auto simp: case_prod_unfold Let_def ide_block_def same_media_def)
  qed
qed

lemma IDE_Write_run:
  assumes hw: "is_ata hw view" and dk: "drive_ok st u dr" and b: "b < capacity dr" and len: "length buf = 512"
  shows "\<exists>d'. IDE_Write hw u (int b) buf st d
      = (if (u = 1, chs dr b) \<in> unreadable (view d) then Some (IDE_ERROR_DRIVE_ERROR, buf, st\<lparr>ide_ints := False\<rparr>, d')
         else Some (IDE_ERROR_NO_ERROR, buf, st, d'))
    \<and> same_media (view d) (view d')
    \<and> ata_sector (view d') = (if (u = 1, chs dr b) \<in> unreadable (view d) then ata_sector (view d)
        else (ata_sector (view d))(u = 1 := (ata_sector (view d) (u = 1))(chs dr b := words_of buf)))"
proof -
  note k = drive_okD [OF dk b]
  let ?d1 = "ide_command hw u dr (int b) IDE_COMMAND_WRITE_SECTORS d"
  obtain t where t: "view ?d1 = ata_command IDE_COMMAND_WRITE_SECTORS ((view d)\<lparr>task := t\<rparr>)"
    "selected ((view d)\<lparr>task := t\<rparr>) = (u = 1)" "address ((view d)\<lparr>task := t\<rparr>) = chs dr b"
    using ide_command_ata [OF hw k(6) b k(5)] by blast
  obtain d2 where d2: "wait_busy hw ?d1 = Some d2" "view d2 = (view ?d1)\<lparr>busy := 0\<rparr>" using wait_busy_ata [OF hw] by blast
  have p: "phase_of (view d2) = Receiving 256 []" "selected (view d2) = (u = 1)" "address (view d2) = chs dr b"
    "unreadable (view d2) = unreadable (view d)" "same_media (view d) (view d2)" "ata_sector (view d2) = ata_sector (view d)"
    using t by (simp_all add: d2(2) ata_command_def IDE_COMMAND_WRITE_SECTORS_def same_media_def selected_def address_def)
  have lw: "length (words_of buf) = 256" "words_of buf \<noteq> []" using length_words_of [of buf] len by auto
  let ?d3 = "write_words hw (words_of buf) d2"
  have "phase_of (view d2) = Receiving (length (words_of buf)) []" using p(1) lw by simp
  from write_words_ata [OF hw this lw(2)] have v3:
    "phase_of (view ?d3) = (if (u = 1, chs dr b) \<in> unreadable (view d) then Failed else Ready)"
    "same_media (view d) (view ?d3)"
    "ata_sector (view ?d3) = (if (u = 1, chs dr b) \<in> unreadable (view d) then ata_sector (view d)
        else (ata_sector (view d))(u = 1 := (ata_sector (view d) (u = 1))(chs dr b := words_of buf)))"
    using p by (simp_all add: Let_def target_def same_media_def)
  obtain d4 where d4: "wait_busy hw ?d3 = Some d4" "view d4 = (view ?d3)\<lparr>busy := 0\<rparr>" using wait_busy_ata [OF hw] by blast
  let ?d5 = "snd (In_Byte hw IDE_STATUS_REGISTER d4)"
  have b4: "busy (view d4) = 0" by (simp add: d4(2))
  note s = status_ready [OF hw b4]
  have run: "IDE_Write hw u (int b) buf st d =
    (if phase_of (view d4) = Failed
     then let (_, d) = In_Byte hw IDE_STATUS_REGISTER ?d5 in Some (IDE_ERROR_DRIVE_ERROR, buf, st\<lparr>ide_ints := False\<rparr>, d)
     else Some (IDE_ERROR_NO_ERROR, buf, st, ?d5))"
    unfolding IDE_Write_def if_not_P [OF k(1)] k(2) bind.bind_lunit if_not_P [OF k(4)] Let_def case_prod_unfold
    by (simp add: k(3) d2(1) lw d4(1) s(1))
  have "busy (view ?d5) = 0" using b4 s(3) by simp
  from status_ready(3) [OF hw this] have "view (snd (In_Byte hw IDE_STATUS_REGISTER ?d5)) = view d4" using s(3) by simp
  with run v3 s(3) show ?thesis by (auto simp: case_prod_unfold Let_def d4(2) same_media_def)
qed

text \<open>
  Property C25.  Through its request thread the driver makes the drives of an ATA controller
  arrays of blocks of 512 bytes.  A request for a block of a configured drive completes with
  code 0; a read gives the block and changes none, a write changes that block of that drive and
  no other.  On a sector the drive cannot access it fails with \<open>IDE_ERROR_DRIVE_ERROR\<close>, changes no
  block, and leaves interrupts disabled.  Requests for other blocks and other drives are refused
  without touching a port.
\<close>

theorem IDE_requests_block_array:
  assumes "is_ata hw view" and "length buf = 512" and "\<forall>s x. length (ata_sector (view d) s x) = 256"
    and "drive_ok st u dr"
  shows "(\<forall>b < capacity dr. \<exists>d'. IDE_Request_Thread hw ty u (int b) buf st d =
      (if (u = 1, chs dr b) \<in> unreadable (view d)
       then Some (ERROR, IDE_ERROR_DRIVE_ERROR, buf, st\<lparr>ide_ints := False\<rparr>, d')
       else Some (COMPLETED, 0, if ty = BLOCK_READ then ide_block (view d) dr (u = 1) b else buf, st, d'))
      \<and> (\<forall>v dr' b'. drive_ok st v dr' \<longrightarrow> ide_block (view d') dr' (v = 1) b' =
          (if ty = BLOCK_WRITE \<and> (u = 1, chs dr b) \<notin> unreadable (view d) \<and> v = u \<and> b' = b then buf
           else ide_block (view d) dr' (v = 1) b')))
    \<and> (\<forall>n. \<not> (0 \<le> n \<and> n < int (capacity dr)) \<longrightarrow>
        IDE_Request_Thread hw ty u n buf st d = Some (ERROR, IDE_ERROR_INVALID_BLOCK, buf, st, d))
    \<and> (\<forall>v n. \<not> (0 \<le> v \<and> v < numDrives st) \<longrightarrow>
        IDE_Request_Thread hw ty v n buf st d = Some (ERROR, IDE_ERROR_BAD_DRIVE, buf, st, d))"
proof (intro conjI allI impI)
  fix b assume b: "b < capacity dr"
  note k = drive_okD [OF assms(4) b]
  have same: "ide_block (view d') dr' x b' = ide_block (view d) dr' x b'" if "ata_sector (view d') = ata_sector (view d)" for d' dr' x b'
    using that by (simp add: ide_block_def)
  show "\<exists>d'. IDE_Request_Thread hw ty u (int b) buf st d =
      (if (u = 1, chs dr b) \<in> unreadable (view d)
       then Some (ERROR, IDE_ERROR_DRIVE_ERROR, buf, st\<lparr>ide_ints := False\<rparr>, d')
       else Some (COMPLETED, 0, if ty = BLOCK_READ then ide_block (view d) dr (u = 1) b else buf, st, d'))
      \<and> (\<forall>v dr' b'. drive_ok st v dr' \<longrightarrow> ide_block (view d') dr' (v = 1) b' =
          (if ty = BLOCK_WRITE \<and> (u = 1, chs dr b) \<notin> unreadable (view d) \<and> v = u \<and> b' = b then buf
           else ide_block (view d) dr' (v = 1) b'))"
  proof (cases "ty = BLOCK_READ")
    case True
    have "length (ata_sector (view d) (u = 1) (chs dr b)) = 256" using assms(3) by blast
    from IDE_Read_run [OF assms(1,4) b this] obtain d' where
      d': "IDE_Read hw u (int b) buf st d
        = (if (u = 1, chs dr b) \<in> unreadable (view d) then Some (IDE_ERROR_DRIVE_ERROR, buf, st\<lparr>ide_ints := False\<rparr>, d')
           else Some (IDE_ERROR_NO_ERROR, ide_block (view d) dr (u = 1) b, st, d'))"
      "ata_sector (view d') = ata_sector (view d)" by blast
    then show ?thesis using True same [OF d'(2)]
      by (intro exI [of _ d']) (simp add: IDE_Request_Thread_def IDE_ERROR_NO_ERROR_def IDE_ERROR_DRIVE_ERROR_def)
  next
    case False
    then have ty: "ty = BLOCK_WRITE" by (cases ty) simp_all
    obtain d' where d': "IDE_Write hw u (int b) buf st d
      = (if (u = 1, chs dr b) \<in> unreadable (view d) then Some (IDE_ERROR_DRIVE_ERROR, buf, st\<lparr>ide_ints := False\<rparr>, d')
         else Some (IDE_ERROR_NO_ERROR, buf, st, d'))"
      "ata_sector (view d') = (if (u = 1, chs dr b) \<in> unreadable (view d) then ata_sector (view d)
        else (ata_sector (view d))(u = 1 := (ata_sector (view d) (u = 1))(chs dr b := words_of buf)))"
      using IDE_Write_run [OF assms(1,4) b assms(2)] by blast
    have bb: "bytes_of (words_of buf) = buf" using assms(2) by (simp add: bytes_of_words_of)
    have "ide_block (view d') dr' (v = 1) b' =
        (if (u = 1, chs dr b) \<notin> unreadable (view d) \<and> v = u \<and> b' = b then buf else ide_block (view d) dr' (v = 1) b')"
      if v: "drive_ok st v dr'" for v dr' b'
    proof -
      have e: "(v = 1) = (u = 1) \<longleftrightarrow> v = u" using v assms(4) by (auto simp: drive_ok_def)
      have "chs dr' b' = chs dr b \<longleftrightarrow> b' = b" if "v = u"
      proof -
        have "dr' = dr" using v assms(4) that by (simp add: drive_ok_def)
        then show ?thesis using chs_inj [OF k(6), of b' b] by blast
      qed
      then show ?thesis by (cases "v = u"; cases "b' = b") (auto simp: ide_block_def d'(2) bb e)
    qed
    with d'(1) ty show ?thesis
      by (intro exI [of _ d']) (simp add: IDE_Request_Thread_def IDE_ERROR_NO_ERROR_def IDE_ERROR_DRIVE_ERROR_def)
  qed
next
  fix n assume n: "\<not> (0 \<le> n \<and> n < int (capacity dr))"
  have "0 < capacity dr" using assms(4) by (auto simp: drive_ok_def geometry_ok_def capacity_def)
  note k = drive_okD [OF assms(4) this]
  show "IDE_Request_Thread hw ty u n buf st d = Some (ERROR, IDE_ERROR_INVALID_BLOCK, buf, st, d)"
    using n k(1,2) by (auto simp: IDE_Request_Thread_def IDE_Read_def IDE_Write_def IDE_ERROR_INVALID_BLOCK_def)
next
  fix v n assume "\<not> (0 \<le> v \<and> v < numDrives st)"
  then show "IDE_Request_Thread hw ty v n buf st d = Some (ERROR, IDE_ERROR_BAD_DRIVE, buf, st, d)"
    by (auto simp: IDE_Request_Thread_def IDE_Read_def IDE_Write_def IDE_ERROR_BAD_DRIVE_def)
qed

text \<open>A controller with one small drive, and a request to write its second block.\<close>

definition ata_ports :: "ata ports" where
  "ata_ports = \<lparr>In_Byte = ata_in_byte, In_Word = ata_in_word, Out_Byte = ata_out_byte, Out_Word = ata_out_word\<rparr>"

definition toy_ata :: ata where
  "toy_ata = \<lparr>task = (\<lambda>_. 0), busy = 0, phase_of = Ready, ata_sector = (\<lambda>_ _. replicate 256 7), unreadable = {},
     identity = (\<lambda>second. if second then None else Some ([0, 2, 0, 3, 0, 512, 5] @ replicate 249 0)), delay = (\<lambda>n. n mod 3), noise = 9, commands = 0\<rparr>"

definition toy_ide :: ide where
  "toy_ide = \<lparr>numDrives = 1, drives = replicate 2 \<lparr>num_Cylinders = 2, num_Heads = 3, num_SectorsPerTrack = 5, num_BytesPerSector = 512\<rparr>,
     ide_ints = True\<rparr>"

lemma ata_ports_ok: "is_ata ata_ports (\<lambda>a. a)"
  by (simp add: is_ata_def ata_ports_def)

lemma IDE_requests_block_array_witness:
  "\<exists>a'. IDE_Request_Thread ata_ports BLOCK_WRITE 0 17 (replicate 512 1) toy_ide toy_ata = Some (COMPLETED, 0, replicate 512 1, toy_ide, a')
     \<and> ide_block a' (drives toy_ide ! 0) False 17 = replicate 512 1"
proof -
  let ?dr = "drives toy_ide ! 0"
  have len: "\<forall>s x. length (ata_sector toy_ata s x) = 256" by (simp add: toy_ata_def)
  have dk: "drive_ok toy_ide 0 ?dr" by (simp add: drive_ok_def toy_ide_def geometry_ok_def)
  have cap: "17 < capacity ?dr" by (simp add: capacity_def toy_ide_def)
  have un: "unreadable toy_ata = {}" by (simp add: toy_ata_def)
  have bl: "length (replicate 512 (1 :: u8)) = 512" by simp
  from conjunct1 [OF IDE_requests_block_array [OF ata_ports_ok bl len dk, of BLOCK_WRITE]] cap obtain a' where
    "IDE_Request_Thread ata_ports BLOCK_WRITE 0 (int 17) (replicate 512 1) toy_ide toy_ata
      = Some (COMPLETED, 0, replicate 512 1, toy_ide, a')"
    "\<forall>v dr' b'. drive_ok toy_ide v dr' \<longrightarrow> ide_block a' dr' (v = 1) b' =
          (if v = 0 \<and> b' = 17 then replicate 512 1 else ide_block toy_ata dr' (v = 1) b')"
    unfolding un by fastforce
  moreover from this(2) dk have "ide_block a' ?dr (0 = (1 :: int)) 17 = replicate 512 1" by (metis (full_types))
  ultimately show ?thesis by auto
qed

section \<open>Finding the drives\<close>

definition drive_config :: "u16 list \<Rightarrow> ideDisk" where
  "drive_config info = \<lparr>num_Cylinders = sint (info ! 1), num_Heads = sint (info ! 3), num_SectorsPerTrack = sint (info ! 6),
     num_BytesPerSector = sint (info ! 5)\<rparr>"

definition found_device :: "(nat \<Rightarrow> request_type \<Rightarrow> int \<Rightarrow> u8 list \<Rightarrow> int \<times> u8 list) \<Rightarrow> nat \<Rightarrow> u16 list option \<Rightarrow> block_device list" where
  "found_device transfer u i = (case i of None \<Rightarrow> []
     | Some info \<Rightarrow> [\<lparr>bd_name = [105, 100, 101, 48 + word_of_nat u], bd_unit = int u, bd_inUse = False, drv_Open = 0, drv_Close = 0,
         drv_Get_Num_Blocks = int (capacity (drive_config info)), drv_transfer = transfer u\<rparr>])"

definition found_drive :: "nat \<Rightarrow> u16 list option \<Rightarrow> ide \<Rightarrow> ide" where
  "found_drive u i st = (case i of None \<Rightarrow> st | Some info \<Rightarrow> st\<lparr>drives := (drives st)[u := drive_config info]\<rparr>)"

lemma ata_identify:
  assumes hw: "is_ata hw view" and u: "u \<in> {0, 1 :: nat}" and c: "cmd = IDE_COMMAND_IDENTIFY_DRIVE \<or> cmd = IDE_COMMAND_ATAPI_IDENT_DRIVE"
  shows "\<exists>d'. wait_busy hw (Out_Byte hw IDE_COMMAND_REGISTER cmd
      (Out_Byte hw IDE_DRIVE_HEAD_REGISTER (if u = 0 then IDE_DRIVE_0 else IDE_DRIVE_1) d)) = Some d'
    \<and> busy (view d') = 0 \<and> same_media (view d) (view d') \<and> ata_sector (view d') = ata_sector (view d)
    \<and> (cmd = IDE_COMMAND_IDENTIFY_DRIVE \<longrightarrow>
         phase_of (view d') = (case identity (view d) (u = 1) of Some ws \<Rightarrow> Sending ws | None \<Rightarrow> Failed))"
proof -
  let ?a = "(view d)\<lparr>task := (task (view d))(IDE_DRIVE_HEAD_REGISTER := if u = 0 then IDE_DRIVE_0 else IDE_DRIVE_1)\<rparr>"
  let ?d = "Out_Byte hw IDE_COMMAND_REGISTER cmd (Out_Byte hw IDE_DRIVE_HEAD_REGISTER (if u = 0 then IDE_DRIVE_0 else IDE_DRIVE_1) d)"
  have v: "view ?d = ata_command cmd ?a"
    by (simp add: is_ata_ops [OF hw] ata_out_byte_def IDE_COMMAND_REGISTER_def IDE_DRIVE_HEAD_REGISTER_def)
  have "bit (0xa0 :: u8) 4 = False" "bit (0xb0 :: u8) 4 = True" by simp_all
  then have s: "selected ?a = (u = 1)" using u by (auto simp: selected_def IDE_DRIVE_0_def IDE_DRIVE_1_def)
  obtain d' where d': "wait_busy hw ?d = Some d'" "view d' = (view ?d)\<lparr>busy := 0\<rparr>" using wait_busy_ata [OF hw] by blast
  have m: "identity ?a = identity (view d)" "unreadable ?a = unreadable (view d)" "delay ?a = delay (view d)"
    "ata_sector ?a = ata_sector (view d)" by simp_all
  have v': "view d' = (ata_command cmd ?a)\<lparr>busy := 0\<rparr>" using d'(2) v by simp
  have "busy (view d') = 0" "same_media (view d) (view d')" "ata_sector (view d') = ata_sector (view d)"
    unfolding v' same_media_def ata_command_def by simp_all
  moreover have "phase_of (view d') = (case identity (view d) (u = 1) of Some ws \<Rightarrow> Sending ws | None \<Rightarrow> Failed)"
    if "cmd = IDE_COMMAND_IDENTIFY_DRIVE"
    unfolding v' ata_command_def that IDE_COMMAND_IDENTIFY_DRIVE_def s m by simp
  ultimately show ?thesis using d'(1) by blast
qed

lemma same_media_trans: "same_media a b \<Longrightarrow> same_media b c \<Longrightarrow> same_media a c"
  by (simp add: same_media_def)

lemma readDriveConfig_run:
  assumes hw: "is_ata hw view" and u: "u \<in> {0, 1 :: nat}" and l: "length (drives st) = 2" and w: "mallocs w = []"
    and i: "\<forall>ws. identity (view d) (u = 1) = Some ws \<longrightarrow> length ws = 256 \<and> geometry_ok (drive_config ws)"
  shows "\<exists>d'. readDriveConfig hw (transfer u) u st d w
      = Some (if identity (view d) (u = 1) = None then -1 else 0, found_drive u (identity (view d) (u = 1)) st, d',
          w\<lparr>s_deviceList := s_deviceList w @ found_device transfer u (identity (view d) (u = 1))\<rparr>)
    \<and> same_media (view d) (view d') \<and> ata_sector (view d') = ata_sector (view d)"
proof -
  let ?h = "if u = 0 then IDE_DRIVE_0 else IDE_DRIVE_1"
  obtain d1 where d1: "wait_busy hw (Out_Byte hw IDE_COMMAND_REGISTER IDE_COMMAND_IDENTIFY_DRIVE (Out_Byte hw IDE_DRIVE_HEAD_REGISTER ?h d)) = Some d1"
    "busy (view d1) = 0" "same_media (view d) (view d1)" "ata_sector (view d1) = ata_sector (view d)"
    "phase_of (view d1) = (case identity (view d) (u = 1) of Some ws \<Rightarrow> Sending ws | None \<Rightarrow> Failed)"
    using ata_identify [OF hw u, of IDE_COMMAND_IDENTIFY_DRIVE d] by auto
  let ?d2 = "snd (In_Byte hw IDE_STATUS_REGISTER d1)"
  note s = status_ready [OF hw d1(2)]
  show ?thesis
  proof (cases "identity (view d) (u = 1)")
    case None
    let ?d3 = "Out_Byte hw IDE_FEATURE_REG 0 ?d2"
    have v3: "view ?d3 = (view d1)\<lparr>task := (task (view d1))(IDE_FEATURE_REG := 0)\<rparr>"
      using s(3) by (simp add: is_ata_ops [OF hw] ata_out_byte_def IDE_FEATURE_REG_def IDE_ERROR_REGISTER_def)
    obtain d4 where d4: "wait_busy hw (Out_Byte hw IDE_COMMAND_REGISTER IDE_COMMAND_ATAPI_IDENT_DRIVE (Out_Byte hw IDE_DRIVE_HEAD_REGISTER ?h ?d3)) = Some d4"
      "busy (view d4) = 0" "same_media (view ?d3) (view d4)" "ata_sector (view d4) = ata_sector (view ?d3)"
      using ata_identify [OF hw u, of IDE_COMMAND_ATAPI_IDENT_DRIVE ?d3] by auto
    have nd: "\<not> (fst (In_Byte hw IDE_STATUS_REGISTER d1) AND IDE_STATUS_DRIVE_DATA_REQUEST \<noteq> 0)"
      using s(2) d1(5) None by simp
    have "readDriveConfig hw (transfer u) u st d w = Some (-1, st, snd (In_Byte hw IDE_STATUS_REGISTER d4), w)"
      unfolding readDriveConfig_def Let_def d1(1) bind.bind_lunit case_prod_unfold if_not_P [OF nd] d4(1) by simp
    moreover have "same_media (view d) (view d4)" using d1(3) d4(3) by (simp add: v3 same_media_def)
    ultimately show ?thesis using None d1(4) d4(4) status_ready(3) [OF hw d4(2)]
      by (simp add: found_drive_def found_device_def v3)
  next
    case (Some ws)
    with i have ws: "length ws = 256" "geometry_ok (drive_config ws)" by simp_all
    have dr: "fst (In_Byte hw IDE_STATUS_REGISTER d1) AND IDE_STATUS_DRIVE_DATA_REQUEST \<noteq> 0"
      using s(2) d1(5) Some by simp
    have "phase_of (view ?d2) = Sending ws" "ws \<noteq> []" using d1(5) s(3) Some ws by auto
    from read_words_ata [OF hw this] have rw: "fst (read_words hw 256 ?d2) = ws" "view (snd (read_words hw 256 ?d2)) = (view d1)\<lparr>phase_of := Ready\<rparr>"
      unfolding ws(1) s(3) by simp_all
    let ?st = "st\<lparr>drives := (drives st)[u := drive_config ws]\<rparr>"
    have cfg: "\<lparr>num_Cylinders = sint (ws ! 1), num_Heads = sint (ws ! 3), num_SectorsPerTrack = sint (ws ! 6), num_BytesPerSector = sint (ws ! 5)\<rparr> = drive_config ws"
      by (simp add: drive_config_def)
    have ul: "u < length (drives st)" using u l by auto
    then have nb: "IDE_getNumBlocks (int u) ?st = Some (int (capacity (drive_config ws)))"
      using u by (intro capacity_blocks(1) [OF ws(2)]) auto
    have "readDriveConfig hw (transfer u) u st d w = Some (0, ?st, snd (read_words hw 256 ?d2),
        w\<lparr>s_deviceList := s_deviceList w @ found_device transfer u (Some ws)\<rparr>)"
      unfolding readDriveConfig_def Let_def d1(1) bind.bind_lunit case_prod_unfold if_P [OF dr] rw(1) cfg nb
      using ul w by (simp add: Register_Block_Device_def Malloc_def BLOCKDEV_MAX_NAME_LEN_def found_device_def)
    then show ?thesis using Some d1(3,4) rw(2) by (simp add: found_drive_def same_media_def)
  qed
qed

text \<open>
  \<open>Init_IDE\<close> asks both drives of an ATA controller to identify themselves, records
  the geometry of each that answers, and registers a block device of its capacity for it, and
  for no other.  A drive that was found can be used if its number is less than the number of
  drives found: when only the second one answers, it is registered, but the driver refuses its
  requests.
\<close>

theorem Init_IDE_finds_drives:
  assumes "is_ata hw view" and "numDrives st = 0" and "length (drives st) = 2" and "mallocs w = []"
    and "\<forall>x ws. identity (view d) x = Some ws \<longrightarrow> length ws = 256 \<and> geometry_ok (drive_config ws)"
  shows "\<exists>st' d' w'. Init_IDE hw transfer st d w = Some (st', d', w')
    \<and> s_deviceList w' = s_deviceList w @ found_device transfer 0 (identity (view d) False) @ found_device transfer 1 (identity (view d) True)
    \<and> (\<forall>u info. u \<in> {0, 1} \<and> identity (view d) (u = 1) = Some info \<longrightarrow>
        drives st' ! nat u = drive_config info \<and> (drive_ok st' u (drive_config info) \<longleftrightarrow> u = 0 \<or> identity (view d) False \<noteq> None))
    \<and> ata_sector (view d') = ata_sector (view d) \<and> unreadable (view d') = unreadable (view d)"
proof -
  let ?d1 = "Out_Byte hw IDE_DEVICE_CONTROL_REGISTER IDE_DCR_NOINTERRUPT
    (Out_Byte hw IDE_DEVICE_CONTROL_REGISTER (IDE_DCR_NOINTERRUPT OR IDE_DCR_RESET) d)"
  have v1: "same_media (view d) (view ?d1)" "ata_sector (view ?d1) = ata_sector (view d)"
    by (simp_all add: is_ata_ops [OF assms(1)] ata_out_byte_def same_media_def IDE_DEVICE_CONTROL_REGISTER_def)
  obtain d2 where d2: "wait_busy hw ?d1 = Some d2" "view d2 = (view ?d1)\<lparr>busy := 0\<rparr>" using wait_busy_ata [OF assms(1)] by blast
  let ?d3 = "Out_Byte hw IDE_COMMAND_REGISTER IDE_COMMAND_DIAGNOSTIC d2"
  obtain d4 where d4: "wait_busy hw ?d3 = Some d4" "view d4 = (view ?d3)\<lparr>busy := 0\<rparr>" using wait_busy_ata [OF assms(1)] by blast
  let ?d5 = "snd (In_Byte hw IDE_ERROR_REGISTER d4)"
  have v5: "same_media (view d) (view ?d5)" "ata_sector (view ?d5) = ata_sector (view d)"
    using v1 by (simp_all add: is_ata_ops [OF assms(1)] d4(2) d2(2) ata_out_byte_def ata_in_byte_def same_media_def ata_command_def
        IDE_COMMAND_REGISTER_def IDE_ERROR_REGISTER_def)
  let ?i = "identity (view d)"
  have id5: "identity (view ?d5) = ?i" using v5(1) by (simp add: same_media_def)
  have pre0: "\<forall>ws. identity (view ?d5) ((0 :: nat) = 1) = Some ws \<longrightarrow> length ws = 256 \<and> geometry_ok (drive_config ws)"
    using assms(5) by (simp add: id5)
  obtain d6 where d6: "readDriveConfig hw (transfer 0) 0 st ?d5 w = Some (if ?i False = None then -1 else 0, found_drive 0 (?i False) st, d6,
      w\<lparr>s_deviceList := s_deviceList w @ found_device transfer 0 (?i False)\<rparr>)"
    "same_media (view ?d5) (view d6)" "ata_sector (view d6) = ata_sector (view ?d5)"
    using readDriveConfig_run [OF assms(1) _ assms(3,4) pre0, of transfer] by (auto simp: id5)
  have id6: "identity (view d6) = ?i" using d6(2) id5 by (simp add: same_media_def)
  let ?st1 = "if ?i False = None then found_drive 0 (?i False) st else (found_drive 0 (?i False) st)\<lparr>numDrives := 1\<rparr>"
  let ?w1 = "w\<lparr>s_deviceList := s_deviceList w @ found_device transfer 0 (?i False)\<rparr>"
  have l1: "length (drives ?st1) = 2" "mallocs ?w1 = []" using assms(3,4) by (simp_all add: found_drive_def split: option.split)
  have pre1: "\<forall>ws. identity (view d6) ((1 :: nat) = 1) = Some ws \<longrightarrow> length ws = 256 \<and> geometry_ok (drive_config ws)"
    using assms(5) by (simp add: id6)
  obtain d7 where d7: "readDriveConfig hw (transfer 1) 1 ?st1 d6 ?w1 = Some (if ?i True = None then -1 else 0, found_drive 1 (?i True) ?st1, d7,
      ?w1\<lparr>s_deviceList := s_deviceList ?w1 @ found_device transfer 1 (?i True)\<rparr>)"
    "same_media (view d6) (view d7)" "ata_sector (view d7) = ata_sector (view d6)"
    using readDriveConfig_run [OF assms(1) _ l1 pre1, of transfer] by (auto simp: id6)
  let ?st2 = "found_drive 1 (?i True) ?st1"
  let ?st3 = "if ?i True = None then ?st2 else ?st2\<lparr>numDrives := numDrives ?st2 + 1\<rparr>"
  have st1: "(if (if ?i False = None then -1 else 0 :: int) = 0 then (found_drive 0 (?i False) st)\<lparr>numDrives := numDrives (found_drive 0 (?i False) st) + 1\<rparr>
      else found_drive 0 (?i False) st) = ?st1"
    using assms(2) by (simp add: found_drive_def split: option.split)
  let ?w2 = "?w1\<lparr>s_deviceList := s_deviceList ?w1 @ found_device transfer 1 (?i True)\<rparr>"
  have "Init_IDE hw transfer st d w = Some (?st3, d7, ?w2)"
    unfolding Init_IDE_def Let_def d2(1) d4(1) bind.bind_lunit case_prod_unfold d6(1) prod.sel st1 d7(1) by simp
  moreover have "s_deviceList ?w2 = s_deviceList w @ found_device transfer 0 (?i False) @ found_device transfer 1 (?i True)" by simp
  moreover have "\<forall>u info. u \<in> {0, 1} \<and> ?i (u = 1) = Some info \<longrightarrow>
      drives ?st3 ! nat u = drive_config info \<and> (drive_ok ?st3 u (drive_config info) \<longleftrightarrow> u = 0 \<or> ?i False \<noteq> None)"
    using assms(2,3,5) by (auto simp: found_drive_def drive_ok_def split: option.split)
  moreover have "ata_sector (view d7) = ata_sector (view d)" "unreadable (view d7) = unreadable (view d)"
    using d7 d6 v5 by (simp_all add: same_media_def)
  ultimately show ?thesis
    by (intro exI [of _ ?st3] exI [of _ d7] exI [of _ ?w2]) (intro conjI)
qed

lemma Init_IDE_finds_drives_witness:
  "\<exists>st' d' w'. Init_IDE ata_ports (\<lambda>_ _ _ b. (0, b)) (toy_ide\<lparr>numDrives := 0\<rparr>) toy_ata \<lparr>mallocs = [], garbage = (\<lambda>_. 7), s_deviceList = []\<rparr> = Some (st', d', w')
     \<and> length (s_deviceList w') = 1 \<and> drive_ok st' 0 \<lparr>num_Cylinders = 2, num_Heads = 3, num_SectorsPerTrack = 5, num_BytesPerSector = 512\<rparr>"
proof -
  let ?dr = "\<lparr>num_Cylinders = 2, num_Heads = 3, num_SectorsPerTrack = 5, num_BytesPerSector = 512\<rparr>"
  let ?w = "\<lparr>mallocs = [], garbage = (\<lambda>_. 7 :: u8), s_deviceList = []\<rparr>"
  have c: "drive_config ([0, 2, 0, 3, 0, 512, 5] @ replicate 249 0) = ?dr" by (simp add: drive_config_def)
  have "geometry_ok ?dr" by (simp add: geometry_ok_def)
  then have "\<forall>x ws. identity toy_ata x = Some ws \<longrightarrow> length ws = 256 \<and> geometry_ok (drive_config ws)"
    using c by (auto simp: toy_ata_def)
  moreover have "numDrives (toy_ide\<lparr>numDrives := 0\<rparr>) = 0" "length (drives (toy_ide\<lparr>numDrives := 0\<rparr>)) = 2" "mallocs ?w = []"
    by (simp_all add: toy_ide_def)
  moreover have "identity toy_ata False = Some ([0, 2, 0, 3, 0, 512, 5] @ replicate 249 0)" "identity toy_ata True = None"
    by (simp_all add: toy_ata_def)
  ultimately show ?thesis
    using Init_IDE_finds_drives [OF ata_ports_ok, of "toy_ide\<lparr>numDrives := 0\<rparr>" ?w toy_ata "\<lambda>_ _ _ b. (0, b)"] c
    by (fastforce simp: found_device_def)
qed
end
