(* ===== verification/Storage.thy ===== *)
theory Storage
  imports BuildFat Ide
begin

text \<open>
  The layers of storage together: an ATA drive behind the driver of \<open>ide.c\<close> is a disk for the file
  system of \<open>pfat.c\<close>, so that what \<open>buildFat\<close> put into an image is what a program reads from the
  drive.  \<open>drv_transfer\<close> of a device is a function without a state: it is the request thread on
  the state \<open>d\<close> of the controller, which is enough here, because a read changes no block.
\<close>

definition ide_transfer :: "'d ports \<Rightarrow> ide \<Rightarrow> 'd \<Rightarrow> int \<Rightarrow> request_type \<Rightarrow> int \<Rightarrow> u8 list \<Rightarrow> int \<times> u8 list" where
  "ide_transfer hw st d u ty b buf = (case IDE_Request_Thread hw ty u b buf st d of
       Some (_, rc, buf', _, _) \<Rightarrow> (rc, buf') | None \<Rightarrow> (IDE_ERROR_DRIVE_ERROR, buf))"

text \<open>The disk that drive \<open>u\<close> is: the blocks it has and can read.\<close>

definition ide_disk :: "ata \<Rightarrow> ideDisk \<Rightarrow> int \<Rightarrow> int \<Rightarrow> u8 list" where
  "ide_disk a dr u b = (if 0 \<le> b \<and> b < int (capacity dr) \<and> (u = 1, chs dr (nat b)) \<notin> unreadable a
     then ide_block a dr (u = 1) (nat b) else [])"

definition ide_device :: "'d ports \<Rightarrow> ide \<Rightarrow> 'd \<Rightarrow> int \<Rightarrow> nat \<Rightarrow> io_world \<Rightarrow> bool" where
  "ide_device hw st d u i w \<longleftrightarrow> i < length (s_deviceList w) \<and> drv_transfer (s_deviceList w ! i) = ide_transfer hw st d u"

lemma ide_disk_ok:
  assumes "is_ata hw view" "drive_ok st u dr" "\<forall>s x. length (ata_sector (view d) s x) = 256" "ide_device hw st d u i w"
  shows "disk_ok (ide_disk (view d) dr u) i w"
proof -
  have "length (ide_disk (view d) dr u b) = 512 \<and> (\<forall>buf. length buf = 512 \<longrightarrow>
      drv_transfer (s_deviceList w ! i) BLOCK_READ b buf = (0, ide_disk (view d) dr u b))" if ne: "ide_disk (view d) dr u b \<noteq> []" for b
  proof -
    from ne have b: "nat b < capacity dr" "(u = 1, chs dr (nat b)) \<notin> unreadable (view d)" "int (nat b) = b"
      and e: "ide_disk (view d) dr u b = ide_block (view d) dr (u = 1) (nat b)"
      by (auto simp: ide_disk_def split: if_splits)
    have len: "length (ata_sector (view d) (u = 1) (chs dr (nat b))) = 256" using assms(3) by blast
    have "drv_transfer (s_deviceList w ! i) BLOCK_READ b buf = (0, ide_disk (view d) dr u b)" for buf
    proof -
      obtain d' where "IDE_Read hw u b buf st d = Some (IDE_ERROR_NO_ERROR, ide_block (view d) dr (u = 1) (nat b), st, d')"
        using IDE_Read_run [OF assms(1,2) b(1) len, of buf] b(2,3) by auto
      then show ?thesis using assms(4) e
        by (simp add: ide_device_def ide_transfer_def IDE_Request_Thread_def IDE_ERROR_NO_ERROR_def)
    qed
    with e len show ?thesis by (simp add: ide_block_def length_bytes_of)
  qed
  with assms(4) show ?thesis by (auto simp: disk_ok_def ide_device_def)
qed

text \<open>An image has been copied to the first blocks of a drive.\<close>

definition drive_holds :: "ata \<Rightarrow> ideDisk \<Rightarrow> int \<Rightarrow> u8 list \<Rightarrow> bool" where
  "drive_holds a dr u img \<longleftrightarrow> length img \<le> 512 * capacity dr
     \<and> (\<forall>b. 512 * b + 512 \<le> length img \<longrightarrow> (u = 1, chs dr b) \<notin> unreadable a \<and> ide_block a dr (u = 1) b = slice (512 * b) 512 img)"

lemma drive_holds_image: "drive_holds a dr u img \<Longrightarrow> holds_image (ide_disk a dr u) img"
  by (auto simp: drive_holds_def holds_image_def ide_disk_def)


text \<open>The drive of theory \<open>Ide\<close> with an image on it, in a kernel that has found it.\<close>

definition toy_lba :: "nat \<Rightarrow> nat \<Rightarrow> nat \<Rightarrow> nat" where
  "toy_lba c h n = (c * 3 + h) * 5 + (n - 1)"

definition image_ata :: "u8 list \<Rightarrow> ata" where
  "image_ata img = toy_ata\<lparr>ata_sector := (\<lambda>_ (c, h, n). words_of (image_block img (int (toy_lba c h n))))\<rparr>"

definition ide_kernel :: "u8 list \<Rightarrow> (pfat_ops, pfat_instance) vfs" where
  "ide_kernel img = (image_kernel img)\<lparr>io := (io (image_kernel img))\<lparr>s_deviceList := [\<lparr>bd_name = [105], bd_unit = 0,
     bd_inUse = False, drv_Open = 0, drv_Close = 0, drv_Get_Num_Blocks = 30,
     drv_transfer = ide_transfer ata_ports toy_ide (image_ata img) 0\<rparr>]\<rparr>\<rparr>"

lemma length_image_block: "length (image_block img b) = 512"
  by (simp add: image_block_def Let_def)

lemma image_ata_holds:
  assumes "length img = 3584"
  shows "drive_holds (image_ata img) (drives toy_ide ! 0) 0 img"
proof -
  have "ide_block (image_ata img) (drives toy_ide ! 0) False b = slice (512 * b) 512 img" if b: "512 * b + 512 \<le> length img" for b
  proof -
    have "b div 15 = b div 5 div 3" using div_mult2_eq [of b 5 3] by simp
    then have "toy_lba (b div 15) (b div 5 mod 3) (Suc (b mod 5)) = b" by (simp add: toy_lba_def)
    moreover have "image_block img (int b) = slice (512 * b) 512 img" "length (slice (512 * b) 512 img) = 512"
      using b by (simp_all add: image_block_def length_slice)
    ultimately show ?thesis
      by (simp add: ide_block_def image_ata_def chs_def toy_ide_def bytes_of_words_of)
  qed
  with assms show ?thesis by (simp add: drive_holds_def capacity_def toy_ide_def image_ata_def toy_ata_def)
qed

end
