(* ===== verification/Keyboard.thy ===== *)
theory Keyboard
  imports Interrupt Sched
begin

text \<open>
  The keyboard driver, \<open>src/geekos/keyboard.c\<close>: the ring buffer of key codes, the shift state
  and the interrupt handler.  The bytes that the handler reads from the ports of the keyboard
  controller are arguments.  The wait queue of the driver is \<open>DevQ KEYBOARD_DEV\<close>;
  \<open>Wait_For_Key\<close> is split at the context switch like the functions of theory \<open>Kthread\<close>.
\<close>

section \<open>Key codes\<close>

definition KB_IRQ :: int where "KB_IRQ = 1"
definition KB_OUTPUT_FULL :: u8 where "KB_OUTPUT_FULL = 0x01"
definition KB_KEY_RELEASE :: u8 where "KB_KEY_RELEASE = 0x80"

definition KEY_SPECIAL_FLAG :: u16 where "KEY_SPECIAL_FLAG = 0x0100"
definition KEY_KEYPAD_FLAG :: u16 where "KEY_KEYPAD_FLAG = 0x0200"
definition KEY_SHIFT_FLAG :: u16 where "KEY_SHIFT_FLAG = 0x1000"
definition KEY_ALT_FLAG :: u16 where "KEY_ALT_FLAG = 0x2000"
definition KEY_CTRL_FLAG :: u16 where "KEY_CTRL_FLAG = 0x4000"
definition KEY_RELEASE_FLAG :: u16 where "KEY_RELEASE_FLAG = 0x8000"

definition SPECIAL :: "u16 \<Rightarrow> u16" where "SPECIAL num = KEY_SPECIAL_FLAG OR num"
definition KEYPAD_START :: u16 where "KEYPAD_START = 128"
definition KEYPAD :: "u16 \<Rightarrow> u16" where
  "KEYPAD num = KEY_KEYPAD_FLAG OR KEY_SPECIAL_FLAG OR (num + KEYPAD_START)"

definition KEY_UNKNOWN :: u16 where "KEY_UNKNOWN = SPECIAL 0"
definition KEY_LCTRL :: u16 where "KEY_LCTRL = SPECIAL 13"
definition KEY_RCTRL :: u16 where "KEY_RCTRL = SPECIAL 14"
definition KEY_LSHIFT :: u16 where "KEY_LSHIFT = SPECIAL 15"
definition KEY_RSHIFT :: u16 where "KEY_RSHIFT = SPECIAL 16"
definition KEY_LALT :: u16 where "KEY_LALT = SPECIAL 17"
definition KEY_RALT :: u16 where "KEY_RALT = SPECIAL 18"

text \<open>Characters that are not written in strings here: \<open>'\<close>, \<open>"\<close>, \<open>`\<close> and the backslash are numbers.\<close>

definition chars :: "string \<Rightarrow> u16 list" where
  "chars = map of_char"

definition control_keys :: "u16 list" where
  "control_keys = map SPECIAL [1, 2, 3, 4, 5, 6, 7, 8, 9, 10] @ [SPECIAL 21, SPECIAL 22]
     @ map KEYPAD [0, 1, 2, 3, 4, 5, 6, 7, 8, 9, 10, 11, 12]
     @ [SPECIAL 23, KEY_UNKNOWN, KEY_UNKNOWN, KEY_UNKNOWN]"

definition s_scanTableNoShift :: "u16 list" where
  "s_scanTableNoShift = [KEY_UNKNOWN, 0x1B] @ chars ''1234567890-='' @ [0x08, 9]
     @ chars ''qwertyuiop[]'' @ [13, KEY_LCTRL] @ chars ''asdfghjkl;'' @ [39, 96, KEY_LSHIFT, 92]
     @ chars ''zxcvbnm,./'' @ [KEY_RSHIFT, SPECIAL 19, KEY_LALT, 32, SPECIAL 20] @ control_keys"

definition s_scanTableWithShift :: "u16 list" where
  "s_scanTableWithShift = [KEY_UNKNOWN, 0x1B] @ chars ''!@#$%^&*()_+'' @ [0x08, 9]
     @ chars ''QWERTYUIOP{}'' @ [13, KEY_LCTRL] @ chars ''ASDFGHJKL:'' @ [34, 126, KEY_LSHIFT, 124]
     @ chars ''ZXCVBNM<>/'' @ [KEY_RSHIFT, SPECIAL 19, KEY_LALT, 32, SPECIAL 20] @ control_keys"

definition SCAN_TABLE_SIZE :: nat where "SCAN_TABLE_SIZE = length s_scanTableNoShift"

definition LEFT_SHIFT :: u32 where "LEFT_SHIFT = 0x01"
definition RIGHT_SHIFT :: u32 where "RIGHT_SHIFT = 0x02"
definition LEFT_CTRL :: u32 where "LEFT_CTRL = 0x04"
definition RIGHT_CTRL :: u32 where "RIGHT_CTRL = 0x08"
definition LEFT_ALT :: u32 where "LEFT_ALT = 0x10"
definition RIGHT_ALT :: u32 where "RIGHT_ALT = 0x20"
definition SHIFT_MASK :: u32 where "SHIFT_MASK = LEFT_SHIFT OR RIGHT_SHIFT"
definition CTRL_MASK :: u32 where "CTRL_MASK = LEFT_CTRL OR RIGHT_CTRL"
definition ALT_MASK :: u32 where "ALT_MASK = LEFT_ALT OR RIGHT_ALT"

section \<open>The ring buffer\<close>

definition QUEUE_SIZE :: nat where "QUEUE_SIZE = 256"
definition QUEUE_MASK :: nat where "QUEUE_MASK = 0xff"

definition NEXT :: "nat \<Rightarrow> nat" where
  "NEXT index = (index + 1) AND QUEUE_MASK"

record keyboard =
  s_shiftState :: u32
  s_queue :: "u16 list"
  s_queueHead :: nat
  s_queueTail :: nat

definition Is_Queue_Empty :: "keyboard \<Rightarrow> bool" where
  "Is_Queue_Empty kb \<longleftrightarrow> s_queueHead kb = s_queueTail kb"

definition Is_Queue_Full :: "keyboard \<Rightarrow> bool" where
  "Is_Queue_Full kb \<longleftrightarrow> NEXT (s_queueTail kb) = s_queueHead kb"

definition Enqueue_Keycode :: "u16 \<Rightarrow> keyboard \<Rightarrow> keyboard option" where
  "Enqueue_Keycode keycode kb =
     (if \<not> Is_Queue_Full kb then
        (if s_queueTail kb < length (s_queue kb)
         then Some (kb\<lparr>s_queue := (s_queue kb)[s_queueTail kb := keycode], s_queueTail := NEXT (s_queueTail kb)\<rparr>)
         else None)
      else Some kb)"

definition Dequeue_Keycode :: "keyboard \<Rightarrow> (u16 \<times> keyboard) option" where
  "Dequeue_Keycode kb = do {
     kassert (\<not> Is_Queue_Empty kb);
     (if s_queueHead kb < length (s_queue kb)
      then Some (s_queue kb ! s_queueHead kb, kb\<lparr>s_queueHead := NEXT (s_queueHead kb)\<rparr>)
      else None)
   }"

section \<open>The interrupt handler\<close>

definition KEYBOARD_DEV :: nat where "KEYBOARD_DEV = 0"

definition modifier_flag :: "u16 \<Rightarrow> u32 option" where
  "modifier_flag keycode =
     (if keycode = KEY_LSHIFT then Some LEFT_SHIFT
      else if keycode = KEY_RSHIFT then Some RIGHT_SHIFT
      else if keycode = KEY_LCTRL then Some LEFT_CTRL
      else if keycode = KEY_RCTRL then Some RIGHT_CTRL
      else if keycode = KEY_LALT then Some LEFT_ALT
      else if keycode = KEY_RALT then Some RIGHT_ALT
      else None)"

text \<open>What a scan code does to the shift state, and the key code that is to be queued.\<close>

definition process_scan_code :: "u8 \<Rightarrow> u32 \<Rightarrow> u32 \<times> u16 option" where
  "process_scan_code code state =
     (let release = code AND KB_KEY_RELEASE \<noteq> 0;
          scanCode = (if release then code AND NOT KB_KEY_RELEASE else code)
      in if unat scanCode \<ge> SCAN_TABLE_SIZE then (state, None)
         else
           let shift = state AND SHIFT_MASK \<noteq> 0;
               keycode = (if shift then s_scanTableWithShift else s_scanTableNoShift) ! unat scanCode
           in case modifier_flag keycode of
                Some flag \<Rightarrow> (if release then state AND NOT flag else state OR flag, None)
              | None \<Rightarrow>
                  let keycode = (if shift then keycode OR KEY_SHIFT_FLAG else keycode);
                      keycode = (if state AND CTRL_MASK \<noteq> 0 then keycode OR KEY_CTRL_FLAG else keycode);
                      keycode = (if state AND ALT_MASK \<noteq> 0 then keycode OR KEY_ALT_FLAG else keycode)
                  in (state, Some (if release then keycode OR KEY_RELEASE_FLAG else keycode)))"

text \<open>\<open>status\<close> and \<open>code\<close> are read from the ports \<open>KB_CMD\<close> and \<open>KB_DATA\<close>.\<close>

definition Keyboard_Interrupt_Handler ::
  "u8 \<Rightarrow> u8 \<Rightarrow> keyboard \<times> kstate \<Rightarrow> (keyboard \<times> kstate) option" where
  "Keyboard_Interrupt_Handler status code ks =
     (let (kb, s) = ks
      in if status AND KB_OUTPUT_FULL \<noteq> 0 then
           let (state, key) = process_scan_code code (s_shiftState kb);
               kb = kb\<lparr>s_shiftState := state\<rparr>
           in case key of
                None \<Rightarrow> Some (kb, s)
              | Some keycode \<Rightarrow> do {
                  kb \<leftarrow> Enqueue_Keycode keycode kb;
                  s \<leftarrow> Wake_Up (DevQ KEYBOARD_DEV) s;
                  Some (kb, s\<lparr>g_needReschedule := True\<rparr>)
                }
         else Some (kb, s))"

section \<open>Interface\<close>

definition Init_Keyboard ::
  "'h \<Rightarrow> keyboard \<Rightarrow> (nat \<Rightarrow> 'h) \<Rightarrow> pic_state \<Rightarrow> (keyboard \<times> (nat \<Rightarrow> 'h) \<times> pic_state) option" where
  "Init_Keyboard handler kb table pic = do {
     let kb = kb\<lparr>s_shiftState := 0, s_queueHead := 0, s_queueTail := 0\<rparr>;
     table \<leftarrow> Install_IRQ KB_IRQ handler table;
     let irqMask = Get_IRQ_Mask pic;
     Some (kb, table, Set_IRQ_Mask (irqMask AND NOT (push_bit 1 1)) pic)
   }"

definition Read_Key :: "keyboard \<times> kstate \<Rightarrow> (u16 option \<times> keyboard \<times> kstate) option" where
  "Read_Key ks = do {
     let (kb, s) = ks;
     (iflag, s) \<leftarrow> Begin_Int_Atomic s;
     (key, kb) \<leftarrow> (if \<not> Is_Queue_Empty kb
                   then do { (k, kb) \<leftarrow> Dequeue_Keycode kb; Some (Some k, kb) }
                   else Some (None, kb));
     s \<leftarrow> End_Int_Atomic iflag s;
     Some (key, kb, s)
   }"

text \<open>The loop of \<open>Wait_For_Key\<close>, entered at the beginning and after each wait.\<close>

definition Wait_For_Key_Loop :: "bool \<Rightarrow> keyboard \<Rightarrow> kstate \<Rightarrow> (u16 \<times> keyboard) run option" where
  "Wait_For_Key_Loop iflag kb s =
     (if \<not> Is_Queue_Empty kb then do {
        (key, kb) \<leftarrow> Dequeue_Keycode kb;
        s \<leftarrow> End_Int_Atomic iflag s;
        Some (Returned (key, kb) s)
      } else do {
        s \<leftarrow> Wait (DevQ KEYBOARD_DEV) s;
        Some (Switched s)
      })"

definition Wait_For_Key :: "keyboard \<Rightarrow> kstate \<Rightarrow> (u16 \<times> keyboard) run option" where
  "Wait_For_Key kb s = do {
     (iflag, s) \<leftarrow> Begin_Int_Atomic s;
     Wait_For_Key_Loop iflag kb s
   }"

section \<open>The ring buffer is a queue\<close>

text \<open>The key codes in the buffer; one of the 256 slots always stays empty.\<close>

definition kb_repr :: "keyboard \<Rightarrow> u16 list \<Rightarrow> bool" where
  "kb_repr kb ks \<longleftrightarrow> length (s_queue kb) = QUEUE_SIZE \<and> s_queueHead kb < QUEUE_SIZE
     \<and> length ks < QUEUE_SIZE \<and> s_queueTail kb = (s_queueHead kb + length ks) mod QUEUE_SIZE
     \<and> (\<forall>i < length ks. s_queue kb ! ((s_queueHead kb + i) mod QUEUE_SIZE) = ks ! i)"

lemma NEXT_mod: "NEXT i = Suc i mod 256"
proof -
  have "NEXT i = take_bit 8 (Suc i)"
    unfolding take_bit_eq_mask by (simp add: NEXT_def QUEUE_MASK_def mask_eq_exp_minus_1)
  then show ?thesis by (simp add: take_bit_eq_mod)
qed

lemma ring_add_inj:
  fixes h a b :: nat
  assumes "h < 256" "a < 256" "b < 256" and "(h + a) mod 256 = (h + b) mod 256" shows "a = b"
proof -
  have "(h + a) mod 256 = (if h + a < 256 then h + a else h + a - 256)"
    and "(h + b) mod 256 = (if h + b < 256 then h + b else h + b - 256)"
    using assms(1-3) by (auto simp: mod_if)
  with assms show ?thesis by (auto split: if_splits)
qed

lemma kb_empty: "kb_repr kb ks \<Longrightarrow> Is_Queue_Empty kb \<longleftrightarrow> ks = []"
  using ring_add_inj [of "s_queueHead kb" "length ks" 0]
  by (auto simp: kb_repr_def Is_Queue_Empty_def QUEUE_SIZE_def)

lemma kb_full: "kb_repr kb ks \<Longrightarrow> Is_Queue_Full kb \<longleftrightarrow> length ks = 255"
proof -
  assume r: "kb_repr kb ks"
  let ?h = "s_queueHead kb" let ?n = "length ks"
  have n: "?h < 256" "?n < 256" "s_queueTail kb = (?h + ?n) mod 256" using r by (auto simp: kb_repr_def QUEUE_SIZE_def)
  have "NEXT (s_queueTail kb) = (?h + Suc ?n) mod 256" by (simp add: NEXT_mod n(3) mod_Suc_eq)
  then show ?thesis
    using n ring_add_inj [of ?h "Suc ?n" 0] by (cases "?n = 255") (auto simp: Is_Queue_Full_def)
qed

lemma Enqueue_Keycode_repr:
  assumes r: "kb_repr kb ks"
  shows "\<exists>kb'. Enqueue_Keycode k kb = Some kb' \<and> s_shiftState kb' = s_shiftState kb
    \<and> kb_repr kb' (if length ks < 255 then ks @ [k] else ks)"
proof (cases "length ks < 255")
  case True
  let ?h = "s_queueHead kb" let ?n = "length ks"
  have n: "?h < 256" "length (s_queue kb) = 256" "s_queueTail kb = (?h + ?n) mod 256"
    and nth: "\<And>i. i < ?n \<Longrightarrow> s_queue kb ! ((?h + i) mod 256) = ks ! i"
    using r by (auto simp: kb_repr_def QUEUE_SIZE_def)
  let ?kb = "kb\<lparr>s_queue := (s_queue kb)[s_queueTail kb := k], s_queueTail := NEXT (s_queueTail kb)\<rparr>"
  have "s_queue ?kb ! ((?h + i) mod 256) = (ks @ [k]) ! i" if "i < Suc ?n" for i
  proof (cases "i = ?n")
    case True
    then show ?thesis using n by simp
  next
    case False
    with that have i: "i < ?n" by simp
    then have "(?h + ?n) mod 256 \<noteq> (?h + i) mod 256"
      using ring_add_inj [of ?h ?n i] n(1) \<open>length ks < 255\<close> by auto
    with i nth [OF i] n show ?thesis by (simp add: nth_append)
  qed
  then have "kb_repr ?kb (ks @ [k])"
    using n True by (simp add: kb_repr_def QUEUE_SIZE_def NEXT_mod mod_Suc_eq)
  moreover have "Enqueue_Keycode k kb = Some ?kb"
    using kb_full [OF r] True n by (simp add: Enqueue_Keycode_def)
  ultimately show ?thesis using True by auto
next
  case False
  then have "length ks = 255" using r by (auto simp: kb_repr_def QUEUE_SIZE_def)
  with kb_full [OF r] r show ?thesis by (auto simp: Enqueue_Keycode_def)
qed

lemma Dequeue_Keycode_repr:
  assumes r: "kb_repr kb (k # ks)"
  shows "\<exists>kb'. Dequeue_Keycode kb = Some (k, kb') \<and> kb_repr kb' ks"
proof -
  let ?h = "s_queueHead kb" let ?kb = "kb\<lparr>s_queueHead := NEXT ?h\<rparr>"
  have n: "?h < 256" "length (s_queue kb) = 256" "Suc (length ks) < 256"
    "s_queueTail kb = (?h + Suc (length ks)) mod 256"
    and nth: "\<And>i. i < Suc (length ks) \<Longrightarrow> s_queue kb ! ((?h + i) mod 256) = (k # ks) ! i"
    using r by (auto simp: kb_repr_def QUEUE_SIZE_def)
  have "s_queue kb ! ((Suc ?h mod 256 + i) mod 256) = ks ! i" if "i < length ks" for i
    using nth [of "Suc i"] that by (simp add: mod_add_left_eq)
  moreover have "(Suc ?h mod 256 + length ks) mod 256 = (?h + Suc (length ks)) mod 256"
    by (simp add: mod_add_left_eq)
  ultimately have "kb_repr ?kb ks"
    using n by (simp add: kb_repr_def QUEUE_SIZE_def NEXT_mod)
  moreover have "Dequeue_Keycode kb = Some (k, ?kb)"
    using kb_empty [OF r] nth [of 0] n by (simp add: Dequeue_Keycode_def)
  ultimately show ?thesis by blast
qed

lemma Dequeue_Keycode_empty: "kb_repr kb [] \<Longrightarrow> Dequeue_Keycode kb = None"
  using kb_empty [of kb "[]"] by (simp add: Dequeue_Keycode_def)

interpretation key_queue: fifo kb_repr "\<lambda>k ks. length ks < 255" Enqueue_Keycode Dequeue_Keycode
proof
  fix kb ks and k :: u16
  assume "kb_repr kb ks" "length ks < 255"
  then show "\<exists>kb'. Enqueue_Keycode k kb = Some kb' \<and> kb_repr kb' (ks @ [k])"
    using Enqueue_Keycode_repr [of kb ks k] by auto
qed (use Dequeue_Keycode_repr Dequeue_Keycode_empty in blast)+

section \<open>Modifier keys\<close>

text \<open>The scan codes of the modifier keys of the tables, and the bit of each in the shift state.\<close>

definition modifiers :: "(nat \<times> u32) list" where
  "modifiers = [(0x1D, LEFT_CTRL), (0x2A, LEFT_SHIFT), (0x36, RIGHT_SHIFT), (0x38, LEFT_ALT)]"

text \<open>A key is down after a sequence of scan codes if it was last pressed, not released.\<close>

fun key_down :: "nat \<Rightarrow> u8 list \<Rightarrow> bool \<Rightarrow> bool" where
  "key_down c [] d = d"
| "key_down c (s # ss) d =
     key_down c ss (if unat (s AND 0x7F) = c then s AND KB_KEY_RELEASE = 0 else d)"

fun shift_states :: "u8 list \<Rightarrow> u32 \<Rightarrow> u32" where
  "shift_states [] st = st"
| "shift_states (s # ss) st = shift_states ss (fst (process_scan_code s st))"

lemma scan_tables: "s_scanTableNoShift = map (\<lambda>i. s_scanTableNoShift ! i) [0..<88]"
  "length s_scanTableNoShift = 88" "length s_scanTableWithShift = 88"
  by code_simp+

lemma modifier_flag_table:
  assumes "i < 88"
  shows "modifier_flag (s_scanTableNoShift ! i) = map_of modifiers i"
    and "modifier_flag (s_scanTableWithShift ! i) = map_of modifiers i"
proof -
  have "map (\<lambda>i. modifier_flag (s_scanTableNoShift ! i)) [0..<88] = map (map_of modifiers) [0..<88]"
    by code_simp
  then show "modifier_flag (s_scanTableNoShift ! i) = map_of modifiers i"
    using assms by (simp add: list_eq_iff_nth_eq)
  have "map (\<lambda>i. modifier_flag (s_scanTableWithShift ! i)) [0..<88] = map (map_of modifiers) [0..<88]"
    by code_simp
  then show "modifier_flag (s_scanTableWithShift ! i) = map_of modifiers i"
    using assms by (simp add: list_eq_iff_nth_eq)
qed

lemma scan_code_masked:
  "(if code AND KB_KEY_RELEASE \<noteq> 0 then code AND NOT KB_KEY_RELEASE else code) = code AND 0x7F"
proof -
  have m: "(0x7F :: u8) = NOT 0x80" by simp
  have "code AND NOT 0x80 = code" if "code AND 0x80 = 0"
  proof (rule bit_word_eqI)
    fix n assume n: "n < LENGTH(8)"
    have "\<not> bit (code AND 0x80) n" using that by simp
    moreover have "bit (0x80 :: u8) n \<longleftrightarrow> n = 7" if "n < 8" for n
      using bit_exp_iff [where 'a = u8, of 7 n] that by simp
    ultimately show "bit (code AND NOT 0x80) n = bit code n" using n by (auto simp: bit_simps)
  qed
  then show ?thesis unfolding m by (simp add: KB_KEY_RELEASE_def)
qed

text \<open>Flags are single bits.\<close>

lemma flag_bits: "LEFT_SHIFT = 2 ^ 0" "RIGHT_SHIFT = 2 ^ 1" "LEFT_CTRL = 2 ^ 2" "RIGHT_CTRL = 2 ^ 3"
  "LEFT_ALT = 2 ^ 4" "RIGHT_ALT = 2 ^ 5"
  by (simp_all add: LEFT_SHIFT_def RIGHT_SHIFT_def LEFT_CTRL_def RIGHT_CTRL_def LEFT_ALT_def RIGHT_ALT_def)

lemma flag_set: "(x :: u32) AND 2 ^ n \<noteq> 0 \<longleftrightarrow> n < 32 \<and> bit x n"
  by (auto simp: and_exp_eq_0_iff_not_bit dest: bit_imp_le_length)

lemma flag_or: "m < 32 \<Longrightarrow> bit ((x :: u32) OR 2 ^ m) n \<longleftrightarrow> bit x n \<or> n = m"
  by (auto simp: bit_or_iff bit_exp_iff)

lemma flag_clear: "m < 32 \<Longrightarrow> bit ((x :: u32) AND NOT (2 ^ m)) n \<longleftrightarrow> bit x n \<and> n \<noteq> m"
  by (auto simp: bit_and_iff bit_not_iff bit_exp_iff dest: bit_imp_le_length)

lemma process_scan_code_state:
  "fst (process_scan_code code st) =
     (case map_of modifiers (unat (code AND 0x7F)) of
        None \<Rightarrow> st
      | Some flag \<Rightarrow> if code AND KB_KEY_RELEASE \<noteq> 0 then st AND NOT flag else st OR flag)"
proof (cases "unat (code AND 0x7F) < 88")
  case True
  let ?key = "(if st AND SHIFT_MASK \<noteq> 0 then s_scanTableWithShift else s_scanTableNoShift) ! unat (code AND 0x7F)"
  have "modifier_flag ?key = map_of modifiers (unat (code AND 0x7F))"
    using modifier_flag_table [OF True] by simp
  with True show ?thesis
    unfolding process_scan_code_def Let_def scan_code_masked SCAN_TABLE_SIZE_def scan_tables(2)
    by (auto split: option.splits)
next
  case False
  then have "map_of modifiers (unat (code AND 0x7F)) = None" by (auto simp: modifiers_def)
  with False show ?thesis
    unfolding process_scan_code_def Let_def scan_code_masked SCAN_TABLE_SIZE_def scan_tables(2) by simp
qed

definition modifier_bits :: "(nat \<times> nat) list" where
  "modifier_bits = [(0x1D, 2), (0x2A, 0), (0x36, 1), (0x38, 4)]"

lemma modifiers_bits: "map_of modifiers i = map_option (\<lambda>n. 2 ^ n) (map_of modifier_bits i)"
  by (simp add: modifiers_def modifier_bits_def flag_bits)

lemma modifier_bits_inj:
  "map_of modifier_bits i = Some n \<Longrightarrow> n < 32 \<and> (map_of modifier_bits c = Some n \<longrightarrow> i = c)"
  by (auto simp: modifier_bits_def split: if_splits)

lemma modifier_step:
  assumes "map_of modifiers c = Some flag"
  shows "fst (process_scan_code code st) AND flag \<noteq> 0
    \<longleftrightarrow> (if unat (code AND 0x7F) = c then code AND KB_KEY_RELEASE = 0 else st AND flag \<noteq> 0)"
proof -
  obtain n where n: "map_of modifier_bits c = Some n" "flag = 2 ^ n"
    using assms by (auto simp: modifiers_bits)
  let ?i = "unat (code AND 0x7F)"
  show ?thesis
  proof (cases "map_of modifier_bits ?i")
    case None
    with n have "?i \<noteq> c" by auto
    with None show ?thesis by (simp add: process_scan_code_state modifiers_bits)
  next
    case (Some m)
    have m: "m < 32" "n < 32" "m = n \<longleftrightarrow> ?i = c"
      using modifier_bits_inj [OF Some, of c] modifier_bits_inj [OF n(1), of ?i] n(1) Some by auto
    have "fst (process_scan_code code st) = (if code AND KB_KEY_RELEASE \<noteq> 0 then st AND NOT (2 ^ m) else st OR 2 ^ m)"
      using Some by (simp add: process_scan_code_state modifiers_bits)
    with m show ?thesis
      unfolding n(2) flag_set by (cases "?i = c") (auto simp: flag_or flag_clear)
  qed
qed

lemma shift_states_track:
  assumes "map_of modifiers c = Some flag"
  shows "shift_states ss st AND flag \<noteq> 0 \<longleftrightarrow> key_down c ss (st AND flag \<noteq> 0)"
proof (induction ss arbitrary: st)
  case (Cons s ss)
  show ?case using Cons.IH modifier_step [OF assms, of s st] by simp
qed simp

section \<open>Key codes of events\<close>

lemma table_entries: "\<forall>k \<in> set s_scanTableNoShift \<union> set s_scanTableWithShift. unat k < 0x400"
  by code_simp

lemma entry_bits:
  assumes "unat (k :: u16) < 0x400" and "bit k i" shows "i < 10"
proof -
  have "take_bit 10 k = k"
    using assms(1) by (simp add: word_unat_eq_iff unsigned_take_bit_eq take_bit_nat_eq_self)
  with assms(2) show ?thesis by (metis bit_take_bit_iff)
qed

lemma key_flag_or:
  "bit (x OR KEY_SHIFT_FLAG) j \<longleftrightarrow> bit x j \<or> j = 12" "bit (x OR KEY_ALT_FLAG) j \<longleftrightarrow> bit x j \<or> j = 13"
  "bit (x OR KEY_CTRL_FLAG) j \<longleftrightarrow> bit x j \<or> j = 14" "bit (x OR KEY_RELEASE_FLAG) j \<longleftrightarrow> bit x j \<or> j = 15"
proof -
  have g: "bit ((x :: u16) OR 2 ^ m) j \<longleftrightarrow> bit x j \<or> j = m" if "m < 16" for m
    using that by (auto simp: bit_or_iff bit_exp_iff)
  have fl: "KEY_SHIFT_FLAG = 2 ^ 12" "KEY_ALT_FLAG = 2 ^ 13" "KEY_CTRL_FLAG = 2 ^ 14" "KEY_RELEASE_FLAG = 2 ^ 15"
    by (simp_all add: KEY_SHIFT_FLAG_def KEY_ALT_FLAG_def KEY_CTRL_FLAG_def KEY_RELEASE_FLAG_def)
  show "bit (x OR KEY_SHIFT_FLAG) j \<longleftrightarrow> bit x j \<or> j = 12" "bit (x OR KEY_ALT_FLAG) j \<longleftrightarrow> bit x j \<or> j = 13"
    "bit (x OR KEY_CTRL_FLAG) j \<longleftrightarrow> bit x j \<or> j = 14" "bit (x OR KEY_RELEASE_FLAG) j \<longleftrightarrow> bit x j \<or> j = 15"
    unfolding fl by (rule g, simp)+
qed

text \<open>The key code that is queued for a key that is not a modifier.\<close>

lemma process_scan_code_key:
  assumes i: "i = unat (code AND 0x7F)" and sz: "i < 88" and nm: "map_of modifiers i = None"
    and sh: "shift = (st AND SHIFT_MASK \<noteq> 0)"
  shows "\<exists>k. snd (process_scan_code code st) = Some k
    \<and> take_bit 10 k = (if shift then s_scanTableWithShift else s_scanTableNoShift) ! i
    \<and> (bit k 12 \<longleftrightarrow> shift) \<and> (bit k 13 \<longleftrightarrow> st AND ALT_MASK \<noteq> 0) \<and> (bit k 14 \<longleftrightarrow> st AND CTRL_MASK \<noteq> 0)
    \<and> (bit k 15 \<longleftrightarrow> code AND KB_KEY_RELEASE \<noteq> 0)"
proof -
  let ?e = "(if shift then s_scanTableWithShift else s_scanTableNoShift) ! i"
  have mf: "modifier_flag ?e = None" using modifier_flag_table [OF sz] nm by simp
  have "?e \<in> set s_scanTableNoShift \<union> set s_scanTableWithShift"
    using sz scan_tables by (metis UnI1 UnI2 nth_mem)
  then have e: "bit ?e j \<Longrightarrow> j < 10" for j using table_entries entry_bits by blast
  let ?k1 = "if shift then ?e OR KEY_SHIFT_FLAG else ?e"
  let ?k2 = "if st AND CTRL_MASK \<noteq> 0 then ?k1 OR KEY_CTRL_FLAG else ?k1"
  let ?k3 = "if st AND ALT_MASK \<noteq> 0 then ?k2 OR KEY_ALT_FLAG else ?k2"
  let ?k4 = "if code AND KB_KEY_RELEASE \<noteq> 0 then ?k3 OR KEY_RELEASE_FLAG else ?k3"
  have b: "bit ?k4 j \<longleftrightarrow> bit ?e j \<or> (j = 12 \<and> shift) \<or> (j = 14 \<and> st AND CTRL_MASK \<noteq> 0)
      \<or> (j = 13 \<and> st AND ALT_MASK \<noteq> 0) \<or> (j = 15 \<and> code AND KB_KEY_RELEASE \<noteq> 0)" for j
    by (auto simp: key_flag_or)
  have "snd (process_scan_code code st) = Some ?k4"
    using sz mf unfolding process_scan_code_def Let_def scan_code_masked SCAN_TABLE_SIZE_def scan_tables(2) i [symmetric] sh [symmetric]
    by simp
  moreover have "take_bit 10 ?k4 = ?e"
    by (rule bit_word_eqI) (use e in \<open>auto simp: bit_take_bit_iff b\<close>)
  moreover have "bit ?k4 12 \<longleftrightarrow> shift" "bit ?k4 13 \<longleftrightarrow> st AND ALT_MASK \<noteq> 0" "bit ?k4 14 \<longleftrightarrow> st AND CTRL_MASK \<noteq> 0"
    "bit ?k4 15 \<longleftrightarrow> code AND KB_KEY_RELEASE \<noteq> 0"
    using e [of 12] e [of 13] e [of 14] e [of 15] by (auto simp: b)
  ultimately show ?thesis by blast
qed

section \<open>Properties of the keyboard driver\<close>

text \<open>
  Property C38 (invariant).  The shift state follows the keys: after any sequence of scan
  codes, known or unknown, the bit of a modifier key is set exactly if the last event of that
  key was a press.
\<close>

theorem shift_state_follows_keys:
  assumes "map_of modifiers c = Some flag"
  shows "shift_states events 0 AND flag \<noteq> 0 \<longleftrightarrow> key_down c events False"
  using shift_states_track [OF assms, of events 0] by simp

lemma shift_state_follows_keys_witness:
  "shift_states [0x2A, 0x1E, 0x9E, 0x1D, 0xAA] 0 AND LEFT_SHIFT \<noteq> 0
     \<longleftrightarrow> key_down 0x2A [0x2A, 0x1E, 0x9E, 0x1D, 0xAA] False"
  by (rule shift_state_follows_keys) (simp add: modifiers_def)

text \<open>
  Property C27 (functional).  The handler, called for a key with \<open>ks\<close> in the buffer, queues one
  key code behind \<open>ks\<close> for a key that is not a modifier, or drops it when 255 codes are
  pending; it wakes all threads that wait for the keyboard and asks for a reschedule.  The low
  ten bits of the code are the entry of the table that the shift keys select, and its flags
  are the state of the modifier keys and whether the key was released.
\<close>

theorem Keyboard_Interrupt_Handler_queues:
  assumes "kb_repr kb ks" and "status AND KB_OUTPUT_FULL \<noteq> 0" and "unat (code AND 0x7F) < 88"
    and "map_of modifiers (unat (code AND 0x7F)) = None"
    and "\<not> ints s" and "distinct (queues s RunQ @ queues s (DevQ KEYBOARD_DEV))"
  shows "\<exists>kb' s' k. Keyboard_Interrupt_Handler status code (kb, s) = Some (kb', s')
    \<and> kb_repr kb' (if length ks < 255 then ks @ [k] else ks) \<and> s_shiftState kb' = s_shiftState kb
    \<and> queues s' (DevQ KEYBOARD_DEV) = []
    \<and> queues s' RunQ = queues s RunQ @ queues s (DevQ KEYBOARD_DEV) \<and> g_needReschedule s'
    \<and> take_bit 10 k = (if s_shiftState kb AND SHIFT_MASK \<noteq> 0 then s_scanTableWithShift else s_scanTableNoShift)
                       ! unat (code AND 0x7F)
    \<and> (bit k 12 \<longleftrightarrow> s_shiftState kb AND SHIFT_MASK \<noteq> 0) \<and> (bit k 13 \<longleftrightarrow> s_shiftState kb AND ALT_MASK \<noteq> 0)
    \<and> (bit k 14 \<longleftrightarrow> s_shiftState kb AND CTRL_MASK \<noteq> 0) \<and> (bit k 15 \<longleftrightarrow> code AND KB_KEY_RELEASE \<noteq> 0)"
proof -
  from process_scan_code_key [OF refl assms(3,4) refl, of "s_shiftState kb"]
  obtain k where k: "snd (process_scan_code code (s_shiftState kb)) = Some k"
    "take_bit 10 k = (if s_shiftState kb AND SHIFT_MASK \<noteq> 0 then s_scanTableWithShift else s_scanTableNoShift)
                       ! unat (code AND 0x7F)"
    "bit k 12 \<longleftrightarrow> s_shiftState kb AND SHIFT_MASK \<noteq> 0" "bit k 13 \<longleftrightarrow> s_shiftState kb AND ALT_MASK \<noteq> 0"
    "bit k 14 \<longleftrightarrow> s_shiftState kb AND CTRL_MASK \<noteq> 0" "bit k 15 \<longleftrightarrow> code AND KB_KEY_RELEASE \<noteq> 0" by blast
  have st: "fst (process_scan_code code (s_shiftState kb)) = s_shiftState kb"
    using assms(4) by (simp add: process_scan_code_state)
  then have p: "process_scan_code code (s_shiftState kb) = (s_shiftState kb, Some k)"
    using k(1) by (simp add: prod_eq_iff)
  obtain kb' where kb': "Enqueue_Keycode k kb = Some kb'" "s_shiftState kb' = s_shiftState kb"
    "kb_repr kb' (if length ks < 255 then ks @ [k] else ks)"
    using Enqueue_Keycode_repr [OF assms(1), of k] by blast
  let ?s = "s\<lparr>queues := (queues s)(RunQ := queues s RunQ @ queues s (DevQ KEYBOARD_DEV), DevQ KEYBOARD_DEV := []),
     g_needReschedule := True\<rparr>"
  have "Wake_Up (DevQ KEYBOARD_DEV) s
      = Some (s\<lparr>queues := (queues s)(RunQ := queues s RunQ @ queues s (DevQ KEYBOARD_DEV), DevQ KEYBOARD_DEV := [])\<rparr>)"
    using assms(5,6) by (simp add: Wake_Up_def wake_loop_run set_queue_def)
  then have "Keyboard_Interrupt_Handler status code (kb, s) = Some (kb', ?s)"
    using assms(2) p kb'(1) by (simp add: Keyboard_Interrupt_Handler_def)
  then show ?thesis using kb' k(2-6) by (intro exI conjI) (assumption | simp)+
qed


definition empty_keyboard :: keyboard where
  "empty_keyboard = \<lparr>s_shiftState = 0, s_queue = replicate 256 0, s_queueHead = 250, s_queueTail = 250\<rparr>"

lemma empty_keyboard_repr: "kb_repr empty_keyboard []"
  by (simp add: kb_repr_def empty_keyboard_def QUEUE_SIZE_def)


lemma Keyboard_Interrupt_Handler_queues_witness:
  "\<exists>kb' s' k. Keyboard_Interrupt_Handler 1 0x9E (empty_keyboard, three_runnable) = Some (kb', s')
     \<and> kb_repr kb' [k] \<and> take_bit 10 k = 97 \<and> bit k 15"
proof -
  have c: "unat ((0x9E :: u8) AND 0x7F) = 30" by simp
  have t: "s_scanTableNoShift ! 30 = 97" by code_simp
  from Keyboard_Interrupt_Handler_queues [OF empty_keyboard_repr, of 1 "0x9E" three_runnable] show ?thesis
    unfolding c by (simp add: KB_OUTPUT_FULL_def modifiers_def three_runnable_def empty_keyboard_def
        KB_KEY_RELEASE_def t) blast
qed

end
