(* ===== verification/Libuser.thy ===== *)
theory Libuser
  imports Console Keyboard "HOL-Library.Signed_Division"
begin

text \<open>
  The library of user programs: \<open>src/libc/conio.c\<close> and \<open>src/libc/process.c\<close>.  The system calls are
  operations on a state \<open>'s\<close> that the program does not see; \<open>None\<close> is a call that does not return.
  A C string is the list of its bytes without the NUL.
\<close>

section \<open>System calls\<close>

record 's sys =
  Print_String :: "u8 list \<Rightarrow> 's \<Rightarrow> (int \<times> 's) option"
  Get_Key :: "'s \<Rightarrow> (u16 \<times> 's) option"
  Get_Cursor :: "'s \<Rightarrow> ((int \<times> int) option \<times> 's) option"
  Spawn_Program :: "u8 list \<Rightarrow> u8 list \<Rightarrow> 's \<Rightarrow> (int \<times> 's) option"
  Wait :: "int \<Rightarrow> 's \<Rightarrow> (int \<times> 's) option"
  Get_PID :: "'s \<Rightarrow> (int \<times> 's) option"

section \<open>Console I/O\<close>

definition ASCII_BS :: u16 where "ASCII_BS = 0x08"

text \<open>The local array \<open>command\<close> of \<open>Put_Cursor\<close> is at address 1.\<close>

definition text_at :: "mem \<Rightarrow> nat \<Rightarrow> u8 list option" where
  "text_at m p = do { n \<leftarrow> strlen m p; Some (map m [p..<p + n]) }"

definition Put_Cursor :: "'s sys \<Rightarrow> int \<Rightarrow> int \<Rightarrow> 's \<Rightarrow> (int \<times> 's) option" where
  "Put_Cursor sys r c s = do {
     (_, m) \<leftarrow> snprintf 1 40 [0x1B, 91, 37, 100, 59, 37, 100, 102]
       [VInt (word_of_int (r + 1)), VInt (word_of_int (c + 1))] (\<lambda>_. 0);
     command \<leftarrow> text_at m 1;
     (_, s) \<leftarrow> Print_String sys command s;
     Some (0, s)
   }"

definition Put_Char :: "'s sys \<Rightarrow> int \<Rightarrow> 's \<Rightarrow> (int \<times> 's) option" where
  "Put_Char sys ch s = Print_String sys (takeWhile (\<lambda>c. c \<noteq> 0) [word_of_int ch]) s"

definition Print_Emit :: "'s sys \<Rightarrow> int \<Rightarrow> 's \<Rightarrow> 's option" where
  "Print_Emit sys ch s = do { (_, s) \<leftarrow> Put_Char sys ch s; Some s }"

definition Print_Finish :: "'s \<Rightarrow> 's option" where
  "Print_Finish s = Some s"

definition s_outputSink :: "'s sys \<Rightarrow> 's output_sink" where
  "s_outputSink sys = \<lparr>Emit = Print_Emit sys, Finish = Print_Finish\<rparr>"

definition Print :: "'s sys \<Rightarrow> u8 list \<Rightarrow> va_arg list \<Rightarrow> 's \<Rightarrow> 's option" where
  "Print sys fmt va s = do { (_, _, s) \<leftarrow> Format_Output (s_outputSink sys) fmt va s; Some s }"

text \<open>The column of the cursor after the characters of a line that starts in column \<open>newcol\<close>.\<close>

fun newcol_loop :: "u8 list \<Rightarrow> int \<Rightarrow> int" where
  "newcol_loop [] newcol = newcol"
| "newcol_loop (ch # chs) newcol =
     (if ch = 9 then let rem = newcol smod TABWIDTH
        in newcol_loop chs (newcol + (if rem = 0 then TABWIDTH else TABWIDTH - rem))
      else newcol_loop chs (newcol + 1))"

definition erase_last :: "'s sys \<Rightarrow> int \<Rightarrow> int \<Rightarrow> u8 list \<Rightarrow> nat \<Rightarrow> 's \<Rightarrow> 's option" where
  "erase_last sys startrow startcol buf n s = do {
     let newcol = newcol_loop (take n buf) startcol;
     let last = (if buf ! n \<noteq> 9 then 32 else buf ! n);
     (_, s) \<leftarrow> Put_Cursor sys startrow newcol s;
     (_, s) \<leftarrow> Put_Char sys (sint last) s;
     (_, s) \<leftarrow> Put_Cursor sys startrow newcol s;
     Some s
   }"

text \<open>\<open>ptr\<close> is always \<open>buf + n\<close>; a write outside of the buffer is \<open>None\<close>.\<close>

partial_function (option) read_loop ::
  "'s sys \<Rightarrow> bool \<Rightarrow> nat \<Rightarrow> int \<Rightarrow> int \<Rightarrow> nat \<Rightarrow> u8 list \<Rightarrow> 's \<Rightarrow> (nat \<times> u8 list \<times> 's) option" where
  "read_loop sys echo bufSize startrow startcol n buf s = do {
     (k, s) \<leftarrow> Get_Key sys s;
     (if k AND KEY_SPECIAL_FLAG \<noteq> 0 \<or> k AND KEY_RELEASE_FLAG \<noteq> 0
      then read_loop sys echo bufSize startrow startcol n buf s
      else do {
        let k = k AND 0xff;
        let k = (if k = 13 then 10 else k);
        (if k = ASCII_BS then
           (if n > 0 then do {
              s \<leftarrow> (if echo then erase_last sys startrow startcol buf (n - 1) s else Some s);
              read_loop sys echo bufSize startrow startcol (n - 1) buf s }
            else read_loop sys echo bufSize startrow startcol n buf s)
         else do {
           s \<leftarrow> (if echo then do { (_, s) \<leftarrow> Put_Char sys (uint k) s; Some s } else Some s);
           (n, buf) \<leftarrow> (if n < bufSize then do { _ \<leftarrow> kassert (n < length buf); Some (n + 1, buf[n := ucast k]) }
             else Some (n, buf));
           (if k = 10 then Some (n, buf, s) else read_loop sys echo bufSize startrow startcol n buf s) })
      })
   }"

definition Read_Line :: "'s sys \<Rightarrow> bool \<Rightarrow> u8 list \<Rightarrow> nat \<Rightarrow> 's \<Rightarrow> (u8 list \<times> 's) option" where
  "Read_Line sys s_echo buf bufSize s = do {
     (pos, s) \<leftarrow> Get_Cursor sys s;
     let (startrow, startcol) = (case pos of Some p \<Rightarrow> p | None \<Rightarrow> (0, 0));
     let bufSize = (if bufSize = 0 then 2 ^ 32 - 1 else bufSize - 1);
     (n, buf, s) \<leftarrow> read_loop sys s_echo bufSize startrow startcol 0 buf s;
     _ \<leftarrow> kassert (n < length buf);
     Some (buf[n := 0], s)
   }"

text \<open>The table of error strings is generated when the library is built.\<close>

definition unknown_error :: "u8 list" where
  "unknown_error = [85, 110, 107, 110, 111, 119, 110, 32, 101, 114, 114, 111, 114]"

definition Get_Error_String :: "u8 list list \<Rightarrow> int \<Rightarrow> u8 list" where
  "Get_Error_String strerrTable errno =
     (let errno = s32 (- errno)
      in if errno < 0 \<or> errno \<ge> int (length strerrTable) then unknown_error else strerrTable ! nat errno)"

section \<open>Processes\<close>

definition CMDLEN :: nat where "CMDLEN = 79"
definition exeName_size :: nat where "exeName_size = CMDLEN * 2 + 5"

definition Ends_With :: "u8 list \<Rightarrow> u8 list \<Rightarrow> bool" where
  "Ends_With name suffix =
     (let nameLen = length name; suffixLen = length suffix
      in if suffixLen > nameLen then False
         else let start = nameLen - suffixLen
              in list_all (\<lambda>i. name ! (start + i) = suffix ! i) [0..<suffixLen])"

definition dot_exe :: "u8 list" where "dot_exe = [46, 101, 120, 101]"

text \<open>\<open>strcat\<close> to a string in the array \<open>exeName\<close>.\<close>

definition cat_exeName :: "u8 list \<Rightarrow> u8 list \<Rightarrow> u8 list option" where
  "cat_exeName exeName str = do { _ \<leftarrow> kassert (length exeName + length str < exeName_size); Some (exeName @ str) }"

lemma length_after_dropWhile: "x \<in> set xs \<Longrightarrow> length (dropWhile P xs) - Suc n < length xs"
  using length_dropWhile_le [of P xs] length_pos_if_in_set [of x xs] by linarith

function path_loop :: "'s sys \<Rightarrow> u8 list \<Rightarrow> u8 list \<Rightarrow> u8 list \<Rightarrow> int \<Rightarrow> 's \<Rightarrow> (int \<times> 's) option" where
  "path_loop sys program command path rc s =
     (let path1 = dropWhile (\<lambda>c. c = 58) path
      in if path1 = [] then Some (rc, s)
         else do {
           let p = first_index (\<lambda>c. c = 58) path1;
           let dir = (case p of Some i \<Rightarrow> take i path1 | None \<Rightarrow> path1);
           let path2 = (case p of Some i \<Rightarrow> drop (i + 1) path1 | None \<Rightarrow> []);
           exeName \<leftarrow> cat_exeName [] dir;
           exeName \<leftarrow> cat_exeName exeName [47];
           exeName \<leftarrow> cat_exeName exeName program;
           exeName \<leftarrow> (if \<not> Ends_With exeName dot_exe then cat_exeName exeName dot_exe else Some exeName);
           (rc, s) \<leftarrow> Spawn_Program sys exeName command s;
           (if rc \<noteq> ENOTFOUND then Some (rc, s) else path_loop sys program command path2 rc s)
         })"
  by pat_completeness auto
termination
  by (relation "measure (\<lambda>(sys, program, command, path, rc, s). length path)")
    (auto intro!: length_after_dropWhile split: option.split)

declare path_loop.simps [simp del]

definition Spawn_With_Path :: "'s sys \<Rightarrow> u8 list \<Rightarrow> u8 list \<Rightarrow> u8 list \<Rightarrow> 's \<Rightarrow> (int \<times> 's) option" where
  "Spawn_With_Path sys program command path s = do {
     (rc, s) \<leftarrow> Spawn_Program sys program command s;
     (if rc = ENOTFOUND \<and> first_index (\<lambda>c. c = 47) program = None
      then path_loop sys program command path rc s
      else Some (rc, s))
   }"

section \<open>Searching the path\<close>

lemma Ends_With_iff: "Ends_With name suffix \<longleftrightarrow> (\<exists>p. name = p @ suffix)"
proof
  assume e: "Ends_With name suffix"
  then have le: "length suffix \<le> length name" by (auto simp: Ends_With_def Let_def split: if_splits)
  with e have "drop (length name - length suffix) name = suffix"
    by (intro nth_equalityI) (auto simp: Ends_With_def list_all_iff Let_def)
  then show "\<exists>p. name = p @ suffix" by (metis append_take_drop_id)
qed (auto simp: Ends_With_def list_all_iff)

fun split_on :: "'a \<Rightarrow> 'a list \<Rightarrow> 'a list list" where
  "split_on c [] = [[]]"
| "split_on c (x # xs) = (if x = c then [] # split_on c xs else (x # hd (split_on c xs)) # tl (split_on c xs))"

definition path_dirs :: "u8 list \<Rightarrow> u8 list list" where
  "path_dirs path = filter (\<lambda>d. d \<noteq> []) (split_on 58 path)"

definition exe_name :: "u8 list \<Rightarrow> u8 list \<Rightarrow> u8 list" where
  "exe_name dir program = (let e = dir @ [47] @ program in if Ends_With e dot_exe then e else e @ dot_exe)"

text \<open>The programs \<open>ns\<close>, tried in order until one of them is found.\<close>

fun spawn_first :: "'s sys \<Rightarrow> u8 list \<Rightarrow> u8 list list \<Rightarrow> int \<Rightarrow> 's \<Rightarrow> (int \<times> 's) option" where
  "spawn_first sys command [] rc s = Some (rc, s)"
| "spawn_first sys command (n # ns) rc s = do {
     (rc, s) \<leftarrow> Spawn_Program sys n command s;
     (if rc \<noteq> ENOTFOUND then Some (rc, s) else spawn_first sys command ns rc s)
   }"

lemma split_on_ne: "split_on c xs \<noteq> []"
  by (cases xs) auto

lemma split_on_append: "c \<notin> set d \<Longrightarrow> split_on c (d @ c # xs) = d # split_on c xs"
  by (induction d) auto

lemma split_on_none: "c \<notin> set d \<Longrightarrow> split_on c d = [d]"
  by (induction d) auto

lemma path_dirs_Nil [simp]: "path_dirs [] = []"
  by (simp add: path_dirs_def)

lemma path_dirs_colons: "path_dirs (dropWhile (\<lambda>c. c = 58) path) = path_dirs path"
  by (induction path) (auto simp: path_dirs_def)

lemma path_dirs_first:
  assumes "path \<noteq> []" "hd path \<noteq> 58"
  shows "path_dirs path = (case first_index (\<lambda>c. c = 58) path of
      Some i \<Rightarrow> take i path # path_dirs (drop (i + 1) path) | None \<Rightarrow> [path])"
proof (cases "first_index (\<lambda>c. c = 58) path")
  case None
  then have "58 \<notin> set path" by (auto simp: first_index_None)
  with None assms(1) show ?thesis by (simp add: path_dirs_def split_on_none)
next
  case (Some i)
  then have i: "i < length path" "path ! i = 58" "\<forall>j < i. path ! j \<noteq> 58" by (auto simp: first_index_Some)
  then have p: "path = take i path @ 58 # drop (i + 1) path" by (metis Suc_eq_plus1 id_take_nth_drop)
  have "58 \<notin> set (take i path)" using i by (auto simp: in_set_conv_nth)
  then have "split_on 58 path = take i path # split_on 58 (drop (i + 1) path)"
    by (subst p) (rule split_on_append)
  moreover have "take i path \<noteq> []" using assms i by (cases i) (auto simp: hd_conv_nth)
  ultimately show ?thesis using Some by (simp add: path_dirs_def)
qed

lemma path_loop_spawn_first:
  assumes "\<forall>d \<in> set (path_dirs path). length d + length program + 5 < exeName_size"
  shows "path_loop sys program command path ENOTFOUND s
    = spawn_first sys command (map (\<lambda>d. exe_name d program) (path_dirs path)) ENOTFOUND s"
  using assms
proof (induction "length path" arbitrary: path s rule: less_induct)
  case less
  let ?p = "dropWhile (\<lambda>c. c = 58) path"
  show ?case
  proof (cases "?p = []")
    case True
    then have "path_dirs path = []" by (metis path_dirs_colons path_dirs_Nil)
    with True show ?thesis by (subst path_loop.simps) simp
  next
    case False
    define dir where "dir = (case first_index (\<lambda>c. c = 58) ?p of Some i \<Rightarrow> take i ?p | None \<Rightarrow> ?p)"
    define rest where "rest = (case first_index (\<lambda>c. c = 58) ?p of Some i \<Rightarrow> drop (i + 1) ?p | None \<Rightarrow> [])"
    have "hd ?p \<noteq> 58" using False hd_dropWhile by blast
    from path_dirs_first [OF False this] have d: "path_dirs path = dir # path_dirs rest"
      by (simp add: path_dirs_colons dir_def rest_def split: option.split)
    have "length rest < length path" using False by (auto simp: rest_def intro: length_after_dropWhile split: option.split)
    from less.hyps [OF this] less.prems d have
      ih: "path_loop sys program command rest ENOTFOUND t
        = spawn_first sys command (map (\<lambda>d. exe_name d program) (path_dirs rest)) ENOTFOUND t" for t by simp
    have len: "length dir + length program + 5 < exeName_size" using less.prems d by simp
    have cat: "cat_exeName [] dir = Some dir" "cat_exeName dir [47] = Some (dir @ [47])"
      "cat_exeName (dir @ [47]) program = Some (dir @ 47 # program)"
      "(if \<not> Ends_With (dir @ 47 # program) dot_exe then cat_exeName (dir @ 47 # program) dot_exe
        else Some (dir @ 47 # program)) = Some (exe_name dir program)"
      using len by (auto simp: cat_exeName_def exe_name_def Let_def dot_exe_def)
    have "path_loop sys program command path ENOTFOUND s = do {
        (rc, s) \<leftarrow> Spawn_Program sys (exe_name dir program) command s;
        (if rc \<noteq> ENOTFOUND then Some (rc, s) else path_loop sys program command rest rc s) }"
      by (subst path_loop.simps) (simp only: Let_def False if_False cat bind.bind_lunit flip: dir_def rest_def)
    then show ?thesis unfolding d by (auto simp: ih split: Option.bind_split)
  qed
qed

lemma Spawn_With_Path_first:
  assumes "\<forall>d \<in> set (path_dirs path). length d + length program + 5 < exeName_size"
  shows "Spawn_With_Path sys program command path s = spawn_first sys command
    (program # (if 47 \<in> set program then [] else map (\<lambda>d. exe_name d program) (path_dirs path))) ENOTFOUND s"
proof -
  have "first_index (\<lambda>c. c = 47) program = None \<longleftrightarrow> 47 \<notin> set program" by (auto simp: first_index_None)
  then show ?thesis
    using path_loop_spawn_first [OF assms, of sys command]
    by (auto simp: Spawn_With_Path_def split: Option.bind_split)
qed


section \<open>The cursor\<close>

text \<open>The command that \<open>Put_Cursor\<close> sends.\<close>

definition cursor_text :: "int \<Rightarrow> int \<Rightarrow> u8 list" where
  "cursor_text r c = [0x1B, 91] @ signed_decimal (word_of_int (r + 1)) @ [59] @ signed_decimal (word_of_int (c + 1)) @ [102]"

lemma cursor_text_bytes: "length (cursor_text r c) \<le> 39" "0 \<notin> set (cursor_text r c)"
proof -
  show "length (cursor_text r c) \<le> 39"
    using signed_decimal_chars(1) [of "word_of_int (r + 1)"] signed_decimal_chars(1) [of "word_of_int (c + 1)"]
    by (simp add: cursor_text_def)
  show "0 \<notin> set (cursor_text r c)"
    using signed_decimal_chars(2) by (fastforce simp: cursor_text_def is_digit_def)
qed

lemma Put_Cursor_text: "Put_Cursor sys r c s = do { (_, s) \<leftarrow> Print_String sys (cursor_text r c) s; Some (0, s) }"
proof -
  let ?va = "[VInt (word_of_int (r + 1)), VInt (word_of_int (c + 1))]"
  have "Format_Output text_sink [0x1B, 91, 37, 100, 59, 37, 100, 102] ?va [] = Some (0, [], cursor_text r c)"
    by (simp add: Format_Output_def text_loop_simps cursor_text_def del: Fmtout.format_loop.simps)
  note f = this
  have len: "min (length (cursor_text r c)) (40 - 1) = length (cursor_text r c)" "take (40 - 1) (cursor_text r c) = cursor_text r c"
    using cursor_text_bytes(1) [of r c] by simp_all
  have "\<exists>m. snprintf 1 40 [0x1B, 91, 37, 100, 59, 37, 100, 102] ?va (\<lambda>_. 0) = Some (0, m)
      \<and> map m [1..<1 + length (cursor_text r c)] = cursor_text r c \<and> m (1 + length (cursor_text r c)) = 0"
    using snprintf_text [where sz = 40 and p = 1 and m = "\<lambda>_. 0" and args = ?va and fmt = "[0x1B, 91, 37, 100, 59, 37, 100, 102]",
        unfolded f option.case prod.case len, OF zero_less_numeral] by blast
  then obtain m where m: "snprintf 1 40 [0x1B, 91, 37, 100, 59, 37, 100, 102] ?va (\<lambda>_. 0) = Some (0, m)"
    "map m [1..<1 + length (cursor_text r c)] = cursor_text r c" "m (1 + length (cursor_text r c)) = 0" by blast
  note cursor_text_bytes(2) [of r c]
  moreover have "m (1 + i) = cursor_text r c ! i" if "i < length (cursor_text r c)" for i
    using arg_cong [OF m(2), of "\<lambda>xs. xs ! i"] that by (simp del: upt_Suc)
  ultimately have "cstr m 1 (cursor_text r c)" using m(3) by (intro cstrI)
  from strlen_cstr [OF this] have "text_at m 1 = Some (cursor_text r c)"
    by (simp only: text_at_def bind.bind_lunit m(2))
  with m(1) show ?thesis by (simp add: Put_Cursor_def)
qed
section \<open>Reading a line\<close>

text \<open>The character that a key code stands for, and its effect on a line of at most \<open>n\<close> characters.\<close>

definition typed :: "u16 \<Rightarrow> u8 option" where
  "typed k = (if k AND KEY_SPECIAL_FLAG \<noteq> 0 \<or> k AND KEY_RELEASE_FLAG \<noteq> 0 then None
     else Some (if ucast k = (13 :: u8) then 10 else ucast k))"

definition edit :: "nat \<Rightarrow> u16 \<Rightarrow> u8 list \<Rightarrow> u8 list" where
  "edit n k line = (case typed k of None \<Rightarrow> line
     | Some c \<Rightarrow> if c = 8 then butlast line else if length line < n then line @ [c] else line)"

lemma low_byte_word: "k AND 0xff = (ucast (ucast k :: u8) :: u16)"
proof -
  have "k AND mask 8 = (ucast (ucast k :: u8) :: u16)" by (rule bit_word_eqI) (auto simp: bit_simps)
  moreover have "(0xff :: u16) = mask 8" by (simp add: mask_eq_exp_minus_1)
  ultimately show ?thesis by (simp only:)
qed

lemma ucast_byte_id: "ucast (ucast (c :: u8) :: u16) = c"
  by (rule bit_word_eqI) (simp add: bit_simps)

lemma ucast_byte_eq: "(ucast (c :: u8) :: u16) = ucast d \<longleftrightarrow> c = d"
proof
  assume e: "(ucast c :: u16) = ucast d"
  show "c = d"
  proof (rule bit_word_eqI)
    fix n
    assume "n < LENGTH(8)"
    with arg_cong [OF e, of "\<lambda>w. bit w n"] show "bit c n = bit d n" by (simp add: bit_simps)
  qed
qed simp

text \<open>A cursor command leaves no sequence unfinished; if a number is negative, its end is shown as text.\<close>

lemma esc_number:
  "esc_text (signed_decimal v) Bracket \<in> {Some (Args 1), Some Plain}"
  "esc_text (signed_decimal v) (Args 2) \<in> {Some (Args 2), Some Plain}"
proof -
  obtain d ds where d: "\<forall>c \<in> set (d # ds). is_digit c" "signed_decimal v = d # ds \<or> signed_decimal v = 45 # d # ds"
    using signed_decimal_chars(4) by blast
  have "0x1B \<notin> set (d # ds)" using d(1) by (auto simp: is_digit_def)
  note p = esc_text_plain [OF this]
  have m: "esc_step 45 Bracket = Some Plain" "esc_step 45 (Args 2) = Some Plain"
    by (simp_all add: esc_step_def is_digit_def)
  have "esc_text (d # ds) Bracket = Some (Args 1)" "esc_text (d # ds) (Args 2) = Some (Args 2)"
    using esc_text_digits [of ds] d(1) by (simp_all add: esc_step_def)
  with d(2) m p show "esc_text (signed_decimal v) Bracket \<in> {Some (Args 1), Some Plain}"
    "esc_text (signed_decimal v) (Args 2) \<in> {Some (Args 2), Some Plain}" by auto
qed

lemma esc_cursor_text: "esc_text (cursor_text r c) Plain = Some Plain"
proof -
  have n: "\<forall>x \<in> set (signed_decimal v). x \<noteq> 0x1B" for v
    using signed_decimal_chars(2) [of v] by (auto simp: is_digit_def)
  have s: "esc_step 0x1B Plain = Some Esc" "esc_step 91 Esc = Some Bracket" "esc_step 59 (Args 1) = Some (Args 2)"
    "esc_step 59 Plain = Some Plain" "esc_step 102 Plain = Some Plain" "esc_step 102 (Args 2) = Some Plain"
    by (simp_all add: esc_step_def is_digit_def)
  have "esc_text (signed_decimal v @ [102]) Plain = Some Plain" for v using n by (intro esc_text_plain) auto
  moreover have "esc_text (signed_decimal v @ [102]) (Args 2) = Some Plain" for v
    using esc_number(2) [of v] s by auto
  ultimately show ?thesis
    using esc_number(1) [of "word_of_int (r + 1)"] s by (auto simp: cursor_text_def simp del: esc_text_append) (auto simp: s)
qed

text \<open>
  What a program relies on when it uses the console: text of at most 1024 characters that keeps to
  eight arguments can be printed, output and the position of the cursor do not touch the keys that wait, and
  \<open>Get_Key\<close> returns the first of these.
\<close>

locale console_calls =
  fixes sys :: "'s sys" and pending :: "'s \<Rightarrow> u16 list" and esc :: "'s \<Rightarrow> esc" and ok :: "'s \<Rightarrow> bool"
  assumes Print_String_ok: "ok s \<Longrightarrow> 0 \<notin> set t \<Longrightarrow> length t \<le> 1024 \<Longrightarrow> esc_text t (esc s) = Some e
      \<Longrightarrow> \<exists>r s'. Print_String sys t s = Some (r, s') \<and> ok s' \<and> pending s' = pending s \<and> esc s' = e"
    and Get_Cursor_ok: "ok s \<Longrightarrow> \<exists>p s'. Get_Cursor sys s = Some (p, s') \<and> ok s' \<and> pending s' = pending s \<and> esc s' = esc s"
    and Get_Key_ok: "ok s \<Longrightarrow> pending s = k # ks
      \<Longrightarrow> \<exists>s'. Get_Key sys s = Some (k, s') \<and> ok s' \<and> pending s' = ks \<and> esc s' = esc s"
begin

text \<open>The states between two calls of the library.\<close>

definition ready :: "u16 list \<Rightarrow> 's \<Rightarrow> bool" where
  "ready ks s \<longleftrightarrow> ok s \<and> esc s = Plain \<and> pending s = ks"

lemma Put_Char_esc:
  assumes "ok s" "esc_step (word_of_int ch) (esc s) = Some e" "word_of_int ch \<noteq> (0 :: u8)"
  shows "\<exists>r s'. Put_Char sys ch s = Some (r, s') \<and> ok s' \<and> pending s' = pending s \<and> esc s' = e"
proof -
  have "esc_text [word_of_int ch] (esc s) = Some e" using assms(2) by simp
  from Print_String_ok [OF assms(1) _ _ this] assms(3) show ?thesis by (simp add: Put_Char_def)
qed

lemma Put_Char_ok:
  assumes "ready ks s" "word_of_int ch \<noteq> (0x1B :: u8)"
  shows "\<exists>r s'. Put_Char sys ch s = Some (r, s') \<and> ready ks s'"
proof -
  let ?t = "takeWhile (\<lambda>c. c \<noteq> 0) [word_of_int ch :: u8]"
  have "esc_text ?t (esc s) = Some Plain" "0 \<notin> set ?t" "length ?t \<le> 1024" "ok s"
    using assms by (simp_all add: ready_def esc_step_def)
  from Print_String_ok [OF this(4,2,3,1)] assms(1) show ?thesis unfolding Put_Char_def ready_def by blast
qed

lemma Put_Cursor_ok:
  assumes "ready ks s"
  shows "\<exists>s'. Put_Cursor sys r c s = Some (0, s') \<and> ready ks s'"
proof -
  have "length (cursor_text r c) \<le> 1024" using cursor_text_bytes(1) [of r c] by simp
  moreover have "esc_text (cursor_text r c) (esc s) = Some Plain" using assms by (simp add: ready_def esc_cursor_text)
  ultimately obtain q s' where "Print_String sys (cursor_text r c) s = Some (q, s')" "ready ks s'"
    using Print_String_ok [OF _ cursor_text_bytes(2)] assms unfolding ready_def by blast
  then show ?thesis by (simp add: Put_Cursor_text)
qed

lemma erase_last_ok:
  assumes "ready ks s"
  shows "\<exists>s'. erase_last sys r c buf n s = Some s' \<and> ready ks s'"
proof -
  let ?c = "newcol_loop (take n buf) c"
  let ?ch = "if buf ! n \<noteq> 9 then 32 else buf ! n"
  obtain s1 where s1: "Put_Cursor sys r ?c s = Some (0, s1)" "ready ks s1"
    using Put_Cursor_ok [OF assms] by blast
  have "?ch \<noteq> 0x1B" by auto
  then have "word_of_int (sint ?ch) \<noteq> (0x1B :: u8)" by (simp only: of_int_sint scast_id not_False_eq_True)
  from Put_Char_ok [OF s1(2) this] obtain q s2 where s2: "Put_Char sys (sint ?ch) s1 = Some (q, s2)" "ready ks s2" by blast
  obtain s3 where s3: "Put_Cursor sys r ?c s2 = Some (0, s3)" "ready ks s3"
    using Put_Cursor_ok [OF s2(2)] by blast
  show ?thesis
    unfolding erase_last_def Let_def s1(1) bind.bind_lunit case_prod_conv s2(1) s3(1)
    using s3(2) by simp
qed

lemma emit_all_ok:
  assumes "ok s" "esc_text bs (esc s) = Some e" "0 \<notin> set bs"
  shows "\<exists>s'. emit_bytes (s_outputSink sys) bs s = Some s' \<and> ok s' \<and> pending s' = pending s \<and> esc s' = e"
  using assms
proof (induction bs arbitrary: s)
  case (Cons b bs)
  then obtain e1 where e1: "esc_step b (esc s) = Some e1" "esc_text bs e1 = Some e" by (auto simp: bind_eq_Some_conv)
  then have "esc_step (word_of_int (sint b)) (esc s) = Some e1" "word_of_int (sint b) \<noteq> (0 :: u8)"
    using Cons.prems(3) by simp_all
  from Put_Char_esc [OF Cons.prems(1) this] obtain q s1 where
    s1: "Put_Char sys (sint b) s = Some (q, s1)" "ok s1" "pending s1 = pending s" "esc s1 = e1" by blast
  from Cons.IH [of s1] s1 e1 Cons.prems(3) show ?case by (auto simp: s_outputSink_def Print_Emit_def)
qed simp

lemma Print_ok:
  assumes "ready ks s" "Format_Output text_sink fmt va [] = Some (r, ns, bs)" "esc_text bs Plain = Some Plain" "0 \<notin> set bs"
  shows "\<exists>s'. Print sys fmt va s = Some s' \<and> ready ks s'"
proof -
  from assms(1) have s: "ok s" "esc_text bs (esc s) = Some Plain" "pending s = ks" using assms(3) by (simp_all add: ready_def)
  from emit_all_ok [OF s(1,2) assms(4)] obtain s' where
    s': "emit_bytes (s_outputSink sys) bs s = Some s'" "ready ks s'" using s(3) by (auto simp: ready_def)
  from assms(2) have t: "Fmtout.format_loop text_sink st_normal fmt_init fmt va [] = Some (ns, bs)"
    by (auto simp: Format_Output_def bind_eq_Some_conv)
  have "Print sys fmt va s = Some s'"
    unfolding Print_def Format_Output_def
    by (subst format_loop_emits) (simp add: t s'(1), simp add: s_outputSink_def Print_Finish_def)
  with s' show ?thesis by blast
qed

lemma read_step:
  assumes "ready (k # ks) s" "n \<le> bufSize" "bufSize < length buf" and ne: "echo \<longrightarrow> typed k \<noteq> Some 0x1B"
  shows "\<exists>n' buf' s'. ready ks s' \<and> n' \<le> bufSize \<and> length buf' = length buf
    \<and> take n' buf' = edit bufSize k (take n buf) \<and> drop bufSize buf' = drop bufSize buf
    \<and> read_loop sys echo bufSize r c n buf s
      = (if typed k = Some 10 then Some (n', buf', s') else read_loop sys echo bufSize r c n' buf' s')"
proof -
  obtain s1 where s1: "Get_Key sys s = Some (k, s1)" "ready ks s1" using Get_Key_ok assms(1) unfolding ready_def by metis
  note rl = read_loop.simps [of sys echo bufSize r c n buf s, unfolded s1(1) bind.bind_lunit case_prod_conv]
  show ?thesis
  proof (cases "typed k")
    case None
    then have "k AND KEY_SPECIAL_FLAG \<noteq> 0 \<or> k AND KEY_RELEASE_FLAG \<noteq> 0" by (simp add: typed_def split: if_splits)
    with None s1 assms(2) show ?thesis
      by (intro exI [of _ n] exI [of _ buf] exI [of _ s1]) (subst rl, simp add: edit_def)
  next
    case (Some ch)
    then have nk: "\<not> (k AND KEY_SPECIAL_FLAG \<noteq> 0 \<or> k AND KEY_RELEASE_FLAG \<noteq> 0)" and ch: "ch = (if ucast k = (13 :: u8) then 10 else ucast k)"
      by (auto simp: typed_def split: if_splits)
    have e: "(k AND 0xff = 13) = (ucast k = (13 :: u8))"
      using ucast_byte_eq [of "ucast k" 13] by (simp add: low_byte_word)
    have k1: "(if k AND 0xff = 13 then 10 else k AND 0xff) = (ucast ch :: u16)"
      unfolding e unfolding ch low_byte_word by simp
    have cmp: "(ucast ch :: u16) = ASCII_BS \<longleftrightarrow> ch = 8" "(ucast ch :: u16) = 10 \<longleftrightarrow> ch = 10"
      using ucast_byte_eq [of ch 8] ucast_byte_eq [of ch 10] by (simp_all add: ASCII_BS_def)
    note rl' = rl [unfolded if_not_P [OF nk] Let_def k1 cmp]
    show ?thesis
    proof (cases "ch = 8")
      case True
      show ?thesis
      proof (cases "n > 0")
        case pos: True
        have "\<exists>s2. (if echo then erase_last sys r c buf (n - 1) s1 else Some s1) = Some s2 \<and> ready ks s2"
          using erase_last_ok [OF s1(2)] s1(2) by (cases echo) auto
        then obtain s2 where s2: "(if echo then erase_last sys r c buf (n - 1) s1 else Some s1) = Some s2" "ready ks s2" by blast
        have "read_loop sys echo bufSize r c n buf s = read_loop sys echo bufSize r c (n - 1) buf s2"
          using True pos s2(1) by (simp add: rl')
        moreover have "take (n - 1) buf = edit bufSize k (take n buf)"
          using Some True assms(2,3) by (simp add: edit_def butlast_take)
        ultimately show ?thesis using Some True s2 assms(2)
          by (intro exI [of _ "n - 1"] exI [of _ buf] exI [of _ s2]) simp
      next
        case False
        have "read_loop sys echo bufSize r c n buf s = read_loop sys echo bufSize r c n buf s1"
          by (subst rl') (simp only: True False if_True if_False simp_thms)
        with Some True False s1 assms(2) show ?thesis
          by (intro exI [of _ n] exI [of _ buf] exI [of _ s1]) (simp add: edit_def)
      qed
    next
      case False
      have "\<exists>s2. (if echo then do { (_, s) \<leftarrow> Put_Char sys (uint (ucast ch :: u16)) s1; Some s } else Some s1) = Some s2 \<and> ready ks s2"
      proof (cases echo)
        case True
        have "word_of_int (uint (ucast ch :: u16)) = (ucast (ucast ch :: u16) :: u8)" by (rule ucast_eq [symmetric])
        moreover have "ch \<noteq> 0x1B" using True ne Some by auto
        ultimately have "word_of_int (uint (ucast ch :: u16)) \<noteq> (0x1B :: u8)" by (simp only: ucast_byte_id not_False_eq_True)
        from Put_Char_ok [OF s1(2) this] obtain q s2 where "Put_Char sys (uint (ucast ch :: u16)) s1 = Some (q, s2)" "ready ks s2" by blast
        with True show ?thesis by (simp only: if_True bind.bind_lunit case_prod_conv) blast
      qed (use s1 in simp)
      then obtain s2 where s2: "(if echo then do { (_, s) \<leftarrow> Put_Char sys (uint (ucast ch :: u16)) s1; Some s } else Some s1) = Some s2"
        "ready ks s2" by blast
      define n' where "n' = (if n < bufSize then n + 1 else n)"
      define buf' where "buf' = (if n < bufSize then buf[n := ch] else buf)"
      have "(if n < bufSize then do { _ \<leftarrow> kassert (n < length buf); Some (n + 1, buf[n := ucast (ucast ch :: u16)]) } else Some (n, buf))
          = Some (n', buf')"
        using assms(3) ucast_byte_id [of ch] by (simp add: n'_def buf'_def)
      then have "read_loop sys echo bufSize r c n buf s
          = (if ch = 10 then Some (n', buf', s2) else read_loop sys echo bufSize r c n' buf' s2)"
        by (subst rl') (simp only: False if_False s2(1) bind.bind_lunit case_prod_conv)
      moreover have "take n' buf' = edit bufSize k (take n buf)"
        using Some False assms(2,3) by (simp add: edit_def n'_def buf'_def take_Suc_conv_app_nth)
      ultimately show ?thesis using Some s2 assms(2)
        by (intro exI [of _ n'] exI [of _ buf'] exI [of _ s2]) (simp add: n'_def buf'_def)
    qed
  qed
qed

lemma read_loop_run:
  assumes "ready (ks @ k # rest) s" "\<forall>x \<in> set ks. typed x \<noteq> Some 10" "typed k = Some 10"
    and "echo \<longrightarrow> Some 0x1B \<notin> typed ` set ks" and "n \<le> bufSize" "bufSize < length buf"
  shows "\<exists>n' buf' s'. read_loop sys echo bufSize r c n buf s = Some (n', buf', s') \<and> ready rest s'
    \<and> n' \<le> bufSize \<and> length buf' = length buf \<and> take n' buf' = fold (edit bufSize) (ks @ [k]) (take n buf)
    \<and> drop bufSize buf' = drop bufSize buf"
  using assms(1,2,4-6)
proof (induction ks arbitrary: s n buf)
  case Nil
  then have "ready (k # rest) s" by simp
  from read_step [OF this Nil(4,5), of echo r c] assms(3) show ?case by auto
next
  case (Cons x ks)
  then have "ready (x # (ks @ k # rest)) s" by simp
  from read_step [OF this Cons.prems(4,5), of echo r c] obtain n1 b1 s1 where
    s1: "ready (ks @ k # rest) s1" "n1 \<le> bufSize" "length b1 = length buf"
      "take n1 b1 = edit bufSize x (take n buf)" "drop bufSize b1 = drop bufSize buf"
      "read_loop sys echo bufSize r c n buf s = read_loop sys echo bufSize r c n1 b1 s1"
    using Cons.prems(2,3) by auto
  have "\<forall>x \<in> set ks. typed x \<noteq> Some 10" "echo \<longrightarrow> Some 0x1B \<notin> typed ` set ks" "bufSize < length b1"
    using Cons.prems(2,3,5) s1(3) by auto
  from Cons.IH [OF s1(1) this(1,2) s1(2) this(3)] s1(3-6) show ?case by simp
qed

lemma Read_Line_run:
  assumes "ready (ks @ k # rest) s" "\<forall>x \<in> set ks. typed x \<noteq> Some 10" "typed k = Some 10"
    and "echo \<longrightarrow> Some 0x1B \<notin> typed ` set ks" and "0 < bufSize" "bufSize \<le> length buf"
  shows "\<exists>buf' s'. Read_Line sys echo buf bufSize s = Some (buf', s') \<and> ready rest s'
    \<and> (let line = fold (edit (bufSize - 1)) (ks @ [k]) []
       in length line < bufSize \<and> take (length line) buf' = line \<and> buf' ! length line = 0)
    \<and> length buf' = length buf \<and> drop bufSize buf' = drop bufSize buf"
proof -
  obtain p s1 where s1: "Get_Cursor sys s = Some (p, s1)" "ready (ks @ k # rest) s1"
    using Get_Cursor_ok assms(1) unfolding ready_def by metis
  obtain r c where rc: "(case p of Some p \<Rightarrow> p | None \<Rightarrow> (0, 0)) = (r, c)" by force
  have "bufSize - 1 < length buf" using assms(5,6) by simp
  from read_loop_run [OF s1(2) assms(2-4) _ this, of 0 r c] obtain n b s' where
    s': "read_loop sys echo (bufSize - 1) r c 0 buf s1 = Some (n, b, s')" "ready rest s'" "n \<le> bufSize - 1"
      "length b = length buf" "take n b = fold (edit (bufSize - 1)) (ks @ [k]) []" "drop (bufSize - 1) b = drop (bufSize - 1) buf"
    by auto
  have n: "n < length b" "n < bufSize" using s'(3,4) assms(5,6) by simp_all
  have "Read_Line sys echo buf bufSize s = Some (b[n := 0], s')"
    using s1(1) rc s'(1) n(1) assms(5) by (simp add: Read_Line_def)
  moreover have "length (fold (edit (bufSize - 1)) (ks @ [k]) []) = n"
    unfolding s'(5) [symmetric] using n(1) by simp
  moreover have "drop bufSize b = drop bufSize buf"
    using arg_cong [OF s'(6), of "drop 1"] assms(5) by simp
  ultimately show ?thesis
    using s'(2,4,5) n by (intro exI [of _ "b[n := 0]"] exI [of _ s']) (simp add: Let_def del: fold_append)
qed

end
text \<open>
  Property C18.  \<open>Read_Line\<close> reads keys until Enter, consumes exactly these, and leaves in the buffer
  the line that results from editing: special keys and releases of keys have no effect, a
  backspace removes the last character, other characters are appended while there is room, and
  the line ends with a zero byte.  Nothing is written beyond \<open>bufSize\<close> bytes, whatever is typed
  without echo, and whatever but the escape character is typed with echo.
\<close>

theorem Read_Line_reads_line:
  assumes "console_calls sys pending esc ok" and "ok s" and "esc s = Plain" and "pending s = ks @ k # rest"
    and "\<forall>x \<in> set ks. typed x \<noteq> Some 10" and "typed k = Some 10" and "echo \<longrightarrow> Some 0x1B \<notin> typed ` set ks"
    and "0 < bufSize" and "bufSize \<le> length buf"
  shows "\<exists>buf' s'. Read_Line sys echo buf bufSize s = Some (buf', s') \<and> ok s' \<and> esc s' = Plain \<and> pending s' = rest
    \<and> (let line = fold (edit (bufSize - 1)) (ks @ [k]) []
       in length line < bufSize \<and> take (length line) buf' = line \<and> buf' ! length line = 0)
    \<and> length buf' = length buf \<and> drop bufSize buf' = drop bufSize buf"
  using console_calls.Read_Line_run [OF assms(1) _ assms(5-9)] assms(2-4) console_calls.ready_def [OF assms(1)] by simp

text \<open>A console whose state is the list of the keys that wait and the place in an escape sequence.\<close>

definition toy_sys :: "(u16 list \<times> esc) sys" where
  "toy_sys = \<lparr>Print_String = (\<lambda>t (ks, e). map_option (\<lambda>e. (0, ks, e)) (esc_text t e)),
     Get_Key = (\<lambda>(ks, e). case ks of [] \<Rightarrow> None | k # ks \<Rightarrow> Some (k, ks, e)),
     Get_Cursor = (\<lambda>s. Some (Some (3, 2), s)), Spawn_Program = (\<lambda>p _ s. Some (if p = [47, 97, 47, 98, 46, 101, 120, 101] then 7 else ENOTFOUND, s)),
     Wait = (\<lambda>_ s. Some (0, s)), Get_PID = (\<lambda>s. Some (1, s))\<rparr>"

lemma toy_sys_console: "console_calls toy_sys fst snd (\<lambda>_. True)"
  by unfold_locales (auto simp: toy_sys_def)

lemma Read_Line_reads_line_witness:
  "\<exists>buf'. Read_Line toy_sys True (replicate 4 9) 4 ([97, 98, 0x8061, 8, 99, 13, 100], Plain) = Some (buf', [100], Plain)
     \<and> take 3 buf' = [97, 99, 10] \<and> buf' ! 3 = 0"
proof -
  have t: "typed 97 = Some 97" "typed 98 = Some 98" "typed 0x8061 = None" "typed 8 = Some 8" "typed 99 = Some 99" "typed 13 = Some 10"
    by (simp_all add: typed_def KEY_SPECIAL_FLAG_def KEY_RELEASE_FLAG_def)
  from Read_Line_reads_line [OF toy_sys_console TrueI, of "([97, 98, 0x8061, 8, 99, 13, 100], Plain)" "[97, 98, 0x8061, 8, 99]" 13 "[100]" True 4 "replicate 4 9"]
  show ?thesis by (auto simp: t edit_def Let_def numeral_3_eq_3)
qed


end
