(* ===== verification/Shell.thy ===== *)
theory Shell
  imports Libuser
begin

text \<open>
  The shell, \<open>src/user/shell.c\<close>.  \<open>commandBuf\<close> is a list of bytes and a pointer into it an index;
  reading beyond the end of the buffer, or storing a token that is too long for its array, is
  \<open>None\<close>.  The functions of \<open>string.c\<close> are the functions on byte lists that theory \<open>CString\<close>
  shows them to compute.
\<close>

definition BUFSIZE :: nat where "BUFSIZE = 79"
definition DEFAULT_PATH :: "u8 list" where "DEFAULT_PATH = [47, 99, 58, 47, 97]"
definition INFILE :: u32 where "INFILE = 0x1"
definition OUTFILE :: u32 where "OUTFILE = 0x2"
definition PIPE :: u32 where "PIPE = 0x4"
definition MAXPROC :: nat where "MAXPROC = 5"

definition ISSPACE :: "u8 \<Rightarrow> bool" where
  "ISSPACE c \<longleftrightarrow> c = 32 \<or> c = 9"

text \<open>A process of a pipeline.  The arrays are the C strings in them.\<close>

record process =
  flags :: u32
  program :: "u8 list"
  infile :: "u8 list"
  outfile :: "u8 list"
  command :: nat

section \<open>Strings in the command buffer\<close>

definition str :: "u8 list \<Rightarrow> nat \<Rightarrow> u8 list option" where
  "str buf p = (if 0 \<in> set (drop p buf) then Some (takeWhile (\<lambda>c. c \<noteq> 0) (drop p buf)) else None)"

definition Strip_Leading_Whitespace :: "u8 list \<Rightarrow> nat \<Rightarrow> nat option" where
  "Strip_Leading_Whitespace buf p = do { s \<leftarrow> str buf p; Some (p + length (takeWhile ISSPACE s)) }"

definition Trim_Newline :: "u8 list \<Rightarrow> nat \<Rightarrow> u8 list option" where
  "Trim_Newline buf p = do {
     s \<leftarrow> str buf p;
     Some (case first_index (\<lambda>c. c = 10) s of Some i \<Rightarrow> buf[p + i := 0] | None \<Rightarrow> buf)
   }"

text \<open>The token, and where the parsing goes on if there is one.\<close>

definition Copy_Token :: "u8 list \<Rightarrow> nat \<Rightarrow> (u8 list \<times> nat option) option" where
  "Copy_Token buf p = do {
     s \<leftarrow> str buf p;
     let t = dropWhile ISSPACE s;
     let token = takeWhile (\<lambda>c. \<not> ISSPACE c) t;
     _ \<leftarrow> kassert (length token \<le> BUFSIZE);
     Some (token, if token \<noteq> [] then Some (p + (length s - length t) + length token) else None)
   }"

section \<open>Pipelines\<close>

definition msg_infile :: "u8 list" where
  "msg_infile = map of_char ''Error: invalid input redirection\<newline>''"
definition msg_outfile :: "u8 list" where
  "msg_outfile = map of_char ''Error: invalid output redirection\<newline>''"
definition msg_command :: "u8 list" where
  "msg_command = map of_char ''Error: invalid command\<newline>''"
definition msg_too_many :: "u8 list" where
  "msg_too_many = map of_char ''Error: too many commands in pipeline\<newline>''"
definition msg_first :: "u8 list" where
  "msg_first = map of_char ''Error: input redirection only allowed for first command\<newline>''"
definition msg_last :: "u8 list" where
  "msg_last = map of_char ''Error: output redirection only allowed for last command\<newline>''"
definition msg_unterminated :: "u8 list" where
  "msg_unterminated = map of_char ''Error: unterminated pipeline\<newline>''"

text \<open>
  The two parts of the loop for redirections.  \<open>Inl\<close> is the message of an error.  The state is
  \<open>(flags, token, p, s, buf)\<close>, with \<open>s\<close> the place of the next special character.
\<close>

definition input_part ::
  "nat \<Rightarrow> nat option \<Rightarrow> u8 list \<Rightarrow> (u8 list + (u32 \<times> u8 list \<times> nat \<times> nat option \<times> u8 list)) option" where
  "input_part cmd s buf = (case s of
      Some i \<Rightarrow> if buf ! i = 60 then do {
          let buf = buf[i := 0];
          (tok, e) \<leftarrow> Copy_Token buf (i + 1);
          (case e of
             None \<Rightarrow> Some (Inl msg_infile)
           | Some e \<Rightarrow> do {
               p \<leftarrow> Strip_Leading_Whitespace buf e;
               Some (Inr (INFILE, tok, p, if buf ! p = 62 \<or> buf ! p = 124 then Some p else None, buf)) }) }
        else Some (Inr (0, [], cmd, s, buf))
    | None \<Rightarrow> Some (Inr (0, [], cmd, s, buf)))"

definition output_part ::
  "nat \<Rightarrow> nat option \<Rightarrow> u8 list \<Rightarrow> (u8 list + (u32 \<times> u8 list \<times> nat \<times> u8 list)) option" where
  "output_part p s buf = (case s of
      Some i \<Rightarrow> if buf ! i = 62 then do {
          let buf = buf[i := 0];
          (tok, e) \<leftarrow> Copy_Token buf (i + 1);
          (case e of None \<Rightarrow> Some (Inl msg_outfile) | Some e \<Rightarrow> Some (Inr (OUTFILE, tok, e, buf))) }
        else if buf ! i = 124 then Some (Inr (PIPE, [], i + 1, buf[i := 0]))
        else Some (Inr (0, [], p, buf))
    | None \<Rightarrow> Some (Inr (0, [], p, buf)))"

definition special :: "u8 \<Rightarrow> bool" where
  "special c \<longleftrightarrow> c \<in> {60, 62, 124}"

text \<open>
  The rounds that are left are counted, and \<open>command\<close> is \<open>None\<close> when it points to the literal \<open>""\<close>.
\<close>

fun build_loop :: "nat \<Rightarrow> nat option \<Rightarrow> process list \<Rightarrow> u8 list
    \<Rightarrow> (u8 list + (nat option \<times> process list \<times> u8 list)) option" where
  "build_loop 0 cmd procs buf = Some (Inr (cmd, procs, buf))"
| "build_loop (Suc n) None procs buf = Some (Inr (None, procs, buf))"
| "build_loop (Suc n) (Some c) procs buf = do {
     cmd \<leftarrow> Strip_Leading_Whitespace buf c;
     line \<leftarrow> str buf cmd;
     (if line = [] then Some (Inr (Some cmd, procs, buf))
      else do {
        r1 \<leftarrow> input_part cmd (map_option (\<lambda>i. cmd + i) (first_index special line)) buf;
        (case r1 of Inl e \<Rightarrow> Some (Inl e) | Inr (f1, inp, p, s, buf) \<Rightarrow> do {
          r2 \<leftarrow> output_part p s buf;
          (case r2 of Inl e \<Rightarrow> Some (Inl e) | Inr (f2, outp, p, buf) \<Rightarrow> do {
            (prog, e) \<leftarrow> Copy_Token buf cmd;
            (if e = None then Some (Inl msg_command)
             else build_loop n (if p = cmd then None else Some p)
               (procs @ [\<lparr>flags = f1 OR f2, program = prog, infile = inp, outfile = outp, command = cmd\<rparr>]) buf) }) }) })
   }"

text \<open>The checks of the flags, in the order of the code.\<close>

fun check_loop :: "nat \<Rightarrow> process list \<Rightarrow> u8 list option" where
  "check_loop i [] = None"
| "check_loop i (p # ps) =
     (if i > 0 \<and> flags p AND INFILE \<noteq> 0 then Some msg_first
      else if ps \<noteq> [] \<and> flags p AND OUTFILE \<noteq> 0 then Some msg_last
      else if ps = [] \<and> flags p AND PIPE \<noteq> 0 then Some msg_unterminated
      else check_loop (i + 1) ps)"

definition Build_Pipeline :: "nat \<Rightarrow> u8 list \<Rightarrow> (u8 list + (process list \<times> u8 list)) option" where
  "Build_Pipeline cmd buf = do {
     r \<leftarrow> build_loop MAXPROC (Some cmd) [] buf;
     (case r of Inl e \<Rightarrow> Some (Inl e)
      | Inr (cmd, procs, buf) \<Rightarrow> do {
          rest \<leftarrow> (case cmd of None \<Rightarrow> Some [] | Some c \<Rightarrow> str buf c);
          (if rest \<noteq> [] then Some (Inl msg_too_many)
           else case check_loop 0 procs of Some e \<Rightarrow> Some (Inl e) | None \<Rightarrow> Some (Inr (procs, buf)))
        })
   }"

section \<open>Strings\<close>

lemma str_iff: "str buf p = Some s \<longleftrightarrow> 0 \<notin> set s \<and> (\<exists>rest. drop p buf = s @ 0 # rest)"
proof
  assume h: "str buf p = Some s"
  then have s: "s = takeWhile (\<lambda>c. c \<noteq> 0) (drop p buf)" "0 \<in> set (drop p buf)" by (auto simp: str_def split: if_splits)
  then have "dropWhile (\<lambda>c. c \<noteq> 0) (drop p buf) \<noteq> []" by (auto simp: dropWhile_eq_Nil_conv)
  moreover from this have "hd (dropWhile (\<lambda>c. c \<noteq> 0) (drop p buf)) = 0" using hd_dropWhile by blast
  ultimately obtain rest where "dropWhile (\<lambda>c. c \<noteq> 0) (drop p buf) = 0 # rest" by (metis list.collapse)
  then have "drop p buf = s @ 0 # rest" using s(1) takeWhile_dropWhile_id by metis
  moreover have "0 \<notin> set s" using s(1) set_takeWhileD by fastforce
  ultimately show "0 \<notin> set s \<and> (\<exists>rest. drop p buf = s @ 0 # rest)" by blast
next
  assume "0 \<notin> set s \<and> (\<exists>rest. drop p buf = s @ 0 # rest)"
  then show "str buf p = Some s" by (auto simp: str_def takeWhile_append)
qed

lemma str_bounds:
  assumes "str buf p = Some s"
  shows "p + length s < length buf" "i < length s \<Longrightarrow> buf ! (p + i) = s ! i" "buf ! (p + length s) = 0"
proof -
  from assms obtain rest where d: "drop p buf = s @ 0 # rest" by (auto simp: str_iff)
  from arg_cong [OF d, of length] show l: "p + length s < length buf" by simp
  then have n: "buf ! (p + i) = (s @ 0 # rest) ! i" for i using arg_cong [OF d, of "\<lambda>xs. xs ! i"] by simp
  show "i < length s \<Longrightarrow> buf ! (p + i) = s ! i" "buf ! (p + length s) = 0" by (simp_all add: n nth_append)
qed

lemma str_later:
  assumes "str buf p = Some s" "n \<le> length s"
  shows "str buf (p + n) = Some (drop n s)"
proof -
  from assms(1) obtain rest where "drop p buf = s @ 0 # rest" "0 \<notin> set s" by (auto simp: str_iff)
  then have "drop (p + n) buf = drop n s @ 0 # rest" using assms(2) by (simp add: add.commute flip: drop_drop)
  with \<open>0 \<notin> set s\<close> show ?thesis using set_drop_subset by (fastforce simp: str_iff)
qed

lemma str_frame:
  assumes "str buf p = Some s" "p + length s < i"
  shows "str (buf[i := c]) p = Some s"
proof -
  from assms(1) obtain rest where d: "drop p buf = s @ 0 # rest" "0 \<notin> set s" by (auto simp: str_iff)
  have "drop p (buf[i := c]) = (s @ 0 # rest)[i - p := c]" using assms(2) d(1) by (simp add: drop_update_swap)
  also have "\<dots> = s @ 0 # rest[i - p - Suc (length s) := c]"
    using assms(2) by (simp add: list_update_append nth_Cons' split: nat_diff_split)
  finally show ?thesis using d(2) by (auto simp: str_iff)
qed

lemma str_cut:
  assumes "str buf p = Some s" "n < length s"
  shows "str (buf[p + n := 0]) p = Some (take n s)" "str (buf[p + n := 0]) (p + n + 1) = Some (drop (n + 1) s)"
proof -
  from assms(1) obtain rest where d: "drop p buf = s @ 0 # rest" "0 \<notin> set s" by (auto simp: str_iff)
  have "drop p (buf[p + n := 0]) = s[n := 0] @ 0 # rest" using assms(2) d(1) by (simp add: drop_update_swap list_update_append)
  also have "s[n := 0] = take n s @ 0 # drop (n + 1) s" using assms(2) by (simp add: upd_conv_take_nth_drop)
  finally have e: "drop p (buf[p + n := 0]) = take n s @ 0 # drop (n + 1) s @ 0 # rest" by simp
  with d(2) show "str (buf[p + n := 0]) p = Some (take n s)" using set_take_subset by (fastforce simp: str_iff)
  have "drop (p + n + 1) (buf[p + n := 0]) = drop (n + 1) (drop p (buf[p + n := 0]))" by (simp add: add.commute)
  also have "\<dots> = drop (n + 1) s @ 0 # rest" unfolding e using assms(2) by simp
  finally show "str (buf[p + n := 0]) (p + n + 1) = Some (drop (n + 1) s)"
    using d(2) set_drop_subset by (fastforce simp: str_iff)
qed

lemma Strip_run: "str buf p = Some s \<Longrightarrow> Strip_Leading_Whitespace buf p = Some (p + length (takeWhile ISSPACE s))"
  by (simp add: Strip_Leading_Whitespace_def)

lemma str_stripped: "str buf p = Some s \<Longrightarrow> str buf (p + length (takeWhile ISSPACE s)) = Some (dropWhile ISSPACE s)"
  using str_later [of buf p s "length (takeWhile ISSPACE s)"] by (simp add: length_takeWhile_le flip: dropWhile_eq_drop)

lemma Copy_Token_run:
  assumes "str buf p = Some s" "length buf \<le> BUFSIZE + 1"
  shows "\<exists>tok. tok = takeWhile (\<lambda>c. \<not> ISSPACE c) (dropWhile ISSPACE s)
    \<and> Copy_Token buf p = Some (tok, if tok \<noteq> [] then Some (p + (length (takeWhile ISSPACE s) + length tok)) else None)
    \<and> length (takeWhile ISSPACE s) + length tok \<le> length s"
proof -
  let ?t = "dropWhile ISSPACE s" and ?tok = "takeWhile (\<lambda>c. \<not> ISSPACE c) (dropWhile ISSPACE s)"
  have l: "length s = length (takeWhile ISSPACE s) + length ?t"
    by (metis length_append takeWhile_dropWhile_id)
  moreover have "length ?tok \<le> length ?t" by (rule length_takeWhile_le)
  moreover have "length s \<le> BUFSIZE" using str_bounds(1) [OF assms(1)] assms(2) by simp
  ultimately show ?thesis using assms(1) by (auto simp: Copy_Token_def Let_def)
qed

lemma output_part_run:
  assumes "str buf q = Some u" "u \<noteq> []" "u ! 0 = 62 \<or> u ! 0 = 124" "length buf \<le> BUFSIZE + 1"
  shows "output_part p (Some q) buf = Some (Inl msg_outfile)
    \<or> (\<exists>f outp p' u'. output_part p (Some q) buf = Some (Inr (f, outp, p', buf[q := 0])) \<and> q < p' \<and> str (buf[q := 0]) p' = Some u')"
proof -
  have c: "buf ! q = u ! 0" using str_bounds(2) [OF assms(1), of 0] assms(2) by simp
  have cut: "str (buf[q := 0]) (q + 1) = Some (drop 1 u)" using str_cut(2) [OF assms(1), of 0] assms(2) by simp
  show ?thesis
  proof (cases "u ! 0 = 62")
    case True
    obtain tok where tok: "Copy_Token (buf[q := 0]) (q + 1) = Some (tok, if tok \<noteq> []
        then Some (q + 1 + (length (takeWhile ISSPACE (drop 1 u)) + length tok)) else None)"
      "length (takeWhile ISSPACE (drop 1 u)) + length tok \<le> length (drop 1 u)"
      using Copy_Token_run [OF cut] assms(4) by auto
    from str_later [OF cut tok(2)] tok(1) True c show ?thesis by (simp add: output_part_def)
  next
    case False
    with assms(3) c cut show ?thesis by (simp add: output_part_def)
  qed
qed

text \<open>
  Both parts: the command line of the process ends before the first special character, and the
  rest of the line lies behind it.
\<close>

definition parts_ok :: "u8 list \<Rightarrow> nat \<Rightarrow> u8 list \<Rightarrow> nat \<Rightarrow> u8 list \<Rightarrow> bool" where
  "parts_ok buf cmd line p2 buf2 \<longleftrightarrow> length buf2 = length buf \<and> take cmd buf2 = take cmd buf
     \<and> (\<exists>n \<le> length line. str buf2 cmd = Some (take n line) \<and> (\<forall>c \<in> set (take n line). \<not> special c)
          \<and> (p2 = cmd \<or> (cmd + n < p2 \<and> str buf2 p2 \<noteq> None)))"

lemma parts_okI:
  assumes "length buf2 = length buf" "take cmd buf2 = take cmd buf" "n \<le> length line" "str buf2 cmd = Some (take n line)"
    "\<forall>c \<in> set (take n line). \<not> special c" "p2 = cmd \<or> (cmd + n < p2 \<and> str buf2 p2 \<noteq> None)"
  shows "parts_ok buf cmd line p2 buf2"
  using assms by (auto simp: parts_ok_def)

definition parts_result ::
  "(u8 list + (u32 \<times> u8 list \<times> nat \<times> nat option \<times> u8 list)) option \<Rightarrow> (nat \<Rightarrow> u8 list \<Rightarrow> bool) \<Rightarrow> bool" where
  "parts_result r Q = (case r of None \<Rightarrow> False | Some (Inl e) \<Rightarrow> True
     | Some (Inr (f1, inp, p, s, buf1)) \<Rightarrow>
         (case output_part p s buf1 of None \<Rightarrow> False | Some (Inl e) \<Rightarrow> True | Some (Inr (f2, outp, p2, buf2)) \<Rightarrow> Q p2 buf2))"

lemma redirections_run:
  assumes "str buf cmd = Some line" "line \<noteq> []" "length buf \<le> BUFSIZE + 1"
  shows "parts_result (input_part cmd (map_option (\<lambda>i. cmd + i) (first_index special line)) buf) (parts_ok buf cmd line)"
proof (cases "first_index special line")
  case None
  then have "\<forall>c \<in> set line. \<not> special c" by (auto simp: first_index_None)
  then have "parts_ok buf cmd line cmd buf" using assms(1) by (intro parts_okI [where n = "length line"]) simp_all
  with None show ?thesis by (simp add: parts_result_def input_part_def output_part_def)
next
  case (Some i)
  then have i: "i < length line" "special (line ! i)" "\<forall>j < i. \<not> special (line ! j)" by (auto simp: first_index_Some)
  have ns: "\<forall>c \<in> set (take i line). \<not> special c" using i by (auto simp: in_set_conv_nth)
  have bi: "buf ! (cmd + i) = line ! i" using str_bounds(2) [OF assms(1) i(1)] .
  define buf1 where "buf1 = buf[cmd + i := 0]"
  have b1: "length buf1 = length buf" "take cmd buf1 = take cmd buf" by (simp_all add: buf1_def)
  note cut = str_cut [OF assms(1) i(1), folded buf1_def]
  have ok: "parts_ok buf cmd line p' buf'"
    if "length buf' = length buf1" "take cmd buf' = take cmd buf1" "str buf' cmd = Some (take i line)" "cmd + i < p'" "str buf' p' = Some u'" for p' buf' u'
    using that i(1) ns b1 by (intro parts_okI [where n = i]) simp_all
  show ?thesis
  proof (cases "line ! i = 60")
    case False
    then have inp: "input_part cmd (Some (cmd + i)) buf = Some (Inr (0, [], cmd, Some (cmd + i), buf))"
      using bi by (simp add: input_part_def)
    have "drop i line \<noteq> []" "drop i line ! 0 = 62 \<or> drop i line ! 0 = 124" using i False by (auto simp: special_def)
    with output_part_run [OF str_later [OF assms(1), of i] this assms(3), of cmd] i(1) ok [OF refl refl cut(1)]
    show ?thesis by (auto simp: parts_result_def Some inp simp flip: buf1_def)
  next
    case True
    obtain tok where tok: "Copy_Token buf1 (cmd + i + 1) = Some (tok, if tok \<noteq> []
        then Some (cmd + i + 1 + (length (takeWhile ISSPACE (drop (i + 1) line)) + length tok)) else None)"
      "length (takeWhile ISSPACE (drop (i + 1) line)) + length tok \<le> length (drop (i + 1) line)"
      using Copy_Token_run [OF cut(2)] assms(3) b1(1) by auto
    show ?thesis
    proof (cases "tok = []")
      case True
      with tok(1) \<open>line ! i = 60\<close> bi show ?thesis by (simp add: Some input_part_def parts_result_def flip: buf1_def)
    next
      case ne: False
      define e where "e = cmd + i + 1 + (length (takeWhile ISSPACE (drop (i + 1) line)) + length tok)"
      have tok1: "Copy_Token buf1 (cmd + i + 1) = Some (tok, Some e)" using tok(1) ne by (simp add: e_def)
      obtain u where u: "str buf1 e = Some u" using str_later [OF cut(2) tok(2)] by (auto simp: e_def)
      define p where "p = e + length (takeWhile ISSPACE u)"
      define v where "v = dropWhile ISSPACE u"
      have v: "str buf1 p = Some v" unfolding p_def v_def by (rule str_stripped [OF u])
      have pi: "cmd + i < p" by (simp add: p_def e_def)
      define s where "s = (if buf1 ! p = 62 \<or> buf1 ! p = 124 then Some p else None)"
      have inp: "input_part cmd (Some (cmd + i)) buf = Some (Inr (INFILE, tok, p, s, buf1))"
        using bi True tok1 Strip_run [OF u] by (simp add: input_part_def s_def p_def flip: buf1_def)
      show ?thesis
      proof (cases s)
        case None
        with ok [OF refl refl cut(1) pi v] show ?thesis
          by (simp add: parts_result_def \<open>first_index special line = Some i\<close> inp output_part_def)
      next
        case (Some q)
        then have q: "q = p" "buf1 ! p = 62 \<or> buf1 ! p = 124" by (auto simp: s_def split: if_splits)
        then have "v \<noteq> []" using str_bounds(3) [OF v] by auto
        moreover from this have "v ! 0 = 62 \<or> v ! 0 = 124" using str_bounds(2) [OF v, of 0] q(2) by simp
        ultimately consider "output_part p (Some p) buf1 = Some (Inl msg_outfile)"
          | f outp p' u' where "output_part p (Some p) buf1 = Some (Inr (f, outp, p', buf1[p := 0]))" "p < p'" "str (buf1[p := 0]) p' = Some u'"
          using output_part_run [OF v, of p] assms(3) b1(1) by auto
        then show ?thesis
        proof cases
          case 1
          with Some q(1) show ?thesis by (simp add: parts_result_def \<open>first_index special line = Some i\<close> inp)
        next
          case 2
          have "str (buf1[p := 0]) cmd = Some (take i line)" using str_frame [OF cut(1)] pi i(1) by simp
          then have "parts_ok buf cmd line p' (buf1[p := 0])" using 2 pi by (intro ok) simp_all
          with 2(1) Some q(1) show ?thesis by (simp add: parts_result_def \<open>first_index special line = Some i\<close> inp)
        qed
      qed
    qed
  qed
qed

section \<open>Every line is parsed without a fault\<close>

text \<open>A process whose command line ends before \<open>c\<close>.\<close>

definition proc_ok :: "u8 list \<Rightarrow> nat \<Rightarrow> process \<Rightarrow> bool" where
  "proc_ok buf c q \<longleftrightarrow> (\<exists>t. str buf (command q) = Some t \<and> command q + length t < c
     \<and> program q = takeWhile (\<lambda>x. \<not> ISSPACE x) t \<and> program q \<noteq> [] \<and> (\<forall>x \<in> set t. \<not> special x))"

lemma str_cong_take:
  assumes "str buf p = Some t" "p + length t < c" "take c buf' = take c buf"
  shows "str buf' p = Some t"
proof -
  from assms(1) obtain rest where d: "drop p buf = t @ 0 # rest" "0 \<notin> set t" by (auto simp: str_iff)
  obtain k where k: "c - p = Suc (length t) + k" using assms(2) by (metis Suc_diff_Suc add_Suc less_diff_conv less_imp_Suc_add add.commute)
  have "drop p (take c buf') = drop p (take c buf)" using assms(3) by simp
  also have "\<dots> = t @ 0 # take k rest" unfolding drop_take d(1) k by simp
  finally have e: "drop p (take c buf') = t @ 0 # take k rest" .
  have "drop p buf' = drop p (take c buf') @ drop (p - length (take c buf')) (drop c buf')"
    by (metis append_take_drop_id drop_append)
  then have "drop p buf' = t @ 0 # (take k rest @ drop (p - length (take c buf')) (drop c buf'))" unfolding e by simp
  with d(2) show ?thesis by (auto simp: str_iff)
qed

lemma proc_ok_cong:
  assumes "proc_ok buf c q" "take c buf' = take c buf" "c \<le> c'"
  shows "proc_ok buf' c' q"
proof -
  from assms(1) obtain t where t: "str buf (command q) = Some t" "command q + length t < c"
    "program q = takeWhile (\<lambda>x. \<not> ISSPACE x) t" "program q \<noteq> []" "\<forall>x \<in> set t. \<not> special x"
    unfolding proc_ok_def by blast
  from str_cong_take [OF t(1,2) assms(2)] t(2-5) assms(3) show ?thesis unfolding proc_ok_def by auto
qed

lemma build_loop_ok:
  assumes "\<forall>c. cmd0 = Some c \<longrightarrow> str buf c \<noteq> None" "length buf \<le> BUFSIZE + 1"
    and "\<forall>q \<in> set procs. proc_ok buf (case cmd0 of Some c \<Rightarrow> c | None \<Rightarrow> length buf) q"
  shows "(\<exists>e. build_loop n cmd0 procs buf = Some (Inl e))
    \<or> (\<exists>cmd' procs' buf'. build_loop n cmd0 procs buf = Some (Inr (cmd', procs', buf'))
        \<and> (\<forall>c. cmd' = Some c \<longrightarrow> str buf' c \<noteq> None) \<and> length procs' \<le> length procs + n \<and> length buf' = length buf
        \<and> (\<forall>q \<in> set procs'. proc_ok buf' (length buf') q))"
  using assms
proof (induction n arbitrary: cmd0 procs buf)
  case 0
  show ?case
  proof (cases cmd0)
    case (Some c)
    with 0 obtain t where "str buf c = Some t" by auto
    then have "c \<le> length buf" using str_bounds(1) by fastforce
    with 0 Some proc_ok_cong [OF _ refl this] show ?thesis by simp
  qed (use 0 in simp)
next
  case (Suc n)
  show ?case
  proof (cases cmd0)
    case None
    with Suc show ?thesis by simp
  next
  case cmd0: (Some c)
  note pre = Suc.prems [unfolded cmd0]
  then obtain l where l: "str buf c = Some l" by auto
  define cmd where "cmd = c + length (takeWhile ISSPACE l)"
  define line where "line = dropWhile ISSPACE l"
  have strip: "Strip_Leading_Whitespace buf c = Some cmd" and line: "str buf cmd = Some line"
    using Strip_run [OF l] str_stripped [OF l] by (simp_all add: cmd_def line_def)
  show ?thesis
  proof (cases "line = []")
    case True
    have "\<forall>q \<in> set procs. proc_ok buf (length buf) q"
      using pre(3) proc_ok_cong [OF _ refl, of buf c _ "length buf"] str_bounds(1) [OF l] by simp
    with True strip line show ?thesis by (simp add: cmd0)
  next
    case False
    let ?s = "map_option (\<lambda>i. cmd + i) (first_index special line)"
    have step: "build_loop (Suc n) (Some c) procs buf = do {
        r1 \<leftarrow> input_part cmd ?s buf;
        (case r1 of Inl e \<Rightarrow> Some (Inl e) | Inr (f1, inp, p, s, buf) \<Rightarrow> do {
          r2 \<leftarrow> output_part p s buf;
          (case r2 of Inl e \<Rightarrow> Some (Inl e) | Inr (f2, outp, p, buf) \<Rightarrow> do {
            (prog, e) \<leftarrow> Copy_Token buf cmd;
            (if e = None then Some (Inl msg_command)
             else build_loop n (if p = cmd then None else Some p)
               (procs @ [\<lparr>flags = f1 OR f2, program = prog, infile = inp, outfile = outp, command = cmd\<rparr>]) buf) }) }) }"
      using strip line False by simp
    note r = redirections_run [OF line False pre(2), unfolded parts_result_def]
    show ?thesis
    proof (cases "input_part cmd ?s buf")
      case (Some r1)
      show ?thesis
      proof (cases r1)
        case r1: (Inr x)
        obtain f1 inp p s buf1 where x: "x = (f1, inp, p, s, buf1)" by (cases x)
        note inp = Some [unfolded r1 x]
        show ?thesis
        proof (cases "output_part p s buf1")
          case None
          with r inp show ?thesis by simp
        next
          case (Some r2)
          show ?thesis
          proof (cases r2)
            case r2: (Inr y)
            obtain f2 outp p2 buf2 where y: "y = (f2, outp, p2, buf2)" by (cases y)
            note outp = Some [unfolded r2 y]
            have "parts_ok buf cmd line p2 buf2" using r inp outp by simp
            then obtain m where m: "length buf2 = length buf" "take cmd buf2 = take cmd buf" "m \<le> length line"
              "str buf2 cmd = Some (take m line)" "\<forall>c \<in> set (take m line). \<not> special c"
              "p2 = cmd \<or> (cmd + m < p2 \<and> str buf2 p2 \<noteq> None)" unfolding parts_ok_def by blast
            have hd: "\<not> ISSPACE (hd line)" using hd_dropWhile [of ISSPACE l] False by (simp add: line_def)
            obtain tok where tok: "tok = takeWhile (\<lambda>c. \<not> ISSPACE c) (dropWhile ISSPACE (take m line))"
              "Copy_Token buf2 cmd = Some (tok, if tok \<noteq> [] then Some (cmd + (length (takeWhile ISSPACE (take m line)) + length tok)) else None)"
              using Copy_Token_run [OF m(4)] m(1) pre(2) by auto
            have tk: "dropWhile ISSPACE (take m line) = take m line"
              using hd False by (cases m; cases line) auto
            let ?q = "\<lparr>flags = f1 OR f2, program = tok, infile = inp, outfile = outp, command = cmd\<rparr>"
            have st: "build_loop (Suc n) (Some c) procs buf = (if tok = [] then Some (Inl msg_command)
                else build_loop n (if p2 = cmd then None else Some p2) (procs @ [?q]) buf2)"
              using inp outp tok(2) by (simp only: step) simp
            show ?thesis
            proof (cases "tok = []")
              case True
              with st show ?thesis unfolding cmd0 by simp
            next
              case ne: False
              define b where "b = (case if p2 = cmd then None else Some p2 of Some c \<Rightarrow> c | None \<Rightarrow> length buf2)"
              have bd: "cmd + m < b" using m(3,6) str_bounds(1) [OF m(4)] by (auto simp: min_def b_def split: if_splits)
              have "proc_ok buf2 b ?q"
                unfolding proc_ok_def using m(3-5) ne tok(1) tk bd by (intro exI [of _ "take m line"]) (simp add: min_def)
              moreover have "proc_ok buf2 b q" if "q \<in> set procs" for q
              proof (rule proc_ok_cong)
                show "proc_ok buf c q" using pre(3) that by simp
                have "c \<le> cmd" by (simp add: cmd_def)
                then show "take c buf2 = take c buf" using arg_cong [OF m(2), of "take c"] by simp
                show "c \<le> b" using \<open>c \<le> cmd\<close> bd by linarith
              qed
              ultimately have "\<forall>q \<in> set (procs @ [?q]). proc_ok buf2 b q" by auto
              note new = this [unfolded b_def]
              from Suc.IH [OF _ _ new] m(1,6) pre(2) st ne show ?thesis unfolding cmd0 by (auto split: if_splits)
            qed
          next
            case (Inl e)
            with step inp Some show ?thesis by (simp add: cmd0)
          qed
        qed
      next
        case (Inl e)
        with step Some show ?thesis by (simp add: cmd0)
      qed
    qed (use r in simp)
  qed
  qed
qed

lemma check_loop_None:
  "check_loop i ps = None \<longleftrightarrow> (\<forall>j < length ps. (0 < i + j \<longrightarrow> flags (ps ! j) AND INFILE = 0)
     \<and> (j + 1 < length ps \<longrightarrow> flags (ps ! j) AND OUTFILE = 0) \<and> (j + 1 = length ps \<longrightarrow> flags (ps ! j) AND PIPE = 0))"
proof (induction ps arbitrary: i)
  case (Cons p ps)
  have "check_loop i (p # ps) = None \<longleftrightarrow> (0 < i \<longrightarrow> flags p AND INFILE = 0) \<and> (ps \<noteq> [] \<longrightarrow> flags p AND OUTFILE = 0)
      \<and> (ps = [] \<longrightarrow> flags p AND PIPE = 0) \<and> check_loop (i + 1) ps = None"
    by simp
  then show ?case unfolding Cons.IH [of "i + 1"] length_Cons All_less_Suc2 nth_Cons_Suc nth_Cons_0 by (simp add: conj_assoc del: check_loop.simps)
qed simp

definition flags_ok :: "process list \<Rightarrow> bool" where
  "flags_ok procs \<longleftrightarrow> (\<forall>j < length procs. (0 < j \<longrightarrow> flags (procs ! j) AND INFILE = 0)
     \<and> (j + 1 < length procs \<longrightarrow> flags (procs ! j) AND OUTFILE = 0) \<and> (j + 1 = length procs \<longrightarrow> flags (procs ! j) AND PIPE = 0))"

lemma flags_ok_check: "flags_ok procs \<longleftrightarrow> check_loop 0 procs = None"
  by (simp add: flags_ok_def check_loop_None)

lemma Build_Pipeline_run:
  assumes "length buf \<le> BUFSIZE + 1" "0 \<in> set (drop cmd buf)"
  shows "(\<exists>e. Build_Pipeline cmd buf = Some (Inl e))
    \<or> (\<exists>procs buf'. Build_Pipeline cmd buf = Some (Inr (procs, buf')) \<and> length buf' = length buf \<and> length procs \<le> MAXPROC
        \<and> (\<forall>q \<in> set procs. proc_ok buf' (length buf') q) \<and> flags_ok procs)"
proof -
  have "str buf cmd \<noteq> None" using assms(2) by (simp add: str_def)
  then consider (err) e where "build_loop MAXPROC (Some cmd) [] buf = Some (Inl e)"
    | (ok) cmd' procs buf' where "build_loop MAXPROC (Some cmd) [] buf = Some (Inr (cmd', procs, buf'))"
        "\<forall>c. cmd' = Some c \<longrightarrow> str buf' c \<noteq> None" "length procs \<le> MAXPROC" "length buf' = length buf"
        "\<forall>q \<in> set procs. proc_ok buf' (length buf') q"
    using build_loop_ok [of "Some cmd" buf "[]" MAXPROC] assms(1) by auto
  then show ?thesis
  proof cases
    case err
    then show ?thesis by (simp add: Build_Pipeline_def)
  next
    case ok
    then obtain rest where "(case cmd' of None \<Rightarrow> Some [] | Some c \<Rightarrow> str buf' c) = Some rest" by (cases cmd') auto
    with ok(1) have r: "Build_Pipeline cmd buf = (if rest \<noteq> [] then Some (Inl msg_too_many)
        else case check_loop 0 procs of Some e \<Rightarrow> Some (Inl e) | None \<Rightarrow> Some (Inr (procs, buf')))"
      by (simp add: Build_Pipeline_def)
    show ?thesis
    proof (cases "rest = [] \<and> check_loop 0 procs = None")
      case True
      with r ok(3-5) show ?thesis by (simp add: flags_ok_check)
    next
      case False
      with r show ?thesis by auto
    qed
  qed
qed

text \<open>
  Property C31.  \<open>Build_Pipeline\<close> parses every command line without touching a byte outside of its
  buffers.  It reports an error, or yields at most five processes.  Each of them has a program
  name, the first token of its command line, and a command line without special characters, both
  of which remain intact while the rest of the line is cut up; only the first process reads from
  a file, only the last one writes to a file, and the last one does not write to a pipe.
\<close>

theorem Build_Pipeline_safe:
  assumes "length buf \<le> BUFSIZE + 1" and "0 \<in> set (drop cmd buf)"
  shows "(\<exists>e. Build_Pipeline cmd buf = Some (Inl e))
    \<or> (\<exists>procs buf'. Build_Pipeline cmd buf = Some (Inr (procs, buf')) \<and> length buf' = length buf \<and> length procs \<le> MAXPROC
        \<and> (\<forall>q \<in> set procs. \<exists>t. str buf' (command q) = Some t \<and> program q = takeWhile (\<lambda>x. \<not> ISSPACE x) t
            \<and> program q \<noteq> [] \<and> (\<forall>x \<in> set t. \<not> special x))
        \<and> (\<forall>j < length procs. (0 < j \<longrightarrow> flags (procs ! j) AND INFILE = 0)
            \<and> (j + 1 < length procs \<longrightarrow> flags (procs ! j) AND OUTFILE = 0) \<and> (j + 1 = length procs \<longrightarrow> flags (procs ! j) AND PIPE = 0)))"
  using Build_Pipeline_run [OF assms] unfolding proc_ok_def flags_ok_def by blast

lemma Build_Pipeline_safe_witness:
  "Build_Pipeline 0 [97, 32, 62, 0] = Some (Inl msg_outfile)"
proof -
  let ?b = "[97, 32, 62, 0] :: u8 list"
  have "Build_Pipeline 0 ?b \<noteq> None"
    using Build_Pipeline_safe [of ?b 0] by (auto simp: BUFSIZE_def)
  moreover have "build_loop (Suc 4) (Some 0) [] ?b = Some (Inl msg_outfile)"
    by (subst build_loop.simps) (simp add: Strip_Leading_Whitespace_def str_def ISSPACE_def special_def input_part_def output_part_def Copy_Token_def)
  ultimately show ?thesis by (simp add: Build_Pipeline_def MAXPROC_def numeral_eq_Suc)
qed
section \<open>What is written is what is parsed\<close>

text \<open>A pipeline is a list of commands, each a list of words, with files for its input and output.\<close>

definition word_ok :: "u8 list \<Rightarrow> bool" where
  "word_ok w \<longleftrightarrow> w \<noteq> [] \<and> (\<forall>c \<in> set w. c \<noteq> 0 \<and> \<not> ISSPACE c \<and> \<not> special c)"

definition cmd_text :: "u8 list list \<Rightarrow> u8 list" where
  "cmd_text ws = concat (map (\<lambda>w. w @ [32]) ws)"

fun render :: "u8 list option \<Rightarrow> u8 list list list \<Rightarrow> u8 list option \<Rightarrow> u8 list" where
  "render inp [] outp = []"
| "render inp (c # cs) outp = cmd_text c @ (case inp of None \<Rightarrow> [] | Some f \<Rightarrow> 60 # 32 # f @ [32])
     @ (if cs = [] then (case outp of None \<Rightarrow> [] | Some f \<Rightarrow> 62 # 32 # f) else 124 # 32 # render None cs outp)"

text \<open>Program, command line, input file, output file, and whether its output is piped to the next.\<close>

type_synonym description = "u8 list \<times> u8 list option \<times> u8 list option \<times> u8 list option \<times> bool"

definition describe :: "u8 list \<Rightarrow> process \<Rightarrow> description" where
  "describe buf q = (program q, str buf (command q), if flags q AND INFILE \<noteq> 0 then Some (infile q) else None,
     if flags q AND OUTFILE \<noteq> 0 then Some (outfile q) else None, flags q AND PIPE \<noteq> 0)"

fun expected :: "u8 list option \<Rightarrow> u8 list list list \<Rightarrow> u8 list option \<Rightarrow> description list" where
  "expected inp [] outp = []"
| "expected inp (c # cs) outp = (hd c, Some (cmd_text c), inp, if cs = [] then outp else None, cs \<noteq> []) # expected None cs outp"

lemma ISSPACE_blank [simp]: "ISSPACE 32"
  by (simp add: ISSPACE_def)

lemma special_not_blank [simp]: "\<not> special 32" "special 60" "special 62" "special 124"
  by (simp_all add: special_def)

lemma str_at: "0 \<notin> set s \<Longrightarrow> n = length A \<Longrightarrow> str (A @ s @ 0 # r) n = Some s"
  by (simp add: str_iff)

lemma word_token:
  assumes "word_ok w" "s = [] \<or> ISSPACE (hd s)"
  shows "dropWhile ISSPACE (w @ s) = w @ s" "takeWhile (\<lambda>c. \<not> ISSPACE c) (w @ s) = w"
proof -
  obtain x xs where w: "w = x # xs" using assms(1) by (cases w) (auto simp: word_ok_def)
  with assms(1) show "dropWhile ISSPACE (w @ s) = w @ s" by (simp add: word_ok_def)
  have "takeWhile (\<lambda>c. \<not> ISSPACE c) (w @ s) = w @ takeWhile (\<lambda>c. \<not> ISSPACE c) s"
    using assms(1) by (intro takeWhile_append2) (simp add: word_ok_def)
  then show "takeWhile (\<lambda>c. \<not> ISSPACE c) (w @ s) = w" using assms(2) by (cases s) auto
qed

lemma cmd_text_chars:
  assumes "\<forall>w \<in> set c. word_ok w"
  shows "0 \<notin> set (cmd_text c)" "\<forall>x \<in> set (cmd_text c). \<not> special x"
  using assms by (auto simp: cmd_text_def word_ok_def)

lemma cmd_text_token:
  assumes "\<forall>w \<in> set c. word_ok w" "c \<noteq> []"
  shows "dropWhile ISSPACE (cmd_text c) = cmd_text c" "takeWhile (\<lambda>x. \<not> ISSPACE x) (cmd_text c) = hd c"
    "cmd_text c \<noteq> []" "hd c \<noteq> []" "\<not> ISSPACE (hd (cmd_text c))"
proof -
  obtain w ws where c: "c = w # ws" using assms(2) by (cases c) auto
  then have t: "cmd_text c = w @ 32 # cmd_text ws" and h: "hd c = w" by (simp_all add: cmd_text_def)
  have w: "word_ok w" using assms(1) c by simp
  from word_token [OF w, of "32 # cmd_text ws"] show "dropWhile ISSPACE (cmd_text c) = cmd_text c" "takeWhile (\<lambda>x. \<not> ISSPACE x) (cmd_text c) = hd c"
    unfolding t h by simp_all
  show "cmd_text c \<noteq> []" "hd c \<noteq> []" unfolding t h using w by (auto simp: word_ok_def)
  show "\<not> ISSPACE (hd (cmd_text c))" unfolding t using w by (cases w) (auto simp: word_ok_def)
qed

text \<open>A file name after a redirection.\<close>

lemma Copy_Token_file:
  assumes "word_ok f" "n = length A" "0 \<notin> set s" "s = [] \<or> ISSPACE (hd s)" "length (A @ (32 # f @ s) @ 0 # r) \<le> BUFSIZE + 1"
  shows "Copy_Token (A @ (32 # f @ s) @ 0 # r) n = Some (f, Some (n + 1 + length f))"
proof -
  have "0 \<notin> set (32 # f @ s)" using assms(1,3) by (auto simp: word_ok_def)
  from str_at [OF this assms(2)] word_token [OF assms(1,4)] assms(1,5) show ?thesis
    by (simp add: Copy_Token_def Let_def word_ok_def)
qed

lemma first_index_after: "\<forall>x \<in> set a. \<not> P x \<Longrightarrow> first_index P (a @ b) = map_option (\<lambda>i. length a + i) (first_index P b)"
  by (cases "first_index P b"; induction a) auto

text \<open>The first part of the loop: \<open>B\<close> is the buffer up to the output redirection.\<close>

lemma input_part_render:
  assumes "\<forall>w \<in> set c. word_ok w" "pred_option word_ok inp" "0 \<notin> set Y" "Y = [] \<or> special (hd Y) \<and> hd Y \<noteq> 60" "cmd = length A"
    and "length (A @ (cmd_text c @ (case inp of None \<Rightarrow> [] | Some f \<Rightarrow> 60 # 32 # f @ [32]) @ Y) @ 0 # r) \<le> BUFSIZE + 1"
  shows "\<exists>f1 inf p B. input_part cmd (map_option (\<lambda>i. cmd + i)
        (first_index special (cmd_text c @ (case inp of None \<Rightarrow> [] | Some f \<Rightarrow> 60 # 32 # f @ [32]) @ Y)))
        (A @ (cmd_text c @ (case inp of None \<Rightarrow> [] | Some f \<Rightarrow> 60 # 32 # f @ [32]) @ Y) @ 0 # r)
      = Some (Inr (f1, inf, p, if Y = [] then None else Some (length B), B @ Y @ 0 # r))
    \<and> f1 = (if inp = None then 0 else INFILE) \<and> (inp \<noteq> None \<longrightarrow> inp = Some inf)
    \<and> (\<exists>Z. B = A @ cmd_text c @ Z \<and> (if inp = None then Z = [] else \<exists>Z'. Z = 0 # Z')) \<and> p = (if inp = None then cmd else length B)
    \<and> length B = length (A @ cmd_text c @ (case inp of None \<Rightarrow> [] | Some f \<Rightarrow> 60 # 32 # f @ [32]))"
proof (cases inp)
  case None
  have "first_index special (cmd_text c @ Y) = (if Y = [] then None else Some (length (cmd_text c)))"
    using assms(4) cmd_text_chars(2) [OF assms(1)] by (cases Y) (auto simp: first_index_after first_index_None)
  moreover have "(A @ cmd_text c @ Y @ 0 # r) ! length (A @ cmd_text c) = hd Y" if "Y \<noteq> []"
    using that by (cases Y) (simp_all add: nth_append)
  ultimately show ?thesis using None assms(4,5)
    by (intro exI [of _ 0] exI [of _ "[]"] exI [of _ cmd] exI [of _ "A @ cmd_text c"]) (auto simp: input_part_def)
next
  case (Some f)
  have f: "word_ok f" using assms(2) Some by simp
  let ?L = "A @ cmd_text c"
  let ?buf = "?L @ 60 # (32 # f @ 32 # Y) @ 0 # r"
  let ?buf1 = "(?L @ [0]) @ (32 # f @ 32 # Y) @ 0 # r"
  define B where "B = ?L @ 0 # 32 # f @ [32]"
  have idx: "first_index special (cmd_text c @ 60 # 32 # f @ 32 # Y) = Some (length (cmd_text c))"
    using cmd_text_chars(2) [OF assms(1)] by (simp add: first_index_after)
  have upd: "?buf[cmd + length (cmd_text c) := 0] = ?buf1"
    using list_update_length [of ?L 60 "(32 # f @ 32 # Y) @ 0 # r" 0] assms(5) by simp
  have at: "?buf ! (cmd + length (cmd_text c)) = 60"
    using nth_append_length [of ?L 60 "(32 # f @ 32 # Y) @ 0 # r"] assms(5) by simp
  have "0 \<notin> set (32 # Y)" using assms(3) by simp
  then have tok: "Copy_Token ?buf1 (cmd + length (cmd_text c) + 1) = Some (f, Some (cmd + length (cmd_text c) + 1 + 1 + length f))"
    using f assms(5,6) Some by (intro Copy_Token_file) simp_all
  have b1: "?buf1 = (?L @ 0 # 32 # f) @ (32 # Y) @ 0 # r" "?buf1 = B @ Y @ 0 # r" by (simp_all add: B_def)
  have "dropWhile ISSPACE (32 # Y) = Y" using assms(4) by (cases Y) (auto simp: special_def ISSPACE_def)
  then have tw: "takeWhile ISSPACE (32 # Y) = [32]" by (metis append_Cons append_Nil append_same_eq takeWhile_dropWhile_id)
  have "str ?buf1 (cmd + length (cmd_text c) + 1 + 1 + length f) = Some (32 # Y)"
    unfolding b1(1) using assms(3,5) by (intro str_at) simp_all
  from Strip_run [OF this] have strip: "Strip_Leading_Whitespace ?buf1 (cmd + length (cmd_text c) + 1 + 1 + length f) = Some (length B)"
    unfolding tw using assms(5) by (simp add: B_def)
  have "(B @ Y @ 0 # r) ! length B = (if Y = [] then 0 else hd Y)" by (cases Y) (simp_all add: nth_append)
  then have s: "(if ?buf1 ! length B = 62 \<or> ?buf1 ! length B = 124 then Some (length B) else None) = (if Y = [] then None else Some (length B))"
    unfolding b1(2) using assms(4) by (auto simp: special_def)
  have "input_part cmd (Some (cmd + length (cmd_text c))) ?buf
      = Some (Inr (INFILE, f, length B, if Y = [] then None else Some (length B), B @ Y @ 0 # r))"
    unfolding input_part_def option.case at Let_def upd tok strip bind.bind_lunit case_prod_conv s b1(2) [symmetric] by simp
  then show ?thesis using Some idx
    by (intro exI [of _ INFILE] exI [of _ f] exI [of _ "length B"] exI [of _ B]) (simp add: B_def)
qed

definition output_text :: "u8 list list list \<Rightarrow> u8 list option \<Rightarrow> u8 list" where
  "output_text cs outp = (if cs = [] then (case outp of None \<Rightarrow> [] | Some f \<Rightarrow> 62 # 32 # f) else 124 # 32 # render None cs outp)"

lemma output_part_render:
  assumes "pred_option word_ok outp" "length (B @ output_text cs outp @ 0 # r) \<le> BUFSIZE + 1"
  shows "output_part p (if output_text cs outp = [] then None else Some (length B)) (B @ output_text cs outp @ 0 # r)
    = Some (Inr (if cs \<noteq> [] then (PIPE, [], length B + 1, B @ 0 # 32 # render None cs outp @ 0 # r)
        else case outp of None \<Rightarrow> (0, [], p, B @ 0 # r)
          | Some g \<Rightarrow> (OUTFILE, g, length B + 1 + 1 + length g, B @ 0 # 32 # g @ 0 # r)))"
proof (cases "cs = []")
  case True
  show ?thesis
  proof (cases outp)
    case None
    with True show ?thesis by (simp add: output_text_def output_part_def)
  next
    case (Some g)
    have "Copy_Token ((B @ [0]) @ (32 # g @ []) @ 0 # r) (length B + 1) = Some (g, Some (length B + 1 + 1 + length g))"
      using assms True Some by (intro Copy_Token_file) (simp_all add: output_text_def)
    with True Some show ?thesis by (simp add: output_text_def output_part_def)
  qed
next
  case False
  then show ?thesis by (simp add: output_text_def output_part_def)
qed

lemma build_loop_end:
  "str buf c = Some [] \<Longrightarrow> build_loop n (Some c) procs buf = Some (Inr (Some c, procs, buf))"
  "build_loop n None procs buf = Some (Inr (None, procs, buf))"
  by (cases n; simp add: Strip_Leading_Whitespace_def)+

lemma Copy_Token_cmd:
  assumes "\<forall>w \<in> set c. word_ok w" "c \<noteq> []" "length (A @ cmd_text c @ 0 # r) \<le> BUFSIZE + 1"
  shows "Copy_Token (A @ cmd_text c @ 0 # r) (length A) = Some (hd c, Some (length A + length (hd c)))"
proof -
  have "length (hd c) \<le> length (cmd_text c)"
    using length_takeWhile_le [of "\<lambda>x. \<not> ISSPACE x" "cmd_text c"] cmd_text_token(2) [OF assms(1,2)] by simp
  then show ?thesis
    using str_at [OF cmd_text_chars(1) [OF assms(1)] refl, of A r] cmd_text_token [OF assms(1,2)] assms(3)
    by (simp add: Copy_Token_def Let_def)
qed

lemma redirect_bits:
  "INFILE AND INFILE \<noteq> 0" "(INFILE OR OUTFILE) AND INFILE \<noteq> 0" "(INFILE OR PIPE) AND INFILE \<noteq> 0"
  "OUTFILE AND INFILE = 0" "PIPE AND INFILE = 0" "INFILE AND OUTFILE = 0" "(INFILE OR OUTFILE) AND OUTFILE \<noteq> 0"
  "(INFILE OR PIPE) AND OUTFILE = 0" "OUTFILE AND OUTFILE \<noteq> 0" "PIPE AND OUTFILE = 0" "INFILE AND PIPE = 0"
  "(INFILE OR OUTFILE) AND PIPE = 0" "(INFILE OR PIPE) AND PIPE \<noteq> 0" "OUTFILE AND PIPE = 0" "PIPE AND PIPE \<noteq> 0"
  by (simp_all add: INFILE_def OUTFILE_def PIPE_def)

lemma render_chars:
  assumes "\<forall>c \<in> set cs. \<forall>w \<in> set c. word_ok w" "pred_option word_ok inp" "pred_option word_ok outp"
  shows "0 \<notin> set (render inp cs outp)"
  using assms
proof (induction cs arbitrary: inp)
  case (Cons c cs)
  have "0 \<notin> set f" if "word_ok f" for f using that by (auto simp: word_ok_def)
  with Cons cmd_text_chars(1) [of c] show ?case by (auto split: option.split)
qed simp

lemma build_loop_render:
  assumes "cs \<noteq> []" "\<forall>c \<in> set cs. c \<noteq> [] \<and> (\<forall>w \<in> set c. word_ok w)" "pred_option word_ok inp" "pred_option word_ok outp"
    and "length cs \<le> n" "\<forall>x \<in> set sp. ISSPACE x" "length (pre @ (sp @ render inp cs outp) @ 0 # r) \<le> BUFSIZE + 1"
  shows "\<exists>cmd' procs' buf'. build_loop n (Some (length pre)) procs (pre @ (sp @ render inp cs outp) @ 0 # r)
      = Some (Inr (cmd', procs @ procs', buf')) \<and> (case cmd' of None \<Rightarrow> True | Some c \<Rightarrow> str buf' c = Some [])
    \<and> take (length pre) buf' = pre \<and> map (describe buf') procs' = expected inp cs outp"
  using assms
proof (induction cs arbitrary: n inp pre sp procs r)
  case (Cons c cs)
  define Y where "Y = output_text cs outp"
  define line where "line = cmd_text c @ (case inp of None \<Rightarrow> [] | Some f \<Rightarrow> 60 # 32 # f @ [32]) @ Y"
  define A where "A = pre @ sp"
  define cmd where "cmd = length A"
  have ren: "render inp (c # cs) outp = line" by (simp add: line_def Y_def output_text_def)
  have c: "c \<noteq> []" "\<forall>w \<in> set c. word_ok w" using Cons.prems(2) by simp_all
  obtain n' where n: "n = Suc n'" "length cs \<le> n'" using Cons.prems(5) by (cases n) auto
  have nz: "0 \<notin> set (sp @ line)" "0 \<notin> set line"
    using render_chars [of "c # cs" inp outp, unfolded ren] Cons.prems(2-4,6) by (auto simp: ISSPACE_def)
  then have Y0: "0 \<notin> set Y" by (auto simp: line_def)
  have Yh: "Y = [] \<or> special (hd Y) \<and> hd Y \<noteq> 60" by (auto simp: Y_def output_text_def split: option.split)
  let ?buf = "A @ line @ 0 # r"
  have bufA: "pre @ (sp @ render inp (c # cs) outp) @ 0 # r = ?buf" unfolding ren A_def by simp
  have len: "length ?buf \<le> BUFSIZE + 1" using Cons.prems(7) unfolding bufA .
  have lh: "line \<noteq> []" "\<not> ISSPACE (hd line)" using cmd_text_token(3,5) [OF c(2,1)] by (auto simp: line_def)
  have "str ?buf (length pre) = Some (sp @ line)"
    using str_at [OF nz(1), of "length pre" pre r] by (simp add: A_def)
  moreover have "takeWhile ISSPACE (sp @ line) = sp" using Cons.prems(6) lh by (cases line) (auto simp: takeWhile_append)
  ultimately have strip: "Strip_Leading_Whitespace ?buf (length pre) = Some cmd"
    by (simp add: Strip_Leading_Whitespace_def cmd_def A_def)
  have strl: "str ?buf cmd = Some line" using nz(2) by (intro str_at) (simp_all add: cmd_def)
  obtain f1 inf p B where inp: "input_part cmd (map_option (\<lambda>i. cmd + i) (first_index special line)) ?buf
      = Some (Inr (f1, inf, p, if Y = [] then None else Some (length B), B @ Y @ 0 # r))"
    "f1 = (if inp = None then 0 else INFILE)" "inp \<noteq> None \<longrightarrow> inp = Some inf"
    "\<exists>Z. B = A @ cmd_text c @ Z \<and> (if inp = None then Z = [] else \<exists>Z'. Z = 0 # Z')" "p = (if inp = None then cmd else length B)"
    "length B = length (A @ cmd_text c @ (case inp of None \<Rightarrow> [] | Some f \<Rightarrow> 60 # 32 # f @ [32]))"
    using input_part_render [OF c(2) Cons.prems(3) Y0 Yh cmd_def, folded line_def, OF len] by blast
  have lenB: "length (B @ Y @ 0 # r) \<le> BUFSIZE + 1" using len inp(6) by (simp add: line_def)
  have AB: "length A + length (cmd_text c) \<le> length B" using inp(6) by simp
  obtain f2 outf p2 W where out: "output_part p (if Y = [] then None else Some (length B)) (B @ Y @ 0 # r)
      = Some (Inr (f2, outf, p2, B @ 0 # W))"
    "f2 = (if cs \<noteq> [] then PIPE else case outp of None \<Rightarrow> 0 | Some _ \<Rightarrow> OUTFILE)" "cs = [] \<and> outp \<noteq> None \<longrightarrow> outp = Some outf"
    "cs \<noteq> [] \<longrightarrow> p2 = length B + 1 \<and> W = 32 # render None cs outp @ 0 # r"
    "cs = [] \<longrightarrow> (if outp = None then p2 = p \<and> W = r else p2 \<noteq> cmd \<and> str (B @ 0 # W) p2 = Some [])"
    "length (B @ 0 # W) \<le> BUFSIZE + 1"
  proof (cases "cs = []")
    case True
    show ?thesis
    proof (cases outp)
      case None
      with True output_part_render [OF Cons.prems(4), of B cs r p, folded Y_def, OF lenB] lenB show ?thesis
        by (intro that [of 0 "[]" p r]) (simp_all add: Y_def output_text_def)
    next
      case (Some g)
      have "str ((B @ 0 # 32 # g) @ [] @ 0 # r) (length B + 1 + 1 + length g) = Some []" by (intro str_at) simp_all
      with True Some output_part_render [OF Cons.prems(4), of B cs r p, folded Y_def, OF lenB] lenB AB show ?thesis
        by (intro that [of OUTFILE g "length B + 1 + 1 + length g" "32 # g @ 0 # r"]) (simp_all add: Y_def output_text_def cmd_def)
    qed
  next
    case False
    with output_part_render [OF Cons.prems(4), of B cs r p, folded Y_def, OF lenB] lenB show ?thesis
      by (intro that [of PIPE "[]" "length B + 1" "32 # render None cs outp @ 0 # r"]) (simp_all add: Y_def output_text_def)
  qed
  obtain W' where W': "B @ 0 # W = A @ cmd_text c @ 0 # W'" using inp(4) by (auto split: if_splits)
  have tok: "Copy_Token (B @ 0 # W) cmd = Some (hd c, Some (cmd + length (hd c)))"
    using Copy_Token_cmd [OF c(2,1), of A W'] out(6) unfolding W' cmd_def by simp
  let ?q = "\<lparr>flags = f1 OR f2, program = hd c, infile = inf, outfile = outf, command = cmd\<rparr>"
  have step: "build_loop n (Some (length pre)) procs ?buf
      = build_loop n' (if p2 = cmd then None else Some p2) (procs @ [?q]) (B @ 0 # W)"
    using strip strl lh(1) inp(1) out(1) tok by (simp add: n(1))
  have q: "describe buf' ?q = (hd c, Some (cmd_text c), inp, if cs = [] then outp else None, cs \<noteq> [])"
    if "str buf' cmd = Some (cmd_text c)" for buf'
    using that inp(2,3) out(2,3) redirect_bits by (cases inp; cases outp; cases "cs = []") (auto simp: describe_def)
  have qB: "str (B @ 0 # W) cmd = Some (cmd_text c)"
    unfolding W' using cmd_text_chars(1) [OF c(2)] by (intro str_at) (simp_all add: cmd_def)
  have preB: "take (length pre) (B @ 0 # W) = pre" unfolding W' by (simp add: A_def)
  show ?case
  proof (cases "cs = []")
    case True
    have "\<exists>cmd'. build_loop n' (if p2 = cmd then None else Some p2) (procs @ [?q]) (B @ 0 # W) = Some (Inr (cmd', procs @ [?q], B @ 0 # W))
        \<and> (case cmd' of None \<Rightarrow> True | Some c \<Rightarrow> str (B @ 0 # W) c = Some [])"
    proof (cases "p2 = cmd")
      case True
      then show ?thesis by (simp add: build_loop_end(2))
    next
      case False
      have "str (B @ 0 # W) p2 = Some []"
      proof (cases "outp = None")
        case True
        with \<open>cs = []\<close> out(5) False inp(5) have "p2 = length B" "W = r" by (auto split: if_splits)
        then show ?thesis using str_at [of "[]" "length B" B r] by simp
      qed (use out(5) \<open>cs = []\<close> in simp)
      with False show ?thesis by (simp add: build_loop_end(1))
    qed
    then show ?thesis
      unfolding bufA step using True q [OF qB] preB by (auto intro!: exI [of _ "[?q]"])
  next
    case False
    have "length ((B @ [0]) @ ([32] @ render None cs outp) @ 0 # r) \<le> BUFSIZE + 1" using out(4,6) False by simp
    from Cons.IH [OF False _ _ Cons.prems(4) n(2) _ this, of "procs @ [?q]"] Cons.prems(2) obtain cmd' procs' buf' where
      ih: "build_loop n' (Some (length (B @ [0]))) (procs @ [?q]) ((B @ [0]) @ ([32] @ render None cs outp) @ 0 # r)
        = Some (Inr (cmd', (procs @ [?q]) @ procs', buf'))" "case cmd' of None \<Rightarrow> True | Some c \<Rightarrow> str buf' c = Some []"
        "take (length (B @ [0])) buf' = B @ [0]" "map (describe buf') procs' = expected None cs outp"
      by auto
    have p2: "p2 = length (B @ [0])" "p2 \<noteq> cmd" "B @ 0 # W = (B @ [0]) @ ([32] @ render None cs outp) @ 0 # r"
      using out(4) False AB by (simp_all add: cmd_def)
    have "take (length (B @ [0])) buf' = take (length (B @ [0])) (B @ 0 # W)" using ih(3) by simp
    from str_cong_take [OF qB _ this] AB have "str buf' cmd = Some (cmd_text c)" by (simp add: cmd_def)
    moreover have "take (length pre) buf' = pre"
      using arg_cong [OF ih(3), of "take (length pre)"] inp(4) by (auto simp: A_def min_def)
    ultimately show ?thesis
      unfolding bufA step using p2 ih q by (intro exI [of _ cmd'] exI [of _ "?q # procs'"] exI [of _ buf']) (simp add: False)
  qed
qed simp

lemma length_expected [simp]: "length (expected inp cs outp) = length cs"
  by (induction cs arbitrary: inp) auto

lemma expected_nth:
  "j < length cs \<Longrightarrow> expected inp cs outp ! j = (hd (cs ! j), Some (cmd_text (cs ! j)), if j = 0 then inp else None,
     if j + 1 = length cs then outp else None, j + 1 < length cs)"
proof (induction cs arbitrary: inp j)
  case (Cons c cs)
  then show ?case by (cases j) auto
qed simp

lemma flags_ok_expected:
  assumes "map (describe buf) procs = expected inp cs outp"
  shows "flags_ok procs"
proof -
  have l: "length procs = length cs" using arg_cong [OF assms, of length] by simp
  have d: "describe buf (procs ! j) = (hd (cs ! j), Some (cmd_text (cs ! j)), if j = 0 then inp else None,
     if j + 1 = length cs then outp else None, j + 1 < length cs)" if "j < length procs" for j
    using arg_cong [OF assms, of "\<lambda>xs. xs ! j"] that l expected_nth [of j cs inp outp] by simp
  have "(0 < j \<longrightarrow> flags (procs ! j) AND INFILE = 0) \<and> (j + 1 < length procs \<longrightarrow> flags (procs ! j) AND OUTFILE = 0)
     \<and> (j + 1 = length procs \<longrightarrow> flags (procs ! j) AND PIPE = 0)" if "j < length procs" for j
    using d [OF that] l by (auto simp: describe_def split: if_splits)
  then show ?thesis by (simp add: flags_ok_def)
qed

text \<open>
  Property C17.  Every pipeline of one to five commands, written with blanks between its words, \<open>|\<close>
  between its commands and optional files for its input and output, is parsed to exactly its
  commands if the line fits into the buffer: one process for each command, with the first word as
  its program, the words of the command and nothing else as its command line, the files at the
  first and the last process, and a pipe after each process but the last.
\<close>

theorem Build_Pipeline_parses:
  assumes "cs \<noteq> []" and "length cs \<le> MAXPROC" and "\<forall>c \<in> set cs. c \<noteq> [] \<and> (\<forall>w \<in> set c. word_ok w)"
    and "pred_option word_ok inp" and "pred_option word_ok outp" and "length (render inp cs outp @ 0 # r) \<le> BUFSIZE + 1"
  shows "\<exists>procs buf'. Build_Pipeline 0 (render inp cs outp @ 0 # r) = Some (Inr (procs, buf'))
    \<and> map (describe buf') procs = expected inp cs outp"
proof -
  obtain cmd' procs buf' where b: "build_loop MAXPROC (Some 0) [] (render inp cs outp @ 0 # r) = Some (Inr (cmd', procs, buf'))"
    "case cmd' of None \<Rightarrow> True | Some c \<Rightarrow> str buf' c = Some []" "map (describe buf') procs = expected inp cs outp"
    using build_loop_render [OF assms(1,3-5,2), of "[]" "[]" r "[]"] assms(6) by auto
  from flags_ok_expected [OF b(3)] b(1,2) have "Build_Pipeline 0 (render inp cs outp @ 0 # r) = Some (Inr (procs, buf'))"
    by (cases cmd') (simp_all add: Build_Pipeline_def flags_ok_check)
  with b(3) show ?thesis by blast
qed

lemma Build_Pipeline_parses_witness:
  "\<exists>procs buf'. Build_Pipeline 0 (map of_char ''a -x < f | b > g'' @ [0, 7]) = Some (Inr (procs, buf'))
     \<and> map (describe buf') procs = [([97], Some [97, 32, 45, 120, 32], Some [102], None, True), ([98], Some [98, 32], None, Some [103], False)]"
proof -
  let ?cs = "[[[97], [45, 120]], [[98]]] :: u8 list list list"
  have ok: "\<forall>c \<in> set ?cs. c \<noteq> [] \<and> (\<forall>w \<in> set c. word_ok w)" "pred_option word_ok (Some [102])" "pred_option word_ok (Some [103])"
    by (simp_all add: word_ok_def ISSPACE_def special_def)
  have "render (Some [102]) ?cs (Some [103]) = map of_char ''a -x < f | b > g''" by (simp add: cmd_text_def)
  with Build_Pipeline_parses [of ?cs "Some [102]" "Some [103]" "[7]", OF _ _ ok]
  show ?thesis by (simp add: MAXPROC_def BUFSIZE_def cmd_text_def)
qed

end
