(* ===== verification/Shell_Main.thy ===== *)
theory Shell_Main
  imports Shell
begin

text \<open>
  The main loop of the shell, \<open>src/user/shell.c\<close>, on the system calls of theory \<open>Libuser\<close>: from
  the keys that are typed to the programs that are started.
\<close>

record shell =
  sh_path :: "u8 list"
  sh_exitCodes :: bool
  sh_buf :: "u8 list"

definition msg_pipes :: "u8 list" where
  "msg_pipes = map of_char ''Error: pipes not supported yet\<newline>''"
definition msg_redirection :: "u8 list" where
  "msg_redirection = map of_char ''Error: I/O redirection not supported yet\<newline>''"
definition fmt_no_spawn :: "u8 list" where
  "fmt_no_spawn = map of_char ''Could not spawn process: %s\<newline>''"
definition fmt_exit_code :: "u8 list" where
  "fmt_exit_code = map of_char ''Exit code was %d\<newline>''"
definition msg_gray :: "u8 list" where
  "msg_gray = 0x1B # map of_char ''[37m''"
definition msg_prompt :: "u8 list" where
  "msg_prompt = 0x1B # map of_char ''[1;36m$'' @ 0x1B # map of_char ''[37m ''"
definition msg_done :: "u8 list" where
  "msg_done = map of_char ''DONE!\<newline>''"
definition cmd_exit :: "u8 list" where "cmd_exit = map of_char ''exit''"
definition cmd_pid :: "u8 list" where "cmd_pid = map of_char ''pid''"
definition cmd_exitCodes :: "u8 list" where "cmd_exitCodes = map of_char ''exitCodes''"
definition cmd_path :: "u8 list" where "cmd_path = map of_char ''path=''"

definition Spawn_Single_Command ::
  "'s sys \<Rightarrow> u8 list list \<Rightarrow> process list \<Rightarrow> u8 list \<Rightarrow> shell \<Rightarrow> 's \<Rightarrow> 's option" where
  "Spawn_Single_Command sys strerrTable procList buf sh s =
     (if length procList > 1 then Print sys msg_pipes [] s
      else if flags (procList ! 0) AND (INFILE OR OUTFILE) \<noteq> 0 then Print sys msg_redirection [] s
      else do {
        cmd \<leftarrow> str buf (command (procList ! 0));
        (rc, s) \<leftarrow> Spawn_With_Path sys (program (procList ! 0)) cmd (sh_path sh) s;
        (if rc < 0 then Print sys fmt_no_spawn [VStr (Some (Get_Error_String strerrTable rc))] s
         else do {
           (exitCode, s) \<leftarrow> Wait sys rc s;
           (if sh_exitCodes sh then Print sys fmt_exit_code [VInt (word_of_int exitCode)] s else Some s) })
      })"

text \<open>What is done with the command at index \<open>cmd\<close>; the first result says whether the shell ends.\<close>

definition run_command ::
  "'s sys \<Rightarrow> u8 list list \<Rightarrow> nat \<Rightarrow> shell \<Rightarrow> 's \<Rightarrow> (bool \<times> shell \<times> 's) option" where
  "run_command sys strerrTable cmd sh s = do {
     line \<leftarrow> str (sh_buf sh) cmd;
     (if line = cmd_exit then Some (True, sh, s)
      else if line = cmd_pid then do {
        (rc, s) \<leftarrow> Get_PID sys s;
        s \<leftarrow> Print sys [37, 100, 10] [VInt (word_of_int rc)] s;
        Some (False, sh, s) }
      else if line = cmd_exitCodes then Some (False, sh\<lparr>sh_exitCodes := True\<rparr>, s)
      else if take 5 line = cmd_path then do {
        _ \<leftarrow> kassert (length (drop 5 line) \<le> BUFSIZE);
        Some (False, sh\<lparr>sh_path := drop 5 line\<rparr>, s) }
      else if line = [] then Some (False, sh, s)
      else do {
        r \<leftarrow> Build_Pipeline cmd (sh_buf sh);
        (case r of
           Inl e \<Rightarrow> do { s \<leftarrow> Print sys e [] s; Some (False, sh, s) }
         | Inr (procList, buf) \<Rightarrow>
             (if procList = [] then Some (False, sh\<lparr>sh_buf := buf\<rparr>, s)
              else do {
                s \<leftarrow> Spawn_Single_Command sys strerrTable procList buf sh s;
                Some (False, sh\<lparr>sh_buf := buf\<rparr>, s) })) })
   }"

text \<open>One round of the loop of \<open>main\<close>, with \<open>s_echo\<close> as it is initially.\<close>

definition shell_round :: "'s sys \<Rightarrow> u8 list list \<Rightarrow> shell \<Rightarrow> 's \<Rightarrow> (bool \<times> shell \<times> 's) option" where
  "shell_round sys strerrTable sh s = do {
     s \<leftarrow> Print sys msg_prompt [] s;
     (buf, s) \<leftarrow> Read_Line sys True (sh_buf sh) (BUFSIZE + 1) s;
     cmd \<leftarrow> Strip_Leading_Whitespace buf 0;
     buf \<leftarrow> Trim_Newline buf cmd;
     run_command sys strerrTable cmd (sh\<lparr>sh_buf := buf\<rparr>) s
   }"

partial_function (option) main_loop :: "'s sys \<Rightarrow> u8 list list \<Rightarrow> shell \<Rightarrow> 's \<Rightarrow> 's option" where
  "main_loop sys strerrTable sh s = do {
     (quit, sh, s) \<leftarrow> shell_round sys strerrTable sh s;
     (if quit then Some s else main_loop sys strerrTable sh s)
   }"

definition main :: "'s sys \<Rightarrow> u8 list list \<Rightarrow> u8 list \<Rightarrow> 's \<Rightarrow> (int \<times> 's) option" where
  "main sys strerrTable commandBuf s = do {
     s \<leftarrow> Print sys msg_gray [] s;
     s \<leftarrow> main_loop sys strerrTable \<lparr>sh_path = DEFAULT_PATH, sh_exitCodes = False, sh_buf = commandBuf\<rparr> s;
     (_, s) \<leftarrow> Print_String sys msg_done s;
     Some (0, s)
   }"

section \<open>The commands\<close>

text \<open>Text that leaves the console in its normal state, and formats that are such a text.\<close>

definition printable :: "u8 list \<Rightarrow> bool" where
  "printable bs \<longleftrightarrow> 0 \<notin> set bs \<and> esc_text bs Plain = Some Plain"

definition literal :: "u8 list \<Rightarrow> bool" where
  "literal t \<longleftrightarrow> 37 \<notin> set t \<and> printable t"

lemma printable_plain: "0 \<notin> set bs \<Longrightarrow> 0x1B \<notin> set bs \<Longrightarrow> printable bs"
  by (simp add: printable_def esc_text_plain)

lemma printable_append: "printable xs \<Longrightarrow> printable ys \<Longrightarrow> printable (xs @ ys)"
  by (simp add: printable_def)

lemma printable_decimal: "printable (signed_decimal v)"
  using signed_decimal_chars(2) [of v] by (intro printable_plain) (auto simp: is_digit_def)

lemma msgs_literal:
  "literal msg_infile" "literal msg_outfile" "literal msg_command" "literal msg_too_many" "literal msg_first"
  "literal msg_last" "literal msg_unterminated" "literal msg_pipes" "literal msg_redirection"
  by (simp_all add: msg_infile_def msg_outfile_def msg_command_def msg_too_many_def msg_first_def msg_last_def
      msg_unterminated_def msg_pipes_def msg_redirection_def literal_def printable_plain)

lemma prompts_literal: "literal msg_gray" "literal msg_prompt"
  by (simp_all add: msg_gray_def msg_prompt_def literal_def printable_def esc_step_def is_digit_def)

text \<open>The calls return and keep \<open>Q\<close>.\<close>

definition prints :: "'s sys \<Rightarrow> ('s \<Rightarrow> bool) \<Rightarrow> bool" where
  "prints sys Q \<longleftrightarrow> (\<forall>s fmt va r ns bs. Q s \<and> Format_Output text_sink fmt va [] = Some (r, ns, bs) \<and> printable bs \<longrightarrow>
     (\<exists>s'. Print sys fmt va s = Some s' \<and> Q s'))"

definition calls_return :: "'s sys \<Rightarrow> ('s \<Rightarrow> bool) \<Rightarrow> bool" where
  "calls_return sys Q \<longleftrightarrow> (\<forall>s p c. Q s \<longrightarrow> (\<exists>r s'. Spawn_Program sys p c s = Some (r, s') \<and> Q s'))
     \<and> (\<forall>s i. Q s \<longrightarrow> (\<exists>r s'. Wait sys i s = Some (r, s') \<and> Q s')) \<and> (\<forall>s. Q s \<longrightarrow> (\<exists>r s'. Get_PID sys s = Some (r, s') \<and> Q s'))"

lemma prints_text:
  assumes "prints sys Q" "Q s" "text_loop fmt va = Some (ns, bs)" "printable bs"
  shows "\<exists>s'. Print sys fmt va s = Some s' \<and> Q s'"
proof -
  from assms(3) have "Format_Output text_sink fmt va [] = Some (0, ns, bs)" by (simp add: Format_Output_def)
  with assms(1,2,4) show ?thesis unfolding prints_def by blast
qed

lemma prints_literal: "prints sys Q \<Longrightarrow> Q s \<Longrightarrow> literal t \<Longrightarrow> \<exists>s'. Print sys t [] s = Some s' \<and> Q s'"
  by (rule prints_text [OF _ _ text_loop_literal]) (simp_all add: literal_def)

lemma spawn_first_returns:
  "calls_return sys Q \<Longrightarrow> Q s \<Longrightarrow> \<exists>r s'. spawn_first sys c ns rc s = Some (r, s') \<and> Q s'"
proof (induction ns arbitrary: rc s)
  case (Cons n ns)
  from Cons.prems obtain r s1 where s1: "Spawn_Program sys n c s = Some (r, s1)" "Q s1"
    unfolding calls_return_def by blast
  from Cons.IH [OF Cons.prems(1) s1(2), of r] s1 show ?case by auto
qed simp

lemma path_dirs_length: "d \<in> set (path_dirs path) \<Longrightarrow> length d \<le> length path"
proof -
  have "d \<in> set (split_on c path) \<Longrightarrow> length d \<le> length path" for c
  proof (induction path arbitrary: d)
    case (Cons x path)
    obtain e es where e: "split_on c path = e # es" using split_on_ne [of c path] by (cases "split_on c path") auto
    have "length e \<le> length path" "x \<in> set es \<Longrightarrow> length x \<le> length path" for x using Cons.IH [unfolded e] by auto
    with Cons.prems e show ?case by (auto split: if_splits intro: le_SucI)
  qed simp
  from this [of 58] show "d \<in> set (path_dirs path) \<Longrightarrow> length d \<le> length path" by (simp add: path_dirs_def)
qed

text \<open>A path that was typed fits into \<open>exeName\<close> together with a program that was typed.\<close>

definition shell_ok :: "shell \<Rightarrow> bool" where
  "shell_ok sh \<longleftrightarrow> length (sh_path sh) + 5 \<le> BUFSIZE \<and> length (sh_buf sh) = BUFSIZE + 1"

lemma Spawn_With_Path_returns:
  assumes "calls_return sys Q" "Q s" "length path + 5 \<le> BUFSIZE" "length prog \<le> BUFSIZE"
  shows "\<exists>r s'. Spawn_With_Path sys prog cmd path s = Some (r, s') \<and> Q s'"
proof -
  have d: "\<forall>d \<in> set (path_dirs path). length d + length prog + 5 < exeName_size"
    using path_dirs_length [of _ path] assms(3,4) by (fastforce simp: exeName_size_def CMDLEN_def BUFSIZE_def)
  show ?thesis unfolding Spawn_With_Path_first [OF d] by (rule spawn_first_returns [OF assms(1,2)])
qed

definition table_ok :: "u8 list list \<Rightarrow> bool" where
  "table_ok table \<longleftrightarrow> (\<forall>e \<in> set table. length e < 2 ^ 31 \<and> 0 \<notin> set e \<and> 0x1B \<notin> set e)"

lemma Get_Error_String_ok: "table_ok table \<Longrightarrow> length (Get_Error_String table r) < 2 ^ 31 \<and> printable (Get_Error_String table r)"
  by (auto simp: Get_Error_String_def Let_def unknown_error_def table_ok_def intro!: printable_plain)

lemma fmt_texts:
  "length t < 2 ^ 31 \<Longrightarrow> printable t \<Longrightarrow> \<exists>bs. text_loop fmt_no_spawn [VStr (Some t)] = Some ([], bs) \<and> printable bs"
  "\<exists>bs. text_loop fmt_exit_code [VInt v] = Some ([], bs) \<and> printable bs"
  "\<exists>bs. text_loop [37, 100, 10] [VInt v] = Some ([], bs) \<and> printable bs"
proof -
  have nl: "printable [10]" by (simp add: printable_def esc_step_def)
  define xs ys :: "u8 list" where "xs = map of_char ''Could not spawn process: ''" and "ys = map of_char ''Exit code was ''"
  have p: "printable xs" "printable ys" by (simp_all add: xs_def ys_def printable_plain)
  have f: "fmt_no_spawn = xs @ [37, 115, 10]" "fmt_exit_code = ys @ [37, 100, 10]" "37 \<notin> set xs" "37 \<notin> set ys"
    by (simp_all add: xs_def ys_def fmt_no_spawn_def fmt_exit_code_def)
  show "\<exists>bs. text_loop fmt_no_spawn [VStr (Some t)] = Some ([], bs) \<and> printable bs" if "length t < 2 ^ 31" "printable t"
    unfolding f(1) text_loop_literal_append [OF f(3)] text_loop_s [OF that(1)]
    using printable_append [OF printable_append [OF p(1) that(2)] nl]
    by (simp add: text_loop_simps del: Fmtout.format_loop.simps)
  show "\<exists>bs. text_loop fmt_exit_code [VInt v] = Some ([], bs) \<and> printable bs"
    unfolding f(2) text_loop_literal_append [OF f(4)] text_loop_d
    using printable_append [OF printable_append [OF p(2) printable_decimal] nl]
    by (simp add: text_loop_simps del: Fmtout.format_loop.simps)
  show "\<exists>bs. text_loop [37, 100, 10] [VInt v] = Some ([], bs) \<and> printable bs"
    using printable_append [OF printable_decimal nl]
    by (simp add: text_loop_simps del: Fmtout.format_loop.simps)
qed

lemma Spawn_Single_Command_ok:
  assumes "prints sys Q" "calls_return sys Q" "Q s" "shell_ok sh" "length buf = BUFSIZE + 1"
    and "procs \<noteq> []" "\<forall>q \<in> set procs. proc_ok buf (length buf) q" "table_ok table"
  shows "\<exists>s'. Spawn_Single_Command sys table procs buf sh s = Some s' \<and> Q s'"
proof -
  have "procs ! 0 \<in> set procs" using assms(6) by simp
  with assms(7) obtain t where t: "str buf (command (procs ! 0)) = Some t" "command (procs ! 0) + length t < length buf"
    "program (procs ! 0) = takeWhile (\<lambda>x. \<not> ISSPACE x) t" unfolding proc_ok_def by blast
  have "length (program (procs ! 0)) \<le> BUFSIZE"
    using t(2,3) assms(5) length_takeWhile_le [of "\<lambda>x. \<not> ISSPACE x" t] by simp
  then obtain r s1 where s1: "Spawn_With_Path sys (program (procs ! 0)) t (sh_path sh) s = Some (r, s1)" "Q s1"
    using Spawn_With_Path_returns [OF assms(2,3)] assms(4) unfolding shell_ok_def by blast
  from Get_Error_String_ok [OF assms(8)] have e: "length (Get_Error_String table r) < 2 ^ 31" "printable (Get_Error_String table r)" by simp_all
  obtain bs where "text_loop fmt_no_spawn [VStr (Some (Get_Error_String table r))] = Some ([], bs)" "printable bs" using fmt_texts(1) [OF e] by blast
  from prints_text [OF assms(1) s1(2) this] obtain s2 where
    s2: "Print sys fmt_no_spawn [VStr (Some (Get_Error_String table r))] s1 = Some s2" "Q s2" by blast
  obtain x s3 where s3: "Wait sys r s1 = Some (x, s3)" "Q s3" using assms(2) s1(2) unfolding calls_return_def by blast
  obtain bs where "text_loop fmt_exit_code [VInt (word_of_int x)] = Some ([], bs)" "printable bs" using fmt_texts(2) by blast
  from prints_text [OF assms(1) s3(2) this] obtain s4 where s4: "Print sys fmt_exit_code [VInt (word_of_int x)] s3 = Some s4" "Q s4" by blast
  show ?thesis
    using prints_literal [OF assms(1,3) msgs_literal(8)] prints_literal [OF assms(1,3) msgs_literal(9)] t(1) s1 s2 s3 s4
    by (simp add: Spawn_Single_Command_def)
qed

text \<open>Every error of the parser is a text that is printed as it is.\<close>

lemma part_errors:
  "input_part cmd s buf = Some (Inl e) \<Longrightarrow> e = msg_infile" "output_part p s buf = Some (Inl e) \<Longrightarrow> e = msg_outfile"
  by (auto simp: input_part_def output_part_def bind_eq_Some_conv Let_def split: option.splits if_splits)

lemma build_loop_errors: "build_loop n cmd procs buf = Some (Inl e) \<Longrightarrow> e \<in> {msg_infile, msg_outfile, msg_command}"
proof (induction n arbitrary: cmd procs buf)
  case (Suc n)
  show ?case
  proof (cases cmd)
    case (Some c)
    note h = Suc.prems [unfolded Some]
    from h obtain cmd' line where c: "Strip_Leading_Whitespace buf c = Some cmd'" "str buf cmd' = Some line"
      by (auto simp: bind_eq_Some_conv)
    with h have ne: "line \<noteq> []" by auto
    with h c obtain r1 where r1: "input_part cmd' (map_option (\<lambda>i. cmd' + i) (first_index special line)) buf = Some r1"
      by (auto simp: bind_eq_Some_conv)
    note h1 = h [unfolded build_loop.simps c r1 bind.bind_lunit if_not_P [OF ne]]
    show ?thesis
    proof (cases r1)
      case (Inl e')
      with h1 r1 part_errors(1) show ?thesis by fastforce
    next
      case (Inr x)
      obtain f1 inp p s b1 where x: "x = (f1, inp, p, s, b1)" by (cases x)
      with h1 Inr obtain r2 where r2: "output_part p s b1 = Some r2" by (auto simp: bind_eq_Some_conv)
      note h2 = h1 [unfolded Inr x sum.case case_prod_conv r2 bind.bind_lunit]
      show ?thesis
      proof (cases r2)
        case (Inl e')
        with h2 r2 part_errors(2) show ?thesis by fastforce
      next
        case inr: (Inr y)
        obtain f2 outp p2 b2 where y: "y = (f2, outp, p2, b2)" by (cases y)
        with h2 inr obtain prog en where t: "Copy_Token b2 cmd' = Some (prog, en)" by (auto simp: bind_eq_Some_conv)
        from h2 [unfolded inr y sum.case case_prod_conv t bind.bind_lunit] show ?thesis
          using Suc.IH by (auto split: if_splits)
      qed
    qed
  qed (use Suc.prems in simp)
qed simp

lemma check_loop_errors: "check_loop i procs = Some e \<Longrightarrow> e \<in> {msg_first, msg_last, msg_unterminated}"
  by (induction i procs rule: check_loop.induct) (auto split: if_splits)

lemma Build_Pipeline_errors: "Build_Pipeline cmd buf = Some (Inl e) \<Longrightarrow> literal e"
proof -
  assume h: "Build_Pipeline cmd buf = Some (Inl e)"
  then obtain r where r: "build_loop MAXPROC (Some cmd) [] buf = Some r" by (auto simp: Build_Pipeline_def bind_eq_Some_conv)
  have "e \<in> {msg_infile, msg_outfile, msg_command, msg_too_many, msg_first, msg_last, msg_unterminated}"
  proof (cases r)
    case (Inl e')
    with h r build_loop_errors [of MAXPROC "Some cmd" "[]" buf] show ?thesis by (auto simp: Build_Pipeline_def)
  next
    case (Inr x)
    obtain cmd' procs buf' where x: "x = (cmd', procs, buf')" by (cases x)
    from h r Inr x obtain rest where "(case cmd' of None \<Rightarrow> Some [] | Some c \<Rightarrow> str buf' c) = Some rest"
      by (auto simp: Build_Pipeline_def bind_eq_Some_conv)
    with h r Inr x have "(if rest \<noteq> [] then Some (Inl msg_too_many)
        else case check_loop 0 procs of Some e \<Rightarrow> Some (Inl e) | None \<Rightarrow> Some (Inr (procs, buf'))) = Some (Inl e)"
      by (simp add: Build_Pipeline_def)
    then show ?thesis using check_loop_errors [of 0 procs] by (auto split: if_splits option.splits)
  qed
  with msgs_literal show ?thesis by auto
qed

lemma shell_command_ok:
  assumes "prints sys Q" "calls_return sys Q" "Q s" "shell_ok sh" "str (sh_buf sh) cmd = Some line" "table_ok table"
  shows "\<exists>sh' s'. run_command sys table cmd sh s = Some (line = cmd_exit, sh', s') \<and> Q s' \<and> shell_ok sh'"
proof -
  have ll: "length line \<le> BUFSIZE" using str_bounds(1) [OF assms(5)] assms(4) by (simp add: shell_ok_def)
  consider "line = cmd_exit" | "line = cmd_pid" "line \<noteq> cmd_exit" | "line = cmd_exitCodes" "line \<noteq> cmd_exit" "line \<noteq> cmd_pid"
    | "take 5 line = cmd_path" "line \<noteq> cmd_exit" "line \<noteq> cmd_pid" "line \<noteq> cmd_exitCodes"
    | "line = []" "line \<noteq> cmd_exit" "line \<noteq> cmd_pid" "line \<noteq> cmd_exitCodes" "take 5 line \<noteq> cmd_path"
    | (other) "line \<noteq> []" "line \<noteq> cmd_exit" "line \<noteq> cmd_pid" "line \<noteq> cmd_exitCodes" "take 5 line \<noteq> cmd_path"
    by blast
  then show ?thesis
  proof cases
    case 2
    obtain r s1 where s1: "Get_PID sys s = Some (r, s1)" "Q s1" using assms(2,3) unfolding calls_return_def by blast
    obtain bs where "text_loop [37, 100, 10] [VInt (word_of_int r)] = Some ([], bs)" "printable bs" using fmt_texts(3) by blast
    from prints_text [OF assms(1) s1(2) this] obtain s2 where "Print sys [37, 100, 10] [VInt (word_of_int r)] s1 = Some s2" "Q s2" by blast
    with 2 s1 assms(4,5) show ?thesis by (simp add: run_command_def)
  next
    case 4
    have "length (take 5 line) = 5" using 4(1) by (simp add: cmd_path_def)
    then have "length line \<ge> 5" by simp
    moreover have "length (drop 5 line) \<le> BUFSIZE" using ll by simp
    moreover have "line \<noteq> []" using calculation(1) by auto
    ultimately show ?thesis using 4 ll assms(3-5) by (simp add: run_command_def shell_ok_def del: length_drop, simp)
  next
    case other
    have b: "length (sh_buf sh) \<le> BUFSIZE + 1" "0 \<in> set (drop cmd (sh_buf sh))"
      using assms(4,5) by (auto simp: shell_ok_def str_def split: if_splits)
    have run: "run_command sys table cmd sh s = do {
        r \<leftarrow> Build_Pipeline cmd (sh_buf sh);
        (case r of
           Inl e \<Rightarrow> do { s \<leftarrow> Print sys e [] s; Some (False, sh, s) }
         | Inr (procList, buf) \<Rightarrow>
             (if procList = [] then Some (False, sh\<lparr>sh_buf := buf\<rparr>, s)
              else do {
                s \<leftarrow> Spawn_Single_Command sys table procList buf sh s;
                Some (False, sh\<lparr>sh_buf := buf\<rparr>, s) })) }"
      using other assms(5) by (simp add: run_command_def)
    from Build_Pipeline_run [OF b] show ?thesis
    proof (elim disjE exE conjE)
      fix e
      assume e: "Build_Pipeline cmd (sh_buf sh) = Some (Inl e)"
      from prints_literal [OF assms(1,3) Build_Pipeline_errors [OF e]] e other assms(4) show ?thesis by (auto simp: run)
    next
      fix procs buf
      assume p: "Build_Pipeline cmd (sh_buf sh) = Some (Inr (procs, buf))" "length buf = length (sh_buf sh)"
        "\<forall>q \<in> set procs. proc_ok buf (length buf) q"
      have l: "length buf = BUFSIZE + 1" using p(2) assms(4) by (simp add: shell_ok_def)
      have "shell_ok (sh\<lparr>sh_buf := buf\<rparr>)" using assms(4) l by (simp add: shell_ok_def)
      with p Spawn_Single_Command_ok [OF assms(1-4) l _ p(3) assms(6)] other assms(3)
      show ?thesis by (cases "procs = []") (auto simp: run)
    qed
  qed (use assms(3-5) in \<open>auto simp: run_command_def shell_ok_def cmd_exit_def cmd_exitCodes_def cmd_path_def\<close>)
qed

section \<open>Lines\<close>

text \<open>The command in the keys of a line.\<close>

definition typed_command :: "u16 list \<Rightarrow> u8 list" where
  "typed_command ks = takeWhile (\<lambda>c. c \<noteq> 10) (dropWhile ISSPACE (takeWhile (\<lambda>c. c \<noteq> 0) (fold (edit BUFSIZE) ks [])))"

text \<open>A line of keys ends with Enter and does not have the escape character, which the console would interpret.\<close>

definition is_line :: "u16 list \<Rightarrow> bool" where
  "is_line l \<longleftrightarrow> l \<noteq> [] \<and> typed (last l) = Some 10 \<and> (\<forall>k \<in> set (butlast l). typed k \<noteq> Some 10 \<and> typed k \<noteq> Some 0x1B)"

lemma first_index_takeWhile:
  "first_index (\<lambda>c. c = x) u = Some i \<Longrightarrow> take i u = takeWhile (\<lambda>c. c \<noteq> x) u"
  "first_index (\<lambda>c. c = x) u = None \<Longrightarrow> takeWhile (\<lambda>c. c \<noteq> x) u = u"
  by (induction u arbitrary: i) (auto split: if_splits)

lemma Trim_Newline_run:
  assumes "str buf p = Some u"
  shows "\<exists>buf'. Trim_Newline buf p = Some buf' \<and> length buf' = length buf \<and> str buf' p = Some (takeWhile (\<lambda>c. c \<noteq> 10) u)"
proof (cases "first_index (\<lambda>c. c = 10) u")
  case None
  with assms show ?thesis unfolding first_index_takeWhile(2) [OF None] by (simp add: Trim_Newline_def)
next
  case (Some i)
  then have "i < length u" by (simp add: first_index_Some)
  from str_cut(1) [OF assms this] first_index_takeWhile(1) [OF Some] Some assms show ?thesis by (simp add: Trim_Newline_def)
qed

lemma str_line:
  assumes "n < length buf" "take n buf = line" "buf ! n = 0"
  shows "str buf 0 = Some (takeWhile (\<lambda>c. c \<noteq> 0) line)"
proof -
  have "buf = line @ 0 # drop (n + 1) buf" using assms by (metis Suc_eq_plus1 id_take_nth_drop)
  then have "0 \<in> set buf" "takeWhile (\<lambda>c. c \<noteq> 0) buf = takeWhile (\<lambda>c. c \<noteq> 0) line"
    by (metis in_set_conv_decomp, metis (mono_tags, lifting) append_Nil2 takeWhile.simps(2) takeWhile_append1 takeWhile_append2 takeWhile_tail)
  then show ?thesis by (simp add: str_def)
qed

lemma console_prints:
  assumes "console_calls sys pending esc ok"
  shows "prints sys (\<lambda>s. ok s \<and> esc s = Plain)" "prints sys (\<lambda>s. ok s \<and> esc s = Plain \<and> pending s = ks)"
proof -
  have "\<exists>s'. Print sys fmt va s = Some s' \<and> ok s' \<and> esc s' = Plain \<and> pending s' = pending s"
    if "ok s" "esc s = Plain" "Format_Output text_sink fmt va [] = Some (r, ns, bs)" "printable bs" for s fmt va r ns bs
    using console_calls.Print_ok [OF assms _ that(3)] that(1,2,4) by (simp add: console_calls.ready_def [OF assms] printable_def)
  then show "prints sys (\<lambda>s. ok s \<and> esc s = Plain)" "prints sys (\<lambda>s. ok s \<and> esc s = Plain \<and> pending s = ks)"
    unfolding prints_def by metis+
qed

lemma shell_round_run:
  assumes con: "console_calls sys pending esc ok" and s: "ok s" "esc s = Plain" "pending s = l @ rest" "is_line l" "shell_ok sh"
    and Q: "prints sys Q" "calls_return sys Q" "\<And>s. ok s \<Longrightarrow> esc s = Plain \<Longrightarrow> pending s = rest \<Longrightarrow> Q s" and table: "table_ok table"
  shows "\<exists>sh' s'. shell_round sys table sh s = Some (typed_command l = cmd_exit, sh', s') \<and> Q s' \<and> shell_ok sh'"
proof -
  define ks k where "ks = butlast l" and "k = last l"
  have l: "l = ks @ [k]" "\<forall>x \<in> set ks. typed x \<noteq> Some 10" "typed k = Some 10" "True \<longrightarrow> Some 0x1B \<notin> typed ` set ks"
    using s(4) by (auto simp: is_line_def ks_def k_def)
  obtain s1 where s1: "Print sys msg_prompt [] s = Some s1" "ok s1" "esc s1 = Plain" "pending s1 = ks @ k # rest"
    using prints_literal [OF console_prints(2) [OF con], of s "pending s"] s(1-3) l(1) prompts_literal(2) by auto
  then have r: "console_calls.ready pending esc ok (ks @ k # rest) s1" by (simp add: console_calls.ready_def [OF con])
  have b: "0 < BUFSIZE + 1" "BUFSIZE + 1 \<le> length (sh_buf sh)" using s(5) by (simp_all add: shell_ok_def)
  define line where "line = fold (edit BUFSIZE) l []"
  obtain buf s2 where s2: "Read_Line sys True (sh_buf sh) (BUFSIZE + 1) s1 = Some (buf, s2)" "console_calls.ready pending esc ok rest s2"
    "length line < BUFSIZE + 1" "take (length line) buf = line" "buf ! length line = 0" "length buf = length (sh_buf sh)"
    using console_calls.Read_Line_run [OF con r l(2,3,4) b] unfolding l(1) [symmetric] by (auto simp: Let_def line_def)
  then have r2: "ok s2" "esc s2 = Plain" "pending s2 = rest" by (simp_all add: console_calls.ready_def [OF con])
  define t where "t = takeWhile (\<lambda>c. c \<noteq> 0) line"
  have t: "str buf 0 = Some t" unfolding t_def using s2(3-6) b(2) by (intro str_line [where n = "length line"]) simp_all
  let ?cmd = "0 + length (takeWhile ISSPACE t)"
  obtain buf2 where buf2: "Trim_Newline buf ?cmd = Some buf2" "length buf2 = length buf"
    "str buf2 ?cmd = Some (takeWhile (\<lambda>c. c \<noteq> 10) (dropWhile ISSPACE t))"
    using Trim_Newline_run [OF str_stripped [OF t]] by blast
  have "shell_ok (sh\<lparr>sh_buf := buf2\<rparr>)" "str (sh_buf (sh\<lparr>sh_buf := buf2\<rparr>)) ?cmd = Some (typed_command l)"
    using s(5) s2(6) buf2 by (simp_all add: shell_ok_def typed_command_def t_def line_def)
  from shell_command_ok [OF Q(1,2) Q(3) [OF r2] this table] show ?thesis
    unfolding shell_round_def s1(1) s2(1) bind.bind_lunit case_prod_conv Strip_run [OF t] buf2(1) .
qed

text \<open>
  Whatever is typed but escape characters, and whatever the system calls answer, one round of the shell
  with a line of keys touches no byte outside of its buffers, reads past the end of no string,
  returns if the calls do, leaves no escape sequence unfinished, and ends the shell exactly when the line is the
  command \<open>exit\<close>.  The search path that a command sets always leaves room for the name of a program.
\<close>

theorem shell_round_safe:
  assumes "console_calls sys pending esc ok" and "calls_return sys (\<lambda>s. ok s \<and> esc s = Plain)" and "ok s" and "esc s = Plain"
    and "pending s = l @ rest" and "is_line l"
    and "length (sh_path sh) + 5 \<le> BUFSIZE" and "length (sh_buf sh) = BUFSIZE + 1" and "table_ok table"
  shows "\<exists>sh' s'. shell_round sys table sh s = Some (typed_command l = cmd_exit, sh', s') \<and> ok s' \<and> esc s' = Plain
    \<and> length (sh_path sh') + 5 \<le> BUFSIZE \<and> length (sh_buf sh') = BUFSIZE + 1"
proof -
  have "shell_ok sh" using assms(7,8) by (simp add: shell_ok_def)
  from shell_round_run [OF assms(1,3-6) this console_prints(1) [OF assms(1)] assms(2) _ assms(9)] show ?thesis
    by (auto simp: shell_ok_def)
qed


lemma toy_calls_return: "calls_return toy_sys (\<lambda>s. True \<and> snd s = Plain)" "calls_return toy_sys (\<lambda>s. True \<and> snd s = Plain \<and> fst s = ks)"
  by (simp_all add: calls_return_def toy_sys_def)

lemma typed_ascii:
  "typed 101 = Some 101" "typed 120 = Some 120" "typed 105 = Some 105" "typed 116 = Some 116" "typed 13 = Some 10" "typed 98 = Some 98"
  by (simp_all add: typed_def KEY_SPECIAL_FLAG_def KEY_RELEASE_FLAG_def)

lemma toy_lines:
  "is_line [98, 13]" "typed_command [98, 13] = [98]" "is_line [101, 120, 105, 116, 13]" "typed_command [101, 120, 105, 116, 13] = cmd_exit"
  by (simp_all add: is_line_def typed_ascii typed_command_def edit_def BUFSIZE_def ISSPACE_def cmd_exit_def)

lemma shell_round_safe_witness:
  "\<exists>sh' s'. shell_round toy_sys [] \<lparr>sh_path = [47, 97], sh_exitCodes = True, sh_buf = replicate 80 9\<rparr> ([98, 13, 99], Plain) = Some (False, sh', s')"
proof -
  have "typed_command [98, 13] \<noteq> cmd_exit" by (simp add: toy_lines(2) cmd_exit_def)
  with shell_round_safe [OF toy_sys_console toy_calls_return(1) TrueI, of "([98, 13, 99], Plain)" "[98, 13]" "[99]" "\<lparr>sh_path = [47, 97], sh_exitCodes = True, sh_buf = replicate 80 9\<rparr>" "[]"] toy_lines(1)
  show ?thesis by (auto simp: BUFSIZE_def table_ok_def)
qed


end
