(* ===== verification/Syscall.thy ===== *)
theory Syscall
  imports Frames Console Keyboard Vfs "HOL-Library.Stream"
begin

text \<open>
  The system calls: \<open>src/geekos/syscall.c\<close>, \<open>src/geekos/trap.c\<close>, the process functions of
  \<open>src/geekos/user.c\<close>, and the dump of registers of \<open>src/geekos/int.c\<close>.  The state is the whole kernel: its
  console, keyboard, threads, memory, descriptor table and file systems.
\<close>

section \<open>The kernel\<close>

text \<open>
  \<open>k_heap\<close> are the outcomes of the calls of \<open>Malloc\<close> whose address matters, \<open>None\<close> being the null
  pointer, and \<open>k_frame\<close> is where the local variables of the handler are on the kernel stack.
\<close>

record ('o, 'i) kernel =
  k_con :: console
  k_kb :: keyboard
  k_ks :: kstate
  k_mem :: mem
  k_gdt :: gdt_state
  k_vfs :: "('o, 'i) vfs"
  k_heap :: "nat option stream"
  k_frame :: nat

text \<open>A call returns, or it switches to another thread: then the call is resumed later, or never if the thread has ended.\<close>

datatype ('a, 's) outcome = Return 'a 's | Switch 's

definition on_threads :: "(kstate \<Rightarrow> kstate option) \<Rightarrow> ('o, 'i) kernel \<Rightarrow> ('o, 'i) kernel option" where
  "on_threads f k = do { s \<leftarrow> f (k_ks k); Some (k\<lparr>k_ks := s\<rparr>) }"

definition kmalloc :: "('o, 'i) kernel \<Rightarrow> nat option \<times> ('o, 'i) kernel" where
  "kmalloc k = (shd (k_heap k), k\<lparr>k_heap := stl (k_heap k)\<rparr>)"

text \<open>\<open>Print\<close> disables interrupts while it writes, if they are enabled.\<close>

definition kprint :: "u8 list \<Rightarrow> va_arg list \<Rightarrow> ('o, 'i) kernel \<Rightarrow> ('o, 'i) kernel option" where
  "kprint fmt va k = do {
     c \<leftarrow> Print fmt va ((k_con k)\<lparr>con_ints := ints (k_ks k)\<rparr>);
     Some (k\<lparr>k_con := c\<rparr>)
   }"

text \<open>The console takes part in disabling interrupts as in \<open>kprint\<close>.\<close>

definition kconsole :: "('o, 'i) kernel \<Rightarrow> console" where
  "kconsole k = (k_con k)\<lparr>con_ints := ints (k_ks k)\<rparr>"

definition fmt_debug :: "u8 list" where
  "fmt_debug = map of_char ''Debug message in %s: at %s, line %d.\<newline> Message: %s.\<newline>''"

text \<open>The macro \<open>DEBUG\<close>, with the function, the file and the line where it is used.\<close>

definition DEBUG :: "string \<Rightarrow> u8 list \<Rightarrow> u32 \<Rightarrow> string \<Rightarrow> ('o, 'i) kernel \<Rightarrow> ('o, 'i) kernel option" where
  "DEBUG func file_name line message k = do {
     c \<leftarrow> Set_Current_Attr (ATTRIB RED (GRAY OR BRIGHT)) (kconsole k);
     k \<leftarrow> kprint fmt_debug [VStr (Some (map of_char func)), VStr (Some file_name), VInt line, VStr (Some (map of_char message))] (k\<lparr>k_con := c\<rparr>);
     c \<leftarrow> Set_Current_Attr (ATTRIB BLACK GRAY) (kconsole k);
     Some (k\<lparr>k_con := c\<rparr>)
   }"

section \<open>User memory\<close>

text \<open>\<open>g_currentThread->userContext\<close>; a thread without one follows a null pointer.\<close>

definition current_context :: "('o, 'i) kernel \<Rightarrow> user_context option" where
  "current_context k = do {
     t \<leftarrow> threads (k_ks k) (g_currentThread (k_ks k));
     c \<leftarrow> userContext t;
     ucontexts (k_ks k) c
   }"

definition msg_from_user :: "u8 list" where
  "msg_from_user = map of_char ''Copy_From_User: Error: Segmentation fault: Address out of UserContext\<newline>''"

definition copy_from_user :: "nat \<Rightarrow> u32 \<Rightarrow> u32 \<Rightarrow> ('o, 'i) kernel \<Rightarrow> (bool \<times> ('o, 'i) kernel) option" where
  "copy_from_user dst src n k = do {
     ctx \<leftarrow> current_context k;
     let (ok, m) = Copy_From_User ctx dst src n (k_mem k);
     let k = k\<lparr>k_mem := m\<rparr>;
     k \<leftarrow> (if ok then Some k else kprint msg_from_user [] k);
     Some (ok, k)
   }"

definition msg_to_user :: "u8 list" where
  "msg_to_user = map of_char ''Copy_To_User: Error: Segmentation fault: Address out of UserContext\<newline>''"

definition copy_to_user :: "u32 \<Rightarrow> nat \<Rightarrow> u32 \<Rightarrow> ('o, 'i) kernel \<Rightarrow> (bool \<times> ('o, 'i) kernel) option" where
  "copy_to_user dst src n k = do {
     ctx \<leftarrow> current_context k;
     let (ok, m) = Copy_To_User ctx dst src n (k_mem k);
     let k = k\<lparr>k_mem := m\<rparr>;
     k \<leftarrow> (if ok then Some k else kprint msg_to_user [] k);
     Some (ok, k)
   }"

text \<open>The string at an address of kernel memory.\<close>

definition kstring :: "nat \<Rightarrow> ('o, 'i) kernel \<Rightarrow> u8 list option" where
  "kstring p k = do { n \<leftarrow> strlen (k_mem k) p; Some (map (k_mem k) [p..<p + n]) }"

section \<open>Processes\<close>

definition Detach_User_Context :: "tid \<Rightarrow> ('o, 'i) kernel \<Rightarrow> ('o, 'i) kernel option" where
  "Detach_User_Context kthread k = do {
     t \<leftarrow> threads (k_ks k) kthread;
     k \<leftarrow> on_threads (upd_thread kthread (\<lambda>t. t\<lparr>userContext := None\<rparr>)) k;
     (case userContext t of
        None \<Rightarrow> Some k
      | Some c \<Rightarrow> do {
          k \<leftarrow> on_threads Disable_Interrupts k;
          uc \<leftarrow> ucontexts (k_ks k) c;
          let refCount = uc_refCount uc - 1;
          k \<leftarrow> on_threads (\<lambda>s. Some (s\<lparr>ucontexts := (ucontexts s)(c \<mapsto> uc\<lparr>uc_refCount := refCount\<rparr>)\<rparr>)) k;
          k \<leftarrow> on_threads Enable_Interrupts k;
          (if refCount = 0 then do {
             g \<leftarrow> Destroy_User_Context uc (k_gdt k);
             on_threads (\<lambda>s. Some (s\<lparr>ucontexts := (ucontexts s)(c := None)\<rparr>)) (k\<lparr>k_gdt := g\<rparr>) }
           else Some k) })
   }"

text \<open>The task state segment, and the selector that \<open>lldt\<close> has loaded, are arguments and results.\<close>

definition Switch_To_Address_Space :: "user_context \<Rightarrow> u16 option" where
  "Switch_To_Address_Space uc = do {
     kassert (uc_ldtSelector uc \<noteq> 0);
     Some (uc_ldtSelector uc)
   }"

definition Switch_To_User_Context ::
  "tid \<Rightarrow> tss_state \<Rightarrow> u16 \<Rightarrow> ('o, 'i) kernel \<Rightarrow> (tss_state \<times> u16 \<times> ('o, 'i) kernel) option" where
  "Switch_To_User_Context kthread tss ldt k = do {
     t \<leftarrow> threads (k_ks k) kthread;
     let (tss, g) = (if esp t \<noteq> 0 then Set_Kernel_Stack_Pointer (stackPage t + PAGE_SIZE) tss (k_gdt k)
       else (tss, k_gdt k));
     ldt \<leftarrow> (case userContext t of
        None \<Rightarrow> Some ldt
      | Some c \<Rightarrow> do { uc \<leftarrow> ucontexts (k_ks k) c; Switch_To_Address_Space uc });
     Some (tss, ldt, k\<lparr>k_gdt := g\<rparr>)
   }"

text \<open>
  What the local variables of \<open>Spawn\<close> and \<open>Load_User_Program\<close> contain before they are assigned.
  \<open>u_context\<close> is the field \<open>userContext\<close> that is read through the uninitialised pointer
  \<open>*pThread\<close>; \<open>None\<close> means that the read faults.  \<open>u_file\<close> is what the compiler makes of \<open>__FILE__\<close> in \<open>user.c\<close>.
\<close>

record uninit =
  u_context :: "nat option option"
  u_format :: exe_format
  u_object :: user_context
  u_file :: "u8 list"

definition fmt_not_found :: "u8 list" where
  "fmt_not_found = map of_char ''Command '' @ [34, 37, 115, 34] @ map of_char '' not found. ''"
definition msg_parsed :: "u8 list" where
  "msg_parsed = map of_char ''parsing executable: SUCCESS \<newline>''"
definition msg_loaded :: "u8 list" where
  "msg_loaded = map of_char ''loading user program: SUCCESS \<newline>''"
definition msg_started :: "u8 list" where
  "msg_started = map of_char ''starting user_thread: SUCCESS \<newline>''"

text \<open>
  The block that \<open>Read_Fully\<close> returns and the three blocks of \<open>Load_User_Program\<close> are the next
  outcomes of \<open>Malloc\<close>; \<open>Read_Fully\<close> has checked the first.
\<close>

definition Spawn ::
  "('o, 'd, 'i) vtables \<Rightarrow> u32 \<Rightarrow> uninit \<Rightarrow> u8 list \<Rightarrow> u8 list \<Rightarrow> ('o, 'i) kernel \<Rightarrow> (int \<times> ('o, 'i) kernel) option" where
  "Spawn vt eflags un program command k = do {
     (retval, buf, v) \<leftarrow> Read_Fully vt program (k_vfs k);
     let k = k\<lparr>k_vfs := v\<rparr>;
     (if retval < 0 then do {
        k \<leftarrow> kprint fmt_not_found [VStr (Some program)] k;
        Some (-1, k) }
      else do {
        kassert (retval = 0);
        bytes \<leftarrow> buf;
        let (p, k) = kmalloc k;
        buffer \<leftarrow> p;
        let k = k\<lparr>k_mem := put_bytes buffer bytes (k_mem k)\<rparr>;
        (retval, exeFormat) \<leftarrow> Parse_ELF_Executable bytes (u_format un);
        k \<leftarrow> (if retval < 0 then DEBUG ''Spawn'' (u_file un) 128 ''Error parsing ELF executable\<newline>'' k else kprint msg_parsed [] k);
        _ \<leftarrow> u_context un;
        let (pctx, k) = kmalloc k;
        let (pmem, k) = kmalloc k;
        let (parg, k) = kmalloc k;
        (retval, (c, uc), g, m) \<leftarrow> Load_User_Program pctx pmem parg (u_object un) buffer exeFormat program (k_gdt k) (k_mem k);
        k \<leftarrow> on_threads (\<lambda>s. Some (s\<lparr>ucontexts := (ucontexts s)(c \<mapsto> uc)\<rparr>)) (k\<lparr>k_gdt := g, k_mem := m\<rparr>);
        k \<leftarrow> (if retval < 0 then DEBUG ''Spawn'' (u_file un) 138 ''Error loading User Program\<newline>'' k else kprint msg_loaded [] k);
        (th, s) \<leftarrow> Start_User_Thread eflags c False (k_ks k);
        k \<leftarrow> kprint msg_started [] (k\<lparr>k_ks := s\<rparr>);
        pThread \<leftarrow> th;
        t \<leftarrow> threads (k_ks k) pThread;
        Some (pid t, k) })
   }"

section \<open>System calls\<close>

definition msg_too_long :: "u8 list" where
  "msg_too_long = map of_char ''Error. Length of String exceeded 1024 chars''"
definition msg_no_buffer :: "u8 list" where
  "msg_no_buffer = map of_char ''Error: unable to allocate memory for the StringBuffer''"
definition msg_no_copy :: "u8 list" where
  "msg_no_copy = map of_char ''Error copying register-content to kernel-memory\<newline>''"
definition fmt_no_thread :: "u8 list" where
  "fmt_no_thread = map of_char ''Interrupt SYS_WAIT: Not Thread with pid %u found.''"

definition Sys_Null :: "interrupt_state \<Rightarrow> ('o, 'i) kernel \<Rightarrow> (int, ('o, 'i) kernel) outcome option" where
  "Sys_Null state k = Some (Return 0 k)"

text \<open>\<open>call\<close> is the call of a destructor of thread-local data.\<close>

definition Sys_Exit ::
  "(u32 \<Rightarrow> u32 \<Rightarrow> kstate \<Rightarrow> kstate option) \<Rightarrow> interrupt_state \<Rightarrow> ('o, 'i) kernel \<Rightarrow> (int, ('o, 'i) kernel) outcome option" where
  "Sys_Exit call state k = do {
     let iExit_Code = sint (is_ebx state);
     k \<leftarrow> (if \<not> ints (k_ks k) then on_threads Enable_Interrupts k else Some k);
     k \<leftarrow> Detach_User_Context (g_currentThread (k_ks k)) k;
     k \<leftarrow> on_threads (Exit call iExit_Code) k;
     Some (Switch k)
   }"

text \<open>\<open>address\<close> reads a pointer that is used without a test; null is address 0, which the kernel can write.\<close>

definition address :: "nat option \<Rightarrow> nat" where
  "address p = (case p of None \<Rightarrow> 0 | Some a \<Rightarrow> a)"

definition put_byte :: "nat \<Rightarrow> u8 \<Rightarrow> ('o, 'i) kernel \<Rightarrow> ('o, 'i) kernel" where
  "put_byte p b k = k\<lparr>k_mem := (k_mem k)(p := b)\<rparr>"

definition Sys_PrintString :: "interrupt_state \<Rightarrow> ('o, 'i) kernel \<Rightarrow> (int, ('o, 'i) kernel) outcome option" where
  "Sys_PrintString state k = do {
     let n = is_ecx state;
     (if n > 1024 then do {
        k \<leftarrow> kprint msg_too_long [] k;
        Some (Return (-1) k) }
      else do {
        let (buffer, k) = kmalloc k;
        k \<leftarrow> (if buffer = None then kprint msg_no_buffer [] k else Some k);
        (ok, k) \<leftarrow> copy_from_user (address buffer) (is_ebx state) n k;
        k \<leftarrow> (if \<not> ok then kprint msg_no_copy [] k else Some k);
        let k = put_byte (address buffer + unat n) 0 k;
        str \<leftarrow> kstring (address buffer) k;
        k \<leftarrow> kprint [37, 115] [VStr (Some str)] k;
        Some (Return 0 k) })
   }"

definition Sys_GetKey :: "interrupt_state \<Rightarrow> ('o, 'i) kernel \<Rightarrow> (int, ('o, 'i) kernel) outcome option" where
  "Sys_GetKey state k = do {
     r \<leftarrow> Wait_For_Key (k_kb k) (k_ks k);
     Some (case r of
         Returned (keycode, kb) s \<Rightarrow> Return (uint keycode) (k\<lparr>k_kb := kb, k_ks := s\<rparr>)
       | Switched s \<Rightarrow> Switch (k\<lparr>k_ks := s\<rparr>))
   }"

definition Sys_SetAttr :: "interrupt_state \<Rightarrow> ('o, 'i) kernel \<Rightarrow> (int, ('o, 'i) kernel) outcome option" where
  "Sys_SetAttr state k = do {
     c \<leftarrow> Set_Current_Attr (ucast (is_ebx state)) (kconsole k);
     Some (Return 0 (k\<lparr>k_con := c\<rparr>))
   }"

text \<open>\<open>row\<close> and \<open>column\<close> are at the beginning of the frame; both copies are made.\<close>

definition Sys_GetCursor :: "interrupt_state \<Rightarrow> ('o, 'i) kernel \<Rightarrow> (int, ('o, 'i) kernel) outcome option" where
  "Sys_GetCursor state k = do {
     let (r, c) = Get_Cursor (k_con k);
     let k = k\<lparr>k_mem := store32 (k_frame k + 4) (word_of_int c) (store32 (k_frame k) (word_of_int r) (k_mem k))\<rparr>;
     (a, k) \<leftarrow> copy_to_user (is_ebx state) (k_frame k) 4 k;
     (b, k) \<leftarrow> copy_to_user (is_ecx state) (k_frame k + 4) 4 k;
     Some (Return (if a \<and> b then 0 else -1) k)
   }"

definition Sys_PutCursor :: "interrupt_state \<Rightarrow> ('o, 'i) kernel \<Rightarrow> (int, ('o, 'i) kernel) outcome option" where
  "Sys_PutCursor state k = do {
     (ok, c) \<leftarrow> Put_Cursor (sint (is_ebx state)) (sint (is_ecx state)) (kconsole k);
     Some (Return (if ok then 0 else -1) (k\<lparr>k_con := c\<rparr>))
   }"

definition VFS_MAX_PATH_LEN :: u32 where "VFS_MAX_PATH_LEN = 1023"

definition Sys_Spawn ::
  "('o, 'd, 'i) vtables \<Rightarrow> u32 \<Rightarrow> uninit \<Rightarrow> interrupt_state \<Rightarrow> ('o, 'i) kernel \<Rightarrow> (int, ('o, 'i) kernel) outcome option" where
  "Sys_Spawn vt eflags un state k = do {
     let (p, k) = kmalloc k;
     let pExecutable_Name = address p;
     (_, k) \<leftarrow> copy_from_user pExecutable_Name (is_ebx state) (is_ecx state) k;
     let k = put_byte (pExecutable_Name + unat (is_ecx state)) 0 k;
     (if is_esi state > VFS_MAX_PATH_LEN then Some (Return (-1) k)
      else do {
        let (p, k) = kmalloc k;
        let pCommand_String = address p;
        (_, k) \<leftarrow> copy_from_user pCommand_String (is_edx state) (is_esi state) k;
        let k = put_byte (pCommand_String + unat (is_esi state)) 0 k;
        k \<leftarrow> (if \<not> ints (k_ks k) then on_threads Enable_Interrupts k else Some k);
        program \<leftarrow> kstring pCommand_String k;
        command \<leftarrow> kstring pExecutable_Name k;
        (retval, k) \<leftarrow> Spawn vt eflags un program command k;
        k \<leftarrow> on_threads Disable_Interrupts k;
        Some (Return retval k) })
   }"

definition Sys_Wait :: "interrupt_state \<Rightarrow> ('o, 'i) kernel \<Rightarrow> (int, ('o, 'i) kernel) outcome option" where
  "Sys_Wait state k = do {
     (kthread, s) \<leftarrow> Lookup_Thread (sint (is_ebx state)) (k_ks k);
     let k = k\<lparr>k_ks := s\<rparr>;
     (case kthread of
        None \<Rightarrow> do {
          k \<leftarrow> kprint fmt_no_thread [VInt (is_ebx state)] k;
          Some (Return (-1) k) }
      | Some t \<Rightarrow> do {
          k \<leftarrow> (if \<not> ints (k_ks k) then on_threads Enable_Interrupts k else Some k);
          r \<leftarrow> Join t (k_ks k);
          Some (case r of
              Returned code s \<Rightarrow> Return code (k\<lparr>k_ks := s\<rparr>)
            | Switched s \<Rightarrow> Switch (k\<lparr>k_ks := s\<rparr>)) })
   }"

definition Sys_GetPID :: "interrupt_state \<Rightarrow> ('o, 'i) kernel \<Rightarrow> (int, ('o, 'i) kernel) outcome option" where
  "Sys_GetPID state k = do {
     t \<leftarrow> threads (k_ks k) (g_currentThread (k_ks k));
     Some (Return (pid t) k)
   }"

section \<open>Traps\<close>

text \<open>What the system calls take from outside of the kernel's state.\<close>

record ('o, 'd, 'i) environment =
  e_vtables :: "('o, 'd, 'i) vtables"
  e_eflags :: u32
  e_uninit :: uninit
  e_destructor :: "u32 \<Rightarrow> u32 \<Rightarrow> kstate \<Rightarrow> kstate option"

definition g_syscallTable ::
  "('o, 'd, 'i) environment \<Rightarrow> (interrupt_state \<Rightarrow> ('o, 'i) kernel \<Rightarrow> (int, ('o, 'i) kernel) outcome option) list" where
  "g_syscallTable e = [Sys_Null, Sys_Exit (e_destructor e), Sys_PrintString, Sys_GetKey, Sys_SetAttr, Sys_GetCursor, Sys_PutCursor,
     Sys_Spawn (e_vtables e) (e_eflags e) (e_uninit e), Sys_Wait, Sys_GetPID]"

definition g_numSyscalls :: "('o, 'd, 'i) environment \<Rightarrow> nat" where
  "g_numSyscalls e = length (g_syscallTable e)"

definition fmt_illegal :: "u8 list" where
  "fmt_illegal = map of_char ''Illegal system call %d by process %d\<newline>''"

definition Syscall_Handler ::
  "('o, 'd, 'i) environment \<Rightarrow> interrupt_state \<Rightarrow> ('o, 'i) kernel \<Rightarrow> (interrupt_state, ('o, 'i) kernel) outcome option" where
  "Syscall_Handler e state k = do {
     let syscallNum = unat (is_eax state);
     (if syscallNum \<ge> g_numSyscalls e then do {
        t \<leftarrow> threads (k_ks k) (g_currentThread (k_ks k));
        k \<leftarrow> kprint fmt_illegal [VInt (is_eax state), VInt (word_of_int (pid t))] k;
        k \<leftarrow> on_threads (Exit (e_destructor e) (-1)) k;
        Some (Switch k) }
      else do {
        r \<leftarrow> (g_syscallTable e ! syscallNum) state k;
        Some (case r of
            Return rc k \<Rightarrow> Return (state\<lparr>is_eax := word_of_int rc\<rparr>) k
          | Switch k \<Rightarrow> Switch k) })
   }"

definition fmt_selector :: "u8 list" where
  "fmt_selector = map of_char ''%s: index=%d, ti=%d, rpl=%d\<newline>''"
definition fmt_registers :: "u8 list" where
  "fmt_registers = map of_char ''eax=%08x ebx=%08x ecx=%08x edx=%08x\<newline>esi=%08x edi=%08x ebp=%08x\<newline>eip=%08x cs=%08x eflags=%08x\<newline>Interrupt number=%d, error code=%d\<newline>index=%d, TI=%d, IDT=%d, EXT=%d\<newline>''"
definition fmt_user_stack :: "u8 list" where
  "fmt_user_stack = map of_char ''user esp=%08x, user ss=%08x\<newline>''"
definition fmt_exception :: "u8 list" where
  "fmt_exception = map of_char ''Exception %d received, killing thread %p\<newline>''"

definition Print_Selector :: "string \<Rightarrow> u32 \<Rightarrow> ('o, 'i) kernel \<Rightarrow> ('o, 'i) kernel option" where
  "Print_Selector regName v k = kprint fmt_selector
     [VStr (Some (map of_char regName)), VInt (drop_bit 3 v), VInt (drop_bit 2 v AND 1), VInt (v AND 3)] k"

text \<open>\<open>ustate\<close> are the user stack pointer and segment, which are above the saved state of a user interrupt.\<close>

definition Dump_Interrupt_State :: "interrupt_state \<Rightarrow> u32 \<times> u32 \<Rightarrow> ('o, 'i) kernel \<Rightarrow> ('o, 'i) kernel option" where
  "Dump_Interrupt_State state ustate k = do {
     let code = errorCode state;
     k \<leftarrow> kprint fmt_registers (map VInt [is_eax state, is_ebx state, is_ecx state, is_edx state,
        is_esi state, is_edi state, is_ebp state, is_eip state, is_cs state, is_eflags state,
        intNum state, code, drop_bit 3 code, drop_bit 2 code AND 1, drop_bit 1 code AND 1, code AND 1]) k;
     k \<leftarrow> (if Is_User_Interrupt state then kprint fmt_user_stack [VInt (fst ustate), VInt (snd ustate)] k else Some k);
     k \<leftarrow> Print_Selector ''cs'' (is_cs state) k;
     k \<leftarrow> Print_Selector ''ds'' (is_ds state) k;
     k \<leftarrow> Print_Selector ''es'' (is_es state) k;
     k \<leftarrow> Print_Selector ''fs'' (is_fs state) k;
     Print_Selector ''gs'' (is_gs state) k
   }"

definition GPF_Handler ::
  "('o, 'd, 'i) environment \<Rightarrow> interrupt_state \<Rightarrow> u32 \<times> u32 \<Rightarrow> ('o, 'i) kernel \<Rightarrow> (interrupt_state, ('o, 'i) kernel) outcome option" where
  "GPF_Handler e state ustate k = do {
     k \<leftarrow> kprint fmt_exception [VInt (intNum state), VInt (g_currentThread (k_ks k))] k;
     k \<leftarrow> Dump_Interrupt_State state ustate k;
     k \<leftarrow> on_threads (Exit (e_destructor e) (-1)) k;
     Some (Switch k)
   }"

definition Init_Traps :: "'h \<Rightarrow> 'h \<Rightarrow> (nat \<Rightarrow> 'h) \<Rightarrow> (nat \<Rightarrow> 'h) option" where
  "Init_Traps gpf syscall table = do {
     table \<leftarrow> Install_Interrupt_Handler 12 gpf table;
     table \<leftarrow> Install_Interrupt_Handler 13 gpf table;
     Install_Interrupt_Handler (int SYSCALL_INT) syscall table
   }"

section \<open>Printing\<close>

lemma kprint_shows:
  assumes "con_ok (k_con k)" "con_state (k_con k) = S_NORMAL"
    and "Format_Output text_sink fmt va [] = Some (r, ns, bs)" "0x1B \<notin> set bs"
  shows "\<exists>c. kprint fmt va k = Some (k\<lparr>k_con := c\<rparr>) \<and> con_ok c \<and> con_state c = S_NORMAL
    \<and> terminal_of c = fold (show_byte (currentAttr (k_con k))) bs (terminal_of (k_con k))"
proof -
  let ?c = "(k_con k)\<lparr>con_ints := ints (k_ks k)\<rparr>"
  have ok: "con_ok ?c" "con_state ?c = S_NORMAL" using assms(1,2) by simp_all
  from Print_run [OF this assms(3,4)] obtain c where c: "Print fmt va ?c = Some c"
    "terminal_of c = fold (show_byte (currentAttr ?c)) bs (terminal_of ?c)" "writes (?c\<lparr>crt_regs := crt_regs c\<rparr>) c" by blast
  have "con_ok (?c\<lparr>crt_regs := crt_regs c\<rparr>)" using ok by (auto simp: con_ok_def base_ok_def in_screen_def)
  from con_ok_writes [OF this c(3)] writes_frame [OF c(3)] c(1,2) assms(2) show ?thesis by (auto simp: kprint_def)
qed

lemma kprint_esc:
  assumes "con_ok (k_con k)" "Format_Output text_sink fmt va [] = Some (r, ns, bs)" "esc_text bs (esc_of (k_con k)) = Some e"
  shows "\<exists>c. kprint fmt va k = Some (k\<lparr>k_con := c\<rparr>) \<and> con_ok c \<and> esc_of c = e"
proof -
  let ?c = "(k_con k)\<lparr>con_ints := ints (k_ks k)\<rparr>"
  have "con_ok ?c" "esc_text bs (esc_of ?c) = Some e" using assms(1,3) by (simp_all add: esc_of_fields)
  from Print_esc [OF this(1) assms(2) this(2)] show ?thesis by (auto simp: kprint_def)
qed

lemma Format_Output_s:
  "length t < 2 ^ 31 \<Longrightarrow> Format_Output text_sink [37, 115] [VStr (Some t)] [] = Some (0, [], t)"
  by (simp add: Format_Output_def text_loop_s text_loop_Nil del: Fmtout.format_loop.simps)

section \<open>User buffers\<close>

definition user_range :: "user_context \<Rightarrow> u32 \<Rightarrow> nat \<Rightarrow> bool" where
  "user_range ctx a n \<longleftrightarrow> unat a < unat (uc_size ctx) \<and> unat a + n \<le> unat (uc_size ctx)"

definition off_user :: "user_context \<Rightarrow> nat \<Rightarrow> nat \<Rightarrow> bool" where
  "off_user ctx p n \<longleftrightarrow> apart p n (uc_memory ctx) (unat (uc_size ctx))"

definition user_bytes :: "user_context \<Rightarrow> u32 \<Rightarrow> nat \<Rightarrow> mem \<Rightarrow> u8 list" where
  "user_bytes ctx a n m = map (\<lambda>i. m (uc_memory ctx + unat a + i)) [0..<n]"

lemma current_context_fields [simp]:
  "current_context (k\<lparr>k_mem := m\<rparr>) = current_context k" "current_context (k\<lparr>k_heap := h\<rparr>) = current_context k"
  "current_context (k\<lparr>k_con := c\<rparr>) = current_context k" "current_context (k\<lparr>k_kb := b\<rparr>) = current_context k"
  by (simp_all add: current_context_def)

lemma Validate_range: "Validate_User_Memory ctx a n \<longleftrightarrow> user_range ctx a (unat n)"
  by (simp add: Validate_User_Memory_iff user_range_def)

lemma copy_from_user_run:
  assumes "current_context k = Some ctx" "user_range ctx a (unat n)" "off_user ctx p (unat n)"
  shows "copy_from_user p a n k = Some (True, k\<lparr>k_mem := moved p (uc_memory ctx + unat a) (unat n) (k_mem k)\<rparr>)"
proof -
  have "memcpy p (uc_memory ctx + unat a) (unat n) (k_mem k) = moved p (uc_memory ctx + unat a) (unat n) (k_mem k)"
    using assms(2,3) by (intro memcpy_moved) (auto simp: user_range_def off_user_def apart_def)
  with assms(1,2) show ?thesis by (simp add: copy_from_user_def Copy_From_User_def Validate_range)
qed

lemma copy_to_user_run:
  assumes "current_context k = Some ctx" "user_range ctx a (unat n)" "off_user ctx p (unat n)"
  shows "copy_to_user a p n k = Some (True, k\<lparr>k_mem := moved (uc_memory ctx + unat a) p (unat n) (k_mem k)\<rparr>)"
proof -
  have "memcpy (uc_memory ctx + unat a) p (unat n) (k_mem k) = moved (uc_memory ctx + unat a) p (unat n) (k_mem k)"
    using assms(2,3) by (intro memcpy_moved) (auto simp: user_range_def off_user_def apart_def)
  with assms(1,2) show ?thesis by (simp add: copy_to_user_def Copy_To_User_def Validate_range)
qed

lemma kstring_cstr: "cstr (k_mem k) p s \<Longrightarrow> kstring p k = Some s"
  using strlen_cstr [of "k_mem k" p s] cstr_nth [of "k_mem k" p s]
  by (auto simp: kstring_def simp del: upt_Suc intro!: nth_equalityI)

text \<open>A buffer into which user memory has been copied, with its terminator.\<close>

definition copied :: "nat \<Rightarrow> user_context \<Rightarrow> u32 \<Rightarrow> nat \<Rightarrow> mem \<Rightarrow> mem" where
  "copied p ctx a n m = (moved p (uc_memory ctx + unat a) n m)(p + n := 0)"

lemma copied_string:
  "cstr (copied p ctx a n m) p (takeWhile (\<lambda>c. c \<noteq> 0) (user_bytes ctx a n m))"
proof (rule cstrI)
  let ?u = "user_bytes ctx a n m" let ?t = "takeWhile (\<lambda>c. c \<noteq> 0) ?u"
  have len: "length ?t \<le> n" using length_takeWhile_le [of "\<lambda>c. c \<noteq> 0" ?u] by (simp add: user_bytes_def)
  have at: "copied p ctx a n m (p + i) = ?u ! i" if "i < n" for i
    using that by (simp add: copied_def moved_def user_bytes_def)
  show "0 \<notin> set ?t" using set_takeWhileD by fastforce
  show "copied p ctx a n m (p + i) = ?t ! i" if "i < length ?t" for i
    using that len at [of i] by (simp add: takeWhile_nth)
  show "copied p ctx a n m (p + length ?t) = 0"
  proof (cases "length ?t = n")
    case False
    then have "length ?t < length ?u" using len by (simp add: user_bytes_def)
    then have "?u ! length ?t = 0" using nth_length_takeWhile [of "\<lambda>c. c \<noteq> 0" ?u] by simp
    with at [of "length ?t"] False len show ?thesis by simp
  qed (simp add: copied_def)
qed

section \<open>Console calls\<close>

lemma Sys_PrintString_run:
  assumes "current_context k = Some ctx" "user_range ctx (is_ebx state) (unat (is_ecx state))" "is_ecx state \<le> 1024"
    and "shd (k_heap k) = Some p" "off_user ctx p (unat (is_ecx state) + 1)"
  defines "n \<equiv> unat (is_ecx state)"
  shows "Sys_PrintString state k = do {
      k' \<leftarrow> kprint [37, 115] [VStr (Some (takeWhile (\<lambda>c. c \<noteq> 0) (user_bytes ctx (is_ebx state) n (k_mem k))))]
        (k\<lparr>k_heap := stl (k_heap k), k_mem := copied p ctx (is_ebx state) n (k_mem k)\<rparr>);
      Some (Return 0 k') }"
proof -
  let ?k = "k\<lparr>k_heap := stl (k_heap k)\<rparr>"
  have "current_context ?k = Some ctx" "off_user ctx p (unat (is_ecx state))" using assms(1,5) by (auto simp: off_user_def apart_def)
  from copy_from_user_run [OF this(1) assms(2) this(2)]
  have c: "copy_from_user p (is_ebx state) (is_ecx state) ?k
    = Some (True, ?k\<lparr>k_mem := moved p (uc_memory ctx + unat (is_ebx state)) n (k_mem k)\<rparr>)" by (simp add: n_def)
  have s: "kstring p (?k\<lparr>k_mem := copied p ctx (is_ebx state) n (k_mem k)\<rparr>)
    = Some (takeWhile (\<lambda>c. c \<noteq> 0) (user_bytes ctx (is_ebx state) n (k_mem k)))"
    by (rule kstring_cstr) (simp add: copied_string)
  from assms(3) have "\<not> is_ecx state > 1024" by simp
  then show ?thesis
    using assms(4) c s by (simp add: Sys_PrintString_def kmalloc_def address_def put_byte_def copied_def n_def Let_def)
qed

text \<open>A kernel with one process, whose memory holds the letter A from address 256 on.\<close>

definition small_kernel :: "(unit, unit) kernel" where
  "small_kernel = \<lparr>k_con = blank_console, k_kb = empty_keyboard,
     k_ks = (boot_state boot_mem)\<lparr>threads := [0x5000 \<mapsto> (new_thread 0x6000 5 True 0x100000 4)\<lparr>userContext := Some 9\<rparr>],
       ucontexts := [9 \<mapsto> some_context], g_currentThread := 0x5000\<rparr>,
     k_mem = (\<lambda>x. if x < 0x200100 then 0 else 65), k_gdt = fresh_gdt,
     k_vfs = \<lparr>s_filesystemList = [], s_mountPointList = [], io = undefined\<rparr>,
     k_heap = sconst (Some 0x300000), k_frame = 0x6F00\<rparr>"

definition zero_state :: interrupt_state where
  "zero_state = \<lparr>is_gs = 0, is_fs = 0, is_es = 0, is_ds = 0, is_ebp = 0, is_edi = 0, is_esi = 0, is_edx = 0, is_ecx = 0,
     is_ebx = 0, is_eax = 0, intNum = 0, errorCode = 0, is_eip = 0, is_cs = 0, is_eflags = 0\<rparr>"

lemma small_kernel_context: "current_context small_kernel = Some some_context"
  by (simp add: current_context_def small_kernel_def)

lemma small_kernel_fields [simp]:
  "k_con small_kernel = blank_console" "k_kb small_kernel = empty_keyboard" "k_frame small_kernel = 0x6F00"
  "shd (k_heap small_kernel) = Some 0x300000" "uc_memory some_context = 0x200000" "uc_size some_context = 0x8000"
  "k_mem small_kernel x = (if x < 0x200100 then 0 else 65)"
  by (simp_all add: small_kernel_def some_context_def)

lemma blank_console_normal [simp]: "con_state blank_console = S_NORMAL"
  by (simp add: blank_console_def)

text \<open>
  Property C20.  A process that passes a buffer of its own of at most 1024 bytes to the second system call gets
  the text up to the first NUL or the given length shown on the terminal in the current attribute, and the result 0 in \<open>eax\<close>; of
  kernel memory only the buffer that \<open>Malloc\<close> returned and the byte after the text change, of
  user memory nothing, and neither the threads nor the keyboard are touched.
\<close>

theorem print_string_shows:
  assumes "current_context k = Some ctx" and "user_range ctx (is_ebx state) n" and "n = unat (is_ecx state)" and "n \<le> 1024"
    and "shd (k_heap k) = Some p" and "off_user ctx p (n + 1)"
    and "con_ok (k_con k)" and "con_state (k_con k) = S_NORMAL" and "is_eax state = 2"
    and "t = takeWhile (\<lambda>c. c \<noteq> 0) (user_bytes ctx (is_ebx state) n (k_mem k))" and "0x1B \<notin> set t"
  shows "\<exists>k'. Syscall_Handler e state k = Some (Return (state\<lparr>is_eax := 0\<rparr>) k')
    \<and> terminal_of (k_con k') = fold (show_byte (currentAttr (k_con k))) t (terminal_of (k_con k))
    \<and> con_ok (k_con k') \<and> con_state (k_con k') = S_NORMAL
    \<and> (\<forall>x. x < p \<or> p + n < x \<longrightarrow> k_mem k' x = k_mem k x) \<and> k_ks k' = k_ks k \<and> k_kb k' = k_kb k"
proof -
  let ?k = "k\<lparr>k_heap := stl (k_heap k), k_mem := copied p ctx (is_ebx state) n (k_mem k)\<rparr>"
  have "length t \<le> n" unfolding assms(10) using length_takeWhile_le by (metis diff_zero length_map length_upt user_bytes_def)
  then have "length t < 2 ^ 31" using assms(4) by simp
  from kprint_shows [OF _ _ Format_Output_s [OF this] assms(11), of ?k] assms(7,8) obtain c where
    c: "kprint [37, 115] [VStr (Some t)] ?k = Some (?k\<lparr>k_con := c\<rparr>)" "con_ok c" "con_state c = S_NORMAL"
    "terminal_of c = fold (show_byte (currentAttr (k_con k))) t (terminal_of (k_con k))" by auto
  have le: "is_ecx state \<le> 1024" using assms(3,4) by (simp add: word_le_nat_alt)
  have "Sys_PrintString state k = Some (Return 0 (?k\<lparr>k_con := c\<rparr>))"
    using Sys_PrintString_run [OF assms(1) assms(2) [unfolded assms(3)] le assms(5) assms(6) [unfolded assms(3)]] c(1)
    unfolding assms(3) assms(10) by simp
  then have "Syscall_Handler e state k = Some (Return (state\<lparr>is_eax := 0\<rparr>) (?k\<lparr>k_con := c\<rparr>))"
    by (simp add: Syscall_Handler_def assms(9) g_numSyscalls_def g_syscallTable_def)
  with c(2-4) show ?thesis by (auto simp: copied_def moved_def)
qed

lemma print_string_shows_witness:
  "\<forall>e :: (unit, unit, unit) environment. \<exists>k'. Syscall_Handler e (zero_state\<lparr>is_eax := 2, is_ebx := 0x100, is_ecx := 3\<rparr>) small_kernel
      = Some (Return (zero_state\<lparr>is_eax := 0, is_ebx := 0x100, is_ecx := 3\<rparr>) k')
    \<and> terminal_of (k_con k') = fold (show_byte (currentAttr blank_console)) [65, 65, 65] (terminal_of blank_console)"
proof (intro allI)
  fix e :: "(unit, unit, unit) environment"
  let ?s = "zero_state\<lparr>is_eax := 2, is_ebx := 0x100, is_ecx := 3\<rparr>"
  have t: "[65, 65, 65] = takeWhile (\<lambda>c. c \<noteq> 0) (user_bytes some_context (is_ebx ?s) 3 (k_mem small_kernel))"
    by (simp add: user_bytes_def upt_rec)
  have r: "user_range some_context (is_ebx ?s) 3" "off_user some_context 0x300000 (3 + 1)" "is_eax ?s = 2" "3 = unat (is_ecx ?s)"
    "shd (k_heap small_kernel) = Some 0x300000" "con_ok (k_con small_kernel)" "con_state (k_con small_kernel) = S_NORMAL"
    using blank_console_ok by (simp_all add: user_range_def off_user_def apart_def)
  from print_string_shows [OF small_kernel_context r(1,4) _ r(5,2,6,7,3) t, of e] show "\<exists>k'. Syscall_Handler e (zero_state\<lparr>is_eax := 2, is_ebx := 0x100, is_ecx := 3\<rparr>) small_kernel
      = Some (Return (zero_state\<lparr>is_eax := 0, is_ebx := 0x100, is_ecx := 3\<rparr>) k')
    \<and> terminal_of (k_con k') = fold (show_byte (currentAttr blank_console)) [65, 65, 65] (terminal_of blank_console)"
    by (auto simp: zero_state_def)
qed

section \<open>The cursor\<close>

definition on_screen :: "int \<Rightarrow> int \<Rightarrow> bool" where
  "on_screen r c \<longleftrightarrow> 0 \<le> r \<and> r < 25 \<and> 0 \<le> c \<and> c < 80"

lemma Sys_PutCursor_run:
  assumes "con_ok (k_con k)"
  shows "if on_screen (sint (is_ebx state)) (sint (is_ecx state))
    then \<exists>c. Sys_PutCursor state k = Some (Return 0 (k\<lparr>k_con := c\<rparr>)) \<and> con_ok c \<and> row c = sint (is_ebx state)
      \<and> col c = sint (is_ecx state) \<and> hardware_cursor c = cpos c \<and> text_of (vmem c) = text_of (vmem (k_con k))
    else Sys_PutCursor state k = Some (Return (-1) (k\<lparr>k_con := kconsole k\<rparr>))"
proof (cases "on_screen (sint (is_ebx state)) (sint (is_ecx state))")
  case True
  let ?r = "sint (is_ebx state)" let ?c = "sint (is_ecx state)"
  let ?s = "(kconsole k)\<lparr>con_ints := False, row := ?r, col := ?c\<rparr>"
  let ?t = "(Update_Cursor ?s)\<lparr>con_ints := con_ints (kconsole k)\<rparr>"
  have "base_ok ?s" "con_state ?s = con_state (k_con k)" "numArgs ?s = numArgs (k_con k)"
    using assms True by (simp_all add: con_ok_def base_ok_def in_screen_def kconsole_def on_screen_def)
  with assms have ok: "con_ok ?s" unfolding con_ok_def by metis
  have "int_atomic (\<lambda>s. Some (Update_Cursor (s\<lparr>row := ?r, col := ?c\<rparr>))) (kconsole k) = Some ?t"
    by (rule int_atomic_run) (simp_all add: Update_Cursor_def Let_def Out_CRT_Addr_def Out_CRT_Data_def)
  then have "Sys_PutCursor state k = Some (Return 0 (k\<lparr>k_con := ?t\<rparr>))"
    using True by (simp add: Sys_PutCursor_def Put_Cursor_def on_screen_def screen_consts)
  moreover have "row ?t = ?r" "col ?t = ?c" "vmem ?t = vmem (k_con k)"
    by (simp_all add: Update_Cursor_def Let_def Out_CRT_Addr_def Out_CRT_Data_def kconsole_def)
  moreover have "con_ok ?t" using ok by simp
  moreover have "hardware_cursor ?t = cpos ?t" using Update_Cursor_hardware [of ?s] ok by (simp add: con_ok_def base_ok_def)
  ultimately show ?thesis using True by (auto intro!: exI [of _ ?t])
qed (auto simp: Sys_PutCursor_def Put_Cursor_def on_screen_def screen_consts)

lemma store32_pair:
  fixes m :: mem
  assumes "apart p 8 a 4" "apart p 8 b 4" "apart a 4 b 4"
    and m': "m' = moved b (p + 4) 4 (moved a p 4 (store32 (p + 4) y (store32 p x m)))"
  shows "load32 m' a = x" "load32 m' b = y"
    and "\<not> (p \<le> i \<and> i < p + 8) \<Longrightarrow> \<not> (a \<le> i \<and> i < a + 4) \<Longrightarrow> \<not> (b \<le> i \<and> i < b + 4) \<Longrightarrow> m' i = m i"
proof -
  let ?m = "store32 (p + 4) y (store32 p x m)"
  have m: "m' (a + j) = ?m (p + j)" "m' (b + j) = ?m (p + 4 + j)" if "j < 4" for j
    using assms(1-3) that by (auto simp: m' moved_def apart_def)
  have eq: "load32 f q = load32 g r" if "\<And>j. j < 4 \<Longrightarrow> f (q + j) = g (r + j)" for f g :: mem and q r
    using that [of 0] that [of 1] that [of 2] that [of 3] by (simp add: load32_def)
  have "load32 m' a = load32 ?m p" by (rule eq) (simp add: m)
  also have "\<dots> = load32 (store32 p x m) p" by (rule load32_cong) (simp add: store32_other)
  finally show "load32 m' a = x" by simp
  have "load32 m' b = load32 ?m (p + 4)" by (rule eq) (simp add: m)
  then show "load32 m' b = y" by simp
  show "m' i = m i" if "\<not> (p \<le> i \<and> i < p + 8)" "\<not> (a \<le> i \<and> i < a + 4)" "\<not> (b \<le> i \<and> i < b + 4)"
    using that by (auto simp: m' moved_def store32_other)
qed

lemma Sys_GetCursor_run:
  assumes "current_context k = Some ctx" and "user_range ctx (is_ebx state) 4" "user_range ctx (is_ecx state) 4"
    and "off_user ctx (k_frame k) 8" and "apart (unat (is_ebx state)) 4 (unat (is_ecx state)) 4"
  shows "\<exists>m. Sys_GetCursor state k = Some (Return 0 (k\<lparr>k_mem := m\<rparr>))
    \<and> load32 m (uc_memory ctx + unat (is_ebx state)) = word_of_int (row (k_con k))
    \<and> load32 m (uc_memory ctx + unat (is_ecx state)) = word_of_int (col (k_con k))
    \<and> (\<forall>i. \<not> (k_frame k \<le> i \<and> i < k_frame k + 8)
        \<and> \<not> (uc_memory ctx + unat (is_ebx state) \<le> i \<and> i < uc_memory ctx + unat (is_ebx state) + 4)
        \<and> \<not> (uc_memory ctx + unat (is_ecx state) \<le> i \<and> i < uc_memory ctx + unat (is_ecx state) + 4) \<longrightarrow> m i = k_mem k i)"
proof -
  let ?p = "k_frame k" let ?a = "uc_memory ctx + unat (is_ebx state)" let ?b = "uc_memory ctx + unat (is_ecx state)"
  let ?r = "word_of_int (row (k_con k)) :: u32" let ?c = "word_of_int (col (k_con k)) :: u32"
  let ?u = "store32 (?p + 4) ?c (store32 ?p ?r (k_mem k))" let ?v = "moved ?a ?p 4 ?u"
  let ?w = "moved ?b (?p + 4) 4 ?v"
  have off: "off_user ctx ?p (unat (4 :: u32))" "off_user ctx (?p + 4) (unat (4 :: u32))"
    using assms(4) by (auto simp: off_user_def apart_def)
  have r: "user_range ctx (is_ebx state) (unat (4 :: u32))" "user_range ctx (is_ecx state) (unat (4 :: u32))"
    using assms(2,3) by simp_all
  have 1: "copy_to_user (is_ebx state) ?p 4 (k\<lparr>k_mem := ?u\<rparr>) = Some (True, k\<lparr>k_mem := ?v\<rparr>)"
    by (subst copy_to_user_run [where ctx = ctx]) (use assms(1) r(1) off(1) in simp_all)
  have 2: "copy_to_user (is_ecx state) (?p + 4) 4 (k\<lparr>k_mem := ?v\<rparr>) = Some (True, k\<lparr>k_mem := ?w\<rparr>)"
    by (subst copy_to_user_run [where ctx = ctx]) (use assms(1) r(2) off(2) in simp_all)
  have "Sys_GetCursor state k = Some (Return 0 (k\<lparr>k_mem := ?w\<rparr>))"
    using 1 2 by (simp add: Sys_GetCursor_def Get_Cursor_def)
  moreover have "apart ?p 8 ?a 4" "apart ?p 8 ?b 4" "apart ?a 4 ?b 4"
    using assms(2-5) by (auto simp: off_user_def user_range_def apart_def)
  note store32_pair [OF this refl, where x = ?r and y = ?c and m = "k_mem k"]
  ultimately show ?thesis by (intro exI [of _ ?w]) simp
qed

text \<open>
  Property C24.  A process that sets the cursor to a position on the screen and asks for it gets this
  position, in the two integers of its own that it names, and the hardware cursor stands there; a position outside of the screen is refused with
  -1 and changes nothing.  Of the rest of its memory and of the text on the screen nothing changes.
\<close>

theorem cursor_calls_agree:
  assumes "con_ok (k_con k)" and "current_context k = Some ctx" and "is_eax put = 6" and "is_eax get = 5"
    and "user_range ctx (is_ebx get) 4" and "user_range ctx (is_ecx get) 4"
    and "off_user ctx (k_frame k) 8" and "apart (unat (is_ebx get)) 4 (unat (is_ecx get)) 4"
    and "r = sint (is_ebx put)" and "c = sint (is_ecx put)"
  shows "\<exists>k1 k2. Syscall_Handler e put k = Some (Return (put\<lparr>is_eax := if on_screen r c then 0 else -1\<rparr>) k1)
    \<and> Syscall_Handler e get k1 = Some (Return (get\<lparr>is_eax := 0\<rparr>) k2)
    \<and> (let (r', c') = (if on_screen r c then (r, c) else (row (k_con k), col (k_con k)))
       in load32 (k_mem k2) (uc_memory ctx + unat (is_ebx get)) = word_of_int r'
        \<and> load32 (k_mem k2) (uc_memory ctx + unat (is_ecx get)) = word_of_int c'
        \<and> row (k_con k2) = r' \<and> col (k_con k2) = c')
    \<and> text_of (vmem (k_con k2)) = text_of (vmem (k_con k)) \<and> (on_screen r c \<longrightarrow> hardware_cursor (k_con k2) = cpos (k_con k2))
    \<and> (\<forall>i. uc_memory ctx \<le> i \<and> i < uc_memory ctx + unat (uc_size ctx)
        \<and> \<not> (uc_memory ctx + unat (is_ebx get) \<le> i \<and> i < uc_memory ctx + unat (is_ebx get) + 4)
        \<and> \<not> (uc_memory ctx + unat (is_ecx get) \<le> i \<and> i < uc_memory ctx + unat (is_ecx get) + 4) \<longrightarrow> k_mem k2 i = k_mem k i)"
proof -
  have "\<exists>c1. Sys_PutCursor put k = Some (Return (if on_screen r c then 0 else -1) (k\<lparr>k_con := c1\<rparr>))
      \<and> (row c1, col c1) = (if on_screen r c then (r, c) else (row (k_con k), col (k_con k)))
      \<and> (on_screen r c \<longrightarrow> hardware_cursor c1 = cpos c1) \<and> text_of (vmem c1) = text_of (vmem (k_con k))"
    using Sys_PutCursor_run [OF assms(1), of put] unfolding assms(9,10)
    by (cases "on_screen r c") (auto simp: kconsole_def assms(9,10))
  then obtain c1 where c1: "Sys_PutCursor put k = Some (Return (if on_screen r c then 0 else -1) (k\<lparr>k_con := c1\<rparr>))"
    "(row c1, col c1) = (if on_screen r c then (r, c) else (row (k_con k), col (k_con k)))"
    "on_screen r c \<longrightarrow> hardware_cursor c1 = cpos c1" "text_of (vmem c1) = text_of (vmem (k_con k))" by blast
  have ctx: "current_context (k\<lparr>k_con := c1\<rparr>) = Some ctx" using assms(2) by simp
  from Sys_GetCursor_run [OF this assms(5,6) _ assms(8)] assms(7) obtain m where
    m: "Sys_GetCursor get (k\<lparr>k_con := c1\<rparr>) = Some (Return 0 (k\<lparr>k_con := c1, k_mem := m\<rparr>))"
    "load32 m (uc_memory ctx + unat (is_ebx get)) = word_of_int (row c1)"
    "load32 m (uc_memory ctx + unat (is_ecx get)) = word_of_int (col c1)"
    "\<forall>i. \<not> (k_frame k \<le> i \<and> i < k_frame k + 8)
        \<and> \<not> (uc_memory ctx + unat (is_ebx get) \<le> i \<and> i < uc_memory ctx + unat (is_ebx get) + 4)
        \<and> \<not> (uc_memory ctx + unat (is_ecx get) \<le> i \<and> i < uc_memory ctx + unat (is_ecx get) + 4) \<longrightarrow> m i = k_mem k i"
    by auto
  let ?k1 = "k\<lparr>k_con := c1\<rparr>" let ?k2 = "?k1\<lparr>k_mem := m\<rparr>"
  have "Syscall_Handler e put k = Some (Return (put\<lparr>is_eax := if on_screen r c then 0 else -1\<rparr>) ?k1)"
    using c1(1) by (simp add: Syscall_Handler_def assms(3) g_numSyscalls_def g_syscallTable_def)
  moreover have "Syscall_Handler e get ?k1 = Some (Return (get\<lparr>is_eax := 0\<rparr>) ?k2)"
    using m(1) by (simp add: Syscall_Handler_def assms(4) g_numSyscalls_def g_syscallTable_def)
  moreover have "\<not> (k_frame k \<le> i \<and> i < k_frame k + 8)" if "uc_memory ctx \<le> i \<and> i < uc_memory ctx + unat (uc_size ctx)" for i
    using that assms(7) by (auto simp: off_user_def apart_def)
  ultimately show ?thesis using c1(2-4) m(2-4)
    by (intro exI [of _ ?k1] exI [of _ ?k2]) (cases "on_screen r c"; simp)
qed

lemma cursor_calls_agree_witness:
  "\<forall>e :: (unit, unit, unit) environment. \<exists>k1 k2. Syscall_Handler e (zero_state\<lparr>is_eax := 6, is_ebx := 3, is_ecx := 7\<rparr>) small_kernel
      = Some (Return (zero_state\<lparr>is_eax := 0, is_ebx := 3, is_ecx := 7\<rparr>) k1)
    \<and> Syscall_Handler e (zero_state\<lparr>is_eax := 5, is_ebx := 0x100, is_ecx := 0x104\<rparr>) k1
      = Some (Return (zero_state\<lparr>is_eax := 0, is_ebx := 0x100, is_ecx := 0x104\<rparr>) k2)
    \<and> load32 (k_mem k2) 0x200100 = 3 \<and> load32 (k_mem k2) 0x200104 = 7"
proof (intro allI)
  fix e :: "(unit, unit, unit) environment"
  let ?p = "zero_state\<lparr>is_eax := 6, is_ebx := 3, is_ecx := 7\<rparr>" let ?g = "zero_state\<lparr>is_eax := 5, is_ebx := 0x100, is_ecx := 0x104\<rparr>"
  have r: "user_range some_context 0x100 4" "user_range some_context 0x104 4" "off_user some_context 0x6F00 8" "apart 0x100 4 0x104 4"
    by (simp_all add: user_range_def off_user_def apart_def)
  show "\<exists>k1 k2. Syscall_Handler e (zero_state\<lparr>is_eax := 6, is_ebx := 3, is_ecx := 7\<rparr>) small_kernel
      = Some (Return (zero_state\<lparr>is_eax := 0, is_ebx := 3, is_ecx := 7\<rparr>) k1)
    \<and> Syscall_Handler e (zero_state\<lparr>is_eax := 5, is_ebx := 0x100, is_ecx := 0x104\<rparr>) k1
      = Some (Return (zero_state\<lparr>is_eax := 0, is_ebx := 0x100, is_ecx := 0x104\<rparr>) k2)
    \<and> load32 (k_mem k2) 0x200100 = 3 \<and> load32 (k_mem k2) 0x200104 = 7"
    using cursor_calls_agree [OF _ small_kernel_context, of ?p ?g 3 7 e] r blank_console_ok
    by (auto simp: zero_state_def on_screen_def)
qed

section \<open>What a call can change\<close>

lemma kprint_same:
  "kprint fmt va k = Some k' \<Longrightarrow> k_mem k' = k_mem k \<and> k_heap k' = k_heap k \<and> k_frame k' = k_frame k \<and> k_ks k' = k_ks k
     \<and> current_context k' = current_context k"
  by (auto simp: kprint_def bind_eq_Some_conv)

lemma on_threads_mem: "on_threads f k = Some k' \<Longrightarrow> k_mem k' = k_mem k"
  by (auto simp: on_threads_def bind_eq_Some_conv)

lemma copy_from_user_mem:
  assumes c: "copy_from_user p a n k = Some (ok, k')"
  shows "(\<forall>x. x < p \<or> p + unat n \<le> x \<longrightarrow> k_mem k' x = k_mem k x) \<and> k_heap k' = k_heap k \<and> k_frame k' = k_frame k"
proof -
  obtain ctx where ctx: "current_context k = Some ctx" using c by (auto simp: copy_from_user_def bind_eq_Some_conv)
  obtain o1 m where m: "Copy_From_User ctx p a n (k_mem k) = (o1, m)" by fastforce
  note c1 = c [unfolded copy_from_user_def ctx bind.bind_lunit m Let_def case_prod_conv]
  have "k_mem k' = m \<and> k_heap k' = k_heap k \<and> k_frame k' = k_frame k"
  proof (cases o1)
    case False
    with c1 have "kprint msg_from_user [] (k\<lparr>k_mem := m\<rparr>) = Some k'" by (auto simp: bind_eq_Some_conv)
    from kprint_same [OF this] show ?thesis by simp
  qed (use c1 in auto)
  moreover have "m = (if Validate_User_Memory ctx a n then memcpy p (uc_memory ctx + unat a) (unat n) (k_mem k) else k_mem k)"
    using m by (auto simp: Copy_From_User_def split: if_splits)
  ultimately show ?thesis by (cases "Validate_User_Memory ctx a n") (simp_all add: memcpy_outside)
qed

lemma copy_to_user_mem:
  assumes c: "copy_to_user a p n k = Some (ok, k')" and ctx: "current_context k = Some ctx"
  shows "current_context k' = Some ctx \<and> k_frame k' = k_frame k
    \<and> (\<forall>x. \<not> (user_range ctx a (unat n) \<and> uc_memory ctx + unat a \<le> x \<and> x < uc_memory ctx + unat a + unat n) \<longrightarrow> k_mem k' x = k_mem k x)"
proof -
  obtain o1 m where m: "Copy_To_User ctx a p n (k_mem k) = (o1, m)" by fastforce
  note c1 = c [unfolded copy_to_user_def ctx bind.bind_lunit m Let_def case_prod_conv]
  have "k_mem k' = m \<and> current_context k' = Some ctx \<and> k_frame k' = k_frame k"
  proof (cases o1)
    case False
    with c1 have "kprint msg_to_user [] (k\<lparr>k_mem := m\<rparr>) = Some k'" by (auto simp: bind_eq_Some_conv)
    from kprint_same [OF this] ctx show ?thesis by simp
  qed (use c1 ctx in auto)
  moreover have "m = (if user_range ctx a (unat n) then memcpy (uc_memory ctx + unat a) p (unat n) (k_mem k) else k_mem k)"
    using m by (auto simp: Copy_To_User_def Validate_range split: if_splits)
  ultimately show ?thesis
    by (cases "user_range ctx a (unat n)") (simp_all add: memcpy_outside not_le not_less disj_commute flip: disj_not1)
qed

definition left_by :: "('a, 's) outcome \<Rightarrow> 's" where
  "left_by r = (case r of Return _ k \<Rightarrow> k | Switch k \<Rightarrow> k)"

lemma left_by_simps [simp]: "left_by (Return a k) = k" "left_by (Switch k) = k"
  by (simp_all add: left_by_def)

lemma Sys_PrintString_mem:
  assumes r: "Sys_PrintString state k = Some r"
    and x: "is_ecx state \<le> 1024 \<longrightarrow> x < address (shd (k_heap k)) \<or> address (shd (k_heap k)) + unat (is_ecx state) < x"
  shows "k_mem (left_by r) x = k_mem k x"
proof (cases "is_ecx state > 1024")
  case True
  with r obtain k1 where "kprint msg_too_long [] k = Some k1" "r = Return (-1) k1"
    by (auto simp: Sys_PrintString_def Let_def bind_eq_Some_conv)
  with kprint_same [OF this(1)] show ?thesis by simp
next
  case False
  let ?n = "is_ecx state" let ?p = "address (shd (k_heap k))" let ?k0 = "k\<lparr>k_heap := stl (k_heap k)\<rparr>"
  note r1 = r [unfolded Sys_PrintString_def Let_def if_not_P [OF False] kmalloc_def case_prod_conv]
  from r1 obtain k1 where k1: "(if shd (k_heap k) = None then kprint msg_no_buffer [] ?k0 else Some ?k0) = Some k1"
    by (auto simp: bind_eq_Some_conv)
  note r2 = r1 [unfolded k1 bind.bind_lunit]
  from r2 obtain ok k2 where k2: "copy_from_user ?p (is_ebx state) ?n k1 = Some (ok, k2)"
    by (auto simp: bind_eq_Some_conv)
  note r3 = r2 [unfolded k2 bind.bind_lunit case_prod_conv]
  from r3 obtain k3 where k3: "(if \<not> ok then kprint msg_no_copy [] k2 else Some k2) = Some k3"
    by (auto simp: bind_eq_Some_conv)
  note r4 = r3 [unfolded k3 bind.bind_lunit]
  from r4 obtain str where str: "kstring ?p (put_byte (?p + unat ?n) 0 k3) = Some str" by (auto simp: bind_eq_Some_conv)
  note r5 = r4 [unfolded str bind.bind_lunit]
  from r5 obtain k4 where k4: "kprint [37, 115] [VStr (Some str)] (put_byte (?p + unat ?n) 0 k3) = Some k4" "r = Return 0 k4"
    by (auto simp: bind_eq_Some_conv)
  have "k_mem k1 = k_mem k" using k1 kprint_same [of msg_no_buffer "[]" ?k0 k1] by (auto split: if_splits)
  moreover have "k_mem k2 x = k_mem k1 x" using copy_from_user_mem [OF k2] x False by auto
  moreover have "k_mem k3 = k_mem k2" using k3 kprint_same [of msg_no_copy "[]" k2 k3] by (auto split: if_splits)
  moreover have "k_mem k4 x = k_mem k3 x" using kprint_same [OF k4(1)] x False by (auto simp: put_byte_def)
  ultimately show ?thesis using k4(2) by simp
qed

lemma Sys_GetCursor_mem:
  assumes r: "Sys_GetCursor state k = Some r" and ctx: "current_context k = Some ctx" and x: "\<not> (k_frame k \<le> x \<and> x < k_frame k + 8)"
    and u: "\<forall>a \<in> {is_ebx state, is_ecx state}. \<not> (user_range ctx a 4 \<and> uc_memory ctx + unat a \<le> x \<and> x < uc_memory ctx + unat a + 4)"
  shows "k_mem (left_by r) x = k_mem k x"
proof -
  let ?m = "store32 (k_frame k + 4) (word_of_int (col (k_con k))) (store32 (k_frame k) (word_of_int (row (k_con k))) (k_mem k))"
  let ?k0 = "k\<lparr>k_mem := ?m\<rparr>"
  note r1 = r [unfolded Sys_GetCursor_def Get_Cursor_def Let_def case_prod_conv]
  from r1 obtain a k1 where k1: "copy_to_user (is_ebx state) (k_frame k) 4 ?k0 = Some (a, k1)" by (auto simp: bind_eq_Some_conv)
  note r2 = r1 [simplified, unfolded k1 bind.bind_lunit case_prod_conv]
  have c0: "current_context ?k0 = Some ctx" using ctx by simp
  note h1 = copy_to_user_mem [OF k1 c0]
  from r2 obtain b k2 where k2: "copy_to_user (is_ecx state) (k_frame k + 4) 4 k1 = Some (b, k2)" "left_by r = k2"
    using h1 by (auto simp: bind_eq_Some_conv)
  note h2 = copy_to_user_mem [OF k2(1) conjunct1 [OF h1]]
  have "?m x = k_mem k x" using x by (auto simp: store32_other)
  with h1 h2 u k2(2) show ?thesis by auto
qed

lemma Detach_mem:
  assumes d: "Detach_User_Context t k = Some k'"
  shows "k_mem k' = k_mem k"
proof -
  from d obtain th k1 where k1: "threads (k_ks k) t = Some th" "on_threads (upd_thread t (\<lambda>t. t\<lparr>userContext := None\<rparr>)) k = Some k1"
    by (auto simp: Detach_User_Context_def bind_eq_Some_conv)
  note d1 = d [unfolded Detach_User_Context_def k1 bind.bind_lunit]
  show ?thesis
  proof (cases "userContext th")
    case None
    with d1 on_threads_mem [OF k1(2)] show ?thesis by simp
  next
    case (Some c)
    note d2 = d1 [unfolded Some option.case]
    from d2 obtain k2 where k2: "on_threads Disable_Interrupts k1 = Some k2" by (auto simp: bind_eq_Some_conv)
    note d3 = d2 [unfolded k2 bind.bind_lunit]
    from d3 obtain uc where uc: "ucontexts (k_ks k2) c = Some uc" by (auto simp: bind_eq_Some_conv)
    let ?f = "\<lambda>s. Some (s\<lparr>ucontexts := (ucontexts s)(c \<mapsto> uc\<lparr>uc_refCount := uc_refCount uc - 1\<rparr>)\<rparr>)"
    note d4 = d3 [unfolded uc bind.bind_lunit Let_def]
    from d4 obtain k3 where k3: "on_threads ?f k2 = Some k3" by (auto simp: bind_eq_Some_conv)
    note d5 = d4 [unfolded k3 bind.bind_lunit]
    from d5 obtain k4 where k4: "on_threads Enable_Interrupts k3 = Some k4" by (auto simp: bind_eq_Some_conv)
    note d6 = d5 [unfolded k4 bind.bind_lunit]
    have "k_mem k' = k_mem k4"
    proof (cases "uc_refCount uc - 1 = 0")
      case True
      with d6 obtain g f where "on_threads f (k4\<lparr>k_gdt := g\<rparr>) = Some k'" by (auto simp: bind_eq_Some_conv)
      from on_threads_mem [OF this] show ?thesis by simp
    qed (use d6 in simp)
    with on_threads_mem [OF k1(2)] on_threads_mem [OF k2] on_threads_mem [OF k3] on_threads_mem [OF k4] show ?thesis by simp
  qed
qed

lemma Sys_Exit_mem:
  assumes "Sys_Exit c state k = Some r"
  shows "k_mem (left_by r) = k_mem k"
proof -
  from assms obtain k1 k2 k3 where
    k: "(if \<not> ints (k_ks k) then on_threads Enable_Interrupts k else Some k) = Some k1"
      "Detach_User_Context (g_currentThread (k_ks k1)) k1 = Some k2" "on_threads (Exit c (sint (is_ebx state))) k2 = Some k3" "r = Switch k3"
    by (auto simp: Sys_Exit_def Let_def bind_eq_Some_conv)
  have "k_mem k1 = k_mem k" using k(1) on_threads_mem [of Enable_Interrupts k k1] by (auto split: if_splits)
  with Detach_mem [OF k(2)] on_threads_mem [OF k(3)] k(4) show ?thesis by simp
qed

lemma Sys_Wait_mem:
  assumes "Sys_Wait state k = Some r"
  shows "k_mem (left_by r) = k_mem k"
proof -
  from assms obtain kt s where s: "Lookup_Thread (sint (is_ebx state)) (k_ks k) = Some (kt, s)"
    by (auto simp: Sys_Wait_def bind_eq_Some_conv)
  note r1 = assms [unfolded Sys_Wait_def s bind.bind_lunit case_prod_conv Let_def]
  show ?thesis
  proof (cases kt)
    case None
    with r1 obtain k1 where "kprint fmt_no_thread [VInt (is_ebx state)] (k\<lparr>k_ks := s\<rparr>) = Some k1" "r = Return (-1) k1"
      by (auto simp: bind_eq_Some_conv)
    with kprint_same [OF this(1)] show ?thesis by simp
  next
    case (Some t)
    note r2 = r1 [unfolded Some option.case]
    let ?k = "k\<lparr>k_ks := s\<rparr>"
    from r2 obtain k1 where k1: "(if \<not> ints (k_ks ?k) then on_threads Enable_Interrupts ?k else Some ?k) = Some k1"
      by (auto simp: bind_eq_Some_conv)
    note r3 = r2 [unfolded k1 bind.bind_lunit]
    then obtain y where "Join t (k_ks k1) = Some y" by (auto simp: bind_eq_Some_conv)
    with r3 have "k_mem (left_by r) = k_mem k1" by (cases y) auto
    moreover have "k_mem k1 = k_mem k" using k1 on_threads_mem [of Enable_Interrupts ?k k1] by (auto split: if_splits)
    ultimately show ?thesis by simp
  qed
qed

lemma Sys_GetKey_mem:
  assumes "Sys_GetKey state k = Some r"
  shows "k_mem (left_by r) = k_mem k"
proof -
  obtain y where y: "Wait_For_Key (k_kb k) (k_ks k) = Some y" using assms by (auto simp: Sys_GetKey_def bind_eq_Some_conv)
  with assms show ?thesis by (cases y) (auto simp: Sys_GetKey_def)
qed

lemma other_calls_mem:
  "Sys_Null state k = Some r \<Longrightarrow> k_mem (left_by r) = k_mem k"
  "Sys_SetAttr state k = Some r \<Longrightarrow> k_mem (left_by r) = k_mem k"
  "Sys_PutCursor state k = Some r \<Longrightarrow> k_mem (left_by r) = k_mem k"
  "Sys_GetPID state k = Some r \<Longrightarrow> k_mem (left_by r) = k_mem k"
  by (auto simp: Sys_Null_def Sys_SetAttr_def Sys_PutCursor_def Sys_GetPID_def bind_eq_Some_conv)

text \<open>The bytes that a call may write, by its number.\<close>

definition writable :: "user_context \<Rightarrow> interrupt_state \<Rightarrow> ('o, 'i) kernel \<Rightarrow> nat set" where
  "writable ctx state k =
     (if is_eax state = 2 \<and> is_ecx state \<le> 1024 then {address (shd (k_heap k))..address (shd (k_heap k)) + unat (is_ecx state)}
      else if is_eax state = 5 then {k_frame k..<k_frame k + 8}
        \<union> (\<Union>a \<in> {a \<in> {is_ebx state, is_ecx state}. user_range ctx a 4}. {uc_memory ctx + unat a..<uc_memory ctx + unat a + 4})
      else {})"



end
