(* ===== verification/Syscall_Threads.thy ===== *)
theory Syscall_Threads
  imports Syscall
begin

text \<open>
  System calls on the threads of the kernel: what they do to the transition system of theory
  \<open>Steps\<close> whose invariant theory \<open>System\<close> proves.  During a system call the current thread is
  where it would be if it ran kernel code of its own, with interrupts disabled by the trap.
\<close>

definition in_syscall :: "sys \<Rightarrow> (tid \<Rightarrow> place) \<Rightarrow> ('o, 'i) kernel \<Rightarrow> bool" where
  "in_syscall \<sigma> pl k \<longleftrightarrow> kinv \<sigma> pl \<and> pc \<sigma> (cur \<sigma>) = Running \<and> cur \<sigma> \<noteq> idle \<sigma>
     \<and> k_ks k = (ks \<sigma>)\<lparr>ints := False\<rparr>"

section \<open>Looking for a child\<close>

lemma child_loop_found:
  assumes "t \<in> set ts" "th t = Some k" "pid k = p" "owner k = Some c" "\<forall>u \<in> set ts. th u \<noteq> None"
    and "\<And>u l. th u = Some l \<Longrightarrow> pid l = p \<Longrightarrow> u = t"
  shows "lookup_loop th c p ts = Some (Some t)"
  using assms(1,5)
proof (induction ts)
  case (Cons u us)
  then obtain l where l: "th u = Some l" by auto
  show ?case
  proof (cases "pid l = p")
    case True
    with assms(6) [OF l] l assms(2,4) show ?thesis by auto
  next
    case False
    with l assms(2,3) Cons have "t \<in> set us" by auto
    with False l Cons show ?thesis by simp
  qed
qed simp

lemma child_loop_missing:
  assumes "\<forall>u \<in> set ts. \<exists>l. th u = Some l \<and> (pid l = p \<longrightarrow> owner l \<noteq> Some c)"
  shows "lookup_loop th c p ts = Some None"
  using assms
proof (induction ts)
  case (Cons u us)
  then obtain l where "th u = Some l" "pid l = p \<longrightarrow> owner l \<noteq> Some c" by auto
  with Cons show ?case by simp
qed simp

definition child :: "sys \<Rightarrow> int \<Rightarrow> tid \<Rightarrow> bool" where
  "child \<sigma> p u \<longleftrightarrow> (\<exists>x. threads (ks \<sigma>) u = Some x \<and> pid x = p \<and> owner x = Some (cur \<sigma>))"

lemma Lookup_Thread_child:
  assumes "running \<sigma> pl"
  shows "child \<sigma> p u \<Longrightarrow> Lookup_Thread p ((ks \<sigma>)\<lparr>ints := False\<rparr>) = Some (Some u, (ks \<sigma>)\<lparr>ints := False\<rparr>)"
    and "\<forall>u. \<not> child \<sigma> p u \<Longrightarrow> Lookup_Thread p ((ks \<sigma>)\<lparr>ints := False\<rparr>) = Some (None, (ks \<sigma>)\<lparr>ints := False\<rparr>)"
proof -
  let ?T = "threads (ks \<sigma>)"
  let ?ts = "s_allThreadList (ks \<sigma>)"
  have T: "t \<in> set ?ts \<longleftrightarrow> ?T t \<noteq> None" for t using running_mem [OF assms] by (simp add: mem_ok_def)
  have P: "t = u" if "?T t = Some k" "?T u = Some l" "pid k = pid l" for t k u l
    using running_pids [OF assms] that unfolding pids_ok_def by blast
  show "Lookup_Thread p ((ks \<sigma>)\<lparr>ints := False\<rparr>) = Some (Some u, (ks \<sigma>)\<lparr>ints := False\<rparr>)" if c: "child \<sigma> p u"
  proof -
    obtain x where x: "?T u = Some x" "pid x = p" "owner x = Some (cur \<sigma>)" using c by (auto simp: child_def)
    have "lookup_loop ?T (cur \<sigma>) p ?ts = Some (Some u)"
      by (rule child_loop_found [where k = x]) (use T x P in auto)
    then show ?thesis by (simp add: Lookup_Thread_def Begin_Int_Atomic_def End_Int_Atomic_def)
  qed
  show "Lookup_Thread p ((ks \<sigma>)\<lparr>ints := False\<rparr>) = Some (None, (ks \<sigma>)\<lparr>ints := False\<rparr>)" if "\<forall>u. \<not> child \<sigma> p u"
  proof -
    have "lookup_loop ?T (cur \<sigma>) p ?ts = Some None"
      by (rule child_loop_missing) (use T that in \<open>auto simp: child_def\<close>)
    then show ?thesis by (simp add: Lookup_Thread_def Begin_Int_Atomic_def End_Int_Atomic_def)
  qed
qed

section \<open>Waiting for a child\<close>

lemma wait_message:
  "\<exists>bs. Format_Output text_sink fmt_no_thread [VInt v] [] = Some (0, [], bs) \<and> 0x1B \<notin> set bs"
proof -
  define xs :: "u8 list" where "xs = map of_char ''Interrupt SYS_WAIT: Not Thread with pid ''"
  define ys :: "u8 list" where "ys = map of_char '' found.''"
  have f: "fmt_no_thread = xs @ [37, 117] @ ys" by (simp add: fmt_no_thread_def xs_def ys_def)
  have p: "37 \<notin> set xs" "37 \<notin> set ys" "0x1B \<notin> set xs" "0x1B \<notin> set ys" by (simp_all add: xs_def ys_def)
  have "text_loop fmt_no_thread [VInt v] = Some ([], xs @ unsigned_decimal v @ ys)"
    unfolding f using text_loop_literal [OF p(2), of "[]"]
    by (simp add: text_loop_literal_append [OF p(1)] text_loop_u del: Fmtout.format_loop.simps)
  moreover have "0x1B \<notin> set (unsigned_decimal v)" using unsigned_decimal_chars(1) [of v] by (auto simp: is_digit_def)
  ultimately show ?thesis using p by (simp add: Format_Output_def)
qed

lemma join_syscall:
  assumes "in_syscall \<sigma> pl k" "child \<sigma> p u" "u \<in> refs \<sigma>"
  shows "\<exists>r pl'. Join u (ks \<sigma>) = Some r \<and> kinv (after_join \<sigma> u r) pl'
    \<and> (\<forall>x s. r = Returned x s \<longrightarrow> pc \<sigma> u = Dead \<and> map_option exitCode (threads (ks \<sigma>) u) = Some x)"
proof -
  let ?\<sigma> = "\<sigma>\<lparr>ks := (ks \<sigma>)\<lparr>ints := False\<rparr>\<rparr>"
  have k: "kinv \<sigma> pl" "pc \<sigma> (cur \<sigma>) = Running" "cur \<sigma> \<noteq> idle \<sigma>" using assms(1) by (simp_all add: in_syscall_def)
  have i: "ints (ks \<sigma>)" using k by (simp add: kinv_def can_act_def)
  have "running ?\<sigma> pl" using kinv_running [OF k(1)] by (simp add: running_ints)
  from join_loop [OF this, of u] k assms(2,3) obtain r pl' where
    "Join_Loop u ((ks \<sigma>)\<lparr>ints := False\<rparr>) = Some r" "kinv (after_join ?\<sigma> u r) pl'"
    "\<forall>x s. r = Returned x s \<longrightarrow> pc \<sigma> u = Dead \<and> map_option exitCode (threads (ks \<sigma>) u) = Some x" by (auto simp: child_def)
  moreover have "after_join ?\<sigma> u r = after_join \<sigma> u r"
    by (simp add: after_join_def goes_to_def split: run.splits)
  ultimately show ?thesis
    using i assms(2) by (auto simp: Join_def Disable_Interrupts_def child_def)
qed


text \<open>The system that the kernel boots, with its first thread in a system call.\<close>

lemma boot_syscall:
  "\<exists>\<sigma> pl. in_syscall \<sigma> pl ((small_kernel\<lparr>k_ks := (ks \<sigma>)\<lparr>ints := False\<rparr>\<rparr>)) \<and> held \<sigma> = {} \<and> card (dom (threads (ks \<sigma>))) \<le> 3"
proof -
  obtain m where f: "fresh (boot_state m)" using fresh_8MB by blast
  obtain s i r pl where s: "s_allThreadList s = [KERN_THREAD_OBJ, i, r]" "kinv (boot_sys s i r) pl" "g_currentThread s = KERN_THREAD_OBJ"
    using Init_Scheduler_boots [OF f, of code0] by blast
  have m: "mem_ok (kmem s) (threads s) (s_allThreadList s)"
    using running_mem [OF kinv_running [OF s(2)]] by (simp add: boot_sys_def)
  then have d: "distinct [KERN_THREAD_OBJ, i, r]" "dom (threads s) = set [KERN_THREAD_OBJ, i, r]"
    using s(1) by (auto simp: mem_ok_def)
  have "card (dom (threads s)) \<le> 3" unfolding d(2) using card_length [of "[KERN_THREAD_OBJ, i, r]"] by simp
  moreover have "in_syscall (boot_sys s i r) pl (small_kernel\<lparr>k_ks := (ks (boot_sys s i r))\<lparr>ints := False\<rparr>\<rparr>)"
    using s(2,3) d(1) by (auto simp: in_syscall_def boot_sys_def)
  ultimately show ?thesis by (intro exI [of _ "boot_sys s i r"] exI [of _ pl]) (simp add: boot_sys_def)
qed


section \<open>The end of a process\<close>

lemma wake_loop_threads: "wake_loop ts s = Some s' \<Longrightarrow> threads s' = threads s \<and> ucontexts s' = ucontexts s"
  by (induction ts arbitrary: s)
    (auto simp: bind_eq_Some_conv Make_Runnable_def Enqueue_Thread_def set_queue_def split: if_splits)

lemma Wake_Up_threads: "Wake_Up q s = Some s' \<Longrightarrow> threads s' = threads s \<and> ucontexts s' = ucontexts s"
  by (auto simp: bind_eq_Some_conv Wake_Up_def set_queue_def dest: wake_loop_threads split: if_splits)

lemma Reap_Thread_threads: "Reap_Thread t s = Some s' \<Longrightarrow> threads s' = threads s \<and> ucontexts s' = ucontexts s"
  by (auto simp: bind_eq_Some_conv Reap_Thread_def Enqueue_Thread_def set_queue_def dest!: Wake_Up_threads split: if_splits)

lemma Detach_Thread_keeps:
  assumes "Detach_Thread t s = Some s'" "threads s c = Some k"
  shows "(\<exists>r. threads s' c = Some (k\<lparr>refCount := r\<rparr>)) \<and> ucontexts s' = ucontexts s"
proof -
  from assms(1) obtain x where t: "threads s t = Some x" "kassert (\<not> ints s) = Some ()" "kassert (0 < refCount x) = Some ()"
    by (auto simp: Detach_Thread_def bind_eq_Some_conv)
  define s1 where "s1 = s\<lparr>threads := (threads s)(t \<mapsto> x\<lparr>refCount := refCount x - 1\<rparr>)\<rparr>"
  have "upd_thread t (\<lambda>k. k\<lparr>refCount := refCount k - 1\<rparr>) s = Some s1" by (simp add: upd_thread_def t s1_def)
  note run = assms(1) [unfolded Detach_Thread_def t bind.bind_lunit this]
  have x: "threads s t = Some x" "s1 = s\<lparr>threads := (threads s)(t \<mapsto> x\<lparr>refCount := refCount x - 1\<rparr>)\<rparr>"
    "(if refCount x - 1 = 0 then Reap_Thread t s1 else Some s1) = Some s'"
    using run t(1) s1_def by simp_all
  then have s': "threads s' = threads s1" "ucontexts s' = ucontexts s1" using Reap_Thread_threads [of t s1 s'] by (auto split: if_splits)
  show ?thesis
  proof (cases "t = c")
    case True
    then show ?thesis using s' x(1,2) assms(2) by auto
  next
    case False
    then show ?thesis using s' x(1,2) assms(2) by (auto intro: exI [of _ "refCount k"])
  qed
qed

lemma Schedule_threads: "Schedule s = Some s' \<Longrightarrow> threads s' = threads s \<and> ucontexts s' = ucontexts s"
  by (auto simp: Schedule_def Get_Next_Runnable_def Remove_Thread_def Switch_To_Thread_def set_queue_def bind_eq_Some_conv split: if_splits)

lemma Exit_records:
  assumes e: "Exit call x s = Some s'" and d: "s_tlocalDestructors s = (\<lambda>_. 0)"
  shows "\<exists>k r. threads s (g_currentThread s) = Some k \<and> ucontexts s' = ucontexts s
    \<and> threads s' (g_currentThread s) = Some (k\<lparr>exitCode := x, alive := False, refCount := r\<rparr>)"
proof -
  let ?c = "g_currentThread s"
  from e obtain s1 k s2 where 1: "(if ints s then Disable_Interrupts s else Some s) = Some s1" "threads s1 ?c = Some k"
    and 2: "s2 = s1\<lparr>threads := (threads s1)(?c \<mapsto> k\<lparr>exitCode := x, alive := False\<rparr>)\<rparr>"
    by (auto simp: Exit_def Let_def bind_eq_Some_conv upd_thread_def split: option.splits)
  have s1: "s_tlocalDestructors s1 = (\<lambda>_. 0)" "\<not> ints s1" "threads s1 = threads s" "ucontexts s1 = ucontexts s"
    using 1(1) d by (auto simp: Disable_Interrupts_def bind_eq_Some_conv split: if_splits)
  have t: "Tlocal_Exit call ?c s2 = Some s2" by (rule Tlocal_Exit_none) (simp_all add: 2 s1)
  have "upd_thread ?c (\<lambda>k. k\<lparr>exitCode := x, alive := False\<rparr>) s1 = Some s2" by (simp add: upd_thread_def 1(2) 2)
  note e1 = e [unfolded Exit_def Let_def 1(1) bind.bind_lunit this t]
  from e1 obtain s3 s4 where 3: "Wake_Up (JoinQ ?c) s2 = Some s3" "Detach_Thread ?c s3 = Some s4" "Schedule s4 = Some s'"
    by (auto simp: bind_eq_Some_conv)
  have "threads s3 ?c = Some (k\<lparr>exitCode := x, alive := False\<rparr>)" using Wake_Up_threads [OF 3(1)] 2 by simp
  from Detach_Thread_keeps [OF 3(2) this] Schedule_threads [OF 3(3)] Wake_Up_threads [OF 3(1)] 1(2) s1(3,4) 2 show ?thesis by auto
qed

text \<open>\<open>Exit\<close> when interrupts are already disabled, with any destructor function.\<close>

lemma exit_syscall:
  assumes "in_syscall \<sigma> pl k" "\<forall>m. (cur \<sigma>, m) \<notin> held \<sigma>"
  shows "\<exists>s' pl' x r. Exit call c ((ks \<sigma>)\<lparr>ints := b\<rparr>) = Some s' \<and> kinv (goes_to \<sigma> Dead s') pl' \<and> ucontexts s' = ucontexts (ks \<sigma>)
    \<and> threads (ks \<sigma>) (cur \<sigma>) = Some x \<and> threads s' (cur \<sigma>) = Some (x\<lparr>exitCode := c, alive := False, refCount := r\<rparr>)"
proof -
  have k: "kinv \<sigma> pl" "may (AExit c) \<sigma>" using assms by (simp_all add: in_syscall_def)
  note run = kinv_running [OF k(1)]
  have i: "ints (ks \<sigma>)" using k by (simp add: kinv_def can_act_def)
  have d: "s_tlocalDestructors (ks \<sigma>) = (\<lambda>_. 0)" using run by (simp add: state_defs)
  have same: "Exit call c ((ks \<sigma>)\<lparr>ints := b\<rparr>) = Exit no_call c (ks \<sigma>)"
  proof -
    have dis: "(if ints s then Disable_Interrupts s else Some s) = Some (s\<lparr>ints := False\<rparr>)" for s
      by (cases s) (auto simp: Disable_Interrupts_def)
    obtain x where x: "threads (ks \<sigma>) (cur \<sigma>) = Some x" using running_cur(2) [OF run] by auto
    let ?s = "(ks \<sigma>)\<lparr>ints := False, threads := (threads (ks \<sigma>))(cur \<sigma> \<mapsto> x\<lparr>exitCode := c, alive := False\<rparr>)\<rparr>"
    have "Tlocal_Exit f (cur \<sigma>) ?s = Some ?s" for f by (rule Tlocal_Exit_none) (simp_all add: d)
    then show ?thesis unfolding Exit_def Let_def dis by (simp add: upd_thread_def x)
  qed
  from exit_step [OF k, of undefined] obtain s' pl' where s': "Exit no_call c (ks \<sigma>) = Some s'" "kinv (goes_to \<sigma> Dead s') pl'"
    by (auto simp: bind_eq_Some_conv)
  from Exit_records [OF s'(1) d] s' same show ?thesis by auto
qed

text \<open>The invariant does not look at user contexts.\<close>

lemma kinv_context:
  assumes inv: "kinv \<sigma> pl" and t: "threads (ks \<sigma>) t = Some x"
  shows "kinv (\<sigma>\<lparr>ks := (ks \<sigma>)\<lparr>threads := (threads (ks \<sigma>))(t \<mapsto> x\<lparr>userContext := u\<rparr>), ucontexts := U\<rparr>\<rparr>) pl"
proof -
  let ?T = "threads (ks \<sigma>)" let ?T' = "?T(t \<mapsto> x\<lparr>userContext := u\<rparr>)"
  note run = kinv_running [OF inv]
  have ex: "?T' v = None \<longleftrightarrow> ?T v = None" for v using t by auto
  have own: "map_option owner (?T' v) = map_option owner (?T v)" for v using t by auto
  have L: "life_ok ?T (pc \<sigma>) pl (refs \<sigma>) (reaper \<sigma>)" by (rule running_life [OF run])
  have f: "\<exists>y. ?T v = Some y \<and> alive y = alive z \<and> refCount y = refCount z" if "?T' v = Some z" for v z
    using that t by (auto split: if_splits)
  have "life_ok ?T' (pc \<sigma>) pl (refs \<sigma>) (reaper \<sigma>)"
  proof (rule life_okI)
    show "alive z = (pc \<sigma> v \<noteq> Dead)" if "?T' v = Some z" for v z using f [OF that] life_okD(1) [OF L] by metis
    show "refCount z = of_bool (pc \<sigma> v \<noteq> Dead) + of_bool (v \<in> refs \<sigma>)" if "?T' v = Some z" for v z
      using f [OF that] life_okD(2) [OF L] by metis
    show "v \<in> refs \<sigma> \<and> map_option owner (?T' v) = Some (Some w)" if "?T' w \<noteq> None" "pc \<sigma> w = Joining v" for v w
      using that life_okD(4) [OF L, of w v] unfolding own ex by blast
    show "(?T' v \<noteq> None \<and> pc \<sigma> v = Dead \<and> v \<notin> refs \<sigma>) = (pl v = In GraveyardQ \<or> v \<in> set (batch (pc \<sigma> (reaper \<sigma>))))" for v
      using life_okD(6) [OF L, of v] unfolding ex .
  qed (use life_okD [OF L] ex in blast)+
  moreover have "places_ok ?T' (pc \<sigma>) pl (idle \<sigma>) (reaper \<sigma>)"
    using running_places [OF run] unfolding places_ok_def ex by blast
  moreover have "mutex_ok ?T' (pc \<sigma>) pl (mutexes (ks \<sigma>)) (held \<sigma>)"
    using running_mutex [OF run] unfolding mutex_ok_def ex by blast
  ultimately show ?thesis
    using inv mem_ok_update [OF running_mem [OF run] t, of "x\<lparr>userContext := u\<rparr>"]
      pids_ok_update [OF running_pids [OF run] t, of "x\<lparr>userContext := u\<rparr>"]
    by (simp add: kinv_def state_defs)
qed

lemma Detach_User_Context_run:
  assumes "threads (k_ks k) t = Some x" "userContext x = Some c" "ints (k_ks k)" "ucontexts (k_ks k) c = Some uc" "uc_refCount uc = 1"
    and "Destroy_User_Context uc (k_gdt k) = Some g"
  shows "Detach_User_Context t k = Some (k\<lparr>k_gdt := g, k_ks := (k_ks k)\<lparr>threads := (threads (k_ks k))(t \<mapsto> x\<lparr>userContext := None\<rparr>),
    ucontexts := (ucontexts (k_ks k))(c := None)\<rparr>\<rparr>)"
proof -
  have "ints (k_ks k) = True" using assms(3) by simp
  then have same: "(k_ks k)\<lparr>threads := T, ints := True, ucontexts := U\<rparr> = (k_ks k)\<lparr>threads := T, ucontexts := U\<rparr>" for T U
    by (cases "k_ks k") simp
  show ?thesis
    using assms by (cases "k_ks k", cases k)
      (simp add: Detach_User_Context_def on_threads_def upd_thread_def Disable_Interrupts_def Enable_Interrupts_def Let_def)
qed

lemma illegal_message:
  "\<exists>bs. Format_Output text_sink fmt_illegal [VInt v, VInt w] [] = Some (0, [], bs) \<and> 0x1B \<notin> set bs"
proof -
  define xs :: "u8 list" where "xs = map of_char ''Illegal system call ''"
  define ys :: "u8 list" where "ys = map of_char '' by process ''"
  have f: "fmt_illegal = xs @ [37, 100] @ ys @ [37, 100] @ [10]" by (simp add: fmt_illegal_def xs_def ys_def)
  have p: "37 \<notin> set xs" "37 \<notin> set ys" "0x1B \<notin> set xs" "0x1B \<notin> set ys" by (simp_all add: xs_def ys_def)
  have "text_loop fmt_illegal [VInt v, VInt w] = Some ([], xs @ signed_decimal v @ ys @ signed_decimal w @ [10])"
    unfolding f using text_loop_literal [of "[10]" "[]"]
    by (simp add: text_loop_literal_append [OF p(1)] text_loop_literal_append [OF p(2)] text_loop_d del: Fmtout.format_loop.simps)
  moreover have "0x1B \<notin> set (signed_decimal x)" for x using signed_decimal_chars(2) [of x] by (auto simp: is_digit_def)
  ultimately show ?thesis using p by (simp add: Format_Output_def)
qed

text \<open>
  Property C14.  A process that makes a system call with a number that does not exist, whatever it is, is ended with exit code
  -1, one that calls \<open>Exit\<close> with the code that it passes: the processor goes to another thread, the
  invariant of the threads holds, and the thread object keeps the code for its parent.  By its own call of
  \<open>Exit\<close> a process also gives its memory back, if it is its only user; when it is ended for
  an illegal number its context stays attached.
\<close>

theorem process_ends:
  assumes "in_syscall \<sigma> pl k" and "\<forall>m. (cur \<sigma>, m) \<notin> held \<sigma>" and "con_ok (k_con k)" and "con_state (k_con k) = S_NORMAL"
    and "threads (ks \<sigma>) (cur \<sigma>) = Some x" and "userContext x = Some c" and "ucontexts (ks \<sigma>) c = Some uc"
    and "uc_refCount uc = 1" and "Destroy_User_Context uc (k_gdt k) = Some g"
    and "unat (is_eax state) \<ge> 10 \<or> is_eax state = 1"
  shows "\<exists>k' pl' y. Syscall_Handler e state k = Some (Switch k') \<and> kinv (goes_to \<sigma> Dead (k_ks k')) pl'
    \<and> threads (k_ks k') (cur \<sigma>) = Some y \<and> \<not> alive y
    \<and> exitCode y = (if is_eax state = 1 then sint (is_ebx state) else -1)
    \<and> userContext y = (if is_eax state = 1 then None else Some c)
    \<and> ucontexts (k_ks k') c = (if is_eax state = 1 then None else Some uc)
    \<and> (is_eax state = 1 \<longrightarrow> k_gdt k' = g)"
proof (cases "is_eax state = 1")
  case False
  then have n: "unat (is_eax state) \<ge> g_numSyscalls e" using assms(10) by (simp add: g_numSyscalls_def g_syscallTable_def)
  have ks: "k_ks k = (ks \<sigma>)\<lparr>ints := False\<rparr>" using assms(1) by (simp add: in_syscall_def)
  obtain bs where "Format_Output text_sink fmt_illegal [VInt (is_eax state), VInt (word_of_int (pid x))] [] = Some (0, [], bs)" "0x1B \<notin> set bs"
    using illegal_message by blast
  from kprint_shows [OF assms(3,4) this] obtain con where
    p: "kprint fmt_illegal [VInt (is_eax state), VInt (word_of_int (pid x))] k = Some (k\<lparr>k_con := con\<rparr>)" by blast
  obtain s' pl' r where e: "Exit (e_destructor e) (-1) ((ks \<sigma>)\<lparr>ints := False\<rparr>) = Some s'" "kinv (goes_to \<sigma> Dead s') pl'"
    "ucontexts s' = ucontexts (ks \<sigma>)" "threads s' (cur \<sigma>) = Some (x\<lparr>exitCode := -1, alive := False, refCount := r\<rparr>)"
    using exit_syscall [OF assms(1,2), of "e_destructor e" "-1" False] assms(5) by auto
  have "Syscall_Handler e state k = Some (Switch (k\<lparr>k_con := con, k_ks := s'\<rparr>))"
    using n p e(1) ks assms(5) by (simp add: Syscall_Handler_def on_threads_def)
  with e(2-4) False assms(6,7) show ?thesis by auto
next
  case True
  let ?s = "(ks \<sigma>)\<lparr>threads := (threads (ks \<sigma>))(cur \<sigma> \<mapsto> x\<lparr>userContext := None\<rparr>), ucontexts := (ucontexts (ks \<sigma>))(c := None)\<rparr>"
  let ?\<sigma> = "\<sigma>\<lparr>ks := ?s\<rparr>"
  have k: "kinv \<sigma> pl" "pc \<sigma> (cur \<sigma>) = Running" "cur \<sigma> \<noteq> idle \<sigma>" "k_ks k = (ks \<sigma>)\<lparr>ints := False\<rparr>"
    using assms(1) by (simp_all add: in_syscall_def)
  have i: "ints (ks \<sigma>)" using k(1,2) by (simp add: kinv_def can_act_def)
  then have on: "(ks \<sigma>)\<lparr>ints := True\<rparr> = ks \<sigma>" by simp
  have in': "in_syscall ?\<sigma> pl (k\<lparr>k_ks := ?s\<lparr>ints := False\<rparr>\<rparr>)"
    using kinv_context [OF k(1) assms(5)] k(2,3) by (simp add: in_syscall_def)
  have held: "\<forall>m. (cur ?\<sigma>, m) \<notin> held ?\<sigma>" using assms(2) by simp
  have same: "?s\<lparr>ints := True\<rparr> = ?s" using i by simp
  from exit_syscall [OF in' held, of "e_destructor e" "sint (is_ebx state)" True]
  obtain s' pl' r where e: "Exit (e_destructor e) (sint (is_ebx state)) ?s = Some s'" "kinv (goes_to ?\<sigma> Dead s') pl'"
    "ucontexts s' = ucontexts ?s" "threads s' (cur \<sigma>) = Some (x\<lparr>userContext := None, exitCode := sint (is_ebx state), alive := False, refCount := r\<rparr>)"
    using same by auto
  have d: "Detach_User_Context (cur \<sigma>) (k\<lparr>k_ks := ks \<sigma>\<rparr>) = Some (k\<lparr>k_gdt := g, k_ks := ?s\<rparr>)"
    using Detach_User_Context_run [of "k\<lparr>k_ks := ks \<sigma>\<rparr>" "cur \<sigma>" x c uc g] assms(5-9) i by simp
  have "Syscall_Handler e state k = Some (Switch (k\<lparr>k_gdt := g, k_ks := s'\<rparr>))"
    using True k(4) on d e(1)
    by (simp add: Syscall_Handler_def g_numSyscalls_def g_syscallTable_def Sys_Exit_def on_threads_def Enable_Interrupts_def)
  moreover have "goes_to ?\<sigma> Dead s' = goes_to \<sigma> Dead s'" by (simp add: goes_to_def)
  ultimately show ?thesis using e(2-4) True by auto
qed

lemma process_ends_witness:
  "\<forall>e :: (unit, unit, unit) environment. \<exists>\<sigma> pl k k' y. in_syscall \<sigma> pl k \<and> Syscall_Handler e (zero_state\<lparr>is_eax := 1, is_ebx := 3\<rparr>) k = Some (Switch k')
    \<and> threads (k_ks k') (cur \<sigma>) = Some y \<and> \<not> alive y \<and> exitCode y = 3 \<and> userContext y = None"
proof (intro allI)
  fix e :: "(unit, unit, unit) environment"
  obtain \<rho> pl where \<rho>: "in_syscall \<rho> pl (small_kernel\<lparr>k_ks := (ks \<rho>)\<lparr>ints := False\<rparr>\<rparr>)" "held \<rho> = {}" using boot_syscall by blast
  then have k: "kinv \<rho> pl" by (simp add: in_syscall_def)
  obtain x where x: "threads (ks \<rho>) (cur \<rho>) = Some x" using running_cur(2) [OF kinv_running [OF k]] by auto
  let ?uc = "some_context\<lparr>uc_refCount := 1\<rparr>" let ?x = "x\<lparr>userContext := Some 9\<rparr>"
  define \<sigma> where "\<sigma> = \<rho>\<lparr>ks := (ks \<rho>)\<lparr>threads := (threads (ks \<rho>))(cur \<rho> \<mapsto> ?x), ucontexts := [9 \<mapsto> ?uc]\<rparr>\<rparr>"
  let ?g = "fresh_gdt\<lparr>s_GDT := replicate 16 Init_Null_Segment_Descriptor\<rparr>"
  let ?k = "small_kernel\<lparr>k_ks := (ks \<sigma>)\<lparr>ints := False\<rparr>, k_gdt := ?g\<rparr>"
  have i: "in_syscall \<sigma> pl ?k"
    using kinv_context [OF k x, where u = "Some 9" and U = "[9 \<mapsto> ?uc]"] \<rho>(1) by (simp add: in_syscall_def \<sigma>_def)
  have "\<exists>g. Destroy_User_Context ?uc (k_gdt ?k) = Some g"
    by (simp add: Destroy_User_Context_def Free_Segment_Descriptor_def some_context_def Init_Null_Segment_Descriptor_def)
  then obtain g where g: "Destroy_User_Context ?uc (k_gdt ?k) = Some g" by blast
  let ?s = "zero_state\<lparr>is_eax := 1, is_ebx := 3\<rparr>"
  have h: "\<forall>m. (cur \<sigma>, m) \<notin> held \<sigma>" "con_ok (k_con ?k)" "con_state (k_con ?k) = S_NORMAL"
    "threads (ks \<sigma>) (cur \<sigma>) = Some ?x" "userContext ?x = Some 9" "ucontexts (ks \<sigma>) 9 = Some ?uc" "uc_refCount ?uc = 1"
    "unat (is_eax ?s) \<ge> 10 \<or> is_eax ?s = 1"
    using blank_console_ok \<rho>(2) by (simp_all add: \<sigma>_def)
  from process_ends [OF i h(1-7) g h(8), of e] obtain k' y where
    "Syscall_Handler e ?s ?k = Some (Switch k')" "threads (k_ks k') (cur \<sigma>) = Some y" "\<not> alive y" "exitCode y = 3" "userContext y = None"
    by auto
  with i show "\<exists>\<sigma> pl k k' y. in_syscall \<sigma> pl k \<and> Syscall_Handler e (zero_state\<lparr>is_eax := 1, is_ebx := 3\<rparr>) k = Some (Switch k')
    \<and> threads (k_ks k') (cur \<sigma>) = Some y \<and> \<not> alive y \<and> exitCode y = 3 \<and> userContext y = None" by blast
qed

end
