(* ===== verification/Usercalls.thy ===== *)
theory Usercalls
  imports Syscall Libuser
begin

text \<open>
  System calls as a program sees them: the wrapper functions that \<open>DEF_SYSCALL\<close> of
  \<open>include/geekos/syscall.h\<close> generates in \<open>src/libc/conio.c\<close> and \<open>src/libc/process.c\<close>, on top of the
  handler of theory \<open>Syscall\<close>.  They make the kernel, while one of its processes runs, an instance of the interface
  on which theory \<open>Libuser\<close> rests.
\<close>

section \<open>Traps\<close>

text \<open>
  The trap disables interrupts, and the return from it enables them.  A call that gives the processor
  to another thread has no result here.
\<close>

definition trap :: "('o, 'd, 'i) environment \<Rightarrow> interrupt_state \<Rightarrow> ('o, 'i) kernel \<Rightarrow> (u32 \<times> ('o, 'i) kernel) option" where
  "trap e state k = do {
     r \<leftarrow> Syscall_Handler e state (k\<lparr>k_ks := (k_ks k)\<lparr>ints := False\<rparr>\<rparr>);
     (case r of
        Return state k \<Rightarrow> Some (is_eax state, k\<lparr>k_ks := (k_ks k)\<lparr>ints := True\<rparr>\<rparr>)
      | Switch k \<Rightarrow> None)
   }"

text \<open>The system call \<open>num\<close>; the list has the arguments, and \<open>state\<close> the other registers.\<close>

definition user_call ::
  "('o, 'd, 'i) environment \<Rightarrow> interrupt_state \<Rightarrow> u32 \<Rightarrow> u32 list \<Rightarrow> ('o, 'i) kernel \<Rightarrow> (u32 \<times> ('o, 'i) kernel) option" where
  "user_call e state num regs k = trap e
     (case regs of
        [] \<Rightarrow> state\<lparr>is_eax := num\<rparr>
      | [b] \<Rightarrow> state\<lparr>is_eax := num, is_ebx := b\<rparr>
      | [b, c] \<Rightarrow> state\<lparr>is_eax := num, is_ebx := b, is_ecx := c\<rparr>
      | b # c # d # ss \<Rightarrow> state\<lparr>is_eax := num, is_ebx := b, is_ecx := c, is_edx := d, is_esi := (case ss of [] \<Rightarrow> is_esi state | s # _ \<Rightarrow> s)\<rparr>) k"

text \<open>What a program stores at an address of its own.\<close>

definition user_store :: "u32 \<Rightarrow> u8 list \<Rightarrow> ('o, 'i) kernel \<Rightarrow> ('o, 'i) kernel option" where
  "user_store a bs k = do {
     ctx \<leftarrow> current_context k;
     Some (k\<lparr>k_mem := put_bytes (uc_memory ctx + unat a) bs (k_mem k)\<rparr>)
   }"

definition user_load32 :: "u32 \<Rightarrow> ('o, 'i) kernel \<Rightarrow> u32 option" where
  "user_load32 a k = do { ctx \<leftarrow> current_context k; Some (load32 (k_mem k) (uc_memory ctx + unat a)) }"

section \<open>The wrapper functions\<close>

text \<open>
  The strings and integers whose addresses are passed are stored at \<open>ua\<close>, which stands for the place of
  the local variables of the program; the two integers of \<open>Get_Cursor\<close> are zero before the call.
\<close>

definition call_Print_String ::
  "('o, 'd, 'i) environment \<Rightarrow> interrupt_state \<Rightarrow> u32 \<Rightarrow> u8 list \<Rightarrow> ('o, 'i) kernel \<Rightarrow> (int \<times> ('o, 'i) kernel) option" where
  "call_Print_String e state ua str k = do {
     k \<leftarrow> user_store ua (str @ [0]) k;
     (rc, k) \<leftarrow> user_call e state 2 [ua, word_of_nat (length str)] k;
     Some (sint rc, k)
   }"

definition call_Get_Key ::
  "('o, 'd, 'i) environment \<Rightarrow> interrupt_state \<Rightarrow> ('o, 'i) kernel \<Rightarrow> (u16 \<times> ('o, 'i) kernel) option" where
  "call_Get_Key e state k = do { (rc, k) \<leftarrow> user_call e state 3 [] k; Some (ucast rc, k) }"

definition call_Get_Cursor ::
  "('o, 'd, 'i) environment \<Rightarrow> interrupt_state \<Rightarrow> u32 \<Rightarrow> ('o, 'i) kernel \<Rightarrow> ((int \<times> int) option \<times> ('o, 'i) kernel) option" where
  "call_Get_Cursor e state ua k = do {
     k \<leftarrow> user_store ua (replicate 8 0) k;
     (_, k) \<leftarrow> user_call e state 5 [ua, ua + 4] k;
     r \<leftarrow> user_load32 ua k;
     c \<leftarrow> user_load32 (ua + 4) k;
     Some (Some (sint r, sint c), k)
   }"

definition call_Spawn_Program ::
  "('o, 'd, 'i) environment \<Rightarrow> interrupt_state \<Rightarrow> u32 \<Rightarrow> u8 list \<Rightarrow> u8 list \<Rightarrow> ('o, 'i) kernel \<Rightarrow> (int \<times> ('o, 'i) kernel) option" where
  "call_Spawn_Program e state ua program command k = do {
     let uc = ua + word_of_nat (length program + 1);
     k \<leftarrow> user_store ua (program @ [0] @ command @ [0]) k;
     (rc, k) \<leftarrow> user_call e state 7 [ua, word_of_nat (length program), uc, word_of_nat (length command)] k;
     Some (sint rc, k)
   }"

definition call_Wait ::
  "('o, 'd, 'i) environment \<Rightarrow> interrupt_state \<Rightarrow> int \<Rightarrow> ('o, 'i) kernel \<Rightarrow> (int \<times> ('o, 'i) kernel) option" where
  "call_Wait e state p k = do { (rc, k) \<leftarrow> user_call e state 8 [word_of_int p] k; Some (sint rc, k) }"

definition call_Get_PID ::
  "('o, 'd, 'i) environment \<Rightarrow> interrupt_state \<Rightarrow> ('o, 'i) kernel \<Rightarrow> (int \<times> ('o, 'i) kernel) option" where
  "call_Get_PID e state k = do { (rc, k) \<leftarrow> user_call e state 9 [] k; Some (sint rc, k) }"

definition kernel_sys :: "('o, 'd, 'i) environment \<Rightarrow> interrupt_state \<Rightarrow> u32 \<Rightarrow> ('o, 'i) kernel Libuser.sys" where
  "kernel_sys e state ua = \<lparr>Print_String = call_Print_String e state ua, Get_Key = call_Get_Key e state,
     Get_Cursor = call_Get_Cursor e state ua, Spawn_Program = call_Spawn_Program e state ua,
     Wait = call_Wait e state, Get_PID = call_Get_PID e state\<rparr>"

section \<open>The process\<close>

text \<open>The key codes in the ring buffer of the keyboard driver.\<close>

definition keys_of :: "keyboard \<Rightarrow> u16 list" where
  "keys_of kb = map (\<lambda>i. s_queue kb ! ((s_queueHead kb + i) mod QUEUE_SIZE))
     [0..<(s_queueTail kb + QUEUE_SIZE - s_queueHead kb) mod QUEUE_SIZE]"

lemma keys_of_repr:
  assumes "kb_repr kb codes"
  shows "keys_of kb = codes"
proof -
  let ?h = "s_queueHead kb" let ?n = "length codes"
  have r: "?h < 256" "?n < 256" "s_queueTail kb = (?h + ?n) mod 256"
    "\<And>i. i < ?n \<Longrightarrow> s_queue kb ! ((?h + i) mod 256) = codes ! i"
    using assms by (auto simp: kb_repr_def QUEUE_SIZE_def)
  have "(s_queueTail kb + 256 - ?h) mod 256 = ?n"
  proof (cases "?h + ?n < 256")
    case False
    then have "s_queueTail kb = ?h + ?n - 256" using r(1-3) by (simp add: mod_if)
    with False r(1,2) show ?thesis by simp
  qed (use r(2,3) in simp)
  with r(4) show ?thesis by (auto simp: keys_of_def QUEUE_SIZE_def intro: nth_equalityI)
qed

text \<open>
  A process with the 1025 bytes at \<open>ua\<close> for its strings runs: its memory is apart from the kernel's
  stack and from the blocks that the heap gives to the kernel, and the heap has such blocks.
\<close>

definition process_ok :: "u32 \<Rightarrow> ('o, 'i) kernel \<Rightarrow> bool" where
  "process_ok ua k \<longleftrightarrow> con_ok (k_con k) \<and> (\<exists>codes. kb_repr (k_kb k) codes) \<and> ints (k_ks k)
     \<and> (\<exists>ctx. current_context k = Some ctx \<and> unat ua + 1025 \<le> unat (uc_size ctx) \<and> off_user ctx (k_frame k) 8
        \<and> (\<forall>p \<in> sset (k_heap k). p \<noteq> None \<and> off_user ctx (address p) 1025))"

lemma process_okD:
  assumes "process_ok ua k"
  shows "con_ok (k_con k)" "kb_repr (k_kb k) (keys_of (k_kb k))" "ints (k_ks k)"
    "(k_ks k)\<lparr>ints := True\<rparr> = k_ks k"
    "\<exists>ctx p. current_context k = Some ctx \<and> unat ua + 1025 \<le> unat (uc_size ctx) \<and> off_user ctx (k_frame k) 8
       \<and> shd (k_heap k) = Some p \<and> off_user ctx p 1025"
proof -
  show "con_ok (k_con k)" "ints (k_ks k)" using assms by (simp_all add: process_ok_def)
  then show "(k_ks k)\<lparr>ints := True\<rparr> = k_ks k" by simp
  from assms obtain codes where "kb_repr (k_kb k) codes" by (auto simp: process_ok_def)
  with keys_of_repr [OF this] show "kb_repr (k_kb k) (keys_of (k_kb k))" by simp
  from assms obtain ctx where ctx: "current_context k = Some ctx" "unat ua + 1025 \<le> unat (uc_size ctx)" "off_user ctx (k_frame k) 8"
    and h: "\<forall>p \<in> sset (k_heap k). p \<noteq> None \<and> off_user ctx (address p) 1025" by (auto simp: process_ok_def)
  from h shd_sset [of "k_heap k"] obtain p where "shd (k_heap k) = Some p" "off_user ctx p 1025"
    by (auto simp: address_def)
  with ctx show "\<exists>ctx p. current_context k = Some ctx \<and> unat ua + 1025 \<le> unat (uc_size ctx) \<and> off_user ctx (k_frame k) 8
       \<and> shd (k_heap k) = Some p \<and> off_user ctx p 1025" by blast
qed

text \<open>What calls keep of it.\<close>

lemma process_ok_keep:
  assumes "process_ok ua k" "con_ok (k_con k')" "\<exists>codes. kb_repr (k_kb k') codes" "k_ks k' = k_ks k"
    and "k_heap k' = k_heap k \<or> k_heap k' = stl (k_heap k)" "k_frame k' = k_frame k"
  shows "process_ok ua k'"
proof -
  have "current_context k' = current_context k" by (simp add: current_context_def assms(4))
  moreover have "sset (k_heap k') \<subseteq> sset (k_heap k)" using assms(5) by (auto dest: stl_sset)
  ultimately show ?thesis using assms by (auto simp: process_ok_def)
qed

lemma current_context_ints [simp]:
  "current_context (k\<lparr>k_ks := (k_ks k)\<lparr>ints := b\<rparr>\<rparr>) = current_context k"
  "current_context (k\<lparr>k_mem := m, k_ks := (k_ks k)\<lparr>ints := b\<rparr>\<rparr>) = current_context k"
  by (simp_all add: current_context_def)

lemma trap_return:
  assumes "Syscall_Handler e state (k\<lparr>k_ks := (k_ks k)\<lparr>ints := False\<rparr>\<rparr>) = Some (Return state' k')" "k_ks k' = (k_ks k)\<lparr>ints := False\<rparr>"
    and "ints (k_ks k)"
  shows "trap e state k = Some (is_eax state', k'\<lparr>k_ks := k_ks k\<rparr>)"
proof -
  have "(k_ks k)\<lparr>ints := True\<rparr> = k_ks k" using assms(3) by simp
  with assms show ?thesis by (simp add: trap_def)
qed

lemma user_string:
  assumes "unat n = length t" "0 \<notin> set t"
  shows "takeWhile (\<lambda>c. c \<noteq> 0) (user_bytes ctx a (unat n) (put_bytes (uc_memory ctx + unat a) (t @ [0]) m)) = t"
proof -
  have "user_bytes ctx a (unat n) (put_bytes (uc_memory ctx + unat a) (t @ [0]) m) = t"
    by (rule nth_equalityI) (simp_all add: user_bytes_def put_bytes_at assms(1) nth_append)
  then show ?thesis using assms(2) by (simp only:) (auto simp: takeWhile_eq_all_conv)
qed

lemma call_Print_String_run:
  assumes ok: "process_ok ua k" and t: "0 \<notin> set t" "length t \<le> 1024" "esc_text t (esc_of (k_con k)) = Some x"
  shows "\<exists>k'. call_Print_String e state ua t k = Some (0, k') \<and> process_ok ua k' \<and> k_kb k' = k_kb k \<and> esc_of (k_con k') = x"
proof -
  from process_okD(5) [OF ok] obtain ctx p where ctx: "current_context k = Some ctx" "unat ua + 1025 \<le> unat (uc_size ctx)"
    and p: "shd (k_heap k) = Some p" "off_user ctx p 1025" by blast
  let ?n = "word_of_nat (length t) :: u32"
  have n: "unat ?n = length t" using t(2) by (simp add: unat_of_nat)
  define k0 where "k0 = k\<lparr>k_mem := put_bytes (uc_memory ctx + unat ua) (t @ [0]) (k_mem k)\<rparr>"
  let ?k1 = "k0\<lparr>k_ks := (k_ks k0)\<lparr>ints := False\<rparr>\<rparr>"
  let ?st = "state\<lparr>is_eax := 2, is_ebx := ua, is_ecx := ?n\<rparr>"
  let ?k2 = "?k1\<lparr>k_heap := stl (k_heap ?k1), k_mem := copied p ctx ua (unat ?n) (k_mem ?k1)\<rparr>"
  have "current_context ?k1 = Some ctx" "user_range ctx (is_ebx ?st) (unat (is_ecx ?st))" "is_ecx ?st \<le> 1024"
    "shd (k_heap ?k1) = Some p" "off_user ctx p (unat (is_ecx ?st) + 1)"
    using ctx p t(2) n by (auto simp: k0_def user_range_def off_user_def apart_def word_le_nat_alt)
  note print = Sys_PrintString_run [OF this]
  have s: "takeWhile (\<lambda>c. c \<noteq> 0) (user_bytes ctx ua (unat ?n) (k_mem ?k1)) = t"
    using user_string [OF n t(1), of ctx ua "k_mem k"] by (simp add: k0_def)
  have "length t < 2 ^ 31" using t(2) by simp
  from kprint_esc [OF _ Format_Output_s [OF this], of ?k2 x] t(3) process_okD(1) [OF ok] obtain c where
    c: "kprint [37, 115] [VStr (Some t)] ?k2 = Some (?k2\<lparr>k_con := c\<rparr>)" "con_ok c" "esc_of c = x"
    by (auto simp: k0_def)
  have "Sys_PrintString ?st ?k1 = Some (Return 0 (?k2\<lparr>k_con := c\<rparr>))"
    using print c(1) s by simp
  then have "Syscall_Handler e ?st ?k1 = Some (Return (?st\<lparr>is_eax := 0\<rparr>) (?k2\<lparr>k_con := c\<rparr>))"
    by (simp add: Syscall_Handler_def g_numSyscalls_def g_syscallTable_def)
  from trap_return [OF this] process_okD(3) [OF ok]
  have "trap e ?st k0 = Some (0, ?k2\<lparr>k_con := c, k_ks := k_ks k\<rparr>)" by (simp add: k0_def)
  then have "call_Print_String e state ua t k = Some (0, ?k2\<lparr>k_con := c, k_ks := k_ks k\<rparr>)"
    using ctx(1) by (simp add: call_Print_String_def user_store_def user_call_def k0_def)
  moreover have "process_ok ua (?k2\<lparr>k_con := c, k_ks := k_ks k\<rparr>)"
    by (rule process_ok_keep [OF ok]) (use c(2) process_okD(2) [OF ok] in \<open>auto simp: k0_def\<close>)
  ultimately show ?thesis using c(3) by (intro exI conjI) (assumption, assumption, simp_all add: k0_def)
qed

lemma call_Get_Cursor_run:
  assumes ok: "process_ok ua k"
  shows "\<exists>r c k'. call_Get_Cursor e state ua k = Some (Some (r, c), k') \<and> process_ok ua k' \<and> k_kb k' = k_kb k \<and> k_con k' = k_con k"
proof -
  from process_okD(5) [OF ok] obtain ctx where ctx: "current_context k = Some ctx" "unat ua + 1025 \<le> unat (uc_size ctx)"
    and f: "off_user ctx (k_frame k) 8" by blast
  have "unat ua + 4 < 2 ^ 32" using ctx(2) unsigned_less [of "uc_size ctx", where 'a = nat] by simp
  then have a4: "unat (ua + 4) = unat ua + 4" by (simp add: unat_word_ariths)
  define k0 where "k0 = k\<lparr>k_mem := put_bytes (uc_memory ctx + unat ua) (replicate 8 0) (k_mem k)\<rparr>"
  let ?k1 = "k0\<lparr>k_ks := (k_ks k0)\<lparr>ints := False\<rparr>\<rparr>"
  let ?st = "state\<lparr>is_eax := 5, is_ebx := ua, is_ecx := ua + 4\<rparr>"
  have "current_context ?k1 = Some ctx" "user_range ctx (is_ebx ?st) 4" "user_range ctx (is_ecx ?st) 4"
    "off_user ctx (k_frame ?k1) 8" "apart (unat (is_ebx ?st)) 4 (unat (is_ecx ?st)) 4"
    using ctx f by (simp_all add: k0_def user_range_def a4 apart_def)
  from Sys_GetCursor_run [OF this] obtain m where m: "Sys_GetCursor ?st ?k1 = Some (Return 0 (?k1\<lparr>k_mem := m\<rparr>))" by blast
  then have "Syscall_Handler e ?st ?k1 = Some (Return (?st\<lparr>is_eax := 0\<rparr>) (?k1\<lparr>k_mem := m\<rparr>))"
    by (simp add: Syscall_Handler_def g_numSyscalls_def g_syscallTable_def)
  from trap_return [OF this] process_okD(3) [OF ok]
  have "trap e ?st k0 = Some (0, ?k1\<lparr>k_mem := m, k_ks := k_ks k\<rparr>)" (is "_ = Some (0, ?k2)") by (simp add: k0_def)
  moreover have c2: "current_context ?k2 = Some ctx" using ctx(1) by (simp add: k0_def current_context_def)
  ultimately have "\<exists>r c. call_Get_Cursor e state ua k = Some (Some (r, c), ?k2)"
    using ctx(1) by (auto simp: call_Get_Cursor_def user_store_def user_load32_def user_call_def k0_def)
  moreover have "process_ok ua ?k2"
    by (rule process_ok_keep [OF ok]) (use process_okD(1,2) [OF ok] in \<open>auto simp: k0_def\<close>)
  ultimately show ?thesis by (auto simp: k0_def)
qed

lemma call_Get_Key_run:
  assumes ok: "process_ok ua k" and keys: "keys_of (k_kb k) = x # xs"
  shows "\<exists>k'. call_Get_Key e state k = Some (x, k') \<and> process_ok ua k' \<and> keys_of (k_kb k') = xs \<and> k_con k' = k_con k"
proof -
  from process_okD(2) [OF ok] keys have "kb_repr (k_kb k) (x # xs)" by simp
  from Dequeue_Keycode_repr [OF this] kb_empty [OF this] obtain kb where
    kb: "Dequeue_Keycode (k_kb k) = Some (x, kb)" "kb_repr kb xs" "\<not> Is_Queue_Empty (k_kb k)" by auto
  let ?k1 = "k\<lparr>k_ks := (k_ks k)\<lparr>ints := False\<rparr>\<rparr>" let ?st = "state\<lparr>is_eax := 3\<rparr>"
  have "Wait_For_Key (k_kb ?k1) (k_ks ?k1) = Some (Returned (x, kb) (k_ks ?k1))"
    using kb(1,3) by (simp add: Wait_For_Key_def Wait_For_Key_Loop_def Begin_Int_Atomic_def End_Int_Atomic_def)
  then have "Sys_GetKey ?st ?k1 = Some (Return (uint x) (?k1\<lparr>k_kb := kb\<rparr>))" by (simp add: Sys_GetKey_def)
  then have "Syscall_Handler e ?st ?k1 = Some (Return (?st\<lparr>is_eax := word_of_int (uint x)\<rparr>) (?k1\<lparr>k_kb := kb\<rparr>))"
    by (simp add: Syscall_Handler_def g_numSyscalls_def g_syscallTable_def)
  from trap_return [OF this] process_okD(3) [OF ok]
  have t: "trap e ?st k = Some (word_of_int (uint x), ?k1\<lparr>k_kb := kb, k_ks := k_ks k\<rparr>)" (is "_ = Some (_, ?k2)") by simp
  have "ucast (word_of_int (uint x) :: u32) = x" by (rule bit_word_eqI) (simp add: bit_simps)
  with t have "call_Get_Key e state k = Some (x, ?k2)" by (simp add: call_Get_Key_def user_call_def)
  moreover have "process_ok ua ?k2"
    by (rule process_ok_keep [OF ok]) (use process_okD(1) [OF ok] kb(2) in auto)
  ultimately show ?thesis using keys_of_repr [OF kb(2)] by auto
qed

section \<open>The interface of the library\<close>

interpretation process: console_calls "kernel_sys e state ua" "\<lambda>k. keys_of (k_kb k)" "\<lambda>k. esc_of (k_con k)" "process_ok ua"
  for e :: "('o, 'd, 'i) environment" and state ua
proof unfold_locales
  show "\<exists>r k'. Print_String (kernel_sys e state ua) t k = Some (r, k') \<and> process_ok ua k' \<and> keys_of (k_kb k') = keys_of (k_kb k) \<and> esc_of (k_con k') = x"
    if "process_ok ua k" "0 \<notin> set t" "length t \<le> 1024" "esc_text t (esc_of (k_con k)) = Some x" for k :: "('o, 'i) kernel" and t x
    using call_Print_String_run [OF that, of e state] by (auto simp: kernel_sys_def)
  show "\<exists>p k'. Libuser.Get_Cursor (kernel_sys e state ua) k = Some (p, k') \<and> process_ok ua k' \<and> keys_of (k_kb k') = keys_of (k_kb k)
      \<and> esc_of (k_con k') = esc_of (k_con k)" if "process_ok ua k" for k :: "('o, 'i) kernel"
    using call_Get_Cursor_run [OF that, of e state] by (auto simp: kernel_sys_def)
  show "\<exists>k'. Get_Key (kernel_sys e state ua) k = Some (x, k') \<and> process_ok ua k' \<and> keys_of (k_kb k') = xs \<and> esc_of (k_con k') = esc_of (k_con k)"
    if "process_ok ua k" "keys_of (k_kb k) = x # xs" for k :: "('o, 'i) kernel" and x xs
    using call_Get_Key_run [OF that, of e state] by (auto simp: kernel_sys_def)
qed

text \<open>
  Property C5.  A process that reads a line gets what was typed: with the keys of the line in the buffer of the
  keyboard driver, \<open>Read_Line\<close> on the system calls of the kernel returns without giving up the processor and leaves the edited
  line in the program's buffer, and exactly the keys after Enter remain in the driver's buffer.  The echo and the
  commands for the cursor go through the trap, the copies from user memory and the console's escape
  sequences, and leave the console in its normal state.
\<close>

theorem process_reads_line:
  assumes "process_ok ua k" and "con_state (k_con k) = S_NORMAL" and "keys_of (k_kb k) = xs @ x # rest"
    and "\<forall>y \<in> set xs. typed y \<noteq> Some 10" and "typed x = Some 10" and "echo \<longrightarrow> Some 0x1B \<notin> typed ` set xs"
    and "0 < bufSize" and "bufSize \<le> length buf"
  shows "\<exists>buf' k'. Read_Line (kernel_sys e state ua) echo buf bufSize k = Some (buf', k')
    \<and> process_ok ua k' \<and> esc_of (k_con k') = Plain \<and> keys_of (k_kb k') = rest
    \<and> (let line = fold (edit (bufSize - 1)) (xs @ [x]) []
       in length line < bufSize \<and> take (length line) buf' = line \<and> buf' ! length line = 0)
    \<and> length buf' = length buf \<and> drop bufSize buf' = drop bufSize buf"
proof -
  have "process.ready ua (xs @ x # rest) k"
    unfolding process.ready_def using assms(1-3) by (simp add: esc_of_def)
  from process.Read_Line_run [OF this assms(4-8), of e state] show ?thesis
    by (simp add: process.ready_def conj_assoc)
qed

text \<open>The keys a, b, backspace and Enter, and one more, wait in the driver's buffer.\<close>

definition typed_kernel :: "(unit, unit) kernel" where
  "typed_kernel = small_kernel\<lparr>k_kb := \<lparr>s_shiftState = 0, s_queue = [97, 98, 8, 13, 99] @ replicate 251 0, s_queueHead = 0, s_queueTail = 5\<rparr>\<rparr>"

lemma typed_kernel_keys: "kb_repr (k_kb typed_kernel) [97, 98, 8, 13, 99]"
  by (auto simp: kb_repr_def typed_kernel_def QUEUE_SIZE_def less_Suc_eq)

lemma typed_kernel_ok: "process_ok 0x100 typed_kernel"
proof -
  have "current_context typed_kernel = Some some_context"
    using small_kernel_context by (simp add: typed_kernel_def)
  moreover have "ints (k_ks typed_kernel)" "sset (k_heap typed_kernel) = {Some 0x300000}" "k_con typed_kernel = blank_console"
    "k_frame typed_kernel = 0x6F00"
    by (simp_all add: typed_kernel_def small_kernel_def boot_state_def)
  ultimately show ?thesis
    using blank_console_ok typed_kernel_keys by (auto simp: process_ok_def off_user_def apart_def address_def)
qed

lemma process_reads_line_witness:
  "\<forall>(e :: (unit, unit, unit) environment) state. \<exists>buf' k'. Read_Line (kernel_sys e state 0x100) True (replicate 10 9) 10 typed_kernel = Some (buf', k')
     \<and> take 2 buf' = [97, 10] \<and> buf' ! 2 = 0 \<and> keys_of (k_kb k') = [99]"
proof (intro allI)
  fix e :: "(unit, unit, unit) environment" and state
  have t: "typed 97 = Some 97" "typed 98 = Some 98" "typed 8 = Some 8" "typed 13 = Some 10"
    by (simp_all add: typed_def KEY_SPECIAL_FLAG_def KEY_RELEASE_FLAG_def)
  have k: "keys_of (k_kb typed_kernel) = [97, 98, 8] @ 13 # [99]" using keys_of_repr [OF typed_kernel_keys] by simp
  have c: "con_state (k_con typed_kernel) = S_NORMAL" by (simp add: typed_kernel_def)
  have line: "fold (edit (10 - 1)) ([97, 98, 8] @ [13]) [] = [97, 10]" by (simp add: t edit_def)
  have p: "\<forall>y \<in> set [97, 98, 8]. typed y \<noteq> Some 10" "True \<longrightarrow> Some 0x1B \<notin> typed ` set [97, 98, 8]" by (simp_all add: t)
  have l: "length [97, 10 :: u8] = 2" "(0 :: nat) < 10" "10 \<le> length (replicate 10 (9 :: u8))" by simp_all
  from process_reads_line [OF typed_kernel_ok c k p(1) t(4) p(2) l(2,3), of e state, unfolded line Let_def l(1)] show "\<exists>buf' k'. Read_Line (kernel_sys e state 0x100) True (replicate 10 9) 10 typed_kernel = Some (buf', k')
     \<and> take 2 buf' = [97, 10] \<and> buf' ! 2 = 0 \<and> keys_of (k_kb k') = [99]" by blast
qed

section \<open>Starting a program\<close>

lemma copied_outside: "x < p \<or> p + n < x \<Longrightarrow> copied p ctx a n m x = m x"
  by (auto simp: copied_def moved_def)

lemma user_bytes_outside:
  assumes "user_range ctx a n" "off_user ctx p (l + 1)"
  shows "user_bytes ctx a n (copied p ctx b l m) = user_bytes ctx a n m"
  using assms by (auto simp: user_bytes_def copied_def moved_def user_range_def off_user_def apart_def)

text \<open>The strings that \<open>Sys_Spawn\<close> copies; it passes them to \<open>Spawn\<close> in the other order.\<close>

lemma Sys_Spawn_strings:
  assumes ctx: "current_context k = Some ctx"
    and a: "user_range ctx (is_ebx st) n" "n = unat (is_ecx st)" and b: "user_range ctx (is_edx st) l" "l = unat (is_esi st)" "l \<le> 1023"
    and p: "shd (k_heap k) = Some p" "off_user ctx p (n + 1)" and q: "shd (stl (k_heap k)) = Some q" "off_user ctx q (l + 1)"
    and pq: "apart p (n + 1) q (l + 1)" and i: "\<not> ints (k_ks k)"
  shows "\<exists>m. Sys_Spawn vt ef un st k = do {
      (rc, k) \<leftarrow> Spawn vt ef un (takeWhile (\<lambda>c. c \<noteq> 0) (user_bytes ctx (is_edx st) l (k_mem k)))
        (takeWhile (\<lambda>c. c \<noteq> 0) (user_bytes ctx (is_ebx st) n (k_mem k)))
        (k\<lparr>k_heap := stl (stl (k_heap k)), k_mem := m, k_ks := (k_ks k)\<lparr>ints := True\<rparr>\<rparr>);
      k \<leftarrow> on_threads Disable_Interrupts k;
      Some (Return rc k) }"
proof -
  let ?m1 = "copied p ctx (is_ebx st) n (k_mem k)" let ?m2 = "copied q ctx (is_edx st) l ?m1"
  define k1 where "k1 = k\<lparr>k_heap := stl (k_heap k)\<rparr>"
  define k2 where "k2 = k1\<lparr>k_mem := ?m1, k_heap := stl (k_heap k1)\<rparr>"
  have "off_user ctx p n" "off_user ctx q l" using p(2) q(2) by (auto simp: off_user_def apart_def)
  note off = this
  have c1: "copy_from_user p (is_ebx st) (is_ecx st) k1
      = Some (True, k1\<lparr>k_mem := moved p (uc_memory ctx + unat (is_ebx st)) n (k_mem k)\<rparr>)"
    using copy_from_user_run [of k1 ctx "is_ebx st" "is_ecx st" p] ctx a off(1) by (simp add: k1_def)
  have c2: "copy_from_user q (is_edx st) (is_esi st) k2
      = Some (True, k2\<lparr>k_mem := moved q (uc_memory ctx + unat (is_edx st)) l ?m1\<rparr>)"
    using copy_from_user_run [of k2 ctx "is_edx st" "is_esi st" q] ctx b(1,2) off(2) by (simp add: k1_def k2_def)
  let ?k = "k\<lparr>k_heap := stl (stl (k_heap k)), k_mem := ?m2, k_ks := (k_ks k)\<lparr>ints := True\<rparr>\<rparr>"
  let ?c = "takeWhile (\<lambda>c. c \<noteq> 0) (user_bytes ctx (is_edx st) l (k_mem k))"
  let ?p = "takeWhile (\<lambda>c. c \<noteq> 0) (user_bytes ctx (is_ebx st) n (k_mem k))"
  have sq: "kstring q ?k = Some ?c"
    using copied_string [of q ctx "is_edx st" l ?m1] user_bytes_outside [OF b(1) p(2)] by (intro kstring_cstr) simp
  have len: "length ?p \<le> n" using length_takeWhile_le [of "\<lambda>c. c \<noteq> 0" "user_bytes ctx (is_ebx st) n (k_mem k)"] by (simp add: user_bytes_def)
  have "\<forall>j \<le> length ?p. ?m2 (p + j) = ?m1 (p + j)"
  proof (intro allI impI)
    fix j
    assume "j \<le> length ?p"
    then have "p + j < q \<or> q + l < p + j" using len pq unfolding apart_def by linarith
    then show "?m2 (p + j) = ?m1 (p + j)" by (rule copied_outside)
  qed
  then have sp: "kstring p ?k = Some ?p"
    using copied_string [of p ctx "is_ebx st" n "k_mem k"] cstr_cong [of ?p ?m2 p ?m1] by (intro kstring_cstr) simp
  have "\<not> is_esi st > VFS_MAX_PATH_LEN" using b(2,3) by (simp add: VFS_MAX_PATH_LEN_def word_less_nat_alt)
  note short = if_not_P [OF this]
  have on: "(if \<not> ints (k_ks k3) then on_threads Enable_Interrupts k3 else Some k3) = Some (k3\<lparr>k_ks := (k_ks k)\<lparr>ints := True\<rparr>\<rparr>)"
    if "k_ks k3 = k_ks k" for k3 :: "('o, 'i) kernel" using that i by (simp add: on_threads_def Enable_Interrupts_def)
  have put1: "put_byte (p + unat (is_ecx st)) 0 (k1\<lparr>k_mem := moved p (uc_memory ctx + unat (is_ebx st)) n (k_mem k)\<rparr>) = k1\<lparr>k_mem := ?m1\<rparr>"
    by (simp add: put_byte_def copied_def a(2))
  have put2: "put_byte (q + unat (is_esi st)) 0 (k2\<lparr>k_mem := moved q (uc_memory ctx + unat (is_edx st)) l ?m1\<rparr>) = k2\<lparr>k_mem := ?m2\<rparr>"
    by (simp add: put_byte_def copied_def b(2))
  have k2: "kmalloc (k1\<lparr>k_mem := ?m1\<rparr>) = (Some q, k2)" using q(1) by (simp add: kmalloc_def k1_def k2_def)
  have k: "k2\<lparr>k_mem := ?m2, k_ks := (k_ks k)\<lparr>ints := True\<rparr>\<rparr> = ?k" by (simp add: k1_def k2_def)
  have kk: "k_ks (k2\<lparr>k_mem := ?m2\<rparr>) = k_ks k" by (simp add: k1_def k2_def)
  have "kmalloc k = (Some p, k1)" using p(1) by (simp add: kmalloc_def k1_def)
  then have "Sys_Spawn vt ef un st k = do {
      (rc, k) \<leftarrow> Spawn vt ef un ?c ?p ?k;
      k \<leftarrow> on_threads Disable_Interrupts k;
      Some (Return rc k) }"
    unfolding Sys_Spawn_def Let_def by (simp only: case_prod_conv address_def option.case c1 c2 bind.bind_lunit put1 put2 k2 short on [OF kk] k sq sp)
  then show ?thesis by blast
qed

text \<open>The message for a file that cannot be read.\<close>

definition not_found_text :: "u8 list \<Rightarrow> u8 list" where
  "not_found_text name = map of_char ''Command '' @ [34] @ name @ [34] @ map of_char '' not found. ''"

lemma fmt_not_found_text:
  assumes "length name < 2 ^ 31"
  shows "Format_Output text_sink fmt_not_found [VStr (Some name)] [] = Some (0, [], not_found_text name)"
proof -
  define xs ys :: "u8 list" where "xs = map of_char ''Command '' @ [34]" and "ys = 34 # map of_char '' not found. ''"
  have f: "fmt_not_found = xs @ 37 # 115 # ys" "not_found_text name = xs @ name @ ys"
    by (simp_all add: fmt_not_found_def not_found_text_def xs_def ys_def)
  have "37 \<notin> set xs" "37 \<notin> set ys" by (simp_all add: xs_def ys_def)
  then show ?thesis
    unfolding f by (simp add: Format_Output_def text_loop_literal_append text_loop_s [OF assms] text_loop_literal
      del: Fmtout.format_loop.simps)
qed

lemma user_two_strings:
  assumes "unat ub = unat ua + (length xs + 1)"
    and m0: "m0 = put_bytes (uc_memory ctx + unat ua) (xs @ [0] @ ys @ [0]) m"
  shows "user_bytes ctx ua (length xs) m0 = xs" "user_bytes ctx ub (length ys) m0 = ys"
  by (rule nth_equalityI; simp add: user_bytes_def m0 put_bytes_at assms(1) nth_append)+

lemma Sys_Spawn_missing:
  assumes strings: "current_context k = Some ctx"
      "user_range ctx (is_ebx st) n" "n = unat (is_ecx st)" "user_range ctx (is_edx st) l" "l = unat (is_esi st)" "l \<le> 1023"
      "shd (k_heap k) = Some p" "off_user ctx p (n + 1)" "shd (stl (k_heap k)) = Some q" "off_user ctx q (l + 1)"
      "apart p (n + 1) q (l + 1)" "\<not> ints (k_ks k)"
    and cmd: "user_bytes ctx (is_edx st) l (k_mem k) = cmd" "0 \<notin> set cmd" "0x1B \<notin> set cmd"
    and con: "con_ok (k_con k)" "con_state (k_con k) = S_NORMAL"
    and missing: "Read_Fully vt cmd (k_vfs k) = Some (r, b, v)" "r < 0"
  shows "\<exists>c m. Sys_Spawn vt ef un st k = Some (Return (-1) (k\<lparr>k_con := c, k_mem := m, k_vfs := v, k_heap := stl (stl (k_heap k))\<rparr>))
    \<and> con_ok c \<and> con_state c = S_NORMAL
    \<and> terminal_of c = fold (show_byte (currentAttr (k_con k))) (not_found_text cmd) (terminal_of (k_con k))"
proof -
  have t: "takeWhile (\<lambda>c. c \<noteq> 0) (user_bytes ctx (is_edx st) l (k_mem k)) = cmd"
    unfolding cmd(1) using cmd(2) by (auto simp: takeWhile_eq_all_conv)
  from Sys_Spawn_strings [OF strings, of vt ef un, unfolded t] obtain prog m where
    m: "Sys_Spawn vt ef un st k = do {
      (rc, k) \<leftarrow> Spawn vt ef un cmd prog (k\<lparr>k_heap := stl (stl (k_heap k)), k_mem := m, k_ks := (k_ks k)\<lparr>ints := True\<rparr>\<rparr>);
      k \<leftarrow> on_threads Disable_Interrupts k;
      Some (Return rc k) }" by blast
  define k2 where "k2 = k\<lparr>k_heap := stl (stl (k_heap k)), k_mem := m, k_ks := (k_ks k)\<lparr>ints := True\<rparr>, k_vfs := v\<rparr>"
  have "length cmd = l" unfolding cmd(1) [symmetric] by (simp add: user_bytes_def)
  then have "length cmd < 2 ^ 31" using strings(6) by simp
  moreover have "0x1B \<notin> set (not_found_text cmd)" using cmd(3) by (simp add: not_found_text_def)
  ultimately obtain c where c: "kprint fmt_not_found [VStr (Some cmd)] k2 = Some (k2\<lparr>k_con := c\<rparr>)" "con_ok c" "con_state c = S_NORMAL"
    "terminal_of c = fold (show_byte (currentAttr (k_con k))) (not_found_text cmd) (terminal_of (k_con k))"
    using kprint_shows [OF _ _ fmt_not_found_text, of k2 cmd] con by (auto simp: k2_def)
  have off: "(k_ks k)\<lparr>ints := False\<rparr> = k_ks k" using strings(12) by simp
  have "Sys_Spawn vt ef un st k = Some (Return (-1) (k2\<lparr>k_con := c, k_ks := k_ks k\<rparr>))"
    unfolding m using missing c(1) off by (simp add: Spawn_def k2_def on_threads_def Disable_Interrupts_def)
  then show ?thesis using c(2-4) by (intro exI [of _ c] exI [of _ m]) (simp add: k2_def)
qed



end
