(* ===== verification/Spec2Isabelle.thy ===== *)
theory Spec2Isabelle
  imports Frames Console Crc32 Argblock Storage Shell_Main Syscall_Threads Usercalls
begin

text \<open>
  A verification library for GeekOS, the teaching kernel in \<open>project2\<close> of this repository: its
  C code under \<open>project2/src\<close> and \<open>project2/include\<close>, together with the timer events that only
  \<open>project3/src/geekos/timer.c\<close> has.  File names below are relative to these directories.

  \<^bold>\<open>The program.\<close>  GeekOS boots on a PC, takes over the memory, and runs kernel threads and
  user processes.  \<open>mem.c\<close> keeps the page frames; \<open>kthread.c\<close> creates, schedules and destroys
  threads, \<open>synch.c\<close> gives them mutexes and condition variables, \<open>idt.c\<close>, \<open>irq.c\<close> and \<open>timer.c\<close>
  handle interrupts, which may preempt a thread.  \<open>gdt.c\<close>, \<open>segment.c\<close>, \<open>userseg.c\<close>,
  \<open>argblock.c\<close> and \<open>elf.c\<close> build the memory of a user process from an executable, which \<open>vfs.c\<close>
  and \<open>pfat.c\<close> read from a disk through the request queue of \<open>blockdev.c\<close> and the driver \<open>ide.c\<close>.  \<open>keyboard.c\<close> and
  \<open>screen.c\<close> are the console, which \<open>fmtout.c\<close> formats for.  \<open>list.h\<close>, \<open>bitset.c\<close>, \<open>string.c\<close> and
  \<open>crc32.c\<close> are used by all.  Processes enter the kernel by the trap of \<open>trap.c\<close>
  and the table of \<open>syscall.c\<close>; \<open>user.c\<close> starts and ends them.  They use the library of \<open>libc/conio.c\<close> and
  \<open>libc/process.c\<close>; the first of them is the shell, \<open>user/shell.c\<close>.
  The host tool \<open>buildFat.c\<close> makes the disk images that the kernel reads.

  \<^bold>\<open>Conventions.\<close>  A C structure is a record, an enumeration a datatype, \<open>unsigned\<close> integers are
  words of their width, signed ones either words read with \<open>sint\<close> or, where the code cannot
  overflow, integers.  A function of C is a definition of the same name that takes the state
  and returns its result with the new state.  The option monad stands for stopping: \<open>None\<close> is
  a failed \<open>KASSERT\<close>, an access outside of an object, a null pointer that is followed, or a loop
  that does not end.  Error codes are the values that the code returns.  Loops whose end is
  not structural have a termination proof with a measure; the few that may run for ever
  (\<open>Read_Fully\<close>, the overlapping copies of \<open>memmove\<close>, the busy waits of the disk driver, reading a line, the
  main loop of the shell) are \<open>partial_function\<close>s, and the theorems say that they return.  No fuel is used.  What the hardware or code outside of the repository
  answers (device status, a driver's transfer, the success of \<open>Malloc\<close>, the contents of a block
  that \<open>Malloc\<close> returns) is an argument or a component of the state, so that the theorems hold
  for all answers or name the answers they need.

  \<^bold>\<open>Theories.\<close>
  \<^item> \<open>Prelude\<close>: machine integers, constants of \<open>defs.h\<close>, the option monad with \<open>kassert\<close>, shared
    list and map lemmas.
  \<^item> \<open>Linked_List\<close>: the lists of \<open>list.h\<close> on links and end pointers; every operation refines the
    operation on abstract lists, which justifies the list-valued queues of the other theories.
  \<^item> \<open>CString\<close>: \<open>string.c\<close>, \<open>memmove.c\<close> on a byte-addressed memory; correctness of the copying,
    comparing and searching functions and of \<open>atoi\<close>.  \<open>Bitset\<close>: \<open>bitset.c\<close> refines sets.
    \<open>Crc32\<close>: the table-driven checksum is polynomial division.
  \<^item> \<open>Phys_Mem\<close>: \<open>mem.c\<close>, \<open>mem.h\<close>, \<open>range.h\<close>: the page list, its invariant, boot, allocation, freeing.
  \<^item> \<open>Segment\<close>, \<open>Argblock\<close>, \<open>Elf\<close>, \<open>User_Context\<close>: descriptors and the descriptor table, argument
    blocks, the ELF parser, and the memory of processes with its checked copies.
  \<^item> \<open>Kthread\<close>, \<open>Synch\<close>: threads, queues, the scheduler, mutexes and conditions, on one kernel
    state \<open>kstate\<close>.  A function that switches threads is split at the switch.  \<open>Sched\<close>: the effect
    of every queue operation on the places of the threads, with the choice of the best thread.
  \<^item> \<open>Interrupt\<close>, \<open>Timer\<close>: gates, interrupt mask, dispatch and preemption; ticks and timer events.
  \<^item> \<open>Steps\<close>, \<open>Invariant\<close>, \<open>System\<close>, \<open>Reach\<close>: all threads as one transition system, its invariant in
    parts, the proof that every step succeeds and keeps it, and what follows for all reachable
    states: mutual exclusion, no lost wake-up, one place per thread, separate pages, exact
    reference counts.  \<open>Frames\<close>: the initial stacks of threads as the assembly code restores them.
  \<^item> \<open>Keyboard\<close>: the ring of key codes and the scan code machine.  \<open>Screen\<close>: display memory, escape
    sequences, and the refinement of an abstract terminal.
  \<^item> \<open>Fmtout\<close>: \<open>Format_Output\<close> over an output sink.  The locale \<open>sink_contract\<close> says what a sink
    promises; in it the output of every directive is the same text on every sink.  It is
    interpreted on the string sink of \<open>snprintf\<close> and, in \<open>Console\<close>, on the screen of \<open>Print\<close>.
    \<open>Format_Text\<close>: the texts of the formats that the other theories print.  \<open>Console\<close> also has the automaton
    of the escape sequences, which says which texts the console takes and where they leave it.
  \<^item> \<open>Blockdev\<close>: the protocol between threads and a driver, and the device list.  \<open>Vfs\<close>: paths,
    mounts and dispatch.  \<open>Pfat\<close>: the file system, from the bytes of the disk to the contents of
    files.  \<open>BuildFat\<close>: the tool that writes images, and the round trip through tool and kernel:
    its output satisfies \<open>image_has\<close>, the format of an image, and a kernel whose disk satisfies it
    mounts the image and reads every file back.
  \<^item> \<open>Ide\<close>: the disk driver \<open>ide.c\<close> on port operations, and an abstract ATA controller: on it the
    driver's requests read and write an array of blocks.  \<open>Storage\<close> puts the layers together, from
    the files of the host through \<open>buildFat\<close>, the drive, the driver and the file system to the
    bytes that a program reads.
  \<^item> \<open>Syscall\<close>: the system calls, the trap handlers and the functions of \<open>user.c\<close> on the state of the whole
    kernel; what each call shows, returns and can write.  \<open>Syscall_Threads\<close>: waiting for a child and ending
    a process keep the invariant of \<open>System\<close>.
  \<^item> \<open>Libuser\<close>: the user library over an interface of system calls, the locale \<open>console_calls\<close>: reading
    a line, and the search for programs.  \<open>Usercalls\<close>: the wrapper functions of the library put the kernel of
    \<open>Syscall\<close> under this interface, as an interpretation of the locale; so a process reads the line that
    the keyboard driver has queued.
  \<^item> \<open>Shell\<close>: the parser of command lines, its round trip with a printer, and that it stays in its buffers.
    \<open>Shell_Main\<close>: the main loop; the shell ends with the command for it.

  \<^bold>\<open>Not modelled.\<close>  The floppy and DMA drivers and \<open>io.c\<close> (programming of devices whose
  behaviour is not in the repository; that of an ATA controller is standardised, and theory \<open>Ide\<close>
  states what the disk driver needs of it); the heap \<open>bget.c\<close>, third-party code; assembly other than
  the stack layouts; the main program; the test programs of \<open>user\<close> and the start code of \<open>libc\<close>; the messages
  that the loader of programs writes; copies and earlier states of the kernel.  The rest of the
  repository (Minix 3, drivers from a book, a compiler in Java) is not part of the program.
\<close>

end
